(* ===== verification/Prelude.thy ===== *)
theory Prelude
  imports Main "HOL-Library.Word" "HOL-Library.Monad_Syntax"
begin

text \<open>
  Shared material: the Rust machine integers and the arithmetic of the standard library on
  them, and generic lemmas on words, bits of integers, lists and options. A panic (an
  arithmetic overflow of the plain operators, a failed \<open>assert!\<close>, an \<open>unwrap\<close> of
  \<open>None\<close>) is the value \<open>None\<close> of an \<open>option\<close>; the computations are chained
  with the option monad.
\<close>

unbundle bit_operations_syntax

named_theorems panic_free \<open>facts that a computation does not panic, with its value\<close>
named_theorems canonical_intros \<open>closure of canonical field elements under the operations\<close>

section \<open>Rust integers\<close>

type_synonym u8 = "8 word"
type_synonym u32 = "32 word"
type_synonym u64 = "64 word"
type_synonym u128 = "128 word"
type_synonym i64 = "64 word"

text \<open>\<open>x.overflowing_add(y)\<close> and \<open>x.overflowing_sub(y)\<close> return the wrapped result and
  whether it wrapped; the plain operators panic instead.\<close>

definition overflowing_add :: "'a::len word \<Rightarrow> 'a word \<Rightarrow> 'a word \<times> bool" where
  "overflowing_add x y = (x + y, 2 ^ LENGTH('a) \<le> uint x + uint y)"

definition overflowing_sub :: "'a::len word \<Rightarrow> 'a word \<Rightarrow> 'a word \<times> bool" where
  "overflowing_sub x y = (x - y, uint x < uint y)"

definition plain_add :: "'a::len word \<Rightarrow> 'a word \<Rightarrow> 'a word option" where
  "plain_add x y = (if uint x + uint y < 2 ^ LENGTH('a) then Some (x + y) else None)"

definition plain_sub :: "'a::len word \<Rightarrow> 'a word \<Rightarrow> 'a word option" where
  "plain_sub x y = (if uint y \<le> uint x then Some (x - y) else None)"

definition plain_mul :: "'a::len word \<Rightarrow> 'a word \<Rightarrow> 'a word option" where
  "plain_mul x y = (if uint x * uint y < 2 ^ LENGTH('a) then Some (x * y) else None)"

text \<open>\<open>assert!\<close> and \<open>debug_assert!\<close> panic when the condition is false.\<close>

definition rust_assert :: "bool \<Rightarrow> unit option" where
  "rust_assert b = (if b then Some () else None)"

lemma rust_assert_simps [simp]:
  "rust_assert True = Some ()" "rust_assert False = None"
  by (simp_all add: rust_assert_def)

lemma rust_assert_bind_eq_Some [simp]:
  "(rust_assert b \<bind> (\<lambda>u. f)) = Some y \<longleftrightarrow> b \<and> f = Some y"
  by (cases b) simp_all

lemma uint_add_no_overflow:
  "uint x + uint y < 2 ^ LENGTH('a) \<Longrightarrow> uint (x + y :: 'a::len word) = uint x + uint y"
  by (simp add: uint_word_ariths)

lemma uint_add_overflow:
  fixes x y :: "'a::len word"
  assumes "2 ^ LENGTH('a) \<le> uint x + uint y"
  shows "uint (x + y) = uint x + uint y - 2 ^ LENGTH('a)"
proof -
  have "uint x < 2 ^ LENGTH('a)" "uint y < 2 ^ LENGTH('a)" by simp_all
  then have "(uint x + uint y) mod 2 ^ LENGTH('a)
      = (uint x + uint y - 2 ^ LENGTH('a)) mod 2 ^ LENGTH('a)" by simp
  also have "\<dots> = uint x + uint y - 2 ^ LENGTH('a)"
    using assms \<open>uint x < _\<close> \<open>uint y < _\<close> by (intro mod_pos_pos_trivial) linarith+
  finally show ?thesis by (simp add: uint_word_ariths)
qed

lemma uint_sub_no_underflow:
  "uint y \<le> uint x \<Longrightarrow> uint (x - y :: 'a::len word) = uint x - uint y"
  by (simp add: uint_word_ariths mod_pos_pos_trivial order.strict_trans1 [of _ "uint x"])

lemma uint_sub_underflow:
  fixes x y :: "'a::len word"
  assumes "uint x < uint y"
  shows "uint (x - y) = uint x - uint y + 2 ^ LENGTH('a)"
proof -
  have b: "uint y < 2 ^ LENGTH('a)" "0 \<le> uint x" by simp_all
  have "(uint x - uint y) mod 2 ^ LENGTH('a)
      = (uint x - uint y + 2 ^ LENGTH('a)) mod 2 ^ LENGTH('a)" by simp
  also have "\<dots> = uint x - uint y + 2 ^ LENGTH('a)"
    using assms b by (intro mod_pos_pos_trivial) linarith+
  finally show ?thesis by (simp add: uint_word_ariths)
qed

lemma uint_mul_no_overflow:
  "uint x * uint y < 2 ^ LENGTH('a) \<Longrightarrow> uint (x * y :: 'a::len word) = uint x * uint y"
  by (simp add: uint_word_ariths)

lemma plain_add_Some [panic_free]:
  fixes x y :: "'a::len word"
  assumes "uint x + uint y < 2 ^ LENGTH('a)"
  shows "plain_add x y = Some (x + y)" "uint (x + y) = uint x + uint y"
  using assms by (simp_all add: plain_add_def uint_add_no_overflow)

lemma plain_sub_Some [panic_free]:
  fixes x y :: "'a::len word"
  assumes "uint y \<le> uint x"
  shows "plain_sub x y = Some (x - y)" "uint (x - y) = uint x - uint y"
  using assms by (simp_all add: plain_sub_def uint_sub_no_underflow)

lemma plain_mul_Some [panic_free]:
  fixes x y :: "'a::len word"
  assumes "uint x * uint y < 2 ^ LENGTH('a)"
  shows "plain_mul x y = Some (x * y)" "uint (x * y) = uint x * uint y"
  using assms by (simp_all add: plain_mul_def uint_mul_no_overflow)

lemma uint_drop_bit_word: "uint (drop_bit n x :: 'a::len word) = uint x div 2 ^ n"
  by (simp only: unsigned_drop_bit_eq) (simp add: drop_bit_eq_div take_bit_eq_mod)

lemma uint_and_mask_word: "uint (x AND mask n :: 'a::len word) = uint x mod 2 ^ n"
  by (metis take_bit_eq_mask take_bit_eq_mod unsigned_take_bit_eq)

lemma u64_and_one_eq_0: "(x :: u64) AND 1 = 0 \<longleftrightarrow> even (unat x)"
  by (simp add: and_one_eq mod_2_eq_odd)
    (metis even_of_nat mult.right_neutral unsigned_1 word_arith_nat_mult)

section \<open>Residues\<close>

lemma mod_sub_once:
  fixes x p :: int
  assumes "p \<le> x" "x < 2 * p"
  shows "x mod p = x - p"
proof -
  have "x mod p = (x - p) mod p" by simp
  also have "\<dots> = x - p" using assms by (intro mod_pos_pos_trivial) simp_all
  finally show ?thesis .
qed

lemma mod_add_once:
  fixes x p :: int
  assumes "- p \<le> x" "x < 0"
  shows "x mod p = x + p"
proof -
  have "x mod p = (x + p) mod p" by simp
  also have "\<dots> = x + p" using assms by (intro mod_pos_pos_trivial) simp_all
  finally show ?thesis .
qed

lemma uint_eq_0_iff_pos: "0 < uint x \<longleftrightarrow> x \<noteq> (0 :: 'a::len word)"
  by (metis less_le unsigned_eq_0_iff unsigned_greater_eq)

section \<open>Bit masks of non-negative integers\<close>

text \<open>\<open>v AND m = v\<close> says that every bit of \<open>v\<close> is a bit of \<open>m\<close>.\<close>

lemma and_self_iff: "v AND m = v \<longleftrightarrow> (\<forall>i. bit v i \<longrightarrow> bit (m :: int) i)"
  by (auto simp: bit_eq_iff bit_and_iff)

lemma and_self_le: "v AND m = v \<Longrightarrow> 0 \<le> m \<Longrightarrow> v \<le> (m :: int)"
  by (metis AND_upper2)

lemma and_self_trans: "v AND m = v \<Longrightarrow> m AND n = m \<Longrightarrow> v AND n = (v :: int)"
  by (auto simp: and_self_iff)

lemma and_self_or:
  "v AND m = v \<Longrightarrow> v AND (m OR n) = (v :: int)" "v AND n = v \<Longrightarrow> v AND (m OR n) = (v :: int)"
  by (auto simp: and_self_iff bit_or_iff)

lemma and_self_and:
  "v AND m = v \<Longrightarrow> v AND n = v \<Longrightarrow> v AND (m AND n) = (v :: int)"
  by (simp add: and.assoc[symmetric])

lemma and_self_mask: "0 \<le> v \<Longrightarrow> v < 2 ^ n \<Longrightarrow> v AND mask n = (v :: int)"
  by (simp add: take_bit_int_eq_self flip: take_bit_eq_mask)

lemma and_self_push_bit:
  "v AND m = v \<Longrightarrow> (v * 2 ^ n) AND push_bit n m = (v * 2 ^ n :: int)"
  by (metis push_bit_and push_bit_eq_mult)

lemma and_self_rec:
  "v AND m = v \<longleftrightarrow> (odd v \<longrightarrow> odd m) \<and> (v div 2) AND (m div 2) = (v div 2 :: int)"
proof -
  have "v AND m = of_bool (odd v \<and> odd m) + 2 * ((v div 2) AND (m div 2))"
    by (rule and_rec)
  moreover have "v = of_bool (odd v) + 2 * (v div 2)"
    by (simp add: of_bool_odd_eq_mod_2)
  ultimately show ?thesis by (cases "odd v"; cases "odd m") (auto, presburger+)
qed

text \<open>
  A sum can only have bits of the operands' masks or of the sum of the masks: a carry between
  the operands comes with a carry between the masks.
\<close>

lemma carry_digit:
  fixes x y u v c d :: int
  assumes "x = 0 \<or> x = 1 \<and> u = 1" "u = 0 \<or> u = 1" "y = 0 \<or> y = 1 \<and> v = 1" "v = 0 \<or> v = 1"
    "c = 0 \<or> c = 1 \<and> d = 1" "d = 0 \<or> d = 1"
  shows "(x + y + c) div 2 = 0 \<or> (x + y + c) div 2 = 1 \<and> (u + v + d) div 2 = 1"
    "(u + v + d) div 2 = 0 \<or> (u + v + d) div 2 = 1"
  using assms by (elim disjE conjE; simp)+

lemma and_self_add_carry:
  fixes a b m n c d :: int
  assumes "0 \<le> m" "0 \<le> n" "a AND m = a" "b AND n = b" "c = 0 \<or> c = 1 \<and> d = 1" "d = 0 \<or> d = 1"
  shows "(a + b + c) AND ((m + n + d) OR (m OR n)) = a + b + c"
  using assms
proof (induction "nat (m + n)" arbitrary: a b m n c d rule: less_induct)
  case less
  show ?case
  proof (cases "m = 0 \<and> n = 0")
    case True
    then show ?thesis using less.prems by auto
  next
    case False
    let ?c = "(a mod 2 + b mod 2 + c) div 2" and ?d = "(m mod 2 + n mod 2 + d) div 2"
    have sub: "odd a \<longrightarrow> odd m" "odd b \<longrightarrow> odd n"
      "(a div 2) AND (m div 2) = a div 2" "(b div 2) AND (n div 2) = b div 2"
      using less.prems(3,4) and_self_rec by blast+
    have "nat (m div 2 + n div 2) < nat (m + n)"
      using False less.prems(1,2) by linarith
    moreover have "a mod 2 = 0 \<or> a mod 2 = 1 \<and> m mod 2 = 1" "b mod 2 = 0 \<or> b mod 2 = 1 \<and> n mod 2 = 1"
      using sub(1,2) by (auto simp: odd_iff_mod_2_eq_one)
    note carry_digit[OF this(1) _ this(2) _ less.prems(5,6)]
    then have "?c = 0 \<or> ?c = 1 \<and> ?d = 1" "?d = 0 \<or> ?d = 1" by presburger+
    ultimately have IH: "(a div 2 + b div 2 + ?c) AND ((m div 2 + n div 2 + ?d) OR ((m div 2) OR (n div 2)))
        = a div 2 + b div 2 + ?c"
      using less.hyps[OF _ _ _ sub(3,4)] less.prems(1,2) by simp
    have half: "(a + b + c) div 2 = a div 2 + b div 2 + ?c"
      "(m + n + d) div 2 = m div 2 + n div 2 + ?d" by presburger+
    have low: "odd (a + b + c) \<longrightarrow> odd ((m + n + d) OR (m OR n))"
      using less.prems(5,6) sub(1,2) by (auto simp: even_or_iff)
    have "((m + n + d) OR (m OR n)) div 2 = ((m + n + d) div 2) OR ((m div 2) OR (n div 2))"
      by (simp add: or_rec[of "m + n + d"] or_rec[of m])
    with IH low half show ?thesis by (subst and_self_rec) simp
  qed
qed

lemma and_self_add:
  fixes a b m n :: int
  assumes "0 \<le> m" "0 \<le> n" "a AND m = a" "b AND n = b"
  shows "(a + b) AND ((m + n) OR m OR n) = a + b"
  using and_self_add_carry[OF assms, of 0 0] by (simp add: or.assoc)

end
