(* ===== verification/Field_Trait.thy ===== *)
theory Field_Trait
  imports Prelude
begin

text \<open>
  The field interface of \<open>number/src/traits.rs\<close>: what the generic code of the witness
  generator uses of a type \<open>T: FieldElement\<close> and of its integer type \<open>T::Integer\<close>.
  A field is a descriptor (its modulus, the width of its integer type and the inversion its
  division uses); an element is its canonical integer \<open>to_integer()\<close> in \<open>[0, modulus)\<close>,
  on which the order \<open>PartialOrd\<close> of the elements is the order of the integers. A value of
  \<open>T::Integer\<close> is an integer in \<open>[0, 2 ^ NUM_BITS)\<close>. The locale states the laws that a
  field implementation promises to this code.
\<close>

section \<open>The descriptor and the operations\<close>

record field_desc =
  modulus :: int
  NUM_BITS :: nat
  inverse_of :: "int \<Rightarrow> int"

definition canonical :: "field_desc \<Rightarrow> int \<Rightarrow> bool" where
  "canonical F a \<longleftrightarrow> 0 \<le> a \<and> a < modulus F"

definition fe_add :: "field_desc \<Rightarrow> int \<Rightarrow> int \<Rightarrow> int" where
  "fe_add F a b = (a + b) mod modulus F"

definition fe_sub :: "field_desc \<Rightarrow> int \<Rightarrow> int \<Rightarrow> int" where
  "fe_sub F a b = (a - b) mod modulus F"

definition fe_mul :: "field_desc \<Rightarrow> int \<Rightarrow> int \<Rightarrow> int" where
  "fe_mul F a b = a * b mod modulus F"

definition fe_neg :: "field_desc \<Rightarrow> int \<Rightarrow> int" where
  "fe_neg F a = (- a) mod modulus F"

text \<open>Division panics when the divisor is zero.\<close>

definition fe_div :: "field_desc \<Rightarrow> int \<Rightarrow> int \<Rightarrow> int option" where
  "fe_div F a b = (if b = 0 then None else Some (fe_mul F a (inverse_of F b)))"

definition fe_from :: "field_desc \<Rightarrow> int \<Rightarrow> int" where
  "fe_from F n = n mod modulus F"

definition checked_from :: "field_desc \<Rightarrow> int \<Rightarrow> int option" where
  "checked_from F n = (if n < modulus F then Some (fe_from F n) else None)"

definition is_in_lower_half :: "field_desc \<Rightarrow> int \<Rightarrow> bool" where
  "is_in_lower_half F a \<longleftrightarrow> a \<le> (modulus F - 1) div 2"

definition to_signed_integer :: "field_desc \<Rightarrow> int \<Rightarrow> int" where
  "to_signed_integer F a = (if is_in_lower_half F a then a else a - modulus F)"

section \<open>The integer type\<close>

text \<open>\<open>!x\<close> on the fixed width of the type, and the number of bits of a value.\<close>

definition int_not :: "field_desc \<Rightarrow> int \<Rightarrow> int" where
  "int_not F x = take_bit (NUM_BITS F) (NOT x)"

function num_bits :: "int \<Rightarrow> nat" where
  "num_bits x = (if x \<le> 0 then 0 else Suc (num_bits (x div 2)))"
  by pat_completeness auto
termination
  by (relation "measure nat") auto

declare num_bits.simps [simp del]

text \<open>\<open>trailing_zeros\<close> of a positive big integer, and \<open>log2_exact\<close> of \<open>number/src/lib.rs\<close>.\<close>

function trailing_zeros :: "int \<Rightarrow> nat" where
  "trailing_zeros n = (if n \<le> 0 \<or> odd n then 0 else Suc (trailing_zeros (n div 2)))"
  by pat_completeness auto
termination
  by (relation "measure nat") auto

declare trailing_zeros.simps [simp del]

definition log2_exact :: "int \<Rightarrow> nat option" where
  "log2_exact n =
     (if n = 0 then None
      else let zeros = trailing_zeros n in if n = push_bit zeros 1 then Some zeros else None)"

lemma log2_exact_Some: "log2_exact n = Some e \<Longrightarrow> n = 2 ^ e"
  by (auto simp: log2_exact_def Let_def push_bit_eq_mult split: if_splits)

lemma trailing_zeros_power: "trailing_zeros (2 ^ e) = e"
proof (induction e)
  case (Suc e)
  have "trailing_zeros (2 ^ Suc e) = Suc (trailing_zeros (2 ^ e))"
    by (subst trailing_zeros.simps) simp
  with Suc show ?case by simp
qed (simp add: trailing_zeros.simps)

lemma log2_exact_power: "log2_exact (2 ^ e) = Some e"
  by (simp add: log2_exact_def trailing_zeros_power push_bit_eq_mult)

lemma num_bits_bound: "0 \<le> x \<Longrightarrow> x < 2 ^ num_bits x"
proof (induction x rule: num_bits.induct)
  case (1 x)
  show ?case
  proof (cases "x \<le> 0")
    case False
    with 1 have "x div 2 < 2 ^ num_bits (x div 2)" by simp
    with False show ?thesis by (subst num_bits.simps) simp
  qed (use 1 in \<open>simp add: num_bits.simps\<close>)
qed

lemma num_bits_le: "x < 2 ^ n \<Longrightarrow> num_bits x \<le> n"
proof (induction x arbitrary: n rule: num_bits.induct)
  case (1 x)
  show ?case
  proof (cases "x \<le> 0")
    case False
    with 1(2) obtain m where m: "n = Suc m" by (cases n) auto
    with 1(2) have "x div 2 < 2 ^ m" by simp
    with 1(1) False have "num_bits (x div 2) \<le> m" by simp
    with False m show ?thesis by (subst num_bits.simps) simp
  qed (simp add: num_bits.simps)
qed

section \<open>Laws of the interface\<close>

locale field_element =
  fixes F :: field_desc
  assumes modulus_gt_2: "2 < modulus F"
    and modulus_less_width: "modulus F < 2 ^ NUM_BITS F"
    and inverse_canonical: "0 < a \<Longrightarrow> a < modulus F \<Longrightarrow> canonical F (inverse_of F a)"
    and inverse_law: "0 < a \<Longrightarrow> a < modulus F \<Longrightarrow> a * inverse_of F a mod modulus F = 1"
begin

lemma modulus_pos: "0 < modulus F"
  using modulus_gt_2 by simp

lemma modulus_le_width: "modulus F \<le> 2 ^ NUM_BITS F"
  using modulus_less_width by simp

lemma mod_canonical [canonical_intros]: "canonical F (x mod modulus F)"
  using modulus_pos by (simp add: canonical_def)

lemma ops_canonical [canonical_intros]:
  "canonical F (fe_add F a b)" "canonical F (fe_sub F a b)" "canonical F (fe_mul F a b)"
  "canonical F (fe_neg F a)" "canonical F (fe_from F n)"
  by (simp_all add: fe_add_def fe_sub_def fe_mul_def fe_neg_def fe_from_def mod_canonical)

lemma canonical_0 [canonical_intros]: "canonical F 0"
  and canonical_1 [canonical_intros]: "canonical F 1"
  using modulus_gt_2 by (simp_all add: canonical_def)

lemma canonical_mod: "canonical F a \<Longrightarrow> a mod modulus F = a"
  by (simp add: canonical_def)

lemma fe_neg_eq: "canonical F a \<Longrightarrow> fe_neg F a = (if a = 0 then 0 else modulus F - a)"
  by (auto simp: fe_neg_def canonical_def zmod_zminus1_eq_if)

text \<open>A field has no zero divisors.\<close>

lemma fe_mul_eq_0_iff:
  assumes "canonical F a" "canonical F b"
  shows "fe_mul F a b = 0 \<longleftrightarrow> a = 0 \<or> b = 0"
proof
  assume *: "fe_mul F a b = 0"
  show "a = 0 \<or> b = 0"
  proof (rule disjCI)
    assume "b \<noteq> 0"
    then have inv: "b * inverse_of F b mod modulus F = 1"
      using assms(2) by (intro inverse_law) (auto simp: canonical_def)
    have "a = a * (b * inverse_of F b mod modulus F) mod modulus F"
      using canonical_mod[OF assms(1)] by (simp add: inv)
    also have "\<dots> = (a * b mod modulus F) * inverse_of F b mod modulus F"
      by (simp add: mod_mult_left_eq mod_mult_right_eq mult.assoc)
    finally show "a = 0" using * by (simp add: fe_mul_def)
  qed
qed (auto simp: fe_mul_def)

text \<open>Division is the inverse of multiplication: it never panics for a non-zero divisor.\<close>

lemma fe_div_nonzero:
  assumes "canonical F a" "canonical F b" "b \<noteq> 0"
  obtains q where "fe_div F a b = Some q" "canonical F q" "fe_mul F q b = a"
proof
  show "fe_div F a b = Some (fe_mul F a (inverse_of F b))"
    using assms by (simp add: fe_div_def)
  have "fe_mul F (fe_mul F a (inverse_of F b)) b = a * (b * inverse_of F b mod modulus F) mod modulus F"
    by (simp add: fe_mul_def mod_mult_left_eq mod_mult_right_eq ac_simps)
  then show "fe_mul F (fe_mul F a (inverse_of F b)) b = a"
    using assms inverse_law[of b] canonical_mod[of a] by (simp add: canonical_def)
qed (rule ops_canonical)

lemma fe_mul_cancel:
  assumes "canonical F x" "canonical F y" "canonical F b" "b \<noteq> 0" "fe_mul F x b = fe_mul F y b"
  shows "x = y"
proof -
  have "modulus F dvd (x - y) * b"
    using assms(5) by (simp add: fe_mul_def mod_eq_dvd_iff left_diff_distrib)
  then have "fe_mul F ((x - y) mod modulus F) b = 0"
    by (simp add: fe_mul_def mod_mult_left_eq)
  then have "(x - y) mod modulus F = 0"
    using assms fe_mul_eq_0_iff[OF mod_canonical] by blast
  then have "x mod modulus F = y mod modulus F"
    by (metis mod_eq_dvd_iff dvd_eq_mod_eq_0)
  then show ?thesis using assms canonical_mod by metis
qed

lemma to_signed_integer_mod: "to_signed_integer F a mod modulus F = a mod modulus F"
  by (simp add: to_signed_integer_def)

lemma to_signed_integer_bound:
  assumes "canonical F a"
  shows "- (modulus F div 2) \<le> to_signed_integer F a" "to_signed_integer F a \<le> modulus F div 2"
  using assms by (auto simp: to_signed_integer_def is_in_lower_half_def canonical_def)

end

text \<open>
  An implementation of the field by values of some type: its operations may panic, which they
  promise not to do on canonical values, and they agree with the operations on the integers.
\<close>

locale field_impl = field_element F for F :: field_desc +
  fixes to_integer :: "'a \<Rightarrow> int"
    and canon :: "'a \<Rightarrow> bool"
    and add sub mul :: "'a \<Rightarrow> 'a \<Rightarrow> 'a option"
    and neg :: "'a \<Rightarrow> 'a option"
  assumes canon_to_integer: "canon a \<Longrightarrow> canonical F (to_integer a)"
    and to_integer_inj: "canon a \<Longrightarrow> canon b \<Longrightarrow> to_integer a = to_integer b \<Longrightarrow> a = b"
    and add_refines: "canon a \<Longrightarrow> canon b \<Longrightarrow>
      \<exists>c. add a b = Some c \<and> canon c \<and> to_integer c = fe_add F (to_integer a) (to_integer b)"
    and sub_refines: "canon a \<Longrightarrow> canon b \<Longrightarrow>
      \<exists>c. sub a b = Some c \<and> canon c \<and> to_integer c = fe_sub F (to_integer a) (to_integer b)"
    and mul_refines: "canon a \<Longrightarrow> canon b \<Longrightarrow>
      \<exists>c. mul a b = Some c \<and> canon c \<and> to_integer c = fe_mul F (to_integer a) (to_integer b)"
    and neg_refines: "canon a \<Longrightarrow>
      \<exists>c. neg a = Some c \<and> canon c \<and> to_integer c = fe_neg F (to_integer a)"
begin

text \<open>Two computations agree when their integers agree; this gives the ring laws.\<close>

lemma add_commute: "canon a \<Longrightarrow> canon b \<Longrightarrow> add a b = add b a"
  using add_refines[of a b] add_refines[of b a] to_integer_inj
  by (fastforce simp: fe_add_def add.commute)

lemma mul_commute: "canon a \<Longrightarrow> canon b \<Longrightarrow> mul a b = mul b a"
  using mul_refines[of a b] mul_refines[of b a] to_integer_inj
  by (fastforce simp: fe_mul_def mult.commute)

lemma mul_assoc:
  assumes "canon a" "canon b" "canon c"
  shows "mul a b \<bind> (\<lambda>x. mul x c) = mul b c \<bind> (\<lambda>x. mul a x)"
proof -
  obtain ab bc where ab: "mul a b = Some ab" "canon ab" "to_integer ab = fe_mul F (to_integer a) (to_integer b)"
    and bc: "mul b c = Some bc" "canon bc" "to_integer bc = fe_mul F (to_integer b) (to_integer c)"
    using assms mul_refines by meson
  obtain l r where l: "mul ab c = Some l" "canon l" "to_integer l = fe_mul F (to_integer ab) (to_integer c)"
    and r: "mul a bc = Some r" "canon r" "to_integer r = fe_mul F (to_integer a) (to_integer bc)"
    using assms ab bc mul_refines by meson
  have "to_integer l = to_integer r"
    by (simp add: l r ab bc fe_mul_def mod_mult_left_eq mod_mult_right_eq mult.assoc)
  with l r have "l = r" using to_integer_inj by blast
  with ab bc l r show ?thesis by simp
qed

lemma mul_add_distrib:
  assumes "canon a" "canon b" "canon c"
  shows "add a b \<bind> (\<lambda>x. mul x c) = mul a c \<bind> (\<lambda>x. mul b c \<bind> (\<lambda>y. add x y))"
proof -
  obtain s where s: "add a b = Some s" "canon s" "to_integer s = fe_add F (to_integer a) (to_integer b)"
    using assms add_refines by meson
  obtain l ac bc where l: "mul s c = Some l" "canon l" "to_integer l = fe_mul F (to_integer s) (to_integer c)"
    and ac: "mul a c = Some ac" "canon ac" "to_integer ac = fe_mul F (to_integer a) (to_integer c)"
    and bc: "mul b c = Some bc" "canon bc" "to_integer bc = fe_mul F (to_integer b) (to_integer c)"
    using assms s mul_refines by meson
  obtain r where r: "add ac bc = Some r" "canon r" "to_integer r = fe_add F (to_integer ac) (to_integer bc)"
    using ac bc add_refines by meson
  have "to_integer l = to_integer r"
    by (simp add: l r s ac bc fe_mul_def fe_add_def mod_mult_left_eq mod_add_eq distrib_right)
  with l r have "l = r" using to_integer_inj by blast
  with s l r ac bc show ?thesis by simp
qed

lemma sub_is_add_neg:
  assumes "canon a" "canon b"
  shows "sub a b = neg b \<bind> (\<lambda>x. add a x)"
proof -
  obtain d n where d: "sub a b = Some d" "canon d" "to_integer d = fe_sub F (to_integer a) (to_integer b)"
    and n: "neg b = Some n" "canon n" "to_integer n = fe_neg F (to_integer b)"
    using assms sub_refines neg_refines by meson
  obtain r where r: "add a n = Some r" "canon r" "to_integer r = fe_add F (to_integer a) (to_integer n)"
    using assms n add_refines by meson
  have "to_integer d = to_integer r"
    by (simp add: d r n fe_sub_def fe_add_def fe_neg_def mod_add_right_eq)
  with d r have "d = r" using to_integer_inj by blast
  with d r n show ?thesis by simp
qed

end

end
