(* ===== verification/Primality.thy ===== *)
theory Primality
  imports Main
begin

text \<open>
  Number theory used for the field arithmetic: prime moduli, Fermat's little theorem and
  Proth's test, which proves that the Goldilocks modulus is prime. Nothing here is specific
  to the program.
\<close>

section \<open>Prime moduli\<close>

definition is_prime :: "nat \<Rightarrow> bool" where
  "is_prime q \<longleftrightarrow> 1 < q \<and> (\<forall>d. d dvd q \<longrightarrow> d = 1 \<or> d = q)"

lemma is_prime_coprime:
  assumes "is_prime q" "\<not> q dvd a"
  shows "coprime q a"
proof -
  have "gcd q a dvd q" "gcd q a dvd a" by simp_all
  with assms show ?thesis by (metis is_prime_def coprime_iff_gcd_eq_1)
qed

lemma is_prime_dvd_mult:
  assumes "is_prime q" "q dvd a * b"
  shows "q dvd a \<or> q dvd b"
  using assms is_prime_coprime coprime_dvd_mult_right_iff by blast

lemma not_dvd_residue: "x \<in> {1..<q} \<Longrightarrow> \<not> (q::nat) dvd x"
  by (auto dest: dvd_imp_le)

lemma is_prime_not_dvd_prod:
  assumes "is_prime q" "finite A" "A \<subseteq> {1..<q}"
  shows "\<not> q dvd \<Prod>A"
  using assms(2,3)
proof (induction A rule: finite_induct)
  case empty
  then show ?case using assms(1) by (simp add: is_prime_def)
next
  case (insert x A)
  then have "\<not> q dvd x" using not_dvd_residue by blast
  with insert assms(1) show ?case using is_prime_dvd_mult by auto
qed

text \<open>Multiplication by a unit permutes the non-zero residues.\<close>

lemma mult_residues_inj:
  assumes "is_prime q" "\<not> q dvd a"
  shows "inj_on (\<lambda>x. a * x mod q) {1..<q}"
proof (rule linorder_inj_onI')
  fix x y assume xy: "x \<in> {1..<q}" "y \<in> {1..<q}" "x < y"
  show "a * x mod q \<noteq> a * y mod q"
  proof
    assume "a * x mod q = a * y mod q"
    then have "q dvd a * y - a * x"
      using mod_eq_dvd_iff_nat[of "a * x" "a * y" q] xy by simp
    then have "q dvd a * (y - x)" by (simp add: diff_mult_distrib2)
    then have "q dvd y - x" using assms is_prime_dvd_mult by blast
    moreover have "y - x \<in> {1..<q}" using xy by auto
    ultimately show False using not_dvd_residue by blast
  qed
qed

lemma mult_residues_bij:
  assumes "is_prime q" "\<not> q dvd a"
  shows "(\<lambda>x. a * x mod q) ` {1..<q} = {1..<q}"
proof (rule endo_inj_surj)
  have "\<not> q dvd a * x" if "x \<in> {1..<q}" for x
    using assms that is_prime_dvd_mult not_dvd_residue by blast
  then show "(\<lambda>x. a * x mod q) ` {1..<q} \<subseteq> {1..<q}"
    using assms(1) by (auto simp: is_prime_def dvd_eq_mod_eq_0 Suc_le_eq)
qed (use mult_residues_inj[OF assms] in auto)

theorem fermat_little:
  assumes "is_prime q" "\<not> q dvd a"
  shows "a ^ (q - 1) mod q = 1"
proof -
  let ?A = "{1..<q}" and ?P = "\<Prod>{1..<q}"
  have "(\<Prod>x\<in>?A. a * x mod q) = ?P"
    using mult_residues_bij[OF assms] mult_residues_inj[OF assms]
    by (metis (no_types, lifting) prod.cong prod.reindex_cong)
  moreover have "(\<Prod>x\<in>?A. a * x mod q) mod q = (\<Prod>x\<in>?A. a * x) mod q"
    by (rule mod_prod_eq)
  moreover have "(\<Prod>x\<in>?A. a * x) = a ^ (q - 1) * ?P"
    by (simp add: prod.distrib)
  ultimately have "(a ^ (q - 1) * ?P) mod q = (1 * ?P) mod q" by simp
  moreover have "1 * ?P \<le> a ^ (q - 1) * ?P"
  proof (intro mult_right_mono)
    have "a \<noteq> 0" using assms by (metis dvd_0_right)
    then show "1 \<le> a ^ (q - 1)" by simp
  qed simp
  ultimately have "q dvd a ^ (q - 1) * ?P - 1 * ?P"
    using mod_eq_dvd_iff_nat by metis
  then have "q dvd (a ^ (q - 1) - 1) * ?P" by (simp add: diff_mult_distrib)
  then have "q dvd a ^ (q - 1) - 1"
    using assms is_prime_not_dvd_prod[of q ?A] is_prime_dvd_mult by blast
  moreover have "1 \<le> a ^ (q - 1)"
    using assms by (metis dvd_0_right le_numeral_extra(4) less_one linorder_not_le power_eq_0_iff)
  ultimately have "a ^ (q - 1) mod q = 1 mod q"
    using mod_eq_dvd_iff_nat by metis
  then show ?thesis using assms(1) by (simp add: is_prime_def)
qed

section \<open>Proth's primality test\<close>

lemma least_divisor:
  assumes "1 < n" "\<not> is_prime n"
  obtains q where "is_prime q" "q dvd n" "q * q \<le> n"
proof -
  define q where "q = (LEAST d. 1 < d \<and> d dvd n)"
  have q: "1 < q" "q dvd n"
    using assms(1) LeastI[of "\<lambda>d. 1 < d \<and> d dvd n" n] by (auto simp: q_def)
  have least: "q \<le> d" if "1 < d" "d dvd n" for d
    using that unfolding q_def by (intro Least_le) simp
  have prime: "is_prime q"
    unfolding is_prime_def
  proof (intro conjI allI impI)
    fix d assume d: "d dvd q"
    then have "d \<noteq> 0" using q by (metis dvd_0_left_iff not_one_less_zero)
    moreover have "d dvd n" using d q by (metis dvd_trans)
    ultimately show "d = 1 \<or> d = q"
      using least[of d] dvd_imp_le[OF d] q by (cases "d = 1") auto
  qed (use q in simp)
  obtain c where c: "n = q * c" using q by (auto elim: dvdE)
  have "c \<noteq> 1" using assms(2) prime c by auto
  moreover have "c \<noteq> 0" using c assms(1) by (cases c) simp_all
  ultimately have "q \<le> c" using least[of c] c by simp
  then have "q * q \<le> n" using c by simp
  with that prime q show thesis by blast
qed

lemma two_power_odd_decomposition:
  fixes n :: nat
  assumes "0 < n"
  shows "\<exists>s t. n = 2 ^ s * t \<and> odd t"
  using assms
proof (induction n rule: less_induct)
  case (less n)
  show ?case
  proof (cases "odd n")
    case True
    then have "n = 2 ^ 0 * n \<and> odd n" by simp
    then show ?thesis by blast
  next
    case False
    then obtain k where k: "n = 2 * k" by (auto elim: evenE)
    with less.prems have "k < n" "0 < k" by simp_all
    with less.IH obtain s t where "k = 2 ^ s * t" "odd t" by blast
    with k have "n = 2 ^ Suc s * t \<and> odd t" by simp
    then show ?thesis by blast
  qed
qed

lemma minus_one_pow_odd:
  fixes b :: int
  assumes "q dvd b + 1" "odd t"
  shows "q dvd b ^ t + 1"
proof -
  have "b - (-1) dvd b ^ t - (-1) ^ t"
    by (simp only: power_diff_sumr2) simp
  with assms show ?thesis by (auto intro: dvd_trans)
qed

text \<open>If the base has a power \<open>2 ^ m\<close> that is \<open>-1\<close>, then \<open>2 ^ (m + 1)\<close> divides \<open>q - 1\<close>.\<close>

lemma proth_order:
  fixes b q m :: nat
  assumes "is_prime q" "odd q" "q dvd b ^ (2 ^ m) + 1"
  shows "2 ^ Suc m \<le> q - 1"
proof -
  have q1: "1 < q" using assms(1) by (simp add: is_prime_def)
  have nb: "\<not> q dvd b"
  proof
    assume "q dvd b"
    then have "q dvd b ^ (2 ^ m)" by (simp add: dvd_power_iff dvd_trans[OF _ dvd_power])
    then have "q dvd 1" using assms(3) dvd_add_right_iff by blast
    then show False using q1 by simp
  qed
  obtain s t where st: "q - 1 = 2 ^ s * t" "odd t"
    using q1 two_power_odd_decomposition[of "q - 1"] by auto
  have "m < s"
  proof (rule ccontr)
    assume "\<not> m < s"
    then have "2 ^ m * t = (q - 1) * 2 ^ (m - s)"
      using st by (simp add: power_add [symmetric])
    then have "(b ^ (2 ^ m)) ^ t = (b ^ (q - 1)) ^ (2 ^ (m - s))"
      by (simp add: power_mult [symmetric])
    then have "(b ^ (2 ^ m)) ^ t mod q = (b ^ (q - 1) mod q) ^ (2 ^ (m - s)) mod q"
      by (simp add: power_mod)
    then have "(b ^ (2 ^ m)) ^ t mod q = 1"
      using fermat_little[OF assms(1) nb] q1 by simp
    then have "int q dvd int (b ^ (2 ^ m)) ^ t - 1"
      by (metis int_ops(2) mod_eq_dvd_iff of_nat_mod of_nat_power q1 mod_less)
    moreover have "int q dvd int (b ^ (2 ^ m)) ^ t + 1"
      using assms(3) st(2) by (intro minus_one_pow_odd) (metis int_dvd_int_iff int_ops(2) int_plus)
    ultimately have "int q dvd (int (b ^ (2 ^ m)) ^ t + 1) - (int (b ^ (2 ^ m)) ^ t - 1)"
      by (metis dvd_diff)
    then have "int q dvd 2" by simp
    then have "q dvd 2" by presburger
    then have "q \<le> 2" by (auto dest: dvd_imp_le)
    then show False using q1 assms(2) by (cases "q = 2") simp_all
  qed
  then have "2 ^ Suc m dvd (2::nat) ^ s" by (intro le_imp_power_dvd) simp
  then have "2 ^ Suc m dvd q - 1" using st(1) by simp
  then show ?thesis using q1 by (intro dvd_imp_le) simp_all
qed

theorem proth_test:
  fixes n k m a :: nat
  assumes n: "n = k * 2 ^ Suc m + 1" and k: "0 < k" "k < 2 ^ Suc m"
    and a: "a ^ (k * 2 ^ m) mod n = n - 1"
  shows "is_prime n"
proof (rule ccontr)
  assume "\<not> is_prime n"
  moreover have n1: "1 < n" using n k by simp
  ultimately obtain q where q: "is_prime q" "q dvd n" "q * q \<le> n"
    using least_divisor by blast
  have "n dvd a ^ (k * 2 ^ m) + 1"
    using a n1 by (metis Suc_eq_plus1 Suc_pred' dvd_eq_mod_eq_0 less_imp_le_nat mod_Suc_eq mod_self
        not_one_le_zero zero_less_iff_neq_zero)
  then have "q dvd (a ^ k) ^ (2 ^ m) + 1"
    using q(2) by (metis dvd_trans power_mult)
  moreover have "odd q"
    using q(2) n by (metis dvd_trans dvd_triv_right even_add even_mult_iff even_power odd_one zero_less_Suc even_numeral)
  ultimately have "2 ^ Suc m < q"
    using proth_order[OF q(1), of "a ^ k" m] n1 q(1) unfolding is_prime_def by fastforce
  then have "2 ^ Suc m * 2 ^ Suc m < q * q" by (intro mult_strict_mono') simp_all
  moreover have "n \<le> 2 ^ Suc m * 2 ^ Suc m"
  proof -
    have "(k + 1) * 2 ^ Suc m \<le> 2 ^ Suc m * 2 ^ Suc m"
      using k(2) by (intro mult_right_mono) simp_all
    moreover have "n \<le> (k + 1) * 2 ^ Suc m"
      using n by (simp add: add_mult_distrib)
    ultimately show ?thesis by linarith
  qed
  ultimately show False using q(3) by linarith
qed

section \<open>Modular powers of large numbers\<close>

text \<open>Square and multiply over the bits of the exponent, least significant first.\<close>

fun pow_bits :: "int \<Rightarrow> bool list \<Rightarrow> int \<Rightarrow> int" where
  "pow_bits b [] n = 1"
| "pow_bits b (True # bs) n = b * pow_bits (b * b mod n) bs n mod n"
| "pow_bits b (False # bs) n = pow_bits (b * b mod n) bs n"

fun bits_val :: "bool list \<Rightarrow> nat" where
  "bits_val [] = 0"
| "bits_val (b # bs) = of_bool b + 2 * bits_val bs"

lemma pow_bits_eq: "pow_bits b bs n mod n = b ^ bits_val bs mod n"
proof (induction b bs n rule: pow_bits.induct)
  case (2 b bs n)
  have "pow_bits b (True # bs) n mod n = b * (pow_bits (b * b mod n) bs n mod n) mod n"
    by (simp add: mod_mult_right_eq)
  also have "\<dots> = b * ((b * b) ^ bits_val bs mod n) mod n"
    by (simp only: 2 power_mod)
  also have "\<dots> = b * (b * b) ^ bits_val bs mod n"
    by (simp only: mod_mult_right_eq)
  also have "b * (b * b) ^ bits_val bs = b ^ bits_val (True # bs)"
    by (simp add: power_mult flip: power2_eq_square)
  finally show ?case .
qed (simp_all add: power_mod power_mult power2_eq_square)

lemma bits_val_append: "bits_val (xs @ ys) = bits_val xs + 2 ^ length xs * bits_val ys"
  by (induction xs) auto

lemma bits_val_zeros: "bits_val (replicate n False) = 0"
  by (induction n) auto

lemma bits_val_ones: "Suc (bits_val (replicate n True)) = 2 ^ n"
  by (induction n) auto

text \<open>The modulus \<open>2 ^ 64 - 2 ^ 32 + 1\<close> is a Proth number with the non-residue 7.\<close>

lemma goldilocks_proth_power:
  "(7::nat) ^ (4294967295 * 2 ^ 31) mod 18446744069414584321 = 18446744069414584321 - 1"
proof -
  let ?bs = "replicate 31 False @ replicate 32 True" and ?n = "18446744069414584321 :: int"
  have "bits_val (replicate 32 True) = 2 ^ 32 - 1"
    using bits_val_ones[of 32] by linarith
  then have "bits_val ?bs = 4294967295 * 2 ^ 31"
    by (simp only: bits_val_append bits_val_zeros) simp
  moreover have "pow_bits 7 ?bs ?n = 18446744069414584320"
    by code_simp
  ultimately have "(7::int) ^ (4294967295 * 2 ^ 31) mod ?n = 18446744069414584320"
    using pow_bits_eq[of 7 ?bs ?n] by (simp del: power_numeral)
  then have "int (7 ^ (4294967295 * 2 ^ 31) mod 18446744069414584321) = int 18446744069414584320"
    by (simp only: zmod_int of_nat_power of_nat_numeral)
  then show ?thesis by (simp only: of_nat_eq_iff)
qed

lemma goldilocks_is_prime: "is_prime 18446744069414584321"
proof (rule proth_test[where k = 4294967295 and m = 31 and a = 7])
  show "(7::nat) ^ (4294967295 * 2 ^ 31) mod 18446744069414584321 = 18446744069414584321 - 1"
    by (rule goldilocks_proth_power)
qed simp_all

end
