(* ===== verification/Goldilocks.thy ===== *)
theory Goldilocks
  imports Field_Trait Primality
begin

text \<open>
  The Goldilocks field of \<open>number/src/goldilocks.rs\<close> at the level of its 64-bit words: every
  operation with its wrapping, overflow flags and debug assertions, a panic being \<open>None\<close>.
  The lemmas show that no operation panics on canonical values and that each one refines the
  operation of the field interface, that the addition chain of \<open>try_inverse\<close> computes the
  inverse, and that the bytes and integer conversions are faithful.
\<close>

section \<open>The word-level operations\<close>

type_synonym GoldilocksField = u64

definition EPSILON :: u64 where
  "EPSILON = push_bit 32 1 - 1"

definition ORDER :: u64 where
  "ORDER = 0xFFFFFFFF00000001"

definition gl_canonical :: "GoldilocksField \<Rightarrow> bool" where
  "gl_canonical a \<longleftrightarrow> a < ORDER"

definition wrap :: "u64 \<Rightarrow> u64 option" where
  "wrap x = (if x \<ge> ORDER then plain_sub x ORDER else Some x)"

definition gl_neg :: "GoldilocksField \<Rightarrow> GoldilocksField option" where
  "gl_neg a = (if a = 0 then Some 0 else plain_sub ORDER a)"

definition gl_add :: "GoldilocksField \<Rightarrow> GoldilocksField \<Rightarrow> GoldilocksField option" where
  "gl_add a b =
     (let (sum, over) = overflowing_add a b in do {
        adj \<leftarrow> plain_mul (of_bool over) EPSILON;
        (let (sum, over) = overflowing_add sum adj in do {
           rust_assert (\<not> over);
           wrap sum
         })
      })"

definition gl_sub :: "GoldilocksField \<Rightarrow> GoldilocksField \<Rightarrow> GoldilocksField option" where
  "gl_sub a b =
     (let (diff, under) = overflowing_sub a b in do {
        adj \<leftarrow> plain_mul (of_bool under) EPSILON;
        (let (diff, under) = overflowing_sub diff adj in do {
           rust_assert (\<not> under);
           wrap diff
         })
      })"

text \<open>The portable version of the addition that leaves its result uncanonical.\<close>

definition add_no_canonicalize_trashing_input :: "u64 \<Rightarrow> u64 \<Rightarrow> u64 option" where
  "add_no_canonicalize_trashing_input x y =
     (let (res_wrapped, carry) = overflowing_add x y in do {
        adj \<leftarrow> plain_mul EPSILON (of_bool carry);
        plain_add res_wrapped adj
      })"

text \<open>
  The x86-64 version: \<open>add\<close> sets the carry flag, \<open>sbb {1:e}, {1:e}\<close> leaves
  \<open>0 - CF\<close> in the low half of the second register and clears the high half; the two
  \<open>assume\<close> calls are undefined behaviour when their condition is false.
\<close>

definition add_no_canonicalize_x86 :: "u64 \<Rightarrow> u64 \<Rightarrow> u64 option" where
  "add_no_canonicalize_x86 x y =
     (let carry = (2 ^ 64 \<le> uint x + uint y);
          res_wrapped = x + y;
          adjustment = ucast ((ucast y - ucast y - of_bool carry) :: u32) :: u64
      in do {
        rust_assert (x \<noteq> 0 \<or> (res_wrapped = y \<and> adjustment = 0));
        rust_assert (y \<noteq> 0 \<or> (res_wrapped = x \<and> adjustment = 0));
        plain_add res_wrapped adjustment
      })"

definition split128 :: "u128 \<Rightarrow> u64 \<times> u64" where
  "split128 x = (ucast x, ucast (drop_bit 64 x))"

definition reduce128 :: "u128 \<Rightarrow> GoldilocksField option" where
  "reduce128 x =
     (let (x_lo, x_hi) = split128 x;
          x_hi_hi = drop_bit 32 x_hi;
          x_hi_lo = x_hi AND EPSILON;
          (t0, borrow) = overflowing_sub x_lo x_hi_hi
      in do {
        t0 \<leftarrow> (if borrow then plain_sub t0 EPSILON else Some t0);
        t1 \<leftarrow> plain_mul x_hi_lo EPSILON;
        t2 \<leftarrow> add_no_canonicalize_trashing_input t0 t1;
        wrap t2
      })"

definition gl_mul :: "GoldilocksField \<Rightarrow> GoldilocksField \<Rightarrow> GoldilocksField option" where
  "gl_mul a b = do {
     prod \<leftarrow> plain_mul (ucast a :: u128) (ucast b);
     reduce128 prod
   }"

definition gl_square :: "GoldilocksField \<Rightarrow> GoldilocksField option" where
  "gl_square a = gl_mul a a"

fun exp_power_of_2 :: "GoldilocksField \<Rightarrow> nat \<Rightarrow> GoldilocksField option" where
  "exp_power_of_2 res 0 = Some res"
| "exp_power_of_2 res (Suc power_log) = do {
     res \<leftarrow> gl_square res;
     exp_power_of_2 res power_log
   }"

definition exp_acc :: "nat \<Rightarrow> GoldilocksField \<Rightarrow> GoldilocksField \<Rightarrow> GoldilocksField option" where
  "exp_acc n base tail = do {
     b \<leftarrow> exp_power_of_2 base n;
     gl_mul b tail
   }"

text \<open>The outer option is a panic, the inner one the result of the function.\<close>

definition try_inverse :: "GoldilocksField \<Rightarrow> GoldilocksField option option" where
  "try_inverse a =
     (if a = 0 then Some None
      else do {
        s \<leftarrow> gl_square a;
        t2 \<leftarrow> gl_mul s a;
        s \<leftarrow> gl_square t2;
        t3 \<leftarrow> gl_mul s a;
        t6 \<leftarrow> exp_acc 3 t3 t3;
        t12 \<leftarrow> exp_acc 6 t6 t6;
        t24 \<leftarrow> exp_acc 12 t12 t12;
        t30 \<leftarrow> exp_acc 6 t24 t6;
        s \<leftarrow> gl_square t30;
        t31 \<leftarrow> gl_mul s a;
        t63 \<leftarrow> exp_acc 32 t31 t31;
        s \<leftarrow> gl_square t63;
        r \<leftarrow> gl_mul s a;
        Some (Some r)
      })"

definition gl_div :: "GoldilocksField \<Rightarrow> GoldilocksField \<Rightarrow> GoldilocksField option" where
  "gl_div a b = do {
     inv \<leftarrow> try_inverse b;
     i \<leftarrow> inv;
     gl_mul a i
   }"

function gl_pow_loop :: "u64 \<Rightarrow> GoldilocksField \<Rightarrow> GoldilocksField \<Rightarrow> GoldilocksField option" where
  "gl_pow_loop exp x r =
     (if exp \<ge> 2 then do {
        r \<leftarrow> (if exp AND 1 \<noteq> 0 then gl_mul r x else Some r);
        x \<leftarrow> gl_square x;
        gl_pow_loop (drop_bit 1 exp) x r
      } else gl_mul r x)"
  by pat_completeness auto
termination
proof (relation "measure (\<lambda>(e, x, r). unat e)")
  fix exp :: u64 assume "2 \<le> exp"
  then have "2 \<le> uint exp" by (simp add: word_le_def)
  then have "uint (drop_bit 1 exp) < uint exp"
    by (simp add: uint_drop_bit_word)
  then show "((drop_bit 1 exp, x, r), exp, y, z) \<in> measure (\<lambda>(e, x, r). unat e)" for x r y z
    by (simp add: unat_mono word_less_def)
qed simp

declare gl_pow_loop.simps [simp del]

definition gl_pow :: "GoldilocksField \<Rightarrow> u64 \<Rightarrow> GoldilocksField option" where
  "gl_pow a exp =
     (if exp = 0 then Some 1 else if exp = 1 then Some a else gl_pow_loop exp a 1)"

section \<open>Conversions\<close>

definition from_canonical_u64 :: "u64 \<Rightarrow> GoldilocksField option" where
  "from_canonical_u64 n = do { rust_assert (n < ORDER); Some n }"

text \<open>An \<open>i64\<close> is the word of its two's complement; \<open>n as u64\<close> reads the same bits.\<close>

definition from_noncanonical_i64 :: "i64 \<Rightarrow> GoldilocksField option" where
  "from_noncanonical_i64 n = from_canonical_u64 (if sint n < 0 then ORDER + n else n)"

definition gl_from_u64 :: "u64 \<Rightarrow> GoldilocksField option" where
  "gl_from_u64 n = wrap n"

definition to_le_bytes :: "u64 \<Rightarrow> u8 list" where
  "to_le_bytes x = map (\<lambda>i. ucast (drop_bit (8 * i) x)) [0..<8]"

definition gl_to_bytes_le :: "GoldilocksField \<Rightarrow> u8 list" where
  "gl_to_bytes_le a = to_le_bytes a"

fun biguint_from_le_bytes :: "u8 list \<Rightarrow> int" where
  "biguint_from_le_bytes [] = 0"
| "biguint_from_le_bytes (b # bs) = uint b + 256 * biguint_from_le_bytes bs"

definition u64_try_from :: "int \<Rightarrow> u64 option" where
  "u64_try_from n = (if 0 \<le> n \<and> n < 2 ^ 64 then Some (word_of_int n) else None)"

definition gl_from_bytes_le :: "u8 list \<Rightarrow> GoldilocksField option" where
  "gl_from_bytes_le bytes = do {
     n \<leftarrow> u64_try_from (biguint_from_le_bytes bytes);
     w \<leftarrow> wrap n;
     gl_from_u64 w
   }"

definition gl_checked_from :: "int \<Rightarrow> GoldilocksField option option" where
  "gl_checked_from value =
     (if value < uint ORDER then do {
        n \<leftarrow> u64_try_from value;
        r \<leftarrow> gl_from_u64 n;
        Some (Some r)
      } else Some None)"

definition gl_is_in_lower_half :: "GoldilocksField \<Rightarrow> bool" where
  "gl_is_in_lower_half a \<longleftrightarrow> a \<le> (ORDER - 1) div 2"

text \<open>
  \<open>u64::from_str_radix\<close> of the standard library for a radix in \<open>2..=36\<close>: an optional
  leading plus, then one or more digits; the error is the kind of \<open>ParseIntError\<close>.
\<close>

datatype int_error_kind = EmptyInput | InvalidDigit | PosOverflow

definition to_digit :: "char \<Rightarrow> nat \<Rightarrow> nat option" where
  "to_digit c radix =
     (let n = of_char c :: nat;
          d = (if 48 \<le> n \<and> n \<le> 57 then Some (n - 48)
               else if 97 \<le> n \<and> n \<le> 122 then Some (n - 97 + 10)
               else if 65 \<le> n \<and> n \<le> 90 then Some (n - 65 + 10)
               else None)
      in case d of None \<Rightarrow> None | Some v \<Rightarrow> if v < radix then Some v else None)"

fun parse_digits :: "nat \<Rightarrow> u64 \<Rightarrow> string \<Rightarrow> int_error_kind + u64" where
  "parse_digits radix result [] = Inr result"
| "parse_digits radix result (c # cs) =
     (case to_digit c radix of
        None \<Rightarrow> Inl InvalidDigit
      | Some d \<Rightarrow>
          (case plain_mul result (of_nat radix) of
             None \<Rightarrow> Inl PosOverflow
           | Some m \<Rightarrow>
               (case plain_add m (of_nat d) of
                  None \<Rightarrow> Inl PosOverflow
                | Some r \<Rightarrow> parse_digits radix r cs)))"

definition u64_from_str_radix :: "string \<Rightarrow> nat \<Rightarrow> int_error_kind + u64" where
  "u64_from_str_radix s radix =
     (if s = [] then Inl EmptyInput
      else if s = ''+'' \<or> s = ''-'' then Inl InvalidDigit
      else if hd s = CHR ''+'' then parse_digits radix 0 (tl s)
      else parse_digits radix 0 s)"

text \<open>The parsed word becomes the stored value as it is.\<close>

definition gl_from_str_radix :: "string \<Rightarrow> nat \<Rightarrow> int_error_kind + GoldilocksField" where
  "gl_from_str_radix s radix = u64_from_str_radix s radix"

section \<open>Canonical values as residues\<close>

text \<open>The canonical word of an integer; every canonical word is of this form.\<close>

definition gl_of :: "int \<Rightarrow> GoldilocksField" where
  "gl_of x = word_of_int (x mod uint ORDER)"

lemma uint_ORDER: "uint ORDER = 18446744069414584321"
  by (simp add: ORDER_def)

lemma uint_EPSILON: "uint EPSILON = 4294967295"
  by (simp add: EPSILON_def)

lemma gl_canonical_uint: "gl_canonical a \<longleftrightarrow> uint a < 18446744069414584321"
  by (simp add: gl_canonical_def word_less_def uint_ORDER)

lemma uint_gl_of: "uint (gl_of x) = x mod 18446744069414584321"
proof -
  have "x mod 18446744069414584321 < 2 ^ 64"
    using pos_mod_bound[of 18446744069414584321 x] by simp
  then show ?thesis
    by (simp add: gl_of_def uint_ORDER uint_word_of_int)
qed

lemma gl_canonical_gl_of [canonical_intros]: "gl_canonical (gl_of x)"
  by (simp add: gl_canonical_uint uint_gl_of)

lemma gl_of_uint: "gl_canonical a \<Longrightarrow> gl_of (uint a) = a"
  by (simp add: gl_canonical_uint uint_gl_of word_uint_eq_iff)

lemma gl_of_eqI: "x mod 18446744069414584321 = y mod 18446744069414584321 \<Longrightarrow> gl_of x = gl_of y"
  by (simp add: gl_of_def uint_ORDER)

lemma gl_of_dvdI: "18446744069414584321 dvd x - y \<Longrightarrow> gl_of x = gl_of y"
  by (intro gl_of_eqI) (simp add: mod_eq_dvd_iff)

lemma uint_u64_bound: "0 \<le> uint (x :: u64)" "uint (x :: u64) < 18446744073709551616"
  using uint_bounded[of x] by simp_all

lemma gl_of_0: "gl_of 0 = 0" and gl_of_1: "gl_of 1 = 1"
  by (simp_all add: gl_of_def uint_ORDER)

lemma gl_of_eq_0: "gl_of x = 0 \<longleftrightarrow> 18446744069414584321 dvd x"
  by (simp add: word_uint_eq_iff uint_gl_of dvd_eq_mod_eq_0)

section \<open>No panics, and refinement of the integer operations\<close>

lemma wrap_gl_of [panic_free]: "wrap x = Some (gl_of (uint x))"
proof (cases "ORDER \<le> x")
  case True
  then have le: "uint ORDER \<le> uint x" by (simp add: word_le_def)
  then have "uint x mod 18446744069414584321 = uint x - 18446744069414584321"
    using uint_u64_bound[of x] by (intro mod_sub_once) (simp_all add: uint_ORDER)
  then have "x - ORDER = gl_of (uint x)"
    using plain_sub_Some(2)[OF le] by (simp add: word_uint_eq_iff uint_gl_of uint_ORDER)
  with True plain_sub_Some(1)[OF le] show ?thesis by (simp add: wrap_def)
next
  case False
  then have "gl_canonical x" by (simp add: gl_canonical_def)
  with False show ?thesis by (simp add: wrap_def gl_of_uint)
qed

lemma gl_neg_gl_of [panic_free]:
  assumes "gl_canonical a"
  shows "gl_neg a = Some (gl_of (- uint a))"
proof (cases "a = 0")
  case False
  then have pos: "0 < uint a" by (simp add: uint_eq_0_iff_pos)
  have le: "uint a \<le> uint ORDER" using assms by (simp add: gl_canonical_uint uint_ORDER)
  have "uint (ORDER - a) = (- uint a) mod 18446744069414584321"
    using plain_sub_Some(2)[OF le] pos assms
    by (subst mod_add_once) (simp_all add: uint_ORDER gl_canonical_uint)
  then have "ORDER - a = gl_of (- uint a)" by (simp add: word_uint_eq_iff uint_gl_of)
  with False plain_sub_Some(1)[OF le] show ?thesis by (simp add: gl_neg_def)
qed (simp add: gl_neg_def gl_of_0)

lemma plain_mul_flag:
  "plain_mul (of_bool b) EPSILON = Some (if b then EPSILON else 0)"
  "plain_mul EPSILON (of_bool b) = Some (if b then EPSILON else 0)"
  by (simp_all add: plain_mul_def uint_EPSILON)

lemma gl_add_gl_of [panic_free]:
  assumes "gl_canonical a" "gl_canonical b"
  shows "gl_add a b = Some (gl_of (uint a + uint b))"
proof (cases "2 ^ 64 \<le> uint a + uint b")
  case True
  then have s: "uint (a + b) = uint a + uint b - 2 ^ 64"
    using uint_add_overflow[of a b] by simp
  have no: "uint (a + b) + uint EPSILON < 2 ^ LENGTH(64)"
    using assms by (simp add: s uint_EPSILON gl_canonical_uint)
  have "gl_of (uint (a + b + EPSILON)) = gl_of (uint a + uint b)"
    by (rule gl_of_dvdI) (simp only: plain_add_Some(2)[OF no], simp add: s uint_EPSILON)
  with True no show ?thesis
    by (simp add: gl_add_def overflowing_add_def plain_mul_flag wrap_gl_of)
next
  case False
  then have "uint (a + b) = uint a + uint b" by (simp add: uint_add_no_overflow)
  with False show ?thesis
    by (simp add: gl_add_def overflowing_add_def plain_mul_flag wrap_gl_of)
qed

lemma gl_sub_gl_of [panic_free]:
  assumes "gl_canonical a" "gl_canonical b"
  shows "gl_sub a b = Some (gl_of (uint a - uint b))"
proof (cases "uint a < uint b")
  case True
  then have s: "uint (a - b) = uint a - uint b + 18446744073709551616"
    using uint_sub_underflow[of a b] by simp
  have no: "uint EPSILON \<le> uint (a - b)"
    using assms uint_u64_bound(1)[of a] unfolding s uint_EPSILON gl_canonical_uint by linarith
  have "gl_of (uint (a - b - EPSILON)) = gl_of (uint a - uint b)"
    by (rule gl_of_dvdI) (simp only: plain_sub_Some(2)[OF no], simp add: s uint_EPSILON)
  with True no show ?thesis
    by (simp add: gl_sub_def overflowing_sub_def plain_mul_flag wrap_gl_of)
next
  case False
  then have "uint (a - b) = uint a - uint b" by (simp add: uint_sub_no_underflow)
  with False show ?thesis
    by (simp add: gl_sub_def overflowing_sub_def plain_mul_flag wrap_gl_of)
qed

text \<open>The addition is exact modulo the order below the documented bound \<open>2 ^ 64 + ORDER\<close>.\<close>

lemma add_no_canonicalize_cong [panic_free]:
  assumes "uint x + uint y < 2 ^ 64 + uint ORDER"
  obtains z where "add_no_canonicalize_trashing_input x y = Some z"
    "gl_of (uint z) = gl_of (uint x + uint y)"
proof (cases "2 ^ 64 \<le> uint x + uint y")
  case True
  then have s: "uint (x + y) = uint x + uint y - 2 ^ 64"
    using uint_add_overflow[of x y] by simp
  have no: "uint (x + y) + uint EPSILON < 2 ^ LENGTH(64)"
    using assms by (simp add: s uint_EPSILON uint_ORDER)
  have "gl_of (uint (x + y + EPSILON)) = gl_of (uint x + uint y)"
    by (rule gl_of_dvdI) (simp only: plain_add_Some(2)[OF no], simp add: s uint_EPSILON)
  moreover have "add_no_canonicalize_trashing_input x y = Some (x + y + EPSILON)"
    using True plain_add_Some(1)[OF no]
    by (simp add: add_no_canonicalize_trashing_input_def overflowing_add_def plain_mul_flag)
  ultimately show thesis using that by blast
next
  case False
  then have "uint (x + y) = uint x + uint y" by (simp add: uint_add_no_overflow)
  moreover have "add_no_canonicalize_trashing_input x y = Some (x + y)"
    using False uint_u64_bound[of "x + y"]
    by (simp add: add_no_canonicalize_trashing_input_def overflowing_add_def plain_mul_flag plain_add_def)
  ultimately show thesis using that by simp
qed

lemma split128_uint:
  "split128 x = (lo, hi) \<Longrightarrow> uint x = uint lo + 2 ^ 64 * uint hi"
proof -
  assume "split128 x = (lo, hi)"
  then have lo: "uint lo = uint x mod 2 ^ 64" and hi: "uint hi = uint x div 2 ^ 64 mod 2 ^ 64"
    by (auto simp: split128_def unsigned_ucast_eq uint_drop_bit_word take_bit_eq_mod)
  have "uint x div 2 ^ 64 < 2 ^ 64"
    using uint_bounded[of x] by (simp add: div_less_iff_less_mult)
  then have "uint hi = uint x div 2 ^ 64"
    by (simp add: hi mod_pos_pos_trivial pos_imp_zdiv_nonneg_iff)
  then show ?thesis by (simp add: lo mod_div_mult_eq[symmetric] mult.commute)
qed

lemma EPSILON_mask: "EPSILON = mask 32"
  by (simp add: EPSILON_def mask_eq_exp_minus_1)

lemma reduce128_borrow:
  assumes "0 \<le> uint hh" "uint hh < 4294967296"
  obtains t0 :: u64 where "(if snd (overflowing_sub lo hh) then plain_sub (fst (overflowing_sub lo hh)) EPSILON
        else Some (fst (overflowing_sub lo hh))) = Some t0"
    "uint t0 = uint lo - uint hh \<or> uint t0 = uint lo - uint hh + 18446744069414584321"
proof (cases "uint lo < uint hh")
  case True
  then have s: "uint (lo - hh) = uint lo - uint hh + 18446744073709551616"
    using uint_sub_underflow[of lo hh] by simp
  have no: "uint EPSILON \<le> uint (lo - hh)"
    using assms uint_u64_bound(1)[of lo] unfolding s uint_EPSILON by linarith
  show thesis
    using that[of "lo - hh - EPSILON"] True plain_sub_Some[OF no]
    by (simp add: overflowing_sub_def s uint_EPSILON)
next
  case False
  then show thesis
    using that[of "lo - hh"] by (simp add: overflowing_sub_def uint_sub_no_underflow)
qed

lemma reduce128_gl_of [panic_free]: "reduce128 x = Some (gl_of (uint x))"
proof -
  obtain lo hi where sp: "split128 x = (lo, hi)" by fastforce
  define hh where "hh = drop_bit 32 hi"
  define hl where "hl = hi AND EPSILON"
  have hh: "uint hh = uint hi div 2 ^ 32" by (simp add: hh_def uint_drop_bit_word)
  have hl: "uint hl = uint hi mod 2 ^ 32" by (simp only: hl_def EPSILON_mask uint_and_mask_word)
  have hh_bound: "0 \<le> uint hh" "uint hh < 4294967296"
    using uint_u64_bound[of hi] by (simp_all add: hh pos_imp_zdiv_nonneg_iff div_less_iff_less_mult)
  have hl_bound: "0 \<le> uint hl" "uint hl \<le> 4294967295"
    using pos_mod_bound[of "2 ^ 32" "uint hi"] by (simp_all add: hl)
  have "uint hi = uint hl + 4294967296 * uint hh" by (simp add: hh hl)
  with split128_uint[OF sp]
  have x: "uint x = uint lo + 18446744073709551616 * (uint hl + 4294967296 * uint hh)" by simp
  obtain t0 where t0: "(if snd (overflowing_sub lo hh) then plain_sub (fst (overflowing_sub lo hh)) EPSILON
        else Some (fst (overflowing_sub lo hh))) = Some t0"
    and t0_cong: "uint t0 = uint lo - uint hh \<or> uint t0 = uint lo - uint hh + 18446744069414584321"
    using reduce128_borrow[OF hh_bound] by blast
  have m: "uint hl * uint EPSILON \<le> 18446744065119617025"
    using mult_right_mono[OF hl_bound(2), of 4294967295] by (simp add: uint_EPSILON)
  then have mul: "uint hl * uint EPSILON < 2 ^ LENGTH(64)" by simp
  obtain t2 where t2: "add_no_canonicalize_trashing_input t0 (hl * EPSILON) = Some t2"
    and t2_cong: "gl_of (uint t2) = gl_of (uint t0 + uint (hl * EPSILON))"
  proof (rule add_no_canonicalize_cong)
    show "uint t0 + uint (hl * EPSILON) < 2 ^ 64 + uint ORDER"
      using m uint_u64_bound(2)[of t0] by (simp add: plain_mul_Some(2)[OF mul] uint_ORDER)
  qed
  let ?p = "18446744069414584321" and ?k = "- uint hl - 4294967297 * uint hh"
  have "uint t0 + uint hl * 4294967295 - uint x = ?p * ?k
      \<or> uint t0 + uint hl * 4294967295 - uint x = ?p * (?k + 1)"
    using t0_cong by (simp add: x algebra_simps)
  then have "?p dvd uint t0 + uint hl * 4294967295 - uint x"
    by (metis dvd_triv_left)
  then have "gl_of (uint t2) = gl_of (uint x)"
    unfolding t2_cong plain_mul_Some(2)[OF mul] uint_EPSILON by (rule gl_of_dvdI)
  then show ?thesis
    using t0 t2
    by (auto simp: reduce128_def sp hh_def hl_def plain_mul_Some(1)[OF mul, unfolded hl_def]
        wrap_gl_of Let_def split_beta)
qed

lemma gl_mul_gl_of [panic_free]: "gl_mul a b = Some (gl_of (uint a * uint b))"
proof -
  have "uint a * uint b < 2 ^ 128"
    using mult_strict_mono'[OF uint_u64_bound(2)[of a] uint_u64_bound(2)[of b]] by simp
  moreover have "uint (ucast w :: u128) = uint w" for w :: u64
    by (simp add: unsigned_ucast_eq take_bit_int_eq_self order.strict_trans[OF uint_u64_bound(2)])
  ultimately show ?thesis
    by (simp add: gl_mul_def plain_mul_Some reduce128_gl_of)
qed

lemma gl_of_mult: "gl_of (uint (gl_of x) * uint (gl_of y)) = gl_of (x * y)"
  by (rule gl_of_eqI) (simp add: uint_gl_of mod_mult_eq)

lemma gl_mul_residues: "gl_mul (gl_of x) (gl_of y) = Some (gl_of (x * y))"
  by (simp add: gl_mul_gl_of gl_of_mult)

lemma gl_square_residue: "gl_square (gl_of x) = Some (gl_of (x * x))"
  by (simp add: gl_square_def gl_mul_residues)

lemma exp_power_of_2_residue: "exp_power_of_2 (gl_of x) n = Some (gl_of (x ^ 2 ^ n))"
proof (induction n arbitrary: x)
  case (Suc n)
  have "(x * x) ^ 2 ^ n = x ^ 2 ^ Suc n"
    by (simp add: power_mult flip: power2_eq_square)
  then show ?case by (simp add: gl_square_residue Suc)
qed simp

lemma exp_acc_residue:
  "exp_acc n (gl_of (x ^ k)) (gl_of (x ^ l)) = Some (gl_of (x ^ (k * 2 ^ n + l)))"
  by (simp add: exp_acc_def exp_power_of_2_residue gl_mul_residues power_add power_mult)

text \<open>The addition chain raises its argument to \<open>ORDER - 2\<close>.\<close>

lemma try_inverse_power [panic_free]:
  assumes "gl_canonical a" "a \<noteq> 0"
  shows "try_inverse a = Some (Some (gl_of (uint a ^ 18446744069414584319)))"
proof -
  let ?x = "uint a"
  have a: "a = gl_of ?x" using assms(1) by (simp add: gl_of_uint)
  have sq: "gl_square (gl_of (?x ^ k)) = Some (gl_of (?x ^ (2 * k)))" for k
    by (simp add: gl_square_residue mult_2 power_add)
  have mul: "gl_mul (gl_of (?x ^ k)) a = Some (gl_of (?x ^ Suc k))" for k
    by (subst (2) a) (simp add: gl_mul_residues mult.commute)
  have s1: "gl_square a = Some (gl_of (?x ^ 2))"
    by (subst a) (simp add: gl_square_residue power2_eq_square)
  show ?thesis
    by (simp add: assms(2) try_inverse_def s1 sq mul exp_acc_residue del: power_Suc)
qed

lemma gl_fermat:
  assumes "0 < x" "x < 18446744069414584321"
  shows "x ^ 18446744069414584320 mod 18446744069414584321 = (1::int)"
proof -
  have "\<not> 18446744069414584321 dvd nat x"
    using assms by (auto dest!: dvd_imp_le)
  then have "nat x ^ (18446744069414584321 - 1) mod 18446744069414584321 = 1"
    using fermat_little[OF goldilocks_is_prime] by blast
  then have "int (nat x ^ 18446744069414584320 mod 18446744069414584321) = 1" by simp
  then show ?thesis using assms by (simp only: zmod_int of_nat_power of_nat_numeral int_nat_eq) simp
qed

lemma gl_inverse_law:
  assumes "0 < x" "x < 18446744069414584321"
  shows "x * (x ^ 18446744069414584319 mod 18446744069414584321) mod 18446744069414584321 = (1::int)"
proof -
  have "x * x ^ 18446744069414584319 = x ^ Suc 18446744069414584319" by (simp only: power_Suc)
  also have "Suc 18446744069414584319 = 18446744069414584320" by simp
  finally show ?thesis
    by (simp only: mod_mult_right_eq gl_fermat[OF assms])
qed

section \<open>The field interface\<close>

text \<open>The descriptor of the field, with the inversion computed by the word-level code.\<close>

definition goldilocks_inverse :: "int \<Rightarrow> int" where
  "goldilocks_inverse a =
     (case try_inverse (word_of_int a) of Some (Some i) \<Rightarrow> uint i | _ \<Rightarrow> 0)"

definition goldilocks_field :: field_desc where
  "goldilocks_field = \<lparr>modulus = uint ORDER, NUM_BITS = 64, inverse_of = goldilocks_inverse\<rparr>"

lemma goldilocks_field_sel [simp]:
  "modulus goldilocks_field = 18446744069414584321" "NUM_BITS goldilocks_field = 64"
  "inverse_of goldilocks_field = goldilocks_inverse"
  by (simp_all add: goldilocks_field_def uint_ORDER)

lemma gl_modulus_u32: "2 ^ 32 \<le> modulus goldilocks_field"
  by simp

lemma goldilocks_inverse_power:
  assumes "0 < a" "a < 18446744069414584321"
  shows "goldilocks_inverse a = a ^ 18446744069414584319 mod 18446744069414584321"
proof -
  have u: "uint (word_of_int a :: u64) = a"
    using assms by (simp add: uint_word_of_int_eq take_bit_int_eq_self)
  then have "gl_canonical (word_of_int a)" "(word_of_int a :: u64) \<noteq> 0"
    using assms by (auto simp: gl_canonical_uint simp flip: uint_eq_0_iff_pos)
  then show ?thesis
    by (simp add: goldilocks_inverse_def try_inverse_power u uint_gl_of)
qed

interpretation gl: field_element goldilocks_field
proof
  fix a assume a: "0 < a" "a < modulus goldilocks_field"
  then show "canonical goldilocks_field (inverse_of goldilocks_field a)"
    by (simp add: canonical_def goldilocks_inverse_power)
  show "a * inverse_of goldilocks_field a mod modulus goldilocks_field = 1"
    using a by (simp add: goldilocks_inverse_power gl_inverse_law)
qed simp_all

interpretation gli: field_impl goldilocks_field uint gl_canonical gl_add gl_sub gl_mul gl_neg
proof
  fix a b :: GoldilocksField
  show "gl_canonical a \<Longrightarrow> canonical goldilocks_field (uint a)"
    by (simp add: gl_canonical_uint canonical_def)
  show "uint a = uint b \<Longrightarrow> a = b" by (simp add: word_uint_eq_iff)
qed (simp_all add: gl_add_gl_of gl_sub_gl_of gl_mul_gl_of gl_neg_gl_of gl_canonical_gl_of
      uint_gl_of fe_add_def fe_sub_def fe_mul_def fe_neg_def)

lemma gl_div_refines:
  assumes "gl_canonical a" "gl_canonical b"
  shows "map_option uint (gl_div a b) = fe_div goldilocks_field (uint a) (uint b)"
proof (cases "b = 0")
  case False
  then have "0 < uint b" by (simp add: uint_eq_0_iff_pos)
  with False assms show ?thesis
    by (simp add: gl_div_def try_inverse_power fe_div_def gl_mul_gl_of fe_mul_def uint_gl_of
        goldilocks_inverse_power gl_canonical_uint)
qed (simp add: gl_div_def try_inverse_def fe_div_def)

section \<open>Exponentiation\<close>

lemma gl_pow_loop_residue:
  assumes "1 \<le> uint e"
  shows "gl_pow_loop e (gl_of x) (gl_of r) = Some (gl_of (r * x ^ unat e))"
  using assms
proof (induction "unat e" arbitrary: e x r rule: less_induct)
  case less
  show ?case
  proof (cases "2 \<le> e")
    case True
    then have e2: "2 \<le> uint e" by (simp add: word_le_def)
    let ?h = "drop_bit 1 e"
    have h: "uint ?h = uint e div 2" by (simp add: uint_drop_bit_word)
    then have uh: "unat ?h = unat e div 2"
      by (metis nat_div_distrib nat_numeral unat_eq_nat_uint unsigned_greater_eq zero_le_numeral)
    have odd_bit: "e AND 1 \<noteq> 0 \<longleftrightarrow> odd (unat e)"
      by (simp add: u64_and_one_eq_0)
    let ?r = "if odd (unat e) then r * x else r"
    have "gl_pow_loop e (gl_of x) (gl_of r) = gl_pow_loop ?h (gl_of (x * x)) (gl_of ?r)"
      by (subst gl_pow_loop.simps) (simp add: True odd_bit gl_mul_residues gl_square_residue)
    also have "\<dots> = Some (gl_of (?r * (x * x) ^ unat ?h))"
    proof (rule less.hyps)
      have "0 < unat e" using e2 by (cases "e = 0") (simp_all add: unat_gt_0)
      then show "unat ?h < unat e" unfolding uh by simp
      show "1 \<le> uint ?h" using e2 h by simp
    qed
    also have "?r * (x * x) ^ unat ?h = r * x ^ unat e"
      unfolding uh by (auto elim!: evenE oddE simp: power_mult power2_eq_square)
    finally show ?thesis .
  next
    case False
    then have "uint e = 1" using less.prems by (simp add: word_le_def)
    then have "e = 1" by (simp add: word_uint_eq_iff)
    with False show ?thesis
      by (subst gl_pow_loop.simps) (simp add: gl_mul_residues)
  qed
qed

lemma gl_pow_gl_of [panic_free]:
  assumes "gl_canonical a"
  shows "gl_pow a e = Some (gl_of (uint a ^ unat e))"
proof -
  have "gl_pow_loop e a 1 = Some (gl_of (uint a ^ unat e))" if "e \<noteq> 0"
    using gl_pow_loop_residue[of e "uint a" 1] that assms
    by (simp add: gl_of_uint gl_of_1 int_one_le_iff_zero_less uint_eq_0_iff_pos)
  with assms show ?thesis
    by (auto simp: gl_pow_def gl_of_1 gl_of_uint)
qed

section \<open>Correctness of the conversions\<close>

lemma from_noncanonical_i64_gl_of [panic_free]:
  "from_noncanonical_i64 n = Some (gl_of (sint n))"
proof (cases "sint n < 0")
  case True
  have sb: "- 9223372036854775808 \<le> sint n" using sint_ge[of n] by simp
  have un: "uint n = sint n + 18446744073709551616"
    using True sb by (simp add: uint_sint take_bit_eq_mod mod_add_once)
  have "2 ^ LENGTH(64) \<le> uint ORDER + uint n" using sb by (simp add: uint_ORDER un)
  then have "uint (ORDER + n) = sint n + 18446744069414584321"
    by (simp add: uint_add_overflow uint_ORDER un)
  moreover have "sint n mod 18446744069414584321 = sint n + 18446744069414584321"
    using True sb by (intro mod_add_once) simp_all
  ultimately have "uint (ORDER + n) = uint (gl_of (sint n))" by (simp add: uint_gl_of)
  then have "ORDER + n = gl_of (sint n)" by (simp add: word_uint_eq_iff)
  then show ?thesis
    using True gl_canonical_gl_of[of "sint n"]
    by (simp add: from_noncanonical_i64_def from_canonical_u64_def gl_canonical_def)
next
  case False
  have sb: "sint n < 9223372036854775808" using sint_less[of n] by simp
  with False have un: "uint n = sint n"
    by (simp add: uint_sint take_bit_int_eq_self)
  with sb have "gl_canonical n" by (simp add: gl_canonical_uint)
  with False show ?thesis
    by (simp add: from_noncanonical_i64_def from_canonical_u64_def gl_canonical_def un[symmetric]
        gl_of_uint)
qed

lemma biguint_to_le_bytes: "biguint_from_le_bytes (to_le_bytes x) = uint x"
proof -
  have byte: "uint (ucast (drop_bit k x) :: u8) = uint x div 2 ^ k mod 256" for k
    by (simp add: unsigned_ucast_eq uint_drop_bit_word take_bit_eq_mod)
  have byte0: "uint (ucast x :: u8) = uint x mod 256"
    by (simp add: unsigned_ucast_eq take_bit_eq_mod)
  have step: "m mod 256 + 256 * (m div 256) = m" for m :: int by simp
  have top: "uint x div 72057594037927936 mod 256 = uint x div 72057594037927936"
    using uint_u64_bound[of x]
    by (intro mod_pos_pos_trivial) (simp_all add: pos_imp_zdiv_nonneg_iff div_less_iff_less_mult)
  have "biguint_from_le_bytes (to_le_bytes x) =
      (let m = uint x; m1 = m div 256; m2 = m1 div 256; m3 = m2 div 256; m4 = m3 div 256;
           m5 = m4 div 256; m6 = m5 div 256; m7 = m6 div 256 in
       m mod 256 + 256 * (m1 mod 256 + 256 * (m2 mod 256 + 256 * (m3 mod 256 + 256 *
       (m4 mod 256 + 256 * (m5 mod 256 + 256 * (m6 mod 256 + 256 * m7)))))))"
    using top by (simp add: to_le_bytes_def byte byte0 upt_rec[of _ 8] Let_def zdiv_zmult2_eq[symmetric])
  also have "\<dots> = uint x" by (simp only: Let_def step)
  finally show ?thesis .
qed

lemma gl_bytes_roundtrip_gl_of [panic_free]:
  assumes "gl_canonical a"
  shows "gl_from_bytes_le (gl_to_bytes_le a) = Some a"
proof -
  have "u64_try_from (uint a) = Some a"
    using uint_u64_bound[of a] by (simp add: u64_try_from_def)
  with assms show ?thesis
    by (simp add: gl_from_bytes_le_def gl_to_bytes_le_def biguint_to_le_bytes wrap_gl_of gl_from_u64_def
        gl_of_uint)
qed

lemma gl_is_in_lower_half_refines:
  "gl_is_in_lower_half a \<longleftrightarrow> is_in_lower_half goldilocks_field (uint a)"
  by (simp add: gl_is_in_lower_half_def ORDER_def is_in_lower_half_def word_le_def)

lemma gl_checked_from_refines:
  "0 \<le> n \<Longrightarrow> map_option (map_option uint) (gl_checked_from n) = Some (checked_from goldilocks_field n)"
  by (simp add: gl_checked_from_def checked_from_def u64_try_from_def gl_from_u64_def wrap_gl_of
      uint_ORDER fe_from_def uint_gl_of uint_word_of_int)

text \<open>The two implementations of the uncanonical addition agree.\<close>

lemma add_no_canonicalize_x86_eq:
  "add_no_canonicalize_x86 x y = add_no_canonicalize_trashing_input x y"
proof -
  have "uint (ucast (- 1 :: u32) :: u64) = 4294967295"
    by (simp add: unsigned_ucast_eq take_bit_int_eq_self unsigned_minus_1_eq_mask mask_eq_exp_minus_1)
  then have "(ucast (- 1 :: u32) :: u64) = EPSILON"
    by (simp add: word_uint_eq_iff uint_EPSILON)
  then have adj: "(ucast ((ucast y - ucast y - of_bool c) :: u32) :: u64) = (if c then EPSILON else 0)" for c
    by simp
  show ?thesis
    using uint_u64_bound[of x] uint_u64_bound[of y]
    by (simp only: add_no_canonicalize_x86_def add_no_canonicalize_trashing_input_def adj Let_def)
      (auto simp: overflowing_add_def plain_mul_flag)
qed

section \<open>The correctness theorems\<close>

text \<open>C1: Reducing any 128-bit product never overflows or panics and returns its canonical
  residue modulo the order.\<close>

theorem reduce128_correct:
  "\<exists>c. reduce128 x = Some c \<and> gl_canonical c \<and> uint c = uint x mod uint ORDER"
  by (simp add: reduce128_gl_of gl_canonical_gl_of uint_gl_of uint_ORDER)

text \<open>C2: On canonical values addition, subtraction, multiplication and negation do not panic (no
  debug assertion fails, no plain operator overflows), keep values canonical and refine the
  operations modulo the order.\<close>

theorem gl_ops_refine:
  assumes "gl_canonical a" "gl_canonical b"
  shows "(\<exists>c. gl_add a b = Some c \<and> gl_canonical c \<and> uint c = (uint a + uint b) mod uint ORDER)
    \<and> (\<exists>c. gl_sub a b = Some c \<and> gl_canonical c \<and> uint c = (uint a - uint b) mod uint ORDER)
    \<and> (\<exists>c. gl_mul a b = Some c \<and> gl_canonical c \<and> uint c = (uint a * uint b) mod uint ORDER)
    \<and> (\<exists>c. gl_neg a = Some c \<and> gl_canonical c \<and> uint c = (- uint a) mod uint ORDER)"
  using gli.add_refines[OF assms] gli.sub_refines[OF assms] gli.mul_refines[OF assms]
    gli.neg_refines[OF assms(1)]
  by (simp add: fe_add_def fe_sub_def fe_mul_def fe_neg_def uint_ORDER)

theorem gl_ops_refine_witness:
  "\<exists>c. gl_add 18446744069414584320 5 = Some c \<and> gl_canonical c
     \<and> uint c = (uint (18446744069414584320 :: u64) + uint (5 :: u64)) mod uint ORDER"
  using gl_ops_refine[of 18446744069414584320 5] by (simp add: gl_canonical_uint)

text \<open>C3: The addition chain of \<open>try_inverse\<close> does not panic and returns the inverse of every
  non-zero canonical value; the modulus being prime is proved, not assumed.\<close>

theorem try_inverse_correct:
  assumes "gl_canonical a" "a \<noteq> 0"
  shows "\<exists>i. try_inverse a = Some (Some i) \<and> gl_canonical i \<and> gl_mul a i = Some 1"
proof -
  have "uint a * (uint a ^ 18446744069414584319 mod 18446744069414584321) mod 18446744069414584321 = 1"
    using assms by (intro gl_inverse_law) (simp_all add: gl_canonical_uint uint_eq_0_iff_pos)
  then have "gl_mul a (gl_of (uint a ^ 18446744069414584319)) = Some 1"
    by (simp add: gl_mul_gl_of word_uint_eq_iff uint_gl_of)
  with assms show ?thesis by (simp add: try_inverse_power gl_canonical_gl_of)
qed

theorem try_inverse_correct_witness:
  "\<exists>i. try_inverse 7 = Some (Some i) \<and> gl_canonical i \<and> gl_mul 7 i = Some 1"
  by (rule try_inverse_correct) (simp_all add: gl_canonical_uint)

text \<open>The square-and-multiply loop of \<open>pow\<close> terminates without a panic and computes the power
  for every 64-bit exponent.\<close>

theorem gl_pow_correct:
  assumes "gl_canonical a"
  shows "\<exists>c. gl_pow a e = Some c \<and> gl_canonical c \<and> uint c = uint a ^ unat e mod uint ORDER"
  using assms by (simp add: gl_pow_gl_of gl_canonical_gl_of uint_gl_of uint_ORDER)

theorem gl_pow_correct_witness:
  "\<exists>c. gl_pow 3 5 = Some c \<and> gl_canonical c \<and> uint c = uint (3 :: u64) ^ unat (5 :: u64) mod uint ORDER"
  by (rule gl_pow_correct) (simp add: gl_canonical_uint)

text \<open>Reading back the little-endian bytes of a canonical value gives the value.\<close>

theorem gl_bytes_roundtrip:
  assumes "gl_canonical a"
  shows "gl_from_bytes_le (gl_to_bytes_le a) = Some a"
  using assms by (rule gl_bytes_roundtrip_gl_of)

theorem gl_bytes_roundtrip_witness:
  "gl_from_bytes_le (gl_to_bytes_le 18446744069414584320) = Some 18446744069414584320"
  by (rule gl_bytes_roundtrip) (simp add: gl_canonical_uint)

text \<open>Converting a signed 64-bit integer never fails its debug assertion and gives the
  canonical residue of the integer, for negative integers too.\<close>

theorem from_noncanonical_i64_correct:
  "\<exists>c. from_noncanonical_i64 n = Some c \<and> gl_canonical c \<and> uint c = sint n mod uint ORDER"
  by (simp add: from_noncanonical_i64_gl_of gl_canonical_gl_of uint_gl_of uint_ORDER)

text \<open>C6: \<open>from_str_radix\<close> accepts numbers that are not below the modulus: the hexadecimal digits
  of the modulus itself give a stored value that is not canonical and is not equal to zero,
  unlike the bytes conversion of the same integer.\<close>

theorem gl_from_str_radix_not_canonical:
  "gl_from_str_radix ''ffffffff00000001'' 16 = Inr ORDER \<and> \<not> gl_canonical ORDER
     \<and> gl_from_bytes_le (to_le_bytes ORDER) = Some 0"
proof -
  have "gl_from_str_radix ''ffffffff00000001'' 16 = Inr ORDER" by code_simp
  moreover have "gl_from_bytes_le (to_le_bytes ORDER) = Some 0"
  proof -
    have "u64_try_from (uint ORDER) = Some ORDER"
      using uint_u64_bound[of ORDER] by (simp add: u64_try_from_def)
    moreover have "gl_of (uint ORDER) = 0" by (simp add: gl_of_eq_0 uint_ORDER)
    ultimately show ?thesis
      by (simp add: gl_from_bytes_le_def biguint_to_le_bytes wrap_gl_of gl_from_u64_def gl_of_0)
  qed
  ultimately show ?thesis by (simp add: gl_canonical_def)
qed

text \<open>The x86-64 assembly version of the uncanonical addition never breaks the assumptions it
  states to the compiler and agrees with the portable version.\<close>

theorem add_no_canonicalize_versions_agree:
  "add_no_canonicalize_x86 x y = add_no_canonicalize_trashing_input x y"
  by (rule add_no_canonicalize_x86_eq)

end
