(* ===== verification/Range_Constraints.thy ===== *)
theory Range_Constraints
  imports Goldilocks
begin

text \<open>
  The range constraints of \<open>executor/src/witgen/range_constraints.rs\<close>: the conjunction of an
  inclusive interval of field elements, which may wrap around the modulus, and a bit mask.
  They form an abstract domain: every operation of the code is shown to be sound for the set of
  field elements that \<open>allows_value\<close> accepts.
\<close>

section \<open>The data and the operations\<close>

record range_constraint =
  rc_mask :: int
  rc_min :: int
  rc_max :: int

definition mask_from_bits :: "field_desc \<Rightarrow> nat \<Rightarrow> int option" where
  "mask_from_bits F bits =
     (if bits = 0 then Some 0
      else do {
        rust_assert (bits \<le> NUM_BITS F);
        Some (drop_bit (NUM_BITS F - bits) (int_not F 0))
      })"

definition from_mask :: "field_desc \<Rightarrow> int \<Rightarrow> range_constraint" where
  "from_mask F m = \<lparr>rc_mask = m, rc_min = 0, rc_max = fe_from F (min m (fe_from F (-1)))\<rparr>"

definition from_max_bit :: "field_desc \<Rightarrow> nat \<Rightarrow> range_constraint option" where
  "from_max_bit F max_bit = do {
     m \<leftarrow> mask_from_bits F (max_bit + 1);
     Some (from_mask F m)
   }"

definition from_value :: "int \<Rightarrow> range_constraint" where
  "from_value v = \<lparr>rc_mask = v, rc_min = v, rc_max = v\<rparr>"

definition from_range :: "field_desc \<Rightarrow> int \<Rightarrow> int \<Rightarrow> range_constraint option" where
  "from_range F mn mx = do {
     m \<leftarrow> (if mn \<le> mx then mask_from_bits F (num_bits mx) else Some (int_not F 0));
     Some \<lparr>rc_mask = m, rc_min = mn, rc_max = mx\<rparr>
   }"

definition unconstrained :: "field_desc \<Rightarrow> range_constraint" where
  "unconstrained F = from_mask F (int_not F 0)"

definition rc_range :: "range_constraint \<Rightarrow> int \<times> int" where
  "rc_range rc = (rc_min rc, rc_max rc)"

definition interval_width :: "field_desc \<Rightarrow> int \<Rightarrow> int \<Rightarrow> int" where
  "interval_width F mn mx =
     (if fe_add F mx 1 = mn then modulus F else fe_add F (fe_sub F mx mn) 1)"

definition range_width :: "field_desc \<Rightarrow> range_constraint \<Rightarrow> int" where
  "range_width F rc = interval_width F (rc_min rc) (rc_max rc)"

definition in_range :: "int \<Rightarrow> int \<Rightarrow> int \<Rightarrow> bool" where
  "in_range mn mx v = (if mn \<le> mx then mn \<le> v \<and> v \<le> mx else mn \<le> v \<or> v \<le> mx)"

definition allows_value :: "range_constraint \<Rightarrow> int \<Rightarrow> bool" where
  "allows_value rc v \<longleftrightarrow> in_range (rc_min rc) (rc_max rc) v \<and> v AND rc_mask rc = v"

definition try_to_single_value :: "range_constraint \<Rightarrow> int option" where
  "try_to_single_value rc = (if rc_min rc = rc_max rc then Some (rc_min rc) else None)"

definition bisect :: "field_desc \<Rightarrow> range_constraint \<Rightarrow> (range_constraint \<times> range_constraint) option" where
  "bisect F rc = do {
     rust_assert (try_to_single_value rc = None);
     let half_width = fe_from F (drop_bit 1 (range_width F rc));
     rust_assert (half_width > 0);
     Some (rc\<lparr>rc_max := fe_sub F (fe_add F (rc_min rc) half_width) 1\<rparr>,
           rc\<lparr>rc_min := fe_add F (rc_min rc) half_width\<rparr>)
   }"

definition combine_sum :: "field_desc \<Rightarrow> range_constraint \<Rightarrow> range_constraint \<Rightarrow> range_constraint" where
  "combine_sum F a b =
     (let m = (if rc_mask a + rc_mask b \<ge> modulus F then int_not F 0
               else (rc_mask a + rc_mask b) OR rc_mask a OR rc_mask b);
          (mn, mx) = (if range_width F a + range_width F b \<le> modulus F
               then (fe_add F (rc_min a) (rc_min b), fe_add F (rc_max a) (rc_max b))
               else (1, 0))
      in \<lparr>rc_mask = m, rc_min = mn, rc_max = mx\<rparr>)"

definition shifted_interval :: "field_desc \<Rightarrow> int \<times> int \<Rightarrow> int \<Rightarrow> int \<times> int" where
  "shifted_interval F i s = (fe_add F (fst i) s, fe_add F (snd i) s)"

fun find_map :: "('a \<Rightarrow> 'b option) \<Rightarrow> 'a list \<Rightarrow> 'b option" where
  "find_map f [] = None"
| "find_map f (x # xs) = (case f x of Some y \<Rightarrow> Some y | None \<Rightarrow> find_map f xs)"

definition interval_intersection ::
    "field_desc \<Rightarrow> int \<times> int \<Rightarrow> int \<times> int \<Rightarrow> (int \<times> int) option" where
  "interval_intersection F a b =
     (case find_map (\<lambda>s.
          let a_shifted = shifted_interval F a (fe_neg F s);
              b_shifted = shifted_interval F b (fe_neg F s)
          in if fst a_shifted \<le> snd a_shifted \<and> fst b_shifted \<le> snd b_shifted
             then Some (s, a_shifted, b_shifted) else None) [fst a, fst b] of
        Some (s, a_shifted, b_shifted) \<Rightarrow>
          (let intersection = (max (fst a_shifted) (fst b_shifted), min (snd a_shifted) (snd b_shifted))
           in if fst intersection \<le> snd intersection then Some (shifted_interval F intersection s)
              else None)
      | None \<Rightarrow>
          if interval_width F (fst a) (snd a) \<le> interval_width F (fst b) (snd b) then Some a else Some b)"

definition conjunction ::
    "field_desc \<Rightarrow> range_constraint \<Rightarrow> range_constraint \<Rightarrow> range_constraint option" where
  "conjunction F a b =
     (let m = rc_mask a AND rc_mask b;
          (mn, mx) = (case interval_intersection F (rc_range a) (rc_range b) of
              Some i \<Rightarrow> i | None \<Rightarrow> (0, 0));
          (mn, mx) = (if m < modulus F then
              (if mn \<le> mx then (min (fe_from F m) mn, min (fe_from F m) mx)
               else if mn > m then (0, min (fe_from F m) mx)
               else (mn, mx))
            else (mn, mx))
      in do {
        m \<leftarrow> (if mn \<le> mx then do { r \<leftarrow> from_range F mn mx; Some (m AND rc_mask r) } else Some m);
        Some \<lparr>rc_mask = m, rc_min = mn, rc_max = mx\<rparr>
      })"

definition disjunction :: "field_desc \<Rightarrow> range_constraint \<Rightarrow> range_constraint \<Rightarrow> range_constraint" where
  "disjunction F a b =
     (let m = rc_mask a OR rc_mask b in
      case (rc_min a \<le> rc_max a, rc_min b \<le> rc_max b) of
        (True, True) \<Rightarrow>
          \<lparr>rc_mask = m, rc_min = min (rc_min a) (rc_min b), rc_max = max (rc_max a) (rc_max b)\<rparr>
      | (True, False) \<Rightarrow> from_mask F m
      | (False, True) \<Rightarrow> from_mask F m
      | (False, False) \<Rightarrow>
          (let mn = min (rc_min a) (rc_min b); mx = max (rc_max a) (rc_max b) in
           if mn \<le> mx then from_mask F m else \<lparr>rc_mask = m, rc_min = mn, rc_max = mx\<rparr>))"

definition range_multiple :: "field_desc \<Rightarrow> int \<Rightarrow> int \<Rightarrow> int \<Rightarrow> int \<times> int" where
  "range_multiple F mn mx factor =
     (if interval_width F mn mx * factor \<le> modulus F
      then (fe_mul F mn factor, fe_mul F mx factor) else (1, 0))"

definition multiple :: "field_desc \<Rightarrow> range_constraint \<Rightarrow> int \<Rightarrow> range_constraint option" where
  "multiple F rc factor =
     (let shifted_mask = (case log2_exact factor of
              None \<Rightarrow> None
            | Some e \<Rightarrow> if push_bit e (rc_mask rc) < modulus F
                then Some (take_bit (NUM_BITS F) (push_bit e (rc_mask rc))) else None);
          (mn, mx) = (if is_in_lower_half F factor
              then range_multiple F (rc_min rc) (rc_max rc) factor
              else range_multiple F (fe_neg F (rc_max rc)) (fe_neg F (rc_min rc)) (fe_neg F factor))
      in do {
        m \<leftarrow> (case shifted_mask of Some m \<Rightarrow> Some m
              | None \<Rightarrow> do { r \<leftarrow> from_range F mn mx; Some (rc_mask r) });
        Some \<lparr>rc_mask = m, rc_min = mn, rc_max = mx\<rparr>
      })"

definition rc_neg :: "field_desc \<Rightarrow> range_constraint \<Rightarrow> range_constraint option" where
  "rc_neg F rc = from_range F (fe_neg F (rc_max rc)) (fe_neg F (rc_min rc))"

section \<open>Well-formed constraints and intervals\<close>

definition wf_rc :: "field_desc \<Rightarrow> range_constraint \<Rightarrow> bool" where
  "wf_rc F rc \<longleftrightarrow> canonical F (rc_min rc) \<and> canonical F (rc_max rc)
     \<and> 0 \<le> rc_mask rc \<and> rc_mask rc < 2 ^ NUM_BITS F"

text \<open>The field elements that a constraint allows.\<close>

definition rc_values :: "field_desc \<Rightarrow> range_constraint \<Rightarrow> int set" where
  "rc_values F rc = {v. canonical F v \<and> allows_value rc v}"

lemma rc_valuesI: "canonical F v \<Longrightarrow> allows_value rc v \<Longrightarrow> v \<in> rc_values F rc"
  by (simp add: rc_values_def)

context field_element
begin

lemma int_not_0: "int_not F 0 = mask (NUM_BITS F)"
  by (simp add: int_not_def)

lemma mask_from_bits_eq: "bits \<le> NUM_BITS F \<Longrightarrow> mask_from_bits F bits = Some (mask bits)"
  by (simp add: mask_from_bits_def int_not_0 drop_bit_mask_eq)

lemma canonical_num_bits: "canonical F v \<Longrightarrow> num_bits v \<le> NUM_BITS F"
  using modulus_le_width by (intro num_bits_le) (simp add: canonical_def)

lemma canonical_and_all: "canonical F v \<Longrightarrow> v AND int_not F 0 = v"
  using modulus_le_width by (simp add: int_not_0 canonical_def and_self_mask)

lemma mask_bits_wf: "n \<le> NUM_BITS F \<Longrightarrow> 0 \<le> (mask n :: int) \<and> mask n < (2 ^ NUM_BITS F :: int)"
proof -
  assume "n \<le> NUM_BITS F"
  then have "(2::int) ^ n \<le> 2 ^ NUM_BITS F" by (simp add: power_increasing)
  moreover have "1 \<le> (2::int) ^ n" by simp
  ultimately show ?thesis unfolding mask_eq_exp_minus_1 by linarith
qed

lemma int_not_0_wf: "0 \<le> int_not F 0" "int_not F 0 < 2 ^ NUM_BITS F"
  using mask_bits_wf[of "NUM_BITS F"] by (simp_all add: int_not_0)

text \<open>The constraint of a range: it never panics, and its mask covers the range.\<close>

lemma from_range_ok:
  assumes "canonical F mn" "canonical F mx"
  obtains m where "from_range F mn mx = Some \<lparr>rc_mask = m, rc_min = mn, rc_max = mx\<rparr>"
    "0 \<le> m" "m < 2 ^ NUM_BITS F"
    "\<And>v. canonical F v \<Longrightarrow> in_range mn mx v \<Longrightarrow> v AND m = v"
proof (cases "mn \<le> mx")
  case True
  have n: "num_bits mx \<le> NUM_BITS F" using assms(2) by (rule canonical_num_bits)
  have "v AND mask (num_bits mx) = v" if "canonical F v" "in_range mn mx v" for v
    using that True num_bits_bound[of mx] by (intro and_self_mask) (auto simp: canonical_def in_range_def)
  then show thesis
    using that[of "mask (num_bits mx)"] True mask_from_bits_eq[OF n] mask_bits_wf[OF n]
    by (simp add: from_range_def)
next
  case False
  then show thesis
    using that[of "int_not F 0"] int_not_0_wf canonical_and_all by (simp add: from_range_def)
qed

text \<open>Membership in a possibly wrapping interval is a bound on the distance from its start.\<close>

lemma in_range_distance:
  assumes "canonical F mn" "canonical F mx" "canonical F v"
  shows "in_range mn mx v \<longleftrightarrow> (v - mn) mod modulus F \<le> (mx - mn) mod modulus F"
proof -
  have d: "(x - mn) mod modulus F = (if mn \<le> x then x - mn else x - mn + modulus F)"
    if "canonical F x" for x
    using that assms(1) by (auto simp: canonical_def mod_add_once)
  show ?thesis using assms by (auto simp: d in_range_def canonical_def)
qed

lemma interval_width_eq:
  assumes "canonical F mn" "canonical F mx"
  shows "interval_width F mn mx = (mx - mn) mod modulus F + 1"
proof (cases "(mx - mn) mod modulus F = modulus F - 1")
  case True
  have "(mx + 1) mod modulus F = (mn + ((mx - mn) mod modulus F + 1)) mod modulus F"
    by (metis add.assoc add.commute diff_add_cancel mod_add_right_eq)
  then have "fe_add F mx 1 = mn"
    using True canonical_mod[OF assms(1)] by (simp add: fe_add_def)
  with True show ?thesis by (simp add: interval_width_def)
next
  case False
  let ?d = "(mx - mn) mod modulus F"
  have d: "0 \<le> ?d" "?d < modulus F" using modulus_pos by simp_all
  have "fe_add F mx 1 \<noteq> mn"
  proof
    assume "fe_add F mx 1 = mn"
    then have "(mx - mn) mod modulus F = (mx - (mx + 1)) mod modulus F"
      by (metis fe_add_def mod_diff_right_eq)
    then show False using False modulus_gt_2 by (simp add: mod_add_once)
  qed
  moreover have "fe_add F (fe_sub F mx mn) 1 = ?d + 1"
    using False d by (simp add: fe_add_def fe_sub_def)
  ultimately show ?thesis by (simp add: interval_width_def)
qed

lemma full_range: "in_range 1 0 v" if "canonical F v"
  by (simp add: in_range_def) linarith

lemma interval_width_bounds:
  assumes "canonical F mn" "canonical F mx"
  shows "1 \<le> interval_width F mn mx" "interval_width F mn mx \<le> modulus F"
  using pos_mod_bound[OF modulus_pos, of "mx - mn"] pos_mod_sign[OF modulus_pos, of "mx - mn"]
  unfolding interval_width_eq[OF assms] by linarith+

section \<open>Soundness of the operations\<close>

text \<open>Distances of sums, multiples and negations.\<close>

lemma distance_add:
  "(fe_add F x y - fe_add F a b) mod modulus F
     = ((x - a) mod modulus F + (y - b) mod modulus F) mod modulus F"
  by (simp add: fe_add_def mod_diff_eq mod_add_eq algebra_simps)

lemma distance_mul:
  "(fe_mul F x f - fe_mul F a f) mod modulus F = (x - a) mod modulus F * f mod modulus F"
  by (simp add: fe_mul_def mod_diff_eq mod_mult_left_eq left_diff_distrib)

lemma distance_neg: "(fe_neg F x - fe_neg F a) mod modulus F = (a - x) mod modulus F"
  by (simp add: fe_neg_def mod_diff_eq)

lemma distance_bounds: "0 \<le> x mod modulus F" "x mod modulus F < modulus F"
  using modulus_pos by simp_all

lemma in_range_add:
  assumes c: "canonical F m1" "canonical F M1" "canonical F v" "canonical F m2" "canonical F M2" "canonical F u"
    and w: "interval_width F m1 M1 + interval_width F m2 M2 \<le> modulus F"
    and r: "in_range m1 M1 v" "in_range m2 M2 u"
  shows "in_range (fe_add F m1 m2) (fe_add F M1 M2) (fe_add F v u)"
proof -
  let ?d1 = "(v - m1) mod modulus F" and ?d2 = "(u - m2) mod modulus F"
  let ?D1 = "(M1 - m1) mod modulus F" and ?D2 = "(M2 - m2) mod modulus F"
  have le: "?d1 \<le> ?D1" "?d2 \<le> ?D2" using r c by (simp_all add: in_range_distance)
  have "?D1 + ?D2 < modulus F" using w c by (simp add: interval_width_eq)
  with le have "(?d1 + ?d2) mod modulus F \<le> (?D1 + ?D2) mod modulus F"
    by (simp add: distance_bounds add_nonneg_nonneg)
  then show ?thesis
    by (subst in_range_distance) (simp_all add: ops_canonical distance_add)
qed

lemma in_range_shift:
  assumes "canonical F mn" "canonical F mx" "canonical F v"
  shows "in_range (fe_add F mn s) (fe_add F mx s) (fe_add F v s) \<longleftrightarrow> in_range mn mx v"
  using assms by (simp add: in_range_distance ops_canonical distance_add)

lemma in_range_neg:
  assumes "canonical F mn" "canonical F mx" "canonical F v" "in_range mn mx v"
  shows "in_range (fe_neg F mx) (fe_neg F mn) (fe_neg F v)"
proof -
  let ?d = "(v - mn) mod modulus F" and ?D = "(mx - mn) mod modulus F"
  have "?d \<le> ?D" using assms by (simp add: in_range_distance)
  moreover have "0 \<le> ?d" "?D < modulus F" by (rule distance_bounds)+
  ultimately have "(?D - ?d) mod modulus F = ?D - ?d"
    by (intro mod_pos_pos_trivial) linarith+
  moreover have "(mx - v) mod modulus F = (?D - ?d) mod modulus F" by (simp add: mod_diff_eq)
  ultimately have "(mx - v) mod modulus F = ?D - ?d" by simp
  also have "\<dots> \<le> ?D" using distance_bounds by simp
  finally show ?thesis
    using assms by (simp add: in_range_distance ops_canonical distance_neg)
qed

lemma in_range_multiple:
  assumes "canonical F mn" "canonical F mx" "canonical F v" "canonical F f" "in_range mn mx v"
    and "range_multiple F mn mx f = (mn', mx')"
  shows "in_range mn' mx' (fe_mul F v f)" "canonical F mn'" "canonical F mx'"
proof -
  show "canonical F mn'" "canonical F mx'"
    using assms(6) by (auto simp: range_multiple_def ops_canonical canonical_0 canonical_1 split: if_splits)
  show "in_range mn' mx' (fe_mul F v f)"
  proof (cases "interval_width F mn mx * f \<le> modulus F")
    case True
    let ?d = "(v - mn) mod modulus F" and ?D = "(mx - mn) mod modulus F"
    have f: "0 \<le> f" using assms(4) by (simp add: canonical_def)
    have le: "?d * f \<le> ?D * f"
      using assms f by (intro mult_right_mono) (simp_all add: in_range_distance)
    have "?D * f < modulus F \<or> f = 0"
      using True assms(1,2) f by (auto simp: interval_width_eq distrib_right)
    with le have "?d * f mod modulus F \<le> ?D * f mod modulus F"
      using f distance_bounds by (auto simp: mod_pos_pos_trivial mult_nonneg_nonneg)
    with True assms(6) show ?thesis
      by (auto simp: range_multiple_def in_range_distance ops_canonical distance_mul)
  next
    case False
    with assms(6) show ?thesis by (auto simp: range_multiple_def intro!: full_range ops_canonical)
  qed
qed

lemma combine_sum_sound:
  assumes "wf_rc F a" "wf_rc F b" "v \<in> rc_values F a" "u \<in> rc_values F b"
  shows "fe_add F v u \<in> rc_values F (combine_sum F a b)"
proof (intro rc_valuesI)
  let ?s = "combine_sum F a b"
  have v: "canonical F v" "in_range (rc_min a) (rc_max a) v" "v AND rc_mask a = v"
    and u: "canonical F u" "in_range (rc_min b) (rc_max b) u" "u AND rc_mask b = u"
    using assms(3,4) by (auto simp: rc_values_def allows_value_def)
  have "in_range (rc_min ?s) (rc_max ?s) (fe_add F v u)"
    using assms(1,2) v u
    by (auto simp: combine_sum_def range_width_def wf_rc_def Let_def
        intro!: in_range_add full_range ops_canonical)
  moreover have "fe_add F v u AND rc_mask ?s = fe_add F v u"
  proof (cases "rc_mask a + rc_mask b \<ge> modulus F")
    case True
    then show ?thesis by (simp add: combine_sum_def Let_def split_beta canonical_and_all ops_canonical)
  next
    case False
    have "v \<le> rc_mask a" "u \<le> rc_mask b"
      using assms(1,2) v u by (auto simp: wf_rc_def intro: and_self_le)
    with False v u have "fe_add F v u = v + u"
      by (simp add: fe_add_def canonical_def)
    moreover have "(v + u) AND ((rc_mask a + rc_mask b) OR rc_mask a OR rc_mask b) = v + u"
      using assms(1,2) v u by (intro and_self_add) (simp_all add: wf_rc_def)
    ultimately show ?thesis using False by (simp add: combine_sum_def Let_def split_beta)
  qed
  ultimately show "allows_value ?s (fe_add F v u)" by (simp add: allows_value_def)
qed (rule ops_canonical)

lemma combine_sum_wf:
  assumes "wf_rc F a" "wf_rc F b"
  shows "wf_rc F (combine_sum F a b)"
proof -
  have "(rc_mask a + rc_mask b) OR rc_mask a OR rc_mask b < 2 ^ NUM_BITS F"
    if "rc_mask a + rc_mask b < modulus F"
    using that assms modulus_le_width by (intro OR_upper) (simp_all add: wf_rc_def)
  with assms show ?thesis
    by (auto simp: wf_rc_def combine_sum_def Let_def int_not_0_wf ops_canonical canonical_0 canonical_1
        OR_lower)
qed

lemma rc_neg_ok:
  assumes "wf_rc F rc"
  obtains r where "rc_neg F rc = Some r" "wf_rc F r"
    "\<And>v. v \<in> rc_values F rc \<Longrightarrow> fe_neg F v \<in> rc_values F r"
proof -
  obtain m where m: "rc_neg F rc = Some \<lparr>rc_mask = m, rc_min = fe_neg F (rc_max rc), rc_max = fe_neg F (rc_min rc)\<rparr>"
    "0 \<le> m" "m < 2 ^ NUM_BITS F"
    "\<And>v. canonical F v \<Longrightarrow> in_range (fe_neg F (rc_max rc)) (fe_neg F (rc_min rc)) v \<Longrightarrow> v AND m = v"
    unfolding rc_neg_def by (rule from_range_ok[OF ops_canonical(4) ops_canonical(4)]) blast
  show thesis
  proof (rule that[OF m(1)])
    fix v assume v: "v \<in> rc_values F rc"
    then have "in_range (fe_neg F (rc_max rc)) (fe_neg F (rc_min rc)) (fe_neg F v)"
      using assms by (intro in_range_neg) (auto simp: wf_rc_def rc_values_def allows_value_def)
    with m(4) show "fe_neg F v \<in> rc_values F \<lparr>rc_mask = m, rc_min = fe_neg F (rc_max rc), rc_max = fe_neg F (rc_min rc)\<rparr>"
      by (simp add: rc_values_def allows_value_def ops_canonical)
  qed (use m in \<open>simp add: wf_rc_def ops_canonical\<close>)
qed

lemma fe_mul_neg_neg: "fe_mul F (fe_neg F v) (fe_neg F f) = fe_mul F v f"
  unfolding fe_mul_def fe_neg_def by (simp only: mod_mult_eq minus_mult_minus)

text \<open>The interval that \<open>multiple\<close> computes, for factors in either half of the field.\<close>

lemma multiple_interval:
  assumes "wf_rc F rc" "canonical F f"
    and "(if is_in_lower_half F f then range_multiple F (rc_min rc) (rc_max rc) f
          else range_multiple F (fe_neg F (rc_max rc)) (fe_neg F (rc_min rc)) (fe_neg F f)) = (mn, mx)"
  shows "canonical F mn" "canonical F mx" "v \<in> rc_values F rc \<Longrightarrow> in_range mn mx (fe_mul F v f)"
proof -
  have c: "canonical F (rc_min rc)" "canonical F (rc_max rc)" using assms(1) by (auto simp: wf_rc_def)
  show "canonical F mn" "canonical F mx"
    using assms(3) by (auto simp: range_multiple_def ops_canonical canonical_0 canonical_1 split: if_splits)
  assume "v \<in> rc_values F rc"
  then have v: "canonical F v" "in_range (rc_min rc) (rc_max rc) v"
    by (auto simp: rc_values_def allows_value_def)
  show "in_range mn mx (fe_mul F v f)"
  proof (cases "is_in_lower_half F f")
    case True
    with assms(3) c v assms(2) show ?thesis by (auto intro: in_range_multiple(1))
  next
    case False
    have "in_range mn mx (fe_mul F (fe_neg F v) (fe_neg F f))"
      by (rule in_range_multiple(1)[OF _ _ _ _ in_range_neg[OF c v]])
        (use False assms(3) in \<open>simp_all add: ops_canonical\<close>)
    then show ?thesis by (simp only: fe_mul_neg_neg)
  qed
qed

lemma multiple_ok:
  assumes "wf_rc F rc" "canonical F f"
  obtains r where "multiple F rc f = Some r" "wf_rc F r"
    "\<And>v. v \<in> rc_values F rc \<Longrightarrow> fe_mul F v f \<in> rc_values F r"
proof -
  obtain mn mx where i: "(if is_in_lower_half F f then range_multiple F (rc_min rc) (rc_max rc) f
      else range_multiple F (fe_neg F (rc_max rc)) (fe_neg F (rc_min rc)) (fe_neg F f)) = (mn, mx)"
    by fastforce
  note int = multiple_interval[OF assms i] and result = that
  have fin: thesis if m: "multiple F rc f = Some \<lparr>rc_mask = m, rc_min = mn, rc_max = mx\<rparr>"
    "0 \<le> m" "m < 2 ^ NUM_BITS F" and s: "\<And>v. v \<in> rc_values F rc \<Longrightarrow> fe_mul F v f AND m = fe_mul F v f" for m
  proof (rule result[OF m(1)])
    show "wf_rc F \<lparr>rc_mask = m, rc_min = mn, rc_max = mx\<rparr>" using m int by (simp add: wf_rc_def)
    show "fe_mul F v f \<in> rc_values F \<lparr>rc_mask = m, rc_min = mn, rc_max = mx\<rparr>"
      if "v \<in> rc_values F rc" for v
      using that int(3) s by (simp add: rc_values_def allows_value_def ops_canonical)
  qed
  show thesis
  proof (cases "\<exists>e. log2_exact f = Some e \<and> push_bit e (rc_mask rc) < modulus F")
    case True
    then obtain e where e: "log2_exact f = Some e" "push_bit e (rc_mask rc) < modulus F" by blast
    then have f: "f = 2 ^ e" by (simp add: log2_exact_Some)
    have b: "0 \<le> push_bit e (rc_mask rc)" "push_bit e (rc_mask rc) < 2 ^ NUM_BITS F"
      using assms(1) e modulus_le_width by (simp_all add: wf_rc_def)
    have "fe_mul F v f AND push_bit e (rc_mask rc) = fe_mul F v f" if "v \<in> rc_values F rc" for v
    proof -
      have v: "canonical F v" "v AND rc_mask rc = v" using that by (auto simp: rc_values_def allows_value_def)
      then have le: "v * 2 ^ e \<le> rc_mask rc * 2 ^ e"
        using assms(1) by (simp add: and_self_le wf_rc_def)
      then have "v * 2 ^ e < modulus F" using e(2) unfolding push_bit_eq_mult by linarith
      then have "fe_mul F v f = v * 2 ^ e"
        using v(1) by (simp add: f fe_mul_def canonical_def)
      with v show ?thesis by (simp add: and_self_push_bit)
    qed
    then show thesis
      using e b i by (intro fin[of "push_bit e (rc_mask rc)"])
        (simp_all add: multiple_def Let_def take_bit_int_eq_self)
  next
    case False
    obtain m where m: "from_range F mn mx = Some \<lparr>rc_mask = m, rc_min = mn, rc_max = mx\<rparr>"
      "0 \<le> m" "m < 2 ^ NUM_BITS F"
      "\<And>v. canonical F v \<Longrightarrow> in_range mn mx v \<Longrightarrow> v AND m = v"
      using from_range_ok[OF int(1,2)] by blast
    with False i int(3) show thesis
      by (intro fin[of m]) (auto simp: multiple_def Let_def ops_canonical split: option.splits)
  qed
qed

lemma shifted_interval_canonical:
  "canonical F (fst (shifted_interval F i s))" "canonical F (snd (shifted_interval F i s))"
  by (simp_all add: shifted_interval_def ops_canonical)

lemma fe_add_neg_cancel:
  assumes "canonical F v"
  shows "fe_add F (fe_add F v (fe_neg F s)) s = v"
  using assms canonical_mod[of v] by (simp add: fe_add_def fe_neg_def mod_simps)

lemma find_map_Some:
  "find_map f xs = Some y \<Longrightarrow> \<exists>x \<in> set xs. f x = Some y"
  by (induction xs) (auto split: option.splits)

text \<open>
  A value of both intervals is in the interval that \<open>interval_intersection\<close> returns; when it
  returns \<open>None\<close> there is no such value.
\<close>

lemma interval_intersection_sound:
  assumes c: "canonical F (fst a)" "canonical F (snd a)" "canonical F (fst b)" "canonical F (snd b)"
    and v: "canonical F v" "in_range (fst a) (snd a) v" "in_range (fst b) (snd b) v"
  obtains i where "interval_intersection F a b = Some i" "in_range (fst i) (snd i) v"
proof (cases "find_map (\<lambda>s.
          let a_shifted = shifted_interval F a (fe_neg F s);
              b_shifted = shifted_interval F b (fe_neg F s)
          in if fst a_shifted \<le> snd a_shifted \<and> fst b_shifted \<le> snd b_shifted
             then Some (s, a_shifted, b_shifted) else None) [fst a, fst b]")
  case None
  then show thesis using that v by (cases "interval_width F (fst a) (snd a) \<le> interval_width F (fst b) (snd b)")
    (simp_all add: interval_intersection_def)
next
  case (Some r)
  then obtain s where r: "r = (s, shifted_interval F a (fe_neg F s), shifted_interval F b (fe_neg F s))"
    and ord: "fst (shifted_interval F a (fe_neg F s)) \<le> snd (shifted_interval F a (fe_neg F s))"
      "fst (shifted_interval F b (fe_neg F s)) \<le> snd (shifted_interval F b (fe_neg F s))"
    by (auto simp: Let_def dest!: find_map_Some split: if_splits)
  let ?a = "shifted_interval F a (fe_neg F s)" and ?b = "shifted_interval F b (fe_neg F s)"
  let ?v = "fe_add F v (fe_neg F s)"
  define i where "i = (max (fst ?a) (fst ?b), min (snd ?a) (snd ?b))"
  have "in_range (fst ?a) (snd ?a) ?v" "in_range (fst ?b) (snd ?b) ?v"
    using c v by (simp_all add: shifted_interval_def in_range_shift)
  with ord have iv: "fst i \<le> ?v" "?v \<le> snd i" by (auto simp: i_def in_range_def)
  then have "in_range (fst i) (snd i) ?v" by (simp add: in_range_def)
  moreover have "canonical F (fst i)" "canonical F (snd i)"
    by (auto simp: i_def max_def min_def shifted_interval_canonical)
  ultimately have "in_range (fe_add F (fst i) s) (fe_add F (snd i) s) (fe_add F ?v s)"
    by (simp add: in_range_shift ops_canonical)
  then have "in_range (fst (shifted_interval F i s)) (snd (shifted_interval F i s)) v"
    using v(1) by (simp add: shifted_interval_def fe_add_neg_cancel)
  moreover have "interval_intersection F a b = Some (shifted_interval F i s)"
    using Some r iv by (simp add: interval_intersection_def i_def Let_def)
  ultimately show thesis using that by blast
qed

lemma interval_intersection_canonical:
  assumes "canonical F (fst a)" "canonical F (snd a)" "canonical F (fst b)" "canonical F (snd b)"
    "interval_intersection F a b = Some i"
  shows "canonical F (fst i) \<and> canonical F (snd i)"
  using assms
  by (auto simp: interval_intersection_def Let_def shifted_interval_canonical split: option.splits if_splits)

lemma conjunction_ok:
  assumes a: "wf_rc F a" and b: "wf_rc F b"
  obtains r where "conjunction F a b = Some r" "wf_rc F r"
    "\<And>v. v \<in> rc_values F a \<Longrightarrow> v \<in> rc_values F b \<Longrightarrow> v \<in> rc_values F r"
proof -
  let ?m = "rc_mask a AND rc_mask b"
  obtain mn0 mx0 where i: "(case interval_intersection F (rc_range a) (rc_range b) of
      Some i \<Rightarrow> i | None \<Rightarrow> (0, 0)) = (mn0, mx0)" by fastforce
  define mnx where "mnx = (if ?m < modulus F then
              (if mn0 \<le> mx0 then (min (fe_from F ?m) mn0, min (fe_from F ?m) mx0)
               else if mn0 > ?m then (0, min (fe_from F ?m) mx0)
               else (mn0, mx0))
            else (mn0, mx0))"
  obtain mn mx where mnx: "mnx = (mn, mx)" by fastforce
  have m: "0 \<le> ?m" "?m < 2 ^ NUM_BITS F"
    using a b AND_upper1'[of "rc_mask a" "2 ^ NUM_BITS F"] by (auto simp: wf_rc_def AND_lower)
  have fm: "fe_from F ?m = ?m" if "?m < modulus F" using that m by (simp add: fe_from_def)
  have c: "canonical F mn0" "canonical F mx0"
    using a b i interval_intersection_canonical[of "rc_range a" "rc_range b"]
    by (auto simp: wf_rc_def rc_range_def canonical_0 split: option.splits)
  then have cm: "canonical F mn" "canonical F mx"
    using mnx by (auto simp: mnx_def min_def canonical_0 ops_canonical split: if_splits)
  have sound: "in_range mn mx v \<and> v AND ?m = v" if "v \<in> rc_values F a" "v \<in> rc_values F b" for v
  proof -
    have v: "canonical F v" "in_range (rc_min a) (rc_max a) v" "in_range (rc_min b) (rc_max b) v"
      "v AND ?m = v" using that by (auto simp: rc_values_def allows_value_def and_self_and)
    then have "in_range mn0 mx0 v"
      using a b i interval_intersection_sound[of "rc_range a" "rc_range b" v]
      by (auto simp: wf_rc_def rc_range_def split: option.splits)
    moreover have "v \<le> ?m" using v(4) m(1) by (rule and_self_le)
    ultimately show ?thesis
      using mnx v fm by (auto simp: mnx_def in_range_def canonical_def split: if_splits)
  qed
  have eq: "conjunction F a b = do {
      m \<leftarrow> (if mn \<le> mx then do { r \<leftarrow> from_range F mn mx; Some (?m AND rc_mask r) } else Some ?m);
      Some \<lparr>rc_mask = m, rc_min = mn, rc_max = mx\<rparr> }"
    using mnx by (simp add: conjunction_def Let_def i mnx_def split: prod.splits)
  obtain k where k: "from_range F mn mx = Some \<lparr>rc_mask = k, rc_min = mn, rc_max = mx\<rparr>"
    "0 \<le> k" "k < 2 ^ NUM_BITS F" "\<And>v. canonical F v \<Longrightarrow> in_range mn mx v \<Longrightarrow> v AND k = v"
    using from_range_ok[OF cm] by blast
  let ?n = "if mn \<le> mx then ?m AND k else ?m"
  show thesis
  proof (rule that)
    show "conjunction F a b = Some \<lparr>rc_mask = ?n, rc_min = mn, rc_max = mx\<rparr>"
      by (simp add: eq k(1))
    show "wf_rc F \<lparr>rc_mask = ?n, rc_min = mn, rc_max = mx\<rparr>"
      using cm m AND_upper1'[of ?m "2 ^ NUM_BITS F" k] by (auto simp: wf_rc_def AND_lower)
    show "v \<in> rc_values F \<lparr>rc_mask = ?n, rc_min = mn, rc_max = mx\<rparr>"
      if v: "v \<in> rc_values F a" "v \<in> rc_values F b" for v
      using sound[OF v] k(4) v by (auto simp: rc_values_def allows_value_def and_self_and)
  qed
qed

lemma from_mask_wf: "0 \<le> m \<Longrightarrow> m < 2 ^ NUM_BITS F \<Longrightarrow> wf_rc F (from_mask F m)"
  by (simp add: from_mask_def wf_rc_def ops_canonical canonical_0)

text \<open>A constraint made from a mask allows exactly the elements whose bits are in the mask.\<close>

lemma from_mask_values:
  assumes "0 \<le> m"
  shows "rc_values F (from_mask F m) = {v. canonical F v \<and> v AND m = v}"
proof -
  have p: "fe_from F (-1) = modulus F - 1"
    using modulus_gt_2 by (simp add: fe_from_def mod_add_once)
  then have mx: "fe_from F (min m (fe_from F (-1))) = min m (modulus F - 1)"
    using assms modulus_gt_2 by (simp add: fe_from_def)
  have "v \<le> min m (modulus F - 1)" if "canonical F v" "v AND m = v" for v
    using that assms and_self_le[of v m] by (simp add: canonical_def)
  then show ?thesis
    by (auto simp: rc_values_def from_mask_def allows_value_def in_range_def mx canonical_def)
qed

lemma unconstrained_values: "rc_values F (unconstrained F) = {v. canonical F v}"
  using canonical_and_all by (auto simp: unconstrained_def from_mask_values int_not_0_wf)

lemma unconstrained_wf: "wf_rc F (unconstrained F)"
  by (simp add: unconstrained_def from_mask_wf int_not_0_wf)

lemma from_value_values: "canonical F v \<Longrightarrow> rc_values F (from_value v) = {v}"
  by (auto simp: rc_values_def from_value_def allows_value_def in_range_def)

lemma from_value_wf: "canonical F v \<Longrightarrow> wf_rc F (from_value v)"
  using modulus_le_width by (simp add: from_value_def wf_rc_def canonical_def)

lemma disjunction_sound:
  assumes "wf_rc F a" "wf_rc F b" "v \<in> rc_values F a \<union> rc_values F b"
  shows "v \<in> rc_values F (disjunction F a b)"
proof -
  let ?m = "rc_mask a OR rc_mask b"
  have v: "canonical F v" "v AND ?m = v"
    using assms(3) by (auto simp: rc_values_def allows_value_def and_self_or)
  have "0 \<le> ?m" using assms(1,2) by (simp add: wf_rc_def)
  with v have fm: "v \<in> rc_values F (from_mask F ?m)" by (simp add: from_mask_values)
  with assms(3) v show ?thesis
    by (auto simp: disjunction_def Let_def rc_values_def allows_value_def in_range_def
        split: if_splits bool.splits)
qed

lemma disjunction_wf:
  assumes "wf_rc F a" "wf_rc F b"
  shows "wf_rc F (disjunction F a b)"
proof -
  have "0 \<le> rc_mask a OR rc_mask b" "rc_mask a OR rc_mask b < 2 ^ NUM_BITS F"
    using assms by (auto simp: wf_rc_def intro: OR_upper)
  moreover have "canonical F (min (rc_min a) (rc_min b))" "canonical F (max (rc_max a) (rc_max b))"
    using assms by (auto simp: wf_rc_def min_def max_def)
  ultimately show ?thesis
    by (auto simp: disjunction_def Let_def from_mask_wf split: bool.splits) (simp_all add: wf_rc_def)
qed

text \<open>
  Splitting an interval: \<open>d\<close> is the distance of a value from the start, \<open>D\<close> that of the
  end and \<open>h\<close> that of the split point.
\<close>

lemma distance_split:
  assumes "0 \<le> d" "d < modulus F" "0 < h" "h \<le> D" "D < modulus F"
  shows "(d - h) mod modulus F \<le> D - h \<longleftrightarrow> h \<le> d \<and> d \<le> D"
  using assms by (cases "h \<le> d") (simp_all add: mod_add_once mod_pos_pos_trivial)

lemma bisect_ok:
  assumes wf: "wf_rc F rc" and two: "rc_min rc \<noteq> rc_max rc"
  obtains a b where "bisect F rc = Some (a, b)" "wf_rc F a" "wf_rc F b"
    "rc_values F a \<union> rc_values F b = rc_values F rc" "rc_values F a \<inter> rc_values F b = {}"
    "range_width F a + range_width F b = range_width F rc"
    "range_width F a = range_width F rc div 2"
proof -
  let ?p = "modulus F" and ?mn = "rc_min rc" and ?mx = "rc_max rc"
  have c: "canonical F ?mn" "canonical F ?mx" using wf by (auto simp: wf_rc_def)
  define D where "D = (?mx - ?mn) mod ?p"
  define h where "h = (D + 1) div 2"
  have "D \<noteq> 0"
  proof
    assume "D = 0"
    then have "?mx mod ?p = ?mn mod ?p" unfolding D_def by (metis dvd_eq_mod_eq_0 mod_eq_dvd_iff)
    then show False using two c by (metis canonical_mod)
  qed
  then have D: "1 \<le> D" "D < ?p" using distance_bounds[of "?mx - ?mn"] by (simp_all add: D_def)
  then have h: "1 \<le> h" "h \<le> D" by (simp_all add: h_def)
  have w: "range_width F rc = D + 1" using c by (simp add: range_width_def interval_width_eq D_def)
  have hw: "fe_from F (drop_bit 1 (range_width F rc)) = h"
    using D h by (simp add: w h_def[symmetric] fe_from_def drop_bit_eq_div)
  let ?a = "rc\<lparr>rc_max := fe_sub F (fe_add F ?mn h) 1\<rparr>" and ?b = "rc\<lparr>rc_min := fe_add F ?mn h\<rparr>"
  have da: "(fe_sub F (fe_add F ?mn h) 1 - ?mn) mod ?p = h - 1"
  proof -
    have "(fe_sub F (fe_add F ?mn h) 1 - ?mn) mod ?p = (h - 1) mod ?p"
      by (simp add: fe_sub_def fe_add_def mod_simps)
    then show ?thesis using D h by simp
  qed
  have db: "(?mx - fe_add F ?mn h) mod ?p = D - h"
  proof -
    have "(?mx - fe_add F ?mn h) mod ?p = (D - h) mod ?p"
      by (simp add: fe_add_def D_def mod_simps algebra_simps)
    then show ?thesis using D h by simp
  qed
  have dv: "(v - fe_add F ?mn h) mod ?p = ((v - ?mn) mod ?p - h) mod ?p" for v
    by (simp add: fe_add_def mod_simps algebra_simps)
  have split: "in_range ?mn (fe_sub F (fe_add F ?mn h) 1) v \<longleftrightarrow> (v - ?mn) mod ?p < h"
    "in_range (fe_add F ?mn h) ?mx v \<longleftrightarrow> h \<le> (v - ?mn) mod ?p \<and> (v - ?mn) mod ?p \<le> D"
    "in_range ?mn ?mx v \<longleftrightarrow> (v - ?mn) mod ?p \<le> D" if "canonical F v" for v
    using that c D h distance_split[of "(v - ?mn) mod ?p" h D] distance_bounds[of "v - ?mn"]
    by (simp_all add: in_range_distance ops_canonical da db dv D_def[symmetric])
  show thesis
  proof (rule that)
    show "bisect F rc = Some (?a, ?b)"
      using two h by (simp add: bisect_def try_to_single_value_def hw[unfolded One_nat_def] Let_def)
    show "wf_rc F ?a" "wf_rc F ?b" using wf by (simp_all add: wf_rc_def ops_canonical)
    show "rc_values F ?a \<union> rc_values F ?b = rc_values F rc" "rc_values F ?a \<inter> rc_values F ?b = {}"
      using h by (auto simp: rc_values_def allows_value_def split)
    show "range_width F ?a + range_width F ?b = range_width F rc"
      "range_width F ?a = range_width F rc div 2"
      using c by (simp_all add: range_width_def interval_width_eq ops_canonical da db D_def[symmetric] h_def[symmetric])
  qed
qed

lemma from_range_values:
  assumes "canonical F mn" "canonical F mx" "from_range F mn mx = Some r"
  shows "rc_values F r = {v. canonical F v \<and> in_range mn mx v}"
proof (rule from_range_ok[OF assms(1,2)])
  fix m assume "from_range F mn mx = Some \<lparr>rc_mask = m, rc_min = mn, rc_max = mx\<rparr>"
    and "\<And>v. canonical F v \<Longrightarrow> in_range mn mx v \<Longrightarrow> v AND m = v"
  with assms(3) show ?thesis by (auto simp: rc_values_def allows_value_def)
qed

text \<open>The width is the number of elements of the interval.\<close>

lemma interval_card:
  assumes "canonical F mn" "canonical F mx"
  shows "int (card {v. canonical F v \<and> in_range mn mx v}) = interval_width F mn mx"
proof -
  let ?p = "modulus F" and ?D = "(mx - mn) mod modulus F"
  have bij: "bij_betw (\<lambda>v. (v - mn) mod ?p) {v. canonical F v \<and> in_range mn mx v} {0..?D}"
  proof (rule bij_betw_byWitness[where f' = "\<lambda>d. (d + mn) mod ?p"])
    show "\<forall>v \<in> {v. canonical F v \<and> in_range mn mx v}. ((v - mn) mod ?p + mn) mod ?p = v"
      by (auto simp: mod_simps canonical_mod)
    show "\<forall>d \<in> {0..?D}. ((d + mn) mod ?p - mn) mod ?p = d"
    proof
      fix d assume d: "d \<in> {0..?D}"
      then have "d mod ?p = d" using distance_bounds[of "mx - mn"] by simp
      then show "((d + mn) mod ?p - mn) mod ?p = d" by (simp add: mod_simps)
    qed
    show "(\<lambda>v. (v - mn) mod ?p) ` {v. canonical F v \<and> in_range mn mx v} \<subseteq> {0..?D}"
      using assms distance_bounds by (auto simp: in_range_distance)
    show "(\<lambda>d. (d + mn) mod ?p) ` {0..?D} \<subseteq> {v. canonical F v \<and> in_range mn mx v}"
    proof safe
      fix d assume d: "d \<in> {0..?D}"
      then have "d mod ?p = d" using distance_bounds[of "mx - mn"] by simp
      then have "((d + mn) mod ?p - mn) mod ?p = d" by (simp add: mod_simps)
      with d assms show "in_range mn mx ((d + mn) mod ?p)"
        by (simp add: in_range_distance mod_canonical)
    qed (rule mod_canonical)
  qed
  have "0 \<le> ?D" by (rule distance_bounds)
  with bij_betw_same_card[OF bij] show ?thesis by (simp add: interval_width_eq[OF assms])
qed

end

section \<open>The soundness theorems\<close>

text \<open>C4: The range constraint computed for a sum is well formed and allows the sum of any two
  field elements that the two operands allow.\<close>

theorem range_combine_sum_sound:
  assumes "field_element F" "wf_rc F a" "wf_rc F b"
    and "canonical F v" "allows_value a v" "canonical F u" "allows_value b u"
  shows "wf_rc F (combine_sum F a b) \<and> allows_value (combine_sum F a b) (fe_add F v u)"
  using field_element.combine_sum_wf[OF assms(1-3)]
    field_element.combine_sum_sound[OF assms(1-3), of v u] assms(4-7)
  by (simp add: rc_values_def)

theorem range_combine_sum_sound_witness:
  "allows_value (combine_sum goldilocks_field (from_mask goldilocks_field 0xff00) (from_mask goldilocks_field 0xff))
     (fe_add goldilocks_field 0x1200 0x34)"
proof -
  have "wf_rc goldilocks_field (from_mask goldilocks_field 0xff00)"
    "wf_rc goldilocks_field (from_mask goldilocks_field 0xff)" by code_simp+
  moreover have "canonical goldilocks_field 0x1200" "canonical goldilocks_field 0x34"
    "allows_value (from_mask goldilocks_field 0xff00) 0x1200"
    "allows_value (from_mask goldilocks_field 0xff) 0x34" by code_simp+
  ultimately show ?thesis
    using range_combine_sum_sound[OF gl.field_element_axioms] by blast
qed

text \<open>Multiplying a well-formed constraint by a field element never panics, and the result
  allows the product of the factor with every allowed value, for factors in both halves of the
  field and for powers of two, whose mask is shifted.\<close>

theorem range_multiple_sound:
  assumes "field_element F" "wf_rc F a" "canonical F factor" "canonical F v" "allows_value a v"
  shows "\<exists>r. multiple F a factor = Some r \<and> wf_rc F r \<and> allows_value r (fe_mul F v factor)"
  using field_element.multiple_ok[OF assms(1-3)] assms(4,5)
  by (metis (mono_tags, lifting) mem_Collect_eq rc_values_def)

theorem range_multiple_sound_witness:
  "\<exists>r. multiple goldilocks_field (from_mask goldilocks_field 0xff) 0x10000 = Some r
     \<and> wf_rc goldilocks_field r \<and> allows_value r (fe_mul goldilocks_field 0x12 0x10000)"
proof (rule range_multiple_sound[OF gl.field_element_axioms])
  show "wf_rc goldilocks_field (from_mask goldilocks_field 0xff)" by code_simp
  show "canonical goldilocks_field 0x10000" "canonical goldilocks_field 0x12" by code_simp+
  show "allows_value (from_mask goldilocks_field 0xff) 0x12" by code_simp
qed



text \<open>The disjunction of two well-formed constraints is well formed and allows every value
  that one of them allows.\<close>

theorem range_disjunction_sound:
  assumes "field_element F" "wf_rc F a" "wf_rc F b" "canonical F v"
    and "allows_value a v \<or> allows_value b v"
  shows "wf_rc F (disjunction F a b) \<and> allows_value (disjunction F a b) v"
  using field_element.disjunction_wf[OF assms(1-3)]
    field_element.disjunction_sound[OF assms(1-3), of v] assms(4,5)
  by (auto simp: rc_values_def)

theorem range_disjunction_sound_witness:
  "allows_value (disjunction goldilocks_field \<lparr>rc_mask = 0xff, rc_min = 20, rc_max = 10\<rparr>
      \<lparr>rc_mask = 0xfff, rc_min = 30, rc_max = 15\<rparr>) 14"
proof -
  have "wf_rc goldilocks_field \<lparr>rc_mask = 0xff, rc_min = 20, rc_max = 10\<rparr>"
    "wf_rc goldilocks_field \<lparr>rc_mask = 0xfff, rc_min = 30, rc_max = 15\<rparr>"
    "canonical goldilocks_field 14" "allows_value \<lparr>rc_mask = 0xfff, rc_min = 30, rc_max = 15\<rparr> 14"
    by code_simp+
  then show ?thesis using range_disjunction_sound[OF gl.field_element_axioms] by blast
qed

text \<open>Bisecting a well-formed constraint with different bounds never panics and gives two
  well-formed constraints that partition the allowed values; their widths are the halves of the
  original width.\<close>

theorem range_bisect_partition:
  assumes "field_element F" "wf_rc F rc" "rc_min rc \<noteq> rc_max rc"
  shows "\<exists>a b. bisect F rc = Some (a, b) \<and> wf_rc F a \<and> wf_rc F b
     \<and> rc_values F a \<union> rc_values F b = rc_values F rc \<and> rc_values F a \<inter> rc_values F b = {}
     \<and> range_width F a + range_width F b = range_width F rc
     \<and> range_width F a = range_width F rc div 2"
  using field_element.bisect_ok[OF assms] by metis

theorem range_bisect_partition_witness:
  "\<exists>a b. bisect goldilocks_field \<lparr>rc_mask = 0xff, rc_min = 20, rc_max = 10\<rparr> = Some (a, b)
     \<and> wf_rc goldilocks_field a \<and> wf_rc goldilocks_field b
     \<and> rc_values goldilocks_field a \<union> rc_values goldilocks_field b
         = rc_values goldilocks_field \<lparr>rc_mask = 0xff, rc_min = 20, rc_max = 10\<rparr>
     \<and> rc_values goldilocks_field a \<inter> rc_values goldilocks_field b = {}
     \<and> range_width goldilocks_field a + range_width goldilocks_field b
         = range_width goldilocks_field \<lparr>rc_mask = 0xff, rc_min = 20, rc_max = 10\<rparr>
     \<and> range_width goldilocks_field a
         = range_width goldilocks_field \<lparr>rc_mask = 0xff, rc_min = 20, rc_max = 10\<rparr> div 2"
  by (rule range_bisect_partition[OF gl.field_element_axioms]) (code_simp, simp)

text \<open>Building a constraint from canonical bounds never panics; it allows exactly the
  elements of the possibly wrapping interval, and \<open>range_width\<close> is their number.\<close>

theorem range_from_range_exact:
  assumes "field_element F" "canonical F mn" "canonical F mx"
  shows "\<exists>r. from_range F mn mx = Some r \<and> wf_rc F r
     \<and> rc_values F r = {v. canonical F v \<and> in_range mn mx v}
     \<and> range_width F r = int (card (rc_values F r))"
proof -
  obtain m where m: "from_range F mn mx = Some \<lparr>rc_mask = m, rc_min = mn, rc_max = mx\<rparr>"
    "0 \<le> m" "m < 2 ^ NUM_BITS F"
    using field_element.from_range_ok[OF assms] by metis
  note vals = field_element.from_range_values[OF assms m(1)]
  show ?thesis
    using m assms(2,3) field_element.interval_card[OF assms]
    by (simp add: vals wf_rc_def range_width_def)
qed

theorem range_from_range_exact_witness:
  "\<exists>r. from_range goldilocks_field 18446744069414584310 6 = Some r \<and> wf_rc goldilocks_field r
     \<and> rc_values goldilocks_field r
         = {v. canonical goldilocks_field v \<and> in_range 18446744069414584310 6 v}
     \<and> range_width goldilocks_field r = int (card (rc_values goldilocks_field r))"
  by (rule range_from_range_exact[OF gl.field_element_axioms]) code_simp+

end
