(* ===== verification/Symbolic_Expression.thy ===== *)
theory Symbolic_Expression
  imports Range_Constraints
begin

text \<open>
  Symbolic expressions of the just-in-time witness generator,
  \<open>executor/src/witgen/jit/symbolic_expression.rs\<close>: values known at run time, built from
  concrete numbers and symbols by operations that simplify and that carry a range constraint at
  every node. Their meaning is the value of the run-time evaluation, \<open>None\<close> where that
  evaluation divides by zero.
\<close>

section \<open>Expressions and their construction\<close>

datatype BinaryOperator = Add | Sub | Mul | Div | IntegerDiv

datatype BitOperator = And

datatype UnaryOperator = Neg

datatype 's symbolic_expression =
    Concrete int
  | Symbol 's range_constraint
  | BinaryOperation "'s symbolic_expression" BinaryOperator "'s symbolic_expression" range_constraint
  | UnaryOperation UnaryOperator "'s symbolic_expression" range_constraint
  | BitOperation "'s symbolic_expression" BitOperator int range_constraint

fun children :: "'s symbolic_expression \<Rightarrow> 's symbolic_expression list" where
  "children (BinaryOperation lhs _ rhs _) = [lhs, rhs]"
| "children (UnaryOperation _ expr _) = [expr]"
| "children (BitOperation expr _ _ _) = [expr]"
| "children (Concrete _) = []"
| "children (Symbol _ _) = []"

text \<open>The node itself and then the nodes of its children.\<close>

function all_children :: "'s symbolic_expression \<Rightarrow> 's symbolic_expression list" where
  "all_children e = e # concat (map all_children (children e))"
  by pat_completeness auto
termination
proof (relation "measure size")
  fix e x :: "'s symbolic_expression"
  assume "x \<in> set (children e)"
  then show "(x, e) \<in> measure size" by (cases e) auto
qed simp

declare all_children.simps [simp del]

text \<open>\<open>Itertools::unique\<close> keeps the first of equal elements.\<close>

definition unique :: "'a list \<Rightarrow> 'a list" where
  "unique xs = rev (remdups (rev xs))"

definition referenced_symbols :: "'s symbolic_expression \<Rightarrow> 's list" where
  "referenced_symbols e =
     unique (List.map_filter (\<lambda>e. case e of Symbol s _ \<Rightarrow> Some s | _ \<Rightarrow> None) (all_children e))"

definition from_symbol :: "'s \<Rightarrow> range_constraint \<Rightarrow> 's symbolic_expression" where
  "from_symbol s rc = Symbol s rc"

fun try_to_number :: "'s symbolic_expression \<Rightarrow> int option" where
  "try_to_number (Concrete n) = Some n"
| "try_to_number _ = None"

fun sym_range_constraint :: "'s symbolic_expression \<Rightarrow> range_constraint" where
  "sym_range_constraint (Concrete v) = from_value v"
| "sym_range_constraint (Symbol _ rc) = rc"
| "sym_range_constraint (BinaryOperation _ _ _ rc) = rc"
| "sym_range_constraint (UnaryOperation _ _ rc) = rc"
| "sym_range_constraint (BitOperation _ _ _ rc) = rc"

definition is_known_zero :: "'s symbolic_expression \<Rightarrow> bool" where
  "is_known_zero e = (case try_to_number e of Some n \<Rightarrow> n = 0 | None \<Rightarrow> False)"

definition is_known_one :: "'s symbolic_expression \<Rightarrow> bool" where
  "is_known_one e = (case try_to_number e of Some n \<Rightarrow> n = 1 | None \<Rightarrow> False)"

definition is_known_minus_one :: "field_desc \<Rightarrow> 's symbolic_expression \<Rightarrow> bool" where
  "is_known_minus_one F e = (case try_to_number e of Some n \<Rightarrow> n = fe_neg F 1 | None \<Rightarrow> False)"

definition is_known_nonzero :: "'s symbolic_expression \<Rightarrow> bool" where
  "is_known_nonzero e \<longleftrightarrow> \<not> allows_value (sym_range_constraint e) 0"

definition sym_add :: "field_desc \<Rightarrow> 's symbolic_expression \<Rightarrow> 's symbolic_expression \<Rightarrow> 's symbolic_expression" where
  "sym_add F a b =
     (if is_known_zero a then b
      else if is_known_zero b then a
      else case (a, b) of
          (Concrete x, Concrete y) \<Rightarrow> Concrete (fe_add F x y)
        | _ \<Rightarrow> BinaryOperation a Add b (combine_sum F (sym_range_constraint a) (sym_range_constraint b)))"

definition sym_neg :: "field_desc \<Rightarrow> 's symbolic_expression \<Rightarrow> 's symbolic_expression option" where
  "sym_neg F a =
     (case a of
        Concrete n \<Rightarrow> Some (Concrete (fe_neg F n))
      | UnaryOperation Neg expr _ \<Rightarrow> Some expr
      | _ \<Rightarrow> do {
          rc \<leftarrow> multiple F (sym_range_constraint a) (fe_neg F 1);
          Some (UnaryOperation Neg a rc)
        })"

definition sym_mul ::
    "field_desc \<Rightarrow> 's symbolic_expression \<Rightarrow> 's symbolic_expression \<Rightarrow> 's symbolic_expression option" where
  "sym_mul F a b =
     (case (a, b) of
        (Concrete x, Concrete y) \<Rightarrow> Some (Concrete (fe_mul F x y))
      | _ \<Rightarrow>
         if is_known_zero a \<or> is_known_zero b then Some (Concrete (fe_from F 0))
         else if is_known_one a then Some b
         else if is_known_one b then Some a
         else if is_known_minus_one F a then sym_neg F b
         else if is_known_minus_one F b then sym_neg F a
         else Some (BinaryOperation a Mul b (unconstrained F)))"

definition field_div ::
    "field_desc \<Rightarrow> 's symbolic_expression \<Rightarrow> 's symbolic_expression \<Rightarrow> 's symbolic_expression option" where
  "field_div F a b =
     (case (a, b) of
        (Concrete x, Concrete y) \<Rightarrow> do {
          rust_assert (y \<noteq> fe_from F 0);
          q \<leftarrow> fe_div F x y;
          Some (Concrete q)
        }
      | _ \<Rightarrow>
         if is_known_zero a then Some (Concrete (fe_from F 0))
         else if is_known_one b then Some a
         else if is_known_minus_one F b then sym_neg F a
         else Some (BinaryOperation a Div b (unconstrained F)))"

definition integer_div ::
    "field_desc \<Rightarrow> 's symbolic_expression \<Rightarrow> 's symbolic_expression \<Rightarrow> 's symbolic_expression option" where
  "integer_div F a b =
     (case (a, b) of
        (Concrete x, Concrete y) \<Rightarrow> do {
          rust_assert (y \<noteq> fe_from F 0);
          q \<leftarrow> fe_div F x y;
          Some (Concrete q)
        }
      | _ \<Rightarrow>
         if is_known_one b then Some a
         else Some (BinaryOperation a IntegerDiv b (unconstrained F)))"

definition sym_bitand :: "field_desc \<Rightarrow> 's symbolic_expression \<Rightarrow> int \<Rightarrow> 's symbolic_expression" where
  "sym_bitand F a n =
     (case a of
        Concrete x \<Rightarrow> Concrete (fe_from F (x AND n))
      | _ \<Rightarrow>
         if is_known_zero a \<or> n = 0 then Concrete (fe_from F 0)
         else BitOperation a And n (from_mask F (rc_mask (sym_range_constraint a) AND n)))"

section \<open>Meaning\<close>

fun eval_binary :: "field_desc \<Rightarrow> BinaryOperator \<Rightarrow> int \<Rightarrow> int \<Rightarrow> int option" where
  "eval_binary F Add l r = Some (fe_add F l r)"
| "eval_binary F Sub l r = Some (fe_sub F l r)"
| "eval_binary F Mul l r = Some (fe_mul F l r)"
| "eval_binary F Div l r = fe_div F l r"
| "eval_binary F IntegerDiv l r = (if r = 0 then None else Some (fe_from F (l div r)))"

fun eval_unary :: "field_desc \<Rightarrow> UnaryOperator \<Rightarrow> int \<Rightarrow> int" where
  "eval_unary F Neg x = fe_neg F x"

fun eval_bit :: "field_desc \<Rightarrow> BitOperator \<Rightarrow> int \<Rightarrow> int \<Rightarrow> int" where
  "eval_bit F And x n = fe_from F (x AND n)"

primrec sym_eval :: "field_desc \<Rightarrow> ('s \<Rightarrow> int) \<Rightarrow> 's symbolic_expression \<Rightarrow> int option" where
  "sym_eval F env (Concrete n) = Some n"
| "sym_eval F env (Symbol s _) = Some (env s)"
| "sym_eval F env (BinaryOperation l op r _) = do {
     x \<leftarrow> sym_eval F env l;
     y \<leftarrow> sym_eval F env r;
     eval_binary F op x y
   }"
| "sym_eval F env (UnaryOperation op e _) = map_option (eval_unary F op) (sym_eval F env e)"
| "sym_eval F env (BitOperation e op n _) = map_option (\<lambda>x. eval_bit F op x n) (sym_eval F env e)"

text \<open>Every node has a well-formed range constraint that allows its value, and no negation is
  applied to a number.\<close>

definition node_ok :: "field_desc \<Rightarrow> ('s \<Rightarrow> int) \<Rightarrow> 's symbolic_expression \<Rightarrow> bool" where
  "node_ok F env e \<longleftrightarrow> wf_rc F (sym_range_constraint e)
     \<and> (\<forall>v. sym_eval F env e = Some v \<longrightarrow> v \<in> rc_values F (sym_range_constraint e))"

primrec sym_ok :: "field_desc \<Rightarrow> ('s \<Rightarrow> int) \<Rightarrow> 's symbolic_expression \<Rightarrow> bool" where
  "sym_ok F env (Concrete n) = canonical F n"
| "sym_ok F env (Symbol s rc) = node_ok F env (Symbol s rc)"
| "sym_ok F env (BinaryOperation l op r rc) =
     (sym_ok F env l \<and> sym_ok F env r \<and> node_ok F env (BinaryOperation l op r rc))"
| "sym_ok F env (UnaryOperation op e rc) =
     (sym_ok F env e \<and> try_to_number e = None \<and> node_ok F env (UnaryOperation op e rc))"
| "sym_ok F env (BitOperation e op n rc) =
     (sym_ok F env e \<and> 0 \<le> n \<and> node_ok F env (BitOperation e op n rc))"

lemma known_iff [simp]:
  "is_known_zero e \<longleftrightarrow> e = Concrete 0" "is_known_one e \<longleftrightarrow> e = Concrete 1"
  "is_known_minus_one F e \<longleftrightarrow> e = Concrete (fe_neg F 1)"
  by (cases e; simp add: is_known_zero_def is_known_one_def is_known_minus_one_def)+

lemma unique_set [simp]: "set (unique xs) = set xs" and unique_distinct [simp]: "distinct (unique xs)"
  by (simp_all add: unique_def)

text \<open>The referenced symbols determine the value.\<close>

lemma all_children_simps:
  "all_children (Concrete n) = [Concrete n]"
  "all_children (Symbol s rc) = [Symbol s rc]"
  "all_children (BinaryOperation l op r rc) = BinaryOperation l op r rc # all_children l @ all_children r"
  "all_children (UnaryOperation uop e rc) = UnaryOperation uop e rc # all_children e"
  "all_children (BitOperation e bop m rc) = BitOperation e bop m rc # all_children e"
  by (subst all_children.simps, simp)+

lemma referenced_symbols_simps [simp]:
  "set (referenced_symbols (Concrete n)) = {}"
  "set (referenced_symbols (Symbol s rc)) = {s}"
  "set (referenced_symbols (BinaryOperation l op r rc)) = set (referenced_symbols l) \<union> set (referenced_symbols r)"
  "set (referenced_symbols (UnaryOperation uop e rc)) = set (referenced_symbols e)"
  "set (referenced_symbols (BitOperation e bop m rc)) = set (referenced_symbols e)"
  by (simp_all add: referenced_symbols_def all_children_simps List.map_filter_def)

lemma sym_eval_cong:
  "(\<And>s. s \<in> set (referenced_symbols e) \<Longrightarrow> env s = env' s) \<Longrightarrow> sym_eval F env e = sym_eval F env' e"
  by (induction e) (simp_all add: Un_iff)

text \<open>The results of the simplifying constructors, one case for each simplification.\<close>

lemma sym_add_cases:
  obtains "a = Concrete 0" "sym_add F a b = b"
  | "b = Concrete 0" "sym_add F a b = a"
  | x y where "a = Concrete x" "b = Concrete y" "sym_add F a b = Concrete (fe_add F x y)"
  | "sym_add F a b = BinaryOperation a Add b (combine_sum F (sym_range_constraint a) (sym_range_constraint b))"
  by (cases "a = Concrete 0"; cases "b = Concrete 0"; cases a; cases b) (auto simp: sym_add_def)

lemma sym_neg_cases:
  obtains x where "a = Concrete x" "sym_neg F a = Some (Concrete (fe_neg F x))"
  | e rc where "a = UnaryOperation Neg e rc" "sym_neg F a = Some e"
  | "try_to_number a = None" "sym_neg F a = map_option (UnaryOperation Neg a) (multiple F (sym_range_constraint a) (fe_neg F 1))"
proof (cases a)
  case (UnaryOperation op e rc)
  then show thesis by (cases op) (auto simp: sym_neg_def intro: that)
qed (auto simp: sym_neg_def map_conv_bind_option comp_def intro: that)

lemma sym_mul_cases:
  obtains x y where "a = Concrete x" "b = Concrete y" "sym_mul F a b = Some (Concrete (fe_mul F x y))"
  | "a = Concrete 0 \<or> b = Concrete 0" "sym_mul F a b = Some (Concrete 0)"
  | "a = Concrete 1" "sym_mul F a b = Some b"
  | "b = Concrete 1" "sym_mul F a b = Some a"
  | "a = Concrete (fe_neg F 1)" "sym_mul F a b = sym_neg F b"
  | "b = Concrete (fe_neg F 1)" "sym_mul F a b = sym_neg F a"
  | "sym_mul F a b = Some (BinaryOperation a Mul b (unconstrained F))"
proof (cases "\<exists>x y. a = Concrete x \<and> b = Concrete y")
  case True
  then show thesis using that(1) by (auto simp: sym_mul_def)
next
  case False
  have eq: "sym_mul F a b = (if a = Concrete 0 \<or> b = Concrete 0 then Some (Concrete 0)
      else if a = Concrete 1 then Some b else if b = Concrete 1 then Some a
      else if a = Concrete (fe_neg F 1) then sym_neg F b else if b = Concrete (fe_neg F 1) then sym_neg F a
      else Some (BinaryOperation a Mul b (unconstrained F)))"
    using False by (cases a; cases b) (simp_all add: sym_mul_def fe_from_def)
  show thesis
    using that(2-) unfolding eq by argo
qed

lemma field_div_cases:
  obtains x y where "a = Concrete x" "b = Concrete y" "y = 0" "field_div F a b = None"
  | x y where "a = Concrete x" "b = Concrete y" "y \<noteq> 0"
      "field_div F a b = Some (Concrete (fe_mul F x (inverse_of F y)))"
  | "a = Concrete 0" "field_div F a b = Some (Concrete 0)"
  | "b = Concrete 1" "field_div F a b = Some a"
  | "b = Concrete (fe_neg F 1)" "field_div F a b = sym_neg F a"
  | "field_div F a b = Some (BinaryOperation a Div b (unconstrained F))"
proof -
  have "fe_from F 0 = 0" by (simp add: fe_from_def)
  then show thesis
    using that by (cases "a = Concrete 0"; cases "b = Concrete 1"; cases "b = Concrete (fe_neg F 1)"; cases a; cases b)
      (auto simp: field_div_def fe_div_def)
qed

lemma integer_div_cases:
  obtains x y where "a = Concrete x" "b = Concrete y" "integer_div F a b = field_div F a b"
  | "b = Concrete 1" "integer_div F a b = Some a"
  | "integer_div F a b = Some (BinaryOperation a IntegerDiv b (unconstrained F))"
  using that by (cases "b = Concrete 1"; cases a; cases b) (auto simp: integer_div_def field_div_def)

lemma sym_bitand_cases:
  obtains x where "a = Concrete x" "sym_bitand F a n = Concrete (fe_from F (x AND n))"
  | "n = 0" "sym_bitand F a n = Concrete 0"
  | "sym_bitand F a n = BitOperation a And n (from_mask F (rc_mask (sym_range_constraint a) AND n))"
  using that by (cases a; cases "n = 0") (auto simp: sym_bitand_def fe_from_def)

context field_element
begin

lemma sym_ok_node: "sym_ok F env e \<Longrightarrow> node_ok F env e"
  by (cases e) (auto simp: node_ok_def from_value_wf from_value_values)

lemma sym_value:
  "sym_ok F env e \<Longrightarrow> sym_eval F env e = Some v \<Longrightarrow> canonical F v \<and> v \<in> rc_values F (sym_range_constraint e)"
  using sym_ok_node[of env e] by (auto simp: node_ok_def rc_values_def)

lemma node_unconstrained:
  assumes "sym_range_constraint e = unconstrained F" "\<And>v. sym_eval F env e = Some v \<Longrightarrow> canonical F v"
  shows "node_ok F env e"
  using assms by (auto simp: node_ok_def unconstrained_wf unconstrained_values)

lemma sym_add_ok:
  assumes "sym_ok F env a" "sym_ok F env b"
  shows "sym_ok F env (sym_add F a b)
     \<and> (\<forall>x y. sym_eval F env a = Some x \<longrightarrow> sym_eval F env b = Some y \<longrightarrow>
          sym_eval F env (sym_add F a b) = Some (fe_add F x y))"
proof -
  have c: "canonical F x" if "sym_eval F env a = Some x \<or> sym_eval F env b = Some x" for x
    using that assms sym_value by blast
  have n: "node_ok F env (BinaryOperation a Add b (combine_sum F (sym_range_constraint a) (sym_range_constraint b)))"
    using sym_ok_node[OF assms(1)] sym_ok_node[OF assms(2)]
    by (auto simp: node_ok_def combine_sum_wf bind_eq_Some_conv intro!: combine_sum_sound)
  show ?thesis
  proof (cases rule: sym_add_cases[of a F b])
    case 1
    with assms c show ?thesis by (auto simp: fe_add_def canonical_mod)
  next
    case 2
    with assms c show ?thesis by (auto simp: fe_add_def canonical_mod)
  qed (use assms n in \<open>auto simp: ops_canonical\<close>)
qed

lemma fe_neg_neg: "canonical F x \<Longrightarrow> fe_neg F (fe_neg F x) = x"
  by (auto simp: fe_neg_eq ops_canonical) (auto simp: fe_neg_eq canonical_def)

lemma fe_mul_minus_one: "fe_mul F x (fe_neg F 1) = fe_neg F x"
  by (simp add: fe_mul_def fe_neg_def mod_mult_right_eq)

lemma sym_neg_ok:
  assumes "sym_ok F env a"
  shows "\<exists>r. sym_neg F a = Some r \<and> sym_ok F env r
     \<and> (\<forall>x. sym_eval F env a = Some x \<longrightarrow> sym_eval F env r = Some (fe_neg F x))"
proof (cases rule: sym_neg_cases[of a F])
  case (2 e rc)
  then have "sym_eval F env e = Some (fe_neg F x)" if "sym_eval F env a = Some x" for x
    using that assms sym_value[of env e] fe_neg_neg by auto
  with 2 assms show ?thesis by simp
next
  case 3
  note n = sym_ok_node[OF assms]
  then obtain r where r: "multiple F (sym_range_constraint a) (fe_neg F 1) = Some r" "wf_rc F r"
    "\<And>v. v \<in> rc_values F (sym_range_constraint a) \<Longrightarrow> fe_mul F v (fe_neg F 1) \<in> rc_values F r"
    using multiple_ok[OF _ ops_canonical(4)] unfolding node_ok_def by metis
  then have "node_ok F env (UnaryOperation Neg a r)"
    using n by (auto simp: node_ok_def fe_mul_minus_one)
  with 3 r(1) assms show ?thesis by simp
qed (use assms in \<open>auto simp: ops_canonical\<close>)

lemma sym_mul_ok:
  assumes "sym_ok F env a" "sym_ok F env b"
  shows "\<exists>r. sym_mul F a b = Some r \<and> sym_ok F env r
     \<and> (\<forall>x y. sym_eval F env a = Some x \<longrightarrow> sym_eval F env b = Some y \<longrightarrow>
          sym_eval F env r = Some (fe_mul F x y))"
proof -
  have c: "canonical F x" if "sym_eval F env a = Some x \<or> sym_eval F env b = Some x" for x
    using that assms sym_value by blast
  have comm: "fe_mul F x y = fe_mul F y x" for x y by (simp add: fe_mul_def mult.commute)
  have n: "node_ok F env (BinaryOperation a Mul b (unconstrained F))"
    by (rule node_unconstrained) (auto simp: bind_eq_Some_conv ops_canonical)
  show ?thesis
  proof (cases rule: sym_mul_cases[of a b F])
    case 2
    then show ?thesis by (auto simp: canonical_0 fe_mul_def)
  next
    case 3
    with assms c show ?thesis by (auto simp: fe_mul_def canonical_mod)
  next
    case 4
    with assms c show ?thesis by (auto simp: fe_mul_def canonical_mod)
  next
    case 5
    with sym_neg_ok[OF assms(2)] show ?thesis by (auto simp: comm[of "fe_neg F 1"] fe_mul_minus_one)
  next
    case 6
    with sym_neg_ok[OF assms(1)] show ?thesis by (auto simp: fe_mul_minus_one)
  qed (use assms n in \<open>auto simp: ops_canonical\<close>)
qed

text \<open>Division in the field; the divisor must not be zero.\<close>

lemma inverse_one: "inverse_of F 1 = 1"
proof -
  have "canonical F (inverse_of F 1)" "inverse_of F 1 mod modulus F = 1"
    using inverse_canonical[of 1] inverse_law[of 1] modulus_gt_2 by simp_all
  then show ?thesis by (simp add: canonical_mod)
qed

lemma fe_div_minus_one: "canonical F x \<Longrightarrow> fe_div F x (fe_neg F 1) = Some (fe_neg F x)"
proof -
  assume x: "canonical F x"
  have m1: "canonical F (fe_neg F 1)" "fe_neg F 1 \<noteq> 0"
    using modulus_gt_2 fe_neg_eq[OF canonical_1] by (simp_all add: canonical_def)
  obtain q where q: "fe_div F x (fe_neg F 1) = Some q" "canonical F q" "fe_mul F q (fe_neg F 1) = x"
    using fe_div_nonzero[OF x m1] .
  from q(3) have "fe_neg F q = x" unfolding fe_mul_minus_one .
  with q(1) fe_neg_neg[OF q(2)] show ?thesis by auto
qed

lemma field_div_ok:
  assumes "sym_ok F env a" "sym_ok F env b" "sym_eval F env b = Some y" "y \<noteq> 0"
  shows "\<exists>r. field_div F a b = Some r \<and> sym_ok F env r
     \<and> (\<forall>x. sym_eval F env a = Some x \<longrightarrow> sym_eval F env r = fe_div F x y)"
proof -
  have c: "canonical F x" if "sym_eval F env a = Some x \<or> sym_eval F env b = Some x" for x
    using that assms sym_value by blast
  have n: "node_ok F env (BinaryOperation a Div b (unconstrained F))"
    by (rule node_unconstrained) (auto simp: bind_eq_Some_conv fe_div_def ops_canonical split: if_splits)
  show ?thesis
  proof (cases rule: field_div_cases[of a b F])
    case 3
    with assms show ?thesis by (auto simp: canonical_0 fe_div_def fe_mul_def)
  next
    case 4
    with assms c show ?thesis by (auto simp: fe_div_def fe_mul_def inverse_one canonical_mod)
  next
    case 5
    with sym_neg_ok[OF assms(1)] assms(3) c fe_div_minus_one show ?thesis by fastforce
  qed (use assms n in \<open>auto simp: ops_canonical fe_div_def\<close>)
qed

lemma integer_div_ok:
  assumes "sym_ok F env a" "sym_ok F env b" "sym_eval F env b = Some y" "y \<noteq> 0"
    and "try_to_number a = None \<or> try_to_number b = None"
  shows "\<exists>r. integer_div F a b = Some r \<and> sym_ok F env r
     \<and> (\<forall>x. sym_eval F env a = Some x \<longrightarrow> sym_eval F env r = Some (x div y))"
proof -
  have c: "canonical F x" if "sym_eval F env a = Some x \<or> sym_eval F env b = Some x" for x
    using that assms sym_value by blast
  have d: "fe_from F (x div y) = x div y" if "sym_eval F env a = Some x" for x
  proof -
    have "0 \<le> x" "x < modulus F" "0 \<le> y" using c that assms(3) by (auto simp: canonical_def)
    moreover from this have "0 \<le> x div y" "x div y \<le> x"
      using assms(4) zdiv_mono2[of x 1 y] by (simp_all add: pos_imp_zdiv_nonneg_iff)
    ultimately show ?thesis by (simp add: fe_from_def)
  qed
  have n: "node_ok F env (BinaryOperation a IntegerDiv b (unconstrained F))"
    by (rule node_unconstrained) (auto simp: bind_eq_Some_conv ops_canonical split: if_splits)
  show ?thesis
    by (cases rule: integer_div_cases[of a b F]) (use assms n d in auto)
qed

lemma sym_bitand_ok:
  assumes "sym_ok F env a" "0 \<le> n"
  shows "sym_ok F env (sym_bitand F a n)
     \<and> (\<forall>x. sym_eval F env a = Some x \<longrightarrow> sym_eval F env (sym_bitand F a n) = Some (x AND n))"
proof -
  have f: "fe_from F (x AND n) = x AND n" if "canonical F x" for x
  proof -
    have "x AND n \<le> x" "0 \<le> x AND n" using that by (simp_all add: AND_upper1 canonical_def)
    then show ?thesis using that by (simp add: fe_from_def canonical_def)
  qed
  note node = sym_ok_node[OF assms(1)]
  let ?m = "rc_mask (sym_range_constraint a) AND n"
  have m0: "0 \<le> ?m" using assms(2) by simp
  have "?m < 2 ^ NUM_BITS F"
    using node AND_upper1[of "rc_mask (sym_range_constraint a)" n] by (simp add: node_ok_def wf_rc_def)
  then have wf: "wf_rc F (from_mask F ?m)" using m0 by (simp add: from_mask_wf)
  have "x AND n \<in> rc_values F (from_mask F ?m)" if x: "sym_eval F env a = Some x" for x
  proof -
    have "x AND rc_mask (sym_range_constraint a) = x" "canonical F x"
      using node x by (auto simp: node_ok_def rc_values_def allows_value_def)
    then have "(x AND n) AND ?m = x AND n" "canonical F (x AND n)"
      using f[of x] ops_canonical(5)[of "x AND n"] by (auto simp: and_self_iff bit_simps)
    then show ?thesis using from_mask_values[OF m0] by simp
  qed
  then have n: "node_ok F env (BitOperation a And n (from_mask F ?m))"
    using wf f sym_value[OF assms(1)] by (auto simp: node_ok_def)
  have c: "canonical F (x AND n)" if "canonical F x" for x
    using ops_canonical(5)[of "x AND n"] f[OF that] by simp
  show ?thesis
  proof (cases rule: sym_bitand_cases[of a F n])
    case (1 x)
    with assms c f show ?thesis by simp
  next
    case 3
    with assms n f sym_value[OF assms(1)] show ?thesis by simp
  qed (simp add: canonical_0)
qed

end

section \<open>The theorems about symbolic expressions\<close>



text \<open>On two concrete numbers \<open>integer_div\<close> divides in the field: for 7 and 2 it returns
  the number whose double is 7 modulo the order, and not 3.\<close>

theorem integer_div_concrete_divides_in_field:
  "let F = goldilocks_field; q = 9223372034707292164 in
   integer_div F (Concrete 7 :: unit symbolic_expression) (Concrete 2) = Some (Concrete q)
   \<and> fe_mul F q 2 = 7 \<and> q \<noteq> 7 div 2
   \<and> eval_binary F IntegerDiv 7 2 = Some (7 div 2)"
proof -
  let ?F = goldilocks_field and ?q = "9223372034707292164 :: int"
  have c: "canonical ?F 7" "canonical ?F 2" "canonical ?F ?q" "fe_mul ?F ?q 2 = 7" "fe_from ?F 3 = 3" "fe_from ?F 0 = 0"
    by code_simp+
  obtain q where q: "fe_div ?F 7 2 = Some q" "canonical ?F q" "fe_mul ?F q 2 = 7"
    using gl.fe_div_nonzero[OF c(1,2)] by auto
  then have "q = ?q" using gl.fe_mul_cancel[OF q(2) c(3,2)] c(4) by simp
  with q(1) c(4-6) show ?thesis by (simp add: integer_div_def)
qed

end
