(* ===== verification/Effects.thy ===== *)
theory Effects
  imports Symbolic_Expression
begin

text \<open>
  The effects of the just-in-time witness generator, \<open>executor/src/witgen/jit/effect.rs\<close>: the
  instructions from which the witness code is made.
\<close>

record 'v assertion =
  lhs :: "'v symbolic_expression"
  rhs :: "'v symbolic_expression"
  expected_equal :: bool

record 'v branch_condition =
  cond_variable :: 'v
  condition :: range_constraint

record 'v prover_function_call =
  target :: 'v
  function_index :: nat
  call_row_offset :: int
  inputs :: "'v list"

datatype 'v effect =
    Effect_Assignment 'v "'v symbolic_expression"
  | Effect_RangeConstraint 'v range_constraint
  | Effect_Assertion "'v assertion"
  | Effect_MachineCall nat "bool list" "'v list"
  | Effect_ProverFunctionCall "'v prover_function_call"
  | Effect_Branch "'v branch_condition" "'v effect list" "'v effect list"

definition assert_eq :: "'v symbolic_expression \<Rightarrow> 'v symbolic_expression \<Rightarrow> 'v effect" where
  "assert_eq l r = Effect_Assertion \<lparr>lhs = l, rhs = r, expected_equal = True\<rparr>"

definition assert_neq :: "'v symbolic_expression \<Rightarrow> 'v symbolic_expression \<Rightarrow> 'v effect" where
  "assert_neq l r = Effect_Assertion \<lparr>lhs = l, rhs = r, expected_equal = False\<rparr>"

definition assert_is_zero :: "field_desc \<Rightarrow> 'v symbolic_expression \<Rightarrow> 'v effect" where
  "assert_is_zero F c = assert_eq c (Concrete (fe_from F 0))"

definition assert_is_nonzero :: "field_desc \<Rightarrow> 'v symbolic_expression \<Rightarrow> 'v effect" where
  "assert_is_nonzero F c = assert_neq c (Concrete (fe_from F 0))"

text \<open>The variables an effect writes, with the flag of a machine call's output; \<open>None\<close> is
  the panic on a range constraint or on argument lists of different lengths.\<close>

fun collect_lists :: "'a list option list \<Rightarrow> 'a list option" where
  "collect_lists [] = Some []"
| "collect_lists (x # xs) = do { a \<leftarrow> x; b \<leftarrow> collect_lists xs; Some (a @ b) }"

fun written_vars :: "'v effect \<Rightarrow> ('v \<times> bool) list option" where
  "written_vars (Effect_Assignment v _) = Some [(v, False)]"
| "written_vars (Effect_RangeConstraint _ _) = None"
| "written_vars (Effect_Assertion _) = Some []"
| "written_vars (Effect_MachineCall _ known vars) = do {
     rust_assert (length vars = length known);
     Some (map (\<lambda>(v, k). (v, True)) (filter (\<lambda>(v, k). \<not> k) (zip vars known)))
   }"
| "written_vars (Effect_ProverFunctionCall c) = Some [(target c, False)]"
| "written_vars (Effect_Branch _ first second) =
     collect_lists (map written_vars (first @ second))"

fun referenced_variables :: "'v effect \<Rightarrow> 'v list" where
  "referenced_variables (Effect_Assignment v e) = unique (v # referenced_symbols e)"
| "referenced_variables (Effect_RangeConstraint v _) = unique [v]"
| "referenced_variables (Effect_Assertion a) = unique (referenced_symbols (lhs a) @ referenced_symbols (rhs a))"
| "referenced_variables (Effect_MachineCall _ _ args) = unique args"
| "referenced_variables (Effect_ProverFunctionCall c) = unique (target c # inputs c)"
| "referenced_variables (Effect_Branch c first second) =
     unique (cond_variable c # concat (map referenced_variables (first @ second)))"

text \<open>
  The condition of a branch as it is rendered by \<open>format_condition\<close> (in the generated code,
  \<open>executor/src/witgen/jit/compiler.rs\<close>, and for display in \<open>effect.rs\<close>), as a condition on
  the integer value of the variable.
\<close>

datatype code_condition =
    Equals int
  | AtLeastAndAtMost int int
  | AtMostOrAtLeast int int

definition format_condition :: "'v branch_condition \<Rightarrow> code_condition" where
  "format_condition b =
     (let (mn, mx) = rc_range (condition b) in
      if mn = mx then Equals mn
      else if mn < mx then AtLeastAndAtMost mn mx
      else AtMostOrAtLeast mn mx)"

fun holds_condition :: "code_condition \<Rightarrow> int \<Rightarrow> bool" where
  "holds_condition (Equals m) v \<longleftrightarrow> v = m"
| "holds_condition (AtLeastAndAtMost mn mx) v \<longleftrightarrow> mn \<le> v \<and> v \<le> mx"
| "holds_condition (AtMostOrAtLeast mn mx) v \<longleftrightarrow> v \<le> mn \<or> v \<ge> mx"

text \<open>What an effect that derives a value or checks a condition claims about an assignment.\<close>

definition holds_effect :: "field_desc \<Rightarrow> ('v \<Rightarrow> int) \<Rightarrow> 'v effect \<Rightarrow> bool" where
  "holds_effect F env e =
     (case e of
        Effect_Assignment v ex \<Rightarrow> sym_eval F env ex = Some (env v)
      | Effect_RangeConstraint v rc \<Rightarrow> env v \<in> rc_values F rc
      | Effect_Assertion a \<Rightarrow>
          (\<exists>x y. sym_eval F env (lhs a) = Some x \<and> sym_eval F env (rhs a) = Some y
             \<and> (x = y \<longleftrightarrow> expected_equal a))
      | _ \<Rightarrow> False)"

text \<open>The condition generated for a branch on an interval that does not wrap holds exactly
  for the values in the interval. For an interval that wraps around the modulus both comparisons
  are the wrong way round and the condition is true for every value, so the values between the
  bounds, which the range constraint excludes, take the first branch, too.\<close>

theorem branch_condition_code:
  shows "(rc_min (condition b) \<le> rc_max (condition b) \<longrightarrow>
       (holds_condition (format_condition b) v \<longleftrightarrow> in_range (rc_min (condition b)) (rc_max (condition b)) v))
     \<and> (rc_max (condition b) < rc_min (condition b) \<longrightarrow>
       holds_condition (format_condition b) v
       \<and> (rc_max (condition b) < v \<and> v < rc_min (condition b) \<longrightarrow>
           \<not> in_range (rc_min (condition b)) (rc_max (condition b)) v))"
  by (auto simp: format_condition_def rc_range_def in_range_def)

theorem branch_condition_code_witness:
  "let b = \<lparr>cond_variable = (), condition = \<lparr>rc_mask = 0xff, rc_min = 10, rc_max = 5\<rparr>\<rparr> in
   holds_condition (format_condition b) 7 \<and> \<not> allows_value (condition b) 7"
  using branch_condition_code[of "\<lparr>cond_variable = (), condition = \<lparr>rc_mask = 0xff, rc_min = 10, rc_max = 5\<rparr>\<rparr>" 7]
  by (simp add: allows_value_def)

end
