(* ===== verification/Btree_Map.thy ===== *)
theory Btree_Map
  imports Prelude
begin

text \<open>
  Ordered maps as the sources use \<open>BTreeMap\<close>: an association list in strictly increasing
  order of the keys, which is also the order of iteration.
\<close>

type_synonym ('k, 'v) btree_map = "('k \<times> 'v) list"

definition bt_sorted :: "('k::linorder, 'v) btree_map \<Rightarrow> bool" where
  "bt_sorted m \<longleftrightarrow> sorted_wrt (<) (map fst m)"

definition bt_get :: "('k, 'v) btree_map \<Rightarrow> 'k \<Rightarrow> 'v option" where
  "bt_get m k = map_of m k"

fun bt_insert :: "'k::linorder \<Rightarrow> 'v \<Rightarrow> ('k, 'v) btree_map \<Rightarrow> ('k, 'v) btree_map" where
  "bt_insert k v [] = [(k, v)]"
| "bt_insert k v ((l, w) # m) =
     (if k < l then (k, v) # (l, w) # m
      else if k = l then (k, v) # m
      else (l, w) # bt_insert k v m)"

lemma bt_insert_keys: "fst ` set (bt_insert k v m) = insert k (fst ` set m)"
  by (induction k v m rule: bt_insert.induct) auto

lemma bt_insert_sorted: "bt_sorted m \<Longrightarrow> bt_sorted (bt_insert k v m)"
proof (induction k v m rule: bt_insert.induct)
  case (2 k v l w m)
  have "fst x = k \<or> fst x \<in> fst ` set m" if "x \<in> set (bt_insert k v m)" for x
    using that imageI[of x _ fst] bt_insert_keys[of k v m] by auto
  note keys = this
  from 2 show ?case by (auto simp: bt_sorted_def dest!: keys)
qed (simp add: bt_sorted_def)

lemma bt_get_insert:
  "bt_sorted m \<Longrightarrow> bt_get (bt_insert k v m) l = (if l = k then Some v else bt_get m l)"
  by (induction k v m rule: bt_insert.induct) (auto simp: bt_get_def bt_sorted_def)

lemma bt_sorted_filter: "bt_sorted m \<Longrightarrow> bt_sorted (filter P m)"
  by (induction m) (auto simp: bt_sorted_def)

lemma bt_sorted_distinct: "bt_sorted m \<Longrightarrow> distinct (map fst m)"
  by (simp add: bt_sorted_def strict_sorted_iff)

lemma bt_get_Some: "bt_sorted m \<Longrightarrow> bt_get m k = Some v \<longleftrightarrow> (k, v) \<in> set m"
  by (simp add: bt_get_def bt_sorted_distinct map_of_eq_Some_iff)

lemma bt_sorted_map: "bt_sorted (map (\<lambda>(k, v). (k, f v)) m) \<longleftrightarrow> bt_sorted m"
  by (simp add: bt_sorted_def case_prod_beta comp_def)

end
