(* ===== verification/Eval_Result.thy ===== *)
theory Eval_Result
  imports Range_Constraints
begin

text \<open>
  The results of solving a constraint, \<open>executor/src/witgen/eval_result.rs\<close>: new assignments
  and range constraints, whether the constraint is solved completely, the causes why it is not,
  and the fatal errors.
\<close>

section \<open>The data\<close>

datatype 'k incomplete_cause =
    UnknownLatch
  | BitUnconstrained "'k list"
  | OverlappingBitConstraints
  | OverflowingBitConstraints
  | MultipleLookupMatches
  | MultipleLinearSolutions
  | NoProgressTransferring
  | QuadraticTerm
  | DivisionTerm
  | ExponentiationTerm
  | NoQueryAnswer string string
  | NonConstantQueryMatchScrutinee
  | NonConstantQueryElement
  | NonConstantRequiredArgument string
  | NonConstantLeftSelector
  | BlockMachineLookupIncomplete
  | DataNotYetAvailable
  | SolvingFailed
  | SymbolicEvaluationOfChallenge
  | NotConcrete
  | MultipleCauses "'k incomplete_cause list"

datatype constraint =
    Assignment int
  | RangeConstraint range_constraint

datatype 'k eval_status = Complete | Incomplete "'k incomplete_cause"

record 'k eval_value =
  constraints :: "('k \<times> constraint) list"
  status :: "'k eval_status"
  side_effect :: bool

datatype eval_error =
    RowsExhausted string
  | ConstraintUnsatisfiable string
  | ConflictingRangeConstraints
  | InvalidDivision
  | FixedLookupFailed "(string \<times> int) list"
  | ProverQueryError string
  | RecursiveMachineCalls string
  | Generic string
  | MultipleErrors "eval_error list"

type_synonym 'k eval_result = "eval_error + 'k eval_value"

section \<open>The operations\<close>

definition cause_combine :: "'k incomplete_cause \<Rightarrow> 'k incomplete_cause \<Rightarrow> 'k incomplete_cause" where
  "cause_combine left right =
     (case left of
        MultipleCauses l \<Rightarrow>
          (case right of
             MultipleCauses r \<Rightarrow> if l = [] then MultipleCauses r else MultipleCauses (l @ r)
           | other \<Rightarrow> MultipleCauses (l @ [other]))
      | other \<Rightarrow>
          (case right of
             MultipleCauses r \<Rightarrow> MultipleCauses (r @ [other])
           | r \<Rightarrow> MultipleCauses [other, r]))"

fun status_combine :: "'k eval_status \<Rightarrow> 'k eval_status \<Rightarrow> 'k eval_status" where
  "status_combine Complete Complete = Complete"
| "status_combine (Incomplete l) (Incomplete r) = Incomplete (cause_combine l r)"
| "status_combine Complete (Incomplete i) = Incomplete i"
| "status_combine (Incomplete i) Complete = Incomplete i"

definition is_complete :: "'k eval_value \<Rightarrow> bool" where
  "is_complete v = (case status v of Complete \<Rightarrow> True | Incomplete _ \<Rightarrow> False)"

definition value_is_empty :: "'k eval_value \<Rightarrow> bool" where
  "value_is_empty v \<longleftrightarrow> constraints v = []"

definition value_new :: "('k \<times> constraint) list \<Rightarrow> 'k eval_status \<Rightarrow> 'k eval_value" where
  "value_new cs st = \<lparr>constraints = cs, status = st, side_effect = False\<rparr>"

definition incomplete :: "'k incomplete_cause \<Rightarrow> 'k eval_value" where
  "incomplete cause = value_new [] (Incomplete cause)"

definition incomplete_with_constraints ::
    "('k \<times> constraint) list \<Rightarrow> 'k incomplete_cause \<Rightarrow> 'k eval_value" where
  "incomplete_with_constraints cs cause = value_new cs (Incomplete cause)"

definition complete :: "('k \<times> constraint) list \<Rightarrow> 'k eval_value" where
  "complete cs = value_new cs Complete"

definition value_combine :: "'k eval_value \<Rightarrow> 'k eval_value \<Rightarrow> 'k eval_value" where
  "value_combine v w =
     \<lparr>constraints = constraints v @ constraints w,
      status = status_combine (status v) (status w),
      side_effect = (side_effect v \<or> side_effect w)\<rparr>"

definition report_side_effect :: "'k eval_value \<Rightarrow> 'k eval_value" where
  "report_side_effect v = v\<lparr>side_effect := True\<rparr>"

definition error_combine :: "eval_error \<Rightarrow> eval_error \<Rightarrow> eval_error" where
  "error_combine left right =
     (case left of
        MultipleErrors l \<Rightarrow>
          (case right of
             MultipleErrors r \<Rightarrow> MultipleErrors (l @ r)
           | other \<Rightarrow> MultipleErrors (l @ [other]))
      | other \<Rightarrow>
          (case right of
             MultipleErrors r \<Rightarrow> MultipleErrors (r @ [other])
           | r \<Rightarrow> MultipleErrors [other, r]))"

section \<open>Meaning of a result\<close>

text \<open>An assignment of field elements to the variables satisfies a constraint.\<close>

definition satisfies :: "field_desc \<Rightarrow> ('k \<Rightarrow> int) \<Rightarrow> 'k \<times> constraint \<Rightarrow> bool" where
  "satisfies F env kc =
     (case snd kc of
        Assignment v \<Rightarrow> env (fst kc) = v
      | RangeConstraint rc \<Rightarrow> env (fst kc) \<in> rc_values F rc)"

definition satisfies_all :: "field_desc \<Rightarrow> ('k \<Rightarrow> int) \<Rightarrow> ('k \<times> constraint) list \<Rightarrow> bool" where
  "satisfies_all F env cs \<longleftrightarrow> list_all (satisfies F env) cs"

lemma satisfies_simps [simp]:
  "satisfies F env (k, Assignment v) \<longleftrightarrow> env k = v"
  "satisfies F env (k, RangeConstraint rc) \<longleftrightarrow> env k \<in> rc_values F rc"
  by (simp_all add: satisfies_def)

lemma satisfies_all_simps [simp]:
  "satisfies_all F env []"
  "satisfies_all F env (c # cs) \<longleftrightarrow> satisfies F env c \<and> satisfies_all F env cs"
  "satisfies_all F env (cs @ ds) \<longleftrightarrow> satisfies_all F env cs \<and> satisfies_all F env ds"
  by (simp_all add: satisfies_all_def)

lemma value_simps [simp]:
  "constraints (complete cs) = cs" "constraints (incomplete c) = []"
  "constraints (incomplete_with_constraints cs c) = cs"
  "is_complete (complete cs)" "\<not> is_complete (incomplete c)"
  "\<not> is_complete (incomplete_with_constraints cs c)"
  "constraints (value_combine v w) = constraints v @ constraints w"
  by (simp_all add: complete_def incomplete_def incomplete_with_constraints_def value_new_def
      is_complete_def value_combine_def)

lemma status_combine_complete:
  "status_combine s t = Complete \<longleftrightarrow> s = Complete \<and> t = Complete"
  by (cases s; cases t) simp_all

lemma is_complete_iff: "is_complete v \<longleftrightarrow> status v = Complete"
  by (simp add: is_complete_def split: eval_status.splits)

text \<open>Combining keeps every constraint and is complete only if both parts are.\<close>

lemma value_combine_complete:
  "is_complete (value_combine v w) \<longleftrightarrow> is_complete v \<and> is_complete w"
  by (simp add: is_complete_iff value_combine_def status_combine_complete)

end
