(* ===== verification/Affine_Expression.thy ===== *)
theory Affine_Expression
  imports Eval_Result
begin

text \<open>
  Affine expressions over the unknown witness cells and the solver for a single affine
  equation, \<open>executor/src/witgen/affine_expression.rs\<close>: the three representations, their
  arithmetic, and the steps that solve \<open>self = 0\<close>: directly, as a division with remainder,
  through non-overlapping bit masks, or at least by transferring range constraints.
\<close>

section \<open>Expressions\<close>

datatype 'k affine_expression =
    Constant int
  | OneVar "'k \<times> int" int
  | ManyVars "('k \<times> int) list" int

definition from_variable_id :: "'k \<Rightarrow> 'k affine_expression" where
  "from_variable_id v = OneVar (v, 1) 0"

fun is_constant :: "'k affine_expression \<Rightarrow> bool" where
  "is_constant (Constant _) = True"
| "is_constant _ = False"

fun constant_value :: "'k affine_expression \<Rightarrow> int option" where
  "constant_value (Constant c) = Some c"
| "constant_value _ = None"

fun aff_is_zero :: "'k affine_expression \<Rightarrow> bool" where
  "aff_is_zero (Constant n) = (n = 0)"
| "aff_is_zero _ = False"

fun aff_is_one :: "'k affine_expression \<Rightarrow> bool" where
  "aff_is_one (Constant n) = (n = 1)"
| "aff_is_one _ = False"

definition is_proper_coefficients :: "('k::linorder \<times> int) list \<Rightarrow> bool" where
  "is_proper_coefficients cs \<longleftrightarrow>
     sorted_wrt (<) (map fst cs) \<and> list_all (\<lambda>c. snd c \<noteq> 0) cs"

fun nonzero_coefficients :: "'k affine_expression \<Rightarrow> ('k \<times> int) list" where
  "nonzero_coefficients (ManyVars cs _) = cs"
| "nonzero_coefficients (OneVar c _) = [c]"
| "nonzero_coefficients (Constant _) = []"

fun aff_offset :: "'k affine_expression \<Rightarrow> int" where
  "aff_offset (Constant off) = off"
| "aff_offset (OneVar _ off) = off"
| "aff_offset (ManyVars _ off) = off"

text \<open>
  \<open>binary_search_by_key\<close> on coefficients in variable order: \<open>Inr\<close> the index of the key,
  \<open>Inl\<close> the index at which it can be inserted.
\<close>

fun search_key :: "'k::linorder \<Rightarrow> ('k \<times> int) list \<Rightarrow> nat + nat" where
  "search_key key [] = Inl 0"
| "search_key key ((k, c) # cs) =
     (if key < k then Inl 0 else if key = k then Inr 0 else map_sum Suc Suc (search_key key cs))"

definition list_remove :: "nat \<Rightarrow> 'a list \<Rightarrow> 'a list" where
  "list_remove i xs = take i xs @ drop (Suc i) xs"

definition list_insert :: "nat \<Rightarrow> 'a \<Rightarrow> 'a list \<Rightarrow> 'a list" where
  "list_insert i x xs = take i xs @ x # drop i xs"

fun assign :: "field_desc \<Rightarrow> 'k::linorder affine_expression \<Rightarrow> 'k \<Rightarrow> int \<Rightarrow> 'k affine_expression" where
  "assign F (OneVar (v, c) off) key val =
     (if key = v then Constant (fe_add F off (fe_mul F val c)) else OneVar (v, c) off)"
| "assign F (Constant off) key val = Constant off"
| "assign F (ManyVars cs off) key val =
     (let (cs, off) = (case search_key key cs of
          Inr idx \<Rightarrow> (list_remove idx cs, fe_add F off (fe_mul F (snd (cs ! idx)) val))
        | Inl _ \<Rightarrow> (cs, off))
      in if cs = [] then Constant off else ManyVars cs off)"

section \<open>Arithmetic\<close>

definition aff_eq :: "'k affine_expression \<Rightarrow> 'k affine_expression \<Rightarrow> bool" where
  "aff_eq a b \<longleftrightarrow> aff_offset a = aff_offset b \<and> nonzero_coefficients a = nonzero_coefficients b"

fun merge_coefficients ::
    "field_desc \<Rightarrow> ('k::linorder \<times> int) list \<Rightarrow> ('k \<times> int) list \<Rightarrow> ('k \<times> int) list" where
  "merge_coefficients F (v1 # c1) (v2 # c2) =
     (if fst v1 < fst v2 then v1 # merge_coefficients F c1 (v2 # c2)
      else if fst v1 = fst v2 then
        (let c = fe_add F (snd v1) (snd v2) in
         if c \<noteq> 0 then (fst v1, c) # merge_coefficients F c1 c2 else merge_coefficients F c1 c2)
      else v2 # merge_coefficients F (v1 # c1) c2)"
| "merge_coefficients F (v1 # c1) [] = v1 # c1"
| "merge_coefficients F [] (v2 # c2) = v2 # c2"
| "merge_coefficients F [] [] = []"

definition mk_many :: "('k \<times> int) list \<Rightarrow> int \<Rightarrow> 'k affine_expression" where
  "mk_many cs off = (if cs = [] then Constant off else ManyVars cs off)"

definition add_one_many ::
    "field_desc \<Rightarrow> 'k::linorder \<times> int \<Rightarrow> int \<Rightarrow> ('k \<times> int) list \<Rightarrow> int \<Rightarrow> 'k affine_expression" where
  "add_one_many F vc off1 cs off =
     (let cs = (case search_key (fst vc) cs of
          Inr idx \<Rightarrow> cs[idx := (fst (cs ! idx), fe_add F (snd (cs ! idx)) (snd vc))]
        | Inl idx \<Rightarrow> list_insert idx vc cs);
          cs = filter (\<lambda>c. snd c \<noteq> 0) cs
      in mk_many cs (fe_add F off off1))"

fun aff_add ::
    "field_desc \<Rightarrow> 'k::linorder affine_expression \<Rightarrow> 'k affine_expression \<Rightarrow> 'k affine_expression" where
  "aff_add F (Constant o1) (Constant o2) = Constant (fe_add F o1 o2)"
| "aff_add F (OneVar c o1) (Constant o2) = OneVar c (fe_add F o1 o2)"
| "aff_add F (Constant o2) (OneVar c o1) = OneVar c (fe_add F o1 o2)"
| "aff_add F (ManyVars cs off) (Constant off1) = ManyVars cs (fe_add F off off1)"
| "aff_add F (Constant off1) (ManyVars cs off) = ManyVars cs (fe_add F off off1)"
| "aff_add F (OneVar (v1, c1) o1) (OneVar (v2, c2) o2) =
     (if v1 = v2 then
        (let c = fe_add F c1 c2 in
         if c = 0 then Constant (fe_add F o1 o2) else OneVar (v1, c) (fe_add F o1 o2))
      else if v1 < v2 then ManyVars [(v1, c1), (v2, c2)] (fe_add F o1 o2)
      else ManyVars [(v2, c2), (v1, c1)] (fe_add F o1 o2))"
| "aff_add F (OneVar vc off1) (ManyVars cs off) = add_one_many F vc off1 cs off"
| "aff_add F (ManyVars cs off) (OneVar vc off1) = add_one_many F vc off1 cs off"
| "aff_add F (ManyVars c1 o1) (ManyVars c2 o2) = mk_many (merge_coefficients F c1 c2) (fe_add F o1 o2)"

fun aff_neg :: "field_desc \<Rightarrow> 'k affine_expression \<Rightarrow> 'k affine_expression" where
  "aff_neg F (Constant off) = Constant (fe_neg F off)"
| "aff_neg F (OneVar (v, c) off) = OneVar (v, fe_neg F c) (fe_neg F off)"
| "aff_neg F (ManyVars cs off) = ManyVars (map (\<lambda>(k, v). (k, fe_neg F v)) cs) (fe_neg F off)"

definition aff_sub ::
    "field_desc \<Rightarrow> 'k::linorder affine_expression \<Rightarrow> 'k affine_expression \<Rightarrow> 'k affine_expression" where
  "aff_sub F a b = aff_add F a (aff_neg F b)"

fun aff_mul :: "field_desc \<Rightarrow> 'k affine_expression \<Rightarrow> int \<Rightarrow> 'k affine_expression" where
  "aff_mul F e factor =
     (if factor = 0 then Constant factor
      else case e of
          Constant off \<Rightarrow> Constant (fe_mul F off factor)
        | OneVar (v, c) off \<Rightarrow> OneVar (v, fe_mul F c factor) (fe_mul F off factor)
        | ManyVars cs off \<Rightarrow>
            ManyVars (map (\<lambda>(k, v). (k, fe_mul F v factor)) cs) (fe_mul F off factor))"

section \<open>Solving\<close>

text \<open>A decimal rendering of a field element, for the error message of \<open>solve\<close>.\<close>

function show_fe :: "int \<Rightarrow> string" where
  "show_fe n = (if n < 10 then [char_of (48 + n)] else show_fe (n div 10) @ [char_of (48 + n mod 10)])"
  by pat_completeness auto
termination
  by (relation "measure nat") auto

declare show_fe.simps [simp del]

definition solve_single :: "field_desc \<Rightarrow> 'k \<Rightarrow> int \<Rightarrow> int \<Rightarrow> 'k eval_result option" where
  "solve_single F v c off = do {
     val \<leftarrow> (if c = 1 then Some (fe_neg F off)
             else if c = fe_neg F 1 then Some off
             else fe_div F (fe_neg F off) c);
     Some (Inr (complete [(v, Assignment val)]))
   }"

fun solve :: "field_desc \<Rightarrow> 'k affine_expression \<Rightarrow> 'k eval_result option" where
  "solve F (Constant c) =
     (if c = 0 then Some (Inr (complete [])) else Some (Inl (ConstraintUnsatisfiable (show_fe c))))"
| "solve F (OneVar (v, c) off) = solve_single F v c off"
| "solve F (ManyVars cs off) =
     (case cs of
        [(v, c)] \<Rightarrow> solve_single F v c off
      | _ \<Rightarrow> Some (Inr (incomplete MultipleLinearSolutions)))"

text \<open>
  \<open>dividend = divisor * quotient + remainder\<close> with known dividend and divisor; \<open>None\<close>
  inside the panic option: the pattern does not apply.
\<close>

definition try_solve_division ::
    "field_desc \<Rightarrow> ('k \<Rightarrow> range_constraint option) \<Rightarrow> 'k affine_expression \<Rightarrow> 'k eval_result option option" where
  "try_solve_division F known e =
     (case e of
        ManyVars [fst_c, snd_c] off \<Rightarrow>
          if snd fst_c \<noteq> 1 \<and> snd snd_c \<noteq> 1 then Some None
          else let (dividend, divisor, quotient, remainder) =
                 (if snd fst_c = 1 then (fe_neg F off, snd snd_c, fst snd_c, fst fst_c)
                  else (fe_neg F off, snd fst_c, fst fst_c, fst snd_c))
          in (case known remainder of None \<Rightarrow> Some None | Some rem_rc \<Rightarrow>
            if rc_min rem_rc > rc_max rem_rc \<or> rc_max rem_rc \<ge> divisor then Some None
            else (case known quotient of None \<Rightarrow> Some None | Some quo_rc \<Rightarrow>
              if rc_min quo_rc > rc_max quo_rc
                \<or> rc_max quo_rc * divisor + rc_max rem_rc \<ge> modulus F then Some None
              else do {
                rust_assert (divisor \<noteq> 0);
                let quotient_value = fe_from F (dividend div divisor);
                let remainder_value = fe_from F (dividend mod divisor);
                Some (Some (if quotient_value < rc_min quo_rc \<or> quotient_value > rc_max quo_rc
                    \<or> remainder_value < rc_min rem_rc \<or> remainder_value > rc_max rem_rc
                  then Inl ConflictingRangeConstraints
                  else Inr (complete [(quotient, Assignment quotient_value),
                    (remainder, Assignment remainder_value)])))
              }))
      | _ \<Rightarrow> Some None)"

text \<open>\<open>max_by_key\<close> returns the last of several maximal elements.\<close>

fun max_by_key :: "('a \<Rightarrow> int) \<Rightarrow> 'a list \<Rightarrow> 'a option" where
  "max_by_key f [] = None"
| "max_by_key f (x # xs) =
     (case max_by_key f xs of
        None \<Rightarrow> Some x
      | Some y \<Rightarrow> if f x > f y then Some x else Some y)"

fun reduce :: "('a \<Rightarrow> 'a \<Rightarrow> 'a) \<Rightarrow> 'a list \<Rightarrow> 'a option" where
  "reduce f [] = None"
| "reduce f (x # xs) = Some (foldl f x xs)"

fun collect_summands ::
    "field_desc \<Rightarrow> ('k \<Rightarrow> range_constraint option) \<Rightarrow> ('k \<times> int) list \<Rightarrow> range_constraint list option option" where
  "collect_summands F known [] = Some (Some [])"
| "collect_summands F known ((i, coeff) # cs) =
     (case known i of
        None \<Rightarrow> Some None
      | Some con \<Rightarrow> do {
          r \<leftarrow> multiple F con coeff;
          rest \<leftarrow> collect_summands F known cs;
          Some (map_option ((#) r) rest)
        })"

definition try_transfer_constraints ::
    "field_desc \<Rightarrow> ('k \<Rightarrow> range_constraint option) \<Rightarrow> 'k affine_expression \<Rightarrow>
     ('k \<times> range_constraint) option option" where
  "try_transfer_constraints F known e =
     (case max_by_key (\<lambda>(i, c). case known i of Some rc \<Rightarrow> range_width F rc | None \<Rightarrow> modulus F)
         (filter (\<lambda>(i, c). c = fe_neg F 1 \<or> c = 1) (nonzero_coefficients e)) of
        None \<Rightarrow> Some None
      | Some (solve_for, coeff) \<Rightarrow> do {
          summands \<leftarrow> collect_summands F known (filter (\<lambda>(i, c). i \<noteq> solve_for) (nonzero_coefficients e));
          (case summands of
             None \<Rightarrow> Some None
           | Some ss \<Rightarrow>
               (case reduce (combine_sum F) (ss @ (if aff_offset e \<noteq> 0 then [from_value (aff_offset e)] else [])) of
                  None \<Rightarrow> Some None
                | Some con \<Rightarrow> do {
                    con \<leftarrow> (if coeff = 1 then rc_neg F con else Some con);
                    (case known solve_for of
                       None \<Rightarrow> Some (Some (solve_for, con))
                     | Some previous \<Rightarrow> do {
                         c \<leftarrow> conjunction F previous con;
                         Some (if c = previous then None else Some (solve_for, con))
                       })
                  }))
        })"

text \<open>The loop over the constrained coefficients: the masks must not overlap.\<close>

fun bit_loop ::
    "field_desc \<Rightarrow> int \<Rightarrow> int \<Rightarrow> 'k eval_value \<Rightarrow> ('k \<times> int \<times> range_constraint) list \<Rightarrow> 'k eval_result option" where
  "bit_loop F covered off asg [] =
     (if covered \<ge> modulus F then Some (Inr (incomplete OverflowingBitConstraints))
      else if off \<noteq> 0 then Some (Inl ConflictingRangeConstraints)
      else Some (Inr asg))"
| "bit_loop F covered off asg ((i, coeff, con) # cs) = do {
     r \<leftarrow> multiple F con coeff;
     let m = rc_mask r;
     if m AND covered \<noteq> 0 then Some (Inr (incomplete OverlappingBitConstraints))
     else do {
       rust_assert (coeff \<noteq> 0);
       bit_loop F (covered OR m) (off AND int_not F m)
         (value_combine asg (complete [(i, Assignment (fe_from F ((off AND m) div coeff)))])) cs
     }
   }"

definition try_solve_through_constraints ::
    "field_desc \<Rightarrow> ('k \<Rightarrow> range_constraint option) \<Rightarrow> 'k affine_expression \<Rightarrow> 'k eval_result option" where
  "try_solve_through_constraints F known e =
     (let coeffs = nonzero_coefficients e;
          constrained = List.map_filter (\<lambda>(i, c). map_option (\<lambda>rc. (i, c, rc)) (known i)) coeffs;
          unconstrained = map fst (filter (\<lambda>(i, c). known i = None) coeffs)
      in if unconstrained \<noteq> [] then Some (Inr (incomplete (BitUnconstrained unconstrained)))
         else bit_loop F 0 (fe_neg F (aff_offset e)) (complete []) constrained)"

definition transferred ::
    "field_desc \<Rightarrow> ('k \<times> range_constraint) option \<Rightarrow> ('k \<times> range_constraint) option \<Rightarrow>
     ('k \<times> range_constraint) list option" where
  "transferred F r1 r2 =
     (case (r1, r2) of
        (None, None) \<Rightarrow> Some []
      | (Some pc, None) \<Rightarrow> Some [pc]
      | (None, Some pc) \<Rightarrow> Some [pc]
      | (Some (p1, c1), Some (p2, c2)) \<Rightarrow>
          if p1 = p2 then map_option (\<lambda>c. [(p1, c)]) (conjunction F c1 c2) else Some [(p1, c1), (p2, c2)])"

text \<open>The steps after the direct solution and the division pattern.\<close>

definition solve_by_masks ::
    "field_desc \<Rightarrow> ('k \<Rightarrow> range_constraint option) \<Rightarrow> 'k affine_expression \<Rightarrow> 'k eval_result option" where
  "solve_by_masks F known e =
     (let negated = aff_neg F e in do {
        r \<leftarrow> try_solve_through_constraints F known e;
        (case r of Inl err \<Rightarrow> Some (Inl err) | Inr result \<Rightarrow>
          if \<not> value_is_empty result then Some (Inr result) else do {
            r \<leftarrow> try_solve_through_constraints F known negated;
            (case r of Inl err \<Rightarrow> Some (Inl err) | Inr result \<Rightarrow>
              if \<not> value_is_empty result then Some (Inr result) else do {
                t1 \<leftarrow> try_transfer_constraints F known e;
                t2 \<leftarrow> try_transfer_constraints F known negated;
                cs \<leftarrow> transferred F t1 t2;
                let cs = map (\<lambda>(p, con). (p, RangeConstraint con)) cs;
                Some (Inr (if cs = [] then incomplete NoProgressTransferring
                  else incomplete_with_constraints cs NotConcrete))
              })
          })
      })"

definition solve_with_range_constraints ::
    "field_desc \<Rightarrow> ('k \<Rightarrow> range_constraint option) \<Rightarrow> 'k affine_expression \<Rightarrow> 'k eval_result option" where
  "solve_with_range_constraints F known e = do {
     r \<leftarrow> solve F e;
     (case r of Inl err \<Rightarrow> Some (Inl err) | Inr v \<Rightarrow>
       if is_complete v then Some (Inr v) else do {
         rust_assert (constraints v = []);
         let negated = aff_neg F e;
         d \<leftarrow> try_solve_division F known e;
         (case d of Some (Inl err) \<Rightarrow> Some (Inl err)
          | Some (Inr result) \<Rightarrow>
              if \<not> value_is_empty result then Some (Inr result) else do {
                d \<leftarrow> try_solve_division F known negated;
                (case d of Some (Inl err) \<Rightarrow> Some (Inl err)
                 | Some (Inr result) \<Rightarrow> if \<not> value_is_empty result then Some (Inr result) else solve_by_masks F known e
                 | None \<Rightarrow> solve_by_masks F known e)
              }
          | None \<Rightarrow> do {
                d \<leftarrow> try_solve_division F known negated;
                (case d of Some (Inl err) \<Rightarrow> Some (Inl err)
                 | Some (Inr result) \<Rightarrow> if \<not> value_is_empty result then Some (Inr result) else solve_by_masks F known e
                 | None \<Rightarrow> solve_by_masks F known e)
              })
       })
   }"


section \<open>The meaning of an expression\<close>

definition coeff_sum :: "('k \<Rightarrow> int) \<Rightarrow> ('k \<times> int) list \<Rightarrow> int" where
  "coeff_sum env cs = (\<Sum>(k, c)\<leftarrow>cs. c * env k)"

definition aff_eval :: "field_desc \<Rightarrow> ('k \<Rightarrow> int) \<Rightarrow> 'k affine_expression \<Rightarrow> int" where
  "aff_eval F env e = (coeff_sum env (nonzero_coefficients e) + aff_offset e) mod modulus F"

text \<open>
  The representation invariant: canonical numbers, coefficients that are not zero and in
  strictly increasing order of their variables, and no empty \<open>ManyVars\<close>.
\<close>

definition aff_ok :: "field_desc \<Rightarrow> 'k::linorder affine_expression \<Rightarrow> bool" where
  "aff_ok F e \<longleftrightarrow> canonical F (aff_offset e) \<and> is_proper_coefficients (nonzero_coefficients e)
     \<and> list_all (\<lambda>c. canonical F (snd c)) (nonzero_coefficients e)
     \<and> (case e of ManyVars [] _ \<Rightarrow> False | _ \<Rightarrow> True)"

lemma coeff_sum_simps [simp]:
  "coeff_sum env [] = 0"
  "coeff_sum env (c # cs) = snd c * env (fst c) + coeff_sum env cs"
  "coeff_sum env (cs @ ds) = coeff_sum env cs + coeff_sum env ds"
  by (simp_all add: coeff_sum_def case_prod_beta)

lemma coeff_sum_filter: "coeff_sum env (filter (\<lambda>c. snd c \<noteq> 0) cs) = coeff_sum env cs"
  by (induction cs) auto

lemma coeff_sum_split_at:
  "i < length cs \<Longrightarrow>
     coeff_sum env cs = coeff_sum env (list_remove i cs) + snd (cs ! i) * env (fst (cs ! i))"
  using arg_cong[OF id_take_nth_drop[of i cs], of "coeff_sum env"] by (simp add: list_remove_def)

lemma coeff_sum_update:
  "i < length cs \<Longrightarrow> coeff_sum env (cs[i := (fst (cs ! i), c)])
     = coeff_sum env cs + (c - snd (cs ! i)) * env (fst (cs ! i))"
  by (simp add: coeff_sum_split_at[of i cs] upd_conv_take_nth_drop list_remove_def algebra_simps)

lemma coeff_sum_insert: "coeff_sum env (list_insert i x cs) = coeff_sum env cs + snd x * env (fst x)"
  using arg_cong[OF append_take_drop_id[of i cs], of "coeff_sum env"]
  by (simp add: list_insert_def del: append_take_drop_id)

text \<open>What the binary search finds in sorted coefficients.\<close>

lemma search_key_Inr:
  "search_key key cs = Inr i \<Longrightarrow> i < length cs \<and> fst (cs ! i) = key"
proof (induction cs arbitrary: i)
  case (Cons x cs)
  then show ?case by (cases x; cases "search_key key cs") (auto split: if_splits)
qed simp

lemma search_key_Inl:
  "search_key key cs = Inl i \<Longrightarrow> sorted_wrt (<) (map fst cs) \<Longrightarrow>
     (\<forall>x \<in> set (take i cs). fst x < key) \<and> (\<forall>x \<in> set (drop i cs). key < fst x)"
proof (induction cs arbitrary: i)
  case (Cons x cs)
  then show ?case by (cases x; cases "search_key key cs") (auto split: if_splits)
qed simp

lemma sorted_take_drop:
  "sorted_wrt (<) (map f xs) \<Longrightarrow> sorted_wrt (<) (map f (take i xs)) \<and> sorted_wrt (<) (map f (drop i xs))
     \<and> (\<forall>x \<in> set (take i xs). \<forall>y \<in> set (drop i xs). f x < f y)"
  by (subst (asm) append_take_drop_id[of i xs, symmetric], subst (asm) map_append)
    (auto simp: sorted_wrt_append simp del: append_take_drop_id)

lemma sorted_list_insert:
  assumes "search_key (fst x) cs = Inl i" "sorted_wrt (<) (map fst cs)"
  shows "sorted_wrt (<) (map fst (list_insert i x cs))"
  using search_key_Inl[OF assms] sorted_take_drop[OF assms(2), of i]
  by (auto simp: list_insert_def sorted_wrt_append)

lemma sorted_list_remove:
  assumes "sorted_wrt (<) (map fst cs)"
  shows "sorted_wrt (<) (map fst (list_remove i cs))"
  using sorted_take_drop[OF assms, of i] sorted_take_drop[OF assms, of "Suc i"] set_drop_subset_set_drop[of i "Suc i" cs]
  by (auto simp: list_remove_def sorted_wrt_append)

lemma sorted_filter_fst: "sorted_wrt (<) (map fst cs) \<Longrightarrow> sorted_wrt (<) (map fst (filter P cs))"
  by (induction cs) auto

lemma set_list_remove: "set (list_remove i xs) \<subseteq> set xs"
  by (auto simp: list_remove_def dest: in_set_takeD in_set_dropD)

lemma set_list_insert: "set (list_insert i x xs) = insert x (set xs)"
  using arg_cong[OF append_take_drop_id[of i xs], of set] by (auto simp: list_insert_def simp del: append_take_drop_id)

lemma merge_keys:
  "fst ` set (merge_coefficients F c1 c2) \<subseteq> fst ` set c1 \<union> fst ` set c2"
  by (induction F c1 c2 rule: merge_coefficients.induct) (auto simp: Let_def image_subset_iff)

lemma merge_sorted:
  "sorted_wrt (<) (map fst c1) \<Longrightarrow> sorted_wrt (<) (map fst c2) \<Longrightarrow>
     sorted_wrt (<) (map fst (merge_coefficients F c1 c2))"
proof (induction F c1 c2 rule: merge_coefficients.induct)
  case (1 F v1 c1 v2 c2)
  have k: "fst x \<in> fst ` set c1 \<union> fst ` set c2" if "x \<in> set (merge_coefficients F c1 c2)" for x
    using merge_keys[of F c1 c2] that by blast
  have k1: "fst x \<in> fst ` set c1 \<union> {fst v2} \<union> fst ` set c2" if "x \<in> set (merge_coefficients F c1 (v2 # c2))" for x
    using merge_keys[of F c1 "v2 # c2"] that by auto
  have k2: "fst x \<in> {fst v1} \<union> fst ` set c1 \<union> fst ` set c2" if "x \<in> set (merge_coefficients F (v1 # c1) c2)" for x
    using merge_keys[of F "v1 # c1" c2] that by auto
  from 1 show ?case
    by (auto simp: Let_def dest!: k k1 k2)
qed simp_all

lemma merge_sum_dvd:
  "modulus F dvd coeff_sum env (merge_coefficients F c1 c2) - (coeff_sum env c1 + coeff_sum env c2)"
proof (induction F c1 c2 rule: merge_coefficients.induct)
  case (1 F v1 c1 v2 c2)
  let ?s = "snd v1 + snd v2" and ?e = "env (fst v2)"
  have fe: "fe_add F (snd v1) (snd v2) * ?e = ?s * ?e - modulus F * (?s div modulus F * ?e)"
    by (simp add: fe_add_def minus_mult_div_eq_mod[symmetric] algebra_simps)
  consider "fst v1 < fst v2" | "fst v1 = fst v2" | "fst v2 < fst v1" by (rule linorder_cases)
  then show ?case
  proof cases
    case 1
    with \<open>fst v1 < fst v2 \<Longrightarrow> _\<close> show ?thesis by (simp add: algebra_simps)
  next
    case 2
    let ?d = "coeff_sum env (merge_coefficients F c1 c2) - (coeff_sum env c1 + coeff_sum env c2)"
    have "modulus F dvd ?d"
      using 1(2,3) 2 by (cases "fe_add F (snd v1) (snd v2) = 0") auto
    then have "modulus F dvd ?d - modulus F * (?s div modulus F * ?e)" by simp
    moreover have "coeff_sum env (merge_coefficients F (v1 # c1) (v2 # c2))
        - (coeff_sum env (v1 # c1) + coeff_sum env (v2 # c2)) = ?d - modulus F * (?s div modulus F * ?e)"
      using 2 fe by (auto simp: Let_def algebra_simps)
    ultimately show ?thesis by (simp only:)
  next
    case 3
    with 1(4) show ?thesis by (simp add: algebra_simps not_less_iff_gr_or_eq)
  qed
qed simp_all


lemma proper_coefficients_simps [simp]:
  "is_proper_coefficients []"
  "is_proper_coefficients [c] \<longleftrightarrow> snd c \<noteq> 0"
  by (simp_all add: is_proper_coefficients_def)

lemma merge_elems:
  "c \<in> set (merge_coefficients F c1 c2) \<Longrightarrow>
     c \<in> set c1 \<or> c \<in> set c2 \<or> (snd c \<noteq> 0 \<and> (\<exists>x y. snd c = fe_add F x y))"
  by (induction F c1 c2 rule: merge_coefficients.induct) (auto simp: Let_def split: if_splits, blast)

lemma mk_many_simps [simp]:
  "nonzero_coefficients (mk_many cs off) = cs" "aff_offset (mk_many cs off) = off"
  by (simp_all add: mk_many_def)

lemma aff_ok_mk_many: "aff_ok F (mk_many cs off) \<longleftrightarrow>
     canonical F off \<and> is_proper_coefficients cs \<and> list_all (\<lambda>c. canonical F (snd c)) cs"
  by (auto simp: aff_ok_def mk_many_def split: list.splits)

text \<open>
  The solutions of the equation within the known range constraints, and what it means for a
  result to be sound for them: an error only if there is no solution, and constraints that every
  solution satisfies.
\<close>

definition solutions ::
    "field_desc \<Rightarrow> ('k \<Rightarrow> range_constraint option) \<Rightarrow> 'k affine_expression \<Rightarrow> ('k \<Rightarrow> int) set" where
  "solutions F known e = {env. (\<forall>k. canonical F (env k))
     \<and> (\<forall>k rc. known k = Some rc \<longrightarrow> allows_value rc (env k)) \<and> aff_eval F env e = 0}"

definition result_sound :: "field_desc \<Rightarrow> ('k \<Rightarrow> int) set \<Rightarrow> 'k eval_result \<Rightarrow> bool" where
  "result_sound F sols r =
     (case r of
        Inl _ \<Rightarrow> sols = {}
      | Inr v \<Rightarrow> (\<forall>env \<in> sols. satisfies_all F env (constraints v)))"

definition wf_known :: "field_desc \<Rightarrow> ('k \<Rightarrow> range_constraint option) \<Rightarrow> bool" where
  "wf_known F known \<longleftrightarrow> (\<forall>k rc. known k = Some rc \<longrightarrow> wf_rc F rc)"

text \<open>The entries of the bit decomposition loop under an assignment.\<close>

definition total :: "('k \<Rightarrow> int) \<Rightarrow> ('k \<times> int \<times> range_constraint) list \<Rightarrow> int" where
  "total env cs = (\<Sum>(i, c, rc)\<leftarrow>cs. c * env i)"

definition good_entries :: "field_desc \<Rightarrow> ('k \<Rightarrow> int) \<Rightarrow> ('k \<times> int \<times> range_constraint) list \<Rightarrow> bool" where
  "good_entries F env cs \<longleftrightarrow> (\<forall>(i, c, rc) \<in> set cs. wf_rc F rc \<and> rc_min rc = 0 \<and> canonical F c \<and> c \<noteq> 0
     \<and> canonical F (env i) \<and> allows_value rc (env i))"

definition transfer_sound ::
    "field_desc \<Rightarrow> ('k \<Rightarrow> int) set \<Rightarrow> ('k \<times> range_constraint) option \<Rightarrow> bool" where
  "transfer_sound F sols t \<longleftrightarrow>
     (\<forall>k con. t = Some (k, con) \<longrightarrow> wf_rc F con \<and> (\<forall>env \<in> sols. env k \<in> rc_values F con))"

text \<open>A complete result constrains exactly the variables of the expression.\<close>

definition solved :: "'k affine_expression \<Rightarrow> 'k eval_result \<Rightarrow> bool" where
  "solved e r \<longleftrightarrow> (\<forall>v. r = Inr v \<longrightarrow> is_complete v \<longrightarrow> fst ` set (constraints v) = fst ` set (nonzero_coefficients e))"

context field_element
begin

text \<open>Congruences: an evaluation depends on the residue of the sum only.\<close>

lemma aff_eval_cong:
  "modulus F dvd (coeff_sum env cs + off) - x \<Longrightarrow>
     nonzero_coefficients e = cs \<Longrightarrow> aff_offset e = off \<Longrightarrow> aff_eval F env e = x mod modulus F"
  by (simp add: aff_eval_def mod_eq_dvd_iff)

lemma fe_dvd:
  "modulus F dvd fe_add F a b - (a + b)" "modulus F dvd fe_mul F a b - a * b"
  "modulus F dvd fe_neg F a - (- a)"
  unfolding fe_add_def fe_mul_def fe_neg_def by (simp_all only: mod_eq_dvd_iff[symmetric] mod_mod_trivial)

lemma fe_add_eval: "fe_add F (x mod modulus F) (y mod modulus F) = (x + y) mod modulus F"
  by (simp add: fe_add_def mod_simps)

lemma add_one_many_ok:
  assumes "is_proper_coefficients cs" "list_all (\<lambda>c. canonical F (snd c)) cs"
    and "canonical F (snd vc)" "snd vc \<noteq> 0"
  shows "aff_ok F (add_one_many F vc off1 cs off)
     \<and> aff_eval F env (add_one_many F vc off1 cs off)
        = (coeff_sum env cs + snd vc * env (fst vc) + (off + off1)) mod modulus F"
proof (cases "search_key (fst vc) cs")
  case (Inl i)
  have srt: "sorted_wrt (<) (map fst (list_insert i vc cs))"
    using sorted_list_insert[OF Inl] assms(1) by (simp add: is_proper_coefficients_def)
  have flt: "filter (\<lambda>c. snd c \<noteq> 0) (list_insert i vc cs) = list_insert i vc cs"
    using assms by (intro filter_True) (auto simp: set_list_insert is_proper_coefficients_def list_all_iff)
  have "modulus F dvd fe_add F off off1 - (off + off1)" by (rule fe_dvd)
  with Inl srt assms show ?thesis
    by (auto simp: add_one_many_def Let_def flt aff_ok_mk_many ops_canonical is_proper_coefficients_def
        list_all_iff set_list_insert coeff_sum_insert intro!: aff_eval_cong)
next
  case (Inr i)
  note i = search_key_Inr[OF Inr]
  let ?cs = "cs[i := (fst (cs ! i), fe_add F (snd (cs ! i)) (snd vc))]"
  have keys: "map fst ?cs = map fst cs" using i by (simp add: map_update list_update_same_conv)
  have mem: "canonical F (snd x)" if "x \<in> set ?cs" for x
    using that assms(2) set_update_subset_insert[of cs i] by (fastforce simp: list_all_iff ops_canonical)
  have ok: "aff_ok F (mk_many (filter (\<lambda>c. snd c \<noteq> 0) ?cs) (fe_add F off off1))"
    using assms(1) sorted_filter_fst[of ?cs] mem
    by (auto simp: aff_ok_mk_many ops_canonical is_proper_coefficients_def list_all_iff keys)
  have "modulus F dvd (fe_add F (snd (cs ! i)) (snd vc) - (snd (cs ! i) + snd vc)) * env (fst vc)
      + (fe_add F off off1 - (off + off1))"
    by (intro dvd_add dvd_mult2 fe_dvd)
  then have dvd: "modulus F dvd coeff_sum env cs + (fe_add F (snd (cs ! i)) (snd vc) - snd (cs ! i)) * env (fst vc)
      + fe_add F off off1 - (coeff_sum env cs + snd vc * env (fst vc) + (off + off1))"
    by (simp add: algebra_simps)
  have upd: "coeff_sum env ?cs
      = coeff_sum env cs + (fe_add F (snd (cs ! i)) (snd vc) - snd (cs ! i)) * env (fst vc)"
    using i coeff_sum_update[of i cs env] by simp
  have "aff_eval F env (mk_many (filter (\<lambda>c. snd c \<noteq> 0) ?cs) (fe_add F off off1))
      = (coeff_sum env cs + snd vc * env (fst vc) + (off + off1)) mod modulus F"
    using dvd by (simp add: aff_eval_def coeff_sum_filter upd mod_eq_dvd_iff)
  with ok Inr show ?thesis by (simp add: add_one_many_def)
qed

text \<open>Addition keeps the invariant and is the addition of the values.\<close>

lemma aff_add_merge_ok:
  assumes "is_proper_coefficients c1" "list_all (\<lambda>c. canonical F (snd c)) c1"
    and "is_proper_coefficients c2" "list_all (\<lambda>c. canonical F (snd c)) c2"
  shows "aff_ok F (mk_many (merge_coefficients F c1 c2) (fe_add F o1 o2))
     \<and> aff_eval F env (mk_many (merge_coefficients F c1 c2) (fe_add F o1 o2))
        = (coeff_sum env c1 + coeff_sum env c2 + (o1 + o2)) mod modulus F"
proof
  have "canonical F (snd c) \<and> snd c \<noteq> 0" if "c \<in> set (merge_coefficients F c1 c2)" for c
    using merge_elems[OF that] assms by (auto simp: is_proper_coefficients_def list_all_iff ops_canonical)
  with assms show "aff_ok F (mk_many (merge_coefficients F c1 c2) (fe_add F o1 o2))"
    using merge_sorted[of c1 c2 F]
    by (auto simp: aff_ok_mk_many ops_canonical is_proper_coefficients_def list_all_iff)
  have "modulus F dvd (coeff_sum env (merge_coefficients F c1 c2) - (coeff_sum env c1 + coeff_sum env c2))
      + (fe_add F o1 o2 - (o1 + o2))"
    by (intro dvd_add merge_sum_dvd fe_dvd)
  then show "aff_eval F env (mk_many (merge_coefficients F c1 c2) (fe_add F o1 o2))
        = (coeff_sum env c1 + coeff_sum env c2 + (o1 + o2)) mod modulus F"
    by (intro aff_eval_cong) (simp_all add: algebra_simps)
qed

lemma aff_add_one_one_ok:
  assumes "canonical F c1" "c1 \<noteq> 0" "canonical F c2" "c2 \<noteq> 0"
  shows "aff_ok F (aff_add F (OneVar (v1, c1) o1) (OneVar (v2, c2) o2))
     \<and> aff_eval F env (aff_add F (OneVar (v1, c1) o1) (OneVar (v2, c2) o2))
        = (c1 * env v1 + c2 * env v2 + (o1 + o2)) mod modulus F"
proof (cases "v1 = v2")
  case True
  have "modulus F dvd (fe_add F c1 c2 - (c1 + c2)) * env v2 + (fe_add F o1 o2 - (o1 + o2))"
    by (intro dvd_add dvd_mult2 fe_dvd)
  with True show ?thesis
    by (auto simp: aff_ok_def ops_canonical Let_def algebra_simps intro!: aff_eval_cong)
next
  case False
  have "modulus F dvd fe_add F o1 o2 - (o1 + o2)" by (rule fe_dvd)
  with False assms show ?thesis
    by (auto simp: aff_ok_def ops_canonical is_proper_coefficients_def algebra_simps intro!: aff_eval_cong)
qed

lemma aff_add_ok:
  assumes "aff_ok F a" "aff_ok F b"
  shows "aff_ok F (aff_add F a b) \<and> aff_eval F env (aff_add F a b)
     = (coeff_sum env (nonzero_coefficients a) + coeff_sum env (nonzero_coefficients b)
        + (aff_offset a + aff_offset b)) mod modulus F"
proof -
  have d: "modulus F dvd fe_add F x y - (x + y)" "modulus F dvd fe_add F x y - (y + x)" for x y
    using fe_dvd(1)[of x y] by (simp_all add: add.commute)
  show ?thesis
  proof (cases a)
    case (Constant o1)
    with assms show ?thesis
      by (cases b) (use d[of _ o1] d[of o1] in \<open>auto simp: aff_ok_def ops_canonical algebra_simps intro!: aff_eval_cong\<close>)
  next
    case (OneVar vc o1)
    show ?thesis
    proof (cases b)
      case (Constant o2)
      with assms OneVar d[of o1 o2] show ?thesis
        by (auto simp: aff_ok_def ops_canonical algebra_simps intro!: aff_eval_cong)
    next
      case (OneVar wc o2)
      with \<open>a = OneVar vc o1\<close> assms show ?thesis
        using aff_add_one_one_ok[of "snd vc" "snd wc" "fst vc" o1 "fst wc" o2 env] by (simp add: aff_ok_def)
    next
      case (ManyVars cs o2)
      with \<open>a = OneVar vc o1\<close> assms show ?thesis
        using add_one_many_ok[of cs vc o1 o2 env] by (simp add: aff_ok_def ac_simps)
    qed
  next
    case (ManyVars cs o1)
    show ?thesis
    proof (cases b)
      case (Constant o2)
      with assms ManyVars d[of o1 o2] show ?thesis
        by (auto simp: aff_ok_def ops_canonical algebra_simps intro!: aff_eval_cong split: list.splits)
    next
      case (OneVar wc o2)
      with \<open>a = ManyVars cs o1\<close> assms show ?thesis
        using add_one_many_ok[of cs wc o2 o1 env] by (simp add: aff_ok_def ac_simps)
    next
      case (ManyVars ds o2)
      with \<open>a = ManyVars cs o1\<close> assms show ?thesis
        using aff_add_merge_ok[of cs ds o1 o2 env] by (simp add: aff_ok_def)
    qed
  qed
qed

lemma aff_add_eval:
  assumes "aff_ok F a" "aff_ok F b"
  shows "aff_eval F env (aff_add F a b) = fe_add F (aff_eval F env a) (aff_eval F env b)"
  using aff_add_ok[OF assms, of env] by (simp add: aff_eval_def fe_add_eval ac_simps)


text \<open>Negation, multiplication by a field element and substitution.\<close>

lemma fe_neg_eq_0_iff: "canonical F a \<Longrightarrow> fe_neg F a = 0 \<longleftrightarrow> a = 0"
  by (auto simp: fe_neg_eq canonical_def)

lemma coeff_sum_map_neg: "modulus F dvd coeff_sum env (map (\<lambda>(k, v). (k, fe_neg F v)) cs) + coeff_sum env cs"
proof (induction cs)
  case (Cons c cs)
  have "modulus F dvd (fe_neg F (snd c) - (- snd c)) * env (fst c)" by (intro dvd_mult2 fe_dvd)
  from dvd_add[OF this Cons.IH] show ?case by (simp add: case_prod_beta algebra_simps)
qed simp

lemma coeff_sum_map_mul:
  "modulus F dvd coeff_sum env (map (\<lambda>(k, v). (k, fe_mul F v f)) cs) - coeff_sum env cs * f"
proof (induction cs)
  case (Cons c cs)
  have "modulus F dvd (fe_mul F (snd c) f - snd c * f) * env (fst c)" by (intro dvd_mult2 fe_dvd)
  from dvd_add[OF this Cons.IH] show ?case by (simp add: case_prod_beta algebra_simps)
qed simp

lemma proper_map:
  assumes "is_proper_coefficients cs" "\<And>c. c \<in> set cs \<Longrightarrow> g (snd c) \<noteq> 0"
  shows "is_proper_coefficients (map (\<lambda>(k, v). (k, g v)) cs)"
proof -
  have "map fst (map (\<lambda>(k, v). (k, g v)) cs) = map fst cs" by (simp add: case_prod_beta)
  with assms show ?thesis by (auto simp: is_proper_coefficients_def list_all_iff simp del: map_map)
qed

lemma aff_neg_coefficients:
  "nonzero_coefficients (aff_neg F e) = map (\<lambda>(k, v). (k, fe_neg F v)) (nonzero_coefficients e)"
  "aff_offset (aff_neg F e) = fe_neg F (aff_offset e)"
  by (cases e; auto)+

lemma proper_nonzero: "is_proper_coefficients cs \<Longrightarrow> c \<in> set cs \<Longrightarrow> snd c \<noteq> 0"
  by (auto simp: is_proper_coefficients_def list_all_iff)

text \<open>Mapping the coefficients by a function that keeps them canonical and not zero.\<close>

lemma aff_ok_map:
  assumes "aff_ok F e" "\<And>c. canonical F c \<Longrightarrow> c \<noteq> 0 \<Longrightarrow> canonical F (g c) \<and> g c \<noteq> 0"
    and "nonzero_coefficients e' = map (\<lambda>(k, v). (k, g v)) (nonzero_coefficients e)"
    and "canonical F (aff_offset e')" "\<And>cs off. e' = ManyVars cs off \<Longrightarrow> \<exists>cs off. e = ManyVars cs off"
  shows "aff_ok F e'"
proof -
  let ?cs = "nonzero_coefficients e"
  have c: "canonical F (g (snd c)) \<and> g (snd c) \<noteq> 0" if "c \<in> set ?cs" for c
    using that assms(1,2) proper_nonzero[of ?cs c] by (auto simp: aff_ok_def list_all_iff)
  then have "is_proper_coefficients (nonzero_coefficients e')"
    using assms(1,3) by (simp add: proper_map aff_ok_def)
  moreover have "list_all (\<lambda>c. canonical F (snd c)) (nonzero_coefficients e')"
    using c by (auto simp: assms(3) list_all_iff)
  moreover have "(case e' of ManyVars [] _ \<Rightarrow> False | _ \<Rightarrow> True)"
    using assms(1,3,5) by (cases e') (auto simp: aff_ok_def split: list.splits)
  ultimately show ?thesis using assms(4) by (simp add: aff_ok_def)
qed

lemma aff_neg_ok: "aff_ok F e \<Longrightarrow> aff_ok F (aff_neg F e)"
  by (rule aff_ok_map[OF _ _ aff_neg_coefficients(1)])
    (auto simp: fe_neg_eq_0_iff ops_canonical aff_neg_coefficients elim!: aff_neg.elims)

lemma aff_neg_eval: "aff_eval F env (aff_neg F e) = fe_neg F (aff_eval F env e)"
proof -
  have "modulus F dvd (coeff_sum env (map (\<lambda>(k, v). (k, fe_neg F v)) (nonzero_coefficients e))
      + coeff_sum env (nonzero_coefficients e)) + (fe_neg F (aff_offset e) - (- aff_offset e))"
    by (intro dvd_add coeff_sum_map_neg fe_dvd)
  then have "aff_eval F env (aff_neg F e)
      = (- (coeff_sum env (nonzero_coefficients e) + aff_offset e)) mod modulus F"
    by (intro aff_eval_cong[OF _ aff_neg_coefficients]) (simp add: algebra_simps)
  then show ?thesis by (simp add: aff_eval_def fe_neg_def mod_minus_eq)
qed

lemma aff_mul_coefficients:
  "f \<noteq> 0 \<Longrightarrow> nonzero_coefficients (aff_mul F e f) = map (\<lambda>(k, v). (k, fe_mul F v f)) (nonzero_coefficients e)"
  "f \<noteq> 0 \<Longrightarrow> aff_offset (aff_mul F e f) = fe_mul F (aff_offset e) f"
  by (cases e; auto)+

lemma aff_mul_ok:
  assumes "aff_ok F e" "canonical F f"
  shows "aff_ok F (aff_mul F e f)"
proof (cases "f = 0")
  case False
  then show ?thesis
    using assms fe_mul_eq_0_iff
    by (intro aff_ok_map[OF assms(1) _ aff_mul_coefficients(1)])
      (auto simp: aff_mul_coefficients ops_canonical split: affine_expression.splits)
qed (simp add: aff_ok_def canonical_0)

lemma aff_mul_eval: "aff_eval F env (aff_mul F e f) = fe_mul F (aff_eval F env e) f"
proof (cases "f = 0")
  case False
  let ?cs = "nonzero_coefficients e"
  have "modulus F dvd (coeff_sum env (map (\<lambda>(k, v). (k, fe_mul F v f)) ?cs) - coeff_sum env ?cs * f)
      + (fe_mul F (aff_offset e) f - aff_offset e * f)"
    by (intro dvd_add coeff_sum_map_mul fe_dvd)
  then have "aff_eval F env (aff_mul F e f) = (coeff_sum env ?cs + aff_offset e) * f mod modulus F"
    by (intro aff_eval_cong[OF _ aff_mul_coefficients]) (auto simp: False algebra_simps)
  then show ?thesis by (simp add: aff_eval_def fe_mul_def mod_mult_left_eq)
qed (simp add: aff_eval_def fe_mul_def)

lemma coeff_sum_upd:
  "k \<notin> fst ` set cs \<Longrightarrow> coeff_sum (env(k := v)) cs = coeff_sum env cs"
  by (induction cs) auto

lemma list_remove_key:
  fixes cs :: "('k::linorder \<times> int) list"
  assumes "sorted_wrt (<) (map fst cs)" "i < length cs"
  shows "fst (cs ! i) \<notin> fst ` set (list_remove i cs)"
proof -
  have "distinct (map fst cs)" using assms(1) by (simp add: strict_sorted_iff)
  then have "distinct (map fst (take i cs) @ fst (cs ! i) # map fst (drop (Suc i) cs))"
    using arg_cong[OF id_take_nth_drop[OF assms(2)], of "map fst"] by simp
  then show ?thesis by (auto simp: list_remove_def)
qed

lemma assign_ok:
  assumes "aff_ok F e"
  shows "aff_ok F (assign F e k v)" "k \<notin> fst ` set (nonzero_coefficients (assign F e k v))"
    "aff_eval F env (assign F e k v) = aff_eval F (env(k := v)) e"
proof -
  have "aff_ok F (assign F e k v) \<and> k \<notin> fst ` set (nonzero_coefficients (assign F e k v))
      \<and> aff_eval F env (assign F e k v) = aff_eval F (env(k := v)) e"
  proof (cases e)
    case (OneVar vc off)
    with assms show ?thesis
      by (cases vc) (auto simp: aff_ok_def mod_canonical aff_eval_def fe_add_def fe_mul_def mod_simps ac_simps)
  next
    case (ManyVars cs off)
    show ?thesis
    proof (cases "search_key k cs")
      case (Inl i)
      have "k \<notin> fst ` set cs"
        using search_key_Inl[OF Inl] assms ManyVars append_take_drop_id[of i cs]
        by (auto simp: aff_ok_def is_proper_coefficients_def simp del: append_take_drop_id)
          (metis Un_iff fst_conv less_irrefl set_append)
      with Inl ManyVars assms show ?thesis by (auto simp: aff_eval_def coeff_sum_upd aff_ok_def)
    next
      case (Inr i)
      note i = search_key_Inr[OF Inr]
      have srt: "sorted_wrt (<) (map fst cs)" and nz: "\<forall>c \<in> set cs. snd c \<noteq> 0 \<and> canonical F (snd c)"
        using assms ManyVars by (auto simp: aff_ok_def is_proper_coefficients_def list_all_iff)
      have a: "assign F e k v = mk_many (list_remove i cs) (fe_add F off (fe_mul F (snd (cs ! i)) v))"
        by (simp add: ManyVars Inr mk_many_def)
      have ok: "aff_ok F (assign F e k v)"
        using nz sorted_list_remove[OF srt, of i] set_list_remove[of i cs]
        by (auto simp: a aff_ok_mk_many ops_canonical is_proper_coefficients_def list_all_iff)
      have k: "k \<notin> fst ` set (list_remove i cs)" using list_remove_key[OF srt] i by auto
      have "aff_eval F (env(k := v)) e = (coeff_sum env (list_remove i cs) + snd (cs ! i) * v + off) mod modulus F"
        using i coeff_sum_split_at[of i cs "env(k := v)"] coeff_sum_upd[OF k] ManyVars by (simp add: aff_eval_def)
      moreover have "aff_eval F env (assign F e k v)
          = (coeff_sum env (list_remove i cs) + (off + snd (cs ! i) * v)) mod modulus F"
        by (simp add: a aff_eval_def fe_add_def fe_mul_def mod_simps)
      ultimately show ?thesis using ok k a by (simp add: ac_simps)
    qed
  qed (use assms in \<open>simp_all add: aff_ok_def aff_eval_def\<close>)
  then show "aff_ok F (assign F e k v)" "k \<notin> fst ` set (nonzero_coefficients (assign F e k v))"
    "aff_eval F env (assign F e k v) = aff_eval F (env(k := v)) e" by simp_all
qed

section \<open>Soundness of solving\<close>

text \<open>The direct solution: one unknown has exactly one value.\<close>

lemma solve_single_ok:
  assumes "canonical F c" "c \<noteq> 0" "canonical F off"
  obtains val where "solve_single F v c off = Some (Inr (complete [(v, Assignment val)]))"
    "\<And>x. canonical F x \<Longrightarrow> (c * x + off) mod modulus F = 0 \<longleftrightarrow> x = val"
proof -
  have iff: "(c * x + off) mod modulus F = 0 \<longleftrightarrow> x = val"
    if val: "canonical F val" "fe_mul F val c = fe_neg F off" and x: "canonical F x" for x val
  proof -
    have "(c * x + off) mod modulus F = 0 \<longleftrightarrow> fe_mul F x c = fe_neg F off"
      by (simp add: fe_mul_def fe_neg_def mod_eq_dvd_iff mult.commute flip: dvd_eq_mod_eq_0)
    also have "\<dots> \<longleftrightarrow> x = val"
      using fe_mul_cancel[OF x val(1) assms(1,2)] val(2) by auto
    finally show ?thesis .
  qed
  consider "c = 1" | "c \<noteq> 1" "c = fe_neg F 1" | "c \<noteq> 1" "c \<noteq> fe_neg F 1" by blast
  then show thesis
  proof cases
    case 1
    then show thesis
      using that[of "fe_neg F off"] iff[of "fe_neg F off"]
      by (simp add: solve_single_def ops_canonical fe_mul_def canonical_mod)
  next
    case 2
    have "fe_mul F off c = fe_neg F off"
      by (simp add: 2 fe_mul_def fe_neg_def mod_mult_right_eq)
    with 2 show thesis
      using that[of off] iff[of off] assms(3) by (simp add: solve_single_def)
  next
    case 3
    obtain q where q: "fe_div F (fe_neg F off) c = Some q" "canonical F q" "fe_mul F q c = fe_neg F off"
      using fe_div_nonzero[OF ops_canonical(4) assms(1,2)] .
    with 3 show thesis
      using that[of q] iff[of q] by (simp add: solve_single_def)
  qed
qed

lemma solve_ok:
  assumes "aff_ok F e"
  obtains r where "solve F e = Some r"
    "\<And>err env. r = Inl err \<Longrightarrow> aff_eval F env e \<noteq> 0"
    "\<And>v env. r = Inr v \<Longrightarrow> is_complete v \<Longrightarrow> (\<And>k. canonical F (env k)) \<Longrightarrow>
       aff_eval F env e = 0 \<longleftrightarrow> satisfies_all F env (constraints v)"
    "\<And>v. r = Inr v \<Longrightarrow> \<not> is_complete v \<Longrightarrow> constraints v = []"
    "\<And>v. r = Inr v \<Longrightarrow> is_complete v \<Longrightarrow> map fst (constraints v) = map fst (nonzero_coefficients e)"
proof -
  note result = that
  have one: thesis if e: "nonzero_coefficients e = [(v, c)]" "solve F e = solve_single F v c (aff_offset e)" for v c
  proof -
    have "canonical F c" "c \<noteq> 0" "canonical F (aff_offset e)" using assms e(1) by (auto simp: aff_ok_def)
    from solve_single_ok[OF this, of v] obtain val
      where "solve_single F v c (aff_offset e) = Some (Inr (complete [(v, Assignment val)]))"
      "\<And>x. canonical F x \<Longrightarrow> (c * x + aff_offset e) mod modulus F = 0 \<longleftrightarrow> x = val" by blast
    with e show thesis by (intro result) (auto simp: aff_eval_def)
  qed
  show thesis
  proof (cases e)
    case (Constant c)
    then show thesis
      using assms by (intro result[of "if c = 0 then Inr (complete []) else Inl (ConstraintUnsatisfiable (show_fe c))"])
        (auto simp: aff_eval_def aff_ok_def canonical_mod split: if_splits)
  next
    case (OneVar vc off)
    then show thesis using one by (cases vc) simp
  next
    case (ManyVars cs off)
    show thesis
    proof (cases "\<exists>v c. cs = [(v, c)]")
      case True
      then show thesis using one ManyVars by auto
    next
      case False
      then have "solve F e = Some (Inr (incomplete MultipleLinearSolutions))"
        by (auto simp: ManyVars split: list.splits)
      then show thesis by (intro that) auto
    qed
  qed
qed


text \<open>The division pattern: quotient and remainder are unique, because nothing wraps.\<close>

lemma division_unique:
  assumes "0 \<le> q" "q \<le> Q" "0 \<le> r" "r \<le> R" "R < d" "Q * d + R < modulus F"
    and "(d * q + r + off) mod modulus F = 0"
  shows "fe_neg F off div d = q" "fe_neg F off mod d = r"
proof -
  have "q * d \<le> Q * d" using assms by (intro mult_right_mono) simp_all
  moreover have "0 \<le> q * d" using assms by simp
  ultimately have b: "0 \<le> d * q + r" "d * q + r < modulus F"
    using assms unfolding mult.commute[of d q] by linarith+
  have "fe_neg F off = (d * q + r) mod modulus F"
    using assms(7) by (simp add: fe_neg_def mod_eq_dvd_iff flip: dvd_eq_mod_eq_0)
      (metis add.commute diff_minus_eq_add dvd_minus_iff minus_diff_eq)
  then have "fe_neg F off = d * q + r" using b by simp
  then show "fe_neg F off div d = q" "fe_neg F off mod d = r" using assms by simp_all
qed

lemma try_solve_division_ok:
  assumes "aff_ok F e" "wf_known F known"
  obtains d where "try_solve_division F known e = Some d"
    "\<And>r. d = Some r \<Longrightarrow> result_sound F (solutions F known e) r"
    "\<And>v. d = Some (Inr v) \<Longrightarrow> is_complete v \<and> set (map fst (constraints v)) = fst ` set (nonzero_coefficients e)"
proof (cases "try_solve_division F known e = Some None")
  case True
  then show thesis using that[of None] by simp
next
  case False
  then obtain x cx y cy off where e: "e = ManyVars [(x, cx), (y, cy)] off"
    by (auto simp: try_solve_division_def split: affine_expression.splits list.splits)
  define divisor quotient remainder where
    "divisor = (if cx = 1 then cy else cx)" and "quotient = (if cx = 1 then y else x)"
    and "remainder = (if cx = 1 then x else y)"
  note defs = divisor_def quotient_def remainder_def
  have one: "cx = 1 \<or> cy = 1"
    by (rule ccontr) (use False in \<open>simp add: e try_solve_division_def\<close>)
  obtain rr qr where k: "known remainder = Some rr" "known quotient = Some qr"
    and le: "rc_min rr \<le> rc_max rr" "rc_max rr < divisor" "rc_min qr \<le> rc_max qr"
      "rc_max qr * divisor + rc_max rr < modulus F"
    using False one by (auto simp: e try_solve_division_def Let_def defs not_le not_less
        split: option.splits if_splits)
  have wf: "wf_rc F rr" "wf_rc F qr" using assms(2) k by (auto simp: wf_known_def)
  then have d0: "divisor \<noteq> 0" and nn: "0 \<le> rc_min rr" "0 \<le> rc_min qr"
    using le by (auto simp: wf_rc_def canonical_def)
  have sol: "env quotient = fe_neg F off div divisor \<and> env remainder = fe_neg F off mod divisor
      \<and> in_range (rc_min qr) (rc_max qr) (env quotient) \<and> in_range (rc_min rr) (rc_max rr) (env remainder)
      \<and> fe_from F (env quotient) = env quotient \<and> fe_from F (env remainder) = env remainder"
    if s: "env \<in> solutions F known e" for env
  proof -
    have c: "canonical F (env quotient)" "canonical F (env remainder)"
      and i: "in_range (rc_min qr) (rc_max qr) (env quotient)" "in_range (rc_min rr) (rc_max rr) (env remainder)"
      using s k by (auto simp: solutions_def allows_value_def)
    have "(divisor * env quotient + env remainder + off) mod modulus F = 0"
      using s one by (auto simp: solutions_def aff_eval_def e defs algebra_simps split: if_splits)
    then show ?thesis
      using division_unique[of "env quotient" "rc_max qr" "env remainder" "rc_max rr" divisor off] c i le
      by (auto simp: canonical_def in_range_def fe_from_def)
  qed
  let ?q = "fe_from F (fe_neg F off div divisor)" and ?r = "fe_from F (fe_neg F off mod divisor)"
  let ?res = "if ?q < rc_min qr \<or> ?q > rc_max qr \<or> ?r < rc_min rr \<or> ?r > rc_max rr
     then Inl ConflictingRangeConstraints
     else Inr (complete [(quotient, Assignment ?q), (remainder, Assignment ?r)])"
  have "try_solve_division F known e = Some (Some ?res)"
    using k le d0 one by (auto simp: e try_solve_division_def Let_def defs)
  moreover have "result_sound F (solutions F known e) ?res"
    using sol le by (fastforce simp: result_sound_def in_range_def)
  ultimately show thesis
    by (intro that[of "Some ?res"]) (auto simp: e defs split: if_splits)
qed

lemma multiple_no_wrap:
  assumes mx0: "canonical F mx0" and f: "canonical F f"
    and i: "(if is_in_lower_half F f then range_multiple F 0 mx0 f
      else range_multiple F (fe_neg F mx0) (fe_neg F 0) (fe_neg F f)) = (mn, mx)"
    and le: "mn \<le> mx" and v: "0 \<le> v" "v \<le> mx0"
  shows "f * v \<le> mx"
proof (cases "is_in_lower_half F f")
  case True
  have w: "interval_width F 0 mx0 = mx0 + 1"
    using mx0 by (simp add: interval_width_eq canonical_0 canonical_mod)
  have nf: "0 \<le> f" "0 \<le> mx0" using f mx0 by (auto simp: canonical_def)
  from True i le have small: "(mx0 + 1) * f \<le> modulus F" and mx: "mx = fe_mul F mx0 f"
    by (auto simp: range_multiple_def w split: if_splits)
  have "mx0 * f < modulus F"
    using small nf modulus_pos by (cases "f = 0") (auto simp: distrib_right)
  then have "mx = mx0 * f" using mx nf by (simp add: fe_mul_def)
  moreover have "v * f \<le> mx0 * f" using v nf by (intro mult_right_mono) simp_all
  ultimately show ?thesis by (simp add: mult.commute)
next
  case False
  have "f \<noteq> 0" using False modulus_gt_2 by (auto simp: is_in_lower_half_def)
  from False i le have "fe_mul F (fe_neg F mx0) (fe_neg F f) = 0" and mx: "mx = 0"
    using canonical_0 ops_canonical(3)[of "fe_neg F mx0" "fe_neg F f"]
    by (auto simp: range_multiple_def fe_neg_eq fe_mul_def[of F 0] canonical_def split: if_splits)
  then have "mx0 = 0"
    using \<open>f \<noteq> 0\<close> f mx0 by (simp add: fe_mul_eq_0_iff ops_canonical fe_neg_eq_0_iff)
  with v mx show ?thesis by simp
qed

text \<open>
  The mask of a multiple of a constraint that starts at zero: it covers the whole integer type,
  or the product does not wrap and its bits are in the mask.
\<close>

lemma multiple_mask:
  assumes rc: "wf_rc F rc" "rc_min rc = 0" and f: "canonical F f"
    and v: "canonical F v" "allows_value rc v" and m: "multiple F rc f = Some r" "rc_mask r < modulus F"
  shows "f * v AND rc_mask r = f * v"
proof -
  have vm: "0 \<le> v" "v \<le> rc_max rc" "v AND rc_mask rc = v"
    using v rc by (auto simp: allows_value_def in_range_def canonical_def wf_rc_def)
  have nf: "0 \<le> f" "f < modulus F" using f by (auto simp: canonical_def)
  show ?thesis
  proof (cases "\<exists>e. log2_exact f = Some e \<and> push_bit e (rc_mask rc) < modulus F")
    case True
    then obtain e where e: "log2_exact f = Some e" "push_bit e (rc_mask rc) < modulus F" by blast
    have "0 \<le> push_bit e (rc_mask rc)" using rc by (simp add: wf_rc_def)
    then have "take_bit (NUM_BITS F) (push_bit e (rc_mask rc)) = push_bit e (rc_mask rc)"
      using e modulus_le_width by (intro take_bit_int_eq_self) auto
    then have "rc_mask r = push_bit e (rc_mask rc)"
      using m e by (auto simp: multiple_def Let_def split: if_splits prod.splits)
    moreover have "f * v = push_bit e v"
      using log2_exact_Some[OF e(1)] by (simp add: push_bit_eq_mult mult.commute)
    ultimately show ?thesis using vm by (simp add: push_bit_and[symmetric])
  next
    case False
    obtain mn mx where i: "(if is_in_lower_half F f then range_multiple F (rc_min rc) (rc_max rc) f
      else range_multiple F (fe_neg F (rc_max rc)) (fe_neg F (rc_min rc)) (fe_neg F f)) = (mn, mx)"
      by fastforce
    have fr: "from_range F mn mx = Some \<lparr>rc_mask = rc_mask r, rc_min = mn, rc_max = mx\<rparr>"
      using m False i by (auto simp: multiple_def Let_def from_range_def bind_eq_Some_conv
          split: option.splits if_splits)
    have le: "mn \<le> mx"
    proof (rule ccontr)
      assume "\<not> mn \<le> mx"
      with fr have "rc_mask r = 2 ^ NUM_BITS F - 1"
        by (simp add: from_range_def int_not_0 mask_eq_exp_minus_1)
      with m(2) modulus_less_width show False by simp
    qed
    have mx: "canonical F (rc_max rc)" using rc by (simp add: wf_rc_def)
    have bounds: "0 \<le> f * v" "f * v \<le> mx"
      using multiple_no_wrap[OF mx f i[unfolded rc(2)] le] vm nf by simp_all
    have "canonical F mx" using multiple_interval(2)[OF rc(1) f i] .
    then have "rc_mask r = mask (num_bits mx)"
      using fr le canonical_num_bits by (simp add: from_range_def mask_from_bits_eq)
    with bounds num_bits_bound[of mx] show ?thesis by (simp add: and_self_mask)
  qed
qed

text \<open>Bits of integers: disjoint sums.\<close>

lemma disjoint_sum_bits:
  fixes x t m c :: int
  assumes "x AND m = x" "t AND (c OR m) = 0" "m AND c = 0"
  shows "x + t = x OR t" "(x + t) AND m = x" "(x + t) AND c = 0"
proof -
  have b: "bit x n \<Longrightarrow> bit m n" "bit t n \<Longrightarrow> \<not> bit c n \<and> \<not> bit m n" "bit m n \<Longrightarrow> \<not> bit c n" for n
    using assms by (auto simp: bit_eq_iff bit_simps)
  then have "x AND t = 0" by (auto simp: bit_eq_iff bit_simps)
  then show *: "x + t = x OR t" by (rule disjunctive_add_eq_or)
  show "(x + t) AND m = x" "(x + t) AND c = 0"
    using b by (auto simp: * bit_eq_iff bit_simps)
qed

lemma disjoint_sum_rest:
  assumes "x AND m = x" "t AND (c OR m) = 0" "m AND c = 0" "0 \<le> t" "t < modulus F"
  shows "(x + t) AND int_not F m = t"
proof (rule bit_eqI)
  fix n
  have b: "bit x n \<Longrightarrow> bit m n" "bit t n \<Longrightarrow> \<not> bit m n"
    using assms(1,2) by (auto simp: bit_eq_iff bit_simps)
  have "t = take_bit (NUM_BITS F) t"
    using assms modulus_le_width by (simp add: take_bit_int_eq_self)
  then have "bit t n \<Longrightarrow> n < NUM_BITS F" by (metis bit_take_bit_iff)
  with b show "bit ((x + t) AND int_not F m) n = bit t n"
    unfolding disjoint_sum_bits(1)[OF assms(1-3)] by (auto simp: int_not_def bit_simps)
qed

text \<open>
  Unless the loop gives up, the masks it has seen stay below the modulus, the sum of the
  products is the disjunction of their bits, and each product is read off from the bits of the
  sum.
\<close>

lemma bit_loop_sound:
  assumes "bit_loop F covered off asg cs = Some res" "0 \<le> covered" "is_complete asg"
    and "\<And>v. res = Inr v \<Longrightarrow> is_complete v" "good_entries F env cs"
  shows "\<exists>C. 0 \<le> C \<and> C < modulus F \<and> covered AND C = covered \<and> 0 \<le> total env cs \<and> total env cs AND C = total env cs
      \<and> total env cs AND covered = 0
      \<and> (off = total env cs \<longrightarrow> (\<exists>v. res = Inr v \<and>
           (satisfies_all F env (constraints asg) \<longrightarrow> satisfies_all F env (constraints v))))"
  using assms
proof (induction cs arbitrary: covered off asg)
  case Nil
  from Nil.prems show ?case
    by (intro exI[of _ covered]) (auto simp: total_def split: if_splits)
next
  case (Cons entry cs)
  obtain i c rc where entry: "entry = (i, c, rc)" by (cases entry)
  let ?v = "env i" and ?t = "total env cs"
  have g: "wf_rc F rc" "rc_min rc = 0" "canonical F c" "c \<noteq> 0" "canonical F ?v" "allows_value rc ?v"
    and gs: "good_entries F env cs"
    using Cons.prems(5) by (auto simp: good_entries_def entry)
  obtain r where r: "multiple F rc c = Some r" "wf_rc F r"
    using multiple_ok[OF g(1,3)] by blast
  let ?m = "rc_mask r"
  have m0: "0 \<le> ?m" using r by (simp add: wf_rc_def)
  have mc: "?m AND covered = 0"
    by (rule ccontr) (use Cons.prems(1,4) r in \<open>auto simp: entry\<close>)
  let ?a = "\<lambda>x. value_combine asg (complete [(i, Assignment (fe_from F ((x AND ?m) div c)))])"
  have loop: "bit_loop F (covered OR ?m) (off AND int_not F ?m) (?a off) cs = Some res"
    using Cons.prems(1) g r mc by (simp add: entry Let_def)
  have cov: "0 \<le> covered OR ?m" using m0 Cons.prems(2) by simp
  have ca: "is_complete (?a off)" using Cons.prems(3) by (simp add: value_combine_complete)
  from Cons.IH[OF loop cov ca Cons.prems(4) gs] obtain C where C0: "0 \<le> C" and C: "C < modulus F"
    "(covered OR ?m) AND C = covered OR ?m" "0 \<le> ?t" "?t AND C = ?t" "?t AND (covered OR ?m) = 0"
    and ih: "off AND int_not F ?m = ?t \<Longrightarrow> \<exists>v. res = Inr v \<and>
       (satisfies_all F env (constraints (?a off)) \<longrightarrow> satisfies_all F env (constraints v))"
    by blast
  have sub: "covered AND C = covered" "?m AND C = ?m"
    using C(2) by (auto simp: bit_eq_iff bit_simps)
  have "?m < modulus F" using and_self_le[OF sub(2) C0] C(1) by simp
  then have x: "c * ?v AND ?m = c * ?v" using multiple_mask[OF g(1,2,3,5,6) r(1)] by simp
  note dj = disjoint_sum_bits[OF x C(5) mc]
  have tot: "total env (entry # cs) = c * ?v + ?t" by (simp add: total_def entry)
  have x0: "0 \<le> c * ?v" using g by (simp add: canonical_def)
  have "?t < modulus F" using and_self_le[OF C(4) C0] C(1) by simp
  note rest = disjoint_sum_rest[OF x C(5) mc C(3) this]
  have "(c * ?v + ?t) AND C = c * ?v + ?t"
    using and_self_trans[OF x sub(2)] C(4) by (simp add: dj(1) bit_eq_iff bit_simps) blast
  moreover have "\<exists>v. res = Inr v \<and> (satisfies_all F env (constraints asg) \<longrightarrow> satisfies_all F env (constraints v))"
    if o: "off = c * ?v + ?t"
  proof -
    have "(off AND ?m) div c = ?v" using g(4) by (simp add: o dj(2))
    then have "fe_from F ((off AND ?m) div c) = ?v" using g(5) by (simp add: fe_from_def canonical_mod)
    with ih rest show ?thesis by (simp add: o)
  qed
  ultimately show ?case
    using C C0 sub x0 dj(3) by (auto simp: tot intro!: exI[of _ C])
qed

text \<open>The loop never panics on well-formed constraints and coefficients that are not zero.\<close>

lemma bit_loop_total:
  assumes "\<forall>(i, c, rc) \<in> set cs. wf_rc F rc \<and> canonical F c \<and> c \<noteq> 0" "is_complete asg"
  shows "\<exists>res. bit_loop F covered off asg cs = Some res
     \<and> (\<forall>v. res = Inr v \<longrightarrow> is_complete v \<and> map fst (constraints v) = map fst (constraints asg) @ map fst cs
          \<or> \<not> is_complete v \<and> constraints v = [])"
  using assms
proof (induction cs arbitrary: covered off asg)
  case (Cons entry cs)
  obtain i c rc where entry: "entry = (i, c, rc)" by (cases entry)
  have g: "wf_rc F rc" "canonical F c" "c \<noteq> 0" using Cons.prems by (auto simp: entry)
  obtain r where r: "multiple F rc c = Some r" using multiple_ok[OF g(1,2)] by blast
  show ?case
  proof (cases "rc_mask r AND covered = 0")
    case True
    let ?asg = "value_combine asg (complete [(i, Assignment (fe_from F ((off AND rc_mask r) div c)))])"
    have "is_complete ?asg" using Cons.prems by (simp add: value_combine_complete)
    then obtain res where "bit_loop F (covered OR rc_mask r) (off AND int_not F (rc_mask r)) ?asg cs = Some res"
      "\<forall>v. res = Inr v \<longrightarrow> is_complete v \<and> map fst (constraints v) = map fst (constraints ?asg) @ map fst cs
          \<or> \<not> is_complete v \<and> constraints v = []"
      using Cons.IH Cons.prems by fastforce
    with True r g show ?thesis by (simp add: entry Let_def)
  qed (use r in \<open>simp add: entry\<close>)
qed simp

lemma mod_eqI_neg: "(t + a) mod modulus F = 0 \<Longrightarrow> (- a) mod modulus F = t mod modulus F"
  by (subst mod_eq_dvd_iff, subst dvd_minus_iff[symmetric]) (auto simp: algebra_simps dvd_eq_mod_eq_0)

text \<open>The bit decomposition step as a whole.\<close>

lemma map_filter_known:
  assumes "\<forall>x \<in> set cs. known (fst x) \<noteq> None"
  shows "map fst (List.map_filter (\<lambda>(i, c). map_option (\<lambda>rc. (i, c, rc)) (known i)) cs) = map fst cs"
    "total env (List.map_filter (\<lambda>(i, c). map_option (\<lambda>rc. (i, c, rc)) (known i)) cs) = coeff_sum env cs"
  using assms by (induction cs) (auto simp: total_def map_filter_simps)

lemma try_solve_through_constraints_ok:
  assumes ok: "aff_ok F e" and wf: "wf_known F known"
  obtains r where "try_solve_through_constraints F known e = Some r"
    "(\<And>k rc. known k = Some rc \<Longrightarrow> rc_min rc = 0) \<Longrightarrow> result_sound F (solutions F known e) r"
    "\<And>v. r = Inr v \<Longrightarrow> is_complete v \<and> map fst (constraints v) = map fst (nonzero_coefficients e)
       \<or> \<not> is_complete v \<and> constraints v = []"
proof (cases "\<exists>x \<in> set (nonzero_coefficients e). known (fst x) = None")
  case True
  then have "map fst (filter (\<lambda>(i, c). known i = None) (nonzero_coefficients e)) \<noteq> []"
    by (auto simp: filter_empty_conv)
  then show thesis
    by (intro that[OF _ _ disjI2]) (auto simp: try_solve_through_constraints_def Let_def result_sound_def)
next
  case False
  let ?cs = "nonzero_coefficients e"
  let ?l = "List.map_filter (\<lambda>(i, c). map_option (\<lambda>rc. (i, c, rc)) (known i)) ?cs"
  have un: "map fst (filter (\<lambda>(i, c). known i = None) ?cs) = []" using False by (auto simp: filter_empty_conv)
  note l = map_filter_known[of ?cs known]
  have entries: "\<forall>(i, c, rc) \<in> set ?l. wf_rc F rc \<and> canonical F c \<and> c \<noteq> 0 \<and> known i = Some rc"
    using ok wf by (auto simp: map_filter_def wf_known_def aff_ok_def list_all_iff is_proper_coefficients_def)
  then obtain res where res: "bit_loop F 0 (fe_neg F (aff_offset e)) (complete []) ?l = Some res"
    "\<forall>v. res = Inr v \<longrightarrow> is_complete v \<and> map fst (constraints v) = map fst ?l
        \<or> \<not> is_complete v \<and> constraints v = []"
    using bit_loop_total[of ?l "complete []" 0 "fe_neg F (aff_offset e)"] by fastforce
  show thesis
  proof (rule that)
    show "try_solve_through_constraints F known e = Some res"
      using un res(1) by (simp add: try_solve_through_constraints_def Let_def)
    show "is_complete v \<and> map fst (constraints v) = map fst ?cs \<or> \<not> is_complete v \<and> constraints v = []"
      if "res = Inr v" for v using that res(2) l(1) False by auto
    assume zero: "\<And>k rc. known k = Some rc \<Longrightarrow> rc_min rc = 0"
    have "\<exists>v. res = Inr v \<and> satisfies_all F env (constraints v)"
      if sol: "env \<in> solutions F known e" and c: "\<And>v. res = Inr v \<Longrightarrow> is_complete v" for env
    proof -
      have "good_entries F env ?l" using entries zero sol by (fastforce simp: good_entries_def solutions_def)
      from bit_loop_sound[OF res(1) order_refl _ c this]
      obtain C where C: "0 \<le> C" "C < modulus F" "0 \<le> total env ?l" "total env ?l AND C = total env ?l"
        "fe_neg F (aff_offset e) = total env ?l \<Longrightarrow> \<exists>v. res = Inr v \<and> satisfies_all F env (constraints v)"
        by auto
      have "total env ?l < modulus F" using and_self_le[OF C(4,1)] C(2) by simp
      moreover have "(total env ?l + aff_offset e) mod modulus F = 0"
        using sol l(2)[of env] False by (simp add: solutions_def aff_eval_def)
      then have "(- aff_offset e) mod modulus F = total env ?l mod modulus F"
        by (intro mod_eqI_neg)
      ultimately have "fe_neg F (aff_offset e) = total env ?l" using C(3) by (simp add: fe_neg_def)
      then show ?thesis by (rule C(5))
    qed
    then show "result_sound F (solutions F known e) res"
      using res(2) by (cases res) (fastforce simp: result_sound_def)+
  qed
qed

text \<open>Transferring constraints: the sum of the other terms bounds the chosen variable.\<close>

lemma max_by_key_in: "max_by_key f xs = Some x \<Longrightarrow> x \<in> set xs"
  by (induction xs arbitrary: x) (auto split: option.splits if_splits)

lemma foldl_combine_sum:
  assumes "wf_rc F r" "x \<in> rc_values F r"
    and "list_all2 (\<lambda>v r. wf_rc F r \<and> v \<in> rc_values F r) vs rs"
  shows "wf_rc F (foldl (combine_sum F) r rs)
     \<and> (x + sum_list vs) mod modulus F \<in> rc_values F (foldl (combine_sum F) r rs)"
  using assms(3,1,2)
proof (induction vs rs arbitrary: x r rule: list_all2_induct)
  case Nil
  then show ?case by (simp add: rc_values_def canonical_mod)
next
  case (Cons v vs r' rs)
  have "fe_add F x v \<in> rc_values F (combine_sum F r r')" "wf_rc F (combine_sum F r r')"
    using Cons combine_sum_sound combine_sum_wf by blast+
  from Cons.IH[OF this(2,1)] show ?case by (simp add: fe_add_def mod_add_left_eq add.assoc)
qed

lemma collect_summands_ok:
  assumes "wf_known F known" "list_all (\<lambda>c. canonical F (snd c)) cs"
  shows "\<exists>r. collect_summands F known cs = Some r \<and> (\<forall>rs. r = Some rs \<longrightarrow> list_all (wf_rc F) rs
      \<and> (\<forall>env. (\<forall>k. canonical F (env k)) \<longrightarrow> (\<forall>k rc. known k = Some rc \<longrightarrow> allows_value rc (env k)) \<longrightarrow>
        list_all2 (\<lambda>v r. wf_rc F r \<and> v \<in> rc_values F r) (map (\<lambda>c. fe_mul F (env (fst c)) (snd c)) cs) rs))"
  using assms(2)
proof (induction cs)
  case (Cons x cs)
  obtain i c where x: "x = (i, c)" by (cases x)
  show ?case
  proof (cases "known i")
    case (Some con)
    then have wf: "wf_rc F con" using assms(1) by (simp add: wf_known_def)
    obtain r where r: "multiple F con c = Some r" "wf_rc F r"
      "\<And>v. v \<in> rc_values F con \<Longrightarrow> fe_mul F v c \<in> rc_values F r"
      using multiple_ok[OF wf, of c] Cons.prems x by auto
    obtain rest where rest: "collect_summands F known cs = Some rest"
      "\<forall>rs. rest = Some rs \<longrightarrow> list_all (wf_rc F) rs
       \<and> (\<forall>env. (\<forall>k. canonical F (env k)) \<longrightarrow> (\<forall>k rc. known k = Some rc \<longrightarrow> allows_value rc (env k)) \<longrightarrow>
      list_all2 (\<lambda>v r. wf_rc F r \<and> v \<in> rc_values F r) (map (\<lambda>c. fe_mul F (env (fst c)) (snd c)) cs) rs)"
      using Cons by auto
    have "fe_mul F (env i) c \<in> rc_values F r"
      if "\<forall>k. canonical F (env k)" "\<forall>k rc. known k = Some rc \<longrightarrow> allows_value rc (env k)" for env
      using that Some by (intro r(3)) (simp add: rc_values_def)
    with r(1,2) rest Some show ?thesis by (auto simp: x)
  qed (simp add: x)
qed simp

lemma reduce_combine_sum:
  assumes "list_all2 (\<lambda>v r. wf_rc F r \<and> v \<in> rc_values F r) vs rs" "reduce (combine_sum F) rs = Some con"
  shows "sum_list vs mod modulus F \<in> rc_values F con"
  using assms
proof (cases vs rs rule: list.exhaust[case_product list.exhaust])
  case (Cons_Cons v vs' r rs')
  then show ?thesis using assms foldl_combine_sum[of r v vs' rs'] by simp
qed auto

lemma reduce_wf:
  assumes "list_all (wf_rc F) rs" "reduce (combine_sum F) rs = Some con"
  shows "wf_rc F con"
proof -
  have "wf_rc F r \<Longrightarrow> list_all (wf_rc F) rs \<Longrightarrow> wf_rc F (foldl (combine_sum F) r rs)" for r rs
    by (induction rs arbitrary: r) (simp_all add: combine_sum_wf)
  with assms show ?thesis by (cases rs) auto
qed

lemma coeff_sum_mul: "coeff_sum env cs mod modulus F = (\<Sum>c\<leftarrow>cs. fe_mul F (env (fst c)) (snd c)) mod modulus F"
proof (induction cs)
  case (Cons c cs)
  then show ?case by (simp add: fe_mul_def mod_simps mult.commute) (metis mod_add_right_eq)
qed simp

lemma coeff_sum_remove_key:
  assumes "distinct (map fst cs)" "(k, c) \<in> set cs"
  shows "coeff_sum env cs = c * env k + coeff_sum env (filter (\<lambda>(i, c). i \<noteq> k) cs)"
  using assms
proof (induction cs)
  case (Cons x cs)
  have "filter (\<lambda>(i, c). i \<noteq> k) cs = cs" if "k \<notin> fst ` set cs"
    using that by (intro filter_True) force
  with Cons show ?case by (cases x) (auto simp: rev_image_eqI)
qed simp

lemma transfer_ok:
  assumes "aff_ok F e" "wf_known F known"
  obtains t where "try_transfer_constraints F known e = Some t" "transfer_sound F (solutions F known e) t"
proof (cases "try_transfer_constraints F known e = Some None")
  case True
  then show thesis using that by (simp add: transfer_sound_def)
next
  case False
  let ?cs = "nonzero_coefficients e"
  obtain k c where kc: "max_by_key (\<lambda>(i, c). case known i of Some rc \<Rightarrow> range_width F rc | None \<Rightarrow> modulus F)
         (filter (\<lambda>(i, c). c = fe_neg F 1 \<or> c = 1) ?cs) = Some (k, c)"
    using False by (auto simp: try_transfer_constraints_def split: option.splits prod.splits)
  then have k: "(k, c) \<in> set ?cs" "c = fe_neg F 1 \<or> c = 1" using max_by_key_in by fastforce+
  let ?others = "filter (\<lambda>(i, c). i \<noteq> k) ?cs"
  have can: "list_all (\<lambda>c. canonical F (snd c)) ?others" using assms(1) by (auto simp: aff_ok_def list_all_iff)
  obtain ss where ss: "collect_summands F known ?others = Some ss"
    "\<forall>rs. ss = Some rs \<longrightarrow> list_all (wf_rc F) rs
      \<and> (\<forall>env. (\<forall>k. canonical F (env k)) \<longrightarrow> (\<forall>k rc. known k = Some rc \<longrightarrow> allows_value rc (env k)) \<longrightarrow>
        list_all2 (\<lambda>v r. wf_rc F r \<and> v \<in> rc_values F r) (map (\<lambda>c. fe_mul F (env (fst c)) (snd c)) ?others) rs)"
    using collect_summands_ok[OF assms(2) can] by blast
  let ?off = "if aff_offset e \<noteq> 0 then [from_value (aff_offset e)] else []"
  obtain rs con where rs: "ss = Some rs" "reduce (combine_sum F) (rs @ ?off) = Some con"
    using False kc ss(1) by (cases ss; cases "reduce (combine_sum F) (the ss @ ?off)")
      (auto simp: try_transfer_constraints_def)
  have offc: "canonical F (aff_offset e)" using assms(1) by (simp add: aff_ok_def)
  have wfc: "wf_rc F con"
    using reduce_wf[OF _ rs(2)] ss(2) rs(1) offc by (auto simp: from_value_wf split: if_splits)
  have sum: "(coeff_sum env ?others + aff_offset e) mod modulus F \<in> rc_values F con"
    if "env \<in> solutions F known e" for env
  proof -
    have "list_all2 (\<lambda>v r. wf_rc F r \<and> v \<in> rc_values F r) (map (\<lambda>c. fe_mul F (env (fst c)) (snd c)) ?others) rs"
      using ss(2) rs(1) that by (simp add: solutions_def)
    then have "list_all2 (\<lambda>v r. wf_rc F r \<and> v \<in> rc_values F r)
       (map (\<lambda>c. fe_mul F (env (fst c)) (snd c)) ?others @ (if aff_offset e \<noteq> 0 then [aff_offset e] else [])) (rs @ ?off)"
      using offc by (intro list_all2_appendI) (auto simp: from_value_wf from_value_values)
    note red = reduce_combine_sum[OF this rs(2)]
    have "(coeff_sum env ?others + aff_offset e) mod modulus F
        = ((\<Sum>c\<leftarrow>?others. fe_mul F (env (fst c)) (snd c)) + aff_offset e) mod modulus F"
      using coeff_sum_mul[of env ?others] by (rule mod_add_cong) simp
    also have "\<dots> = sum_list (map (\<lambda>c. fe_mul F (env (fst c)) (snd c)) ?others
        @ (if aff_offset e \<noteq> 0 then [aff_offset e] else [])) mod modulus F" by simp
    finally show ?thesis using red by (simp only:)
  qed
  have neq: "fe_neg F 1 \<noteq> 1" using modulus_gt_2 canonical_1 by (simp add: fe_neg_eq)
  obtain nc where nc: "rc_neg F con = Some nc" "wf_rc F nc"
    "\<And>v. v \<in> rc_values F con \<Longrightarrow> fe_neg F v \<in> rc_values F nc"
    using rc_neg_ok[OF wfc] by blast
  obtain con' where con': "(if c = 1 then rc_neg F con else Some con) = Some con'" "wf_rc F con'"
    "\<And>v. v \<in> rc_values F con \<Longrightarrow> (if c = 1 then fe_neg F v else v) \<in> rc_values F con'"
    using nc wfc by (cases "c = 1") auto
  have sound: "env k \<in> rc_values F con'" if sol: "env \<in> solutions F known e" for env
  proof -
    let ?s = "coeff_sum env ?others + aff_offset e"
    have ck: "canonical F (env k)" using sol by (simp add: solutions_def)
    have "distinct (map fst ?cs)"
      using assms(1) strict_sorted_iff[of "map fst ?cs"] by (simp add: aff_ok_def is_proper_coefficients_def)
    from coeff_sum_remove_key[OF this k(1), of env]
    have z: "(c * env k + ?s) mod modulus F = 0" using sol by (simp add: solutions_def aff_eval_def add.assoc)
    have "env k = (if c = 1 then fe_neg F (?s mod modulus F) else ?s mod modulus F)"
    proof (cases "c = 1")
      case True
      with mod_eqI_neg[of "env k" ?s] z ck show ?thesis by (simp add: fe_neg_def mod_minus_eq canonical_mod)
    next
      case False
      with k(2) have "(- env k + ?s) mod modulus F = 0"
        using z by (metis fe_neg_def mod_add_left_eq mod_mult_left_eq mult_minus1)
      with False mod_eqI_neg[of ?s "- env k"] ck show ?thesis by (simp add: add.commute canonical_mod)
    qed
    with con'(3)[OF sum[OF sol]] show ?thesis by presburger
  qed
  have ret: "try_transfer_constraints F known e = (case known k of
       None \<Rightarrow> Some (Some (k, con'))
     | Some previous \<Rightarrow> do { c \<leftarrow> conjunction F previous con'; Some (if c = previous then None else Some (k, con')) })"
    using kc ss(1) rs con'(1) by (simp add: try_transfer_constraints_def)
  show thesis
  proof (cases "known k")
    case None
    with ret con'(2) sound show thesis by (intro that[of "Some (k, con')"]) (auto simp: transfer_sound_def)
  next
    case (Some prev)
    then have "wf_rc F prev" using assms(2) by (simp add: wf_known_def)
    then obtain cj where "conjunction F prev con' = Some cj" using conjunction_ok[OF _ con'(2)] by metis
    with Some ret con'(2) sound show thesis
      by (intro that[of "if cj = prev then None else Some (k, con')"]) (auto simp: transfer_sound_def)
  qed
qed

lemma transferred_ok:
  assumes "transfer_sound F sols t1" "transfer_sound F sols t2"
  obtains cs where "transferred F t1 t2 = Some cs"
    "\<And>k con env. (k, con) \<in> set cs \<Longrightarrow> env \<in> sols \<Longrightarrow> env k \<in> rc_values F con"
proof (cases "\<exists>k c1 c2. t1 = Some (k, c1) \<and> t2 = Some (k, c2)")
  case True
  then obtain k c1 c2 where t: "t1 = Some (k, c1)" "t2 = Some (k, c2)" by blast
  then have "wf_rc F c1" "wf_rc F c2" using assms by (auto simp: transfer_sound_def)
  from conjunction_ok[OF this] obtain r where r: "conjunction F c1 c2 = Some r"
    "\<And>v. v \<in> rc_values F c1 \<Longrightarrow> v \<in> rc_values F c2 \<Longrightarrow> v \<in> rc_values F r" by metis
  with t assms show thesis by (intro that[of "[(k, r)]"]) (auto simp: transferred_def transfer_sound_def)
next
  case False
  then have "transferred F t1 t2
      = Some ((case t1 of Some x \<Rightarrow> [x] | None \<Rightarrow> []) @ (case t2 of Some x \<Rightarrow> [x] | None \<Rightarrow> []))"
    by (auto simp: transferred_def split: option.splits)
  then show thesis
    by (rule that) (use assms in \<open>auto simp: transfer_sound_def split: option.splits\<close>)
qed

text \<open>The whole solver.\<close>

lemma solutions_neg: "solutions F known (aff_neg F e) = solutions F known e"
proof -
  have "fe_neg F (aff_eval F env e) = 0 \<longleftrightarrow> aff_eval F env e = 0" for env
    using fe_neg_eq_0_iff[of "aff_eval F env e"] by (simp add: aff_eval_def mod_canonical)
  then show ?thesis by (simp add: solutions_def aff_neg_eval)
qed

lemma fst_neg_coefficients: "map fst (nonzero_coefficients (aff_neg F e)) = map fst (nonzero_coefficients e)"
  by (simp add: aff_neg_coefficients case_prod_beta)

lemma solve_by_masks_ok:
  assumes "aff_ok F e" "wf_known F known"
  obtains r where "solve_by_masks F known e = Some r" "solved e r"
    "(\<And>k rc. known k = Some rc \<Longrightarrow> rc_min rc = 0) \<Longrightarrow> result_sound F (solutions F known e) r"
proof -
  note result = that
  have keys: "fst ` set xs = fst ` set ys" if "map fst xs = map fst ys" for xs :: "('a \<times> 'b) list" and ys :: "('a \<times> 'c) list"
    using arg_cong[OF that, of set] by simp
  obtain r1 where r1: "try_solve_through_constraints F known e = Some r1"
    "(\<And>k rc. known k = Some rc \<Longrightarrow> rc_min rc = 0) \<Longrightarrow> result_sound F (solutions F known e) r1"
    "\<And>v. r1 = Inr v \<Longrightarrow> is_complete v \<and> map fst (constraints v) = map fst (nonzero_coefficients e)
       \<or> \<not> is_complete v \<and> constraints v = []"
    using try_solve_through_constraints_ok[OF assms] by metis
  obtain r2 where r2: "try_solve_through_constraints F known (aff_neg F e) = Some r2"
    "(\<And>k rc. known k = Some rc \<Longrightarrow> rc_min rc = 0) \<Longrightarrow> result_sound F (solutions F known e) r2"
    "\<And>v. r2 = Inr v \<Longrightarrow> is_complete v \<and> map fst (constraints v) = map fst (nonzero_coefficients e)
       \<or> \<not> is_complete v \<and> constraints v = []"
    using try_solve_through_constraints_ok[OF aff_neg_ok[OF assms(1)] assms(2)]
    unfolding solutions_neg fst_neg_coefficients by metis
  obtain t1 where t1: "try_transfer_constraints F known e = Some t1" "transfer_sound F (solutions F known e) t1"
    using transfer_ok[OF assms] .
  obtain t2 where t2: "try_transfer_constraints F known (aff_neg F e) = Some t2" "transfer_sound F (solutions F known e) t2"
    using transfer_ok[OF aff_neg_ok[OF assms(1)] assms(2)] unfolding solutions_neg .
  obtain cs where cs: "transferred F t1 t2 = Some cs"
    "\<And>k con env. (k, con) \<in> set cs \<Longrightarrow> env \<in> solutions F known e \<Longrightarrow> env k \<in> rc_values F con"
    using transferred_ok[OF t1(2) t2(2)] by metis
  let ?cs = "map (\<lambda>(p, con). (p, RangeConstraint con)) cs"
  let ?t = "if ?cs = [] then incomplete NoProgressTransferring else incomplete_with_constraints ?cs NotConcrete"
  have t: "result_sound F (solutions F known e) (Inr ?t)" "solved e (Inr ?t)"
    using cs(2) by (auto simp: result_sound_def solved_def satisfies_all_def list_all_iff)
  have s: "solved e r1" "solved e r2"
    unfolding solved_def using r1(3) r2(3) by (metis keys)+
  consider err where "r1 = Inl err" | v where "r1 = Inr v" "\<not> value_is_empty v"
    | v err where "r1 = Inr v" "value_is_empty v" "r2 = Inl err"
    | v w where "r1 = Inr v" "value_is_empty v" "r2 = Inr w" "\<not> value_is_empty w"
    | v w where "r1 = Inr v" "value_is_empty v" "r2 = Inr w" "value_is_empty w"
    by (cases r1; cases r2) auto
  then show thesis
  proof cases
    case 1
    with r1 s show thesis by (intro result[of r1]) (simp_all add: solve_by_masks_def Let_def)
  next
    case 2
    with r1 s show thesis by (intro result[of r1]) (simp_all add: solve_by_masks_def Let_def)
  next
    case 3
    with r1 r2 s show thesis by (intro result[of r2]) (simp_all add: solve_by_masks_def Let_def)
  next
    case 4
    with r1 r2 s show thesis by (intro result[of r2]) (simp_all add: solve_by_masks_def Let_def)
  next
    case 5
    with r1 r2 t1 t2 cs(1) t show thesis by (intro result[of "Inr ?t"]) (simp_all add: solve_by_masks_def Let_def)
  qed
qed


lemma solve_with_range_constraints_ok:
  assumes "aff_ok F e" "wf_known F known"
  shows "\<exists>r. solve_with_range_constraints F known e = Some r \<and> solved e r \<and>
    ((\<forall>k rc. known k = Some rc \<longrightarrow> rc_min rc = 0) \<longrightarrow> result_sound F (solutions F known e) r)"
proof -
  let ?ok = "\<lambda>r. solved e r \<and> ((\<forall>k rc. known k = Some rc \<longrightarrow> rc_min rc = 0) \<longrightarrow> result_sound F (solutions F known e) r)"
  obtain m where m: "solve_by_masks F known e = Some m" "?ok m"
    by (rule solve_by_masks_ok[OF assms]) blast
  have div: "\<exists>d. try_solve_division F known e' = Some d \<and> (\<forall>r. d = Some r \<longrightarrow> ?ok r)"
    if "e' = e \<or> e' = aff_neg F e" for e'
  proof -
    have e': "aff_ok F e'" "solutions F known e' = solutions F known e"
      "map fst (nonzero_coefficients e') = map fst (nonzero_coefficients e)"
      using that assms(1) aff_neg_ok solutions_neg fst_neg_coefficients by auto
    then have keys: "fst ` set (nonzero_coefficients e') = fst ` set (nonzero_coefficients e)"
      by (metis set_map)
    show ?thesis
    proof (rule try_solve_division_ok[OF e'(1) assms(2)])
      fix d assume d: "try_solve_division F known e' = Some d"
        "\<And>r. d = Some r \<Longrightarrow> result_sound F (solutions F known e') r"
        "\<And>v. d = Some (Inr v) \<Longrightarrow>
           is_complete v \<and> set (map fst (constraints v)) = fst ` set (nonzero_coefficients e')"
      have "?ok r" if r: "d = Some r" for r
      proof
        show "solved e r" unfolding solved_def using d(3) r keys by force
        show "(\<forall>k rc. known k = Some rc \<longrightarrow> rc_min rc = 0) \<longrightarrow> result_sound F (solutions F known e) r"
          using d(2)[OF r] e'(2) by simp
      qed
      with d(1) show ?thesis by blast
    qed
  qed
  obtain d1 d2 where d: "try_solve_division F known e = Some d1" "\<forall>r. d1 = Some r \<longrightarrow> ?ok r"
    "try_solve_division F known (aff_neg F e) = Some d2" "\<forall>r. d2 = Some r \<longrightarrow> ?ok r"
    using div[OF disjI1[OF refl]] div[OF disjI2[OF refl]] by (elim exE conjE) (rule that)
  show ?thesis
  proof (rule solve_ok[OF assms(1)])
  fix r0 assume r0: "solve F e = Some r0"
    "\<And>err env. r0 = Inl err \<Longrightarrow> aff_eval F env e \<noteq> 0"
    "\<And>v env. r0 = Inr v \<Longrightarrow> is_complete v \<Longrightarrow> (\<And>k. canonical F (env k)) \<Longrightarrow>
       aff_eval F env e = 0 \<longleftrightarrow> satisfies_all F env (constraints v)"
    "\<And>v. r0 = Inr v \<Longrightarrow> \<not> is_complete v \<Longrightarrow> constraints v = []"
    "\<And>v. r0 = Inr v \<Longrightarrow> is_complete v \<Longrightarrow> map fst (constraints v) = map fst (nonzero_coefficients e)"
  show ?thesis
  proof (cases r0)
    case (Inl err)
    with r0(1,2) show ?thesis
      by (auto simp: solve_with_range_constraints_def result_sound_def solutions_def solved_def)
  next
    case (Inr v)
    show ?thesis
    proof (cases "is_complete v")
      case True
      have "solved e (Inr v)" using r0(5)[OF Inr True] by (auto simp: solved_def) (metis fst_conv image_eqI set_map)+
      moreover have "result_sound F (solutions F known e) (Inr v)"
        using r0(3)[OF Inr True] by (auto simp: result_sound_def solutions_def)
      ultimately show ?thesis using r0(1) Inr True by (simp add: solve_with_range_constraints_def)
    next
      case False
      let ?d2 = "case d2 of None \<Rightarrow> m | Some (Inl err) \<Rightarrow> Inl err
        | Some (Inr result) \<Rightarrow> if \<not> value_is_empty result then Inr result else m"
      let ?d1 = "case d1 of None \<Rightarrow> ?d2 | Some (Inl err) \<Rightarrow> Inl err
        | Some (Inr result) \<Rightarrow> if \<not> value_is_empty result then Inr result else ?d2"
      have "solve_with_range_constraints F known e = Some ?d1"
        using r0(1) Inr False r0(4)[OF Inr False] d(1,3) m(1)
        by (auto simp: solve_with_range_constraints_def Let_def split: option.splits sum.splits)
      moreover have "?ok ?d2" using d(4) m(2) by (auto split: option.split sum.split)
      then have "?ok ?d1" using d(2) by (auto split: option.split sum.split)
      ultimately show ?thesis by blast
    qed
  qed
qed
qed

end

section \<open>The theorems about affine expressions\<close>

text \<open>Addition, subtraction, negation and multiplication by a field element keep the
  representation invariant of affine expressions and are, under every assignment of the
  variables, the operations of the field on the values of the operands.\<close>

theorem affine_arithmetic:
  assumes "field_element F" "aff_ok F a" "aff_ok F b" "canonical F f"
  shows "aff_ok F (aff_add F a b) \<and> aff_ok F (aff_sub F a b) \<and> aff_ok F (aff_neg F a) \<and> aff_ok F (aff_mul F a f)
     \<and> aff_eval F env (aff_add F a b) = fe_add F (aff_eval F env a) (aff_eval F env b)
     \<and> aff_eval F env (aff_sub F a b) = fe_sub F (aff_eval F env a) (aff_eval F env b)
     \<and> aff_eval F env (aff_neg F a) = fe_neg F (aff_eval F env a)
     \<and> aff_eval F env (aff_mul F a f) = fe_mul F (aff_eval F env a) f"
proof -
  have "fe_add F x (fe_neg F y) = fe_sub F x y" for x y
    by (simp add: fe_add_def fe_neg_def fe_sub_def mod_add_right_eq)
  then show ?thesis
    using assms field_element.aff_add_ok[OF assms(1)] field_element.aff_add_eval[OF assms(1)]
      field_element.aff_neg_ok[OF assms(1)] field_element.aff_neg_eval[OF assms(1)]
      field_element.aff_mul_ok[OF assms(1)] field_element.aff_mul_eval[OF assms(1)]
    unfolding aff_sub_def by metis
qed

theorem affine_arithmetic_witness:
  "aff_eval goldilocks_field (\<lambda>k. k + 2) (aff_sub goldilocks_field (ManyVars [(1, 3), (4, 5)] 7) (OneVar (4, 5) 9))
     = fe_sub goldilocks_field (aff_eval goldilocks_field (\<lambda>k. k + 2) (ManyVars [(1, 3), (4, 5)] 7))
         (aff_eval goldilocks_field (\<lambda>k. k + 2) (OneVar (4, 5) 9))"
proof -
  have "aff_ok goldilocks_field (ManyVars [(1 :: int, 3), (4, 5)] 7)"
    "aff_ok goldilocks_field (OneVar (4 :: int, 5) 9)" "canonical goldilocks_field 2" by code_simp+
  then show ?thesis using affine_arithmetic[OF gl.field_element_axioms] by blast
qed

text \<open>Assigning a value to a variable keeps the invariant, removes the variable from the
  expression, and evaluates as the expression does where the variable has that value.\<close>

theorem affine_assign:
  assumes "field_element F" "aff_ok F e"
  shows "aff_ok F (assign F e k v) \<and> k \<notin> fst ` set (nonzero_coefficients (assign F e k v))
     \<and> aff_eval F env (assign F e k v) = aff_eval F (env(k := v)) e"
  using field_element.assign_ok[OF assms] by blast

theorem affine_assign_witness:
  "aff_eval goldilocks_field (\<lambda>k. k) (assign goldilocks_field (ManyVars [(1, 3), (4, 5)] 7) 4 100)
     = aff_eval goldilocks_field ((\<lambda>k. k)(4 := 100)) (ManyVars [(1 :: int, 3), (4, 5)] 7)"
proof -
  have "aff_ok goldilocks_field (ManyVars [(1 :: int, 3), (4, 5)] 7)" by code_simp
  then show ?thesis using affine_assign[OF gl.field_element_axioms] by blast
qed

text \<open>C8: Solving an affine equation directly never panics; an error is reported only if no
  assignment solves it, and a complete result assigns the variables such that exactly the
  assignments that agree with it solve the equation.\<close>

theorem affine_solve_exact:
  assumes "field_element F" "aff_ok F e"
  shows "\<exists>r. solve F e = Some r
     \<and> (\<forall>err env. r = Inl err \<longrightarrow> aff_eval F env e \<noteq> 0)
     \<and> (\<forall>v env. r = Inr v \<longrightarrow> is_complete v \<longrightarrow> (\<forall>k. canonical F (env k)) \<longrightarrow>
          aff_eval F env e = 0 \<longleftrightarrow> satisfies_all F env (constraints v))"
proof (rule field_element.solve_ok[OF assms])
  fix r assume "solve F e = Some r" "\<And>err env. r = Inl err \<Longrightarrow> aff_eval F env e \<noteq> 0"
    "\<And>v env. r = Inr v \<Longrightarrow> is_complete v \<Longrightarrow> (\<And>k. canonical F (env k)) \<Longrightarrow>
       (aff_eval F env e = 0) = satisfies_all F env (constraints v)"
  then show ?thesis by blast
qed

theorem affine_solve_exact_witness:
  "\<exists>r. solve goldilocks_field (OneVar (0 :: nat, 3) 5) = Some r
     \<and> (\<forall>err env. r = Inl err \<longrightarrow> aff_eval goldilocks_field env (OneVar (0 :: nat, 3) 5) \<noteq> 0)
     \<and> (\<forall>v env. r = Inr v \<longrightarrow> is_complete v \<longrightarrow> (\<forall>k. canonical goldilocks_field (env k)) \<longrightarrow>
          aff_eval goldilocks_field env (OneVar (0 :: nat, 3) 5) = 0 \<longleftrightarrow> satisfies_all goldilocks_field env (constraints v))"
  by (rule affine_solve_exact[OF gl.field_element_axioms]) code_simp

text \<open>C7: Solving an affine equation with known range constraints never panics, and a complete
  result constrains exactly the variables of the equation. If every known constraint starts at
  zero, an error is reported only if the equation has no solution within the constraints, and
  every solution agrees with all assignments and range constraints of the result.\<close>

theorem affine_solver_sound:
  assumes "field_element F" "aff_ok F e" "wf_known F known"
  shows "\<exists>r. solve_with_range_constraints F known e = Some r
     \<and> (\<forall>v. r = Inr v \<longrightarrow> is_complete v \<longrightarrow> fst ` set (constraints v) = fst ` set (nonzero_coefficients e))
     \<and> ((\<forall>k rc. known k = Some rc \<longrightarrow> rc_min rc = 0) \<longrightarrow> result_sound F (solutions F known e) r)"
  using field_element.solve_with_range_constraints_ok[OF assms] by (simp add: solved_def)

theorem affine_solver_sound_witness:
  "let F = goldilocks_field; e = ManyVars [(0 :: nat, 1), (1, 256)] (fe_neg F 0x1234);
       known = (\<lambda>k. Some (from_mask F 0xff)) in
   solve_with_range_constraints F known e = Some (Inr (complete [(1, Assignment 0x12), (0, Assignment 0x34)]))
   \<and> result_sound F (solutions F known e) (Inr (complete [(1, Assignment 0x12), (0, Assignment 0x34)]))"
proof -
  let ?F = goldilocks_field
  let ?e = "ManyVars [(0 :: nat, 1), (1, 256)] (fe_neg ?F 0x1234)"
  let ?k = "\<lambda>k :: nat. Some (from_mask ?F 0xff)"
  have r: "solve_with_range_constraints ?F ?k ?e = Some (Inr (complete [(1, Assignment 0x12), (0, Assignment 0x34)]))"
    by code_simp
  have wf: "wf_rc ?F (from_mask ?F 0xff)" by code_simp
  have min: "rc_min (from_mask ?F 0xff) = 0" by code_simp
  have "aff_ok ?F ?e" by code_simp
  moreover have "wf_known ?F ?k" using wf by (simp add: wf_known_def)
  ultimately show ?thesis
    using affine_solver_sound[OF gl.field_element_axioms, of ?e ?k] r min by auto
qed

text \<open>The range constraint that \<open>try_transfer_constraints\<close> derives for a variable is well
  formed and allows its value in every solution of the equation within the known constraints,
  for constraints of any shape; the step never panics.\<close>

theorem affine_transfer_sound:
  assumes "field_element F" "aff_ok F e" "wf_known F known"
  shows "\<exists>t. try_transfer_constraints F known e = Some t \<and> transfer_sound F (solutions F known e) t"
  using field_element.transfer_ok[OF assms] by blast

theorem affine_transfer_sound_witness:
  "let F = goldilocks_field; e = ManyVars [(0 :: nat, fe_neg F 1), (1, 4)] 3;
       known = (\<lambda>k. if k = 1 then Some (from_mask F 0xff) else None) in
   try_transfer_constraints F known e = Some (Some (0, \<lparr>rc_mask = 0x3ff, rc_min = 3, rc_max = 0x3ff\<rparr>))
   \<and> (\<forall>env. env \<in> solutions F known e \<longrightarrow> env 0 \<in> rc_values F \<lparr>rc_mask = 0x3ff, rc_min = 3, rc_max = 0x3ff\<rparr>)"
proof -
  let ?F = goldilocks_field
  let ?e = "ManyVars [(0 :: nat, fe_neg ?F 1), (1, 4)] 3"
  let ?k = "\<lambda>k :: nat. if k = 1 then Some (from_mask ?F 0xff) else None"
  have "wf_rc ?F (from_mask ?F 0xff)" by code_simp
  then have "wf_known ?F ?k" by (simp add: wf_known_def)
  moreover have "aff_ok ?F ?e" by code_simp
  moreover have "try_transfer_constraints ?F ?k ?e = Some (Some (0, \<lparr>rc_mask = 0x3ff, rc_min = 3, rc_max = 0x3ff\<rparr>))"
    by code_simp
  ultimately show ?thesis
    using affine_transfer_sound[OF gl.field_element_axioms, of ?e ?k] by (simp add: transfer_sound_def)
qed

text \<open>C9: Without the condition that the constraints start at zero the bit decomposition is not
  sound, because a product may wrap around the modulus while its mask is small: for
  \<open>- x + 8 y - 3 = 0\<close> with \<open>x\<close> in \<open>{-5, ..., -1}\<close> and a bit \<open>y\<close>, the solver
  reports the complete solution \<open>x = 0\<close>, \<open>y = 0\<close>, which neither solves the equation nor
  meets the constraints, although \<open>x = -3\<close>, \<open>y = 0\<close> does.\<close>

theorem affine_solver_wraps:
  "let F = goldilocks_field; e = ManyVars [(0 :: nat, fe_neg F 1), (1, 8)] (fe_neg F 3);
       x = \<lparr>rc_mask = int_not F 0, rc_min = fe_neg F 5, rc_max = fe_neg F 1\<rparr>;
       known = (\<lambda>k. if k = 0 then Some x else Some (from_mask F 1));
       env = (\<lambda>k. if k = 0 then fe_neg F 3 else 0) in
   solve_with_range_constraints F known e = Some (Inr (complete [(0, Assignment 0), (1, Assignment 0)]))
   \<and> aff_ok F e \<and> wf_known F known \<and> env \<in> solutions F known e
   \<and> \<not> satisfies_all F env [(0, Assignment 0), (1, Assignment 0)]
   \<and> aff_eval F (\<lambda>k. 0) e \<noteq> 0 \<and> \<not> allows_value x 0"
proof -
  let ?F = goldilocks_field
  let ?e = "ManyVars [(0 :: nat, fe_neg ?F 1), (1, 8)] (fe_neg ?F 3)"
  let ?x = "\<lparr>rc_mask = int_not ?F 0, rc_min = fe_neg ?F 5, rc_max = fe_neg ?F 1\<rparr>"
  let ?k = "\<lambda>k :: nat. if k = 0 then Some ?x else Some (from_mask ?F 1)"
  let ?env = "\<lambda>k :: nat. if k = 0 then fe_neg ?F 3 else 0"
  have "solve_with_range_constraints ?F ?k ?e = Some (Inr (complete [(0, Assignment 0), (1, Assignment 0)]))"
    by code_simp
  moreover have "wf_rc ?F ?x" "wf_rc ?F (from_mask ?F 1)" by code_simp+
  then have "wf_known ?F ?k" by (simp add: wf_known_def)
  moreover have "canonical ?F (fe_neg ?F 3)" "canonical ?F 0" "allows_value ?x (fe_neg ?F 3)"
    "allows_value (from_mask ?F 1) 0" by code_simp+
  moreover have "aff_eval ?F ?env ?e = 0" "aff_ok ?F ?e" "fe_neg ?F 3 \<noteq> 0" by code_simp+
  moreover have "aff_eval ?F (\<lambda>k. 0) ?e \<noteq> 0" "\<not> allows_value ?x 0" by code_simp+
  ultimately show ?thesis by (simp add: solutions_def)
qed

end
