(* ===== verification/Affine_Symbolic.thy ===== *)
theory Affine_Symbolic
  imports Effects Btree_Map Affine_Expression
begin

text \<open>
  Affine expressions in the unknown variables whose coefficients are symbolic expressions,
  \<open>executor/src/witgen/jit/affine_symbolic_expression.rs\<close>, and the solver that turns an
  equation into effects.
\<close>

section \<open>Expressions\<close>

record 'v process_result =
  effects :: "'v effect list"
  is_complete_result :: bool

definition result_empty :: "'v process_result" where
  "result_empty = \<lparr>effects = [], is_complete_result = False\<rparr>"

definition result_complete :: "'v effect list \<Rightarrow> 'v process_result" where
  "result_complete es = \<lparr>effects = es, is_complete_result = True\<rparr>"

datatype solve_error = ConflictingRanges | Unsatisfiable

record 'v affine_symbolic =
  coefficients :: "('v, 'v symbolic_expression) btree_map"
  offset :: "'v symbolic_expression"
  range_constraints :: "('v, range_constraint) btree_map"

definition ase_from :: "'v symbolic_expression \<Rightarrow> 'v affine_symbolic" where
  "ase_from k = \<lparr>coefficients = [], offset = k, range_constraints = []\<rparr>"

definition from_known_symbol :: "'v \<Rightarrow> range_constraint \<Rightarrow> 'v affine_symbolic" where
  "from_known_symbol s rc = ase_from (from_symbol s rc)"

definition from_unknown_variable :: "field_desc \<Rightarrow> 'v \<Rightarrow> range_constraint \<Rightarrow> 'v affine_symbolic" where
  "from_unknown_variable F v rc =
     \<lparr>coefficients = [(v, Concrete (fe_from F 1))], offset = Concrete (fe_from F 0), range_constraints = [(v, rc)]\<rparr>"

definition try_to_known :: "'v affine_symbolic \<Rightarrow> 'v symbolic_expression option" where
  "try_to_known a = (if coefficients a = [] then Some (offset a) else None)"

definition single_unknown_variable :: "'v affine_symbolic \<Rightarrow> 'v option" where
  "single_unknown_variable a = (case coefficients a of [(v, c)] \<Rightarrow> Some v | _ \<Rightarrow> None)"

text \<open>The multiples of the constraints of the variables; \<open>None\<close> inside the panic option when a
  coefficient is not a number or a variable has no constraint.\<close>

fun multiples ::
    "field_desc \<Rightarrow> ('v, range_constraint) btree_map \<Rightarrow> ('v \<times> 'v symbolic_expression) list \<Rightarrow>
     range_constraint list option option" where
  "multiples F rcs [] = Some (Some [])"
| "multiples F rcs ((v, c) # cs) =
     (case try_to_number c of None \<Rightarrow> Some None | Some n \<Rightarrow>
       (case bt_get rcs v of None \<Rightarrow> Some None | Some rc \<Rightarrow> do {
          r \<leftarrow> multiple F rc n;
          rest \<leftarrow> multiples F rcs cs;
          Some (map_option ((#) r) rest)
        }))"

definition ase_range_constraint :: "field_desc \<Rightarrow> 'v affine_symbolic \<Rightarrow> range_constraint option" where
  "ase_range_constraint F a = do {
     ms \<leftarrow> multiples F (range_constraints a) (coefficients a);
     Some (case ms of
         None \<Rightarrow> unconstrained F
       | Some rs \<Rightarrow>
           (case reduce (combine_sum F) (rs @ [sym_range_constraint (offset a)]) of
              None \<Rightarrow> unconstrained F | Some rc \<Rightarrow> rc))
   }"

section \<open>Arithmetic\<close>

text \<open>The loop of the addition over the coefficients of the right operand.\<close>

fun add_coefficients ::
    "field_desc \<Rightarrow> ('v::linorder, range_constraint) btree_map \<Rightarrow> ('v \<times> 'v symbolic_expression) list \<Rightarrow>
     ('v, 'v symbolic_expression) btree_map \<Rightarrow> ('v, range_constraint) btree_map \<Rightarrow>
     (('v, 'v symbolic_expression) btree_map \<times> ('v, range_constraint) btree_map) option" where
  "add_coefficients F rhs_rcs [] cs rcs = Some (cs, rcs)"
| "add_coefficients F rhs_rcs ((v, c) # rest) cs rcs = do {
     let cs = bt_insert v (case bt_get cs v of Some f \<Rightarrow> sym_add F f c | None \<Rightarrow> c) cs;
     rcs \<leftarrow> (case bt_get rhs_rcs v of
         None \<Rightarrow> Some rcs
       | Some range_right \<Rightarrow> do {
           rc \<leftarrow> (case bt_get rcs v of Some rc \<Rightarrow> conjunction F rc range_right | None \<Rightarrow> Some range_right);
           Some (bt_insert v rc rcs)
         });
     add_coefficients F rhs_rcs rest cs rcs
   }"

definition ase_add ::
    "field_desc \<Rightarrow> 'v::linorder affine_symbolic \<Rightarrow> 'v affine_symbolic \<Rightarrow> 'v affine_symbolic option" where
  "ase_add F a b = do {
     (cs, rcs) \<leftarrow> add_coefficients F (range_constraints b) (coefficients b) (coefficients a) (range_constraints a);
     Some \<lparr>coefficients = filter (\<lambda>(v, f). \<not> is_known_zero f) cs,
           offset = sym_add F (offset a) (offset b), range_constraints = rcs\<rparr>
   }"

fun map_coefficients ::
    "('v symbolic_expression \<Rightarrow> 'v symbolic_expression option) \<Rightarrow> ('v \<times> 'v symbolic_expression) list \<Rightarrow>
     ('v \<times> 'v symbolic_expression) list option" where
  "map_coefficients f [] = Some []"
| "map_coefficients f ((v, c) # cs) = do {
     d \<leftarrow> f c;
     ds \<leftarrow> map_coefficients f cs;
     Some ((v, d) # ds)
   }"

definition ase_neg :: "field_desc \<Rightarrow> 'v affine_symbolic \<Rightarrow> 'v affine_symbolic option" where
  "ase_neg F a = do {
     cs \<leftarrow> map_coefficients (sym_neg F) (coefficients a);
     off \<leftarrow> sym_neg F (offset a);
     Some \<lparr>coefficients = cs, offset = off, range_constraints = range_constraints a\<rparr>
   }"

definition ase_sub ::
    "field_desc \<Rightarrow> 'v::linorder affine_symbolic \<Rightarrow> 'v affine_symbolic \<Rightarrow> 'v affine_symbolic option" where
  "ase_sub F a b = do { n \<leftarrow> ase_neg F b; ase_add F a n }"

definition ase_mul ::
    "field_desc \<Rightarrow> 'v affine_symbolic \<Rightarrow> 'v symbolic_expression \<Rightarrow> 'v affine_symbolic option" where
  "ase_mul F a k =
     (if is_known_zero k then Some (ase_from (Concrete 0))
      else do {
        cs \<leftarrow> map_coefficients (\<lambda>c. sym_mul F c k) (coefficients a);
        off \<leftarrow> sym_mul F (offset a) k;
        Some \<lparr>coefficients = cs, offset = off, range_constraints = range_constraints a\<rparr>
      })"

text \<open>\<open>None\<close> inside the panic option: the product is quadratic.\<close>

definition try_mul ::
    "field_desc \<Rightarrow> 'v affine_symbolic \<Rightarrow> 'v affine_symbolic \<Rightarrow> 'v affine_symbolic option option" where
  "try_mul F a b =
     (case try_to_known b of
        Some k \<Rightarrow> map_option Some (ase_mul F a k)
      | None \<Rightarrow>
          (case try_to_known a of
             Some k \<Rightarrow> map_option Some (ase_mul F b k)
           | None \<Rightarrow> Some None))"

section \<open>Solving\<close>

text \<open>The loop over the constrained coefficients of a bit decomposition.\<close>

fun constrained_coefficients ::
    "('v, range_constraint) btree_map \<Rightarrow> ('v \<times> 'v symbolic_expression) list \<Rightarrow>
     ('v \<times> int \<times> range_constraint) list option" where
  "constrained_coefficients rcs [] = Some []"
| "constrained_coefficients rcs ((v, c) # cs) = do {
     n \<leftarrow> try_to_number c;
     rc \<leftarrow> bt_get rcs v;
     rest \<leftarrow> constrained_coefficients rcs cs;
     Some ((v, n, rc) # rest)
   }"

fun decompose ::
    "field_desc \<Rightarrow> 'v symbolic_expression \<Rightarrow> int \<Rightarrow> ('v \<times> int \<times> range_constraint) list \<Rightarrow>
     ('v effect list \<times> int) option option" where
  "decompose F off covered [] = Some (Some ([], covered))"
| "decompose F off covered ((v, c, rc) # cs) = do {
     r \<leftarrow> multiple F rc c;
     let m = rc_mask r;
     if m AND covered \<noteq> 0 then Some None
     else do {
       neg \<leftarrow> sym_neg F off;
       value \<leftarrow> integer_div F (sym_bitand F neg m) (Concrete c);
       rest \<leftarrow> decompose F off (covered OR m) cs;
       Some (map_option (\<lambda>(es, cov). (Effect_Assignment v value # es, cov)) rest)
     }
   }"

definition solve_bit_decomposition ::
    "field_desc \<Rightarrow> 'v affine_symbolic \<Rightarrow> (solve_error + 'v process_result) option" where
  "solve_bit_decomposition F a =
     (case constrained_coefficients (range_constraints a) (coefficients a) of
        None \<Rightarrow> Some (Inr result_empty)
      | Some cs \<Rightarrow> do {
          d \<leftarrow> decompose F (offset a) 0 cs;
          (case d of
             None \<Rightarrow> Some (Inr result_empty)
           | Some (es, covered) \<Rightarrow>
               if covered \<ge> modulus F then Some (Inr result_empty)
               else (case try_to_number (offset a) of
                   Some off \<Rightarrow>
                     if fe_neg F off AND int_not F covered \<noteq> 0 then Some (Inl ConflictingRanges)
                     else Some (Inr (result_complete es))
                 | None \<Rightarrow> do {
                     neg \<leftarrow> sym_neg F (offset a);
                     Some (Inr (result_complete
                       (es @ [assert_eq (sym_bitand F neg (int_not F covered)) (Concrete (fe_from F 0))])))
                   }))
        })"

definition transfer_constraints :: "field_desc \<Rightarrow> 'v affine_symbolic \<Rightarrow> 'v effect option option" where
  "transfer_constraints F a =
     (case max_by_key (\<lambda>(v, c). case bt_get (range_constraints a) v of
           Some rc \<Rightarrow> range_width F rc | None \<Rightarrow> modulus F)
         (filter (\<lambda>(v, c). is_known_one c \<or> is_known_minus_one F c) (coefficients a)) of
        None \<Rightarrow> Some None
      | Some (solve_for, coeff) \<Rightarrow> do {
          ms \<leftarrow> multiples F (range_constraints a) (filter (\<lambda>(v, c). v \<noteq> solve_for) (coefficients a));
          (case ms of
             None \<Rightarrow> Some None
           | Some rs \<Rightarrow>
               (case reduce (combine_sum F) (rs @ [sym_range_constraint (offset a)]) of
                  None \<Rightarrow> Some None
                | Some con \<Rightarrow> do {
                    con \<leftarrow> (if is_known_one coeff then rc_neg F con else Some con);
                    Some (Some (Effect_RangeConstraint solve_for con))
                  }))
        })"

definition solve_many :: "field_desc \<Rightarrow> 'v affine_symbolic \<Rightarrow> (solve_error + 'v process_result) option" where
  "solve_many F a = do {
     r \<leftarrow> solve_bit_decomposition F a;
     (case r of Inl err \<Rightarrow> Some (Inl err) | Inr r \<Rightarrow>
       if is_complete_result r then Some (Inr r) else do {
         negated \<leftarrow> ase_neg F a;
         r \<leftarrow> solve_bit_decomposition F negated;
         (case r of Inl err \<Rightarrow> Some (Inl err) | Inr r \<Rightarrow>
           if is_complete_result r then Some (Inr r) else do {
             t1 \<leftarrow> transfer_constraints F a;
             t2 \<leftarrow> transfer_constraints F negated;
             Some (Inr \<lparr>effects = List.map_filter id [t1, t2], is_complete_result = False\<rparr>)
           })
       })
   }"

definition ase_solve :: "field_desc \<Rightarrow> 'v affine_symbolic \<Rightarrow> (solve_error + 'v process_result) option" where
  "ase_solve F a =
     (case coefficients a of
        [] \<Rightarrow> if is_known_nonzero (offset a) then Some (Inl Unsatisfiable) else Some (Inr (result_complete []))
      | [(v, coeff)] \<Rightarrow> do {
          rust_assert (\<not> is_known_zero coeff);
          if is_known_nonzero coeff then do {
            neg \<leftarrow> sym_neg F coeff;
            value \<leftarrow> field_div F (offset a) neg;
            Some (Inr (result_complete [Effect_Assignment v value]))
          }
          else if is_known_nonzero (offset a) then do {
            neg \<leftarrow> sym_neg F coeff;
            value \<leftarrow> field_div F (offset a) neg;
            Some (Inr (result_complete [assert_is_nonzero F coeff, Effect_Assignment v value]))
          }
          else Some (Inr result_empty)
        }
      | _ \<Rightarrow> solve_many F a)"


section \<open>Meaning\<close>

definition cs_eval :: "field_desc \<Rightarrow> ('v \<Rightarrow> int) \<Rightarrow> ('v \<times> 'v symbolic_expression) list \<Rightarrow> int" where
  "cs_eval F env cs = (\<Sum>(v, c)\<leftarrow>cs. the (sym_eval F env c) * env v)"

definition ase_eval :: "field_desc \<Rightarrow> ('v \<Rightarrow> int) \<Rightarrow> 'v affine_symbolic \<Rightarrow> int" where
  "ase_eval F env a = (cs_eval F env (coefficients a) + the (sym_eval F env (offset a))) mod modulus F"

text \<open>An expression whose evaluation does not divide by zero.\<close>

definition defined_ok :: "field_desc \<Rightarrow> ('v \<Rightarrow> int) \<Rightarrow> 'v symbolic_expression \<Rightarrow> bool" where
  "defined_ok F env e \<longleftrightarrow> sym_ok F env e \<and> (\<exists>x. sym_eval F env e = Some x)"

text \<open>
  The invariant under an assignment of all symbols and unknown variables: sorted maps, sound
  symbolic coefficients that are not the number zero, and range constraints that allow the
  variables.
\<close>

definition ase_ok :: "field_desc \<Rightarrow> ('v::linorder \<Rightarrow> int) \<Rightarrow> 'v affine_symbolic \<Rightarrow> bool" where
  "ase_ok F env a \<longleftrightarrow> bt_sorted (coefficients a) \<and> bt_sorted (range_constraints a)
     \<and> (\<forall>v. canonical F (env v))
     \<and> (\<forall>(v, c) \<in> set (coefficients a). defined_ok F env c \<and> c \<noteq> Concrete 0)
     \<and> defined_ok F env (offset a)
     \<and> (\<forall>(v, rc) \<in> set (range_constraints a). wf_rc F rc \<and> env v \<in> rc_values F rc)"

lemma ase_ok_coeff: "ase_ok F env a \<Longrightarrow> (v, c) \<in> set (coefficients a) \<Longrightarrow> defined_ok F env c \<and> c \<noteq> Concrete 0"
  by (auto simp: ase_ok_def)

lemma ase_ok_range:
  "ase_ok F env a \<Longrightarrow> bt_get (range_constraints a) v = Some rc \<Longrightarrow> wf_rc F rc \<and> env v \<in> rc_values F rc"
  by (auto simp: ase_ok_def bt_get_Some)

lemma cs_eval_simps [simp]:
  "cs_eval F env [] = 0"
  "cs_eval F env (c # cs) = the (sym_eval F env (snd c)) * env (fst c) + cs_eval F env cs"
  by (simp_all add: cs_eval_def case_prod_beta)

lemma cs_eval_filter: "cs_eval F env (filter (\<lambda>(v, f). f \<noteq> Concrete 0) cs) = cs_eval F env cs"
  by (induction cs) auto

lemma cs_eval_insert:
  "bt_sorted cs \<Longrightarrow> cs_eval F env (bt_insert v c cs)
     = cs_eval F env cs + (the (sym_eval F env c)
         - (case bt_get cs v of Some d \<Rightarrow> the (sym_eval F env d) | None \<Rightarrow> 0)) * env v"
proof (induction v c cs rule: bt_insert.induct)
  case (2 k v l w m)
  have "bt_get m k = None" if "k < l"
  proof -
    from that 2(2) have "k \<notin> fst ` set m" by (force simp: bt_sorted_def)
    then show ?thesis by (simp add: bt_get_def map_of_eq_None_iff)
  qed
  with 2 show ?case by (auto simp: bt_get_def bt_sorted_def algebra_simps)
qed (simp add: bt_get_def)

lemma bt_insert_set:
  "(k', v') \<in> set (bt_insert k v m) \<Longrightarrow> k' = k \<and> v' = v \<or> (k', v') \<in> set m"
  by (induction k v m rule: bt_insert.induct) (auto split: if_splits)

definition add_inv ::
    "field_desc \<Rightarrow> ('v::linorder \<Rightarrow> int) \<Rightarrow> ('v, 'v symbolic_expression) btree_map \<Rightarrow> ('v, range_constraint) btree_map \<Rightarrow> bool" where
  "add_inv F env cs rcs \<longleftrightarrow> bt_sorted cs \<and> bt_sorted rcs \<and> (\<forall>(v, c) \<in> set cs. defined_ok F env c)
     \<and> (\<forall>(v, rc) \<in> set rcs. wf_rc F rc \<and> env v \<in> rc_values F rc)"

definition entries_ok :: "field_desc \<Rightarrow> ('v \<Rightarrow> int) \<Rightarrow> ('v \<times> int \<times> range_constraint) list \<Rightarrow> bool" where
  "entries_ok F env cs \<longleftrightarrow> (\<forall>(v, c, rc) \<in> set cs. wf_rc F rc \<and> canonical F c \<and> c \<noteq> 0 \<and> env v \<in> rc_values F rc)"

context field_element
begin

lemma defined_value: "defined_ok F env e \<Longrightarrow> canonical F (the (sym_eval F env e))"
  by (auto simp: defined_ok_def dest: sym_value)

lemma defined_add:
  assumes "defined_ok F env a" "defined_ok F env b"
  shows "defined_ok F env (sym_add F a b)
     \<and> the (sym_eval F env (sym_add F a b)) = fe_add F (the (sym_eval F env a)) (the (sym_eval F env b))"
  using assms sym_add_ok[of env a b] by (auto simp: defined_ok_def)

lemma defined_neg:
  assumes "defined_ok F env a"
  shows "\<exists>n. sym_neg F a = Some n \<and> defined_ok F env n
     \<and> the (sym_eval F env n) = fe_neg F (the (sym_eval F env a)) \<and> (a \<noteq> Concrete 0 \<longrightarrow> n \<noteq> Concrete 0)"
proof -
  obtain n where n: "sym_neg F a = Some n" "defined_ok F env n"
    "the (sym_eval F env n) = fe_neg F (the (sym_eval F env a))"
    using assms sym_neg_ok[of env a] by (auto simp: defined_ok_def)
  moreover have "n \<noteq> Concrete 0" if "a \<noteq> Concrete 0"
    using n(1) that assms fe_neg_eq_0_iff
    by (cases rule: sym_neg_cases[of a F]) (auto simp: defined_ok_def)
  ultimately show ?thesis by blast
qed

lemma defined_mul:
  assumes "defined_ok F env a" "defined_ok F env b" "b \<noteq> Concrete 0"
  shows "\<exists>n. sym_mul F a b = Some n \<and> defined_ok F env n
     \<and> the (sym_eval F env n) = fe_mul F (the (sym_eval F env a)) (the (sym_eval F env b))
     \<and> (a \<noteq> Concrete 0 \<longrightarrow> n \<noteq> Concrete 0)"
proof -
  obtain n where n: "sym_mul F a b = Some n" "defined_ok F env n"
    "the (sym_eval F env n) = fe_mul F (the (sym_eval F env a)) (the (sym_eval F env b))"
    using assms sym_mul_ok[of env a b] by (auto simp: defined_ok_def)
  have neg: "sym_neg F e \<noteq> Some (Concrete 0)" if "defined_ok F env e" "e \<noteq> Concrete 0" for e
    using defined_neg[OF that(1)] that(2) by auto
  have "n \<noteq> Concrete 0" if a: "a \<noteq> Concrete 0"
  proof (cases rule: sym_mul_cases[of a b F])
    case (1 x y)
    with a assms n(1) show ?thesis by (auto simp: defined_ok_def fe_mul_eq_0_iff)
  next
    case 5
    with neg[OF assms(2,3)] n(1) show ?thesis by auto
  next
    case 6
    with neg[OF assms(1) a] n(1) show ?thesis by auto
  qed (use a assms n(1) in auto)
  with n show ?thesis by blast
qed

lemma map_coefficients_ok:
  assumes "\<And>v c. (v, c) \<in> set cs \<Longrightarrow> \<exists>d. f c = Some d \<and> P v c d"
  shows "\<exists>ds. map_coefficients f cs = Some ds
     \<and> list_all2 (\<lambda>(v, c) (w, d). v = w \<and> P v c d) cs ds"
  using assms
proof (induction cs)
  case (Cons x cs)
  obtain v c where x: "x = (v, c)" by (cases x)
  obtain d where "f c = Some d" "P v c d" using Cons.prems x by (meson list.set_intros(1))
  moreover obtain ds where "map_coefficients f cs = Some ds"
    "list_all2 (\<lambda>(v, c) (w, d). v = w \<and> P v c d) cs ds"
    using Cons by (meson list.set_intros(2))
  ultimately show ?case by (simp add: x)
qed simp

lemma list_all2_keys: "list_all2 (\<lambda>(v, c) (w, d). v = w \<and> Q v c d) cs ds \<Longrightarrow> map fst ds = map fst cs"
  by (induction cs ds rule: list_all2_induct) auto

lemma list_all2_set2:
  "list_all2 (\<lambda>(v, c) (w, d). v = w \<and> Q v c d) cs ds \<Longrightarrow> (w, d) \<in> set ds \<Longrightarrow> \<exists>c. (w, c) \<in> set cs \<and> Q w c d"
  by (induction cs ds rule: list_all2_induct) auto

text \<open>Negation and multiplication by a known expression.\<close>

lemma scaled_eval:
  assumes "list_all2 (\<lambda>(v, c) (w, d). v = w \<and> the (sym_eval F env d) = g (the (sym_eval F env c))) cs ds"
    and "\<And>x. modulus F dvd g x - x * k"
  shows "modulus F dvd cs_eval F env ds - cs_eval F env cs * k"
  using assms(1)
proof (induction cs ds rule: list_all2_induct)
  case (Cons c cs d ds)
  have "modulus F dvd (g (the (sym_eval F env (snd c))) - the (sym_eval F env (snd c)) * k) * env (fst c)"
    using assms(2) by (intro dvd_mult2)
  from dvd_add[OF this Cons.IH] Cons.hyps show ?case by (auto simp: case_prod_beta algebra_simps)
qed simp

lemma ase_neg_ok:
  assumes "ase_ok F env a"
  obtains n where "ase_neg F a = Some n" "ase_ok F env n" "ase_eval F env n = fe_neg F (ase_eval F env a)"
    "range_constraints n = range_constraints a"
proof -
  have c: "\<exists>d. sym_neg F c = Some d \<and> (defined_ok F env d \<and> d \<noteq> Concrete 0
      \<and> the (sym_eval F env d) = fe_neg F (the (sym_eval F env c)))" if "(v, c) \<in> set (coefficients a)" for v c
    using ase_ok_coeff[OF assms that] defined_neg[of env c] by blast
  have "\<exists>ds. map_coefficients (sym_neg F) (coefficients a) = Some ds
      \<and> list_all2 (\<lambda>(v, c) (w, d). v = w \<and> defined_ok F env d \<and> d \<noteq> Concrete 0
        \<and> the (sym_eval F env d) = fe_neg F (the (sym_eval F env c))) (coefficients a) ds"
    by (rule map_coefficients_ok) (rule c)
  then obtain ds where ds: "map_coefficients (sym_neg F) (coefficients a) = Some ds"
    "list_all2 (\<lambda>(v, c) (w, d). v = w \<and> defined_ok F env d \<and> d \<noteq> Concrete 0
      \<and> the (sym_eval F env d) = fe_neg F (the (sym_eval F env c))) (coefficients a) ds" by blast
  obtain off where off: "sym_neg F (offset a) = Some off" "defined_ok F env off"
    "the (sym_eval F env off) = fe_neg F (the (sym_eval F env (offset a)))"
    using assms defined_neg[of env "offset a"] by (auto simp: ase_ok_def)
  let ?n = "\<lparr>coefficients = ds, offset = off, range_constraints = range_constraints a\<rparr>"
  have "ase_neg F a = Some ?n" using ds(1) off(1) by (simp add: ase_neg_def)
  moreover have "ase_ok F env ?n"
    using assms off(2) list_all2_keys[OF ds(2)] list_all2_set2[OF ds(2)]
    by (auto simp: ase_ok_def bt_sorted_def)
  moreover have "modulus F dvd (cs_eval F env ds - cs_eval F env (coefficients a) * (- 1))
      + (fe_neg F (the (sym_eval F env (offset a))) - (- the (sym_eval F env (offset a))))"
  proof (intro dvd_add scaled_eval fe_dvd)
    show "list_all2 (\<lambda>(v, c) (w, d). v = w \<and> the (sym_eval F env d) = fe_neg F (the (sym_eval F env c))) (coefficients a) ds"
      using ds(2) by (rule list_all2_mono) auto
    show "modulus F dvd fe_neg F x - x * - 1" for x using fe_dvd(3)[of x] by simp
  qed
  then have "ase_eval F env ?n = fe_neg F (ase_eval F env a)"
    by (simp add: ase_eval_def off(3) fe_neg_def mod_minus_eq mod_eq_dvd_iff algebra_simps)
  ultimately show thesis by (rule that) simp
qed

lemma fe_mul_eval: "fe_mul F (x mod modulus F) y = x * y mod modulus F"
  by (simp add: fe_mul_def mod_mult_left_eq)

lemma ase_mul_ok:
  assumes "ase_ok F env a" "defined_ok F env k"
  shows "\<exists>n. ase_mul F a k = Some n \<and> ase_ok F env n
     \<and> ase_eval F env n = fe_mul F (ase_eval F env a) (the (sym_eval F env k))"
proof (cases "k = Concrete 0")
  case True
  then show ?thesis
    using assms(1) by (simp add: ase_mul_def ase_ok_def ase_from_def ase_eval_def fe_mul_def bt_sorted_def
        defined_ok_def canonical_0)
next
  case False
  let ?k = "the (sym_eval F env k)"
  have "\<exists>ds. map_coefficients (\<lambda>c. sym_mul F c k) (coefficients a) = Some ds
      \<and> list_all2 (\<lambda>(v, c) (w, d). v = w \<and> defined_ok F env d \<and> d \<noteq> Concrete 0
        \<and> the (sym_eval F env d) = fe_mul F (the (sym_eval F env c)) ?k) (coefficients a) ds"
    using ase_ok_coeff[OF assms(1)] defined_mul[OF _ assms(2) False]
    by (intro map_coefficients_ok) blast
  then obtain ds where ds: "map_coefficients (\<lambda>c. sym_mul F c k) (coefficients a) = Some ds"
    "list_all2 (\<lambda>(v, c) (w, d). v = w \<and> defined_ok F env d \<and> d \<noteq> Concrete 0
      \<and> the (sym_eval F env d) = fe_mul F (the (sym_eval F env c)) ?k) (coefficients a) ds" by blast
  obtain off where off: "sym_mul F (offset a) k = Some off" "defined_ok F env off"
    "the (sym_eval F env off) = fe_mul F (the (sym_eval F env (offset a))) ?k"
    using assms defined_mul[of env "offset a" k] False by (auto simp: ase_ok_def)
  let ?n = "\<lparr>coefficients = ds, offset = off, range_constraints = range_constraints a\<rparr>"
  have "ase_mul F a k = Some ?n" using ds(1) off(1) False by (simp add: ase_mul_def)
  moreover have "ase_ok F env ?n"
    using assms(1) off(2) list_all2_keys[OF ds(2)] list_all2_set2[OF ds(2)]
    by (auto simp: ase_ok_def bt_sorted_def)
  moreover have "modulus F dvd (cs_eval F env ds - cs_eval F env (coefficients a) * ?k)
      + (fe_mul F (the (sym_eval F env (offset a))) ?k - the (sym_eval F env (offset a)) * ?k)"
  proof (intro dvd_add scaled_eval fe_dvd)
    show "list_all2 (\<lambda>(v, c) (w, d). v = w \<and> the (sym_eval F env d) = fe_mul F (the (sym_eval F env c)) ?k) (coefficients a) ds"
      using ds(2) by (rule list_all2_mono) auto
  qed (rule fe_dvd)
  then have "ase_eval F env ?n = fe_mul F (ase_eval F env a) ?k"
    by (simp add: ase_eval_def off(3) fe_mul_eval mod_eq_dvd_iff algebra_simps)
  ultimately show ?thesis by blast
qed

lemma try_mul_ok:
  assumes "ase_ok F env a" "ase_ok F env b"
  shows "\<exists>r. try_mul F a b = Some r
     \<and> (\<forall>n. r = Some n \<longrightarrow> ase_ok F env n \<and> ase_eval F env n = fe_mul F (ase_eval F env a) (ase_eval F env b))
     \<and> (r = None \<longleftrightarrow> coefficients a \<noteq> [] \<and> coefficients b \<noteq> [])"
proof -
  have known: "defined_ok F env k \<and> the (sym_eval F env k) = ase_eval F env x"
    if "ase_ok F env x" "try_to_known x = Some k" for x k
    using that defined_value[of env k]
    by (auto simp: ase_ok_def try_to_known_def ase_eval_def canonical_mod split: if_splits)
  show ?thesis
  proof (cases "try_to_known b")
    case (Some k)
    with known[OF assms(2)] ase_mul_ok[OF assms(1), of k] show ?thesis
      by (auto simp: try_mul_def try_to_known_def split: if_splits)
  next
    case None
    show ?thesis
    proof (cases "try_to_known a")
      case (Some k)
      with None known[OF assms(1)] ase_mul_ok[OF assms(2), of k] show ?thesis
        by (auto simp: try_mul_def try_to_known_def fe_mul_def mult.commute split: if_splits)
    qed (use None in \<open>auto simp: try_mul_def try_to_known_def split: if_splits\<close>)
  qed
qed

text \<open>Addition: the loop over the right operand.\<close>

lemma conjunction_ex:
  "wf_rc F a \<Longrightarrow> wf_rc F b \<Longrightarrow> \<exists>r. conjunction F a b = Some r \<and> wf_rc F r
     \<and> (\<forall>v. v \<in> rc_values F a \<longrightarrow> v \<in> rc_values F b \<longrightarrow> v \<in> rc_values F r)"
  by (rule conjunction_ok[of a b]) blast+

lemma add_inv_step:
  assumes "add_inv F env cs rcs" "defined_ok F env c"
    and "\<And>rc. bt_get rhs_rcs v = Some rc \<Longrightarrow> wf_rc F rc \<and> env v \<in> rc_values F rc"
  obtains rcs' where
    "(case bt_get rhs_rcs v of None \<Rightarrow> Some rcs
      | Some range_right \<Rightarrow> do {
          rc \<leftarrow> (case bt_get rcs v of Some rc \<Rightarrow> conjunction F rc range_right | None \<Rightarrow> Some range_right);
          Some (bt_insert v rc rcs) }) = Some rcs'"
    "add_inv F env (bt_insert v (case bt_get cs v of Some f \<Rightarrow> sym_add F f c | None \<Rightarrow> c) cs) rcs'"
    "modulus F dvd cs_eval F env (bt_insert v (case bt_get cs v of Some f \<Rightarrow> sym_add F f c | None \<Rightarrow> c) cs)
       - (cs_eval F env cs + the (sym_eval F env c) * env v)"
proof -
  let ?f = "case bt_get cs v of Some f \<Rightarrow> sym_add F f c | None \<Rightarrow> c"
  have old: "defined_ok F env f" if "bt_get cs v = Some f" for f
    using that assms(1) by (auto simp: add_inv_def bt_get_Some)
  have f: "defined_ok F env ?f" using old assms(2) defined_add by (auto split: option.split)
  have "modulus F dvd (the (sym_eval F env ?f) - (case bt_get cs v of Some d \<Rightarrow> the (sym_eval F env d) | None \<Rightarrow> 0)
      - the (sym_eval F env c)) * env v"
  proof (intro dvd_mult2, cases "bt_get cs v")
    case (Some g)
    with old[OF Some] assms(2) defined_add[of env g c] fe_dvd(1)[of "the (sym_eval F env g)" "the (sym_eval F env c)"]
    show "modulus F dvd the (sym_eval F env ?f) - (case bt_get cs v of Some d \<Rightarrow> the (sym_eval F env d) | None \<Rightarrow> 0)
      - the (sym_eval F env c)" by (simp add: algebra_simps)
  qed simp
  moreover have "bt_sorted cs" using assms(1) by (simp add: add_inv_def)
  ultimately have ev: "modulus F dvd cs_eval F env (bt_insert v ?f cs) - (cs_eval F env cs + the (sym_eval F env c) * env v)"
    by (simp add: cs_eval_insert algebra_simps)
  have ins: "add_inv F env (bt_insert v ?f cs) rcs'" if "bt_sorted rcs'"
    "\<And>w rc. (w, rc) \<in> set rcs' \<Longrightarrow> wf_rc F rc \<and> env w \<in> rc_values F rc" for rcs'
    using that assms(1) f bt_insert_sorted[of cs v ?f] by (auto simp: add_inv_def dest!: bt_insert_set)
  have rcs: "bt_sorted rcs" "\<And>w rc. (w, rc) \<in> set rcs \<Longrightarrow> wf_rc F rc \<and> env w \<in> rc_values F rc"
    using assms(1) by (auto simp: add_inv_def)
  show thesis
  proof (cases "bt_get rhs_rcs v")
    case None
    then show thesis by (intro that[of rcs]) (use ins[OF rcs] ev in simp_all)
  next
    case (Some right)
    note right = assms(3)[OF Some]
    have "\<exists>rc. (case bt_get rcs v of Some rc \<Rightarrow> conjunction F rc right | None \<Rightarrow> Some right) = Some rc
        \<and> wf_rc F rc \<and> env v \<in> rc_values F rc"
    proof (cases "bt_get rcs v")
      case (Some old)
      then have "(v, old) \<in> set rcs" using rcs(1) by (simp add: bt_get_Some)
      then have o: "wf_rc F old" "env v \<in> rc_values F old" using rcs(2) by auto
      with conjunction_ex[OF o(1) conjunct1[OF right]] right Some show ?thesis by auto
    qed (use right in simp)
    then obtain rc where rc: "(case bt_get rcs v of Some rc \<Rightarrow> conjunction F rc right | None \<Rightarrow> Some right) = Some rc"
      "wf_rc F rc" "env v \<in> rc_values F rc" by blast
    have "add_inv F env (bt_insert v ?f cs) (bt_insert v rc rcs)"
      using rc rcs by (intro ins) (auto simp: bt_insert_sorted dest!: bt_insert_set)
    with Some rc(1) ev show thesis by (intro that[of "bt_insert v rc rcs"]) simp_all
  qed
qed

lemma add_coefficients_ok:
  assumes "add_inv F env cs rcs" "\<forall>(v, c) \<in> set ds. defined_ok F env c"
    and "\<And>v rc. bt_get rhs_rcs v = Some rc \<Longrightarrow> wf_rc F rc \<and> env v \<in> rc_values F rc"
  shows "\<exists>cs' rcs'. add_coefficients F rhs_rcs ds cs rcs = Some (cs', rcs') \<and> add_inv F env cs' rcs'
     \<and> modulus F dvd cs_eval F env cs' - (cs_eval F env cs + cs_eval F env ds)"
  using assms(1,2)
proof (induction ds arbitrary: cs rcs)
  case (Cons d ds)
  obtain v c where d: "d = (v, c)" by (cases d)
  let ?cs = "bt_insert v (case bt_get cs v of Some f \<Rightarrow> sym_add F f c | None \<Rightarrow> c) cs"
  have c: "defined_ok F env c" using Cons.prems(2) d by auto
  show ?case
  proof (rule add_inv_step[OF Cons.prems(1) c assms(3)])
    fix rcs' assume s: "(case bt_get rhs_rcs v of None \<Rightarrow> Some rcs
        | Some range_right \<Rightarrow> do {
            rc \<leftarrow> (case bt_get rcs v of Some rc \<Rightarrow> conjunction F rc range_right | None \<Rightarrow> Some range_right);
            Some (bt_insert v rc rcs) }) = Some rcs'" "add_inv F env ?cs rcs'"
      "modulus F dvd cs_eval F env ?cs - (cs_eval F env cs + the (sym_eval F env c) * env v)"
    obtain cs'' rcs'' where ih: "add_coefficients F rhs_rcs ds ?cs rcs' = Some (cs'', rcs'')" "add_inv F env cs'' rcs''"
      "modulus F dvd cs_eval F env cs'' - (cs_eval F env ?cs + cs_eval F env ds)"
      using Cons.IH[OF s(2)] Cons.prems(2) by auto
    have "modulus F dvd cs_eval F env cs'' - (cs_eval F env cs + cs_eval F env (d # ds))"
      using dvd_add[OF s(3) ih(3)] by (simp add: d algebra_simps)
    with ih s(1) show ?thesis by (simp add: d Let_def)
  qed
qed simp

lemma ase_add_ok:
  assumes "ase_ok F env a" "ase_ok F env b"
  shows "\<exists>n. ase_add F a b = Some n \<and> ase_ok F env n
     \<and> ase_eval F env n = fe_add F (ase_eval F env a) (ase_eval F env b)"
proof -
  have "add_inv F env (coefficients a) (range_constraints a)" "\<forall>(v, c) \<in> set (coefficients b). defined_ok F env c"
    using assms by (auto simp: add_inv_def ase_ok_def)
  from add_coefficients_ok[OF this ase_ok_range[OF assms(2)]]
  obtain cs rcs where r: "add_coefficients F (range_constraints b) (coefficients b) (coefficients a) (range_constraints a) = Some (cs, rcs)"
    "add_inv F env cs rcs" "modulus F dvd cs_eval F env cs - (cs_eval F env (coefficients a) + cs_eval F env (coefficients b))"
    by blast
  let ?off = "sym_add F (offset a) (offset b)"
  have off: "defined_ok F env ?off"
    "the (sym_eval F env ?off) = fe_add F (the (sym_eval F env (offset a))) (the (sym_eval F env (offset b)))"
    using assms defined_add[of env "offset a" "offset b"] by (auto simp: ase_ok_def)
  let ?n = "\<lparr>coefficients = filter (\<lambda>(v, f). \<not> is_known_zero f) cs, offset = ?off, range_constraints = rcs\<rparr>"
  have "ase_add F a b = Some ?n" by (simp add: ase_add_def r(1))
  moreover have "ase_ok F env ?n"
    using assms(1) r(2) off(1) by (auto simp: ase_ok_def add_inv_def bt_sorted_filter)
  moreover have "ase_eval F env ?n = fe_add F (ase_eval F env a) (ase_eval F env b)"
    using dvd_add[OF r(3) fe_dvd(1)[of "the (sym_eval F env (offset a))" "the (sym_eval F env (offset b))"]]
    by (simp add: ase_eval_def cs_eval_filter off(2) fe_add_eval mod_eq_dvd_iff algebra_simps)
  ultimately show ?thesis by blast
qed

section \<open>Soundness of solving\<close>

lemma multiple_ex:
  "wf_rc F rc \<Longrightarrow> canonical F f \<Longrightarrow> \<exists>r. multiple F rc f = Some r \<and> wf_rc F r
     \<and> (\<forall>v. v \<in> rc_values F rc \<longrightarrow> fe_mul F v f \<in> rc_values F r)"
  by (rule multiple_ok[of rc f]) blast+

text \<open>Exact division of a product that does not wrap, also by the field division that
  \<open>integer_div\<close> uses for two numbers.\<close>

lemma integer_div_exact:
  assumes "sym_ok F env a" "sym_eval F env a = Some (c * v)" "canonical F c" "c \<noteq> 0" "canonical F v" "c * v < modulus F"
    and "integer_div F a (Concrete c) = Some r"
  shows "sym_eval F env r = Some v"
proof (cases "try_to_number a")
  case None
  have "sym_ok F env (Concrete c)" "sym_eval F env (Concrete c) = Some c" using assms(3) by simp_all
  from integer_div_ok[OF assms(1) this assms(4) disjI1[OF None]] assms(2,4,7) show ?thesis by auto
next
  case (Some x)
  then have x: "a = Concrete (c * v)" using assms(2) by (cases a) auto
  then obtain q where q: "fe_div F (c * v) c = Some q" "canonical F q" "fe_mul F q c = c * v"
    using fe_div_nonzero[of "c * v" c] assms(1,3,4) by auto
  have "fe_mul F v c = c * v" using assms by (simp add: fe_mul_def canonical_def mult.commute)
  then have "q = v" using fe_mul_cancel[OF q(2) assms(5,3,4)] q(3) by simp
  with q(1) assms(4,7) show ?thesis by (auto simp: x integer_div_def fe_from_def)
qed

lemma integer_div_total: "c \<noteq> 0 \<Longrightarrow> \<exists>r. integer_div F a (Concrete c) = Some r"
  by (cases a) (auto simp: integer_div_def fe_from_def fe_div_def)

lemma decompose_total:
  assumes "entries_ok F env cs" "defined_ok F env off"
  shows "\<exists>d. decompose F off covered cs = Some d"
  using assms(1)
proof (induction cs arbitrary: covered)
  case (Cons x cs)
  obtain v c rc where x: "x = (v, c, rc)" by (cases x)
  obtain r where r: "multiple F rc c = Some r" using multiple_ex[of rc c] Cons.prems by (auto simp: entries_ok_def x)
  obtain n where n: "sym_neg F off = Some n" using defined_neg[OF assms(2)] by blast
  obtain e where e: "integer_div F (sym_bitand F n (rc_mask r)) (Concrete c) = Some e"
    using integer_div_total[of c] Cons.prems by (auto simp: entries_ok_def x)
  obtain d where "decompose F off (covered OR rc_mask r) cs = Some d"
    using Cons by (auto simp: entries_ok_def)
  with r n e show ?case by (simp add: x Let_def)
qed simp

lemma decompose_sound:
  assumes "decompose F off covered cs = Some (Some (es, cov))" "0 \<le> covered" "cov < modulus F"
    and "entries_ok F env cs" "\<forall>(v, c, rc) \<in> set cs. rc_min rc = 0"
    and "defined_ok F env off" "fe_neg F (the (sym_eval F env off)) = G"
  shows "0 \<le> cov \<and> covered AND cov = covered \<and> 0 \<le> total env cs \<and> total env cs AND cov = total env cs
     \<and> total env cs AND covered = 0
     \<and> ((\<forall>n. \<not> bit covered n \<longrightarrow> bit G n = bit (total env cs) n) \<longrightarrow> list_all (holds_effect F env) es)"
  using assms(1,2,4,5)
proof (induction cs arbitrary: covered es)
  case Nil
  then show ?case by (simp add: total_def)
next
  case (Cons x cs)
  obtain v c rc where x: "x = (v, c, rc)" by (cases x)
  let ?v = "env v" and ?t = "total env cs"
  have g: "wf_rc F rc" "canonical F c" "c \<noteq> 0" "canonical F ?v" "allows_value rc ?v" "rc_min rc = 0"
    using Cons.prems(3,4) by (auto simp: entries_ok_def x rc_values_def)
  obtain r where r: "multiple F rc c = Some r" "wf_rc F r" using multiple_ex[OF g(1,2)] by blast
  let ?m = "rc_mask r"
  have m0: "0 \<le> ?m" using r by (simp add: wf_rc_def)
  obtain n where n: "sym_neg F off = Some n" "sym_ok F env n" "sym_eval F env n = Some G"
    using defined_neg[OF assms(6)] assms(7) by (auto simp: defined_ok_def)
  have mc: "?m AND covered = 0"
    by (rule ccontr) (use Cons.prems(1) r in \<open>auto simp: x\<close>)
  obtain e es' where e: "integer_div F (sym_bitand F n ?m) (Concrete c) = Some e"
    "decompose F off (covered OR ?m) cs = Some (Some (es', cov))" "es = Effect_Assignment v e # es'"
    using Cons.prems(1) r n(1) mc by (auto simp: x Let_def bind_eq_Some_conv split: option.splits)
  have "0 \<le> covered OR ?m" using m0 Cons.prems(2) by simp
  from Cons.IH[OF e(2) this] Cons.prems(3,4)
  have ih: "0 \<le> cov" "(covered OR ?m) AND cov = covered OR ?m" "0 \<le> ?t" "?t AND cov = ?t" "?t AND (covered OR ?m) = 0"
    "(\<forall>n. \<not> bit (covered OR ?m) n \<longrightarrow> bit G n = bit ?t n) \<Longrightarrow> list_all (holds_effect F env) es'"
    by (auto simp: entries_ok_def)
  have sub: "covered AND cov = covered" "?m AND cov = ?m"
    using ih(2) by (auto simp: bit_eq_iff bit_simps)
  have mp: "?m < modulus F" using and_self_le[OF sub(2) ih(1)] assms(3) by simp
  then have xm: "c * ?v AND ?m = c * ?v" using multiple_mask[OF g(1,6,2,4,5) r(1)] by simp
  note dj = disjoint_sum_bits[OF xm ih(5) mc]
  have tot: "total env (x # cs) = c * ?v + ?t" by (simp add: total_def x)
  have x0: "0 \<le> c * ?v" using g by (simp add: canonical_def)
  have "(c * ?v + ?t) AND cov = c * ?v + ?t"
    using and_self_trans[OF xm sub(2)] ih(4) by (simp add: dj(1) bit_eq_iff bit_simps) blast
  moreover have "list_all (holds_effect F env) es"
    if G: "\<forall>n. \<not> bit covered n \<longrightarrow> bit G n = bit (c * ?v + ?t) n"
  proof -
    have bits: "bit (c * ?v) n \<Longrightarrow> bit ?m n" "bit ?t n \<Longrightarrow> \<not> bit ?m n" "bit ?m n \<Longrightarrow> \<not> bit covered n" for n
      using xm ih(5) mc by (auto simp: bit_eq_iff bit_simps)
    then have Gm: "G AND ?m = c * ?v" using G dj(2) by (auto simp: bit_eq_iff bit_simps)
    have "sym_eval F env e = Some ?v"
    proof (rule integer_div_exact[OF _ _ g(2,3,4) _ e(1)])
      show "sym_ok F env (sym_bitand F n ?m)" "sym_eval F env (sym_bitand F n ?m) = Some (c * ?v)"
        using sym_bitand_ok[OF n(2) m0] n(3) Gm by simp_all
      show "c * ?v < modulus F" using and_self_le[OF xm m0] mp by simp
    qed
    moreover have "list_all (holds_effect F env) es'"
      by (rule ih(6)) (use G bits dj(1) in \<open>auto simp: bit_simps\<close>)
    ultimately show ?thesis by (simp add: e(3) holds_effect_def)
  qed
  ultimately show ?case using ih sub x0 dj(3) by (simp add: tot)
qed

lemma constrained_coefficients_ok:
  assumes "constrained_coefficients rcs cs = Some es"
    and "\<forall>(v, c) \<in> set cs. defined_ok F env c \<and> c \<noteq> Concrete 0"
    and "\<And>v rc. bt_get rcs v = Some rc \<Longrightarrow> wf_rc F rc \<and> env v \<in> rc_values F rc"
  shows "entries_ok F env es \<and> total env es = cs_eval F env cs
     \<and> (\<forall>(v, c, rc) \<in> set es. bt_get rcs v = Some rc)"
  using assms(1,2)
proof (induction cs arbitrary: es)
  case (Cons x cs)
  obtain v c where x: "x = (v, c)" by (cases x)
  obtain n rc es' where n: "try_to_number c = Some n" "bt_get rcs v = Some rc"
    "constrained_coefficients rcs cs = Some es'" "es = (v, n, rc) # es'"
    using Cons.prems(1) by (auto simp: x bind_eq_Some_conv)
  then have c: "c = Concrete n" by (cases c) auto
  with Cons.prems(2) have "canonical F n" "n \<noteq> 0" by (auto simp: x defined_ok_def)
  with Cons.IH[OF n(3)] Cons.prems(2) assms(3)[OF n(2)] n c show ?case
    by (auto simp: entries_ok_def total_def x)
qed (simp add: entries_ok_def total_def)

lemma ase_entries:
  assumes "ase_ok F env a" "constrained_coefficients (range_constraints a) (coefficients a) = Some es"
  shows "entries_ok F env es" "total env es = cs_eval F env (coefficients a)"
    "\<forall>(v, c, rc) \<in> set es. bt_get (range_constraints a) v = Some rc"
proof -
  have "entries_ok F env es \<and> total env es = cs_eval F env (coefficients a)
     \<and> (\<forall>(v, c, rc) \<in> set es. bt_get (range_constraints a) v = Some rc)"
    using ase_ok_coeff[OF assms(1)] ase_ok_range[OF assms(1)]
    by (intro constrained_coefficients_ok[OF assms(2)]) auto
  then show "entries_ok F env es" "total env es = cs_eval F env (coefficients a)"
    "\<forall>(v, c, rc) \<in> set es. bt_get (range_constraints a) v = Some rc" by blast+
qed

text \<open>A solution of the equation, and range constraints that all start at zero.\<close>

lemma solve_bit_decomposition_ok:
  assumes ok: "ase_ok F env a"
  shows "\<exists>r. solve_bit_decomposition F a = Some r
     \<and> (ase_eval F env a = 0 \<longrightarrow> (\<forall>(v, rc) \<in> set (range_constraints a). rc_min rc = 0) \<longrightarrow>
          (\<exists>res. r = Inr res \<and> list_all (holds_effect F env) (effects res)))"
proof (cases "constrained_coefficients (range_constraints a) (coefficients a)")
  case None
  then show ?thesis by (simp add: solve_bit_decomposition_def result_empty_def)
next
  case (Some es)
  note ent = ase_entries[OF ok Some]
  have off: "defined_ok F env (offset a)" using ok by (simp add: ase_ok_def)
  obtain n where n: "sym_neg F (offset a) = Some n" "sym_ok F env n"
    "sym_eval F env n = Some (fe_neg F (the (sym_eval F env (offset a))))"
    using defined_neg[OF off] by (auto simp: defined_ok_def)
  obtain d where d: "decompose F (offset a) 0 es = Some d" using decompose_total[OF ent(1) off] by blast
  show ?thesis
  proof (cases d)
    case None
    with Some d show ?thesis by (simp add: solve_bit_decomposition_def result_empty_def)
  next
    case (Some esc)
    obtain effs cov where esc: "d = Some (effs, cov)" using Some by (cases esc) auto
    show ?thesis
    proof (cases "cov \<ge> modulus F")
      case True
      with d esc \<open>constrained_coefficients _ _ = Some es\<close> show ?thesis
        by (simp add: solve_bit_decomposition_def result_empty_def)
    next
      case False
      let ?G = "fe_neg F (the (sym_eval F env (offset a)))"
      have sol: "list_all (holds_effect F env) effs \<and> ?G AND int_not F cov = 0 \<and> 0 \<le> cov"
        if z: "ase_eval F env a = 0" and min: "\<forall>(v, rc) \<in> set (range_constraints a). rc_min rc = 0"
      proof -
        have "bt_sorted (range_constraints a)" using ok by (simp add: ase_ok_def)
        then have "\<forall>(v, c, rc) \<in> set es. rc_min rc = 0"
          using ent(3) min by (fastforce simp: bt_get_Some)
        from decompose_sound[OF d[unfolded esc] order_refl _ ent(1) this off refl] False
        have ds: "0 \<le> cov" "0 \<le> total env es" "total env es AND cov = total env es"
          "(\<forall>n. bit ?G n = bit (total env es) n) \<Longrightarrow> list_all (holds_effect F env) effs"
          by auto
        have "total env es < modulus F" using and_self_le[OF ds(3,1)] False by simp
        moreover have "(total env es + the (sym_eval F env (offset a))) mod modulus F = 0"
          using z by (simp add: ase_eval_def ent(2))
        then have "?G = total env es mod modulus F" unfolding fe_neg_def by (rule mod_eqI_neg)
        ultimately have G: "?G = total env es" using ds(2) by simp
        have "total env es AND int_not F cov = 0"
          using ds(3) by (auto simp: int_not_def bit_eq_iff bit_simps)
        with ds G show ?thesis by simp
      qed
      show ?thesis
      proof (cases "try_to_number (offset a)")
        case (Some k)
        then have "the (sym_eval F env (offset a)) = k" by (cases "offset a") auto
        with sol Some d esc False \<open>constrained_coefficients _ _ = Some es\<close> show ?thesis
          by (auto simp: solve_bit_decomposition_def result_complete_def)
      next
        case None
        let ?a = "assert_eq (sym_bitand F n (int_not F cov)) (Concrete (fe_from F 0))"
        have "0 \<le> int_not F cov" by (simp add: int_not_def)
        from sym_bitand_ok[OF n(2) this] n(3)
        have "holds_effect F env ?a" if "?G AND int_not F cov = 0"
          using that by (simp add: holds_effect_def assert_eq_def fe_from_def)
        with sol None d esc False n(1) \<open>constrained_coefficients _ _ = Some es\<close> show ?thesis
          by (auto simp: solve_bit_decomposition_def result_complete_def)
      qed
    qed
  qed
qed

lemma multiples_ok:
  assumes "\<forall>(v, c) \<in> set cs. defined_ok F env c"
    and "\<And>v rc. bt_get rcs v = Some rc \<Longrightarrow> wf_rc F rc \<and> env v \<in> rc_values F rc"
  shows "\<exists>ms. multiples F rcs cs = Some ms \<and> (\<forall>rs. ms = Some rs \<longrightarrow>
      list_all2 (\<lambda>x r. wf_rc F r \<and> x \<in> rc_values F r) (map (\<lambda>(v, c). fe_mul F (env v) (the (sym_eval F env c))) cs) rs)"
  using assms(1)
proof (induction cs)
  case (Cons x cs)
  obtain v c where x: "x = (v, c)" by (cases x)
  show ?case
  proof (cases "\<exists>n rc. try_to_number c = Some n \<and> bt_get rcs v = Some rc")
    case True
    then obtain n rc where n: "try_to_number c = Some n" "bt_get rcs v = Some rc" by blast
    then have c: "c = Concrete n" by (cases c) auto
    have "canonical F n" using Cons.prems c by (auto simp: x defined_ok_def)
    then obtain r where r: "multiple F rc n = Some r" "wf_rc F r" "fe_mul F (env v) n \<in> rc_values F r"
      using assms(2)[OF n(2)] multiple_ex[of rc n] by blast
    obtain ms where ms: "multiples F rcs cs = Some ms" "\<forall>rs. ms = Some rs \<longrightarrow>
      list_all2 (\<lambda>x r. wf_rc F r \<and> x \<in> rc_values F r) (map (\<lambda>(v, c). fe_mul F (env v) (the (sym_eval F env c))) cs) rs"
      using Cons by auto
    with n r c show ?thesis by (auto simp: x)
  next
    case False
    then show ?thesis by (auto simp: x split: option.splits)
  qed
qed simp

lemma cs_eval_mul: "cs_eval F env cs mod modulus F
     = (\<Sum>(v, c)\<leftarrow>cs. fe_mul F (env v) (the (sym_eval F env c))) mod modulus F"
proof (induction cs)
  case (Cons c cs)
  have "(the (sym_eval F env (snd c)) * env (fst c)) mod modulus F
      = fe_mul F (env (fst c)) (the (sym_eval F env (snd c))) mod modulus F"
    by (simp add: fe_mul_def mult.commute)
  from mod_add_cong[OF this Cons] show ?case by (simp add: case_prod_beta)
qed simp

text \<open>The constraint of the whole expression, and of the sum of some terms and the offset.\<close>

lemma sum_constraint:
  assumes "ase_ok F env a" "set cs \<subseteq> set (coefficients a)"
  shows "\<exists>ms. multiples F (range_constraints a) cs = Some ms \<and> (\<forall>rs. ms = Some rs \<longrightarrow>
      (\<exists>con. reduce (combine_sum F) (rs @ [sym_range_constraint (offset a)]) = Some con \<and> wf_rc F con
        \<and> (cs_eval F env cs + the (sym_eval F env (offset a))) mod modulus F \<in> rc_values F con))"
proof -
  have "\<exists>ms. multiples F (range_constraints a) cs = Some ms \<and> (\<forall>rs. ms = Some rs \<longrightarrow>
      list_all2 (\<lambda>x r. wf_rc F r \<and> x \<in> rc_values F r) (map (\<lambda>(v, c). fe_mul F (env v) (the (sym_eval F env c))) cs) rs)"
    using assms ase_ok_coeff[OF assms(1)] ase_ok_range[OF assms(1)] by (intro multiples_ok) auto
  then obtain ms where ms: "multiples F (range_constraints a) cs = Some ms" "\<forall>rs. ms = Some rs \<longrightarrow>
      list_all2 (\<lambda>x r. wf_rc F r \<and> x \<in> rc_values F r) (map (\<lambda>(v, c). fe_mul F (env v) (the (sym_eval F env c))) cs) rs"
    by blast
  have off: "node_ok F env (offset a)" "sym_eval F env (offset a) = Some (the (sym_eval F env (offset a)))"
    using assms(1) sym_ok_node by (auto simp: ase_ok_def defined_ok_def)
  let ?o = "the (sym_eval F env (offset a))"
  have "\<exists>con. reduce (combine_sum F) (rs @ [sym_range_constraint (offset a)]) = Some con \<and> wf_rc F con
      \<and> (cs_eval F env cs + ?o) mod modulus F \<in> rc_values F con" if rs: "ms = Some rs" for rs
  proof -
    let ?vs = "map (\<lambda>(v, c). fe_mul F (env v) (the (sym_eval F env c))) cs @ [?o]"
    have l: "list_all2 (\<lambda>x r. wf_rc F r \<and> x \<in> rc_values F r) ?vs (rs @ [sym_range_constraint (offset a)])"
      using ms(2) rs off by (intro list_all2_appendI) (auto simp: node_ok_def)
    obtain con where con: "reduce (combine_sum F) (rs @ [sym_range_constraint (offset a)]) = Some con"
      by (cases "rs @ [sym_range_constraint (offset a)]") auto
    have "list_all (wf_rc F) (rs @ [sym_range_constraint (offset a)])"
      using l by (auto simp: list_all2_conv_all_nth list_all_length)
    from reduce_wf[OF this con] have "wf_rc F con" .
    moreover have "(cs_eval F env cs + ?o) mod modulus F = sum_list ?vs mod modulus F"
      using mod_add_cong[OF cs_eval_mul[of env cs] refl, of ?o] by simp
    ultimately show ?thesis using reduce_combine_sum[OF l con] con by metis
  qed
  with ms(1) show ?thesis by blast
qed

lemma cs_eval_remove_key:
  assumes "distinct (map fst cs)" "(k, c) \<in> set cs"
  shows "cs_eval F env cs = the (sym_eval F env c) * env k + cs_eval F env (filter (\<lambda>(v, c). v \<noteq> k) cs)"
  using assms
proof (induction cs)
  case (Cons x cs)
  have "filter (\<lambda>(v, c). v \<noteq> k) cs = cs" if "k \<notin> fst ` set cs"
    using that by (intro filter_True) force
  with Cons show ?case by (cases x) (auto simp: rev_image_eqI)
qed simp

lemma transfer_constraints_ok:
  assumes "ase_ok F env a"
  shows "\<exists>t. transfer_constraints F a = Some t
     \<and> (ase_eval F env a = 0 \<longrightarrow> (\<forall>e. t = Some e \<longrightarrow> holds_effect F env e))"
proof (cases "max_by_key (\<lambda>(v, c). case bt_get (range_constraints a) v of
           Some rc \<Rightarrow> range_width F rc | None \<Rightarrow> modulus F)
         (filter (\<lambda>(v, c). is_known_one c \<or> is_known_minus_one F c) (coefficients a))")
  case None
  then show ?thesis by (simp add: transfer_constraints_def)
next
  case (Some kc)
  obtain k c where kc: "kc = (k, c)" by (cases kc)
  have k: "(k, c) \<in> set (coefficients a)" "c = Concrete 1 \<or> c = Concrete (fe_neg F 1)"
    using max_by_key_in[OF Some] kc by auto
  let ?others = "filter (\<lambda>(v, c). v \<noteq> k) (coefficients a)"
  let ?s = "cs_eval F env ?others + the (sym_eval F env (offset a))"
  obtain ms where ms: "multiples F (range_constraints a) ?others = Some ms" "\<forall>rs. ms = Some rs \<longrightarrow>
      (\<exists>con. reduce (combine_sum F) (rs @ [sym_range_constraint (offset a)]) = Some con \<and> wf_rc F con
        \<and> ?s mod modulus F \<in> rc_values F con)"
    using sum_constraint[OF assms, of ?others] by auto
  show ?thesis
  proof (cases ms)
    case None
    with Some kc ms(1) show ?thesis by (simp add: transfer_constraints_def)
  next
    case rs: (Some rs)
    obtain con where con: "reduce (combine_sum F) (rs @ [sym_range_constraint (offset a)]) = Some con" "wf_rc F con"
      "?s mod modulus F \<in> rc_values F con" using ms(2) rs by blast
    have neg: "\<exists>r. rc_neg F con = Some r \<and> (\<forall>v. v \<in> rc_values F con \<longrightarrow> fe_neg F v \<in> rc_values F r)"
      by (rule rc_neg_ok[OF con(2)]) blast
    obtain con' where con': "(if is_known_one c then rc_neg F con else Some con) = Some con'"
      "(if c = Concrete 1 then fe_neg F (?s mod modulus F) else ?s mod modulus F) \<in> rc_values F con'"
      using neg con(3) by (cases "c = Concrete 1") auto
    have "env k = (if c = Concrete 1 then fe_neg F (?s mod modulus F) else ?s mod modulus F)"
      if "ase_eval F env a = 0"
    proof -
      have ck: "canonical F (env k)" and "distinct (map fst (coefficients a))"
        using assms bt_sorted_distinct by (auto simp: ase_ok_def)
      from cs_eval_remove_key[OF this(2) k(1), of env] that
      have z: "(the (sym_eval F env c) * env k + ?s) mod modulus F = 0" by (simp add: ase_eval_def add.assoc)
      have neq: "fe_neg F 1 \<noteq> 1" using modulus_gt_2 canonical_1 by (simp add: fe_neg_eq)
      show ?thesis
      proof (cases "c = Concrete 1")
        case True
        with mod_eqI_neg[of "env k" ?s] z ck show ?thesis by (simp add: fe_neg_def mod_minus_eq canonical_mod)
      next
        case False
        with k(2) z have "(fe_neg F 1 * env k + ?s) mod modulus F = 0" by auto
        then have "(- env k + ?s) mod modulus F = 0"
          by (metis fe_neg_def mod_add_left_eq mod_mult_left_eq mult_minus1)
        with False mod_eqI_neg[of ?s "- env k"] ck show ?thesis by (simp add: add.commute canonical_mod)
      qed
    qed
    with con' have "holds_effect F env (Effect_RangeConstraint k con')" if "ase_eval F env a = 0"
      using that by (simp add: holds_effect_def)
    with Some kc ms(1) rs con(1) con'(1) show ?thesis by (simp add: transfer_constraints_def)
  qed
qed

lemma solve_many_ok:
  assumes ok: "ase_ok F env a"
  shows "\<exists>r. solve_many F a = Some r
     \<and> (ase_eval F env a = 0 \<longrightarrow> (\<forall>(v, rc) \<in> set (range_constraints a). rc_min rc = 0) \<longrightarrow>
          (\<exists>res. r = Inr res \<and> list_all (holds_effect F env) (effects res)))"
proof -
  let ?good = "\<lambda>r. ase_eval F env a = 0 \<longrightarrow> (\<forall>(v, rc) \<in> set (range_constraints a). rc_min rc = 0) \<longrightarrow>
          (\<exists>res. r = Inr res \<and> list_all (holds_effect F env) (effects res))"
  obtain n where n: "ase_neg F a = Some n" "ase_ok F env n" "ase_eval F env n = fe_neg F (ase_eval F env a)"
    "range_constraints n = range_constraints a" using ase_neg_ok[OF ok] .
  have z: "ase_eval F env n = 0" if "ase_eval F env a = 0" using that n(3) by (simp add: fe_neg_def)
  obtain r1 where r1: "solve_bit_decomposition F a = Some r1" "?good r1"
    using solve_bit_decomposition_ok[OF ok] by blast
  obtain r2 where r2: "solve_bit_decomposition F n = Some r2" "?good r2"
    using solve_bit_decomposition_ok[OF n(2)] z unfolding n(4) by blast
  obtain t1 where t1: "transfer_constraints F a = Some t1"
    "ase_eval F env a = 0 \<longrightarrow> (\<forall>e. t1 = Some e \<longrightarrow> holds_effect F env e)"
    using transfer_constraints_ok[OF ok] by blast
  obtain t2 where t2: "transfer_constraints F n = Some t2"
    "ase_eval F env a = 0 \<longrightarrow> (\<forall>e. t2 = Some e \<longrightarrow> holds_effect F env e)"
    using transfer_constraints_ok[OF n(2)] z by auto
  let ?t = "\<lparr>effects = List.map_filter id [t1, t2], is_complete_result = False\<rparr>"
  let ?r2 = "case r2 of Inl err \<Rightarrow> Inl err | Inr r \<Rightarrow> if is_complete_result r then Inr r else Inr ?t"
  let ?r = "case r1 of Inl err \<Rightarrow> Inl err | Inr r \<Rightarrow> if is_complete_result r then Inr r else ?r2"
  have "solve_many F a = Some ?r"
    using r1(1) r2(1) t1(1) t2(1) n(1) by (simp add: solve_many_def split: sum.split)
  moreover have "ase_eval F env a = 0 \<longrightarrow> list_all (holds_effect F env) (effects ?t)"
    using t1(2) t2(2) by (auto simp: map_filter_simps split: option.split)
  then have "?good ?r2" using r2(2) by (auto split: sum.splits)
  then have "?good ?r" using r1(2) by (auto split: sum.splits)
  ultimately show ?thesis by blast
qed

lemma known_nonzero_value:
  assumes "defined_ok F env e" "is_known_nonzero e"
  shows "the (sym_eval F env e) \<noteq> 0"
  using assms sym_value[of env e] by (auto simp: defined_ok_def is_known_nonzero_def rc_values_def)

lemma single_solution:
  assumes "defined_ok F env c" "defined_ok F env o'" "canonical F x"
    and "sym_neg F c = Some n" "field_div F o' n = Some r" "the (sym_eval F env c) \<noteq> 0"
    and "(the (sym_eval F env c) * x + the (sym_eval F env o')) mod modulus F = 0"
  shows "sym_eval F env r = Some x"
proof -
  let ?c = "the (sym_eval F env c)" and ?o = "the (sym_eval F env o')"
  have n: "defined_ok F env n" "the (sym_eval F env n) = fe_neg F ?c"
    using defined_neg[OF assms(1)] assms(4) by auto
  have cn: "canonical F (fe_neg F ?c)" "fe_neg F ?c \<noteq> 0"
    using assms(6) fe_neg_eq_0_iff[OF defined_value[OF assms(1)]] by (simp_all add: ops_canonical)
  have "\<exists>r. field_div F o' n = Some r \<and> sym_ok F env r
      \<and> (\<forall>x. sym_eval F env o' = Some x \<longrightarrow> sym_eval F env r = fe_div F x (fe_neg F ?c))"
    using assms(2) n cn(2) by (intro field_div_ok) (auto simp: defined_ok_def)
  then have r: "sym_eval F env r = fe_div F ?o (fe_neg F ?c)"
    using assms(2,5) by (auto simp: defined_ok_def)
  obtain q where q: "fe_div F ?o (fe_neg F ?c) = Some q" "canonical F q" "fe_mul F q (fe_neg F ?c) = ?o"
    using fe_div_nonzero[OF defined_value[OF assms(2)] cn] .
  have "fe_mul F x (fe_neg F ?c) = (- (?c * x)) mod modulus F"
    by (simp add: fe_mul_def fe_neg_def mod_mult_right_eq mult.commute)
  also have "\<dots> = ?o mod modulus F"
    using assms(7) by (intro mod_eqI_neg) (simp add: add.commute)
  also have "\<dots> = ?o" using defined_value[OF assms(2)] by (rule canonical_mod)
  finally have "q = x" using fe_mul_cancel[OF q(2) assms(3) cn] q(3) by simp
  with r q(1) show ?thesis by simp
qed

lemma field_div_total: "n \<noteq> Concrete 0 \<Longrightarrow> sym_ok F env a \<Longrightarrow> \<exists>r. field_div F a n = Some r"
  using sym_neg_ok[of env a] by (cases rule: field_div_cases[of a n F]) auto

lemma ase_solve_ok:
  assumes ok: "ase_ok F env a"
  shows "\<exists>r. ase_solve F a = Some r
     \<and> (ase_eval F env a = 0 \<longrightarrow> (\<forall>(v, rc) \<in> set (range_constraints a). rc_min rc = 0) \<longrightarrow>
          (\<exists>res. r = Inr res \<and> list_all (holds_effect F env) (effects res)))"
proof -
  let ?o = "the (sym_eval F env (offset a))"
  have off: "defined_ok F env (offset a)" using ok by (simp add: ase_ok_def)
  consider "coefficients a = []" | v c where "coefficients a = [(v, c)]" | "ase_solve F a = solve_many F a"
    by (cases "coefficients a" rule: remdups_adj.cases) (auto simp: ase_solve_def)
  then show ?thesis
  proof cases
    case 1
    then show ?thesis
      using known_nonzero_value[OF off] defined_value[OF off]
      by (auto simp: ase_solve_def ase_eval_def result_complete_def canonical_mod)
  next
    case (2 v c)
    have c: "defined_ok F env c" "c \<noteq> Concrete 0" "canonical F (env v)"
      using ok 2 by (auto simp: ase_ok_def)
    obtain n where n: "sym_neg F c = Some n" "n \<noteq> Concrete 0" using defined_neg[OF c(1)] c(2) by blast
    obtain q where q: "field_div F (offset a) n = Some q"
      using field_div_total[OF n(2)] off by (auto simp: defined_ok_def)
    have eval: "ase_eval F env a = (the (sym_eval F env c) * env v + ?o) mod modulus F"
      by (simp add: ase_eval_def 2)
    have val: "sym_eval F env q = Some (env v)" if "ase_eval F env a = 0" "the (sym_eval F env c) \<noteq> 0"
      using single_solution[OF c(1) off c(3) n(1) q that(2)] that(1) eval by simp
    have nz: "the (sym_eval F env c) \<noteq> 0" if "ase_eval F env a = 0" "is_known_nonzero (offset a)"
      using that known_nonzero_value[OF off] canonical_mod[OF defined_value[OF off]] eval
      by (metis add_0 mult_zero_left)
    show ?thesis
      using n q c known_nonzero_value[OF c(1)] val nz
      by (auto simp: ase_solve_def 2 result_complete_def result_empty_def holds_effect_def
          assert_is_nonzero_def assert_neq_def fe_from_def defined_ok_def)
  next
    case 3
    then show ?thesis using solve_many_ok[OF ok] by simp
  qed
qed

lemma ase_range_constraint_ok:
  assumes "ase_ok F env a"
  shows "\<exists>rc. ase_range_constraint F a = Some rc \<and> wf_rc F rc \<and> ase_eval F env a \<in> rc_values F rc"
proof -
  have un: "wf_rc F (unconstrained F)" "ase_eval F env a \<in> rc_values F (unconstrained F)"
    by (simp_all add: unconstrained_wf unconstrained_values ase_eval_def mod_canonical)
  show ?thesis
    using sum_constraint[OF assms, of "coefficients a"] un
    by (auto simp: ase_range_constraint_def ase_eval_def split: option.splits)
qed

end

section \<open>The theorems about affine symbolic expressions\<close>

text \<open>Adding, subtracting, negating affine symbolic expressions and multiplying them where one
  has no unknown variable never panics, keeps the invariant, in particular the soundness of all
  range constraints, and computes the sum, difference, negation and product of the values; a
  product is refused exactly when both factors have unknown variables. The range constraint
  computed for the whole expression allows its value.\<close>

theorem affine_symbolic_arithmetic:
  assumes "field_element F" "ase_ok F env a" "ase_ok F env b"
  shows "(\<exists>n. ase_add F a b = Some n \<and> ase_ok F env n
       \<and> ase_eval F env n = fe_add F (ase_eval F env a) (ase_eval F env b))
     \<and> (\<exists>n. ase_sub F a b = Some n \<and> ase_ok F env n
       \<and> ase_eval F env n = fe_sub F (ase_eval F env a) (ase_eval F env b))
     \<and> (\<exists>r. try_mul F a b = Some r
       \<and> (\<forall>n. r = Some n \<longrightarrow> ase_ok F env n
            \<and> ase_eval F env n = fe_mul F (ase_eval F env a) (ase_eval F env b))
       \<and> (r = None \<longleftrightarrow> coefficients a \<noteq> [] \<and> coefficients b \<noteq> []))
     \<and> (\<exists>rc. ase_range_constraint F a = Some rc \<and> wf_rc F rc \<and> ase_eval F env a \<in> rc_values F rc)"
proof -
  obtain n where n: "ase_neg F b = Some n" "ase_ok F env n" "ase_eval F env n = fe_neg F (ase_eval F env b)"
    using field_element.ase_neg_ok[OF assms(1,3)] by blast
  have "fe_add F x (fe_neg F y) = fe_sub F x y" for x y
    by (simp add: fe_add_def fe_neg_def fe_sub_def mod_add_right_eq)
  then have "\<exists>m. ase_sub F a b = Some m \<and> ase_ok F env m
       \<and> ase_eval F env m = fe_sub F (ase_eval F env a) (ase_eval F env b)"
    using field_element.ase_add_ok[OF assms(1,2) n(2)] n by (simp add: ase_sub_def)
  then show ?thesis
    using field_element.ase_add_ok[OF assms] field_element.try_mul_ok[OF assms]
      field_element.ase_range_constraint_ok[OF assms(1,2)] by blast
qed

theorem affine_symbolic_arithmetic_witness:
  "let F = goldilocks_field; env = (\<lambda>v :: nat. 5);
       a = from_unknown_variable F 0 (from_mask F 0xff); b = from_known_symbol 1 (from_mask F 0xff) in
   \<exists>n. ase_sub F a b = Some n \<and> ase_ok F env n \<and> ase_eval F env n = 0"
proof -
  let ?F = goldilocks_field and ?env = "\<lambda>v :: nat. 5 :: int"
  let ?a = "from_unknown_variable ?F (0 :: nat) (from_mask ?F 0xff)" and ?b = "from_known_symbol (1 :: nat) (from_mask ?F 0xff)"
  have f: "wf_rc ?F (from_mask ?F 0xff)" "canonical ?F 5" "canonical ?F 0" "canonical ?F 1"
    "allows_value (from_mask ?F 0xff) 5" "fe_from ?F 1 = 1" "fe_from ?F 0 = 0" "5 mod modulus ?F = 5" "fe_sub ?F 5 5 = 0"
    by code_simp+
  have a: "ase_ok ?F ?env ?a" "ase_eval ?F ?env ?a = 5"
    using f by (simp_all add: ase_ok_def from_unknown_variable_def bt_sorted_def defined_ok_def rc_values_def ase_eval_def)
  have b: "ase_ok ?F ?env ?b" "ase_eval ?F ?env ?b = 5"
    using f by (simp_all add: ase_ok_def from_known_symbol_def ase_from_def from_symbol_def bt_sorted_def
        defined_ok_def node_ok_def rc_values_def ase_eval_def)
  show ?thesis
    using affine_symbolic_arithmetic[OF gl.field_element_axioms a(1) b(1)] a(2) b(2) f(9) by (simp add: Let_def)
qed

text \<open>C10: Solving an affine symbolic equation never panics. If an assignment of the symbols and
  unknown variables satisfies the equation and the range constraints, which all start at zero,
  then no error is reported and every effect of the result holds: the assigned expressions
  evaluate to the values of the variables, the derived range constraints allow them, and the
  run-time assertions succeed.\<close>

theorem affine_symbolic_solve_sound:
  assumes "field_element F" "ase_ok F env a"
  shows "\<exists>r. ase_solve F a = Some r
     \<and> (ase_eval F env a = 0 \<longrightarrow> (\<forall>(v, rc) \<in> set (range_constraints a). rc_min rc = 0) \<longrightarrow>
          (\<exists>res. r = Inr res \<and> list_all (holds_effect F env) (effects res)))"
  by (rule field_element.ase_solve_ok[OF assms])

theorem affine_symbolic_solve_sound_witness:
  "let F = goldilocks_field; env = (\<lambda>v :: nat. if v = 0 then 0x34 else if v = 1 then 0x12 else 0x1234);
       byte = from_mask F 0xff;
       a = \<lparr>coefficients = [(0, Concrete 1), (1, Concrete 256)],
            offset = UnaryOperation Neg (Symbol 2 (unconstrained F)) (unconstrained F),
            range_constraints = [(0, byte), (1, byte)]\<rparr> in
   \<exists>res. ase_solve F a = Some (Inr res) \<and> list_all (holds_effect F env) (effects res)"
proof -
  let ?F = goldilocks_field
  let ?env = "\<lambda>v :: nat. if v = 0 then 0x34 else if v = 1 then 0x12 else 0x1234 :: int"
  let ?byte = "from_mask ?F 0xff" and ?un = "unconstrained ?F"
  let ?a = "\<lparr>coefficients = [(0 :: nat, Concrete 1), (1, Concrete 256)],
     offset = UnaryOperation Neg (Symbol 2 ?un) ?un, range_constraints = [(0, ?byte), (1, ?byte)]\<rparr>"
  have f: "wf_rc ?F ?byte" "wf_rc ?F ?un" "canonical ?F 0x34" "canonical ?F 0x12" "canonical ?F 0x1234"
    "canonical ?F 1" "canonical ?F 256" "canonical ?F (fe_neg ?F 0x1234)"
    "allows_value ?byte 0x34" "allows_value ?byte 0x12" "allows_value ?un 0x1234" "allows_value ?un (fe_neg ?F 0x1234)"
    "rc_min ?byte = 0" "(1 * 0x34 + (256 * 0x12 + fe_neg ?F 0x1234)) mod modulus ?F = 0"
    by code_simp+
  have ok: "ase_ok ?F ?env ?a"
    using f by (auto simp: ase_ok_def bt_sorted_def defined_ok_def node_ok_def rc_values_def)
  have z: "ase_eval ?F ?env ?a = 0" using f(14) by (simp add: ase_eval_def)
  show ?thesis
    using affine_symbolic_solve_sound[OF gl.field_element_axioms ok] z f(13) by (auto simp: Let_def)
qed

end
