(* ===== verification/Padded_Bitvec.thy ===== *)
theory Padded_Bitvec
  imports Prelude
begin

text \<open>
  The bit vector of the known cells of a trace,
  \<open>executor/src/witgen/data_structures/padded_bitvec.rs\<close>: the bits of every row start at a new
  32-bit word. The operations are shown to implement a list of rows of bits. Sizes and indices
  are natural numbers; every index into the vector of words is checked.
\<close>

section \<open>The data and the operations\<close>

record padded_bitvec =
  pb_data :: "u32 list"
  bits_per_row :: nat
  words_per_row :: nat
  rows :: nat
  bits_in_last_row :: nat

definition pb_new :: "nat \<Rightarrow> padded_bitvec" where
  "pb_new bits =
     \<lparr>pb_data = [], bits_per_row = bits, words_per_row = (bits + 31) div 32, rows = 0, bits_in_last_row = bits\<rparr>"

definition truncate_to_rows :: "padded_bitvec \<Rightarrow> nat \<Rightarrow> padded_bitvec option" where
  "truncate_to_rows v len = do {
     rust_assert (len \<le> rows v);
     Some (if len < rows v
       then v\<lparr>pb_data := take (len * words_per_row v) (pb_data v), bits_in_last_row := bits_per_row v, rows := len\<rparr>
       else v)
   }"

definition pb_clear :: "padded_bitvec \<Rightarrow> padded_bitvec" where
  "pb_clear v = v\<lparr>pb_data := [], rows := 0, bits_in_last_row := bits_per_row v\<rparr>"

definition pb_push :: "padded_bitvec \<Rightarrow> bool \<Rightarrow> padded_bitvec option" where
  "pb_push v b =
     (if bits_in_last_row v = bits_per_row v
      then Some (v\<lparr>pb_data := pb_data v @ [of_bool b], rows := rows v + 1, bits_in_last_row := 1\<rparr>)
      else do {
        d \<leftarrow> (if bits_in_last_row v mod 32 = 0 then Some (pb_data v @ [of_bool b])
              else if b then do {
                rust_assert (pb_data v \<noteq> []);
                Some (butlast (pb_data v) @ [last (pb_data v) OR push_bit (bits_in_last_row v mod 32) 1])
              }
              else Some (pb_data v));
        Some (v\<lparr>pb_data := d, bits_in_last_row := bits_in_last_row v + 1\<rparr>)
      })"

definition append_empty_rows :: "padded_bitvec \<Rightarrow> nat \<Rightarrow> padded_bitvec option" where
  "append_empty_rows v count = do {
     rust_assert (bits_in_last_row v = bits_per_row v);
     Some (v\<lparr>pb_data := pb_data v @ replicate (count * words_per_row v) 0, rows := rows v + count\<rparr>)
   }"

definition to_word_and_bit_mask :: "padded_bitvec \<Rightarrow> nat \<Rightarrow> nat \<Rightarrow> (nat \<times> u32) option" where
  "to_word_and_bit_mask v row col =
     (if row \<ge> rows v \<or> row + 1 = rows v \<and> col \<ge> bits_in_last_row v then None
      else Some (row * words_per_row v + col div 32, push_bit (col mod 32) 1))"

definition pb_get :: "padded_bitvec \<Rightarrow> nat \<Rightarrow> nat \<Rightarrow> bool option" where
  "pb_get v row col = do {
     (i, m) \<leftarrow> to_word_and_bit_mask v row col;
     rust_assert (i < length (pb_data v));
     Some (pb_data v ! i AND m \<noteq> 0)
   }"

definition pb_set :: "padded_bitvec \<Rightarrow> nat \<Rightarrow> nat \<Rightarrow> bool \<Rightarrow> padded_bitvec option" where
  "pb_set v row col b = do {
     (i, m) \<leftarrow> to_word_and_bit_mask v row col;
     rust_assert (i < length (pb_data v));
     Some (v\<lparr>pb_data := (pb_data v)[i := (if b then pb_data v ! i OR m else pb_data v ! i AND NOT m)]\<rparr>)
   }"

section \<open>The abstract bit matrix\<close>

text \<open>The number of bits of a row, and the rows of bits that a vector stands for.\<close>

definition row_len :: "padded_bitvec \<Rightarrow> nat \<Rightarrow> nat" where
  "row_len v r = (if r + 1 = rows v then bits_in_last_row v else bits_per_row v)"

definition pb_bit :: "padded_bitvec \<Rightarrow> nat \<Rightarrow> nat \<Rightarrow> bool" where
  "pb_bit v r c = bit (pb_data v ! (r * words_per_row v + c div 32)) (c mod 32)"

definition pb_bits :: "padded_bitvec \<Rightarrow> bool list list" where
  "pb_bits v = map (\<lambda>r. map (pb_bit v r) [0..<row_len v r]) [0..<rows v]"

definition pb_ok :: "padded_bitvec \<Rightarrow> bool" where
  "pb_ok v \<longleftrightarrow> 0 < bits_per_row v \<and> words_per_row v = (bits_per_row v + 31) div 32
     \<and> (if rows v = 0 then pb_data v = [] \<and> bits_in_last_row v = bits_per_row v
        else 1 \<le> bits_in_last_row v \<and> bits_in_last_row v \<le> bits_per_row v
          \<and> length (pb_data v) = (rows v - 1) * words_per_row v + (bits_in_last_row v + 31) div 32
          \<and> (bits_in_last_row v < bits_per_row v \<longrightarrow>
               (\<forall>n. 0 < bits_in_last_row v mod 32 \<longrightarrow> bits_in_last_row v mod 32 \<le> n \<longrightarrow> \<not> bit (last (pb_data v)) n)))"

lemma ceil_div_mono: "c < b \<Longrightarrow> c div 32 < (b + 31) div (32 :: nat)"
  by (simp add: div_le_mono less_eq_Suc_le[symmetric] Suc_le_eq)

lemma ceil_div_mod:
  "0 < k mod 32 \<Longrightarrow> (k + 31) div 32 = k div 32 + (1 :: nat)"
  "k mod 32 = 0 \<Longrightarrow> (k + 31) div 32 = k div (32 :: nat)"
  "(k + 1 + 31) div 32 = k div 32 + (1 :: nat)"
proof -
  have r: "k mod 32 < 32" by simp
  have d: "(k + 31) div 32 = k div 32 + (k mod 32 + 31) div 32" by (simp add: div_add1_eq[of k 31])
  show "(k + 31) div 32 = k div 32 + 1" if "0 < k mod 32"
    using that r unfolding d by (simp add: div_nat_eqI)
  show "(k + 31) div 32 = k div 32" if "k mod 32 = 0" unfolding d that by simp
  show "(k + 1 + 31) div 32 = k div 32 + 1" by simp
qed

lemma same_word_less: "c < k \<Longrightarrow> c div 32 = k div 32 \<Longrightarrow> c mod 32 < k mod (32 :: nat)"
  using div_mult_mod_eq[of c 32] div_mult_mod_eq[of k 32] by linarith

lemma word_index_less:
  assumes "pb_ok v" "r < rows v" "c < row_len v r"
  shows "r * words_per_row v + c div 32 < length (pb_data v)"
proof (cases "r + 1 = rows v")
  case True
  then have "r = rows v - 1" "c < bits_in_last_row v" using assms by (auto simp: row_len_def)
  moreover have "length (pb_data v) = (rows v - 1) * words_per_row v + (bits_in_last_row v + 31) div 32"
    using assms by (auto simp: pb_ok_def)
  ultimately show ?thesis using ceil_div_mono by simp
next
  case False
  then have c: "c div 32 < words_per_row v" and r: "r + 1 \<le> rows v - 1"
    using assms ceil_div_mono[of c "bits_per_row v"] by (auto simp: row_len_def pb_ok_def)
  have "r * words_per_row v + c div 32 < (r + 1) * words_per_row v" using c by simp
  also have "\<dots> \<le> (rows v - 1) * words_per_row v" using r by (rule mult_le_mono1)
  also have "\<dots> \<le> length (pb_data v)" using assms by (auto simp: pb_ok_def split: if_splits)
  finally show ?thesis .
qed

lemma row_len_le: "pb_ok v \<Longrightarrow> row_len v r \<le> bits_per_row v"
  by (auto simp: row_len_def pb_ok_def split: if_splits)

text \<open>Different cells have different words or different bits in the word.\<close>

lemma cell_index_inj:
  fixes W :: nat
  assumes "c div 32 < W" "c' div 32 < W" "r * W + c div 32 = r' * W + c' div 32" "c mod 32 = c' mod 32"
  shows "r = r' \<and> c = c'"
proof -
  have "(r * W + c div 32) div W = r" "(r' * W + c' div 32) div W = r'"
    using assms(1,2) by (simp_all add: div_add1_eq)
  then have "r = r'" using assms(3) by simp
  moreover from this have "c div 32 = c' div 32" using assms(3) by simp
  then have "c = c'" using assms(4) by (metis div_mult_mod_eq)
  ultimately show ?thesis by simp
qed

lemma mask_word_bit: "((w :: u32) AND 2 ^ n = 0) = (\<not> bit w n)"
  using bit_iff_and_push_bit_not_eq_0[of w n] by simp

lemma pb_get_ok:
  assumes "pb_ok v" "r < rows v" "c < row_len v r"
  shows "pb_get v r c = Some (pb_bit v r c)"
  using assms word_index_less[OF assms]
  by (auto simp: pb_get_def to_word_and_bit_mask_def row_len_def pb_bit_def mask_word_bit split: if_splits)

text \<open>Setting a bit changes this bit only.\<close>

lemma pb_set_ok:
  assumes "pb_ok v" "r < rows v" "c < row_len v r"
  shows "\<exists>v'. pb_set v r c b = Some v' \<and> pb_ok v' \<and> rows v' = rows v \<and> row_len v' = row_len v
     \<and> (\<forall>r' c'. r' < rows v \<longrightarrow> c' < row_len v r' \<longrightarrow>
          pb_bit v' r' c' = (if r' = r \<and> c' = c then b else pb_bit v r' c'))"
proof -
  let ?i = "r * words_per_row v + c div 32"
  let ?w = "if b then pb_data v ! ?i OR 2 ^ (c mod 32) else pb_data v ! ?i AND NOT (2 ^ (c mod 32))"
  let ?v = "v\<lparr>pb_data := (pb_data v)[?i := ?w]\<rparr>"
  have i: "?i < length (pb_data v)" by (rule word_index_less[OF assms])
  have set: "pb_set v r c b = Some ?v"
    using assms i by (auto simp: pb_set_def to_word_and_bit_mask_def row_len_def split: if_splits)
  have wbit: "bit ?w n = (if n = c mod 32 then b else bit (pb_data v ! ?i) n)" if "n < 32" for n
    using that by (auto simp: bit_simps)
  have bits: "pb_bit ?v r' c' = (if r' = r \<and> c' = c then b else pb_bit v r' c')"
    if "r' < rows v" "c' < row_len v r'" for r' c'
  proof (cases "r' * words_per_row v + c' div 32 = ?i")
    case True
    have W: "c div 32 < words_per_row v" "c' div 32 < words_per_row v"
      using assms that row_len_le[OF assms(1)] ceil_div_mono[of _ "bits_per_row v"]
      by (simp_all add: pb_ok_def less_le_trans)
    have "c' mod 32 = c mod 32 \<longleftrightarrow> r' = r \<and> c' = c"
      using cell_index_inj[OF W(2,1) True] by auto
    with True i show ?thesis by (simp add: pb_bit_def wbit)
  next
    case False
    then show ?thesis by (auto simp: pb_bit_def)
  qed
  have "pb_ok ?v"
  proof -
    have "\<not> bit (last ((pb_data v)[?i := ?w])) n"
      if lt: "bits_in_last_row v < bits_per_row v" "rows v \<noteq> 0" and n: "0 < bits_in_last_row v mod 32" "bits_in_last_row v mod 32 \<le> n" for n
    proof -
      let ?k = "bits_in_last_row v"
      have old: "\<not> bit (last (pb_data v)) n" using assms(1) lt n by (simp add: pb_ok_def)
      have len: "length (pb_data v) = (rows v - 1) * words_per_row v + ?k div 32 + 1"
        using assms(1) lt ceil_div_mod(1)[OF n(1)] by (simp add: pb_ok_def)
      show ?thesis
      proof (cases "?i = length (pb_data v) - 1")
        case True
        have "c div 32 < words_per_row v" "?k div 32 < words_per_row v"
          using assms row_len_le[OF assms(1), of r] lt ceil_div_mono[of _ "bits_per_row v"] by (simp_all add: pb_ok_def)
        moreover have "?i = (rows v - 1) * words_per_row v + ?k div 32" using True len by simp
        ultimately have "r = rows v - 1 \<and> c div 32 = ?k div 32"
          using cell_index_inj[of "32 * (c div 32)" "words_per_row v" "32 * (?k div 32)" r "rows v - 1"] by simp
        then have "c mod 32 < ?k mod 32"
          using assms(2,3) lt by (intro same_word_less) (auto simp: row_len_def)
        moreover have ne: "pb_data v \<noteq> []" using i by auto
        ultimately show ?thesis
          using old n True last_conv_nth[OF ne] by (auto simp: last_list_update[OF ne] bit_simps)
      next
        case False
        with old i show ?thesis by (cases "pb_data v = []") (auto simp: last_conv_nth)
      qed
    qed
    with assms(1) show ?thesis by (auto simp: pb_ok_def split: if_splits)
  qed
  with set bits show ?thesis by (auto simp: row_len_def fun_eq_iff)
qed

lemma length_full:
  "pb_ok v \<Longrightarrow> bits_in_last_row v = bits_per_row v \<Longrightarrow> length (pb_data v) = rows v * words_per_row v"
  by (cases "rows v") (auto simp: pb_ok_def)

lemma butlast_snoc_update: "xs \<noteq> [] \<Longrightarrow> butlast xs @ [x] = xs[length xs - 1 := x]"
  by (cases xs rule: rev_cases) simp_all

text \<open>Appending a bit.\<close>

lemma pb_push_ok:
  assumes "pb_ok v"
  shows "\<exists>v'. pb_push v b = Some v' \<and> pb_ok v' \<and> bits_per_row v' = bits_per_row v
     \<and> (let new = bits_in_last_row v = bits_per_row v;
            r = if new then rows v else rows v - 1; c = if new then 0 else bits_in_last_row v in
        rows v' = r + 1 \<and> bits_in_last_row v' = c + 1 \<and> pb_bit v' r c = b
        \<and> (\<forall>r' c'. r' < rows v \<longrightarrow> c' < row_len v r' \<longrightarrow> pb_bit v' r' c' = pb_bit v r' c'))"
proof (cases "bits_in_last_row v = bits_per_row v")
  case True
  let ?v = "v\<lparr>pb_data := pb_data v @ [of_bool b], rows := rows v + 1, bits_in_last_row := 1\<rparr>"
  note len = length_full[OF assms True]
  have "pb_ok ?v"
    using assms len by (auto simp: pb_ok_def bit_1_iff split: if_splits)
  moreover have "pb_bit ?v (rows v) 0 = b" by (simp add: pb_bit_def len[symmetric])
  moreover have "pb_bit ?v r c = pb_bit v r c" if "r < rows v" "c < row_len v r" for r c
    using word_index_less[OF assms that] by (simp add: pb_bit_def nth_append)
  ultimately show ?thesis using True by (simp add: pb_push_def Let_def)
next
  case False
  let ?k = "bits_in_last_row v" and ?W = "words_per_row v"
  have r0: "rows v \<noteq> 0" using assms False by (auto simp: pb_ok_def split: if_splits)
  then have k: "1 \<le> ?k" "?k < bits_per_row v" using assms False by (auto simp: pb_ok_def)
  have len: "length (pb_data v) = (rows v - 1) * ?W + (?k + 31) div 32" using assms r0 by (simp add: pb_ok_def)
  show ?thesis
  proof (cases "?k mod 32 = 0")
    case True
    then have len0: "length (pb_data v) = (rows v - 1) * ?W + ?k div 32" using len ceil_div_mod(2)[OF True] by simp
    let ?v = "v\<lparr>pb_data := pb_data v @ [of_bool b], bits_in_last_row := ?k + 1\<rparr>"
    have "pb_ok ?v" using assms r0 k True len0
      by (auto simp: pb_ok_def bit_1_iff ceil_div_mod(3)[of ?k, simplified] mod_Suc split: if_splits)
    moreover have "pb_bit ?v (rows v - 1) ?k = b" 
      using True nth_append_length[of "pb_data v" "of_bool b" "[]"] by (simp add: pb_bit_def len0)
    moreover have "pb_bit ?v r c = pb_bit v r c" if "r < rows v" "c < row_len v r" for r c
      using word_index_less[OF assms that] by (simp add: pb_bit_def nth_append)
    ultimately show ?thesis using True False r0 by (simp add: pb_push_def Let_def)
  next
    case mod: False
    let ?j = "?k mod 32" and ?d = "pb_data v"
    have lenk: "length ?d = (rows v - 1) * ?W + ?k div 32 + 1" using len ceil_div_mod(1)[of ?k] mod by simp
    have ne: "?d \<noteq> []" using lenk by auto
    define w where "w = (if b then last ?d OR 2 ^ ?j else last ?d)"
    let ?v = "v\<lparr>pb_data := ?d[length ?d - 1 := w], bits_in_last_row := ?k + 1\<rparr>"
    have push: "pb_push v b = Some ?v"
      using False mod ne by (auto simp: pb_push_def w_def butlast_snoc_update[OF ne] last_conv_nth)
    have zero: "\<not> bit (last ?d) n" if "?j \<le> n" for n
      using that assms r0 k mod by (simp add: pb_ok_def)
    have wbit: "bit w n = (if n = ?j then b else bit (last ?d) n)" if "n < 32" for n
      using that zero by (auto simp: w_def bit_simps)
    have "\<not> bit w n" if "(?k + 1) mod 32 \<le> n" "0 < (?k + 1) mod 32" for n
    proof (cases "n < 32")
      case True
      have "?j < n" using that mod_Suc[of ?k 32] by (auto split: if_splits)
      then show ?thesis using wbit[OF True] zero by auto
    next
      case False
      then show ?thesis using bit_imp_le_length[of w n] by auto
    qed
    then have "pb_ok ?v" using assms r0 k lenk ne
      by (auto simp: pb_ok_def last_list_update ceil_div_mod(3)[of ?k, simplified])
    moreover have "pb_bit ?v (rows v - 1) ?k = b" using lenk wbit[of ?j] by (simp add: pb_bit_def)
    moreover have "pb_bit ?v r c = pb_bit v r c" if rc: "r < rows v" "c < row_len v r" for r c
    proof (cases "r * ?W + c div 32 = length ?d - 1")
      case True
      have "c div 32 < ?W" "?k div 32 < ?W"
        using assms rc row_len_le[OF assms, of r] k ceil_div_mono[of _ "bits_per_row v"] by (simp_all add: pb_ok_def)
      then have "c mod 32 \<noteq> ?j"
        using cell_index_inj[of c ?W ?k r "rows v - 1"] True lenk rc r0 by (auto simp: row_len_def split: if_splits)
      with True wbit[of "c mod 32"] ne show ?thesis by (simp add: pb_bit_def last_conv_nth)
    next
      case False
      then show ?thesis by (simp add: pb_bit_def)
    qed
    ultimately show ?thesis using False r0 push by (simp add: Let_def)
  qed
qed

lemma append_empty_rows_ok:
  assumes "pb_ok v" "bits_in_last_row v = bits_per_row v"
  shows "\<exists>v'. append_empty_rows v n = Some v' \<and> pb_ok v' \<and> bits_per_row v' = bits_per_row v
     \<and> rows v' = rows v + n \<and> bits_in_last_row v' = bits_per_row v
     \<and> (\<forall>r c. r < rows v \<longrightarrow> c < bits_per_row v \<longrightarrow> pb_bit v' r c = pb_bit v r c)
     \<and> (\<forall>r c. rows v \<le> r \<longrightarrow> r < rows v + n \<longrightarrow> c < bits_per_row v \<longrightarrow> \<not> pb_bit v' r c)"
proof -
  let ?W = "words_per_row v"
  let ?v = "v\<lparr>pb_data := pb_data v @ replicate (n * ?W) 0, rows := rows v + n\<rparr>"
  note len = length_full[OF assms]
  have W: "?W = (bits_per_row v + 31) div 32" using assms(1) by (simp add: pb_ok_def)
  have "(rows v + n) * ?W = (rows v + n - 1) * ?W + ?W" if "0 < rows v + n"
    using that by (cases "rows v + n") simp_all
  then have ok: "pb_ok ?v"
    using assms len W by (auto simp: pb_ok_def distrib_right split: if_splits)
  have old: "pb_bit ?v r c = pb_bit v r c" if "r < rows v" "c < bits_per_row v" for r c
    using word_index_less[OF assms(1), of r c] that assms(2) by (simp add: pb_bit_def nth_append row_len_def)
  have new: "\<not> pb_bit ?v r c" if "rows v \<le> r" "r < rows v + n" "c < bits_per_row v" for r c
  proof -
    have "row_len ?v r = bits_per_row v" using assms(2) by (simp add: row_len_def)
    then have "r * ?W + c div 32 < length (pb_data ?v)" using word_index_less[OF ok, of r c] that by simp
    moreover have "length (pb_data v) \<le> r * ?W + c div 32" using that(1) by (simp add: len le_add1 trans_le_add1)
    ultimately show ?thesis by (simp add: pb_bit_def nth_append)
  qed
  show ?thesis
    using ok old new assms(2) by (simp add: append_empty_rows_def)
qed

lemma truncate_to_rows_ok:
  assumes "pb_ok v" "n \<le> rows v"
  shows "\<exists>v'. truncate_to_rows v n = Some v' \<and> pb_ok v' \<and> bits_per_row v' = bits_per_row v
     \<and> rows v' = n \<and> (\<forall>r c. r < n \<longrightarrow> c < row_len v r \<longrightarrow> row_len v' r = row_len v r \<and> pb_bit v' r c = pb_bit v r c)"
proof (cases "n < rows v")
  case True
  let ?W = "words_per_row v"
  let ?v = "v\<lparr>pb_data := take (n * ?W) (pb_data v), bits_in_last_row := bits_per_row v, rows := n\<rparr>"
  have "(rows v - 1) * ?W \<le> length (pb_data v)" using assms(1) True by (auto simp: pb_ok_def)
  moreover have "n * ?W \<le> (rows v - 1) * ?W" using True by (intro mult_le_mono1) simp
  ultimately have len: "n * ?W \<le> length (pb_data v)" by (rule order_trans[rotated])
  have W: "?W = (bits_per_row v + 31) div 32" using assms(1) by (simp add: pb_ok_def)
  have "pb_ok ?v" using assms(1) len W by (cases n) (auto simp: pb_ok_def min_def)
  moreover have "pb_bit ?v r c = pb_bit v r c" if "r < n" "c < row_len v r" for r c
  proof -
    have "c div 32 < ?W"
      using that True ceil_div_mono[of c "bits_per_row v"] W by (simp add: row_len_def)
    then have "r * ?W + c div 32 < (r + 1) * ?W" by simp
    also have "\<dots> \<le> n * ?W" using that(1) by (intro mult_le_mono1) simp
    finally show ?thesis by (simp add: pb_bit_def)
  qed
  ultimately show ?thesis using True by (auto simp: truncate_to_rows_def row_len_def)
qed (use assms in \<open>auto simp: truncate_to_rows_def\<close>)

lemma pb_bits_nth:
  "r < rows v \<Longrightarrow> pb_bits v ! r = map (pb_bit v r) [0..<row_len v r]"
  by (simp add: pb_bits_def)

lemma pb_bits_length [simp]: "length (pb_bits v) = rows v"
  by (simp add: pb_bits_def)

lemma pb_bits_eqI:
  assumes "rows v = length m" "\<And>r. r < length m \<Longrightarrow> row_len v r = length (m ! r)"
    and "\<And>r c. r < length m \<Longrightarrow> c < length (m ! r) \<Longrightarrow> pb_bit v r c = m ! r ! c"
  shows "pb_bits v = m"
  using assms by (intro nth_equalityI) (auto simp: pb_bits_nth intro!: nth_equalityI)

text \<open>The operations on the abstract matrix.\<close>

lemma pb_bits_get:
  assumes "pb_ok v" "r < rows v" "c < row_len v r"
  shows "pb_get v r c = Some (pb_bits v ! r ! c)"
  using pb_get_ok[OF assms] assms(2,3) by (simp add: pb_bits_nth)

lemma pb_bits_set:
  assumes "pb_ok v" "r < rows v" "c < row_len v r"
  shows "\<exists>v'. pb_set v r c b = Some v' \<and> pb_ok v' \<and> pb_bits v' = (pb_bits v)[r := (pb_bits v ! r)[c := b]]
     \<and> rows v' = rows v \<and> row_len v' = row_len v \<and> bits_per_row v' = bits_per_row v
     \<and> bits_in_last_row v' = bits_in_last_row v"
proof -
  obtain s where s: "pb_set v r c b = Some s" "pb_ok s" "rows s = rows v" "row_len s = row_len v"
    "\<forall>r' c'. r' < rows v \<longrightarrow> c' < row_len v r' \<longrightarrow> pb_bit s r' c' = (if r' = r \<and> c' = c then b else pb_bit v r' c')"
    using pb_set_ok[OF assms] by blast
  have "pb_bits s = (pb_bits v)[r := (pb_bits v ! r)[c := b]]"
    using s(3-5) assms(2,3) by (intro pb_bits_eqI) (auto simp: nth_list_update pb_bits_nth)
  moreover have "bits_per_row s = bits_per_row v" "bits_in_last_row s = bits_in_last_row v"
    using s(1) by (auto simp: pb_set_def to_word_and_bit_mask_def bind_eq_Some_conv split: if_splits)
  ultimately show ?thesis using s(1-4) by blast
qed

lemma pb_bits_push:
  assumes "pb_ok v"
  shows "\<exists>v'. pb_push v b = Some v' \<and> pb_ok v' \<and> bits_per_row v' = bits_per_row v
     \<and> (if bits_in_last_row v = bits_per_row v
        then pb_bits v' = pb_bits v @ [[b]] \<and> rows v' = rows v + 1 \<and> bits_in_last_row v' = 1
        else pb_bits v' = (pb_bits v)[rows v - 1 := pb_bits v ! (rows v - 1) @ [b]]
          \<and> rows v' = rows v \<and> bits_in_last_row v' = bits_in_last_row v + 1)"
proof -
  obtain p where p: "pb_push v b = Some p" "pb_ok p" "bits_per_row p = bits_per_row v"
    "let new = bits_in_last_row v = bits_per_row v;
         r = if new then rows v else rows v - 1; c = if new then 0 else bits_in_last_row v in
     rows p = r + 1 \<and> bits_in_last_row p = c + 1 \<and> pb_bit p r c = b
     \<and> (\<forall>r' c'. r' < rows v \<longrightarrow> c' < row_len v r' \<longrightarrow> pb_bit p r' c' = pb_bit v r' c')"
    using pb_push_ok[OF assms] by blast
  have "rows v \<noteq> 0" if "bits_in_last_row v \<noteq> bits_per_row v"
    using that assms by (auto simp: pb_ok_def split: if_splits)
  then have "pb_bits p = (if bits_in_last_row v = bits_per_row v then pb_bits v @ [[b]]
           else (pb_bits v)[rows v - 1 := pb_bits v ! (rows v - 1) @ [b]])"
    using p(3,4)
    by (intro pb_bits_eqI) (auto simp: Let_def row_len_def nth_append nth_list_update pb_bits_nth less_Suc_eq split: if_splits)
  with p \<open>_ \<Longrightarrow> rows v \<noteq> 0\<close> show ?thesis by (auto simp: Let_def)
qed

lemma pb_bits_append:
  assumes "pb_ok v" "bits_in_last_row v = bits_per_row v"
  shows "\<exists>v'. append_empty_rows v k = Some v' \<and> pb_ok v' \<and> bits_per_row v' = bits_per_row v
     \<and> rows v' = rows v + k \<and> bits_in_last_row v' = bits_per_row v
     \<and> pb_bits v' = pb_bits v @ replicate k (replicate (bits_per_row v) False)"
proof -
  obtain a where a: "append_empty_rows v k = Some a" "pb_ok a" "bits_per_row a = bits_per_row v"
    "rows a = rows v + k" "bits_in_last_row a = bits_per_row v"
    "\<forall>r c. r < rows v \<longrightarrow> c < bits_per_row v \<longrightarrow> pb_bit a r c = pb_bit v r c"
    "\<forall>r c. rows v \<le> r \<longrightarrow> r < rows v + k \<longrightarrow> c < bits_per_row v \<longrightarrow> \<not> pb_bit a r c"
    using append_empty_rows_ok[OF assms] by blast
  have "pb_bits a = pb_bits v @ replicate k (replicate (bits_per_row v) False)"
    using a(3-7) assms(2) by (intro pb_bits_eqI) (auto simp: row_len_def nth_append pb_bits_nth)
  with a(1-5) show ?thesis by blast
qed

lemma pb_bits_truncate:
  assumes "pb_ok v" "n \<le> rows v"
  shows "\<exists>v'. truncate_to_rows v n = Some v' \<and> pb_ok v' \<and> bits_per_row v' = bits_per_row v
     \<and> rows v' = n \<and> (bits_in_last_row v = bits_per_row v \<longrightarrow> bits_in_last_row v' = bits_per_row v)
     \<and> pb_bits v' = take n (pb_bits v)"
proof -
  obtain t where t: "truncate_to_rows v n = Some t" "pb_ok t" "rows t = n" "bits_per_row t = bits_per_row v"
    "\<forall>r c. r < n \<longrightarrow> c < row_len v r \<longrightarrow> row_len t r = row_len v r \<and> pb_bit t r c = pb_bit v r c"
    using truncate_to_rows_ok[OF assms] by blast
  have "0 < row_len v r" for r using assms(1) by (auto simp: row_len_def pb_ok_def split: if_splits)
  then have "pb_bits t = take n (pb_bits v)"
    using t(3,5) assms(2) by (intro pb_bits_eqI) (auto simp: pb_bits_nth)
  moreover have "bits_in_last_row v = bits_per_row v \<longrightarrow> bits_in_last_row t = bits_per_row v"
    using t(1) assms(2) by (auto simp: truncate_to_rows_def split: if_splits)
  ultimately show ?thesis using t(1-4) by blast
qed



text \<open>
  The bounds check covers the columns of the last row only: in another row, a column beyond the
  bits of the row is accepted and addresses a word of a later row.
\<close>

lemma column_not_checked:
  "let v = \<lparr>pb_data = [0, 0], bits_per_row = 3, words_per_row = 1, rows = 2, bits_in_last_row = 3\<rparr> in
   pb_get v 1 0 = Some False \<and> (\<exists>w. pb_set v 0 32 True = Some w \<and> pb_get w 1 0 = Some True)"
  by (simp add: pb_get_def pb_set_def to_word_and_bit_mask_def)

end
