(* ===== verification/Riscv_Elem.thy ===== *)
theory Riscv_Elem
  imports Goldilocks "HOL-Library.Signed_Division"
begin

text \<open>
  The values of the RISC-V executor, \<open>riscv-executor/src/lib.rs\<close>: \<open>Elem\<close> is either a
  native \<open>i64\<close> or a field element. An \<open>i64\<close>, a \<open>u32\<close> and a \<open>u8\<close> are integers with
  their range written out: the operators that overflow panic (\<open>None\<close>), a cast \<open>as u32\<close>
  keeps the lower 32 bits.
\<close>

section \<open>Native integers\<close>

definition in_i64 :: "int \<Rightarrow> bool" where
  "in_i64 x \<longleftrightarrow> - (2 ^ 63) \<le> x \<and> x < 2 ^ 63"

definition in_u32 :: "int \<Rightarrow> bool" where
  "in_u32 x \<longleftrightarrow> 0 \<le> x \<and> x < 2 ^ 32"

definition in_i32 :: "int \<Rightarrow> bool" where
  "in_i32 x \<longleftrightarrow> - (2 ^ 31) \<le> x \<and> x < 2 ^ 31"

text \<open>The result of an operator on \<open>i64\<close> or \<open>u32\<close>, and the conversions \<open>try_into\<close>.\<close>

definition check_i64 :: "int \<Rightarrow> int option" where
  "check_i64 x = (if in_i64 x then Some x else None)"

definition check_u32 :: "int \<Rightarrow> int option" where
  "check_u32 x = (if in_u32 x then Some x else None)"

definition check_i32 :: "int \<Rightarrow> int option" where
  "check_i32 x = (if in_i32 x then Some x else None)"

definition as_u32 :: "int \<Rightarrow> int" where
  "as_u32 x = x mod 2 ^ 32"

definition as_u64 :: "int \<Rightarrow> int" where
  "as_u64 x = x mod 2 ^ 64"

definition as_i32 :: "int \<Rightarrow> int" where
  "as_i32 x = signed_take_bit 31 x"

definition as_i64 :: "int \<Rightarrow> int" where
  "as_i64 x = signed_take_bit 63 x"

text \<open>Division and remainder of \<open>i64\<close> truncate and panic on a zero divisor or an overflow.\<close>

definition i64_div :: "int \<Rightarrow> int \<Rightarrow> int option" where
  "i64_div a b = (if b = 0 then None else check_i64 (a sdiv b))"

definition i64_rem :: "int \<Rightarrow> int \<Rightarrow> int option" where
  "i64_rem a b = (if b = 0 \<or> a = - (2 ^ 63) \<and> b = - 1 then None else Some (a smod b))"

section \<open>\<open>Elem\<close>\<close>

datatype elem = Elem_Binary int | Elem_Field int

definition try_from_fe_as_bin :: "field_desc \<Rightarrow> int \<Rightarrow> elem option" where
  "try_from_fe_as_bin F value =
     (let integer = to_signed_integer F value in
      if in_u32 integer then Some (Elem_Binary integer)
      else if in_i32 integer then Some (Elem_Binary integer) else None)"

definition from_u32_as_fe :: "field_desc \<Rightarrow> int \<Rightarrow> elem" where
  "from_u32_as_fe F value = Elem_Field (fe_from F value)"

definition from_i32_as_fe :: "field_desc \<Rightarrow> int \<Rightarrow> elem" where
  "from_i32_as_fe F value = Elem_Field (fe_from F value)"

definition from_bool_as_fe :: "bool \<Rightarrow> elem" where
  "from_bool_as_fe value = (if value then Elem_Field 1 else Elem_Field 0)"

fun into_fe :: "field_desc \<Rightarrow> elem \<Rightarrow> int" where
  "into_fe F (Elem_Field f) = f"
| "into_fe F (Elem_Binary b) = fe_from F b"

text \<open>The lower eight bytes of a field element; the conversion to an array of eight bytes
  panics for a field with a smaller integer type.\<close>

fun as_i64_from_lower_bytes :: "field_desc \<Rightarrow> elem \<Rightarrow> int option" where
  "as_i64_from_lower_bytes F (Elem_Binary b) = Some b"
| "as_i64_from_lower_bytes F (Elem_Field f) = (if NUM_BITS F < 64 then None else Some (as_i64 f))"

fun bin :: "elem \<Rightarrow> int option" where
  "bin (Elem_Binary b) = Some b"
| "bin (Elem_Field _) = None"

definition elem_u :: "elem \<Rightarrow> int option" where
  "elem_u x = bin x \<bind> check_u32"

definition elem_s :: "elem \<Rightarrow> int option" where
  "elem_s x = bin x \<bind> check_i32"

fun elem_is_zero :: "elem \<Rightarrow> bool" where
  "elem_is_zero (Elem_Binary b) = (b = 0)"
| "elem_is_zero (Elem_Field f) = (f = 0)"

fun elem_add :: "field_desc \<Rightarrow> elem \<Rightarrow> elem \<Rightarrow> elem option" where
  "elem_add F (Elem_Binary a) (Elem_Binary b) = map_option Elem_Binary (check_i64 (a + b))"
| "elem_add F (Elem_Field a) (Elem_Field b) = Some (Elem_Field (fe_add F a b))"
| "elem_add F (Elem_Binary a) (Elem_Field b) = Some (Elem_Field (fe_add F (fe_from F a) b))"
| "elem_add F (Elem_Field a) (Elem_Binary b) = Some (Elem_Field (fe_add F a (fe_from F b)))"

fun elem_sub :: "field_desc \<Rightarrow> elem \<Rightarrow> elem \<Rightarrow> elem option" where
  "elem_sub F (Elem_Binary a) (Elem_Binary b) = map_option Elem_Binary (check_i64 (a - b))"
| "elem_sub F (Elem_Field a) (Elem_Field b) = Some (Elem_Field (fe_sub F a b))"
| "elem_sub F (Elem_Binary a) (Elem_Field b) = Some (Elem_Field (fe_sub F (fe_from F a) b))"
| "elem_sub F (Elem_Field a) (Elem_Binary b) = Some (Elem_Field (fe_sub F a (fe_from F b)))"

text \<open>The native product falls back to the field when it overflows.\<close>

fun elem_mul :: "field_desc \<Rightarrow> elem \<Rightarrow> elem \<Rightarrow> elem" where
  "elem_mul F (Elem_Binary a) (Elem_Binary b) =
     (case check_i64 (a * b) of
        Some v \<Rightarrow> Elem_Binary v
      | None \<Rightarrow> Elem_Field (fe_mul F (fe_from F a) (fe_from F b)))"
| "elem_mul F (Elem_Field a) (Elem_Field b) = Elem_Field (fe_mul F a b)"
| "elem_mul F (Elem_Binary a) (Elem_Field b) = Elem_Field (fe_mul F (fe_from F a) b)"
| "elem_mul F (Elem_Field a) (Elem_Binary b) = Elem_Field (fe_mul F a (fe_from F b))"

fun elem_div :: "field_desc \<Rightarrow> elem \<Rightarrow> elem \<Rightarrow> elem option" where
  "elem_div F (Elem_Binary a) (Elem_Binary b) = map_option Elem_Binary (i64_div a b)"
| "elem_div F (Elem_Field a) (Elem_Field b) = map_option Elem_Field (fe_div F a b)"
| "elem_div F (Elem_Binary a) (Elem_Field b) = map_option Elem_Field (fe_div F (fe_from F a) b)"
| "elem_div F (Elem_Field a) (Elem_Binary b) = map_option Elem_Field (fe_div F a (fe_from F b))"

definition decompose_lower32 :: "int \<Rightarrow> int \<times> int \<times> int \<times> int \<times> int" where
  "decompose_lower32 x =
     (let b1 = x AND 255;
          b2 = drop_bit 8 x AND 255;
          b3 = drop_bit 16 x AND 255;
          b4 = drop_bit 24 x AND 255;
          sign = drop_bit 31 x AND 1
      in (b1, b2, b3, b4, sign))"

section \<open>Lemmas\<close>

lemmas int_range_defs = in_i64_def in_u32_def in_i32_def check_i64_def check_u32_def check_i32_def

lemma check_u32_Some [simp]: "check_u32 x = Some y \<longleftrightarrow> y = x \<and> in_u32 x"
  by (auto simp: check_u32_def)

lemma check_i64_Some [simp]: "check_i64 x = Some y \<longleftrightarrow> y = x \<and> in_i64 x"
  by (auto simp: check_i64_def)

lemma check_i32_Some [simp]: "check_i32 x = Some y \<longleftrightarrow> y = x \<and> in_i32 x"
  by (auto simp: check_i32_def)

lemma in_u32_as_u32 [simp]: "in_u32 (as_u32 x)"
  by (simp add: in_u32_def as_u32_def)

lemma as_u32_id [simp]: "in_u32 x \<Longrightarrow> as_u32 x = x"
  by (simp add: in_u32_def as_u32_def)

lemma elem_u_Some [simp]: "elem_u x = Some y \<longleftrightarrow> x = Elem_Binary y \<and> in_u32 y"
  by (cases x) (auto simp: elem_u_def)

lemma elem_s_Some [simp]: "elem_s x = Some y \<longleftrightarrow> x = Elem_Binary y \<and> in_i32 y"
  by (cases x) (auto simp: elem_s_def)

lemma bin_Some [simp]: "bin x = Some y \<longleftrightarrow> x = Elem_Binary y"
  by (cases x) auto

lemma and_255: "x AND 255 = x mod (256 :: int)"
  using take_bit_eq_mask[of 8 x] by (simp add: take_bit_eq_mod mask_eq_exp_minus_1)

lemma and_byte_bounds: "0 \<le> x AND (255 :: int)" "x AND (255 :: int) < 256"
  by (simp_all add: and_255)

lemma decompose_lower32_eq:
  "decompose_lower32 x =
     (x mod 256, x div 2 ^ 8 mod 256, x div 2 ^ 16 mod 256, x div 2 ^ 24 mod 256, x div 2 ^ 31 mod 2)"
  by (simp add: decompose_lower32_def Let_def and_255 drop_bit_eq_div and_one_eq)

lemma bytes_sum: "x mod 256 + x div 2 ^ 8 mod 256 * 2 ^ 8 + x div 2 ^ 16 mod 256 * 2 ^ 16
    + x div 2 ^ 24 mod 256 * 2 ^ 24 = x mod (2 ^ 32 :: int)"
proof -
  have step: "y mod (a * 256) = y mod a + y div a mod 256 * a" if "0 < a" for y a :: int
    using that by (simp add: zmod_zmult2_eq mult.commute)
  show ?thesis
    using step[of 256 x] step[of "2 ^ 16" x] step[of "2 ^ 24" x] by simp
qed

text \<open>A byte decomposition determines the lower 32 bits.\<close>

lemma decompose_lower32_ok:
  assumes "decompose_lower32 x = (b1, b2, b3, b4, sign)"
  shows "b1 + b2 * 2 ^ 8 + b3 * 2 ^ 16 + b4 * 2 ^ 24 = x mod 2 ^ 32"
    and "\<forall>b \<in> {b1, b2, b3, b4}. 0 \<le> b \<and> b < 256" and "sign = (if bit x 31 then 1 else 0)"
proof -
  have b: "b1 = x mod 256" "b2 = x div 2 ^ 8 mod 256" "b3 = x div 2 ^ 16 mod 256"
    "b4 = x div 2 ^ 24 mod 256" "sign = x div 2 ^ 31 mod 2"
    using assms by (simp_all only: decompose_lower32_eq prod.inject)
  show "b1 + b2 * 2 ^ 8 + b3 * 2 ^ 16 + b4 * 2 ^ 24 = x mod 2 ^ 32"
    unfolding b by (rule bytes_sum)
  show "\<forall>b \<in> {b1, b2, b3, b4}. 0 \<le> b \<and> b < 256"
    unfolding b by simp
  show "sign = (if bit x 31 then 1 else 0)"
    unfolding b bit_iff_odd by (simp only: mod_2_eq_odd of_bool_def)
qed

text \<open>The field elements held by an \<open>Elem\<close> are canonical; a native value is an \<open>i64\<close>.\<close>

fun elem_ok :: "field_desc \<Rightarrow> elem \<Rightarrow> bool" where
  "elem_ok F (Elem_Binary b) = in_i64 b"
| "elem_ok F (Elem_Field f) = canonical F f"

text \<open>The values the comment of \<open>Elem\<close> allows for \<open>Binary\<close>: those of an \<open>i32\<close> or a \<open>u32\<close>.\<close>

definition bin_valid :: "int \<Rightarrow> bool" where
  "bin_valid b \<longleftrightarrow> - (2 ^ 31) \<le> b \<and> b < 2 ^ 32"

context field_element
begin

lemma into_fe_canonical: "elem_ok F x \<Longrightarrow> canonical F (into_fe F x)"
  by (cases x) (simp_all add: canonical_intros)

lemma elem_add_into_fe: "elem_add F x y = Some z \<Longrightarrow> into_fe F z = fe_add F (into_fe F x) (into_fe F y)"
  by (cases x; cases y) (auto simp: fe_from_def fe_add_def mod_simps)

lemma elem_sub_into_fe: "elem_sub F x y = Some z \<Longrightarrow> into_fe F z = fe_sub F (into_fe F x) (into_fe F y)"
  by (cases x; cases y) (auto simp: fe_from_def fe_sub_def mod_simps)

lemma elem_mul_into_fe: "into_fe F (elem_mul F x y) = fe_mul F (into_fe F x) (into_fe F y)"
  by (cases x; cases y) (auto simp: fe_from_def fe_mul_def mod_simps check_i64_def)

lemma elem_div_into_fe:
  assumes "elem_div F x y = Some z" "elem_ok F x" "elem_ok F y"
    and "bin x = None \<or> bin y = None"
  shows "fe_mul F (into_fe F z) (into_fe F y) = into_fe F x"
proof -
  have c: "canonical F (into_fe F x)" "canonical F (into_fe F y)"
    using assms into_fe_canonical by blast+
  have d: "fe_div F (into_fe F x) (into_fe F y) = Some (into_fe F z)"
    using assms by (cases x; cases y) auto
  then have "into_fe F y \<noteq> 0" by (auto simp: fe_div_def)
  then show ?thesis using fe_div_nonzero[OF c] d by (metis option.inject)
qed

lemma elem_is_zero_into_fe:
  assumes "elem_ok F x" "\<forall>b. x = Elem_Binary b \<longrightarrow> bin_valid b" "2 ^ 32 < modulus F"
  shows "elem_is_zero x \<longleftrightarrow> into_fe F x = 0"
proof (cases x)
  case (Elem_Binary b)
  have "\<bar>b\<bar> < modulus F"
    using assms(2,3) Elem_Binary by (auto simp: bin_valid_def)
  then have "b = 0" if "modulus F dvd b"
    using dvd_imp_le_int[OF _ that] modulus_pos by (cases "b = 0") simp_all
  then show ?thesis using Elem_Binary by (auto simp: fe_from_def mod_eq_0_iff_dvd)
qed simp

lemma try_from_fe_as_bin_into_fe:
  assumes "canonical F v" "try_from_fe_as_bin F v = Some x"
  shows "into_fe F x = v" "\<exists>b. x = Elem_Binary b \<and> bin_valid b"
proof -
  have "to_signed_integer F v mod modulus F = v"
    using canonical_mod[OF assms(1)] by (simp add: to_signed_integer_def)
  then show "into_fe F x = v" "\<exists>b. x = Elem_Binary b \<and> bin_valid b"
    using assms by (auto simp: try_from_fe_as_bin_def Let_def fe_from_def bin_valid_def in_u32_def
        in_i32_def split: if_splits)
qed

end

section \<open>Properties\<close>

text \<open>The operations of \<open>Elem\<close> compute in the field whatever the mix of native and field
  operands: on every pair of values, \<open>add\<close>, \<open>sub\<close> and \<open>mul\<close> (with its fallback to the
  field on an \<open>i64\<close> overflow) commute with \<open>into_fe\<close>, \<open>div\<close> does whenever one operand is a
  field element, addition and subtraction of native values in the documented range never panic,
  and reading a field element as a native value loses nothing.\<close>

theorem elem_ops_homomorphic:
  assumes "elem_ok goldilocks_field x" "elem_ok goldilocks_field y"
  shows "(elem_add goldilocks_field x y = Some z \<longrightarrow>
      into_fe goldilocks_field z
        = fe_add goldilocks_field (into_fe goldilocks_field x) (into_fe goldilocks_field y)) \<and>
    (elem_sub goldilocks_field x y = Some z \<longrightarrow>
      into_fe goldilocks_field z
        = fe_sub goldilocks_field (into_fe goldilocks_field x) (into_fe goldilocks_field y)) \<and>
    (into_fe goldilocks_field (elem_mul goldilocks_field x y)
        = fe_mul goldilocks_field (into_fe goldilocks_field x) (into_fe goldilocks_field y)) \<and>
    (elem_div goldilocks_field x y = Some z \<longrightarrow> bin x = None \<or> bin y = None \<longrightarrow>
      fe_mul goldilocks_field (into_fe goldilocks_field z) (into_fe goldilocks_field y)
        = into_fe goldilocks_field x) \<and>
    (x = Elem_Binary a \<longrightarrow> y = Elem_Binary b \<longrightarrow> bin_valid a \<longrightarrow> bin_valid b \<longrightarrow>
      elem_add goldilocks_field x y = Some (Elem_Binary (a + b)) \<and>
      elem_sub goldilocks_field x y = Some (Elem_Binary (a - b))) \<and>
    (canonical goldilocks_field v \<longrightarrow> try_from_fe_as_bin goldilocks_field v = Some z \<longrightarrow>
      into_fe goldilocks_field z = v)"
  using assms gl.elem_add_into_fe gl.elem_sub_into_fe gl.elem_mul_into_fe gl.elem_div_into_fe
    gl.try_from_fe_as_bin_into_fe(1)
  by (auto simp: bin_valid_def int_range_defs)

theorem elem_ops_homomorphic_witness:
  "into_fe goldilocks_field (elem_mul goldilocks_field (Elem_Binary (2 ^ 62)) (Elem_Binary 7))
     = fe_mul goldilocks_field (into_fe goldilocks_field (Elem_Binary (2 ^ 62)))
         (into_fe goldilocks_field (Elem_Binary 7))
   \<and> elem_add goldilocks_field (Elem_Binary 5) (Elem_Binary (- 7)) = Some (Elem_Binary (5 + - 7))"
  using elem_ops_homomorphic[of "Elem_Binary (2 ^ 62)" "Elem_Binary 7"]
    elem_ops_homomorphic[of "Elem_Binary 5" "Elem_Binary (- 7)" _ 5 "- 7"]
  by (simp add: bin_valid_def in_i64_def)

text \<open>\<open>decompose_lower32\<close> is exact: the four bytes are bytes, their weighted sum is the
  value modulo \<open>2 ^ 32\<close> (negative values in two's complement), and the fifth component is bit 31.\<close>

theorem decompose_lower32_exact:
  "case decompose_lower32 x of (b1, b2, b3, b4, sign) \<Rightarrow>
     (0 \<le> b1 \<and> b1 < 256) \<and> (0 \<le> b2 \<and> b2 < 256) \<and> (0 \<le> b3 \<and> b3 < 256) \<and> (0 \<le> b4 \<and> b4 < 256) \<and>
     b1 + b2 * 2 ^ 8 + b3 * 2 ^ 16 + b4 * 2 ^ 24 = as_u32 x \<and>
     sign = (if as_i32 x < 0 then 1 else 0)"
proof -
  obtain b1 b2 b3 b4 sign where d: "decompose_lower32 x = (b1, b2, b3, b4, sign)"
    by (cases "decompose_lower32 x")
  have "as_i32 x < 0 \<longleftrightarrow> bit x 31"
    by (simp add: as_i32_def)
  with decompose_lower32_ok[OF d] show ?thesis by (simp add: d as_u32_def)
qed

end
