(* ===== verification/Riscv_Trace.thy ===== *)
theory Riscv_Trace
  imports Riscv_Elem "HOL-Library.AList"
begin

text \<open>
  The execution trace of the RISC-V executor and its builder, after the module \<open>builder\<close> of
  \<open>riscv-executor/src/lib.rs\<close>: registers, memory, the program counter that advances by
  batches of statements, and, depending on the mode, the recorded register trace, the witness
  columns and the calls into submachines. Every panic (an index out of range, a failed
  conversion, an overflow) is \<open>None\<close>.
\<close>

section \<open>Enumerations\<close>

datatype (plugins only: code size) instruction =
    I_set_reg | I_get_reg | I_affine | I_mstore | I_mstore_bootloader | I_mload |
    I_load_bootloader_input | I_assert_bootloader_input | I_load_label | I_jump | I_jump_dyn |
    I_jump_to_bootloader_input | I_branch_if_diff_nonzero | I_branch_if_diff_equal |
    I_skip_if_equal | I_branch_if_diff_greater_than | I_is_diff_greater_than | I_is_equal_zero |
    I_is_not_equal | I_add_wrap | I_wrap16 | I_sub_wrap_with_offset | I_sign_extend_byte |
    I_sign_extend_16_bits | I_to_signed | I_divremu | I_mul | I_and | I_or | I_xor | I_shl |
    I_shr | I_invert_gl | I_split_gl | I_poseidon_gl | I_poseidon2_gl | I_affine_256 |
    I_mod_256 | I_ec_add | I_ec_double | I_commit_public | I_fail | I_keccakf

text \<open>The columns written by the executor, in the order of the enum: the general ones, then one
  flag per instruction.\<close>

datatype (plugins only: code size) known_witness_col =
    Col_operation_id | Col_pc_update | Col_X | Col_Y | Col_Z | Col_W | Col_Y_free_value |
    Col_X_free_value | Col_tmp1_col | Col_tmp2_col | Col_tmp3_col | Col_tmp4_col | Col_X_b1 |
    Col_X_b2 | Col_X_b3 | Col_X_b4 | Col_XX | Col_XXIsZero | Col_XX_inv | Col_Y_b5 | Col_Y_b6 |
    Col_Y_b7 | Col_Y_b8 | Col_Y_7bit | Col_Y_15bit | Col_REM_b1 | Col_REM_b2 | Col_REM_b3 |
    Col_REM_b4 | Col_wrap_bit | Col_instr_load_label_param_l | Col_instr_jump_param_l |
    Col_instr_branch_if_diff_nonzero_param_l | Col_instr_branch_if_diff_equal_param_l |
    Col_instr_branch_if_diff_greater_than_param_l | Col_jump_to_shutdown_routine |
    Col_instr instruction

datatype machine_instance =
    M_memory | M_regs | M_publics | M_binary | M_shift | M_split_gl | M_poseidon_gl

datatype known_fixed_col =
    Fix_X_const | Fix_Y_const | Fix_Z_const | Fix_W_const | Fix_Y_read_free | Fix_X_read_free

datatype exec_mode = Fast | Trace | Witness

text \<open>The position of an instruction and of a column in its enum, and the number of columns.\<close>

primrec instr_idx :: "instruction \<Rightarrow> nat" where
  "instr_idx I_set_reg = 0"
| "instr_idx I_get_reg = 1"
| "instr_idx I_affine = 2"
| "instr_idx I_mstore = 3"
| "instr_idx I_mstore_bootloader = 4"
| "instr_idx I_mload = 5"
| "instr_idx I_load_bootloader_input = 6"
| "instr_idx I_assert_bootloader_input = 7"
| "instr_idx I_load_label = 8"
| "instr_idx I_jump = 9"
| "instr_idx I_jump_dyn = 10"
| "instr_idx I_jump_to_bootloader_input = 11"
| "instr_idx I_branch_if_diff_nonzero = 12"
| "instr_idx I_branch_if_diff_equal = 13"
| "instr_idx I_skip_if_equal = 14"
| "instr_idx I_branch_if_diff_greater_than = 15"
| "instr_idx I_is_diff_greater_than = 16"
| "instr_idx I_is_equal_zero = 17"
| "instr_idx I_is_not_equal = 18"
| "instr_idx I_add_wrap = 19"
| "instr_idx I_wrap16 = 20"
| "instr_idx I_sub_wrap_with_offset = 21"
| "instr_idx I_sign_extend_byte = 22"
| "instr_idx I_sign_extend_16_bits = 23"
| "instr_idx I_to_signed = 24"
| "instr_idx I_divremu = 25"
| "instr_idx I_mul = 26"
| "instr_idx I_and = 27"
| "instr_idx I_or = 28"
| "instr_idx I_xor = 29"
| "instr_idx I_shl = 30"
| "instr_idx I_shr = 31"
| "instr_idx I_invert_gl = 32"
| "instr_idx I_split_gl = 33"
| "instr_idx I_poseidon_gl = 34"
| "instr_idx I_poseidon2_gl = 35"
| "instr_idx I_affine_256 = 36"
| "instr_idx I_mod_256 = 37"
| "instr_idx I_ec_add = 38"
| "instr_idx I_ec_double = 39"
| "instr_idx I_commit_public = 40"
| "instr_idx I_fail = 41"
| "instr_idx I_keccakf = 42"

primrec col_idx :: "known_witness_col \<Rightarrow> nat" where
  "col_idx Col_operation_id = 0"
| "col_idx Col_pc_update = 1"
| "col_idx Col_X = 2"
| "col_idx Col_Y = 3"
| "col_idx Col_Z = 4"
| "col_idx Col_W = 5"
| "col_idx Col_Y_free_value = 6"
| "col_idx Col_X_free_value = 7"
| "col_idx Col_tmp1_col = 8"
| "col_idx Col_tmp2_col = 9"
| "col_idx Col_tmp3_col = 10"
| "col_idx Col_tmp4_col = 11"
| "col_idx Col_X_b1 = 12"
| "col_idx Col_X_b2 = 13"
| "col_idx Col_X_b3 = 14"
| "col_idx Col_X_b4 = 15"
| "col_idx Col_XX = 16"
| "col_idx Col_XXIsZero = 17"
| "col_idx Col_XX_inv = 18"
| "col_idx Col_Y_b5 = 19"
| "col_idx Col_Y_b6 = 20"
| "col_idx Col_Y_b7 = 21"
| "col_idx Col_Y_b8 = 22"
| "col_idx Col_Y_7bit = 23"
| "col_idx Col_Y_15bit = 24"
| "col_idx Col_REM_b1 = 25"
| "col_idx Col_REM_b2 = 26"
| "col_idx Col_REM_b3 = 27"
| "col_idx Col_REM_b4 = 28"
| "col_idx Col_wrap_bit = 29"
| "col_idx Col_instr_load_label_param_l = 30"
| "col_idx Col_instr_jump_param_l = 31"
| "col_idx Col_instr_branch_if_diff_nonzero_param_l = 32"
| "col_idx Col_instr_branch_if_diff_equal_param_l = 33"
| "col_idx Col_instr_branch_if_diff_greater_than_param_l = 34"
| "col_idx Col_jump_to_shutdown_routine = 35"
| "col_idx (Col_instr i) = 36 + instr_idx i"

definition col_count :: nat where
  "col_count = 78"

primrec fixed_idx :: "known_fixed_col \<Rightarrow> nat" where
  "fixed_idx Fix_X_const = 0"
| "fixed_idx Fix_Y_const = 1"
| "fixed_idx Fix_Z_const = 2"
| "fixed_idx Fix_W_const = 3"
| "fixed_idx Fix_Y_read_free = 4"
| "fixed_idx Fix_X_read_free = 5"

primrec instr_name :: "instruction \<Rightarrow> string" where
  "instr_name I_set_reg = ''set_reg''"
| "instr_name I_get_reg = ''get_reg''"
| "instr_name I_affine = ''affine''"
| "instr_name I_mstore = ''mstore''"
| "instr_name I_mstore_bootloader = ''mstore_bootloader''"
| "instr_name I_mload = ''mload''"
| "instr_name I_load_bootloader_input = ''load_bootloader_input''"
| "instr_name I_assert_bootloader_input = ''assert_bootloader_input''"
| "instr_name I_load_label = ''load_label''"
| "instr_name I_jump = ''jump''"
| "instr_name I_jump_dyn = ''jump_dyn''"
| "instr_name I_jump_to_bootloader_input = ''jump_to_bootloader_input''"
| "instr_name I_branch_if_diff_nonzero = ''branch_if_diff_nonzero''"
| "instr_name I_branch_if_diff_equal = ''branch_if_diff_equal''"
| "instr_name I_skip_if_equal = ''skip_if_equal''"
| "instr_name I_branch_if_diff_greater_than = ''branch_if_diff_greater_than''"
| "instr_name I_is_diff_greater_than = ''is_diff_greater_than''"
| "instr_name I_is_equal_zero = ''is_equal_zero''"
| "instr_name I_is_not_equal = ''is_not_equal''"
| "instr_name I_add_wrap = ''add_wrap''"
| "instr_name I_wrap16 = ''wrap16''"
| "instr_name I_sub_wrap_with_offset = ''sub_wrap_with_offset''"
| "instr_name I_sign_extend_byte = ''sign_extend_byte''"
| "instr_name I_sign_extend_16_bits = ''sign_extend_16_bits''"
| "instr_name I_to_signed = ''to_signed''"
| "instr_name I_divremu = ''divremu''"
| "instr_name I_mul = ''mul''"
| "instr_name I_and = ''and''"
| "instr_name I_or = ''or''"
| "instr_name I_xor = ''xor''"
| "instr_name I_shl = ''shl''"
| "instr_name I_shr = ''shr''"
| "instr_name I_invert_gl = ''invert_gl''"
| "instr_name I_split_gl = ''split_gl''"
| "instr_name I_poseidon_gl = ''poseidon_gl''"
| "instr_name I_poseidon2_gl = ''poseidon2_gl''"
| "instr_name I_affine_256 = ''affine_256''"
| "instr_name I_mod_256 = ''mod_256''"
| "instr_name I_ec_add = ''ec_add''"
| "instr_name I_ec_double = ''ec_double''"
| "instr_name I_commit_public = ''commit_public''"
| "instr_name I_fail = ''fail''"
| "instr_name I_keccakf = ''keccakf''"

definition all_instructions :: "instruction list" where
  "all_instructions =
    [
     I_set_reg, I_get_reg, I_affine, I_mstore, I_mstore_bootloader, I_mload,
     I_load_bootloader_input, I_assert_bootloader_input, I_load_label, I_jump, I_jump_dyn,
     I_jump_to_bootloader_input, I_branch_if_diff_nonzero, I_branch_if_diff_equal,
     I_skip_if_equal, I_branch_if_diff_greater_than, I_is_diff_greater_than, I_is_equal_zero,
     I_is_not_equal, I_add_wrap, I_wrap16, I_sub_wrap_with_offset, I_sign_extend_byte,
     I_sign_extend_16_bits, I_to_signed, I_divremu, I_mul, I_and, I_or, I_xor, I_shl, I_shr,
     I_invert_gl, I_split_gl, I_poseidon_gl, I_poseidon2_gl, I_affine_256, I_mod_256, I_ec_add,
     I_ec_double, I_commit_public, I_fail, I_keccakf]"

definition from_name :: "string \<Rightarrow> instruction option" where
  "from_name s = find (\<lambda>i. instr_name i = s) all_instructions"

definition instr_flag :: "instruction \<Rightarrow> string" where
  "instr_flag i = ''main::instr_'' @ instr_name i"

primrec machine_name :: "machine_instance \<Rightarrow> string" where
  "machine_name M_memory = ''memory''"
| "machine_name M_regs = ''regs''"
| "machine_name M_publics = ''publics''"
| "machine_name M_binary = ''binary''"
| "machine_name M_shift = ''shift''"
| "machine_name M_split_gl = ''split_gl''"
| "machine_name M_poseidon_gl = ''poseidon_gl''"

definition machine_namespace :: "machine_instance \<Rightarrow> string" where
  "machine_namespace m = ''main_'' @ machine_name m"

primrec fixed_name :: "known_fixed_col \<Rightarrow> string" where
  "fixed_name Fix_X_const = ''main__rom::p_X_const''"
| "fixed_name Fix_Y_const = ''main__rom::p_Y_const''"
| "fixed_name Fix_Z_const = ''main__rom::p_Z_const''"
| "fixed_name Fix_W_const = ''main__rom::p_W_const''"
| "fixed_name Fix_Y_read_free = ''main__rom::p_Y_read_free''"
| "fixed_name Fix_X_read_free = ''main__rom::p_X_read_free''"

definition all_fixed_cols :: "known_fixed_col list" where
  "all_fixed_cols = [Fix_X_const, Fix_Y_const, Fix_Z_const, Fix_W_const, Fix_Y_read_free, Fix_X_read_free]"

definition PC_INITIAL_VAL :: nat where
  "PC_INITIAL_VAL = 2"

section \<open>State\<close>

datatype mem_operation_kind = Read | Write

record mem_operation =
  mo_row :: nat
  mo_kind :: mem_operation_kind
  mo_address :: int

record submachine_call =
  identity_id :: nat
  lookup_args :: "int \<times> int \<times> int \<times> int"
  extra_args :: "int list"

record execution_trace =
  reg_map :: "(string \<times> nat) list"
  mem_ops :: "mem_operation list"
  tr_len :: nat
  pc_trace :: "int list"
  reg_trace :: "int list list"
  reg_writes :: "int option list"
  submachine_ops :: "machine_instance \<Rightarrow> submachine_call list"
  known_cols :: "int list"
  all_cols :: "string list"

record register_memory =
  last_regs :: "int \<rightharpoonup> elem"
  second_last_regs :: "int \<rightharpoonup> elem"

record trace_builder =
  tb_trace :: execution_trace
  max_rows :: nat
  pc_idx :: nat
  curr_pc :: elem
  next_statement_line :: int
  batch_to_line_map :: "int list"
  tb_regs :: "elem list"
  tb_mem :: "int \<rightharpoonup> int"
  reg_mem :: register_memory
  tb_mode :: exec_mode

text \<open>Indexing a vector panics out of range.\<close>

definition vec_get :: "'a list \<Rightarrow> nat \<Rightarrow> 'a option" where
  "vec_get xs i = (if i < length xs then Some (xs ! i) else None)"

definition vec_set :: "'a list \<Rightarrow> nat \<Rightarrow> 'a \<Rightarrow> 'a list option" where
  "vec_set xs i x = (if i < length xs then Some (xs[i := x]) else None)"

definition traces :: "exec_mode \<Rightarrow> bool" where
  "traces m \<longleftrightarrow> m = Trace \<or> m = Witness"

section \<open>Construction\<close>

definition execution_trace_new :: "string list \<Rightarrow> (string \<times> nat) list \<Rightarrow> execution_trace" where
  "execution_trace_new witness_cols regmap =
     \<lparr> reg_map = regmap, mem_ops = [], tr_len = PC_INITIAL_VAL + 1, pc_trace = [],
       reg_trace = replicate (length regmap) [], reg_writes = replicate (length regmap) None,
       submachine_ops = (\<lambda>_. []), known_cols = [], all_cols = witness_cols \<rparr>"

text \<open>The names of the non-assignment registers, numbered in order (a later duplicate of a name
  overwrites the earlier entry of the map).\<close>

definition register_map :: "string list \<Rightarrow> (string \<times> nat) list" where
  "register_map names =
     fold (\<lambda>(i, name) m. AList.update name i m) (enumerate 0 names) []"

definition for_bootloader :: "field_desc \<Rightarrow> register_memory \<Rightarrow> (int \<rightharpoonup> int)" where
  "for_bootloader F r = (\<lambda>k. map_option (into_fe F) (second_last_regs r k))"

section \<open>Reading the state\<close>

definition get_pc :: "trace_builder \<Rightarrow> elem" where
  "get_pc t = curr_pc t"

definition get_next_pc :: "trace_builder \<Rightarrow> elem option" where
  "get_next_pc t = vec_get (tb_regs t) (pc_idx t)"

definition get_reg_idx :: "trace_builder \<Rightarrow> nat \<Rightarrow> elem option" where
  "get_reg_idx t idx = (if idx = pc_idx t then Some (get_pc t) else vec_get (tb_regs t) idx)"

definition get_reg :: "trace_builder \<Rightarrow> string \<Rightarrow> elem option" where
  "get_reg t name = map_of (reg_map (tb_trace t)) name \<bind> get_reg_idx t"

definition has_enough_rows :: "trace_builder \<Rightarrow> bool" where
  "has_enough_rows t \<longleftrightarrow> max_rows t \<le> tr_len (tb_trace t)"

definition col_is_defined :: "trace_builder \<Rightarrow> string \<Rightarrow> bool" where
  "col_is_defined t name = (if traces (tb_mode t) then name \<in> set (all_cols (tb_trace t)) else False)"

definition main_columns_len :: "trace_builder \<Rightarrow> nat option" where
  "main_columns_len t =
     (let cols_len = length (known_cols (tb_trace t)) div col_count in
      if tb_mode t = Witness \<and> \<not> tr_len (tb_trace t) \<le> cols_len then None else Some cols_len)"

section \<open>Writing the state\<close>

definition submachine_op ::
  "trace_builder \<Rightarrow> machine_instance \<Rightarrow> nat \<Rightarrow> int \<times> int \<times> int \<times> int \<Rightarrow> int list \<Rightarrow> trace_builder" where
  "submachine_op t m lid args ext =
     (if tb_mode t = Witness then
        let op = \<lparr> identity_id = lid, lookup_args = args, extra_args = ext \<rparr>;
            ops = submachine_ops (tb_trace t)
        in t\<lparr>tb_trace := (tb_trace t)\<lparr>submachine_ops := ops(m := ops m @ [op])\<rparr>\<rparr>
      else t)"

definition set_reg_idx :: "field_desc \<Rightarrow> trace_builder \<Rightarrow> nat \<Rightarrow> elem \<Rightarrow> trace_builder option" where
  "set_reg_idx F t idx value = do {
     t \<leftarrow> (if traces (tb_mode t) \<and> idx \<noteq> pc_idx t then do {
              w \<leftarrow> vec_set (reg_writes (tb_trace t)) idx (Some (into_fe F value));
              Some (t\<lparr>tb_trace := (tb_trace t)\<lparr>reg_writes := w\<rparr>\<rparr>)
            } else Some t);
     r \<leftarrow> vec_set (tb_regs t) idx value;
     Some (t\<lparr>tb_regs := r\<rparr>)
   }"

definition set_pc :: "field_desc \<Rightarrow> trace_builder \<Rightarrow> elem \<Rightarrow> trace_builder option" where
  "set_pc F t value = do {
     v \<leftarrow> elem_u value;
     line \<leftarrow> vec_get (batch_to_line_map t) (nat v);
     set_reg_idx F (t\<lparr>next_statement_line := line\<rparr>) (pc_idx t) value
   }"

definition set_reg :: "field_desc \<Rightarrow> trace_builder \<Rightarrow> string \<Rightarrow> elem \<Rightarrow> trace_builder option" where
  "set_reg F t name value = do {
     idx \<leftarrow> map_of (reg_map (tb_trace t)) name;
     rust_assert (idx \<noteq> pc_idx t);
     set_reg_idx F t idx value
   }"

definition set_col_idx ::
  "field_desc \<Rightarrow> trace_builder \<Rightarrow> known_witness_col \<Rightarrow> nat \<Rightarrow> elem \<Rightarrow> trace_builder option" where
  "set_col_idx F t col idx value =
     (if tb_mode t = Witness then do {
        cols \<leftarrow> vec_set (known_cols (tb_trace t)) (col_count * idx + col_idx col) (into_fe F value);
        Some (t\<lparr>tb_trace := (tb_trace t)\<lparr>known_cols := cols\<rparr>\<rparr>)
      } else Some t)"

definition set_col :: "field_desc \<Rightarrow> trace_builder \<Rightarrow> known_witness_col \<Rightarrow> elem \<Rightarrow> trace_builder option" where
  "set_col F t col value =
     (if tb_mode t = Witness then do {
        rust_assert (col_count \<le> length (known_cols (tb_trace t)));
        cols \<leftarrow> vec_set (known_cols (tb_trace t))
                  (length (known_cols (tb_trace t)) - col_count + col_idx col) (into_fe F value);
        Some (t\<lparr>tb_trace := (tb_trace t)\<lparr>known_cols := cols\<rparr>\<rparr>)
      } else Some t)"

text \<open>A row of the register trace takes the pending write of the register or repeats the
  previous value.\<close>

definition push_reg :: "int option \<Rightarrow> int list \<Rightarrow> int list" where
  "push_reg w v = v @ [case w of Some x \<Rightarrow> x | None \<Rightarrow> (if v = [] then 0 else last v)]"

definition push_row :: "trace_builder \<Rightarrow> int \<Rightarrow> trace_builder option" where
  "push_row t pc = do {
     t \<leftarrow> (if traces (tb_mode t) then do {
              let tr = tb_trace t;
              rust_assert (length (reg_trace tr) \<le> length (reg_writes tr));
              let n = length (reg_trace tr);
              Some (t\<lparr>tb_trace := tr\<lparr>
                pc_trace := pc_trace tr @ [pc],
                reg_trace := map2 push_reg (take n (reg_writes tr)) (reg_trace tr),
                reg_writes := replicate n None @ drop n (reg_writes tr)\<rparr>\<rparr>)
            } else Some t);
     Some (if tb_mode t = Witness
           then t\<lparr>tb_trace := (tb_trace t)\<lparr>
                  known_cols := known_cols (tb_trace t) @ replicate col_count 0\<rparr>\<rparr>
           else t)
   }"

text \<open>\<open>None\<close> of the inner option is the \<open>None\<close> that the function returns.\<close>

definition set_next_pc :: "trace_builder \<Rightarrow> (unit option \<times> trace_builder) option" where
  "set_next_pc t = do {
     pc \<leftarrow> elem_u (curr_pc t);
     case vec_get (batch_to_line_map t) (nat pc + 1) of
       None \<Rightarrow> Some (None, t)
     | Some line_of_next_batch \<Rightarrow>
         if next_statement_line t < line_of_next_batch then Some (Some (), t)
         else if next_statement_line t = line_of_next_batch then do {
           pc1 \<leftarrow> check_u32 (pc + 1);
           r \<leftarrow> vec_set (tb_regs t) (pc_idx t) (Elem_Binary pc1);
           Some (Some (), t\<lparr>tb_regs := r\<rparr>)
         }
         else if pc < 2 then Some (None, t)
         else None
   }"

definition advance :: "field_desc \<Rightarrow> trace_builder \<Rightarrow> (int option \<times> trace_builder) option" where
  "advance F t = do {
     next_pc \<leftarrow> vec_get (tb_regs t) (pc_idx t);
     if curr_pc t \<noteq> next_pc \<and> has_enough_rows t then Some (None, t)
     else do {
       t \<leftarrow> (if curr_pc t \<noteq> next_pc then do {
                let t = t\<lparr>tb_trace := (tb_trace t)\<lparr>tr_len := tr_len (tb_trace t) + 1\<rparr>\<rparr>;
                t \<leftarrow> set_col F t Col_pc_update next_pc;
                pc \<leftarrow> elem_u next_pc;
                t \<leftarrow> push_row t pc;
                Some (t\<lparr>curr_pc := next_pc\<rparr>)
              } else Some t);
       let st_line = next_statement_line t;
       nl \<leftarrow> check_u32 (next_statement_line t + 1);
       (r, t) \<leftarrow> set_next_pc (t\<lparr>next_statement_line := nl\<rparr>);
       Some (case r of Some _ \<Rightarrow> Some st_line | None \<Rightarrow> None, t)
     }
   }"

definition set_mem :: "field_desc \<Rightarrow> trace_builder \<Rightarrow> int \<Rightarrow> int \<Rightarrow> int \<Rightarrow> nat \<Rightarrow> trace_builder" where
  "set_mem F t addr val stp lid =
     (let t = submachine_op t M_memory lid
                (fe_from F 1, fe_from F addr, fe_from F stp, fe_from F val) [];
          t = (if traces (tb_mode t)
               then t\<lparr>tb_trace := (tb_trace t)\<lparr>mem_ops := mem_ops (tb_trace t)
                      @ [\<lparr> mo_row = tr_len (tb_trace t), mo_kind = Write, mo_address = addr \<rparr>]\<rparr>\<rparr>
               else t)
      in t\<lparr>tb_mem := (tb_mem t)(addr \<mapsto> val)\<rparr>)"

definition get_mem ::
  "field_desc \<Rightarrow> trace_builder \<Rightarrow> int \<Rightarrow> int \<Rightarrow> nat \<Rightarrow> int \<times> trace_builder" where
  "get_mem F t addr stp lid =
     (let val = (case tb_mem t addr of Some v \<Rightarrow> v | None \<Rightarrow> 0);
          t = submachine_op t M_memory lid
                (fe_from F 0, fe_from F addr, fe_from F stp, fe_from F val) [];
          t = (if traces (tb_mode t)
               then t\<lparr>tb_trace := (tb_trace t)\<lparr>mem_ops := mem_ops (tb_trace t)
                      @ [\<lparr> mo_row = tr_len (tb_trace t), mo_kind = Read, mo_address = addr \<rparr>]\<rparr>\<rparr>
               else t)
      in (val, t))"

definition set_reg_mem :: "trace_builder \<Rightarrow> int \<Rightarrow> elem \<Rightarrow> trace_builder" where
  "set_reg_mem t addr val =
     (if addr \<noteq> 0
      then t\<lparr>reg_mem := (reg_mem t)\<lparr>last_regs := (last_regs (reg_mem t))(addr \<mapsto> val)\<rparr>\<rparr> else t)"

definition get_reg_mem :: "trace_builder \<Rightarrow> int \<Rightarrow> elem" where
  "get_reg_mem t addr =
     (if addr = 0 then Elem_Binary 0
      else case last_regs (reg_mem t) addr of Some v \<Rightarrow> v | None \<Rightarrow> Elem_Binary 0)"

definition backup_reg_mem :: "trace_builder \<Rightarrow> trace_builder" where
  "backup_reg_mem t = t\<lparr>reg_mem := (reg_mem t)\<lparr>second_last_regs := last_regs (reg_mem t)\<rparr>\<rparr>"

text \<open>\<open>TraceBuilder::new\<close> returns \<open>Err\<close> (here \<open>Inl\<close>) when there are no rows to run or the
  program is empty. The submachines it creates are only used by \<open>finish\<close>.\<close>

definition trace_builder_new ::
  "string list \<Rightarrow> string list \<Rightarrow> (int \<rightharpoonup> int) \<Rightarrow> int list \<Rightarrow> nat \<Rightarrow> exec_mode
     \<Rightarrow> (trace_builder + trace_builder) option" where
  "trace_builder_new register_names witness_cols initial_mem batch_map max_rows_len mode = do {
     let regmap = register_map register_names;
     let reg_len = length regmap;
     rust_assert (reg_len < 2 ^ 16);
     pcidx \<leftarrow> map_of regmap ''pc'';
     r \<leftarrow> vec_set (replicate reg_len (Elem_Binary 0)) pcidx (Elem_Binary (int PC_INITIAL_VAL));
     let ret = \<lparr> tb_trace = execution_trace_new witness_cols regmap, max_rows = max_rows_len,
                 pc_idx = pcidx, curr_pc = Elem_Binary (int PC_INITIAL_VAL),
                 next_statement_line = 1, batch_to_line_map = batch_map, tb_regs = r,
                 tb_mem = initial_mem,
                 reg_mem = \<lparr> last_regs = Map.empty, second_last_regs = Map.empty \<rparr>,
                 tb_mode = mode \<rparr>;
     if has_enough_rows ret then Some (Inl ret)
     else do {
       (ok, ret) \<leftarrow> set_next_pc ret;
       Some (case ok of None \<Rightarrow> Inl ret | Some _ \<Rightarrow> Inr ret)
     }
   }"

end
