(* ===== verification/Riscv_Pil.thy ===== *)
theory Riscv_Pil
  imports Prelude
begin

text \<open>
  The links of the optimized constraint system that the RISC-V executor looks up, after
  \<open>riscv-executor/src/pil.rs\<close>: permutations and lookups, found by the columns that their
  selectors and expressions mention. Expressions and identities follow
  \<open>ast/src/analyzed/mod.rs\<close>; identities that are neither permutation nor lookup only keep
  their id.
\<close>

section \<open>Expressions and identities\<close>

datatype algebraic_binary_operator = Alg_Add | Alg_Sub | Alg_Mul | Alg_Pow

datatype algebraic_unary_operator = Alg_Minus

datatype algebraic_expression =
    Alg_Reference string bool
  | Alg_PublicReference string
  | Alg_Challenge nat nat
  | Alg_Number int
  | Alg_BinaryOperation algebraic_expression algebraic_binary_operator algebraic_expression
  | Alg_UnaryOperation algebraic_unary_operator algebraic_expression

record selected_expressions =
  selector :: algebraic_expression
  expressions :: "algebraic_expression list"

datatype identity =
    Permutation nat selected_expressions selected_expressions
  | Lookup nat selected_expressions selected_expressions
  | Other_Identity nat

fun identity_id_of :: "identity \<Rightarrow> nat" where
  "identity_id_of (Permutation i _ _) = i"
| "identity_id_of (Lookup i _ _) = i"
| "identity_id_of (Other_Identity i) = i"

text \<open>All subexpressions in pre-order, as \<open>visit_expressions\<close> meets them.\<close>

fun subexpressions :: "algebraic_expression \<Rightarrow> algebraic_expression list" where
  "subexpressions (Alg_BinaryOperation l op r) =
     Alg_BinaryOperation l op r # subexpressions l @ subexpressions r"
| "subexpressions (Alg_UnaryOperation op x) = Alg_UnaryOperation op x # subexpressions x"
| "subexpressions x = [x]"

definition expr_any :: "(algebraic_expression \<Rightarrow> bool) \<Rightarrow> algebraic_expression \<Rightarrow> bool" where
  "expr_any f x = list_ex f (subexpressions x)"

definition selected_any :: "(algebraic_expression \<Rightarrow> bool) \<Rightarrow> selected_expressions \<Rightarrow> bool" where
  "selected_any f s = list_ex (expr_any f) (selector s # expressions s)"

text \<open>\<open>str::contains\<close>, and a predicate on the name of a reference.\<close>

definition str_contains :: "string \<Rightarrow> string \<Rightarrow> bool" where
  "str_contains hay needle =
     list_ex (\<lambda>k. take (length needle) (drop k hay) = needle) [0..<Suc (length hay)]"

fun on_reference :: "(string \<Rightarrow> bool) \<Rightarrow> algebraic_expression \<Rightarrow> bool" where
  "on_reference p (Alg_Reference name _) = p name"
| "on_reference p _ = False"

section \<open>Operations\<close>

definition links_from_pil :: "identity list \<Rightarrow> identity list" where
  "links_from_pil ids =
     filter (\<lambda>i. case i of Permutation _ _ _ \<Rightarrow> True | Lookup _ _ _ \<Rightarrow> True | Other_Identity _ \<Rightarrow> False) ids"

fun extract_selector :: "identity \<Rightarrow> string option" where
  "extract_selector (Permutation _ _ right) =
     (case find (on_reference (\<lambda>name. str_contains name ''::sel'' \<and> str_contains name ''[''))
             (subexpressions (selector right)) of
        Some (Alg_Reference name _) \<Rightarrow> Some name
      | _ \<Rightarrow> None)"
| "extract_selector _ = None"

definition find_links :: "identity list \<Rightarrow> string \<Rightarrow> string \<Rightarrow> identity list" where
  "find_links links from_name to_name =
     filter (\<lambda>i. case i of
         Permutation _ left right \<Rightarrow>
           expr_any (on_reference (\<lambda>name. str_contains name from_name)) (selector left) \<and>
           expr_any (on_reference (\<lambda>name. str_contains name to_name)) (selector right)
       | Lookup _ left right \<Rightarrow>
           expr_any (on_reference (\<lambda>name. str_contains name from_name)) (selector left) \<and>
           selected_any (on_reference (\<lambda>name. str_contains name to_name)) right
       | Other_Identity _ \<Rightarrow> False) links"

definition find_instruction_links :: "identity list \<Rightarrow> string \<Rightarrow> string \<Rightarrow> identity list" where
  "find_instruction_links links instruction_flag to_name =
     filter (\<lambda>i. case i of
         Permutation _ left right \<Rightarrow>
           expr_any (on_reference (\<lambda>name. name = instruction_flag)) (selector left) \<and>
           expr_any (on_reference (\<lambda>name. str_contains name to_name)) (selector right)
       | Lookup _ left right \<Rightarrow>
           expr_any (on_reference (\<lambda>name. name = instruction_flag)) (selector left) \<and>
           selected_any (on_reference (\<lambda>name. str_contains name to_name)) right
       | Other_Identity _ \<Rightarrow> False) links"

section \<open>Lemmas\<close>

lemma subexpressions_self: "x \<in> set (subexpressions x)"
  by (cases x) simp_all

lemma str_contains_iff: "str_contains hay needle \<longleftrightarrow> (\<exists>p s. hay = p @ needle @ s)"
proof
  assume "str_contains hay needle"
  then obtain k where "take (length needle) (drop k hay) = needle"
    by (auto simp: str_contains_def list_ex_iff)
  then have "hay = take k hay @ needle @ drop (length needle) (drop k hay)"
    by (metis append_take_drop_id)
  then show "\<exists>p s. hay = p @ needle @ s" by blast
next
  assume "\<exists>p s. hay = p @ needle @ s"
  then obtain p s where "hay = p @ needle @ s" by blast
  then show "str_contains hay needle"
    by (auto simp: str_contains_def list_ex_iff intro!: bexI[of _ "length p"])
qed

lemma find_instruction_links_subset:
  "set (find_instruction_links links flag to) \<subseteq> set (links_from_pil links)"
  by (auto simp: find_instruction_links_def links_from_pil_def split: identity.splits)

end
