(* ===== verification/Riscv_Arith.thy ===== *)
theory Riscv_Arith
  imports Riscv_Elem
begin

text \<open>
  The 256-bit arithmetic of \<open>riscv-executor/src/arith.rs\<close>: numbers are eight field elements
  that hold 32-bit limbs, least significant first. The operations on secp256k1 points are those
  of the crate \<open>k256\<close>, a parameter on pairs of 32-byte big-endian coordinates; the conversions
  around them are modelled.
\<close>

section \<open>Definitions\<close>

text \<open>The big integer of a vector of limbs.\<close>

definition limbs_value :: "int list \<Rightarrow> int option" where
  "limbs_value xs =
     (if xs = [] then None
      else Some (foldl (+) 0 (map (\<lambda>(i, fe). push_bit (i * 32) fe) (enumerate 0 xs))))"

definition limbs_of :: "field_desc \<Rightarrow> int \<Rightarrow> int list" where
  "limbs_of F res = map (\<lambda>i. fe_from F (drop_bit (i * 32) res AND 0xffffffff)) [0..<8]"

definition affine_256 :: "field_desc \<Rightarrow> int list \<Rightarrow> int list \<Rightarrow> int list \<Rightarrow> (int list \<times> int list) option" where
  "affine_256 F a b c = do {
     rust_assert (length a = 8);
     rust_assert (length b = 8);
     rust_assert (length c = 8);
     a \<leftarrow> limbs_value a;
     b \<leftarrow> limbs_value b;
     c \<leftarrow> limbs_value c;
     let res = a * b + c;
     let res_hi = drop_bit 256 res;
     let res_lo = res AND (push_bit 256 1 - 1);
     Some (limbs_of F res_hi, limbs_of F res_lo)
   }"

definition mod_256 :: "field_desc \<Rightarrow> int list \<Rightarrow> int list \<Rightarrow> int list \<Rightarrow> int list option" where
  "mod_256 F a b c = do {
     rust_assert (length a = 8);
     rust_assert (length b = 8);
     rust_assert (length c = 8);
     a \<leftarrow> limbs_value a;
     b \<leftarrow> limbs_value b;
     c \<leftarrow> limbs_value c;
     rust_assert (c \<noteq> 0);
     let res = (push_bit 256 a + b) mod c;
     Some (limbs_of F res)
   }"

text \<open>Byte \<open>i\<close> of \<open>to_bytes_le\<close>.\<close>

definition fe_byte :: "int \<Rightarrow> nat \<Rightarrow> int" where
  "fe_byte fe i = drop_bit (8 * i) fe AND 255"

definition fe_slice_to_u8_array :: "int list \<Rightarrow> int list option" where
  "fe_slice_to_u8_array x = do {
     rust_assert (length x = 8);
     Some (concat (map (\<lambda>fe. [fe_byte fe 3, fe_byte fe 2, fe_byte fe 1, fe_byte fe 0]) (rev x)))
   }"

fun chunks4 :: "int list \<Rightarrow> int list list" where
  "chunks4 (a # b # c # d # xs) = [a, b, c, d] # chunks4 xs"
| "chunks4 [] = []"
| "chunks4 xs = [xs]"

text \<open>\<open>from_bytes_le\<close> of \<open>[bytes[3], bytes[2], bytes[1], bytes[0], 0, 0, 0, 0]\<close>.\<close>

definition chunk_to_fe :: "field_desc \<Rightarrow> int list \<Rightarrow> int" where
  "chunk_to_fe F bytes =
     fe_from F (bytes ! 3 + bytes ! 2 * 2 ^ 8 + bytes ! 1 * 2 ^ 16 + bytes ! 0 * 2 ^ 24)"

definition u8_array_to_fe_array :: "field_desc \<Rightarrow> int list \<Rightarrow> int list option" where
  "u8_array_to_fe_array F x_bytes = do {
     rust_assert (length x_bytes = 32);
     Some (map (chunk_to_fe F) (rev (chunks4 x_bytes)))
   }"

type_synonym k256_point = "int list \<times> int list"

definition ec_double ::
  "field_desc \<Rightarrow> (k256_point \<Rightarrow> k256_point option) \<Rightarrow> int list \<Rightarrow> int list \<Rightarrow> (int list \<times> int list) option" where
  "ec_double F k256_double x y = do {
     rust_assert (length x = 8);
     rust_assert (length y = 8);
     x_bytes \<leftarrow> fe_slice_to_u8_array x;
     y_bytes \<leftarrow> fe_slice_to_u8_array y;
     (x_res, y_res) \<leftarrow> k256_double (x_bytes, y_bytes);
     rx \<leftarrow> u8_array_to_fe_array F x_res;
     ry \<leftarrow> u8_array_to_fe_array F y_res;
     Some (rx, ry)
   }"

definition ec_add ::
  "field_desc \<Rightarrow> (k256_point \<Rightarrow> k256_point \<Rightarrow> k256_point option) \<Rightarrow> int list \<Rightarrow> int list
     \<Rightarrow> int list \<Rightarrow> int list \<Rightarrow> (int list \<times> int list) option" where
  "ec_add F k256_add x1 y1 x2 y2 = do {
     rust_assert (length x1 = 8);
     rust_assert (length y1 = 8);
     rust_assert (length x2 = 8);
     rust_assert (length y2 = 8);
     x1_bytes \<leftarrow> fe_slice_to_u8_array x1;
     y1_bytes \<leftarrow> fe_slice_to_u8_array y1;
     x2_bytes \<leftarrow> fe_slice_to_u8_array x2;
     y2_bytes \<leftarrow> fe_slice_to_u8_array y2;
     (x_res, y_res) \<leftarrow> k256_add (x1_bytes, y1_bytes) (x2_bytes, y2_bytes);
     rx \<leftarrow> u8_array_to_fe_array F x_res;
     ry \<leftarrow> u8_array_to_fe_array F y_res;
     Some (rx, ry)
   }"

section \<open>Lemmas\<close>

text \<open>The value of limbs in base \<open>2 ^ 32\<close> by recursion.\<close>

fun limbs_int :: "int list \<Rightarrow> int" where
  "limbs_int [] = 0"
| "limbs_int (x # xs) = x + 2 ^ 32 * limbs_int xs"

lemma foldl_add_acc: "foldl (+) a xs = a + sum_list (xs :: int list)"
  by (induction xs arbitrary: a) simp_all

lemma limbs_sum: "sum_list (map (\<lambda>(i, fe). push_bit (i * 32) fe) (enumerate k xs))
    = 2 ^ (k * 32) * limbs_int xs"
proof (induction xs arbitrary: k)
  case (Cons x xs)
  have "(2 :: int) ^ (Suc k * 32) = 2 ^ (k * 32) * 2 ^ 32"
    by (simp add: power_add add.commute)
  with Cons show ?case by (simp add: push_bit_eq_mult algebra_simps)
qed simp

lemma limbs_value_eq: "xs \<noteq> [] \<Longrightarrow> limbs_value xs = Some (limbs_int xs)"
  using limbs_sum[of 0 xs] by (simp add: limbs_value_def foldl_add_acc)

lemma limbs_int_bounds:
  assumes "\<forall>x \<in> set xs. in_u32 x"
  shows "0 \<le> limbs_int xs" "limbs_int xs < 2 ^ (32 * length xs)"
proof -
  have "0 \<le> limbs_int xs \<and> limbs_int xs < 2 ^ (32 * length xs)"
    using assms
  proof (induction xs)
    case (Cons x xs)
    then have x: "0 \<le> x" "x \<le> 2 ^ 32 - 1" and xs: "limbs_int xs + 1 \<le> 2 ^ (32 * length xs)"
      "0 \<le> limbs_int xs"
      by (auto simp: in_u32_def)
    have "2 ^ 32 * (limbs_int xs + 1) \<le> 2 ^ 32 * (2 ^ (32 * length xs) :: int)"
      using xs(1) by (intro mult_left_mono) simp_all
    with x xs(2) show ?case by (simp add: power_add)
  qed simp
  then show "0 \<le> limbs_int xs" "limbs_int xs < 2 ^ (32 * length xs)" by simp_all
qed

lemma and_u32: "x AND 0xffffffff = as_u32 x"
  using take_bit_eq_mask[of 32 x] by (simp add: take_bit_eq_mod mask_eq_exp_minus_1 as_u32_def)

text \<open>The limbs of a number below \<open>2 ^ (32 * n)\<close> give it back.\<close>

lemma limbs_int_digits:
  "limbs_int (map (\<lambda>i. as_u32 (drop_bit (i * 32) r)) [k..<k + n]) = drop_bit (k * 32) r mod 2 ^ (32 * n)"
proof (induction n arbitrary: k)
  case (Suc n)
  let ?d = "\<lambda>i. drop_bit (i * 32) r"
  have "[k..<k + Suc n] = k # [Suc k..<Suc k + n]" by (simp add: upt_rec)
  then have "limbs_int (map (\<lambda>i. as_u32 (?d i)) [k..<k + Suc n])
      = as_u32 (?d k) + 2 ^ 32 * (?d (Suc k) mod 2 ^ (32 * n))"
    using Suc[of "Suc k"] by simp
  also have "?d (Suc k) = ?d k div 2 ^ 32"
    using drop_bit_drop_bit[of 32 "k * 32" r] by (simp add: drop_bit_eq_div add.commute)
  also have "as_u32 (?d k) + 2 ^ 32 * (?d k div 2 ^ 32 mod 2 ^ (32 * n)) = ?d k mod (2 ^ 32 * 2 ^ (32 * n))"
    unfolding as_u32_def by (subst zmod_zmult2_eq) simp_all
  finally show ?case by (simp add: power_add)
qed simp

lemma limbs_of_eq:
  assumes "2 ^ 32 \<le> modulus F"
  shows "limbs_of F r = map (\<lambda>i. as_u32 (drop_bit (i * 32) r)) [0..<8]"
proof -
  have "fe_from F (as_u32 x) = as_u32 x" for x
    unfolding fe_from_def using assms in_u32_as_u32[of x]
    by (intro mod_pos_pos_trivial) (auto simp: in_u32_def)
  then show ?thesis by (simp add: limbs_of_def and_u32)
qed

lemma limbs_of_int:
  assumes "2 ^ 32 \<le> modulus F" "0 \<le> r" "r < 2 ^ 256"
  shows "limbs_int (limbs_of F r) = r" "\<forall>x \<in> set (limbs_of F r). in_u32 x" "length (limbs_of F r) = 8"
proof -
  have "limbs_int (limbs_of F r) = r mod 2 ^ 256"
    using limbs_int_digits[of r 0 8] by (simp only: limbs_of_eq[OF assms(1)]) simp
  then show "limbs_int (limbs_of F r) = r" using assms by (simp only: mod_pos_pos_trivial)
qed (simp_all only: limbs_of_eq[OF assms(1)], auto)

lemma affine_bound:
  fixes a b c :: int
  assumes "0 \<le> a" "a < m" "0 \<le> b" "b < m" "0 \<le> c" "c < m"
  shows "0 \<le> a * b + c" "a * b + c < m * m"
proof -
  have "a * b \<le> (m - 1) * (m - 1)" using assms by (intro mult_mono) auto
  moreover have "(m - 1) * (m - 1) + (m - 1) = m * m - m" by (simp add: algebra_simps)
  ultimately show "a * b + c < m * m" using assms by linarith
qed (use assms in simp)

lemma bytes_of_u32:
  assumes "in_u32 x"
  shows "fe_byte x 0 + fe_byte x 1 * 2 ^ 8 + fe_byte x 2 * 2 ^ 16 + fe_byte x 3 * 2 ^ 24 = x"
proof -
  have "fe_byte x 0 = x mod 256" "fe_byte x 1 = x div 2 ^ 8 mod 256" "fe_byte x 2 = x div 2 ^ 16 mod 256"
    "fe_byte x 3 = x div 2 ^ 24 mod 256"
    by (simp_all add: fe_byte_def and_255 drop_bit_eq_div)
  then show ?thesis using bytes_sum[of x] as_u32_id[OF assms] by (simp only: as_u32_def)
qed

lemma chunks4_concat: "chunks4 (concat (map (\<lambda>fe. [f fe, g fe, h fe, k fe]) xs))
    = map (\<lambda>fe. [f fe, g fe, h fe, k fe]) xs"
  by (induction xs) simp_all

lemma div_less_square:
  fixes r m :: int
  assumes "r < m * m" "0 < m"
  shows "r div m < m"
proof (rule ccontr)
  assume "\<not> r div m < m"
  then have "m * m \<le> r div m * m" using assms(2) by (intro mult_right_mono) simp_all
  also have "\<dots> \<le> r" using assms(2) by (simp add: minus_mod_eq_div_mult [symmetric])
  finally show False using assms(1) by simp
qed

section \<open>Properties\<close>

text \<open>C13: \<open>affine_256\<close> is exact: for 32-bit limbs its two halves are 32-bit limbs and represent
  \<open>a * b + c\<close>, with no loss between them.\<close>

theorem affine_256_exact:
  assumes "2 ^ 32 \<le> modulus F"
    and "length a = 8" "\<forall>x \<in> set a. in_u32 x" "length b = 8" "\<forall>x \<in> set b. in_u32 x"
    and "length c = 8" "\<forall>x \<in> set c. in_u32 x"
  shows "\<exists>hi lo. affine_256 F a b c = Some (hi, lo) \<and> length hi = 8 \<and> length lo = 8 \<and>
    (\<forall>x \<in> set (hi @ lo). in_u32 x) \<and>
    limbs_int hi * 2 ^ 256 + limbs_int lo = limbs_int a * limbs_int b + limbs_int c"
proof -
  let ?r = "limbs_int a * limbs_int b + limbs_int c"
  have bounds: "0 \<le> limbs_int xs" "limbs_int xs < 2 ^ 256" if "length xs = 8" "\<forall>x \<in> set xs. in_u32 x" for xs
    using limbs_int_bounds[OF that(2)] that(1) by simp_all
  have r: "0 \<le> ?r" "?r < 2 ^ 256 * 2 ^ 256"
    using affine_bound[of "limbs_int a" "2 ^ 256" "limbs_int b" "limbs_int c"] bounds assms by blast+
  have hi: "0 \<le> ?r div 2 ^ 256" "?r div 2 ^ 256 < 2 ^ 256"
    using r(1) div_less_square[OF r(2)] by (simp_all add: pos_imp_zdiv_nonneg_iff)
  have lo: "0 \<le> ?r mod 2 ^ 256" "?r mod 2 ^ 256 < 2 ^ 256" by simp_all
  have e: "push_bit 256 1 - 1 = (mask 256 :: int)" by (simp only: mask_eq_exp_minus_1 push_bit_eq_mult mult_1)
  have ne: "a \<noteq> []" "b \<noteq> []" "c \<noteq> []" using assms by auto
  have "affine_256 F a b c = Some (limbs_of F (?r div 2 ^ 256), limbs_of F (?r mod 2 ^ 256))"
    using assms ne unfolding affine_256_def e take_bit_eq_mask[symmetric]
    by (simp add: limbs_value_eq drop_bit_eq_div take_bit_eq_mod Let_def del: power_numeral)
  moreover have "limbs_int (limbs_of F (?r div 2 ^ 256)) * 2 ^ 256 + limbs_int (limbs_of F (?r mod 2 ^ 256)) = ?r"
    by (simp only: limbs_of_int(1)[OF assms(1) hi] limbs_of_int(1)[OF assms(1) lo] div_mult_mod_eq)
  ultimately show ?thesis
    using limbs_of_int(2,3)[OF assms(1) hi] limbs_of_int(2,3)[OF assms(1) lo] by auto
qed

theorem affine_256_exact_witness:
  "\<exists>hi lo. affine_256 goldilocks_field [0, 1, 0, 0, 0, 0, 0, 0xffffffff] [5, 0, 0, 0, 0, 0, 0, 7]
       [1, 2, 3, 4, 5, 6, 7, 8] = Some (hi, lo) \<and> length hi = 8 \<and> length lo = 8 \<and>
    (\<forall>x \<in> set (hi @ lo). in_u32 x) \<and>
    limbs_int hi * 2 ^ 256 + limbs_int lo = limbs_int [0, 1, 0, 0, 0, 0, 0, 0xffffffff]
      * limbs_int [5, 0, 0, 0, 0, 0, 0, 7] + limbs_int [1, 2, 3, 4, 5, 6, 7, 8]"
  by (rule affine_256_exact) (simp_all add: in_u32_def)

text \<open>\<open>mod_256\<close> computes the remainder of the 512-bit number \<open>2 ^ 256 * a + b\<close> by \<open>c\<close> as
  32-bit limbs, and panics exactly when \<open>c\<close> is zero.\<close>

theorem mod_256_exact:
  assumes "2 ^ 32 \<le> modulus F"
    and "length a = 8" "\<forall>x \<in> set a. in_u32 x" "length b = 8" "\<forall>x \<in> set b. in_u32 x"
    and "length c = 8" "\<forall>x \<in> set c. in_u32 x"
  shows "(mod_256 F a b c = None \<longleftrightarrow> limbs_int c = 0) \<and>
    (mod_256 F a b c = Some res \<longrightarrow> length res = 8 \<and> (\<forall>x \<in> set res. in_u32 x) \<and>
      limbs_int res = (limbs_int a * 2 ^ 256 + limbs_int b) mod limbs_int c)"
proof -
  have ne: "a \<noteq> []" "b \<noteq> []" "c \<noteq> []" using assms by auto
  let ?r = "(limbs_int a * 2 ^ 256 + limbs_int b) mod limbs_int c"
  have eq: "mod_256 F a b c = (if limbs_int c = 0 then None else Some (limbs_of F ?r))"
    using assms ne by (simp add: mod_256_def limbs_value_eq push_bit_eq_mult del: power_numeral)
  have none: "mod_256 F a b c = None \<longleftrightarrow> limbs_int c = 0"
    by (simp add: eq)
  have some: "length res = 8 \<and> (\<forall>x \<in> set res. in_u32 x) \<and>
      limbs_int res = (limbs_int a * 2 ^ 256 + limbs_int b) mod limbs_int c"
    if "mod_256 F a b c = Some res"
  proof -
    from that have c0: "limbs_int c \<noteq> 0" and res: "res = limbs_of F ?r" by (auto simp: eq split: if_splits)
    have "limbs_int c < 2 ^ 256" "0 \<le> limbs_int c"
      using limbs_int_bounds[OF assms(7)] assms(6) by simp_all
    with c0 have c: "0 < limbs_int c" "limbs_int c < 2 ^ 256" by simp_all
    have "0 \<le> ?r" "?r < 2 ^ 256"
      using pos_mod_bound[OF c(1)] c by (simp, blast intro: order.strict_trans)
    from limbs_of_int[OF assms(1) this] show ?thesis
      by (simp add: res)
  qed
  show ?thesis using none some by blast
qed

theorem mod_256_exact_witness:
  "mod_256 goldilocks_field [1, 2, 3, 4, 5, 6, 7, 8] [9, 0, 0, 0, 0, 0, 0, 1] [0, 0, 0, 0, 0, 0, 0, 0]
     = None"
  using mod_256_exact[of goldilocks_field "[1, 2, 3, 4, 5, 6, 7, 8]" "[9, 0, 0, 0, 0, 0, 0, 1]"
      "[0, 0, 0, 0, 0, 0, 0, 0]"]
  by (simp add: in_u32_def)

text \<open>The conversion to the big-endian coordinates of \<open>k256\<close> and back is the identity on 32-bit
  limbs.\<close>

lemma coordinate_bytes_roundtrip:
  assumes "2 ^ 32 \<le> modulus F" "length x = 8" "\<forall>v \<in> set x. in_u32 v"
    and "fe_slice_to_u8_array x = Some bytes"
  shows "u8_array_to_fe_array F bytes = Some x"
proof -
  have bytes: "bytes = concat (map (\<lambda>fe. [fe_byte fe 3, fe_byte fe 2, fe_byte fe 1, fe_byte fe 0]) (rev x))"
    using assms(2,4) by (simp add: fe_slice_to_u8_array_def)
  then have len: "length bytes = 32"
    using assms(2) by (simp add: length_concat comp_def sum_list_triv)
  have "map (chunk_to_fe F) (rev (chunks4 bytes))
      = map (\<lambda>fe. chunk_to_fe F [fe_byte fe 3, fe_byte fe 2, fe_byte fe 1, fe_byte fe 0]) x"
    by (simp only: bytes chunks4_concat) (simp add: rev_map comp_def)
  also have "\<dots> = map (\<lambda>fe. fe) x"
  proof (rule map_cong[OF refl])
    fix fe assume "fe \<in> set x"
    then have "in_u32 fe" using assms(3) by simp
    then have "chunk_to_fe F [fe_byte fe 3, fe_byte fe 2, fe_byte fe 1, fe_byte fe 0] = fe_from F fe"
      using bytes_of_u32[of fe] by (simp add: chunk_to_fe_def)
    also have "\<dots> = fe"
      using \<open>in_u32 fe\<close> assms(1) unfolding fe_from_def in_u32_def
      by (intro mod_pos_pos_trivial) linarith+
    finally show "chunk_to_fe F [fe_byte fe 3, fe_byte fe 2, fe_byte fe 1, fe_byte fe 0] = fe" .
  qed
  finally show ?thesis by (simp add: u8_array_to_fe_array_def len)
qed

end
