(* ===== verification/Riscv_Instructions.thy ===== *)
theory Riscv_Instructions
  imports Riscv_Trace Riscv_Pil Riscv_Arith Riscv_Poseidon
begin

text \<open>
  The instructions of the RISC-V executor, after \<open>Executor::exec_instruction\<close> of
  \<open>riscv-executor/src/lib.rs\<close>: one definition per branch of its \<open>match\<close>. An instruction
  reads and writes registers through the register memory (logging each access as a call into the
  \<open>regs\<close> submachine), memory, the program counter and, in witness mode, the columns of the
  current row. A panic is \<open>None\<close>.
\<close>

section \<open>State\<close>

text \<open>The prover callback \<open>inputs\<close> may keep a state of its own: its answer is a function of the
  queries it has already answered. Its outer \<open>None\<close> is an \<open>Err\<close>. The last two tables of the
  executor are caches of the link searches.\<close>

record executor =
  proc :: trace_builder
  label_map :: "string \<rightharpoonup> elem"
  inputs :: "string list \<Rightarrow> string \<Rightarrow> int option option"
  queries :: "string list"
  bootloader_inputs :: "elem list"
  ex_fixed :: "(string \<times> int list list) list"
  program_cols :: "(string \<times> string) list"
  ex_step :: int
  ex_mode :: exec_mode
  pil_links :: "identity list"
  pil_instruction_links :: "instruction \<times> machine_instance \<rightharpoonup> identity list"
  pil_other_links :: "string \<times> string \<rightharpoonup> identity list"
  cached_fixed_cols :: "int list list"

text \<open>Code of other crates: the Poseidon2 permutation, the Keccak permutation and the secp256k1
  operations.\<close>

record externals =
  poseidon2_gl :: "int list \<Rightarrow> int list"
  keccakf :: "int list \<Rightarrow> int list"
  k256_add :: "k256_point \<Rightarrow> k256_point \<Rightarrow> k256_point option"
  k256_double :: "k256_point \<Rightarrow> k256_point option"

section \<open>Columns, links and registers\<close>

text \<open>A column with a single size; a column with several panics.\<close>

definition get_fixed :: "executor \<Rightarrow> string \<Rightarrow> int list option option" where
  "get_fixed e name =
     (case find (\<lambda>(n, _). n = name) (ex_fixed e) of
        None \<Rightarrow> Some None
      | Some (_, [v]) \<Rightarrow> Some (Some v)
      | Some _ \<Rightarrow> None)"

definition get_known_fixed :: "executor \<Rightarrow> known_fixed_col \<Rightarrow> nat \<Rightarrow> int option" where
  "get_known_fixed e col row =
     (case vec_get (cached_fixed_cols e) (fixed_idx col) of
        Some v \<Rightarrow> vec_get v row
      | None \<Rightarrow> Some 0)"

text \<open>The macro \<open>get_fixed!\<close>.\<close>

definition fixed_value :: "executor \<Rightarrow> known_fixed_col \<Rightarrow> elem option" where
  "fixed_value e col =
     (if ex_mode e = Witness then do {
        pc \<leftarrow> elem_u (get_pc (proc e));
        v \<leftarrow> get_known_fixed e col (nat pc);
        Some (Elem_Field v)
      } else Some (Elem_Field 0))"

text \<open>A sequence of \<open>set_col!\<close>.\<close>

fun set_cols :: "field_desc \<Rightarrow> executor \<Rightarrow> (known_witness_col \<times> elem) list \<Rightarrow> executor option" where
  "set_cols F e [] = Some e"
| "set_cols F e ((c, v) # cvs) = do {
     t \<leftarrow> set_col F (proc e) c v;
     set_cols F (e\<lparr>proc := t\<rparr>) cvs
   }"

definition sink_id :: "executor \<Rightarrow> int option" where
  "sink_id e = do {
     col \<leftarrow> get_fixed e ''main__rom::p_instr__loop'';
     vals \<leftarrow> col;
     pos \<leftarrow> find (\<lambda>i. vals ! i = 1) [0..<length vals];
     Some (int pos)
   }"

definition instr_link_id ::
  "executor \<Rightarrow> instruction \<Rightarrow> machine_instance \<Rightarrow> nat \<Rightarrow> (nat \<times> executor) option" where
  "instr_link_id e instr target idx =
     (if ex_mode e = Witness then do {
        let entries = (case pil_instruction_links e (instr, target) of
            Some ids \<Rightarrow> ids
          | None \<Rightarrow> find_instruction_links (pil_links e) (instr_flag instr) (machine_namespace target));
        let e = e\<lparr>pil_instruction_links := (pil_instruction_links e)((instr, target) \<mapsto> entries)\<rparr>;
        i \<leftarrow> vec_get entries idx;
        Some (identity_id_of i, e)
      } else Some (0, e))"

definition link_id :: "executor \<Rightarrow> string \<Rightarrow> string \<Rightarrow> nat \<Rightarrow> (nat \<times> executor) option" where
  "link_id e source_name target idx =
     (if ex_mode e = Witness then do {
        let entries = (case pil_other_links e (source_name, target) of
            Some ids \<Rightarrow> ids
          | None \<Rightarrow> find_links (pil_links e) source_name target);
        let e = e\<lparr>pil_other_links := (pil_other_links e)((source_name, target) \<mapsto> entries)\<rparr>;
        i \<leftarrow> vec_get entries idx;
        Some (identity_id_of i, e)
      } else Some (0, e))"

definition call_submachine ::
  "executor \<Rightarrow> machine_instance \<Rightarrow> nat \<Rightarrow> int \<times> int \<times> int \<times> int \<Rightarrow> int list \<Rightarrow> executor" where
  "call_submachine e m lid args ext = e\<lparr>proc := submachine_op (proc e) m lid args ext\<rparr>"

definition reg_read :: "field_desc \<Rightarrow> executor \<Rightarrow> int \<Rightarrow> int \<Rightarrow> nat \<Rightarrow> (elem \<times> executor) option" where
  "reg_read F e step_offset reg lid = do {
     let val = get_reg_mem (proc e) reg;
     s \<leftarrow> check_u32 (ex_step e + step_offset);
     Some (val, call_submachine e M_regs lid
                  (fe_from F 0, fe_from F reg, fe_from F s, into_fe F val) [])
   }"

definition reg_write :: "field_desc \<Rightarrow> executor \<Rightarrow> int \<Rightarrow> int \<Rightarrow> elem \<Rightarrow> nat \<Rightarrow> executor option" where
  "reg_write F e step_offset reg val lid = do {
     s \<leftarrow> check_u32 (ex_step e + step_offset);
     let e = call_submachine e M_regs lid
               (fe_from F 1, fe_from F reg, fe_from F s, into_fe F val) [];
     Some (e\<lparr>proc := set_reg_mem (proc e) reg val\<rparr>)
   }"

text \<open>Register accesses through link \<open>k\<close> of the instruction into the register machine.\<close>

definition read_reg ::
  "field_desc \<Rightarrow> executor \<Rightarrow> instruction \<Rightarrow> nat \<Rightarrow> int \<Rightarrow> int \<Rightarrow> (elem \<times> executor) option" where
  "read_reg F e instr k step_offset reg = do {
     (lid, e) \<leftarrow> instr_link_id e instr M_regs k;
     reg_read F e step_offset reg lid
   }"

definition write_reg ::
  "field_desc \<Rightarrow> executor \<Rightarrow> instruction \<Rightarrow> nat \<Rightarrow> int \<Rightarrow> int \<Rightarrow> elem \<Rightarrow> executor option" where
  "write_reg F e instr k step_offset reg val = do {
     (lid, e) \<leftarrow> instr_link_id e instr M_regs k;
     reg_write F e step_offset reg val lid
   }"

text \<open>Memory accesses at step \<open>step + step_offset\<close>.\<close>

definition mem_read ::
  "field_desc \<Rightarrow> executor \<Rightarrow> int \<Rightarrow> int \<Rightarrow> nat \<Rightarrow> int \<times> executor" where
  "mem_read F e addr stp lid =
     (let (v, t) = get_mem F (proc e) addr stp lid in (v, e\<lparr>proc := t\<rparr>))"

definition mem_write :: "field_desc \<Rightarrow> executor \<Rightarrow> int \<Rightarrow> int \<Rightarrow> int \<Rightarrow> nat \<Rightarrow> executor" where
  "mem_write F e addr val stp lid = e\<lparr>proc := set_mem F (proc e) addr val stp lid\<rparr>"

definition jump_to :: "field_desc \<Rightarrow> executor \<Rightarrow> elem \<Rightarrow> executor option" where
  "jump_to F e value = do { t \<leftarrow> set_pc F (proc e) value; Some (e\<lparr>proc := t\<rparr>) }"

text \<open>Arguments of an instruction, and an index computed as an \<open>i64\<close>.\<close>

definition arg_u :: "elem list \<Rightarrow> nat \<Rightarrow> int option" where
  "arg_u args i = vec_get args i \<bind> elem_u"

definition arg_bin :: "elem list \<Rightarrow> nat \<Rightarrow> int option" where
  "arg_bin args i = vec_get args i \<bind> bin"

definition vec_get_i64 :: "'a list \<Rightarrow> int \<Rightarrow> 'a option" where
  "vec_get_i64 xs i = (if i < 0 then None else vec_get xs (nat i))"

text \<open>The columns of the zero test: \<open>XX\<close>, \<open>XXIsZero\<close> and, for a non-zero value, its inverse.\<close>

definition set_zero_test :: "field_desc \<Rightarrow> executor \<Rightarrow> elem \<Rightarrow> executor option" where
  "set_zero_test F e val = do {
     e \<leftarrow> set_cols F e [(Col_XX, val), (Col_XXIsZero, from_bool_as_fe (elem_is_zero val))];
     if elem_is_zero val then Some e
     else do {
       inv \<leftarrow> fe_div F 1 (into_fe F val);
       set_cols F e [(Col_XX_inv, Elem_Field inv)]
     }
   }"

definition is_multiple_of_4 :: "int \<Rightarrow> bool" where
  "is_multiple_of_4 n \<longleftrightarrow> n mod 4 = 0"

section \<open>Registers and memory\<close>

definition exec_set_reg :: "field_desc \<Rightarrow> executor \<Rightarrow> elem list \<Rightarrow> executor option" where
  "exec_set_reg F e args = do {
     addr \<leftarrow> arg_u args 0;
     val \<leftarrow> vec_get args 1;
     e \<leftarrow> write_reg F e I_set_reg 0 0 addr val;
     e \<leftarrow> set_cols F e [(Col_Y, val)];
     y_read_free \<leftarrow> fixed_value e Fix_Y_read_free;
     if \<not> elem_is_zero y_read_free then set_cols F e [(Col_Y_free_value, val)] else Some e
   }"

definition exec_get_reg :: "field_desc \<Rightarrow> executor \<Rightarrow> elem list \<Rightarrow> (elem \<times> executor) option" where
  "exec_get_reg F e args = do {
     e \<leftarrow> set_cols F e [(Col_instr I_get_reg, Elem_Binary 1)];
     addr \<leftarrow> arg_u args 0;
     read_reg F e I_get_reg 0 0 addr
   }"

definition exec_affine :: "field_desc \<Rightarrow> executor \<Rightarrow> elem list \<Rightarrow> executor option" where
  "exec_affine F e args = do {
     rd \<leftarrow> arg_u args 0;
     (val1, e) \<leftarrow> read_reg F e I_affine 0 0 rd;
     wr \<leftarrow> arg_u args 1;
     factor \<leftarrow> vec_get args 2;
     offset \<leftarrow> vec_get args 3;
     res \<leftarrow> elem_add F (elem_mul F val1 factor) offset;
     e \<leftarrow> write_reg F e I_affine 1 1 wr res;
     set_cols F e [(Col_tmp1_col, val1)]
   }"

definition exec_mstore :: "field_desc \<Rightarrow> executor \<Rightarrow> instruction \<Rightarrow> elem list \<Rightarrow> executor option" where
  "exec_mstore F e instr args = do {
     reg1 \<leftarrow> arg_u args 0;
     reg2 \<leftarrow> arg_u args 1;
     (addr1, e) \<leftarrow> read_reg F e instr 0 0 reg1;
     (addr2, e) \<leftarrow> read_reg F e instr 1 1 reg2;
     offset \<leftarrow> arg_bin args 2;
     reg3 \<leftarrow> arg_u args 3;
     (val, e) \<leftarrow> read_reg F e instr 2 2 reg3;
     a1 \<leftarrow> bin addr1;
     a2 \<leftarrow> bin addr2;
     d \<leftarrow> check_i64 (a1 - a2);
     addr \<leftarrow> check_i64 (d + offset);
     rust_assert (addr \<ge> 0);
     rust_assert (addr smod 4 = 0);
     e \<leftarrow> set_cols F e [(Col_wrap_bit, if addr > 0xffffffff then Elem_Field 1 else Elem_Field 0)];
     let addr = as_u32 addr;
     (lid, e) \<leftarrow> instr_link_id e instr M_memory 0;
     v \<leftarrow> elem_u val;
     s \<leftarrow> check_u32 (ex_step e + 3);
     let e = mem_write F e addr v s lid;
     let (b1, b2, b3, b4, sign) = decompose_lower32 addr;
     set_cols F e
       [(Col_tmp1_col, addr1), (Col_tmp2_col, addr2), (Col_tmp3_col, val),
        (Col_X_b1, from_u32_as_fe F b1), (Col_X_b2, from_u32_as_fe F b2),
        (Col_X_b3, from_u32_as_fe F b3), (Col_X_b4, from_u32_as_fe F b4)]
   }"

definition exec_mload :: "field_desc \<Rightarrow> executor \<Rightarrow> elem list \<Rightarrow> executor option" where
  "exec_mload F e args = do {
     reg \<leftarrow> arg_u args 0;
     (addr1, e) \<leftarrow> read_reg F e I_mload 0 0 reg;
     offset \<leftarrow> arg_bin args 1;
     write_addr1 \<leftarrow> arg_u args 2;
     write_addr2 \<leftarrow> arg_u args 3;
     a1 \<leftarrow> bin addr1;
     addr \<leftarrow> check_i64 (a1 + offset);
     (lid, e) \<leftarrow> instr_link_id e I_mload M_memory 0;
     s \<leftarrow> check_u32 (ex_step e + 1);
     let (val, e) = mem_read F e (as_u32 addr AND 0xfffffffc) s lid;
     let rem = addr smod 4;
     e \<leftarrow> write_reg F e I_mload 1 2 write_addr1 (Elem_Binary val);
     e \<leftarrow> write_reg F e I_mload 2 3 write_addr2 (Elem_Binary rem);
     arg1 \<leftarrow> vec_get args 1;
     sum \<leftarrow> elem_add F addr1 arg1;
     v \<leftarrow> as_i64_from_lower_bytes F sum;
     let (b1, b2, b3, b4, sign) = decompose_lower32 v;
     set_cols F e
       [(Col_tmp1_col, addr1), (Col_tmp3_col, from_u32_as_fe F val),
        (Col_tmp4_col, from_u32_as_fe F (as_u32 rem)),
        (Col_X_b1, from_u32_as_fe F (b1 div 4)), (Col_X_b2, from_u32_as_fe F b2),
        (Col_X_b3, from_u32_as_fe F b3), (Col_X_b4, from_u32_as_fe F b4),
        (Col_wrap_bit, from_u32_as_fe F (as_u32 (drop_bit 32 (as_u64 v) AND 1)))]
   }"

definition exec_load_bootloader_input :: "field_desc \<Rightarrow> executor \<Rightarrow> elem list \<Rightarrow> executor option" where
  "exec_load_bootloader_input F e args = do {
     reg \<leftarrow> arg_u args 0;
     (addr, e) \<leftarrow> read_reg F e I_load_bootloader_input 0 0 reg;
     write_addr \<leftarrow> arg_u args 1;
     factor \<leftarrow> arg_bin args 2;
     offset \<leftarrow> arg_bin args 3;
     a \<leftarrow> bin addr;
     m \<leftarrow> check_i64 (a * factor);
     addr \<leftarrow> check_i64 (m + offset);
     val \<leftarrow> vec_get_i64 (bootloader_inputs e) addr;
     write_reg F e I_load_bootloader_input 1 2 write_addr val
   }"

definition exec_assert_bootloader_input :: "field_desc \<Rightarrow> executor \<Rightarrow> elem list \<Rightarrow> executor option" where
  "exec_assert_bootloader_input F e args = do {
     reg0 \<leftarrow> arg_u args 0;
     (addr, e) \<leftarrow> read_reg F e I_assert_bootloader_input 0 0 reg0;
     reg1 \<leftarrow> arg_u args 1;
     (val, e) \<leftarrow> read_reg F e I_assert_bootloader_input 1 1 reg1;
     factor \<leftarrow> arg_bin args 2;
     offset \<leftarrow> arg_bin args 3;
     a \<leftarrow> bin addr;
     m \<leftarrow> check_i64 (a * factor);
     addr \<leftarrow> check_i64 (m + offset);
     actual_val \<leftarrow> vec_get_i64 (bootloader_inputs e) addr;
     rust_assert (val = actual_val);
     Some e
   }"

section \<open>Control flow\<close>

definition exec_load_label :: "field_desc \<Rightarrow> executor \<Rightarrow> elem list \<Rightarrow> executor option" where
  "exec_load_label F e args = do {
     wr \<leftarrow> arg_u args 0;
     label \<leftarrow> vec_get args 1;
     e \<leftarrow> write_reg F e I_load_label 0 0 wr label;
     set_cols F e [(Col_tmp1_col, label), (Col_instr_load_label_param_l, label)]
   }"

definition exec_jump :: "field_desc \<Rightarrow> executor \<Rightarrow> elem list \<Rightarrow> executor option" where
  "exec_jump F e args = do {
     label \<leftarrow> vec_get args 0;
     pc \<leftarrow> elem_u (get_pc (proc e));
     next_pc \<leftarrow> check_u32 (pc + 1);
     wr \<leftarrow> arg_u args 1;
     e \<leftarrow> write_reg F e I_jump 0 0 wr (Elem_Binary next_pc);
     e \<leftarrow> jump_to F e label;
     set_cols F e [(Col_instr_jump_param_l, label)]
   }"

definition exec_jump_dyn :: "field_desc \<Rightarrow> executor \<Rightarrow> elem list \<Rightarrow> executor option" where
  "exec_jump_dyn F e args = do {
     rd \<leftarrow> arg_u args 0;
     (addr, e) \<leftarrow> read_reg F e I_jump_dyn 0 0 rd;
     pc \<leftarrow> elem_u (get_pc (proc e));
     next_pc \<leftarrow> check_u32 (pc + 1);
     wr \<leftarrow> arg_u args 1;
     e \<leftarrow> write_reg F e I_jump_dyn 1 0 wr (Elem_Binary next_pc);
     e \<leftarrow> jump_to F e addr;
     set_cols F e [(Col_tmp1_col, addr)]
   }"

definition exec_jump_to_bootloader_input :: "field_desc \<Rightarrow> executor \<Rightarrow> elem list \<Rightarrow> executor option" where
  "exec_jump_to_bootloader_input F e args = do {
     idx \<leftarrow> arg_bin args 0;
     addr \<leftarrow> vec_get_i64 (bootloader_inputs e) idx;
     jump_to F e addr
   }"

definition exec_branch_if_diff_nonzero :: "field_desc \<Rightarrow> executor \<Rightarrow> elem list \<Rightarrow> executor option" where
  "exec_branch_if_diff_nonzero F e args = do {
     reg1 \<leftarrow> arg_u args 0;
     reg2 \<leftarrow> arg_u args 1;
     (val1, e) \<leftarrow> read_reg F e I_branch_if_diff_nonzero 0 0 reg1;
     (val2, e) \<leftarrow> read_reg F e I_branch_if_diff_nonzero 1 1 reg2;
     val \<leftarrow> elem_sub F val1 val2;
     label \<leftarrow> vec_get args 2;
     e \<leftarrow> (if \<not> elem_is_zero val then jump_to F e label else Some e);
     e \<leftarrow> set_cols F e [(Col_tmp1_col, val1), (Col_tmp2_col, val2)];
     e \<leftarrow> set_zero_test F e val;
     set_cols F e [(Col_instr_branch_if_diff_nonzero_param_l, label)]
   }"

definition exec_branch_if_diff_equal :: "field_desc \<Rightarrow> executor \<Rightarrow> elem list \<Rightarrow> executor option" where
  "exec_branch_if_diff_equal F e args = do {
     reg1 \<leftarrow> arg_u args 0;
     reg2 \<leftarrow> arg_u args 1;
     (val1, e) \<leftarrow> read_reg F e I_branch_if_diff_equal 0 0 reg1;
     (val2, e) \<leftarrow> read_reg F e I_branch_if_diff_equal 1 1 reg2;
     offset \<leftarrow> vec_get args 2;
     d \<leftarrow> elem_sub F val1 val2;
     val \<leftarrow> elem_sub F d offset;
     label \<leftarrow> vec_get args 3;
     e \<leftarrow> (if elem_is_zero val then jump_to F e label else Some e);
     e \<leftarrow> set_cols F e [(Col_tmp1_col, val1), (Col_tmp2_col, val2)];
     e \<leftarrow> set_zero_test F e val;
     set_cols F e [(Col_instr_branch_if_diff_equal_param_l, label)]
   }"

definition exec_skip_if_equal :: "field_desc \<Rightarrow> executor \<Rightarrow> elem list \<Rightarrow> executor option" where
  "exec_skip_if_equal F e args = do {
     reg1 \<leftarrow> arg_u args 0;
     reg2 \<leftarrow> arg_u args 1;
     (val1, e) \<leftarrow> read_reg F e I_skip_if_equal 0 0 reg1;
     (val2, e) \<leftarrow> read_reg F e I_skip_if_equal 1 1 reg2;
     offset \<leftarrow> vec_get args 2;
     cond \<leftarrow> vec_get args 3;
     d \<leftarrow> elem_sub F val1 val2;
     val \<leftarrow> elem_add F d offset;
     e \<leftarrow> (if elem_is_zero val then do {
              pc \<leftarrow> elem_s (get_pc (proc e));
              c \<leftarrow> elem_s cond;
              p \<leftarrow> check_i32 (pc + c);
              target \<leftarrow> check_i32 (p + 1);
              jump_to F e (Elem_Binary target)
            } else Some e);
     e \<leftarrow> set_cols F e [(Col_tmp1_col, val1), (Col_tmp2_col, val2)];
     set_zero_test F e val
   }"

definition exec_branch_if_diff_greater_than :: "field_desc \<Rightarrow> executor \<Rightarrow> elem list \<Rightarrow> executor option" where
  "exec_branch_if_diff_greater_than F e args = do {
     reg1 \<leftarrow> arg_u args 0;
     reg2 \<leftarrow> arg_u args 1;
     (val1, e) \<leftarrow> read_reg F e I_branch_if_diff_greater_than 0 0 reg1;
     (val2, e) \<leftarrow> read_reg F e I_branch_if_diff_greater_than 1 1 reg2;
     offset \<leftarrow> vec_get args 2;
     d \<leftarrow> elem_sub F val1 val2;
     val \<leftarrow> elem_sub F d offset;
     label \<leftarrow> vec_get args 3;
     b \<leftarrow> bin val;
     e \<leftarrow> (if b > 0 then jump_to F e label else Some e);
     val_p \<leftarrow> elem_add F val (from_u32_as_fe F 0xffffffff);
     v \<leftarrow> as_i64_from_lower_bytes F val_p;
     let (b1, b2, b3, b4, sign) = decompose_lower32 v;
     set_cols F e
       [(Col_tmp1_col, val1), (Col_tmp2_col, val2),
        (Col_instr_branch_if_diff_greater_than_param_l, label),
        (Col_X_b1, from_u32_as_fe F b1), (Col_X_b2, from_u32_as_fe F b2),
        (Col_X_b3, from_u32_as_fe F b3), (Col_X_b4, from_u32_as_fe F b4),
        (Col_wrap_bit, if b > 0 then Elem_Field 1 else Elem_Field 0)]
   }"

definition exec_is_diff_greater_than :: "field_desc \<Rightarrow> executor \<Rightarrow> elem list \<Rightarrow> executor option" where
  "exec_is_diff_greater_than F e args = do {
     reg1 \<leftarrow> arg_u args 0;
     reg2 \<leftarrow> arg_u args 1;
     (val1, e) \<leftarrow> read_reg F e I_is_diff_greater_than 0 0 reg1;
     (val2, e) \<leftarrow> read_reg F e I_is_diff_greater_than 1 1 reg2;
     offset \<leftarrow> vec_get args 2;
     wr \<leftarrow> arg_u args 3;
     d \<leftarrow> elem_sub F val1 val2;
     val \<leftarrow> elem_sub F d offset;
     b \<leftarrow> bin val;
     let r = (if b > 0 then 1 else 0);
     e \<leftarrow> write_reg F e I_is_diff_greater_than 2 2 wr (Elem_Binary r);
     val \<leftarrow> elem_add F val (from_u32_as_fe F 0xffffffff);
     v \<leftarrow> as_i64_from_lower_bytes F val;
     let (b1, b2, b3, b4, sign) = decompose_lower32 v;
     set_cols F e
       [(Col_tmp1_col, val1), (Col_tmp2_col, val2),
        (Col_X_b1, from_u32_as_fe F b1), (Col_X_b2, from_u32_as_fe F b2),
        (Col_X_b3, from_u32_as_fe F b3), (Col_X_b4, from_u32_as_fe F b4),
        (Col_wrap_bit, from_u32_as_fe F r)]
   }"

definition exec_is_equal_zero :: "field_desc \<Rightarrow> executor \<Rightarrow> elem list \<Rightarrow> executor option" where
  "exec_is_equal_zero F e args = do {
     reg \<leftarrow> arg_u args 0;
     (val, e) \<leftarrow> read_reg F e I_is_equal_zero 0 0 reg;
     wr \<leftarrow> arg_u args 1;
     let r = (if elem_is_zero val then 1 else 0);
     e \<leftarrow> write_reg F e I_is_equal_zero 1 2 wr (Elem_Binary r);
     e \<leftarrow> set_cols F e [(Col_tmp1_col, val)];
     set_zero_test F e val
   }"

definition exec_is_not_equal :: "field_desc \<Rightarrow> executor \<Rightarrow> elem list \<Rightarrow> executor option" where
  "exec_is_not_equal F e args = do {
     reg1 \<leftarrow> arg_u args 0;
     reg2 \<leftarrow> arg_u args 1;
     (val1, e) \<leftarrow> read_reg F e I_is_not_equal 0 0 reg1;
     (val2, e) \<leftarrow> read_reg F e I_is_not_equal 1 1 reg2;
     wr \<leftarrow> arg_u args 2;
     v1 \<leftarrow> bin val1;
     v2 \<leftarrow> bin val2;
     d \<leftarrow> check_i64 (v1 - v2);
     let val = Elem_Binary d;
     let r = (if \<not> elem_is_zero val then 1 else 0);
     e \<leftarrow> write_reg F e I_is_not_equal 2 2 wr (Elem_Binary r);
     e \<leftarrow> set_cols F e [(Col_tmp1_col, val1), (Col_tmp2_col, val2), (Col_tmp3_col, from_u32_as_fe F r)];
     set_zero_test F e val
   }"

section \<open>Arithmetic\<close>

definition exec_add_wrap :: "field_desc \<Rightarrow> executor \<Rightarrow> elem list \<Rightarrow> executor option" where
  "exec_add_wrap F e args = do {
     reg1 \<leftarrow> arg_u args 0;
     reg2 \<leftarrow> arg_u args 1;
     (val1, e) \<leftarrow> read_reg F e I_add_wrap 0 0 reg1;
     (val2, e) \<leftarrow> read_reg F e I_add_wrap 1 1 reg2;
     e \<leftarrow> set_cols F e [(Col_tmp1_col, val1), (Col_tmp2_col, val2)];
     offset \<leftarrow> vec_get args 2;
     wr \<leftarrow> arg_u args 3;
     s \<leftarrow> elem_add F val1 val2;
     val \<leftarrow> elem_add F s offset;
     b \<leftarrow> bin val;
     rust_assert (b < push_bit 33 2);
     rust_assert (b \<ge> 0);
     let r = as_u32 b;
     e \<leftarrow> write_reg F e I_add_wrap 2 2 wr (Elem_Binary r);
     v \<leftarrow> as_i64_from_lower_bytes F val;
     let (b1, b2, b3, b4, sign) = decompose_lower32 v;
     set_cols F e
       [(Col_tmp3_col, from_u32_as_fe F r),
        (Col_X_b1, from_u32_as_fe F b1), (Col_X_b2, from_u32_as_fe F b2),
        (Col_X_b3, from_u32_as_fe F b3), (Col_X_b4, from_u32_as_fe F b4),
        (Col_wrap_bit, if v > 0xffffffff then Elem_Field 1 else Elem_Field 0)]
   }"

definition exec_wrap16 :: "field_desc \<Rightarrow> executor \<Rightarrow> elem list \<Rightarrow> executor option" where
  "exec_wrap16 F e args = do {
     reg \<leftarrow> arg_u args 0;
     (val, e) \<leftarrow> read_reg F e I_wrap16 0 0 reg;
     factor \<leftarrow> arg_bin args 1;
     wr \<leftarrow> arg_u args 2;
     x \<leftarrow> bin val;
     val_offset \<leftarrow> check_i64 (x * factor);
     let r = as_u32 val_offset;
     e \<leftarrow> write_reg F e I_wrap16 1 3 wr (Elem_Binary r);
     let tmp3_val = from_u32_as_fe F r;
     v \<leftarrow> as_i64_from_lower_bytes F tmp3_val;
     let (b1, b2, b3, b4, sign) = decompose_lower32 v;
     let (b5, b6, b7, b8, sign2) = decompose_lower32 (drop_bit 32 val_offset);
     set_cols F e
       [(Col_tmp1_col, val), (Col_tmp3_col, tmp3_val),
        (Col_X_b1, from_u32_as_fe F b1), (Col_X_b2, from_u32_as_fe F b2),
        (Col_X_b3, from_u32_as_fe F b3), (Col_X_b4, from_u32_as_fe F b4),
        (Col_Y_b5, from_u32_as_fe F b5), (Col_Y_b6, from_u32_as_fe F b6)]
   }"

definition exec_sub_wrap_with_offset :: "field_desc \<Rightarrow> executor \<Rightarrow> elem list \<Rightarrow> executor option" where
  "exec_sub_wrap_with_offset F e args = do {
     reg1 \<leftarrow> arg_u args 0;
     reg2 \<leftarrow> arg_u args 1;
     (val1, e) \<leftarrow> read_reg F e I_sub_wrap_with_offset 0 0 reg1;
     (val2, e) \<leftarrow> read_reg F e I_sub_wrap_with_offset 1 1 reg2;
     offset \<leftarrow> vec_get args 2;
     wr \<leftarrow> arg_u args 3;
     d \<leftarrow> elem_sub F val1 val2;
     val \<leftarrow> elem_add F d offset;
     b \<leftarrow> bin val;
     r_i64 \<leftarrow> check_i64 (b + 0x100000000);
     let r = as_u32 r_i64;
     e \<leftarrow> write_reg F e I_sub_wrap_with_offset 2 2 wr (Elem_Binary r);
     let (b1, b2, b3, b4, sign) = decompose_lower32 r_i64;
     set_cols F e
       [(Col_tmp1_col, val1), (Col_tmp2_col, val2), (Col_tmp3_col, from_u32_as_fe F r),
        (Col_X_b1, from_u32_as_fe F b1), (Col_X_b2, from_u32_as_fe F b2),
        (Col_X_b3, from_u32_as_fe F b3), (Col_X_b4, from_u32_as_fe F b4),
        (Col_wrap_bit, if r_i64 > 0xffffffff then Elem_Field 1 else Elem_Field 0)]
   }"

definition exec_sign_extend_byte :: "field_desc \<Rightarrow> executor \<Rightarrow> elem list \<Rightarrow> executor option" where
  "exec_sign_extend_byte F e args = do {
     reg \<leftarrow> arg_u args 0;
     (val, e) \<leftarrow> read_reg F e I_sign_extend_byte 0 0 reg;
     wr \<leftarrow> arg_u args 1;
     u \<leftarrow> elem_u val;
     let byte_val = signed_take_bit 7 u;
     let extended_val = as_u32 byte_val;
     e \<leftarrow> write_reg F e I_sign_extend_byte 1 3 wr (Elem_Binary extended_val);
     v \<leftarrow> as_i64_from_lower_bytes F val;
     let (b1, b2, b3, b4, sign) = decompose_lower32 v;
     set_cols F e
       [(Col_tmp1_col, val), (Col_tmp3_col, from_u32_as_fe F extended_val),
        (Col_Y_7bit, from_u32_as_fe F (b1 AND 0x7f)),
        (Col_X_b2, from_u32_as_fe F b2), (Col_X_b3, from_u32_as_fe F b3),
        (Col_X_b4, from_u32_as_fe F b4),
        (Col_wrap_bit, if byte_val < 0 then Elem_Field 1 else Elem_Field 0)]
   }"

definition exec_sign_extend_16_bits :: "field_desc \<Rightarrow> executor \<Rightarrow> elem list \<Rightarrow> executor option" where
  "exec_sign_extend_16_bits F e args = do {
     reg \<leftarrow> arg_u args 0;
     (val, e) \<leftarrow> read_reg F e I_sign_extend_16_bits 0 0 reg;
     wr \<leftarrow> arg_u args 1;
     u \<leftarrow> elem_u val;
     let sign_bit = (u AND 0x8000 \<noteq> 0);
     let extended_val = (if sign_bit then u OR 0xFFFF0000 else u AND 0x0000FFFF);
     e \<leftarrow> write_reg F e I_sign_extend_16_bits 1 3 wr (Elem_Binary extended_val);
     v \<leftarrow> as_i64_from_lower_bytes F val;
     let (b1, b2, b3, b4, sign) = decompose_lower32 v;
     set_cols F e
       [(Col_tmp1_col, val), (Col_tmp3_col, from_u32_as_fe F extended_val),
        (Col_X_b1, from_u32_as_fe F b1), (Col_X_b3, from_u32_as_fe F b3),
        (Col_X_b4, from_u32_as_fe F b4), (Col_Y_7bit, from_u32_as_fe F (b2 AND 0x7f)),
        (Col_Y_15bit, from_u32_as_fe F (u AND 0x7fff)),
        (Col_wrap_bit, if sign_bit then Elem_Field 1 else Elem_Field 0)]
   }"

definition exec_to_signed :: "field_desc \<Rightarrow> executor \<Rightarrow> elem list \<Rightarrow> executor option" where
  "exec_to_signed F e args = do {
     reg \<leftarrow> arg_u args 0;
     (val, e) \<leftarrow> read_reg F e I_to_signed 0 0 reg;
     wr \<leftarrow> arg_u args 1;
     u \<leftarrow> elem_u val;
     let r = as_i32 u;
     e \<leftarrow> write_reg F e I_to_signed 1 1 wr (Elem_Binary r);
     let (b1, b2, b3, b4, sign) = decompose_lower32 u;
     set_cols F e
       [(Col_tmp1_col, val), (Col_tmp3_col, from_i32_as_fe F r),
        (Col_X_b1, from_u32_as_fe F b1), (Col_X_b2, from_u32_as_fe F b2),
        (Col_X_b3, from_u32_as_fe F b3),
        (Col_wrap_bit, if b4 AND 0x80 \<noteq> 0 then Elem_Field 1 else Elem_Field 0),
        (Col_Y_7bit, from_u32_as_fe F (b4 AND 0x7f))]
   }"

text \<open>\<open>fail\<close> always panics.\<close>

definition exec_fail :: "executor option" where
  "exec_fail = None"

definition exec_divremu :: "field_desc \<Rightarrow> executor \<Rightarrow> elem list \<Rightarrow> executor option" where
  "exec_divremu F e args = do {
     reg1 \<leftarrow> arg_u args 0;
     reg2 \<leftarrow> arg_u args 1;
     (val1, e) \<leftarrow> read_reg F e I_divremu 0 0 reg1;
     (val2, e) \<leftarrow> read_reg F e I_divremu 1 1 reg2;
     wr1 \<leftarrow> arg_u args 2;
     wr2 \<leftarrow> arg_u args 3;
     y \<leftarrow> elem_u val1;
     x \<leftarrow> elem_u val2;
     let (quot, rem) = (if x \<noteq> 0 then (y div x, y mod x) else (0xffffffff, y));
     e \<leftarrow> write_reg F e I_divremu 2 2 wr1 (Elem_Binary quot);
     e \<leftarrow> write_reg F e I_divremu 3 3 wr2 (Elem_Binary rem);
     let tmp3_val = from_u32_as_fe F quot;
     e \<leftarrow> set_cols F e
       [(Col_tmp1_col, val1), (Col_tmp2_col, val2), (Col_tmp3_col, tmp3_val),
        (Col_tmp4_col, from_u32_as_fe F rem)];
     e \<leftarrow> set_zero_test F e val2;
     v \<leftarrow> as_i64_from_lower_bytes F tmp3_val;
     let (b1, b2, b3, b4, sign) = decompose_lower32 v;
     let (rem_b1, rem_b2, rem_b3, rem_b4, sign2) = decompose_lower32 rem;
     e \<leftarrow> set_cols F e
       [(Col_X_b1, from_u32_as_fe F b1), (Col_X_b2, from_u32_as_fe F b2),
        (Col_X_b3, from_u32_as_fe F b3), (Col_X_b4, from_u32_as_fe F b4),
        (Col_REM_b1, from_u32_as_fe F rem_b1), (Col_REM_b2, from_u32_as_fe F rem_b2),
        (Col_REM_b3, from_u32_as_fe F rem_b3), (Col_REM_b4, from_u32_as_fe F rem_b4)];
     if x > 0 then do {
       d \<leftarrow> check_u32 (x - rem);
       diff \<leftarrow> check_u32 (d - 1);
       let (b5, b6, b7, b8, sign3) = decompose_lower32 diff;
       set_cols F e
         [(Col_Y_b5, from_u32_as_fe F b5), (Col_Y_b6, from_u32_as_fe F b6),
          (Col_Y_b7, from_u32_as_fe F b7), (Col_Y_b8, from_u32_as_fe F b8)]
     } else Some e
   }"

definition exec_mul :: "field_desc \<Rightarrow> executor \<Rightarrow> elem list \<Rightarrow> executor option" where
  "exec_mul F e args = do {
     reg1 \<leftarrow> arg_u args 0;
     reg2 \<leftarrow> arg_u args 1;
     (val1, e) \<leftarrow> read_reg F e I_mul 0 0 reg1;
     (val2, e) \<leftarrow> read_reg F e I_mul 1 1 reg2;
     wr1 \<leftarrow> arg_u args 2;
     wr2 \<leftarrow> arg_u args 3;
     u1 \<leftarrow> elem_u val1;
     u2 \<leftarrow> elem_u val2;
     let r = u1 * u2;
     let lo = as_u32 r;
     let hi = as_u32 (drop_bit 32 r);
     e \<leftarrow> write_reg F e I_mul 2 2 wr1 (Elem_Binary lo);
     e \<leftarrow> write_reg F e I_mul 3 3 wr2 (Elem_Binary hi);
     e \<leftarrow> set_cols F e
       [(Col_tmp1_col, val1), (Col_tmp2_col, val2), (Col_tmp3_col, from_u32_as_fe F lo),
        (Col_tmp4_col, from_u32_as_fe F hi)];
     (lid, e) \<leftarrow> instr_link_id e I_mul M_split_gl 0;
     Some (call_submachine e M_split_gl lid (fe_from F r, fe_from F lo, fe_from F hi, fe_from F 0) [])
   }"

text \<open>\<open>and\<close>, \<open>or\<close> and \<open>xor\<close>, with the operation id of the binary machine.\<close>

definition exec_bitwise :: "field_desc \<Rightarrow> executor \<Rightarrow> instruction \<Rightarrow> elem list \<Rightarrow> executor option" where
  "exec_bitwise F e instr args = do {
     reg1 \<leftarrow> arg_u args 0;
     reg2 \<leftarrow> arg_u args 1;
     (val1, e) \<leftarrow> read_reg F e instr 0 0 reg1;
     (val2, e) \<leftarrow> read_reg F e instr 1 1 reg2;
     offset \<leftarrow> arg_bin args 2;
     wr \<leftarrow> arg_u args 3;
     x2 \<leftarrow> bin val2;
     val2_offset \<leftarrow> check_i64 (x2 + offset);
     e \<leftarrow> set_cols F e [(Col_tmp1_col, val1), (Col_tmp2_col, val2)];
     u1 \<leftarrow> elem_u val1;
     u2 \<leftarrow> check_u32 val2_offset;
     (r, op_id) \<leftarrow> (case instr of
         I_and \<Rightarrow> Some (u1 AND u2, 0)
       | I_or \<Rightarrow> Some (u1 OR u2, 1)
       | I_xor \<Rightarrow> Some (u1 XOR u2, 2)
       | _ \<Rightarrow> None);
     (lid, e) \<leftarrow> instr_link_id e instr M_binary 0;
     let e = call_submachine e M_binary lid
               (fe_from F op_id, into_fe F val1, fe_from F val2_offset, fe_from F r) [];
     e \<leftarrow> write_reg F e instr 2 3 wr (Elem_Binary r);
     set_cols F e [(Col_tmp3_col, from_u32_as_fe F r)]
   }"

text \<open>A shift by 32 bits or more panics.\<close>

definition exec_shift :: "field_desc \<Rightarrow> executor \<Rightarrow> instruction \<Rightarrow> elem list \<Rightarrow> executor option" where
  "exec_shift F e instr args = do {
     reg1 \<leftarrow> arg_u args 0;
     reg2 \<leftarrow> arg_u args 1;
     (val1, e) \<leftarrow> read_reg F e instr 0 0 reg1;
     (val2, e) \<leftarrow> read_reg F e instr 1 1 reg2;
     offset \<leftarrow> arg_bin args 2;
     wr \<leftarrow> arg_u args 3;
     x2 \<leftarrow> bin val2;
     val2_offset \<leftarrow> check_i64 (x2 + offset);
     u1 \<leftarrow> elem_u val1;
     u2 \<leftarrow> check_u32 val2_offset;
     rust_assert (u2 < 32);
     (r, op_id) \<leftarrow> (case instr of
         I_shl \<Rightarrow> Some (as_u32 (push_bit (nat u2) u1), 0)
       | I_shr \<Rightarrow> Some (drop_bit (nat u2) u1, 1)
       | _ \<Rightarrow> None);
     (lid, e) \<leftarrow> instr_link_id e instr M_shift 0;
     let e = call_submachine e M_shift lid
               (fe_from F op_id, into_fe F val1, fe_from F val2_offset, fe_from F r) [];
     e \<leftarrow> write_reg F e instr 2 3 wr (Elem_Binary r);
     set_cols F e
       [(Col_tmp1_col, val1), (Col_tmp2_col, val2), (Col_tmp3_col, from_u32_as_fe F r)]
   }"

section \<open>Field arithmetic and hashes\<close>

definition check_u64 :: "int \<Rightarrow> int option" where
  "check_u64 x = (if 0 \<le> x \<and> x < 2 ^ 64 then Some x else None)"

definition exec_invert_gl :: "field_desc \<Rightarrow> executor \<Rightarrow> elem list \<Rightarrow> executor option" where
  "exec_invert_gl F e args = do {
     low_addr \<leftarrow> arg_u args 0;
     high_addr \<leftarrow> arg_u args 1;
     (low, e) \<leftarrow> read_reg F e I_invert_gl 0 0 low_addr;
     (high, e) \<leftarrow> read_reg F e I_invert_gl 1 1 high_addr;
     l \<leftarrow> elem_u low;
     h \<leftarrow> elem_u high;
     inv \<leftarrow> fe_div F 1 (fe_from F (push_bit 32 h OR l));
     inv_u64 \<leftarrow> check_u64 inv;
     let low_inv = as_u32 inv_u64;
     let high_inv = as_u32 (drop_bit 32 inv_u64);
     e \<leftarrow> write_reg F e I_invert_gl 2 2 low_addr (Elem_Binary low_inv);
     e \<leftarrow> write_reg F e I_invert_gl 3 3 high_addr (Elem_Binary high_inv);
     e \<leftarrow> set_cols F e
       [(Col_tmp1_col, low), (Col_tmp2_col, high), (Col_tmp3_col, from_u32_as_fe F low_inv),
        (Col_tmp4_col, from_u32_as_fe F high_inv), (Col_XX_inv, Elem_Field inv)];
     (lid, e) \<leftarrow> instr_link_id e I_invert_gl M_split_gl 0;
     Some (call_submachine e M_split_gl lid (inv, fe_from F low_inv, fe_from F high_inv, fe_from F 0) [])
   }"

definition exec_split_gl :: "field_desc \<Rightarrow> executor \<Rightarrow> elem list \<Rightarrow> executor option" where
  "exec_split_gl F e args = do {
     reg \<leftarrow> arg_u args 0;
     (val1, e) \<leftarrow> read_reg F e I_split_gl 0 0 reg;
     wr1 \<leftarrow> arg_u args 1;
     wr2 \<leftarrow> arg_u args 2;
     val \<leftarrow> check_u64 (into_fe F val1);
     let lo = val AND 0xffffffff;
     let hi = as_u32 (drop_bit 32 val);
     e \<leftarrow> write_reg F e I_split_gl 1 2 wr1 (Elem_Binary lo);
     e \<leftarrow> write_reg F e I_split_gl 2 3 wr2 (Elem_Binary hi);
     e \<leftarrow> set_cols F e
       [(Col_tmp1_col, val1), (Col_tmp3_col, from_u32_as_fe F lo), (Col_tmp4_col, from_u32_as_fe F hi)];
     (lid, e) \<leftarrow> instr_link_id e I_split_gl M_split_gl 0;
     Some (call_submachine e M_split_gl lid
             (fe_from F val, fe_from F lo, fe_from F hi, fe_from F 0) [])
   }"

text \<open>The memory accesses of the Poseidon machine: twelve inputs of two words each, then the
  outputs in reverse order, each with its call into the split machine.\<close>

fun poseidon_inputs ::
  "field_desc \<Rightarrow> executor \<Rightarrow> int \<Rightarrow> nat list \<Rightarrow> (int list \<times> executor) option" where
  "poseidon_inputs F e ptr [] = Some ([], e)"
| "poseidon_inputs F e ptr (i # is) = do {
     (lid, e) \<leftarrow> link_id e ''main_poseidon_gl'' ''main_memory'' 0;
     a0 \<leftarrow> check_u32 (ptr + 8 * int i);
     let (lo, e) = mem_read F e a0 (ex_step e) lid;
     (lid, e) \<leftarrow> link_id e ''main_poseidon_gl'' ''main_memory'' 1;
     a1 \<leftarrow> check_u32 (ptr + 8 * int i + 4);
     let (hi, e) = mem_read F e a1 (ex_step e) lid;
     (vs, e) \<leftarrow> poseidon_inputs F e ptr is;
     Some (fe_from F (push_bit 32 hi OR lo) # vs, e)
   }"

fun poseidon_outputs ::
  "field_desc \<Rightarrow> executor \<Rightarrow> int \<Rightarrow> (nat \<times> int) list \<Rightarrow> executor option" where
  "poseidon_outputs F e ptr [] = Some e"
| "poseidon_outputs F e ptr ((i, v) # ivs) = do {
     val \<leftarrow> check_u64 v;
     let hi = as_u32 (drop_bit 32 val);
     let lo = val AND 0xffffffff;
     (lid, e) \<leftarrow> link_id e ''main_poseidon_gl'' ''main_memory'' 2;
     a0 \<leftarrow> check_u32 (ptr + 8 * int i);
     s \<leftarrow> check_u32 (ex_step e + 1);
     let e = mem_write F e a0 lo s lid;
     (lid, e) \<leftarrow> link_id e ''main_poseidon_gl'' ''main_memory'' 3;
     a1 \<leftarrow> check_u32 (ptr + 8 * int i + 4);
     let e = mem_write F e a1 hi s lid;
     (lid, e) \<leftarrow> link_id e ''main_poseidon_gl'' ''main_split_gl'' 0;
     let e = call_submachine e M_split_gl lid (v, fe_from F lo, fe_from F hi, fe_from F 0) [];
     poseidon_outputs F e ptr ivs
   }"

definition exec_poseidon_gl :: "field_desc \<Rightarrow> executor \<Rightarrow> elem list \<Rightarrow> executor option" where
  "exec_poseidon_gl F e args = do {
     reg1 \<leftarrow> arg_u args 0;
     reg2 \<leftarrow> arg_u args 1;
     (input_ptr, e) \<leftarrow> read_reg F e I_poseidon_gl 0 0 reg1;
     ip \<leftarrow> elem_u input_ptr;
     rust_assert (is_multiple_of_4 ip);
     (output_ptr, e) \<leftarrow> read_reg F e I_poseidon_gl 1 1 reg2;
     op \<leftarrow> elem_u output_ptr;
     rust_assert (is_multiple_of_4 op);
     let (b1, b2, b3, b4, sign) = decompose_lower32 (drop_bit 2 ip);
     let (b5, b6, b7, b8, sign2) = decompose_lower32 (drop_bit 2 op);
     e \<leftarrow> set_cols F e
       [(Col_tmp1_col, input_ptr), (Col_tmp2_col, output_ptr),
        (Col_tmp3_col, Elem_Binary (drop_bit 2 ip)), (Col_tmp4_col, Elem_Binary (drop_bit 2 op)),
        (Col_X_b1, from_u32_as_fe F b1), (Col_X_b2, from_u32_as_fe F b2),
        (Col_X_b3, from_u32_as_fe F b3), (Col_X_b4, from_u32_as_fe F b4),
        (Col_Y_b5, from_u32_as_fe F b5), (Col_Y_b6, from_u32_as_fe F b6),
        (Col_Y_b7, from_u32_as_fe F b7), (Col_Y_b8, from_u32_as_fe F b8)];
     (ins, e) \<leftarrow> poseidon_inputs F e ip [0..<12];
     outs \<leftarrow> poseidon_gl F ins;
     e \<leftarrow> poseidon_outputs F e op (rev (enumerate 0 outs));
     (lid, e) \<leftarrow> instr_link_id e I_poseidon_gl M_poseidon_gl 0;
     Some (call_submachine e M_poseidon_gl lid
             (into_fe F input_ptr, into_fe F output_ptr, fe_from F (ex_step e), fe_from F 0)
             (ins @ outs))
   }"

text \<open>Words of memory at the indices \<open>is\<close> from a pointer, and consecutive words written from a
  pointer, through a fixed link id.\<close>

fun read_words ::
  "field_desc \<Rightarrow> executor \<Rightarrow> int \<Rightarrow> nat list \<Rightarrow> int \<Rightarrow> nat \<Rightarrow> (int list \<times> executor) option" where
  "read_words F e ptr [] stp lid = Some ([], e)"
| "read_words F e ptr (i # is) stp lid = do {
     a \<leftarrow> check_u32 (ptr + int i * 4);
     let (v, e) = mem_read F e a stp lid;
     (vs, e) \<leftarrow> read_words F e ptr is stp lid;
     Some (v # vs, e)
   }"

fun write_words ::
  "field_desc \<Rightarrow> executor \<Rightarrow> int \<Rightarrow> int list \<Rightarrow> int \<Rightarrow> nat \<Rightarrow> executor option" where
  "write_words F e ptr [] stp lid = Some e"
| "write_words F e ptr (v # vs) stp lid = do {
     a \<leftarrow> check_u32 ptr;
     w \<leftarrow> check_u32 v;
     write_words F (mem_write F e a w stp lid) (ptr + 4) vs stp lid
   }"

definition pointer_arg :: "executor \<Rightarrow> elem list \<Rightarrow> nat \<Rightarrow> int option" where
  "pointer_arg e args i = do {
     reg \<leftarrow> arg_u args i;
     p \<leftarrow> elem_u (get_reg_mem (proc e) reg);
     rust_assert (is_multiple_of_4 p);
     Some p
   }"

fun pair_words :: "int list \<Rightarrow> int list" where
  "pair_words (low # high # ws) = (push_bit 32 high OR low) # pair_words ws"
| "pair_words _ = []"

definition exec_poseidon2_gl :: "field_desc \<Rightarrow> externals \<Rightarrow> executor \<Rightarrow> elem list \<Rightarrow> executor option" where
  "exec_poseidon2_gl F X e args = do {
     input_ptr \<leftarrow> pointer_arg e args 0;
     (ws, e) \<leftarrow> read_words F e input_ptr [0..<16] 0 0;
     let result = concat (map (\<lambda>v. [v AND 0xffffffff, as_u32 (drop_bit 32 v)])
                    (poseidon2_gl X (pair_words ws)));
     output_ptr \<leftarrow> pointer_arg e args 1;
     write_words F e output_ptr result 0 0
   }"

definition exec_affine_256 :: "field_desc \<Rightarrow> executor \<Rightarrow> elem list \<Rightarrow> executor option" where
  "exec_affine_256 F e args = do {
     input_ptr_a \<leftarrow> pointer_arg e args 0;
     input_ptr_b \<leftarrow> pointer_arg e args 1;
     input_ptr_c \<leftarrow> pointer_arg e args 2;
     output_ptr_d \<leftarrow> pointer_arg e args 3;
     (a, e) \<leftarrow> read_words F e input_ptr_a [0..<8] 0 0;
     (b, e) \<leftarrow> read_words F e input_ptr_b [0..<8] 0 0;
     (c, e) \<leftarrow> read_words F e input_ptr_c [0..<8] 0 0;
     (r0, r1) \<leftarrow> affine_256 F (map (fe_from F) a) (map (fe_from F) b) (map (fe_from F) c);
     e \<leftarrow> write_words F e output_ptr_d r0 1 1;
     write_words F e (output_ptr_d + int (length r0) * 4) r1 1 1
   }"

definition exec_mod_256 :: "field_desc \<Rightarrow> executor \<Rightarrow> elem list \<Rightarrow> executor option" where
  "exec_mod_256 F e args = do {
     input_ptr_a \<leftarrow> pointer_arg e args 0;
     input_ptr_b \<leftarrow> pointer_arg e args 1;
     output_ptr_c \<leftarrow> pointer_arg e args 2;
     (ah, e) \<leftarrow> read_words F e input_ptr_a [0..<8] 0 0;
     (al, e) \<leftarrow> read_words F e input_ptr_a [8..<16] 0 0;
     (b, e) \<leftarrow> read_words F e input_ptr_b [0..<8] 0 0;
     r \<leftarrow> mod_256 F (map (fe_from F) ah) (map (fe_from F) al) (map (fe_from F) b);
     write_words F e output_ptr_c r 1 1
   }"

definition exec_ec_add :: "field_desc \<Rightarrow> externals \<Rightarrow> executor \<Rightarrow> elem list \<Rightarrow> executor option" where
  "exec_ec_add F X e args = do {
     input_ptr_a \<leftarrow> pointer_arg e args 0;
     input_ptr_b \<leftarrow> pointer_arg e args 1;
     output_ptr_c \<leftarrow> pointer_arg e args 2;
     (ax, e) \<leftarrow> read_words F e input_ptr_a [0..<8] 0 0;
     (ay, e) \<leftarrow> read_words F e input_ptr_a [8..<16] 0 0;
     (bx, e) \<leftarrow> read_words F e input_ptr_b [0..<8] 0 0;
     (bby, e) \<leftarrow> read_words F e input_ptr_b [8..<16] 0 0;
     (r0, r1) \<leftarrow> ec_add F (k256_add X) (map (fe_from F) ax) (map (fe_from F) ay)
                    (map (fe_from F) bx) (map (fe_from F) bby);
     e \<leftarrow> write_words F e output_ptr_c r0 1 1;
     write_words F e (output_ptr_c + int (length r0) * 4) r1 1 1
   }"

definition exec_ec_double :: "field_desc \<Rightarrow> externals \<Rightarrow> executor \<Rightarrow> elem list \<Rightarrow> executor option" where
  "exec_ec_double F X e args = do {
     input_ptr_a \<leftarrow> pointer_arg e args 0;
     output_ptr_b \<leftarrow> pointer_arg e args 1;
     (ax, e) \<leftarrow> read_words F e input_ptr_a [0..<8] 0 0;
     (ay, e) \<leftarrow> read_words F e input_ptr_a [8..<16] 0 0;
     (r0, r1) \<leftarrow> ec_double F (k256_double X) (map (fe_from F) ax) (map (fe_from F) ay);
     e \<leftarrow> write_words F e output_ptr_b r0 1 1;
     write_words F e (output_ptr_b + int (length r0) * 4) r1 1 1
   }"

definition exec_commit_public :: "field_desc \<Rightarrow> executor \<Rightarrow> elem list \<Rightarrow> executor option" where
  "exec_commit_public F e args = do {
     reg0 \<leftarrow> arg_u args 0;
     (idx, e) \<leftarrow> read_reg F e I_commit_public 0 0 reg0;
     reg1 \<leftarrow> arg_u args 1;
     (limb, e) \<leftarrow> read_reg F e I_commit_public 1 0 reg1;
     e \<leftarrow> set_cols F e [(Col_tmp1_col, idx), (Col_tmp2_col, limb)];
     (lid, e) \<leftarrow> instr_link_id e I_commit_public M_publics 0;
     Some (call_submachine e M_publics lid
             (into_fe F idx, into_fe F limb, fe_from F 0, fe_from F 0) [])
   }"

fun keccak_read ::
  "field_desc \<Rightarrow> executor \<Rightarrow> int \<Rightarrow> nat list \<Rightarrow> nat \<Rightarrow> (int list \<times> executor) option" where
  "keccak_read F e ptr [] lid = Some ([], e)"
| "keccak_read F e ptr (i # is) lid = do {
     a1 \<leftarrow> check_u32 (ptr + 8 * int i + 4);
     let (hi, e) = mem_read F e a1 (ex_step e) lid;
     a0 \<leftarrow> check_u32 (ptr + 8 * int i);
     let (lo, e) = mem_read F e a0 (ex_step e) lid;
     (vs, e) \<leftarrow> keccak_read F e ptr is lid;
     Some ((push_bit 32 hi OR lo) # vs, e)
   }"

fun keccak_write ::
  "field_desc \<Rightarrow> executor \<Rightarrow> int \<Rightarrow> (nat \<times> int) list \<Rightarrow> nat \<Rightarrow> executor option" where
  "keccak_write F e ptr [] lid = Some e"
| "keccak_write F e ptr ((i, val) # ivs) lid = do {
     let lo = as_u32 val;
     let hi = as_u32 (drop_bit 32 val);
     a0 \<leftarrow> check_u32 (ptr + int i * 8);
     s \<leftarrow> check_u32 (ex_step e + 1);
     let e = mem_write F e a0 lo s lid;
     a1 \<leftarrow> check_u32 (ptr + int i * 8 + 4);
     let e = mem_write F e a1 hi s lid;
     keccak_write F e ptr ivs lid
   }"

definition exec_keccakf :: "field_desc \<Rightarrow> externals \<Rightarrow> executor \<Rightarrow> elem list \<Rightarrow> executor option" where
  "exec_keccakf F X e args = do {
     reg1 \<leftarrow> arg_u args 0;
     reg2 \<leftarrow> arg_u args 1;
     (input_ptr, e) \<leftarrow> read_reg F e I_keccakf 0 0 reg1;
     (lid, e) \<leftarrow> instr_link_id e I_keccakf M_regs 1;
     (output_ptr, e) \<leftarrow> reg_read F e 1 reg2 lid;
     e \<leftarrow> set_cols F e [(Col_tmp1_col, input_ptr), (Col_tmp2_col, output_ptr)];
     ip \<leftarrow> elem_u input_ptr;
     (state, e) \<leftarrow> keccak_read F e ip [0..<25] lid;
     let state = keccakf X state;
     op \<leftarrow> elem_u output_ptr;
     keccak_write F e op (enumerate 0 state) lid
   }"

section \<open>Dispatch\<close>

text \<open>The \<open>match\<close> on the instruction; the result is the value returned by the instruction.\<close>

definition no_value :: "executor option \<Rightarrow> (elem option \<times> executor) option" where
  "no_value r = map_option (\<lambda>e. (None, e)) r"

definition exec_instr ::
  "field_desc \<Rightarrow> externals \<Rightarrow> executor \<Rightarrow> instruction \<Rightarrow> elem list \<Rightarrow> (elem option \<times> executor) option" where
  "exec_instr F X e instr args = (case instr of
       I_set_reg \<Rightarrow> no_value (exec_set_reg F e args)
     | I_get_reg \<Rightarrow> map_option (\<lambda>(v, e). (Some v, e)) (exec_get_reg F e args)
     | I_affine \<Rightarrow> no_value (exec_affine F e args)
     | I_mstore \<Rightarrow> no_value (exec_mstore F e instr args)
     | I_mstore_bootloader \<Rightarrow> no_value (exec_mstore F e instr args)
     | I_mload \<Rightarrow> no_value (exec_mload F e args)
     | I_load_bootloader_input \<Rightarrow> no_value (exec_load_bootloader_input F e args)
     | I_assert_bootloader_input \<Rightarrow> no_value (exec_assert_bootloader_input F e args)
     | I_load_label \<Rightarrow> no_value (exec_load_label F e args)
     | I_jump \<Rightarrow> no_value (exec_jump F e args)
     | I_jump_dyn \<Rightarrow> no_value (exec_jump_dyn F e args)
     | I_jump_to_bootloader_input \<Rightarrow> no_value (exec_jump_to_bootloader_input F e args)
     | I_branch_if_diff_nonzero \<Rightarrow> no_value (exec_branch_if_diff_nonzero F e args)
     | I_branch_if_diff_equal \<Rightarrow> no_value (exec_branch_if_diff_equal F e args)
     | I_skip_if_equal \<Rightarrow> no_value (exec_skip_if_equal F e args)
     | I_branch_if_diff_greater_than \<Rightarrow> no_value (exec_branch_if_diff_greater_than F e args)
     | I_is_diff_greater_than \<Rightarrow> no_value (exec_is_diff_greater_than F e args)
     | I_is_equal_zero \<Rightarrow> no_value (exec_is_equal_zero F e args)
     | I_is_not_equal \<Rightarrow> no_value (exec_is_not_equal F e args)
     | I_add_wrap \<Rightarrow> no_value (exec_add_wrap F e args)
     | I_wrap16 \<Rightarrow> no_value (exec_wrap16 F e args)
     | I_sub_wrap_with_offset \<Rightarrow> no_value (exec_sub_wrap_with_offset F e args)
     | I_sign_extend_byte \<Rightarrow> no_value (exec_sign_extend_byte F e args)
     | I_sign_extend_16_bits \<Rightarrow> no_value (exec_sign_extend_16_bits F e args)
     | I_to_signed \<Rightarrow> no_value (exec_to_signed F e args)
     | I_divremu \<Rightarrow> no_value (exec_divremu F e args)
     | I_mul \<Rightarrow> no_value (exec_mul F e args)
     | I_and \<Rightarrow> no_value (exec_bitwise F e instr args)
     | I_or \<Rightarrow> no_value (exec_bitwise F e instr args)
     | I_xor \<Rightarrow> no_value (exec_bitwise F e instr args)
     | I_shl \<Rightarrow> no_value (exec_shift F e instr args)
     | I_shr \<Rightarrow> no_value (exec_shift F e instr args)
     | I_invert_gl \<Rightarrow> no_value (exec_invert_gl F e args)
     | I_split_gl \<Rightarrow> no_value (exec_split_gl F e args)
     | I_poseidon_gl \<Rightarrow> no_value (exec_poseidon_gl F e args)
     | I_poseidon2_gl \<Rightarrow> no_value (exec_poseidon2_gl F X e args)
     | I_affine_256 \<Rightarrow> no_value (exec_affine_256 F e args)
     | I_mod_256 \<Rightarrow> no_value (exec_mod_256 F e args)
     | I_ec_add \<Rightarrow> no_value (exec_ec_add F X e args)
     | I_ec_double \<Rightarrow> no_value (exec_ec_double F X e args)
     | I_commit_public \<Rightarrow> no_value (exec_commit_public F e args)
     | I_fail \<Rightarrow> no_value exec_fail
     | I_keccakf \<Rightarrow> no_value (exec_keccakf F X e args))"

end
