(* ===== verification/Riscv_Lemmas.thy ===== *)
theory Riscv_Lemmas
  imports Riscv_Instructions
begin

text \<open>
  The building blocks of the instructions as total functions: under the conditions in which an
  access does not panic it equals its effect, a function whose observations (registers, memory,
  program counter, cells of the current row) are simplification rules.
\<close>

named_theorems effects \<open>observations of the effect of an access\<close>

section \<open>Observations\<close>

definition reg_val :: "executor \<Rightarrow> int \<Rightarrow> elem" where
  "reg_val e r = get_reg_mem (proc e) r"

definition put_reg :: "(int \<Rightarrow> elem) \<Rightarrow> int \<Rightarrow> elem \<Rightarrow> int \<Rightarrow> elem" where
  "put_reg f r v = (if r = 0 then f else f(r := v))"

definition mem_val :: "executor \<Rightarrow> int \<Rightarrow> int" where
  "mem_val e a = (case tb_mem (proc e) a of Some v \<Rightarrow> v | None \<Rightarrow> 0)"

text \<open>A cell of the current row.\<close>

definition cell :: "executor \<Rightarrow> known_witness_col \<Rightarrow> int" where
  "cell e c = (let cols = known_cols (tb_trace (proc e)) in cols ! (length cols - col_count + col_idx c))"

text \<open>The links of an instruction into a machine, from the cache or from the constraint system.\<close>

definition link_entries :: "executor \<Rightarrow> instruction \<Rightarrow> machine_instance \<Rightarrow> identity list" where
  "link_entries e i m = (case pil_instruction_links e (i, m) of
      Some ids \<Rightarrow> ids
    | None \<Rightarrow> find_instruction_links (pil_links e) (instr_flag i) (machine_namespace m))"

text \<open>The executor can run an instruction that uses \<open>n\<close> links into the register machine: the
  step counter has room for its accesses and, in witness mode, the current row and the links exist.\<close>

definition ready :: "executor \<Rightarrow> instruction \<Rightarrow> nat \<Rightarrow> bool" where
  "ready e i n \<longleftrightarrow> ex_mode e = tb_mode (proc e) \<and> 0 \<le> ex_step e \<and> ex_step e + 3 < 2 ^ 32 \<and>
     (ex_mode e = Witness \<longrightarrow>
        col_count \<le> length (known_cols (tb_trace (proc e))) \<and> n \<le> length (link_entries e i M_regs))"

definition has_link :: "executor \<Rightarrow> instruction \<Rightarrow> machine_instance \<Rightarrow> bool" where
  "has_link e i m \<longleftrightarrow> ex_mode e = Witness \<longrightarrow> link_entries e i m \<noteq> []"

section \<open>Effects\<close>

definition after_link :: "executor \<Rightarrow> instruction \<Rightarrow> machine_instance \<Rightarrow> executor" where
  "after_link e i m =
     (if ex_mode e = Witness
      then e\<lparr>pil_instruction_links := (pil_instruction_links e)((i, m) \<mapsto> link_entries e i m)\<rparr> else e)"

definition link_of :: "executor \<Rightarrow> instruction \<Rightarrow> machine_instance \<Rightarrow> nat \<Rightarrow> nat" where
  "link_of e i m k = (if ex_mode e = Witness then identity_id_of (link_entries e i m ! k) else 0)"

definition after_read :: "field_desc \<Rightarrow> executor \<Rightarrow> instruction \<Rightarrow> nat \<Rightarrow> int \<Rightarrow> int \<Rightarrow> executor" where
  "after_read F e i k off r =
     call_submachine (after_link e i M_regs) M_regs (link_of e i M_regs k)
       (fe_from F 0, fe_from F r, fe_from F (ex_step e + off), into_fe F (reg_val e r)) []"

definition after_write ::
  "field_desc \<Rightarrow> executor \<Rightarrow> instruction \<Rightarrow> nat \<Rightarrow> int \<Rightarrow> int \<Rightarrow> elem \<Rightarrow> executor" where
  "after_write F e i k off r v =
     (let e' = call_submachine (after_link e i M_regs) M_regs (link_of e i M_regs k)
        (fe_from F 1, fe_from F r, fe_from F (ex_step e + off), into_fe F v) []
      in e'\<lparr>proc := set_reg_mem (proc e') r v\<rparr>)"

definition put_col :: "field_desc \<Rightarrow> executor \<Rightarrow> known_witness_col \<Rightarrow> elem \<Rightarrow> executor" where
  "put_col F e c v =
     (if tb_mode (proc e) = Witness then
        let cols = known_cols (tb_trace (proc e)) in
        e\<lparr>proc := (proc e)\<lparr>tb_trace := (tb_trace (proc e))\<lparr>
          known_cols := cols[length cols - col_count + col_idx c := into_fe F v]\<rparr>\<rparr>\<rparr>
      else e)"

definition after_cols :: "field_desc \<Rightarrow> executor \<Rightarrow> (known_witness_col \<times> elem) list \<Rightarrow> executor" where
  "after_cols F e cvs = fold (\<lambda>(c, v) e. put_col F e c v) cvs e"

lemma after_cols_simps:
  "after_cols F e [] = e"
  "after_cols F e ((c, v) # cvs) = after_cols F (put_col F e c v) cvs"
  by (simp_all add: after_cols_def)

section \<open>The accesses\<close>

lemma check_in_range [simp]:
  "in_u32 x \<Longrightarrow> check_u32 x = Some x" "in_i64 x \<Longrightarrow> check_i64 x = Some x" "in_i32 x \<Longrightarrow> check_i32 x = Some x"
  by simp_all

lemma elem_u_in_range [simp]: "in_u32 x \<Longrightarrow> elem_u (Elem_Binary x) = Some x"
  by simp

lemma link_entries_proc: "link_entries (e\<lparr>proc := t\<rparr>) i m = link_entries e i m"
  by (simp add: link_entries_def split: option.split)

lemma vec_get_Some [simp]: "vec_get xs i = Some x \<longleftrightarrow> i < length xs \<and> x = xs ! i"
  by (auto simp: vec_get_def)

lemma vec_set_Some [simp]: "vec_set xs i x = Some ys \<longleftrightarrow> i < length xs \<and> ys = xs[i := x]"
  by (auto simp: vec_set_def)

lemma vec_get_Cons [simp]: "vec_get (x # xs) 0 = Some x" "vec_get (x # xs) (Suc n) = vec_get xs n"
  "vec_get (x # xs) (numeral k) = vec_get xs (pred_numeral k)" "vec_get (x # y # zs) 1 = Some y"
  by (simp_all add: vec_get_def nth_Cons_numeral numeral_eq_Suc)

lemma instr_link_id_eq:
  assumes "ex_mode e = Witness \<longrightarrow> k < length (link_entries e i m)"
  shows "instr_link_id e i m k = Some (link_of e i m k, after_link e i m)"
  using assms unfolding instr_link_id_def link_of_def after_link_def link_entries_def
  by (auto simp: Let_def vec_get_def)

lemma link_entries_after_link [simp]: "link_entries (after_link e i m) i' m' = link_entries e i' m'"
  by (auto simp: link_entries_def after_link_def split: option.split)

lemma after_link_sel [effects]:
  "proc (after_link e i m) = proc e" "ex_step (after_link e i m) = ex_step e"
  "ex_mode (after_link e i m) = ex_mode e"
  by (simp_all add: after_link_def)

lemma call_submachine_sel [effects]:
  "ex_step (call_submachine e m l a x) = ex_step e" "ex_mode (call_submachine e m l a x) = ex_mode e"
  "link_entries (call_submachine e m l a x) i m' = link_entries e i m'"
  "tb_mode (proc (call_submachine e m l a x)) = tb_mode (proc e)"
  "reg_mem (proc (call_submachine e m l a x)) = reg_mem (proc e)"
  "tb_mem (proc (call_submachine e m l a x)) = tb_mem (proc e)"
  "tb_regs (proc (call_submachine e m l a x)) = tb_regs (proc e)"
  "curr_pc (proc (call_submachine e m l a x)) = curr_pc (proc e)"
  "pc_idx (proc (call_submachine e m l a x)) = pc_idx (proc e)"
  "batch_to_line_map (proc (call_submachine e m l a x)) = batch_to_line_map (proc e)"
  "next_statement_line (proc (call_submachine e m l a x)) = next_statement_line (proc e)"
  "known_cols (tb_trace (proc (call_submachine e m l a x))) = known_cols (tb_trace (proc e))"
  "tr_len (tb_trace (proc (call_submachine e m l a x))) = tr_len (tb_trace (proc e))"
  by (simp_all add: call_submachine_def submachine_op_def link_entries_def Let_def split: option.split)

lemma set_reg_mem_sel [effects]:
  "tb_mode (set_reg_mem t r v) = tb_mode t" "tb_mem (set_reg_mem t r v) = tb_mem t"
  "tb_regs (set_reg_mem t r v) = tb_regs t" "curr_pc (set_reg_mem t r v) = curr_pc t"
  "pc_idx (set_reg_mem t r v) = pc_idx t" "batch_to_line_map (set_reg_mem t r v) = batch_to_line_map t"
  "next_statement_line (set_reg_mem t r v) = next_statement_line t"
  "tb_trace (set_reg_mem t r v) = tb_trace t"
  by (simp_all add: set_reg_mem_def)

lemma get_reg_mem_set_reg_mem:
  "get_reg_mem (set_reg_mem t r v) = put_reg (get_reg_mem t) r v"
  by (rule ext) (auto simp: get_reg_mem_def set_reg_mem_def put_reg_def)

lemma read_reg_eq:
  assumes "ready e i n" "k < n" "0 \<le> off" "off \<le> 3"
  shows "read_reg F e i k off r = Some (reg_val e r, after_read F e i k off r)"
proof -
  have "instr_link_id e i M_regs k = Some (link_of e i M_regs k, after_link e i M_regs)"
    using assms by (intro instr_link_id_eq) (auto simp: ready_def)
  moreover have "check_u32 (ex_step e + off) = Some (ex_step e + off)"
    using assms by (simp add: ready_def in_u32_def)
  ultimately show ?thesis
    by (simp add: read_reg_def reg_read_def after_read_def reg_val_def after_link_sel Let_def)
qed

lemma write_reg_eq:
  assumes "ready e i n" "k < n" "0 \<le> off" "off \<le> 3"
  shows "write_reg F e i k off r v = Some (after_write F e i k off r v)"
proof -
  have "instr_link_id e i M_regs k = Some (link_of e i M_regs k, after_link e i M_regs)"
    using assms by (intro instr_link_id_eq) (auto simp: ready_def)
  moreover have "check_u32 (ex_step e + off) = Some (ex_step e + off)"
    using assms by (simp add: ready_def in_u32_def)
  ultimately show ?thesis
    by (simp add: write_reg_def reg_write_def after_write_def after_link_sel Let_def)
qed

text \<open>Columns whose index lies within the row: all but the flag of \<open>keccakf\<close>, which has none.\<close>

lemma instr_idx_less: "i \<noteq> I_keccakf \<Longrightarrow> instr_idx i < 42"
  by (cases i) simp_all

lemma col_idx_less: "c \<noteq> Col_instr I_keccakf \<Longrightarrow> col_idx c < col_count"
  by (cases c) (simp_all add: col_count_def instr_idx_less)

lemma set_cols_eq:
  assumes "tb_mode (proc e) = Witness \<longrightarrow> col_count \<le> length (known_cols (tb_trace (proc e)))"
    and "Col_instr I_keccakf \<notin> fst ` set cvs"
  shows "set_cols F e cvs = Some (after_cols F e cvs)"
  using assms
proof (induction cvs arbitrary: e)
  case (Cons cv cvs)
  obtain c v where cv: "cv = (c, v)" by (cases cv)
  have idx: "col_idx c < col_count" using Cons.prems cv by (auto intro: col_idx_less)
  have "set_col F (proc e) c v = Some (proc (put_col F e c v))"
    using Cons.prems(1) idx by (auto simp: set_col_def put_col_def vec_set_def Let_def)
  moreover have "e\<lparr>proc := proc (put_col F e c v)\<rparr> = put_col F e c v"
    by (simp add: put_col_def Let_def)
  moreover have "set_cols F (put_col F e c v) cvs = Some (after_cols F (put_col F e c v) cvs)"
    using Cons.prems by (intro Cons.IH) (auto simp: put_col_def Let_def)
  ultimately show ?case by (simp add: cv after_cols_simps)
qed (simp add: after_cols_simps)

declare set_cols.simps [simp del]

section \<open>Observations of the effects\<close>

lemma put_col_sel [effects]:
  "ex_step (put_col F e c v) = ex_step e" "ex_mode (put_col F e c v) = ex_mode e"
  "link_entries (put_col F e c v) i m = link_entries e i m"
  "tb_mode (proc (put_col F e c v)) = tb_mode (proc e)"
  "reg_mem (proc (put_col F e c v)) = reg_mem (proc e)"
  "tb_mem (proc (put_col F e c v)) = tb_mem (proc e)"
  "tb_regs (proc (put_col F e c v)) = tb_regs (proc e)"
  "curr_pc (proc (put_col F e c v)) = curr_pc (proc e)"
  "pc_idx (proc (put_col F e c v)) = pc_idx (proc e)"
  "batch_to_line_map (proc (put_col F e c v)) = batch_to_line_map (proc e)"
  "next_statement_line (proc (put_col F e c v)) = next_statement_line (proc e)"
  "length (known_cols (tb_trace (proc (put_col F e c v)))) = length (known_cols (tb_trace (proc e)))"
  "tr_len (tb_trace (proc (put_col F e c v))) = tr_len (tb_trace (proc e))"
  by (simp_all add: put_col_def link_entries_def Let_def split: option.split)

lemma after_cols_sel [effects]:
  "ex_step (after_cols F e cvs) = ex_step e" "ex_mode (after_cols F e cvs) = ex_mode e"
  "link_entries (after_cols F e cvs) i m = link_entries e i m"
  "tb_mode (proc (after_cols F e cvs)) = tb_mode (proc e)"
  "reg_mem (proc (after_cols F e cvs)) = reg_mem (proc e)"
  "tb_mem (proc (after_cols F e cvs)) = tb_mem (proc e)"
  "tb_regs (proc (after_cols F e cvs)) = tb_regs (proc e)"
  "curr_pc (proc (after_cols F e cvs)) = curr_pc (proc e)"
  "pc_idx (proc (after_cols F e cvs)) = pc_idx (proc e)"
  "batch_to_line_map (proc (after_cols F e cvs)) = batch_to_line_map (proc e)"
  "next_statement_line (proc (after_cols F e cvs)) = next_statement_line (proc e)"
  "length (known_cols (tb_trace (proc (after_cols F e cvs)))) = length (known_cols (tb_trace (proc e)))"
  "tr_len (tb_trace (proc (after_cols F e cvs))) = tr_len (tb_trace (proc e))"
  by (induction cvs arbitrary: e, auto simp: after_cols_simps put_col_sel)

lemma reg_val_cong: "reg_mem (proc e) = reg_mem (proc e') \<Longrightarrow> reg_val e = reg_val e'"
  by (rule ext) (simp add: reg_val_def get_reg_mem_def)

lemma reg_val_set_reg_mem: "reg_val (e\<lparr>proc := set_reg_mem (proc e) r v\<rparr>) = put_reg (reg_val e) r v"
  by (rule ext) (simp add: reg_val_def put_reg_def get_reg_mem_set_reg_mem)

lemma reg_val_effects [effects]:
  "reg_val (after_link e i m) = reg_val e"
  "reg_val (call_submachine e m l a x) = reg_val e"
  "reg_val (after_cols F e cvs) = reg_val e"
  "reg_val (after_read F e i k off r) = reg_val e"
  by (rule reg_val_cong, simp add: after_read_def effects)+

lemma reg_val_after_write [effects]: "reg_val (after_write F e i k off r v) = put_reg (reg_val e) r v"
  by (simp add: after_write_def Let_def reg_val_set_reg_mem effects)

lemma put_reg_apply: "put_reg f r v r' = (if r' = r \<and> r \<noteq> 0 then v else f r')"
  by (simp add: put_reg_def)

lemma after_read_sel [effects]:
  "ex_step (after_read F e i k off r) = ex_step e" "ex_mode (after_read F e i k off r) = ex_mode e"
  "link_entries (after_read F e i k off r) i' m = link_entries e i' m"
  "tb_mode (proc (after_read F e i k off r)) = tb_mode (proc e)"
  "tb_mem (proc (after_read F e i k off r)) = tb_mem (proc e)"
  "tb_regs (proc (after_read F e i k off r)) = tb_regs (proc e)"
  "curr_pc (proc (after_read F e i k off r)) = curr_pc (proc e)"
  "pc_idx (proc (after_read F e i k off r)) = pc_idx (proc e)"
  "batch_to_line_map (proc (after_read F e i k off r)) = batch_to_line_map (proc e)"
  "next_statement_line (proc (after_read F e i k off r)) = next_statement_line (proc e)"
  "known_cols (tb_trace (proc (after_read F e i k off r))) = known_cols (tb_trace (proc e))"
  "tr_len (tb_trace (proc (after_read F e i k off r))) = tr_len (tb_trace (proc e))"
  by (simp_all add: after_read_def effects)

lemma after_write_sel [effects]:
  "ex_step (after_write F e i k off r v) = ex_step e" "ex_mode (after_write F e i k off r v) = ex_mode e"
  "link_entries (after_write F e i k off r v) i' m = link_entries e i' m"
  "tb_mode (proc (after_write F e i k off r v)) = tb_mode (proc e)"
  "tb_mem (proc (after_write F e i k off r v)) = tb_mem (proc e)"
  "tb_regs (proc (after_write F e i k off r v)) = tb_regs (proc e)"
  "curr_pc (proc (after_write F e i k off r v)) = curr_pc (proc e)"
  "pc_idx (proc (after_write F e i k off r v)) = pc_idx (proc e)"
  "batch_to_line_map (proc (after_write F e i k off r v)) = batch_to_line_map (proc e)"
  "next_statement_line (proc (after_write F e i k off r v)) = next_statement_line (proc e)"
  "known_cols (tb_trace (proc (after_write F e i k off r v))) = known_cols (tb_trace (proc e))"
  "tr_len (tb_trace (proc (after_write F e i k off r v))) = tr_len (tb_trace (proc e))"
  by (simp_all add: after_write_def Let_def effects link_entries_proc)

lemma ready_effects [effects]:
  "ready (after_read F e i k off r) i' n = ready e i' n"
  "ready (after_write F e i k off r v) i' n = ready e i' n"
  "ready (after_cols F e cvs) i' n = ready e i' n"
  "ready (after_link e i m) i' n = ready e i' n"
  "ready (call_submachine e m l a x) i' n = ready e i' n"
  by (simp_all add: ready_def effects)

lemma has_link_effects [effects]:
  "has_link (after_read F e i k off r) i' m' = has_link e i' m'"
  "has_link (after_write F e i k off r v) i' m' = has_link e i' m'"
  "has_link (after_cols F e cvs) i' m' = has_link e i' m'"
  "has_link (after_link e i m) i' m' = has_link e i' m'"
  by (simp_all add: has_link_def effects)

lemma mem_val_effects [effects]:
  "mem_val (after_read F e i k off r) = mem_val e"
  "mem_val (after_write F e i k off r v) = mem_val e"
  "mem_val (after_cols F e cvs) = mem_val e"
  "mem_val (after_link e i m) = mem_val e"
  "mem_val (call_submachine e m l a x) = mem_val e"
  by (simp_all add: mem_val_def fun_eq_iff effects)

lemma machine_link_eq:
  "has_link e i m \<Longrightarrow> instr_link_id e i m 0 = Some (link_of e i m 0, after_link e i m)"
  by (rule instr_link_id_eq) (auto simp: has_link_def)

lemma ready_set_cols:
  "ready e i n \<Longrightarrow> Col_instr I_keccakf \<notin> fst ` set cvs \<Longrightarrow> set_cols F e cvs = Some (after_cols F e cvs)"
  by (rule set_cols_eq) (auto simp: ready_def)

section \<open>Cells of the current row\<close>

lemma instr_idx_inj: "instr_idx i = instr_idx j \<Longrightarrow> i = j"
proof -
  have "all_instructions ! instr_idx i = i" for i
    by (cases i) (simp_all add: all_instructions_def)
  then show "instr_idx i = instr_idx j \<Longrightarrow> i = j" by metis
qed

text \<open>The columns before the instruction flags, in order.\<close>

definition general_cols :: "known_witness_col list" where
  "general_cols =
    [Col_operation_id, Col_pc_update, Col_X, Col_Y, Col_Z, Col_W, Col_Y_free_value, Col_X_free_value,
     Col_tmp1_col, Col_tmp2_col, Col_tmp3_col, Col_tmp4_col, Col_X_b1, Col_X_b2, Col_X_b3, Col_X_b4,
     Col_XX, Col_XXIsZero, Col_XX_inv, Col_Y_b5, Col_Y_b6, Col_Y_b7, Col_Y_b8, Col_Y_7bit, Col_Y_15bit,
     Col_REM_b1, Col_REM_b2, Col_REM_b3, Col_REM_b4, Col_wrap_bit, Col_instr_load_label_param_l,
     Col_instr_jump_param_l, Col_instr_branch_if_diff_nonzero_param_l,
     Col_instr_branch_if_diff_equal_param_l, Col_instr_branch_if_diff_greater_than_param_l,
     Col_jump_to_shutdown_routine]"

lemma col_idx_inj: "col_idx c = col_idx d \<Longrightarrow> c = d"
proof -
  have less: "col_idx c < 36 \<longleftrightarrow> (\<forall>i. c \<noteq> Col_instr i)" for c
    by (cases c) simp_all
  have inv: "general_cols ! col_idx c = c" if "col_idx c < 36" for c
    using that by (cases c) (simp_all add: general_cols_def)
  assume eq: "col_idx c = col_idx d"
  show "c = d"
  proof (cases "col_idx c < 36")
    case True
    with inv[of c] inv[of d] eq show ?thesis by metis
  next
    case False
    with less[of c] less[of d] eq obtain i j where "c = Col_instr i" "d = Col_instr j" by auto
    with eq show ?thesis by (auto dest: instr_idx_inj)
  qed
qed

lemma cell_put_col:
  assumes "tb_mode (proc e) = Witness" "col_count \<le> length (known_cols (tb_trace (proc e)))"
    and "c \<noteq> Col_instr I_keccakf"
  shows "cell (put_col F e c v) d = (if c = d then into_fe F v else cell e d)"
proof -
  let ?cols = "known_cols (tb_trace (proc e))"
  have i: "length ?cols - col_count + col_idx c < length ?cols"
    using col_idx_less[OF assms(3)] assms(2) by simp
  have eq: "length ?cols - col_count + col_idx d = length ?cols - col_count + col_idx c \<longleftrightarrow> c = d"
    using col_idx_inj by auto
  have "cell (put_col F e c v) d = ?cols[length ?cols - col_count + col_idx c := into_fe F v]
      ! (length ?cols - col_count + col_idx d)"
    using assms(1) by (simp add: cell_def put_col_def Let_def)
  then show ?thesis using i eq by (cases "c = d") (simp_all add: cell_def Let_def)
qed

lemma cell_after_cols:
  assumes "ready e i n" "ex_mode e = Witness" "Col_instr I_keccakf \<notin> fst ` set cvs"
  shows "cell (after_cols F e cvs) d
    = (case map_of (rev cvs) d of Some v \<Rightarrow> into_fe F v | None \<Rightarrow> cell e d)"
proof -
  have "tb_mode (proc e) = Witness" "col_count \<le> length (known_cols (tb_trace (proc e)))"
    using assms by (auto simp: ready_def)
  then show ?thesis
    using assms(3)
  proof (induction cvs rule: rev_induct)
    case (snoc cv cvs)
    obtain c v where cv: "cv = (c, v)" by (cases cv)
    have "after_cols F e (cvs @ [cv]) = put_col F (after_cols F e cvs) c v"
      by (simp add: after_cols_def cv)
    moreover have "cell (put_col F (after_cols F e cvs) c v) d
        = (if c = d then into_fe F v else cell (after_cols F e cvs) d)"
      using snoc.prems cv by (intro cell_put_col) (auto simp: effects)
    ultimately show ?case using snoc by (auto simp: cv)
  qed (simp add: after_cols_simps)
qed

lemma cell_effects [effects]:
  "cell (after_read F e i k off r) = cell e" "cell (after_write F e i k off r v) = cell e"
  "cell (call_submachine e m l a x) = cell e" "cell (after_link e i m) = cell e"
  by (simp_all add: cell_def fun_eq_iff effects)

end
