(* ===== verification/Riscv_Semantics.thy ===== *)
theory Riscv_Semantics
  imports Riscv_Lemmas
begin

text \<open>
  Correctness of the instructions against the arithmetic of 32-bit words and, in witness mode,
  against the constraints that \<open>riscv/src/riscv_gl.asm\<close> puts on the columns of the row.
\<close>

section \<open>Constraints\<close>

text \<open>A constraint is an equation in the field between expressions over the cells of the row.\<close>

definition field_eq :: "field_desc \<Rightarrow> int \<Rightarrow> int \<Rightarrow> bool" where
  "field_eq F a b \<longleftrightarrow> a mod modulus F = b mod modulus F"

definition byte_cells :: "executor \<Rightarrow> known_witness_col list \<Rightarrow> bool" where
  "byte_cells e cs \<longleftrightarrow> (\<forall>c \<in> set cs. 0 \<le> cell e c \<and> cell e c < 256)"

definition word_cells ::
  "executor \<Rightarrow> known_witness_col \<Rightarrow> known_witness_col \<Rightarrow> known_witness_col \<Rightarrow> known_witness_col \<Rightarrow> int" where
  "word_cells e c1 c2 c3 c4 =
     cell e c1 + cell e c2 * 0x100 + cell e c3 * 0x10000 + cell e c4 * 0x1000000"

definition bool_cell :: "executor \<Rightarrow> known_witness_col \<Rightarrow> bool" where
  "bool_cell e c \<longleftrightarrow> cell e c = 0 \<or> cell e c = 1"

definition X_bytes :: "executor \<Rightarrow> bool" where
  "X_bytes e \<longleftrightarrow> byte_cells e [Col_X_b1, Col_X_b2, Col_X_b3, Col_X_b4]"

abbreviation X_word :: "executor \<Rightarrow> int" where
  "X_word e \<equiv> word_cells e Col_X_b1 Col_X_b2 Col_X_b3 Col_X_b4"

abbreviation Y_word :: "executor \<Rightarrow> int" where
  "Y_word e \<equiv> word_cells e Col_Y_b5 Col_Y_b6 Col_Y_b7 Col_Y_b8"

abbreviation REM_word :: "executor \<Rightarrow> int" where
  "REM_word e \<equiv> word_cells e Col_REM_b1 Col_REM_b2 Col_REM_b3 Col_REM_b4"

definition add_wrap_constraints :: "field_desc \<Rightarrow> executor \<Rightarrow> int \<Rightarrow> bool" where
  "add_wrap_constraints F e z \<longleftrightarrow>
     field_eq F (cell e Col_tmp1_col + cell e Col_tmp2_col + z)
       (cell e Col_tmp3_col + cell e Col_wrap_bit * 2 ^ 32) \<and>
     field_eq F (cell e Col_tmp3_col) (X_word e) \<and> X_bytes e \<and> bool_cell e Col_wrap_bit"

definition sub_wrap_constraints :: "field_desc \<Rightarrow> executor \<Rightarrow> int \<Rightarrow> bool" where
  "sub_wrap_constraints F e z \<longleftrightarrow>
     field_eq F (cell e Col_tmp1_col - cell e Col_tmp2_col + z + 2 ^ 32)
       (cell e Col_tmp3_col + cell e Col_wrap_bit * 2 ^ 32) \<and>
     field_eq F (cell e Col_tmp3_col) (X_word e) \<and> X_bytes e \<and> bool_cell e Col_wrap_bit"

section \<open>Lemmas\<close>

lemma field_eq_fe_from: "field_eq F (fe_from F x) y \<longleftrightarrow> field_eq F x y"
  by (simp add: field_eq_def fe_from_def)

lemma fe_from_0 [simp]: "fe_from F 0 = 0"
  by (simp add: fe_from_def)

lemma field_eqI: "a = b \<Longrightarrow> field_eq F a b"
  by (simp add: field_eq_def)

lemma fe_from_small: "0 \<le> x \<Longrightarrow> x < modulus F \<Longrightarrow> fe_from F x = x"
  by (simp add: fe_from_def)

lemma uint_u32_in_u32 [simp]: "in_u32 (uint (x :: u32))"
  using unsigned_less[of x] by (simp add: in_u32_def)

lemma as_u32_word: "as_u32 x = uint (word_of_int x :: u32)"
  by (simp add: as_u32_def unsigned_of_int take_bit_eq_mod)

lemma u32_in_i64 [simp]: "in_u32 x \<Longrightarrow> in_i64 x"
  by (simp add: in_u32_def in_i64_def)

lemma uint_u32_bounds: "0 \<le> uint (x :: u32)" "uint (x :: u32) < 2 ^ 32"
  using uint_u32_in_u32[of x] by (simp_all add: in_u32_def)

lemma in_u32_max [simp]: "in_u32 0xffffffff" "in_u32 0" "in_u32 1"
  by (simp_all add: in_u32_def)

lemma in_i64_sums: "in_u32 a \<Longrightarrow> in_u32 b \<Longrightarrow> in_i64 (a + b)" "in_u32 a \<Longrightarrow> in_u32 b \<Longrightarrow> in_i64 (a - b)"
  by (simp_all add: in_u32_def in_i64_def)

lemma fe_from_u32: "in_u32 x \<Longrightarrow> 2 ^ 32 \<le> modulus F \<Longrightarrow> fe_from F x = x"
  by (rule fe_from_small) (auto simp: in_u32_def)

text \<open>The wrap bit and the bytes of a value below \<open>2 ^ 33\<close>.\<close>

lemma carry_split:
  assumes "0 \<le> (x :: int)" "x < 2 ^ 33"
  shows "x = as_u32 x + (if x > 0xffffffff then 1 else 0) * 2 ^ 32"
proof (cases "x > 0xffffffff")
  case True
  then have "as_u32 x = x - 2 ^ 32"
    using assms mod_sub_once[of "2 ^ 32" x] by (simp add: as_u32_def)
  with True show ?thesis by simp
qed (use assms in \<open>simp add: as_u32_def\<close>)

text \<open>The cells of a byte decomposition hold the bytes and add up to the lower 32 bits.\<close>

lemma word_cells_decompose:
  assumes "decompose_lower32 x = (b1, b2, b3, b4, sg)" "2 ^ 32 \<le> modulus F"
    and "cell e c1 = fe_from F b1" "cell e c2 = fe_from F b2" "cell e c3 = fe_from F b3" "cell e c4 = fe_from F b4"
  shows "byte_cells e [c1, c2, c3, c4]" "word_cells e c1 c2 c3 c4 = as_u32 x"
proof -
  have b: "\<forall>b \<in> {b1, b2, b3, b4}. 0 \<le> b \<and> b < 256"
    by (rule decompose_lower32_ok(2)[OF assms(1)])
  then have "cell e c1 = b1" "cell e c2 = b2" "cell e c3 = b3" "cell e c4 = b4"
    using assms(2-6) by (auto intro!: fe_from_small)
  then show "byte_cells e [c1, c2, c3, c4]" "word_cells e c1 c2 c3 c4 = as_u32 x"
    using b decompose_lower32_ok(1)[OF assms(1)] by (simp_all add: byte_cells_def word_cells_def as_u32_def)
qed

lemma exec_add_wrap_effect:
  assumes "ready e I_add_wrap 3"
    and regs: "in_u32 r1" "in_u32 r2" "in_u32 rd"
    and vals: "reg_val e r1 = Elem_Binary (uint (x :: u32))" "reg_val e r2 = Elem_Binary (uint (y :: u32))"
    and off: "0 \<le> uint x + uint y + off" "uint x + uint y + off < 2 ^ 34"
    and d: "decompose_lower32 (uint x + uint y + off) = (b1, b2, b3, b4, sg)"
  shows "exec_add_wrap F e [Elem_Binary r1, Elem_Binary r2, Elem_Binary off, Elem_Binary rd] =
    Some (after_cols F (after_write F (after_cols F (after_read F (after_read F e I_add_wrap 0 0 r1)
        I_add_wrap 1 1 r2) [(Col_tmp1_col, Elem_Binary (uint x)), (Col_tmp2_col, Elem_Binary (uint y))])
        I_add_wrap 2 2 rd (Elem_Binary (as_u32 (uint x + uint y + off))))
      [(Col_tmp3_col, from_u32_as_fe F (as_u32 (uint x + uint y + off))),
       (Col_X_b1, from_u32_as_fe F b1), (Col_X_b2, from_u32_as_fe F b2),
       (Col_X_b3, from_u32_as_fe F b3), (Col_X_b4, from_u32_as_fe F b4),
       (Col_wrap_bit, if uint x + uint y + off > 0xffffffff then Elem_Field 1 else Elem_Field 0)])"
proof -
  have i64: "in_i64 (uint x + uint y)" "in_i64 (uint x + uint y + off)"
    using off in_i64_sums[of "uint x" "uint y"] by (simp_all add: in_i64_def)
  show ?thesis
    using assms i64
    by (simp add: exec_add_wrap_def arg_u_def read_reg_eq[of _ _ 3] write_reg_eq[of _ _ 3]
        ready_set_cols[of _ I_add_wrap 3] effects push_bit_eq_mult Let_def)
qed

lemma exec_add_wrap_correct:
  assumes F: "2 ^ 32 \<le> modulus F"
    and r: "ready e I_add_wrap 3"
    and regs: "in_u32 r1" "in_u32 r2" "in_u32 rd"
    and vals: "reg_val e r1 = Elem_Binary (uint (x :: u32))" "reg_val e r2 = Elem_Binary (uint (y :: u32))"
    and off: "0 \<le> uint x + uint y + off" "uint x + uint y + off < 2 ^ 33"
  shows "\<exists>e'. exec_add_wrap F e [Elem_Binary r1, Elem_Binary r2, Elem_Binary off, Elem_Binary rd] = Some e' \<and>
    reg_val e' = put_reg (reg_val e) rd (Elem_Binary (uint (x + y + word_of_int off))) \<and>
    mem_val e' = mem_val e \<and>
    (ex_mode e = Witness \<longrightarrow> add_wrap_constraints F e' off)"
proof -
  let ?v = "uint x + uint y + off"
  obtain b1 b2 b3 b4 sg where d: "decompose_lower32 ?v = (b1, b2, b3, b4, sg)"
    by (cases "decompose_lower32 ?v")
  have off': "?v < 2 ^ 34" using off(2) by simp
  note eff = exec_add_wrap_effect[OF r regs vals off(1) off' d, of F]
  let ?e = "the (exec_add_wrap F e [Elem_Binary r1, Elem_Binary r2, Elem_Binary off, Elem_Binary rd])"
  have sum: "as_u32 ?v = uint (x + y + word_of_int off)"
    by (simp add: as_u32_word)
  have regs': "reg_val ?e = put_reg (reg_val e) rd (Elem_Binary (as_u32 ?v))" "mem_val ?e = mem_val e"
    by (simp_all add: eff effects)
  have "add_wrap_constraints F ?e off" if w: "ex_mode e = Witness"
  proof -
    have c: "cell ?e Col_tmp1_col = uint x" "cell ?e Col_tmp2_col = uint y"
      "cell ?e Col_tmp3_col = as_u32 ?v" "cell ?e Col_wrap_bit = (if ?v > 0xffffffff then 1 else 0)"
      "cell ?e Col_X_b1 = fe_from F b1" "cell ?e Col_X_b2 = fe_from F b2"
      "cell ?e Col_X_b3 = fe_from F b3" "cell ?e Col_X_b4 = fe_from F b4"
      using r w F by (simp_all add: eff cell_after_cols[of _ I_add_wrap 3] effects from_u32_as_fe_def fe_from_u32)
    from word_cells_decompose[OF d F c(5-8)] c(1-4) carry_split[OF off] show ?thesis
      by (simp add: add_wrap_constraints_def X_bytes_def bool_cell_def field_eq_def)
  qed
  with eff regs' sum show ?thesis by auto
qed

lemma exec_sub_wrap_correct:
  assumes F: "2 ^ 32 \<le> modulus F"
    and r: "ready e I_sub_wrap_with_offset 3"
    and regs: "in_u32 r1" "in_u32 r2" "in_u32 rd"
    and vals: "reg_val e r1 = Elem_Binary (uint (x :: u32))" "reg_val e r2 = Elem_Binary (uint (y :: u32))"
    and off: "- (2 ^ 32) \<le> uint x - uint y + off" "uint x - uint y + off < 2 ^ 32"
  shows "\<exists>e'. exec_sub_wrap_with_offset F e
        [Elem_Binary r1, Elem_Binary r2, Elem_Binary off, Elem_Binary rd] = Some e' \<and>
    reg_val e' = put_reg (reg_val e) rd (Elem_Binary (uint (x - y + word_of_int off))) \<and>
    mem_val e' = mem_val e \<and>
    (ex_mode e = Witness \<longrightarrow> sub_wrap_constraints F e' off)"
proof -
  let ?v = "uint x - uint y + off + 0x100000000"
  let ?args = "[Elem_Binary r1, Elem_Binary r2, Elem_Binary off, Elem_Binary rd]"
  obtain b1 b2 b3 b4 sg where d: "decompose_lower32 ?v = (b1, b2, b3, b4, sg)"
    by (cases "decompose_lower32 ?v")
  have v: "0 \<le> ?v" "?v < 2 ^ 33" using off by simp_all
  have i64: "in_i64 (uint x - uint y)" "in_i64 (uint x - uint y + off)" "in_i64 ?v"
    using off in_i64_sums[of "uint x" "uint y"] by (simp_all add: in_i64_def)
  let ?e = "after_cols F (after_write F (after_read F (after_read F e I_sub_wrap_with_offset 0 0 r1)
      I_sub_wrap_with_offset 1 1 r2) I_sub_wrap_with_offset 2 2 rd (Elem_Binary (as_u32 ?v)))
      [(Col_tmp1_col, Elem_Binary (uint x)), (Col_tmp2_col, Elem_Binary (uint y)),
       (Col_tmp3_col, from_u32_as_fe F (as_u32 ?v)),
       (Col_X_b1, from_u32_as_fe F b1), (Col_X_b2, from_u32_as_fe F b2),
       (Col_X_b3, from_u32_as_fe F b3), (Col_X_b4, from_u32_as_fe F b4),
       (Col_wrap_bit, if ?v > 0xffffffff then Elem_Field 1 else Elem_Field 0)]"
  have eff: "exec_sub_wrap_with_offset F e ?args = Some ?e"
    using r regs vals i64 d
    by (simp add: exec_sub_wrap_with_offset_def arg_u_def read_reg_eq[of _ _ 3] write_reg_eq[of _ _ 3]
        ready_set_cols[of _ I_sub_wrap_with_offset 3] effects Let_def)
  have "as_u32 ?v = as_u32 (uint x - uint y + off)" by (simp add: as_u32_def)
  then have sum: "as_u32 ?v = uint (x - y + word_of_int off)" by (simp add: as_u32_word)
  have "sub_wrap_constraints F ?e off" if w: "ex_mode e = Witness"
  proof -
    have c: "cell ?e Col_tmp1_col = uint x" "cell ?e Col_tmp2_col = uint y"
      "cell ?e Col_tmp3_col = as_u32 ?v" "cell ?e Col_wrap_bit = (if ?v > 0xffffffff then 1 else 0)"
      "cell ?e Col_X_b1 = fe_from F b1" "cell ?e Col_X_b2 = fe_from F b2"
      "cell ?e Col_X_b3 = fe_from F b3" "cell ?e Col_X_b4 = fe_from F b4"
      using r w F by (simp_all add: cell_after_cols[of _ I_sub_wrap_with_offset 3] effects
          from_u32_as_fe_def fe_from_u32)
    have eq: "uint x - uint y + off + 2 ^ 32 = as_u32 ?v + (if ?v > 0xffffffff then 1 else 0) * 2 ^ 32"
      using carry_split[OF v] by simp
    from word_cells_decompose[OF d F c(5-8)] show ?thesis
      unfolding sub_wrap_constraints_def X_bytes_def bool_cell_def c(1-4) eq
      by (simp add: field_eq_def)
  qed
  moreover have "reg_val ?e = put_reg (reg_val e) rd (Elem_Binary (as_u32 ?v))" "mem_val ?e = mem_val e"
    by (simp_all add: effects)
  ultimately show ?thesis using eff sum by auto
qed

text \<open>Multiplication: the two registers receive the low and the high word of the product, and the
  split machine is called on the product with these words.\<close>

lemma exec_mul_correct:
  assumes F: "2 ^ 32 \<le> modulus F"
    and r: "ready e I_mul 4" "has_link e I_mul M_split_gl"
    and regs: "in_u32 r1" "in_u32 r2" "in_u32 rl" "in_u32 rh"
    and vals: "reg_val e r1 = Elem_Binary (uint (x :: u32))" "reg_val e r2 = Elem_Binary (uint (y :: u32))"
  shows "\<exists>e' hi. exec_mul F e [Elem_Binary r1, Elem_Binary r2, Elem_Binary rl, Elem_Binary rh] = Some e' \<and>
    in_u32 hi \<and> uint x * uint y = hi * 2 ^ 32 + uint (x * y) \<and>
    reg_val e' = put_reg (put_reg (reg_val e) rl (Elem_Binary (uint (x * y)))) rh (Elem_Binary hi) \<and>
    mem_val e' = mem_val e \<and>
    (ex_mode e = Witness \<longrightarrow>
       cell e' Col_tmp1_col = uint x \<and> cell e' Col_tmp2_col = uint y \<and>
       cell e' Col_tmp3_col = uint (x * y) \<and> cell e' Col_tmp4_col = hi \<and>
       lookup_args (last (submachine_ops (tb_trace (proc e')) M_split_gl))
         = (fe_from F (uint x * uint y), uint (x * y), hi, 0))"
proof -
  let ?p = "uint x * uint y"
  let ?args = "[Elem_Binary r1, Elem_Binary r2, Elem_Binary rl, Elem_Binary rh]"
  have lo: "as_u32 ?p = uint (x * y)" by (simp add: as_u32_word)
  have "?p \<le> (2 ^ 32 - 1) * (2 ^ 32 - 1)"
    using uint_u32_bounds[of x] uint_u32_bounds[of y] by (intro mult_mono) auto
  then have pb: "?p < 2 ^ 32 * 2 ^ 32" "0 \<le> ?p" by simp_all
  then have "in_u32 (drop_bit 32 ?p)"
    using div_less_square[OF pb(1)] by (simp add: in_u32_def drop_bit_eq_div pos_imp_zdiv_nonneg_iff)
  then have hi: "as_u32 (drop_bit 32 ?p) = drop_bit 32 ?p" "in_u32 (drop_bit 32 ?p)" by simp_all
  have split: "?p = drop_bit 32 ?p * 2 ^ 32 + uint (x * y)"
    by (simp only: drop_bit_eq_div lo[unfolded as_u32_def, symmetric] div_mult_mod_eq)
  let ?e1 = "after_cols F (after_write F (after_write F (after_read F (after_read F e I_mul 0 0 r1) I_mul 1 1 r2)
      I_mul 2 2 rl (Elem_Binary (uint (x * y)))) I_mul 3 3 rh (Elem_Binary (drop_bit 32 ?p)))
      [(Col_tmp1_col, Elem_Binary (uint x)), (Col_tmp2_col, Elem_Binary (uint y)),
       (Col_tmp3_col, from_u32_as_fe F (uint (x * y))), (Col_tmp4_col, from_u32_as_fe F (drop_bit 32 ?p))]"
  let ?e = "call_submachine (after_link ?e1 I_mul M_split_gl) M_split_gl (link_of ?e1 I_mul M_split_gl 0)
      (fe_from F ?p, fe_from F (uint (x * y)), fe_from F (drop_bit 32 ?p), fe_from F 0) []"
  have eff: "exec_mul F e ?args = Some ?e"
    using r regs vals hi
    by (simp add: exec_mul_def arg_u_def lo hi read_reg_eq[of _ _ 4] write_reg_eq[of _ _ 4]
        ready_set_cols[of _ I_mul 4] machine_link_eq effects Let_def)
  have "cell ?e Col_tmp1_col = uint x \<and> cell ?e Col_tmp2_col = uint y \<and>
       cell ?e Col_tmp3_col = uint (x * y) \<and> cell ?e Col_tmp4_col = drop_bit 32 ?p" if w: "ex_mode e = Witness"
    using r w F hi by (simp add: cell_after_cols[of _ I_mul 4] effects from_u32_as_fe_def fe_from_u32)
  moreover have "lookup_args (last (submachine_ops (tb_trace (proc ?e)) M_split_gl))
      = (fe_from F ?p, uint (x * y), drop_bit 32 ?p, 0)" if w: "ex_mode e = Witness"
  proof -
    have m: "tb_mode (proc ?e1) = Witness" using r w by (simp add: ready_def effects)
    show ?thesis using m F hi
      by (simp add: call_submachine_def submachine_op_def after_link_sel fe_from_u32 Let_def)
  qed
  moreover have "reg_val ?e = put_reg (put_reg (reg_val e) rl (Elem_Binary (uint (x * y)))) rh
      (Elem_Binary (drop_bit 32 ?p))" "mem_val ?e = mem_val e"
    by (simp_all add: effects)
  ultimately show ?thesis using eff hi split by blast
qed

section \<open>The zero test\<close>

definition zero_test_cols :: "field_desc \<Rightarrow> elem \<Rightarrow> (known_witness_col \<times> elem) list" where
  "zero_test_cols F val = [(Col_XX, val), (Col_XXIsZero, from_bool_as_fe (elem_is_zero val))]
     @ (if elem_is_zero val then [] else [(Col_XX_inv, Elem_Field (the (fe_div F 1 (into_fe F val))))])"

definition zero_test_constraints :: "field_desc \<Rightarrow> executor \<Rightarrow> int \<Rightarrow> bool" where
  "zero_test_constraints F e v \<longleftrightarrow>
     bool_cell e Col_XXIsZero \<and> field_eq F (cell e Col_XXIsZero * cell e Col_XX) 0 \<and>
     field_eq F (cell e Col_XXIsZero) (1 - cell e Col_XX * cell e Col_XX_inv) \<and>
     field_eq F (cell e Col_XX) v"

lemma after_cols_append: "after_cols F (after_cols F e cvs) cvs' = after_cols F e (cvs @ cvs')"
  by (simp add: after_cols_def)

lemma set_zero_test_eq:
  assumes "ready e i n" "elem_is_zero val \<longleftrightarrow> into_fe F val = 0"
  shows "set_zero_test F e val = Some (after_cols F e (zero_test_cols F val))"
  using assms
  by (simp add: set_zero_test_def zero_test_cols_def ready_set_cols[of _ i n] effects after_cols_append fe_div_def)

text \<open>After the zero test the constraints hold and \<open>XXIsZero\<close> tells whether the value is zero.\<close>

lemma zero_test_cells:
  assumes "field_element F" "canonical F (into_fe F val)" "elem_is_zero val \<longleftrightarrow> into_fe F val = 0"
    and "cell e Col_XX = into_fe F val" "cell e Col_XXIsZero = (if elem_is_zero val then 1 else 0)"
    and "\<not> elem_is_zero val \<longrightarrow> cell e Col_XX_inv = the (fe_div F 1 (into_fe F val))"
  shows "zero_test_constraints F e (into_fe F val)"
proof (cases "elem_is_zero val")
  case False
  have "canonical F 1" using field_element.canonical_1[OF assms(1)] .
  moreover have nz: "into_fe F val \<noteq> 0" using False assms(3) by simp
  ultimately obtain q where q: "fe_div F 1 (into_fe F val) = Some q" "fe_mul F q (into_fe F val) = 1"
    using field_element.fe_div_nonzero[OF assms(1) _ assms(2) nz] by metis
  then have "(1 - cell e Col_XX * cell e Col_XX_inv) mod modulus F = (1 - 1) mod modulus F"
    using assms(4,6) False by (simp add: fe_mul_def mult.commute mod_diff_right_eq[of 1, symmetric])
  with False assms(4,5) show ?thesis
    by (simp add: zero_test_constraints_def bool_cell_def field_eq_def)
qed (use assms in \<open>simp add: zero_test_constraints_def bool_cell_def field_eq_def\<close>)

lemma u32_zero_test:
  assumes "2 ^ 32 \<le> modulus F" "in_u32 v"
  shows "elem_is_zero (Elem_Binary v) \<longleftrightarrow> into_fe F (Elem_Binary v) = 0" "into_fe F (Elem_Binary v) = v"
  using assms by (simp_all add: fe_from_u32)

section \<open>Division\<close>

definition divremu_constraints :: "field_desc \<Rightarrow> executor \<Rightarrow> bool" where
  "divremu_constraints F e \<longleftrightarrow>
     zero_test_constraints F e (cell e Col_tmp2_col) \<and>
     field_eq F (cell e Col_tmp2_col * cell e Col_tmp3_col + cell e Col_tmp4_col) (cell e Col_tmp1_col) \<and>
     field_eq F (cell e Col_tmp4_col) (REM_word e) \<and>
     field_eq F ((1 - cell e Col_XXIsZero) * (cell e Col_tmp2_col - cell e Col_tmp4_col - 1 - Y_word e)) 0 \<and>
     field_eq F (cell e Col_XXIsZero * (cell e Col_tmp3_col - 0xffffffff)) 0 \<and>
     field_eq F (cell e Col_tmp3_col) (X_word e) \<and>
     byte_cells e [Col_X_b1, Col_X_b2, Col_X_b3, Col_X_b4] \<and>
     byte_cells e [Col_REM_b1, Col_REM_b2, Col_REM_b3, Col_REM_b4] \<and>
     (cell e Col_XXIsZero = 0 \<longrightarrow> byte_cells e [Col_Y_b5, Col_Y_b6, Col_Y_b7, Col_Y_b8])"

lemma as_i64_u32: "in_u32 x \<Longrightarrow> as_i64 x = x"
  by (simp add: as_i64_def in_u32_def signed_take_bit_int_eq_self)

text \<open>Quotient and remainder of RISC-V \<open>divu\<close> and \<open>remu\<close>.\<close>

definition riscv_divu :: "u32 \<Rightarrow> u32 \<Rightarrow> u32" where
  "riscv_divu y x = (if x = 0 then - 1 else y div x)"

definition riscv_remu :: "u32 \<Rightarrow> u32 \<Rightarrow> u32" where
  "riscv_remu y x = (if x = 0 then y else y mod x)"

lemma uint_u32_minus_1: "uint (- 1 :: u32) = 0xffffffff"
  by (simp add: unsigned_minus_1_eq_mask mask_eq_exp_minus_1)

lemma divremu_uint:
  fixes x y :: u32
  shows "(if uint x \<noteq> 0 then (uint y div uint x, uint y mod uint x) else (0xffffffff, uint y))
    = (uint (riscv_divu y x), uint (riscv_remu y x))"
  by (simp add: riscv_divu_def riscv_remu_def uint_div uint_mod unsigned_eq_0_iff uint_u32_minus_1)

text \<open>The difference that shows the remainder to be smaller than the divisor.\<close>

lemma divremu_diff:
  fixes x y :: u32
  assumes "x \<noteq> 0"
  shows "in_u32 (uint x - uint (riscv_remu y x))" "in_u32 (uint x - uint (riscv_remu y x) - 1)"
proof -
  have "0 < uint x" using assms by (simp add: uint_eq_0_iff_pos)
  then have "uint y mod uint x < uint x" "0 \<le> uint y mod uint x" by simp_all
  then show "in_u32 (uint x - uint (riscv_remu y x))" "in_u32 (uint x - uint (riscv_remu y x) - 1)"
    using assms uint_u32_bounds[of x] by (simp_all add: riscv_remu_def uint_mod in_u32_def)
qed

lemma divremu_equation:
  fixes x y :: u32
  shows "uint x * uint (riscv_divu y x) + uint (riscv_remu y x) = uint y"
  by (cases "x = 0") (simp_all add: riscv_divu_def riscv_remu_def uint_div uint_mod)

lemma exec_divremu_correct:
  assumes F: "field_element F" "2 ^ 32 \<le> modulus F" "64 \<le> NUM_BITS F"
    and r: "ready e I_divremu 4"
    and regs: "in_u32 r1" "in_u32 r2" "in_u32 rq" "in_u32 rr"
    and vals: "reg_val e r1 = Elem_Binary (uint (y :: u32))" "reg_val e r2 = Elem_Binary (uint (x :: u32))"
  shows "\<exists>e'. exec_divremu F e [Elem_Binary r1, Elem_Binary r2, Elem_Binary rq, Elem_Binary rr] = Some e' \<and>
    reg_val e' = put_reg (put_reg (reg_val e) rq (Elem_Binary (uint (riscv_divu y x)))) rr
      (Elem_Binary (uint (riscv_remu y x))) \<and>
    mem_val e' = mem_val e \<and> (ex_mode e = Witness \<longrightarrow> divremu_constraints F e')"
proof -
  let ?q = "uint (riscv_divu y x)" and ?m = "uint (riscv_remu y x)"
  let ?d = "uint x - ?m - 1"
  let ?args = "[Elem_Binary r1, Elem_Binary r2, Elem_Binary rq, Elem_Binary rr]"
  obtain b1 b2 b3 b4 s1 where d1: "decompose_lower32 ?q = (b1, b2, b3, b4, s1)"
    by (cases "decompose_lower32 ?q")
  obtain m1 m2 m3 m4 s2 where d2: "decompose_lower32 ?m = (m1, m2, m3, m4, s2)"
    by (cases "decompose_lower32 ?m")
  obtain b5 b6 b7 b8 s3 where d3: "decompose_lower32 ?d = (b5, b6, b7, b8, s3)"
    by (cases "decompose_lower32 ?d")
  let ?val2 = "Elem_Binary (uint x)"
  have fe: "fe_from F ?q = ?q" "fe_from F ?m = ?m" "fe_from F (uint x) = uint x" "fe_from F (uint y) = uint y"
    using F(2) by (simp_all add: fe_from_u32)
  let ?cols = "[(Col_tmp1_col, Elem_Binary (uint y)), (Col_tmp2_col, ?val2),
       (Col_tmp3_col, Elem_Field ?q), (Col_tmp4_col, Elem_Field ?m)] @ zero_test_cols F ?val2 @
      [(Col_X_b1, from_u32_as_fe F b1), (Col_X_b2, from_u32_as_fe F b2),
       (Col_X_b3, from_u32_as_fe F b3), (Col_X_b4, from_u32_as_fe F b4),
       (Col_REM_b1, from_u32_as_fe F m1), (Col_REM_b2, from_u32_as_fe F m2),
       (Col_REM_b3, from_u32_as_fe F m3), (Col_REM_b4, from_u32_as_fe F m4)] @
      (if x = 0 then [] else
       [(Col_Y_b5, from_u32_as_fe F b5), (Col_Y_b6, from_u32_as_fe F b6),
        (Col_Y_b7, from_u32_as_fe F b7), (Col_Y_b8, from_u32_as_fe F b8)])"
  let ?base = "after_write F (after_write F (after_read F (after_read F e I_divremu 0 0 r1) I_divremu 1 1 r2)
      I_divremu 2 2 rq (Elem_Binary ?q)) I_divremu 3 3 rr (Elem_Binary ?m)"
  let ?e = "after_cols F ?base ?cols"
  have z: "elem_is_zero ?val2 \<longleftrightarrow> into_fe F ?val2 = 0" "elem_is_zero ?val2 \<longleftrightarrow> x = 0"
    using u32_zero_test[OF F(2), of "uint x"] by (simp_all add: unsigned_eq_0_iff)
  have eff: "exec_divremu F e ?args = Some ?e"
    using r regs vals F(2,3) d1 d2 d3 divremu_diff[of x y]
    by (simp add: exec_divremu_def arg_u_def read_reg_eq[of _ _ 4] write_reg_eq[of _ _ 4]
        ready_set_cols[of _ I_divremu 4] set_zero_test_eq[OF _ z(1), of _ I_divremu 4] effects Let_def
        divremu_uint after_cols_append from_u32_as_fe_def fe_from_u32 as_i64_u32 uint_eq_0_iff_pos)
  have "divremu_constraints F ?e" if w: "ex_mode e = Witness"
  proof -
    have r0: "ready ?base I_divremu 4" "ex_mode ?base = Witness" using r w by (simp_all add: effects)
    have kn: "Col_instr I_keccakf \<notin> fst ` set ?cols" by (simp add: zero_test_cols_def)
    have cell: "cell ?e c = (case map_of (rev ?cols) c of Some v \<Rightarrow> into_fe F v | None \<Rightarrow> cell ?base c)" for c
      by (rule cell_after_cols[OF r0 kn])
    have c: "cell ?e Col_tmp1_col = uint y" "cell ?e Col_tmp2_col = uint x" "cell ?e Col_tmp3_col = ?q"
      "cell ?e Col_tmp4_col = ?m" "cell ?e Col_XX = into_fe F ?val2"
      "cell ?e Col_XXIsZero = (if elem_is_zero ?val2 then 1 else 0)"
      "\<not> elem_is_zero ?val2 \<longrightarrow> cell ?e Col_XX_inv = the (fe_div F 1 (into_fe F ?val2))"
      by (simp_all only: cell) (simp_all add: zero_test_cols_def fe from_bool_as_fe_def)
    have bx: "cell ?e Col_X_b1 = fe_from F b1" "cell ?e Col_X_b2 = fe_from F b2"
      "cell ?e Col_X_b3 = fe_from F b3" "cell ?e Col_X_b4 = fe_from F b4"
      by (simp_all only: cell) (simp_all add: zero_test_cols_def from_u32_as_fe_def)
    have bm: "cell ?e Col_REM_b1 = fe_from F m1" "cell ?e Col_REM_b2 = fe_from F m2"
      "cell ?e Col_REM_b3 = fe_from F m3" "cell ?e Col_REM_b4 = fe_from F m4"
      by (simp_all only: cell) (simp_all add: zero_test_cols_def from_u32_as_fe_def)
    have bd: "cell ?e Col_Y_b5 = fe_from F b5" "cell ?e Col_Y_b6 = fe_from F b6"
      "cell ?e Col_Y_b7 = fe_from F b7" "cell ?e Col_Y_b8 = fe_from F b8" if "x \<noteq> 0"
      by (simp_all only: cell) (simp_all add: from_u32_as_fe_def that)
    have zt: "zero_test_constraints F ?e (uint x)"
      using zero_test_cells[OF F(1) _ z(1) c(5-7)] field_element.into_fe_canonical[OF F(1), of ?val2] fe
      by (simp del: into_fe.simps add: u32_zero_test(2)[OF F(2)])
    show ?thesis
      unfolding divremu_constraints_def c(1-4)
      using zt word_cells_decompose[OF d1 F(2) bx] word_cells_decompose[OF d2 F(2) bm]
        word_cells_decompose[OF d3 F(2) bd] c(6) z(2) divremu_equation[of x y] divremu_diff[of x y]
      by (cases "x = 0") (simp_all add: field_eq_def riscv_divu_def uint_u32_minus_1)
  qed
  moreover have "reg_val ?e = put_reg (put_reg (reg_val e) rq (Elem_Binary ?q)) rr (Elem_Binary ?m)"
    "mem_val ?e = mem_val e"
    by (simp_all add: effects)
  ultimately show ?thesis using eff by blast
qed

section \<open>Sign extension\<close>

definition sign_extend_byte_constraints :: "field_desc \<Rightarrow> executor \<Rightarrow> bool" where
  "sign_extend_byte_constraints F e \<longleftrightarrow>
     field_eq F (cell e Col_tmp1_col)
       (cell e Col_Y_7bit + cell e Col_wrap_bit * 0x80 + cell e Col_X_b2 * 0x100
         + cell e Col_X_b3 * 0x10000 + cell e Col_X_b4 * 0x1000000) \<and>
     field_eq F (cell e Col_tmp3_col) (cell e Col_Y_7bit + cell e Col_wrap_bit * 0xffffff80) \<and>
     0 \<le> cell e Col_Y_7bit \<and> cell e Col_Y_7bit < 128 \<and> bool_cell e Col_wrap_bit \<and>
     byte_cells e [Col_X_b2, Col_X_b3, Col_X_b4]"

definition sign_extend_16_constraints :: "field_desc \<Rightarrow> executor \<Rightarrow> bool" where
  "sign_extend_16_constraints F e \<longleftrightarrow>
     field_eq F (cell e Col_Y_15bit) (cell e Col_X_b1 + cell e Col_Y_7bit * 0x100) \<and>
     field_eq F (cell e Col_tmp1_col)
       (cell e Col_Y_15bit + cell e Col_wrap_bit * 0x8000 + cell e Col_X_b3 * 0x10000
         + cell e Col_X_b4 * 0x1000000) \<and>
     field_eq F (cell e Col_tmp3_col) (cell e Col_Y_15bit + cell e Col_wrap_bit * 0xffff8000) \<and>
     0 \<le> cell e Col_Y_7bit \<and> cell e Col_Y_7bit < 128 \<and> bool_cell e Col_wrap_bit \<and>
     byte_cells e [Col_X_b1, Col_X_b3, Col_X_b4]"

definition to_signed_constraints :: "field_desc \<Rightarrow> executor \<Rightarrow> bool" where
  "to_signed_constraints F e \<longleftrightarrow>
     field_eq F (cell e Col_tmp1_col)
       (cell e Col_X_b1 + cell e Col_X_b2 * 0x100 + cell e Col_X_b3 * 0x10000
         + cell e Col_Y_7bit * 0x1000000 + cell e Col_wrap_bit * 0x80000000) \<and>
     field_eq F (cell e Col_tmp3_col) (cell e Col_tmp1_col - cell e Col_wrap_bit * 0x100000000) \<and>
     0 \<le> cell e Col_Y_7bit \<and> cell e Col_Y_7bit < 128 \<and> bool_cell e Col_wrap_bit \<and>
     byte_cells e [Col_X_b1, Col_X_b2, Col_X_b3]"

lemma mod_Suc_exp: "(u :: int) mod 2 ^ Suc n = u mod 2 ^ n + of_bool (bit u n) * 2 ^ n"
  using take_bit_Suc_from_most[of n u] by (simp only: take_bit_eq_mod ac_simps)

lemma signed_take_bit_mod: "signed_take_bit n (u :: int) = u mod 2 ^ n - of_bool (bit u n) * 2 ^ n"
proof -
  have "signed_take_bit n u = u mod 2 ^ Suc n - 2 ^ Suc n * of_bool (bit u n)"
    by (simp only: signed_take_bit_eq_take_bit_minus take_bit_eq_mod)
  then show ?thesis by (simp only: mod_Suc_exp) simp
qed

lemma and_low: "(u :: int) AND 0x7f = u mod 2 ^ 7" "(u :: int) AND 0x7fff = u mod 2 ^ 15"
  "(u :: int) AND 0xffff = u mod 2 ^ 16"
  using take_bit_eq_mask[of 7 u] take_bit_eq_mask[of 15 u] take_bit_eq_mask[of 16 u]
  by (simp_all add: take_bit_eq_mod mask_eq_exp_minus_1)

lemma and_top: "(u :: int) AND 0x8000 \<noteq> 0 \<longleftrightarrow> bit u 15" "(b :: int) AND 0x80 \<noteq> 0 \<longleftrightarrow> bit b 7"
  using and_exp_eq_0_iff_not_bit[of u 15] and_exp_eq_0_iff_not_bit[of b 7] by simp_all

lemma as_u32_signed_take_bit:
  assumes "n < 32"
  shows "as_u32 (signed_take_bit n u) = u mod 2 ^ n + of_bool (bit u n) * (2 ^ 32 - 2 ^ n)"
proof -
  have "(2 :: int) ^ n \<le> 2 ^ 31" using assms by (intro power_increasing) simp_all
  then have p: "(2 :: int) ^ n \<le> 2147483648" by simp
  have m: "0 \<le> u mod 2 ^ n" "u mod 2 ^ n < 2 ^ n" by simp_all
  then have lo: "- 4294967296 \<le> u mod 2 ^ n - 2 ^ n" using p by linarith
  show ?thesis
  proof (cases "bit u n")
    case True
    have "as_u32 (signed_take_bit n u) = (u mod 2 ^ n - 2 ^ n) mod 2 ^ 32"
      using True by (simp add: as_u32_def signed_take_bit_mod)
    also have "\<dots> = u mod 2 ^ n - 2 ^ n + 2 ^ 32"
      using lo m(2) by (intro mod_add_once) simp_all
    finally show ?thesis using True by simp
  next
    case False
    have "u mod 2 ^ n < 4294967296" using m p by linarith
    then show ?thesis using False by (simp add: as_u32_def signed_take_bit_mod)
  qed
qed

lemma sign_extend_words:
  fixes x :: u32
  shows "as_u32 (signed_take_bit 7 (uint x)) = uint (scast (ucast x :: 8 word) :: u32)"
    and "as_u32 (signed_take_bit 15 (uint x)) = uint (scast (ucast x :: 16 word) :: u32)"
    and "as_i32 (uint x) = sint x"
proof -
  have "sint (ucast x :: 8 word) = signed_take_bit 7 (uint x)"
    "sint (ucast x :: 16 word) = signed_take_bit 15 (uint x)"
    by (simp_all add: signed_ucast_eq)
  then show "as_u32 (signed_take_bit 7 (uint x)) = uint (scast (ucast x :: 8 word) :: u32)"
    "as_u32 (signed_take_bit 15 (uint x)) = uint (scast (ucast x :: 16 word) :: u32)"
    by (simp_all add: as_u32_word scast_eq)
qed (simp add: as_i32_def sint_uint)

lemma sign_extend_16_or:
  assumes "in_u32 u" "bit u 15"
  shows "u OR 0xFFFF0000 = as_u32 (signed_take_bit 15 u)"
proof (rule bit_eqI)
  fix k
  have "(0xFFFF0000 :: int) = push_bit 16 (mask 16)"
    by (simp add: push_bit_eq_mult mask_eq_exp_minus_1)
  then have c: "bit (0xFFFF0000 :: int) k \<longleftrightarrow> 16 \<le> k \<and> k < 32"
    by (simp only: bit_push_bit_iff bit_mask_iff) auto
  have u: "bit u k \<longrightarrow> k < 32"
    using assms(1) bit_take_bit_iff[of 32 u k] by (simp add: take_bit_eq_mod in_u32_def) blast
  have k: "k < 15 \<or> k = 15 \<or> 16 \<le> k" by linarith
  have "bit (u OR 0xFFFF0000) k \<longleftrightarrow> bit u k \<or> 16 \<le> k \<and> k < 32"
    by (simp only: bit_or_iff c)
  moreover have "bit (as_u32 (signed_take_bit 15 u)) k \<longleftrightarrow> k < 32 \<and> bit u (min 15 k)"
    unfolding as_u32_def take_bit_eq_mod[symmetric] by (simp add: bit_take_bit_iff bit_signed_take_bit_iff)
  ultimately show "bit (u OR 0xFFFF0000) k = bit (as_u32 (signed_take_bit 15 u)) k"
    using k u assms(2) by (elim disjE) auto
qed

lemma sign_extend_16_and: "\<not> bit (u :: int) 15 \<Longrightarrow> u AND 0xFFFF = as_u32 (signed_take_bit 15 u)"
  using as_u32_signed_take_bit[of 15 u] mod_Suc_exp[of u 15] by (simp add: and_low)

text \<open>The bytes of a 32-bit value, with the top bit of a byte split off.\<close>

lemma u32_bytes:
  assumes "decompose_lower32 u = (b1, b2, b3, b4, sg)" "in_u32 u"
  shows "u = b1 + b2 * 0x100 + b3 * 0x10000 + b4 * 0x1000000"
    "\<forall>b \<in> {b1, b2, b3, b4}. 0 \<le> b \<and> b < 256"
    "b1 = u mod 2 ^ 7 + of_bool (bit u 7) * 128" "b1 mod 2 ^ 7 = u mod 2 ^ 7"
    "u mod 2 ^ 15 = b1 + b2 mod 2 ^ 7 * 256" "b1 + b2 * 256 = u mod 2 ^ 15 + of_bool (bit u 15) * 0x8000"
    "b4 = b4 mod 2 ^ 7 + of_bool (bit u 31) * 128" "bit b4 7 = bit u 31"
proof -
  have b: "b1 = u mod 2 ^ 8" "b2 = u div 2 ^ 8 mod 2 ^ 8" "b4 = u div 2 ^ 24 mod 2 ^ 8"
    using assms(1) by (simp_all only: decompose_lower32_eq prod.inject) simp_all
  show "u = b1 + b2 * 0x100 + b3 * 0x10000 + b4 * 0x1000000"
    "\<forall>b \<in> {b1, b2, b3, b4}. 0 \<le> b \<and> b < 256"
    using decompose_lower32_ok(1,2)[OF assms(1)] as_u32_id[OF assms(2)] by (simp_all add: as_u32_def)
  show "b1 = u mod 2 ^ 7 + of_bool (bit u 7) * 128"
    using mod_Suc_exp[of u 7] by (simp add: b)
  show "b1 mod 2 ^ 7 = u mod 2 ^ 7" unfolding b by (rule mod_mod_cancel) simp
  have "b2 mod 2 ^ 7 = u div 2 ^ 8 mod 2 ^ 7" unfolding b by (rule mod_mod_cancel) simp
  then show 15: "u mod 2 ^ 15 = b1 + b2 mod 2 ^ 7 * 256"
    using zmod_zmult2_eq[of "2 ^ 7" u "2 ^ 8"] by (simp add: b)
  have "u mod 2 ^ 16 = b1 + b2 * 256"
    using zmod_zmult2_eq[of "2 ^ 8" u "2 ^ 8"] by (simp add: b)
  then show "b1 + b2 * 256 = u mod 2 ^ 15 + of_bool (bit u 15) * 0x8000"
    using mod_Suc_exp[of u 15] by simp
  show 31: "bit b4 7 = bit u 31"
    unfolding b drop_bit_eq_div[symmetric] take_bit_eq_mod[symmetric] by (simp add: bit_simps)
  have "b4 = b4 mod 2 ^ Suc 7" unfolding b by simp
  then show "b4 = b4 mod 2 ^ 7 + of_bool (bit u 31) * 128"
    using mod_Suc_exp[of b4 7] 31 by simp
qed

text \<open>Cells with such values satisfy the constraints.\<close>

lemma sign_extend_byte_cells:
  assumes "cell e Col_tmp1_col = m + s * 0x80 + b2 * 0x100 + b3 * 0x10000 + b4 * 0x1000000"
    and "cell e Col_tmp3_col = m + s * 0xffffff80" "cell e Col_Y_7bit = m" "cell e Col_wrap_bit = s"
    and "cell e Col_X_b2 = b2" "cell e Col_X_b3 = b3" "cell e Col_X_b4 = b4"
    and "0 \<le> m" "m < 128" "s = 0 \<or> s = 1" "\<forall>b \<in> {b1, b2, b3, b4}. 0 \<le> b \<and> b < 256"
  shows "sign_extend_byte_constraints F e"
  using assms by (simp add: sign_extend_byte_constraints_def bool_cell_def byte_cells_def field_eq_def)

lemma sign_extend_16_cells:
  assumes "cell e Col_tmp1_col = h + s * 0x8000 + b3 * 0x10000 + b4 * 0x1000000"
    and "cell e Col_tmp3_col = h + s * 0xffff8000" "cell e Col_Y_7bit = m" "cell e Col_Y_15bit = h"
    and "cell e Col_wrap_bit = s" "cell e Col_X_b1 = b1" "cell e Col_X_b3 = b3" "cell e Col_X_b4 = b4"
    and "h = b1 + m * 256" "0 \<le> m" "m < 128" "s = 0 \<or> s = 1"
    and "\<forall>b \<in> {b1, b2, b3, b4}. 0 \<le> b \<and> b < 256"
  shows "sign_extend_16_constraints F e"
  using assms by (simp add: sign_extend_16_constraints_def bool_cell_def byte_cells_def field_eq_def)

lemma to_signed_cells:
  assumes "cell e Col_tmp1_col = u" "cell e Col_tmp3_col = (u - s * 0x100000000) mod modulus F"
    and "cell e Col_Y_7bit = m" "cell e Col_wrap_bit = s"
    and "cell e Col_X_b1 = b1" "cell e Col_X_b2 = b2" "cell e Col_X_b3 = b3"
    and "u = b1 + b2 * 0x100 + b3 * 0x10000 + m * 0x1000000 + s * 0x80000000"
    and "0 \<le> m" "m < 128" "s = 0 \<or> s = 1" "\<forall>b \<in> {b1, b2, b3, b4}. 0 \<le> b \<and> b < 256"
  shows "to_signed_constraints F e"
  using assms by (simp add: to_signed_constraints_def bool_cell_def byte_cells_def field_eq_def)

lemma mod_bounds_7: "0 \<le> (u :: int) mod 2 ^ 7" "(u :: int) mod 2 ^ 7 < 128"
  by simp_all

lemma of_bool_cases: "of_bool b = (0 :: int) \<or> of_bool b = (1 :: int)"
  by simp

lemma fe_from_bytes:
  assumes "\<forall>b \<in> {b1, b2, b3, b4}. 0 \<le> b \<and> b < 256" "2 ^ 32 \<le> modulus F"
  shows "fe_from F b1 = b1" "fe_from F b2 = b2" "fe_from F b3 = b3" "fe_from F b4 = b4"
    "fe_from F (b mod 2 ^ 7) = b mod 2 ^ 7" "fe_from F (b mod 2 ^ 15) = b mod 2 ^ 15"
proof -
  have m: "0 \<le> b mod 2 ^ 7" "b mod 2 ^ 7 < 2 ^ 7" "0 \<le> b mod 2 ^ 15" "b mod 2 ^ 15 < 2 ^ 15" by simp_all
  show "fe_from F b1 = b1" "fe_from F b2 = b2" "fe_from F b3 = b3" "fe_from F b4 = b4"
    using assms by (auto intro!: fe_from_small)
  show "fe_from F (b mod 2 ^ 7) = b mod 2 ^ 7" "fe_from F (b mod 2 ^ 15) = b mod 2 ^ 15"
    using m assms(2) by (intro fe_from_u32; simp add: in_u32_def)+
qed

lemma exec_sign_extend_byte_correct:
  assumes F: "2 ^ 32 \<le> modulus F"
    and r: "ready e I_sign_extend_byte 2" and regs: "in_u32 r1" "in_u32 rd"
    and vals: "reg_val e r1 = Elem_Binary (uint (x :: u32))"
  shows "\<exists>e'. exec_sign_extend_byte F e [Elem_Binary r1, Elem_Binary rd] = Some e' \<and>
    reg_val e' = put_reg (reg_val e) rd (Elem_Binary (uint (scast (ucast x :: 8 word) :: u32))) \<and>
    mem_val e' = mem_val e \<and> (ex_mode e = Witness \<longrightarrow> sign_extend_byte_constraints F e')"
proof -
  let ?u = "uint x"
  let ?x = "as_u32 (signed_take_bit 7 ?u)"
  obtain b1 b2 b3 b4 sg where d: "decompose_lower32 ?u = (b1, b2, b3, b4, sg)"
    by (cases "decompose_lower32 ?u")
  note b = u32_bytes[OF d uint_u32_in_u32]
  let ?e = "after_cols F (after_write F (after_read F e I_sign_extend_byte 0 0 r1)
      I_sign_extend_byte 1 3 rd (Elem_Binary ?x))
      [(Col_tmp1_col, Elem_Binary ?u), (Col_tmp3_col, from_u32_as_fe F ?x),
        (Col_Y_7bit, from_u32_as_fe F (b1 AND 0x7f)),
        (Col_X_b2, from_u32_as_fe F b2), (Col_X_b3, from_u32_as_fe F b3),
        (Col_X_b4, from_u32_as_fe F b4),
        (Col_wrap_bit, if signed_take_bit 7 ?u < 0 then Elem_Field 1 else Elem_Field 0)]"
  have eff: "exec_sign_extend_byte F e [Elem_Binary r1, Elem_Binary rd] = Some ?e"
    using r regs vals d
    by (simp add: exec_sign_extend_byte_def arg_u_def read_reg_eq[of _ _ 2] write_reg_eq[of _ _ 2]
        ready_set_cols[of _ I_sign_extend_byte 2] effects Let_def)
  have "sign_extend_byte_constraints F ?e" if w: "ex_mode e = Witness"
  proof -
    have c: "cell ?e Col_tmp1_col = ?u" "cell ?e Col_tmp3_col = ?x" "cell ?e Col_Y_7bit = ?u mod 2 ^ 7"
      "cell ?e Col_wrap_bit = of_bool (bit ?u 7)"
      "cell ?e Col_X_b2 = b2" "cell ?e Col_X_b3 = b3" "cell ?e Col_X_b4 = b4"
      using r w F fe_from_bytes(1-4)[OF b(2) F] fe_from_bytes(5)[OF b(2) F, of b1] b(4)
      by (simp_all add: cell_after_cols[of _ I_sign_extend_byte 2] effects from_u32_as_fe_def fe_from_u32 and_low)
    have eq: "?x = ?u mod 2 ^ 7 + of_bool (bit ?u 7) * 0xffffff80"
      using as_u32_signed_take_bit[of 7 ?u] by simp
    have sum: "?u = ?u mod 2 ^ 7 + of_bool (bit ?u 7) * 0x80 + b2 * 0x100 + b3 * 0x10000 + b4 * 0x1000000"
      using b(1,3) by linarith
    show ?thesis
      by (rule sign_extend_byte_cells[OF trans[OF c(1) sum] trans[OF c(2) eq] c(3-7) mod_bounds_7
            of_bool_cases b(2)])
  qed
  moreover have "reg_val ?e = put_reg (reg_val e) rd (Elem_Binary ?x)" "mem_val ?e = mem_val e"
    by (simp_all add: effects)
  ultimately show ?thesis using eff sign_extend_words(1)[of x] by auto
qed

lemma exec_sign_extend_16_correct:
  assumes F: "2 ^ 32 \<le> modulus F"
    and r: "ready e I_sign_extend_16_bits 2" and regs: "in_u32 r1" "in_u32 rd"
    and vals: "reg_val e r1 = Elem_Binary (uint (x :: u32))"
  shows "\<exists>e'. exec_sign_extend_16_bits F e [Elem_Binary r1, Elem_Binary rd] = Some e' \<and>
    reg_val e' = put_reg (reg_val e) rd (Elem_Binary (uint (scast (ucast x :: 16 word) :: u32))) \<and>
    mem_val e' = mem_val e \<and> (ex_mode e = Witness \<longrightarrow> sign_extend_16_constraints F e')"
proof -
  let ?u = "uint x"
  let ?x = "as_u32 (signed_take_bit 15 ?u)"
  obtain b1 b2 b3 b4 sg where d: "decompose_lower32 ?u = (b1, b2, b3, b4, sg)"
    by (cases "decompose_lower32 ?u")
  note b = u32_bytes[OF d uint_u32_in_u32]
  let ?e = "after_cols F (after_write F (after_read F e I_sign_extend_16_bits 0 0 r1)
      I_sign_extend_16_bits 1 3 rd (Elem_Binary ?x))
      [(Col_tmp1_col, Elem_Binary ?u), (Col_tmp3_col, from_u32_as_fe F ?x),
        (Col_X_b1, from_u32_as_fe F b1), (Col_X_b3, from_u32_as_fe F b3),
        (Col_X_b4, from_u32_as_fe F b4), (Col_Y_7bit, from_u32_as_fe F (b2 AND 0x7f)),
        (Col_Y_15bit, from_u32_as_fe F (?u AND 0x7fff)),
        (Col_wrap_bit, if bit ?u 15 then Elem_Field 1 else Elem_Field 0)]"
  have x: "(if ?u AND 0x8000 \<noteq> 0 then ?u OR 0xFFFF0000 else ?u AND 0xFFFF) = ?x"
    using sign_extend_16_or[of ?u] sign_extend_16_and[of ?u] by (simp only: and_top uint_u32_in_u32) simp
  have eff: "exec_sign_extend_16_bits F e [Elem_Binary r1, Elem_Binary rd] = Some ?e"
    using r regs vals d unfolding exec_sign_extend_16_bits_def
    by (simp add: arg_u_def read_reg_eq[of _ _ 2] write_reg_eq[of _ _ 2]
        ready_set_cols[of _ I_sign_extend_16_bits 2] effects Let_def x del: not_not)
      (simp add: and_top)
  have "sign_extend_16_constraints F ?e" if w: "ex_mode e = Witness"
  proof -
    have c: "cell ?e Col_tmp1_col = ?u" "cell ?e Col_tmp3_col = ?x" "cell ?e Col_Y_7bit = b2 mod 2 ^ 7"
      "cell ?e Col_Y_15bit = ?u mod 2 ^ 15" "cell ?e Col_wrap_bit = of_bool (bit ?u 15)"
      "cell ?e Col_X_b1 = b1" "cell ?e Col_X_b3 = b3" "cell ?e Col_X_b4 = b4"
      using r w F fe_from_bytes(1-4)[OF b(2) F] fe_from_bytes(5)[OF b(2) F, of b2]
        fe_from_bytes(6)[OF b(2) F, of ?u]
      by (simp_all add: cell_after_cols[of _ I_sign_extend_16_bits 2] effects from_u32_as_fe_def
          fe_from_u32 and_low)
    have eq: "?x = ?u mod 2 ^ 15 + of_bool (bit ?u 15) * 0xffff8000"
      using as_u32_signed_take_bit[of 15 ?u] by simp
    have sum: "?u = ?u mod 2 ^ 15 + of_bool (bit ?u 15) * 0x8000 + b3 * 0x10000 + b4 * 0x1000000"
      using b(1,6) by linarith
    show ?thesis
      by (rule sign_extend_16_cells[OF trans[OF c(1) sum] trans[OF c(2) eq] c(3-8) b(5) mod_bounds_7
            of_bool_cases b(2)])
  qed
  moreover have "reg_val ?e = put_reg (reg_val e) rd (Elem_Binary ?x)" "mem_val ?e = mem_val e"
    by (simp_all add: effects)
  ultimately show ?thesis using eff sign_extend_words(2)[of x] by auto
qed

lemma exec_to_signed_correct:
  assumes F: "2 ^ 32 \<le> modulus F"
    and r: "ready e I_to_signed 2" and regs: "in_u32 r1" "in_u32 rd"
    and vals: "reg_val e r1 = Elem_Binary (uint (x :: u32))"
  shows "\<exists>e'. exec_to_signed F e [Elem_Binary r1, Elem_Binary rd] = Some e' \<and>
    reg_val e' = put_reg (reg_val e) rd (Elem_Binary (sint x)) \<and>
    mem_val e' = mem_val e \<and> (ex_mode e = Witness \<longrightarrow> to_signed_constraints F e')"
proof -
  let ?u = "uint x"
  obtain b1 b2 b3 b4 sg where d: "decompose_lower32 ?u = (b1, b2, b3, b4, sg)"
    by (cases "decompose_lower32 ?u")
  note b = u32_bytes[OF d uint_u32_in_u32]
  let ?e = "after_cols F (after_write F (after_read F e I_to_signed 0 0 r1)
      I_to_signed 1 1 rd (Elem_Binary (sint x)))
      [(Col_tmp1_col, Elem_Binary ?u), (Col_tmp3_col, from_i32_as_fe F (sint x)),
        (Col_X_b1, from_u32_as_fe F b1), (Col_X_b2, from_u32_as_fe F b2),
        (Col_X_b3, from_u32_as_fe F b3),
        (Col_wrap_bit, if bit ?u 31 then Elem_Field 1 else Elem_Field 0),
        (Col_Y_7bit, from_u32_as_fe F (b4 AND 0x7f))]"
  have eff: "exec_to_signed F e [Elem_Binary r1, Elem_Binary rd] = Some ?e"
    using r regs vals d unfolding exec_to_signed_def and_top
    by (simp add: arg_u_def read_reg_eq[of _ _ 2] write_reg_eq[of _ _ 2]
        ready_set_cols[of _ I_to_signed 2] effects Let_def sign_extend_words(3) b(8))
  have "to_signed_constraints F ?e" if w: "ex_mode e = Witness"
  proof -
    have c: "cell ?e Col_tmp1_col = ?u" "cell ?e Col_tmp3_col = sint x mod modulus F"
      "cell ?e Col_Y_7bit = b4 mod 2 ^ 7" "cell ?e Col_wrap_bit = of_bool (bit ?u 31)"
      "cell ?e Col_X_b1 = b1" "cell ?e Col_X_b2 = b2" "cell ?e Col_X_b3 = b3"
      using r w F fe_from_bytes(1-4)[OF b(2) F] fe_from_bytes(5)[OF b(2) F, of b4]
      by (simp_all add: cell_after_cols[of _ I_to_signed 2] effects from_u32_as_fe_def from_i32_as_fe_def
          fe_from_u32 and_low) (simp add: fe_from_def)
    have "sint x = ?u mod 2 ^ 31 - of_bool (bit ?u 31) * 2 ^ 31"
      using sign_extend_words(3)[of x] signed_take_bit_mod[of 31 ?u] by (simp add: as_i32_def)
    moreover have "?u = ?u mod 2 ^ 31 + of_bool (bit ?u 31) * 2 ^ 31"
      using mod_Suc_exp[of ?u 31] as_u32_id[OF uint_u32_in_u32, of x] by (simp add: as_u32_def)
    ultimately have eq: "sint x = ?u - of_bool (bit ?u 31) * 0x100000000" by simp
    have sum: "?u = b1 + b2 * 0x100 + b3 * 0x10000 + b4 mod 2 ^ 7 * 0x1000000 + of_bool (bit ?u 31) * 0x80000000"
      using b(1,7) by linarith
    show ?thesis
      by (rule to_signed_cells[OF c(1) trans[OF c(2) arg_cong[OF eq, of "\<lambda>v. v mod modulus F"]]
            c(3-7) sum mod_bounds_7 of_bool_cases b(2)])
  qed
  moreover have "reg_val ?e = put_reg (reg_val e) rd (Elem_Binary (sint x))" "mem_val ?e = mem_val e"
    by (simp_all add: effects)
  ultimately show ?thesis using eff by blast
qed

section \<open>Bitwise operations and shifts\<close>

text \<open>The operation id of the submachine and the result on words.\<close>

fun bitwise_result :: "instruction \<Rightarrow> u32 \<Rightarrow> u32 \<Rightarrow> (u32 \<times> int) option" where
  "bitwise_result I_and x y = Some (x AND y, 0)"
| "bitwise_result I_or x y = Some (x OR y, 1)"
| "bitwise_result I_xor x y = Some (x XOR y, 2)"
| "bitwise_result _ x y = None"

fun shift_result :: "instruction \<Rightarrow> u32 \<Rightarrow> u32 \<Rightarrow> (u32 \<times> int) option" where
  "shift_result I_shl x y = Some (push_bit (unat y) x, 0)"
| "shift_result I_shr x y = Some (drop_bit (unat y) x, 1)"
| "shift_result _ x y = None"

lemma uint_bitwise:
  fixes x y :: u32
  shows "uint x AND uint y = uint (x AND y)" "uint x OR uint y = uint (x OR y)" "uint x XOR uint y = uint (x XOR y)"
  by (simp_all add: unsigned_and_eq unsigned_or_eq unsigned_xor_eq)

lemma uint_shifts:
  fixes x :: u32
  shows "as_u32 (push_bit n (uint x)) = uint (push_bit n x)" "drop_bit n (uint x) = uint (drop_bit n x)"
proof -
  show "as_u32 (push_bit n (uint x)) = uint (push_bit n x)"
    unfolding as_u32_word by (simp add: push_bit_eq_mult)
  show "drop_bit n (uint x) = uint (drop_bit n x)"
    by (simp only: uint_drop_bit_word) (simp add: drop_bit_eq_div)
qed

lemma last_submachine_op:
  assumes "tb_mode (proc e) = Witness"
  shows "last (submachine_ops (tb_trace (proc (call_submachine e m l a x))) m)
    = \<lparr>identity_id = l, lookup_args = a, extra_args = x\<rparr>"
  using assms by (simp add: call_submachine_def submachine_op_def Let_def)

lemma submachine_ops_kept:
  "m \<noteq> m' \<Longrightarrow> submachine_ops (tb_trace (proc (call_submachine e m l a x))) m' = submachine_ops (tb_trace (proc e)) m'"
  "m \<noteq> M_regs \<Longrightarrow> submachine_ops (tb_trace (proc (after_write F e i k off r v))) m = submachine_ops (tb_trace (proc e)) m"
  "submachine_ops (tb_trace (proc (put_col F e c v))) m = submachine_ops (tb_trace (proc e)) m"
  "submachine_ops (tb_trace (proc (after_cols F e cvs))) m = submachine_ops (tb_trace (proc e)) m"
proof -
  show *: "submachine_ops (tb_trace (proc (put_col F e c v))) m = submachine_ops (tb_trace (proc e)) m" for e c v
    by (simp add: put_col_def Let_def)
  show "submachine_ops (tb_trace (proc (after_cols F e cvs))) m = submachine_ops (tb_trace (proc e)) m"
    by (induction cvs arbitrary: e) (auto simp: after_cols_simps *)
qed (auto simp: call_submachine_def submachine_op_def after_write_def Let_def effects)

lemma exec_bitwise_correct:
  assumes F: "2 ^ 32 \<le> modulus F"
    and r: "ready e i 3" "has_link e i M_binary"
    and regs: "in_u32 r1" "in_u32 r2" "in_u32 rd"
    and vals: "reg_val e r1 = Elem_Binary (uint x)" "reg_val e r2 = Elem_Binary v2" "v2 + off = uint y"
    and res: "bitwise_result i x y = Some (z, op)"
  shows "\<exists>e'. exec_bitwise F e i [Elem_Binary r1, Elem_Binary r2, Elem_Binary off, Elem_Binary rd] = Some e' \<and>
    reg_val e' = put_reg (reg_val e) rd (Elem_Binary (uint z)) \<and> mem_val e' = mem_val e \<and>
    (ex_mode e = Witness \<longrightarrow>
       lookup_args (last (submachine_ops (tb_trace (proc e')) M_binary)) = (op, uint x, uint y, uint z) \<and>
       cell e' Col_tmp1_col = uint x \<and> cell e' Col_tmp2_col = fe_from F v2 \<and> cell e' Col_tmp3_col = uint z)"
proof -
  let ?e1 = "after_cols F (after_read F (after_read F e i 0 0 r1) i 1 1 r2)
     [(Col_tmp1_col, Elem_Binary (uint x)), (Col_tmp2_col, Elem_Binary v2)]"
  let ?e2 = "call_submachine (after_link ?e1 i M_binary) M_binary (link_of ?e1 i M_binary 0)
      (fe_from F op, fe_from F (uint x), fe_from F (uint y), fe_from F (uint z)) []"
  let ?e = "after_cols F (after_write F ?e2 i 2 3 rd (Elem_Binary (uint z))) [(Col_tmp3_col, from_u32_as_fe F (uint z))]"
  have i: "i = I_and \<and> z = (x AND y) \<and> op = 0 \<or> i = I_or \<and> z = (x OR y) \<and> op = 1 \<or> i = I_xor \<and> z = (x XOR y) \<and> op = 2"
    using res by (cases i) auto
  have eff: "exec_bitwise F e i [Elem_Binary r1, Elem_Binary r2, Elem_Binary off, Elem_Binary rd] = Some ?e"
    using r regs vals i
    by (elim disjE) (simp_all add: exec_bitwise_def arg_u_def arg_bin_def read_reg_eq[of _ _ 3] write_reg_eq[of _ _ 3]
        ready_set_cols[of _ _ 3] machine_link_eq effects Let_def uint_bitwise)
  have "lookup_args (last (submachine_ops (tb_trace (proc ?e)) M_binary)) = (op, uint x, uint y, uint z)"
    if w: "ex_mode e = Witness"
  proof -
    have m: "tb_mode (proc (after_link ?e1 i M_binary)) = Witness" using r w by (simp add: ready_def effects)
    have "in_u32 op" using i by (auto simp: in_u32_def)
    then show ?thesis
      using F last_submachine_op[OF m] by (simp add: submachine_ops_kept fe_from_u32)
  qed
  moreover have "cell ?e Col_tmp1_col = uint x \<and> cell ?e Col_tmp2_col = fe_from F v2 \<and> cell ?e Col_tmp3_col = uint z"
    if w: "ex_mode e = Witness"
    using r w F by (simp add: cell_after_cols[of _ i 3] effects from_u32_as_fe_def fe_from_u32)
  moreover have "reg_val ?e = put_reg (reg_val e) rd (Elem_Binary (uint z))" "mem_val ?e = mem_val e"
    by (simp_all add: effects)
  ultimately show ?thesis using eff by blast
qed

lemma exec_shift_correct:
  assumes F: "2 ^ 32 \<le> modulus F"
    and r: "ready e i 3" "has_link e i M_shift"
    and regs: "in_u32 r1" "in_u32 r2" "in_u32 rd"
    and vals: "reg_val e r1 = Elem_Binary (uint x)" "reg_val e r2 = Elem_Binary v2" "v2 + off = uint y"
    and y: "y < 32"
    and res: "shift_result i x y = Some (z, op)"
  shows "\<exists>e'. exec_shift F e i [Elem_Binary r1, Elem_Binary r2, Elem_Binary off, Elem_Binary rd] = Some e' \<and>
    reg_val e' = put_reg (reg_val e) rd (Elem_Binary (uint z)) \<and> mem_val e' = mem_val e \<and>
    (ex_mode e = Witness \<longrightarrow>
       lookup_args (last (submachine_ops (tb_trace (proc e')) M_shift)) = (op, uint x, uint y, uint z) \<and>
       cell e' Col_tmp1_col = uint x \<and> cell e' Col_tmp2_col = fe_from F v2 \<and> cell e' Col_tmp3_col = uint z)"
proof -
  let ?e1 = "after_read F (after_read F e i 0 0 r1) i 1 1 r2"
  let ?e2 = "call_submachine (after_link ?e1 i M_shift) M_shift (link_of ?e1 i M_shift 0)
      (fe_from F op, fe_from F (uint x), fe_from F (uint y), fe_from F (uint z)) []"
  let ?e = "after_cols F (after_write F ?e2 i 2 3 rd (Elem_Binary (uint z)))
     [(Col_tmp1_col, Elem_Binary (uint x)), (Col_tmp2_col, Elem_Binary v2), (Col_tmp3_col, from_u32_as_fe F (uint z))]"
  have i: "i = I_shl \<and> z = push_bit (unat y) x \<and> op = 0 \<or> i = I_shr \<and> z = drop_bit (unat y) x \<and> op = 1"
    using res by (cases i) auto
  have y32: "uint y < 32" using y by (simp add: word_less_def)
  have eff: "exec_shift F e i [Elem_Binary r1, Elem_Binary r2, Elem_Binary off, Elem_Binary rd] = Some ?e"
    using r regs vals i y32
    by (elim disjE) (simp_all add: exec_shift_def arg_u_def arg_bin_def read_reg_eq[of _ _ 3] write_reg_eq[of _ _ 3]
        ready_set_cols[of _ _ 3] machine_link_eq effects Let_def uint_shifts)
  have "lookup_args (last (submachine_ops (tb_trace (proc ?e)) M_shift)) = (op, uint x, uint y, uint z)"
    if w: "ex_mode e = Witness"
  proof -
    have m: "tb_mode (proc (after_link ?e1 i M_shift)) = Witness" using r w by (simp add: ready_def effects)
    have "in_u32 op" using i by (auto simp: in_u32_def)
    then show ?thesis
      using F last_submachine_op[OF m] by (simp add: submachine_ops_kept fe_from_u32)
  qed
  moreover have "cell ?e Col_tmp1_col = uint x \<and> cell ?e Col_tmp2_col = fe_from F v2 \<and> cell ?e Col_tmp3_col = uint z"
    if w: "ex_mode e = Witness"
    using r w F by (simp add: cell_after_cols[of _ i 3] effects from_u32_as_fe_def fe_from_u32)
  moreover have "reg_val ?e = put_reg (reg_val e) rd (Elem_Binary (uint z))" "mem_val ?e = mem_val e"
    by (simp_all add: effects)
  ultimately show ?thesis using eff by blast
qed

end
