(* ===== verification/Riscv_Control.thy ===== *)
theory Riscv_Control
  imports Riscv_Semantics
begin

text \<open>
  Control flow and memory instructions of the RISC-V executor: the branches move the program
  counter exactly when their condition holds, stores and loads access the memory word of the
  wrapped address, and the columns of the row satisfy the constraints of \<open>riscv_gl.asm\<close>.
\<close>

section \<open>Effects of jumps and memory accesses\<close>

definition after_jump :: "executor \<Rightarrow> int \<Rightarrow> executor" where
  "after_jump e l = e\<lparr>proc := (proc e)\<lparr>
     next_statement_line := batch_to_line_map (proc e) ! nat l,
     tb_regs := (tb_regs (proc e))[pc_idx (proc e) := Elem_Binary l]\<rparr>\<rparr>"

text \<open>A batch number that can be jumped to.\<close>

definition jump_target :: "executor \<Rightarrow> int \<Rightarrow> bool" where
  "jump_target e l \<longleftrightarrow> in_u32 l \<and> nat l < length (batch_to_line_map (proc e)) \<and>
     pc_idx (proc e) < length (tb_regs (proc e))"

lemma jump_to_eq: "jump_target e l \<Longrightarrow> jump_to F e (Elem_Binary l) = Some (after_jump e l)"
  by (simp add: jump_target_def jump_to_def set_pc_def set_reg_idx_def after_jump_def vec_get_def vec_set_def)

lemma jump_target_effects [effects]:
  "jump_target (after_read F e i k off r) l = jump_target e l"
  "jump_target (after_write F e i k off r v) l = jump_target e l"
  "jump_target (after_cols F e cvs) l = jump_target e l"
  by (simp_all add: jump_target_def effects)

lemma after_jump_sel [effects]:
  "ex_step (after_jump e l) = ex_step e" "ex_mode (after_jump e l) = ex_mode e"
  "link_entries (after_jump e l) i m = link_entries e i m"
  "tb_mode (proc (after_jump e l)) = tb_mode (proc e)"
  "reg_mem (proc (after_jump e l)) = reg_mem (proc e)"
  "tb_mem (proc (after_jump e l)) = tb_mem (proc e)"
  "curr_pc (proc (after_jump e l)) = curr_pc (proc e)"
  "tb_trace (proc (after_jump e l)) = tb_trace (proc e)"
  "pc_idx (proc (after_jump e l)) = pc_idx (proc e)"
  by (simp_all add: after_jump_def link_entries_def split: option.split)

lemma after_jump_effects [effects]:
  "reg_val (after_jump e l) = reg_val e" "mem_val (after_jump e l) = mem_val e"
  "cell (after_jump e l) = cell e" "ready (after_jump e l) i n = ready e i n"
  by (auto simp: mem_val_def cell_def ready_def fun_eq_iff effects intro!: reg_val_cong fun_cong[of "reg_val _"])

lemma get_next_pc_after_jump:
  "jump_target e l \<Longrightarrow> get_next_pc (proc (after_jump e l)) = Some (Elem_Binary l)"
  by (simp add: get_next_pc_def after_jump_def jump_target_def vec_get_def)

lemma get_next_pc_effects [effects]:
  "get_next_pc (proc (after_read F e i k off r)) = get_next_pc (proc e)"
  "get_next_pc (proc (after_write F e i k off r v)) = get_next_pc (proc e)"
  "get_next_pc (proc (after_cols F e cvs)) = get_next_pc (proc e)"
  by (simp_all add: get_next_pc_def effects)

text \<open>The jump of a branch, taken or not.\<close>

definition branch :: "bool \<Rightarrow> executor \<Rightarrow> int \<Rightarrow> executor" where
  "branch b e l = (if b then after_jump e l else e)"

lemma branch_effects [effects]:
  "reg_val (branch b e l) = reg_val e" "mem_val (branch b e l) = mem_val e" "cell (branch b e l) = cell e"
  "ready (branch b e l) i n = ready e i n" "ex_mode (branch b e l) = ex_mode e"
  "ex_step (branch b e l) = ex_step e" "link_entries (branch b e l) i m = link_entries e i m"
  by (simp_all add: branch_def effects)

lemma get_next_pc_branch:
  "jump_target e l \<Longrightarrow>
    get_next_pc (proc (branch b e l)) = (if b then Some (Elem_Binary l) else get_next_pc (proc e))"
  by (simp add: branch_def get_next_pc_after_jump)

lemma mem_write_sel [effects]:
  "ex_step (mem_write F e a v s l) = ex_step e" "ex_mode (mem_write F e a v s l) = ex_mode e"
  "link_entries (mem_write F e a v s l) i m = link_entries e i m"
  "tb_mode (proc (mem_write F e a v s l)) = tb_mode (proc e)"
  "reg_mem (proc (mem_write F e a v s l)) = reg_mem (proc e)"
  "known_cols (tb_trace (proc (mem_write F e a v s l))) = known_cols (tb_trace (proc e))"
  "tb_regs (proc (mem_write F e a v s l)) = tb_regs (proc e)"
  "pc_idx (proc (mem_write F e a v s l)) = pc_idx (proc e)"
  by (simp_all add: mem_write_def set_mem_def submachine_op_def link_entries_def Let_def split: option.split)

lemma mem_write_effects [effects]:
  "reg_val (mem_write F e a v s l) = reg_val e" "cell (mem_write F e a v s l) = cell e"
  "ready (mem_write F e a v s l) i n = ready e i n"
  "mem_val (mem_write F e a v s l) = (mem_val e)(a := v)"
  "get_next_pc (proc (mem_write F e a v s l)) = get_next_pc (proc e)"
  by (auto simp: cell_def ready_def fun_eq_iff effects get_next_pc_def intro!: reg_val_cong fun_cong[of "reg_val _"])
    (auto simp: mem_val_def mem_write_def set_mem_def submachine_op_def Let_def)

definition after_mem_read :: "field_desc \<Rightarrow> executor \<Rightarrow> int \<Rightarrow> int \<Rightarrow> nat \<Rightarrow> executor" where
  "after_mem_read F e a s l = snd (mem_read F e a s l)"

lemma mem_read_eq: "mem_read F e a s l = (mem_val e a, after_mem_read F e a s l)"
  by (simp add: after_mem_read_def mem_read_def get_mem_def mem_val_def Let_def)

lemma after_mem_read_sel [effects]:
  "ex_step (after_mem_read F e a s l) = ex_step e" "ex_mode (after_mem_read F e a s l) = ex_mode e"
  "link_entries (after_mem_read F e a s l) i m = link_entries e i m"
  "tb_mode (proc (after_mem_read F e a s l)) = tb_mode (proc e)"
  "reg_mem (proc (after_mem_read F e a s l)) = reg_mem (proc e)"
  "tb_mem (proc (after_mem_read F e a s l)) = tb_mem (proc e)"
  "known_cols (tb_trace (proc (after_mem_read F e a s l))) = known_cols (tb_trace (proc e))"
  "tb_regs (proc (after_mem_read F e a s l)) = tb_regs (proc e)"
  "pc_idx (proc (after_mem_read F e a s l)) = pc_idx (proc e)"
  by (simp_all add: after_mem_read_def mem_read_def get_mem_def submachine_op_def link_entries_def Let_def
      split: option.split)

lemma after_mem_read_effects [effects]:
  "reg_val (after_mem_read F e a s l) = reg_val e" "cell (after_mem_read F e a s l) = cell e"
  "ready (after_mem_read F e a s l) i n = ready e i n" "mem_val (after_mem_read F e a s l) = mem_val e"
  "get_next_pc (proc (after_mem_read F e a s l)) = get_next_pc (proc e)"
  by (auto simp: cell_def ready_def mem_val_def get_next_pc_def fun_eq_iff effects
      intro!: reg_val_cong fun_cong[of "reg_val _"])

section \<open>Branches\<close>

text \<open>The zero test on a difference of registers.\<close>

lemma difference_zero_test:
  assumes "\<bar>v\<bar> < modulus F"
  shows "elem_is_zero (Elem_Binary v) \<longleftrightarrow> into_fe F (Elem_Binary v) = 0"
proof -
  have "v = 0" if "modulus F dvd v"
    using dvd_imp_le_int[OF _ that] assms by (cases "v = 0") auto
  then show ?thesis by (auto simp: fe_from_def mod_eq_0_iff_dvd)
qed

lemma zero_test_after_cols:
  assumes F: "field_element F" and r: "ready e i n" "ex_mode e = Witness"
    and v: "\<bar>v\<bar> < modulus F" and cvs: "Col_instr I_keccakf \<notin> fst ` set (pre @ post)"
    and post: "\<forall>c \<in> {Col_XX, Col_XXIsZero, Col_XX_inv}. c \<notin> fst ` set post"
  shows "zero_test_constraints F (after_cols F e (pre @ zero_test_cols F (Elem_Binary v) @ post)) v"
proof -
  let ?cols = "pre @ zero_test_cols F (Elem_Binary v) @ post"
  let ?e = "after_cols F e ?cols"
  have kn: "Col_instr I_keccakf \<notin> fst ` set ?cols" using cvs by (auto simp: zero_test_cols_def)
  have cell: "cell ?e c = (case map_of (rev ?cols) c of Some v \<Rightarrow> into_fe F v | None \<Rightarrow> cell e c)" for c
    by (rule cell_after_cols[OF r kn])
  have nopost: "map_of (rev post) c = None" if "c \<in> {Col_XX, Col_XXIsZero, Col_XX_inv}" for c
    unfolding map_of_eq_None_iff set_rev using that post by blast
  have c: "cell ?e Col_XX = into_fe F (Elem_Binary v)"
    "cell ?e Col_XXIsZero = (if elem_is_zero (Elem_Binary v) then 1 else 0)"
    "\<not> elem_is_zero (Elem_Binary v) \<longrightarrow> cell ?e Col_XX_inv = the (fe_div F 1 (into_fe F (Elem_Binary v)))"
    by (simp_all only: cell) (simp_all add: zero_test_cols_def from_bool_as_fe_def nopost map_add_def)
  have "zero_test_constraints F ?e (into_fe F (Elem_Binary v))"
    using zero_test_cells[OF F _ difference_zero_test[OF v] c] field_element.ops_canonical(5)[OF F] by simp
  then show ?thesis
    by (simp add: zero_test_constraints_def field_eq_def fe_from_def)
qed

lemma exec_branch_nonzero_correct:
  assumes F: "field_element F" and r: "ready e I_branch_if_diff_nonzero 2"
    and regs: "in_u32 r1" "in_u32 r2"
    and vals: "reg_val e r1 = Elem_Binary a" "reg_val e r2 = Elem_Binary b" "in_i64 (a - b)" "\<bar>a - b\<bar> < modulus F"
    and l: "jump_target e l"
  shows "\<exists>e'. exec_branch_if_diff_nonzero F e [Elem_Binary r1, Elem_Binary r2, Elem_Binary l] = Some e' \<and>
    get_next_pc (proc e') = (if a \<noteq> b then Some (Elem_Binary l) else get_next_pc (proc e)) \<and>
    reg_val e' = reg_val e \<and> mem_val e' = mem_val e \<and>
    (ex_mode e = Witness \<longrightarrow> zero_test_constraints F e' (a - b))"
proof -
  let ?i = "I_branch_if_diff_nonzero"
  let ?v = "Elem_Binary (a - b)"
  let ?e1 = "branch (a \<noteq> b) (after_read F (after_read F e ?i 0 0 r1) ?i 1 1 r2) l"
  let ?e = "after_cols F ?e1 ([(Col_tmp1_col, Elem_Binary a), (Col_tmp2_col, Elem_Binary b)]
     @ zero_test_cols F ?v @ [(Col_instr_branch_if_diff_nonzero_param_l, Elem_Binary l)])"
  have eff: "exec_branch_if_diff_nonzero F e [Elem_Binary r1, Elem_Binary r2, Elem_Binary l] = Some ?e"
    using r regs vals l
    by (simp add: exec_branch_if_diff_nonzero_def arg_u_def read_reg_eq[of _ _ 2] effects
        ready_set_cols[of _ ?i 2] set_zero_test_eq[OF _ difference_zero_test, of _ ?i 2] after_cols_append
        jump_to_eq branch_def)
  have "zero_test_constraints F ?e (a - b)" if w: "ex_mode e = Witness"
    using r w vals(4) by (intro zero_test_after_cols[OF F, of _ ?i 2]) (auto simp: effects)
  moreover have "get_next_pc (proc ?e) = (if a \<noteq> b then Some (Elem_Binary l) else get_next_pc (proc e))"
    using l by (simp add: effects get_next_pc_branch)
  moreover have "reg_val ?e = reg_val e" "mem_val ?e = mem_val e" by (simp_all add: effects)
  ultimately show ?thesis using eff by blast
qed

lemma exec_branch_equal_correct:
  assumes F: "field_element F" and r: "ready e I_branch_if_diff_equal 2"
    and regs: "in_u32 r1" "in_u32 r2"
    and vals: "reg_val e r1 = Elem_Binary a" "reg_val e r2 = Elem_Binary b" "in_i64 (a - b)"
      "in_i64 (a - b - off)" "\<bar>a - b - off\<bar> < modulus F"
    and l: "jump_target e l"
  shows "\<exists>e'. exec_branch_if_diff_equal F e [Elem_Binary r1, Elem_Binary r2, Elem_Binary off, Elem_Binary l] = Some e' \<and>
    get_next_pc (proc e') = (if a - b = off then Some (Elem_Binary l) else get_next_pc (proc e)) \<and>
    reg_val e' = reg_val e \<and> mem_val e' = mem_val e \<and>
    (ex_mode e = Witness \<longrightarrow> zero_test_constraints F e' (a - b - off))"
proof -
  let ?i = "I_branch_if_diff_equal"
  let ?v = "Elem_Binary (a - b - off)"
  let ?e1 = "branch (a - b = off) (after_read F (after_read F e ?i 0 0 r1) ?i 1 1 r2) l"
  let ?e = "after_cols F ?e1 ([(Col_tmp1_col, Elem_Binary a), (Col_tmp2_col, Elem_Binary b)]
     @ zero_test_cols F ?v @ [(Col_instr_branch_if_diff_equal_param_l, Elem_Binary l)])"
  have eff: "exec_branch_if_diff_equal F e [Elem_Binary r1, Elem_Binary r2, Elem_Binary off, Elem_Binary l] = Some ?e"
    using r regs vals l
    by (simp add: exec_branch_if_diff_equal_def arg_u_def read_reg_eq[of _ _ 2] effects
        ready_set_cols[of _ ?i 2] set_zero_test_eq[OF _ difference_zero_test, of _ ?i 2] after_cols_append
        jump_to_eq branch_def)
  have "zero_test_constraints F ?e (a - b - off)" if w: "ex_mode e = Witness"
    using r w vals(5) by (intro zero_test_after_cols[OF F, of _ ?i 2]) (auto simp: effects)
  moreover have "get_next_pc (proc ?e) = (if a - b = off then Some (Elem_Binary l) else get_next_pc (proc e))"
    using l by (simp add: effects get_next_pc_branch)
  moreover have "reg_val ?e = reg_val e" "mem_val ?e = mem_val e" by (simp_all add: effects)
  ultimately show ?thesis using eff by blast
qed

definition greater_than_constraints :: "field_desc \<Rightarrow> executor \<Rightarrow> int \<Rightarrow> bool" where
  "greater_than_constraints F e z \<longleftrightarrow>
     field_eq F (cell e Col_tmp1_col - cell e Col_tmp2_col - z + 2 ^ 32 - 1)
       (X_word e + cell e Col_wrap_bit * 2 ^ 32) \<and> X_bytes e \<and> bool_cell e Col_wrap_bit"

lemma greater_than_cells:
  assumes F: "2 ^ 33 \<le> modulus F" and V: "- (2 ^ 32) < a - b - z" "a - b - z < 2 ^ 32"
    and d: "decompose_lower32 (a - b - z + 0xffffffff) = (b1, b2, b3, b4, sg)"
    and c: "cell e Col_tmp1_col = fe_from F a" "cell e Col_tmp2_col = fe_from F b"
      "cell e Col_wrap_bit = (if a - b - z > 0 then 1 else 0)"
      "cell e Col_X_b1 = fe_from F b1" "cell e Col_X_b2 = fe_from F b2"
      "cell e Col_X_b3 = fe_from F b3" "cell e Col_X_b4 = fe_from F b4"
  shows "greater_than_constraints F e z"
proof -
  let ?v = "a - b - z + 0xffffffff"
  have F': "2 ^ 32 \<le> modulus F" using F by simp
  have v: "0 \<le> ?v" "?v < 2 ^ 33" using V by simp_all
  have "?v > 0xffffffff \<longleftrightarrow> a - b - z > 0" by linarith
  then have split: "?v = as_u32 ?v + (if a - b - z > 0 then 1 else 0) * 2 ^ 32"
    using carry_split[OF v] by simp
  have "(fe_from F a - fe_from F b) mod modulus F = (a - b) mod modulus F"
    by (simp add: fe_from_def mod_diff_eq)
  from mod_add_cong[OF this refl, of "0xffffffff - z"]
  have "(cell e Col_tmp1_col - cell e Col_tmp2_col - z + 2 ^ 32 - 1) mod modulus F = ?v mod modulus F"
    by (simp add: c algebra_simps)
  then show ?thesis
    using word_cells_decompose[OF d F' c(4-7)] split c(3)
    by (simp add: greater_than_constraints_def X_bytes_def bool_cell_def field_eq_def)
qed

lemma add_max_lower_bytes:
  assumes "2 ^ 33 \<le> modulus F" "64 \<le> NUM_BITS F" "- (2 ^ 32) < v" "v < 2 ^ 32"
  shows "elem_add F (Elem_Binary v) (from_u32_as_fe F 0xffffffff) = Some (Elem_Field (v + 0xffffffff))"
    "as_i64_from_lower_bytes F (Elem_Field (v + 0xffffffff)) = Some (v + 0xffffffff)"
proof -
  have v: "0 \<le> v + 0xffffffff" "v + 0xffffffff < 2 ^ 33" using assms(3,4) by simp_all
  have "fe_add F (fe_from F v) (fe_from F 0xffffffff) = (v + 0xffffffff) mod modulus F"
    by (simp add: fe_add_def fe_from_def mod_add_eq)
  also have "\<dots> = v + 0xffffffff"
    using v assms(1) by (intro mod_pos_pos_trivial) linarith+
  finally show "elem_add F (Elem_Binary v) (from_u32_as_fe F 0xffffffff) = Some (Elem_Field (v + 0xffffffff))"
    by (simp add: from_u32_as_fe_def)
  show "as_i64_from_lower_bytes F (Elem_Field (v + 0xffffffff)) = Some (v + 0xffffffff)"
    using v assms(2) by (simp add: as_i64_def signed_take_bit_int_eq_self)
qed

lemma exec_branch_greater_correct:
  assumes F: "2 ^ 33 \<le> modulus F" "64 \<le> NUM_BITS F" and r: "ready e I_branch_if_diff_greater_than 2"
    and regs: "in_u32 r1" "in_u32 r2"
    and vals: "reg_val e r1 = Elem_Binary a" "reg_val e r2 = Elem_Binary b" "in_i64 (a - b)"
    and V: "- (2 ^ 32) < a - b - off" "a - b - off < 2 ^ 32"
    and l: "jump_target e l"
  shows "\<exists>e'. exec_branch_if_diff_greater_than F e
        [Elem_Binary r1, Elem_Binary r2, Elem_Binary off, Elem_Binary l] = Some e' \<and>
    get_next_pc (proc e') = (if a - b > off then Some (Elem_Binary l) else get_next_pc (proc e)) \<and>
    reg_val e' = reg_val e \<and> mem_val e' = mem_val e \<and>
    (ex_mode e = Witness \<longrightarrow> greater_than_constraints F e' off)"
proof -
  let ?i = "I_branch_if_diff_greater_than"
  obtain b1 b2 b3 b4 sg where d: "decompose_lower32 (a - b - off + 0xffffffff) = (b1, b2, b3, b4, sg)"
    by (cases "decompose_lower32 (a - b - off + 0xffffffff)")
  note add = add_max_lower_bytes[OF F V]
  have i64: "in_i64 (a - b - off)" using V by (simp add: in_i64_def)
  let ?e1 = "branch (0 < a - b - off) (after_read F (after_read F e ?i 0 0 r1) ?i 1 1 r2) l"
  let ?e = "after_cols F ?e1
       [(Col_tmp1_col, Elem_Binary a), (Col_tmp2_col, Elem_Binary b),
        (Col_instr_branch_if_diff_greater_than_param_l, Elem_Binary l),
        (Col_X_b1, from_u32_as_fe F b1), (Col_X_b2, from_u32_as_fe F b2),
        (Col_X_b3, from_u32_as_fe F b3), (Col_X_b4, from_u32_as_fe F b4),
        (Col_wrap_bit, if 0 < a - b - off then Elem_Field 1 else Elem_Field 0)]"
  have eff: "exec_branch_if_diff_greater_than F e
        [Elem_Binary r1, Elem_Binary r2, Elem_Binary off, Elem_Binary l] = Some ?e"
    using r regs vals i64 l d add
    by (simp add: exec_branch_if_diff_greater_than_def arg_u_def read_reg_eq[of _ _ 2] effects
        ready_set_cols[of _ ?i 2] jump_to_eq branch_def del: as_i64_from_lower_bytes.simps)
  have "greater_than_constraints F ?e off" if w: "ex_mode e = Witness"
  proof (rule greater_than_cells[OF F(1) V d])
    show "cell ?e Col_wrap_bit = (if 0 < a - b - off then 1 else 0)"
      using r w by (simp add: cell_after_cols[of _ ?i 2] effects)
  qed (use r w in \<open>simp_all add: cell_after_cols[of _ ?i 2] effects from_u32_as_fe_def\<close>)
  moreover have "get_next_pc (proc ?e) = (if a - b > off then Some (Elem_Binary l) else get_next_pc (proc e))"
    using l by (simp add: effects get_next_pc_branch)
  moreover have "reg_val ?e = reg_val e" "mem_val ?e = mem_val e" by (simp_all add: effects)
  ultimately show ?thesis using eff by blast
qed

section \<open>Loads and stores\<close>

definition mstore_constraints :: "field_desc \<Rightarrow> executor \<Rightarrow> int \<Rightarrow> bool" where
  "mstore_constraints F e z \<longleftrightarrow>
     field_eq F (cell e Col_tmp1_col - cell e Col_tmp2_col + z)
       (X_word e + cell e Col_wrap_bit * 2 ^ 32) \<and> X_bytes e \<and> bool_cell e Col_wrap_bit"

definition mload_constraints :: "field_desc \<Rightarrow> executor \<Rightarrow> int \<Rightarrow> bool" where
  "mload_constraints F e y \<longleftrightarrow>
     field_eq F (cell e Col_tmp1_col + y)
       (cell e Col_wrap_bit * 2 ^ 32 + cell e Col_X_b4 * 0x1000000 + cell e Col_X_b3 * 0x10000
         + cell e Col_X_b2 * 0x100 + cell e Col_X_b1 * 4 + cell e Col_tmp4_col) \<and>
     byte_cells e [Col_X_b2, Col_X_b3, Col_X_b4] \<and> 0 \<le> cell e Col_X_b1 \<and> cell e Col_X_b1 < 64 \<and>
     0 \<le> cell e Col_tmp4_col \<and> cell e Col_tmp4_col < 4 \<and> bool_cell e Col_wrap_bit"

text \<open>The address of a word: the lower 32 bits rounded down to a multiple of four.\<close>

definition word_address :: "int \<Rightarrow> int" where
  "word_address addr = as_u32 addr - as_u32 addr mod 4"

lemma and_push_mask: "(u :: int) AND push_bit m (mask n) = push_bit m (take_bit n (drop_bit m u))"
  by (rule bit_eqI) (auto simp: bit_simps)

lemma word_address_and: "as_u32 addr AND 0xfffffffc = word_address addr"
proof -
  have u: "0 \<le> as_u32 addr" "as_u32 addr < 2 ^ 32" using in_u32_as_u32[of addr] by (simp_all add: in_u32_def)
  have "(0xfffffffc :: int) = push_bit 2 (mask 30)" by (simp add: push_bit_eq_mult mask_eq_exp_minus_1)
  then have "as_u32 addr AND 0xfffffffc = push_bit 2 (take_bit 30 (drop_bit 2 (as_u32 addr)))"
    by (simp only: and_push_mask)
  also have "drop_bit 2 (as_u32 addr) = as_u32 addr div 4" by (simp add: drop_bit_eq_div)
  also have "take_bit 30 (as_u32 addr div 4) = as_u32 addr div 4"
    using u by (simp add: take_bit_int_eq_self_iff div_less_iff_less_mult pos_imp_zdiv_nonneg_iff)
  finally show ?thesis by (simp add: word_address_def push_bit_eq_mult minus_mod_eq_div_mult)
qed

lemma exec_mstore_correct:
  assumes F: "2 ^ 32 \<le> modulus F" and r: "ready e i 3" "has_link e i M_memory"
    and regs: "in_u32 r1" "in_u32 r2" "in_u32 r3"
    and vals: "reg_val e r1 = Elem_Binary a" "reg_val e r2 = Elem_Binary b"
      "reg_val e r3 = Elem_Binary (uint (x :: u32))" "in_i64 (a - b)"
    and addr: "0 \<le> a - b + off" "a - b + off < 2 ^ 33" "4 dvd a - b + off"
  shows "\<exists>e'. exec_mstore F e i [Elem_Binary r1, Elem_Binary r2, Elem_Binary off, Elem_Binary r3] = Some e' \<and>
    mem_val e' = (mem_val e)(as_u32 (a - b + off) := uint x) \<and> reg_val e' = reg_val e \<and>
    get_next_pc (proc e') = get_next_pc (proc e) \<and>
    (ex_mode e = Witness \<longrightarrow> mstore_constraints F e' off)"
proof -
  let ?a = "a - b + off"
  obtain b1 b2 b3 b4 sg where d: "decompose_lower32 (as_u32 ?a) = (b1, b2, b3, b4, sg)"
    by (cases "decompose_lower32 (as_u32 ?a)")
  have i64: "in_i64 ?a" using addr by (simp add: in_i64_def)
  have s3: "in_u32 (ex_step e + 3)" using r(1) by (simp add: ready_def in_u32_def)
  have m4: "?a smod 4 = 0" using addr(1,3) by (simp add: signed_modulo_int_def)
  let ?e1 = "after_read F (after_read F (after_read F e i 0 0 r1) i 1 1 r2) i 2 2 r3"
  let ?wrap = "(Col_wrap_bit, if ?a > 0xffffffff then Elem_Field 1 else Elem_Field 0)"
  let ?e2 = "after_cols F ?e1 [?wrap]"
  let ?cols = "[(Col_tmp1_col, Elem_Binary a), (Col_tmp2_col, Elem_Binary b), (Col_tmp3_col, Elem_Binary (uint x)),
     (Col_X_b1, from_u32_as_fe F b1), (Col_X_b2, from_u32_as_fe F b2),
     (Col_X_b3, from_u32_as_fe F b3), (Col_X_b4, from_u32_as_fe F b4)]"
  let ?e = "after_cols F (mem_write F (after_link ?e2 i M_memory) (as_u32 ?a) (uint x) (ex_step e + 3)
       (link_of ?e2 i M_memory 0)) ?cols"
  have eff: "exec_mstore F e i [Elem_Binary r1, Elem_Binary r2, Elem_Binary off, Elem_Binary r3] = Some ?e"
    using r regs vals i64 d s3 addr(1) m4
    by (simp add: exec_mstore_def arg_u_def arg_bin_def read_reg_eq[of _ _ 3] effects Let_def
        ready_set_cols[of _ i 3] machine_link_eq)
  have "mstore_constraints F ?e off" if w: "ex_mode e = Witness"
  proof -
    have c: "cell ?e Col_tmp1_col = fe_from F a" "cell ?e Col_tmp2_col = fe_from F b"
      "cell ?e Col_wrap_bit = (if ?a > 0xffffffff then 1 else 0)"
      "cell ?e Col_X_b1 = fe_from F b1" "cell ?e Col_X_b2 = fe_from F b2"
      "cell ?e Col_X_b3 = fe_from F b3" "cell ?e Col_X_b4 = fe_from F b4"
      using r w by (simp_all add: cell_after_cols[of _ i 3] effects from_u32_as_fe_def)
    have "(fe_from F a - fe_from F b) mod modulus F = (a - b) mod modulus F"
      by (simp add: fe_from_def mod_diff_eq)
    from mod_add_cong[OF this refl, of off]
    have "(cell ?e Col_tmp1_col - cell ?e Col_tmp2_col + off) mod modulus F = ?a mod modulus F"
      by (simp only: c)
    then show ?thesis
      using word_cells_decompose[OF d F c(4-7)] carry_split[OF addr(1,2)] c(3)
      by (simp add: mstore_constraints_def X_bytes_def bool_cell_def field_eq_def)
  qed
  moreover have "reg_val ?e = reg_val e" "mem_val ?e = (mem_val e)(as_u32 ?a := uint x)"
    "get_next_pc (proc ?e) = get_next_pc (proc e)"
    by (simp_all add: effects)
  ultimately show ?thesis using eff by blast
qed

lemma mload_cells:
  assumes "field_eq F (cell e Col_tmp1_col + y)
      (w * 2 ^ 32 + b4 * 0x1000000 + b3 * 0x10000 + b2 * 0x100 + q * 4 + m)"
    and "cell e Col_tmp4_col = m" "cell e Col_X_b1 = q" "cell e Col_X_b2 = b2" "cell e Col_X_b3 = b3"
    and "cell e Col_X_b4 = b4" "cell e Col_wrap_bit = w"
    and "\<forall>b \<in> {b1, b2, b3, b4}. 0 \<le> b \<and> b < 256" "0 \<le> q" "q < 64" "0 \<le> m" "m < 4" "w = 0 \<or> w = 1"
  shows "mload_constraints F e y"
  using assms by (simp add: mload_constraints_def byte_cells_def bool_cell_def)

lemma exec_mload_correct:
  assumes F: "2 ^ 32 \<le> modulus F" and r: "ready e I_mload 3" "has_link e I_mload M_memory"
    and regs: "in_u32 r1" "in_u32 rd" "in_u32 rr"
    and vals: "reg_val e r1 = Elem_Binary a"
    and addr: "0 \<le> a + off" "a + off < 2 ^ 33"
  shows "\<exists>e'. exec_mload F e [Elem_Binary r1, Elem_Binary off, Elem_Binary rd, Elem_Binary rr] = Some e' \<and>
    reg_val e' = put_reg (put_reg (reg_val e) rd (Elem_Binary (mem_val e (word_address (a + off)))))
      rr (Elem_Binary ((a + off) mod 4)) \<and>
    mem_val e' = mem_val e \<and> (ex_mode e = Witness \<longrightarrow> mload_constraints F e' off)"
proof -
  let ?a = "a + off" and ?i = "I_mload"
  obtain b1 b2 b3 b4 sg where d: "decompose_lower32 ?a = (b1, b2, b3, b4, sg)"
    by (cases "decompose_lower32 ?a")
  have i64: "in_i64 ?a" using addr by (simp add: in_i64_def)
  have s1: "in_u32 (ex_step e + 1)" using r(1) by (simp add: ready_def in_u32_def)
  have m4: "?a smod 4 = ?a mod 4"
    using addr(1) by (cases "?a = 0") (simp_all add: signed_modulo_int_def sgn_if)
  let ?v = "mem_val e (word_address ?a)"
  let ?e1 = "after_read F e ?i 0 0 r1"
  let ?e2 = "after_mem_read F (after_link ?e1 ?i M_memory) (word_address ?a) (ex_step e + 1) (link_of ?e1 ?i M_memory 0)"
  let ?e3 = "after_write F (after_write F ?e2 ?i 1 2 rd (Elem_Binary ?v)) ?i 2 3 rr (Elem_Binary (?a mod 4))"
  let ?w = "as_u32 (drop_bit 32 (as_u64 ?a) AND 1)"
  let ?e = "after_cols F ?e3
       [(Col_tmp1_col, Elem_Binary a), (Col_tmp3_col, from_u32_as_fe F ?v),
        (Col_tmp4_col, from_u32_as_fe F (as_u32 (?a mod 4))),
        (Col_X_b1, from_u32_as_fe F (b1 div 4)), (Col_X_b2, from_u32_as_fe F b2),
        (Col_X_b3, from_u32_as_fe F b3), (Col_X_b4, from_u32_as_fe F b4),
        (Col_wrap_bit, from_u32_as_fe F ?w)]"
  have eff: "exec_mload F e [Elem_Binary r1, Elem_Binary off, Elem_Binary rd, Elem_Binary rr] = Some ?e"
    using r regs vals i64 d s1
    by (simp add: exec_mload_def arg_u_def arg_bin_def read_reg_eq[of _ _ 3] write_reg_eq[of _ _ 3] effects Let_def
        ready_set_cols[of _ ?i 3] machine_link_eq mem_read_eq word_address_and m4)
  have "mload_constraints F ?e off" if w: "ex_mode e = Witness"
  proof -
    have b: "\<forall>b \<in> {b1, b2, b3, b4}. 0 \<le> b \<and> b < 256"
      and sum: "b1 + b2 * 256 + b3 * 65536 + b4 * 16777216 = as_u32 ?a"
      using decompose_lower32_ok(1,2)[OF d] by (simp_all add: as_u32_def)
    have "as_u32 ?a = b1 + (b2 * 64 + b3 * 16384 + b4 * 4194304) * 4"
      by (simp add: sum[symmetric] algebra_simps)
    then have "b1 mod 4 = as_u32 ?a mod 4" by (simp only: mod_mult_self1)
    also have "\<dots> = ?a mod 4" unfolding as_u32_def by (rule mod_mod_cancel) simp
    finally have b1: "b1 = b1 div 4 * 4 + ?a mod 4" by (metis div_mult_mod_eq)
    have "0 \<le> b1" "b1 < 256" using b by simp_all
    then have "0 \<le> b1 div 4" "b1 div 4 < 64" by presburger+
    then have mod4: "0 \<le> ?a mod 4" "?a mod 4 < 4" "in_u32 (?a mod 4)" "in_u32 (b1 div 4)" "b1 div 4 < 64" "0 \<le> b1 div 4"
      by (simp_all add: in_u32_def)
    have "as_u64 ?a = ?a" using addr by (simp add: as_u64_def)
    then have w1: "?w = (if ?a > 0xffffffff then 1 else 0)"
    proof -
      have "drop_bit 32 ?a = (if ?a > 0xffffffff then 1 else 0)"
        using carry_split[OF addr] in_u32_as_u32[of ?a] by (simp add: drop_bit_eq_div in_u32_def split: if_splits)
      then show ?thesis using \<open>as_u64 ?a = ?a\<close> by (simp add: as_u32_def)
    qed
    have c: "cell ?e Col_tmp1_col = fe_from F a" "cell ?e Col_tmp4_col = ?a mod 4"
      "cell ?e Col_X_b1 = b1 div 4" "cell ?e Col_X_b2 = b2" "cell ?e Col_X_b3 = b3" "cell ?e Col_X_b4 = b4"
      "cell ?e Col_wrap_bit = (if ?a > 0xffffffff then 1 else 0)"
      using r w w1 F b fe_from_bytes(1-4)[OF b F] mod4 fe_from_u32[of "?a mod 4" F] fe_from_u32[of "b1 div 4" F]
      by (simp_all add: cell_after_cols[of _ ?i 3] effects from_u32_as_fe_def fe_from_u32)
    have "(cell ?e Col_tmp1_col + off) mod modulus F = ?a mod modulus F"
      by (simp only: c(1) fe_from_def mod_add_left_eq)
    moreover have "(if ?a > 0xffffffff then 1 else 0) * 2 ^ 32 + b4 * 0x1000000 + b3 * 0x10000 + b2 * 0x100
        + b1 div 4 * 4 + ?a mod 4 = ?a"
      using carry_split[OF addr] sum b1 by linarith
    ultimately show ?thesis
      using b mod4(1,2,5,6) by (intro mload_cells[OF _ c(2-7)]) (simp_all only: field_eq_def, auto)
  qed
  moreover have "reg_val ?e = put_reg (put_reg (reg_val e) rd (Elem_Binary ?v)) rr (Elem_Binary (?a mod 4))"
    "mem_val ?e = mem_val e"
    by (simp_all add: effects)
  ultimately show ?thesis using eff by blast
qed

section \<open>A sample state\<close>

text \<open>An executor in witness mode with one row of columns, four links per instruction and machine,
  a program of three batches, and the given registers; it instantiates the hypotheses below.\<close>

definition sample_executor :: "(int \<rightharpoonup> elem) \<Rightarrow> executor" where
  "sample_executor r =
     \<lparr> proc =
         \<lparr> tb_trace = (execution_trace_new [] [(''pc'', 0)])\<lparr>known_cols := replicate col_count 0\<rparr>,
           max_rows = 100, pc_idx = 0, curr_pc = Elem_Binary 2, next_statement_line = 1,
           batch_to_line_map = [0, 0, 0, 1, 2, 3], tb_regs = [Elem_Binary 3], tb_mem = [8 \<mapsto> 77],
           reg_mem = \<lparr> last_regs = r, second_last_regs = Map.empty \<rparr>, tb_mode = Witness \<rparr>,
       label_map = Map.empty, inputs = (\<lambda>_ _. None), queries = [], bootloader_inputs = [], ex_fixed = [],
       program_cols = [], ex_step = 8, ex_mode = Witness, pil_links = [],
       pil_instruction_links = (\<lambda>_. Some (map Other_Identity [0..<4])), pil_other_links = Map.empty,
       cached_fixed_cols = [] \<rparr>"

lemma sample_executor_ok:
  "n \<le> 4 \<Longrightarrow> ready (sample_executor r) i n" "has_link (sample_executor r) i m"
  "ex_mode (sample_executor r) = Witness" "0 \<le> l \<Longrightarrow> l < 6 \<Longrightarrow> jump_target (sample_executor r) l"
  "get_next_pc (proc (sample_executor r)) = Some (Elem_Binary 3)"
  by (simp_all add: sample_executor_def ready_def has_link_def link_entries_def jump_target_def in_u32_def
      get_next_pc_def vec_get_def)

lemma sample_executor_reg:
  "k \<noteq> 0 \<Longrightarrow> reg_val (sample_executor r) k = (case r k of Some v \<Rightarrow> v | None \<Rightarrow> Elem_Binary 0)"
  by (simp add: sample_executor_def reg_val_def get_reg_mem_def)

section \<open>Properties\<close>

text \<open>C14: \<open>add_wrap\<close> and \<open>sub_wrap_with_offset\<close> store the sum and the difference of 32-bit words
  (with an offset) modulo \<open>2 ^ 32\<close>, never panic in the ranges documented in the machine, leave
  memory and the other registers unchanged, and in witness mode leave a row that satisfies their
  constraints: the byte decomposition and the wrap bit.\<close>

theorem add_sub_wrap_correct:
  fixes x y :: u32
  assumes "2 ^ 32 \<le> modulus F" "in_u32 r1" "in_u32 r2" "in_u32 rd"
    and "reg_val e r1 = Elem_Binary (uint x)" "reg_val e r2 = Elem_Binary (uint y)"
  shows "(ready e I_add_wrap 3 \<longrightarrow> 0 \<le> uint x + uint y + off \<longrightarrow> uint x + uint y + off < 2 ^ 33 \<longrightarrow>
    (\<exists>e'. exec_add_wrap F e [Elem_Binary r1, Elem_Binary r2, Elem_Binary off, Elem_Binary rd] = Some e' \<and>
      reg_val e' = put_reg (reg_val e) rd (Elem_Binary (uint (x + y + word_of_int off))) \<and>
      mem_val e' = mem_val e \<and> (ex_mode e = Witness \<longrightarrow> add_wrap_constraints F e' off))) \<and>
    (ready e I_sub_wrap_with_offset 3 \<longrightarrow> - (2 ^ 32) \<le> uint x - uint y + off \<longrightarrow>
    uint x - uint y + off < 2 ^ 32 \<longrightarrow>
    (\<exists>e'. exec_sub_wrap_with_offset F e
          [Elem_Binary r1, Elem_Binary r2, Elem_Binary off, Elem_Binary rd] = Some e' \<and>
      reg_val e' = put_reg (reg_val e) rd (Elem_Binary (uint (x - y + word_of_int off))) \<and>
      mem_val e' = mem_val e \<and> (ex_mode e = Witness \<longrightarrow> sub_wrap_constraints F e' off)))"
  using exec_add_wrap_correct[OF assms(1) _ assms(2-6)] exec_sub_wrap_correct[OF assms(1) _ assms(2-6)]
  by (intro conjI impI) blast+

theorem add_sub_wrap_correct_witness:
  "\<exists>e'. exec_add_wrap goldilocks_field (sample_executor [1 \<mapsto> Elem_Binary 0xffffffff, 2 \<mapsto> Elem_Binary 7])
      [Elem_Binary 1, Elem_Binary 2, Elem_Binary 5, Elem_Binary 3] = Some e' \<and>
    reg_val e' 3 = Elem_Binary 11 \<and> add_wrap_constraints goldilocks_field e' 5"
  using add_sub_wrap_correct[of goldilocks_field 1 2 3
      "sample_executor [1 \<mapsto> Elem_Binary 0xffffffff, 2 \<mapsto> Elem_Binary 7]" "0xffffffff" 7 5, THEN conjunct1]
  by (auto simp: sample_executor_ok sample_executor_reg in_u32_def put_reg_def)

text \<open>C15: \<open>mul\<close> stores the low word and the high word of the 64-bit product of two 32-bit words,
  writes the columns of both and calls the split machine on the product with exactly these words.\<close>

theorem mul_correct:
  fixes x y :: u32
  assumes "2 ^ 32 \<le> modulus F" "ready e I_mul 4" "has_link e I_mul M_split_gl"
    and "in_u32 r1" "in_u32 r2" "in_u32 rl" "in_u32 rh"
    and "reg_val e r1 = Elem_Binary (uint x)" "reg_val e r2 = Elem_Binary (uint y)"
  shows "\<exists>e' hi. exec_mul F e [Elem_Binary r1, Elem_Binary r2, Elem_Binary rl, Elem_Binary rh] = Some e' \<and>
    in_u32 hi \<and> uint x * uint y = hi * 2 ^ 32 + uint (x * y) \<and>
    reg_val e' = put_reg (put_reg (reg_val e) rl (Elem_Binary (uint (x * y)))) rh (Elem_Binary hi) \<and>
    mem_val e' = mem_val e \<and>
    (ex_mode e = Witness \<longrightarrow>
       cell e' Col_tmp1_col = uint x \<and> cell e' Col_tmp2_col = uint y \<and>
       cell e' Col_tmp3_col = uint (x * y) \<and> cell e' Col_tmp4_col = hi \<and>
       lookup_args (last (submachine_ops (tb_trace (proc e')) M_split_gl))
         = (fe_from F (uint x * uint y), uint (x * y), hi, 0))"
  by (rule exec_mul_correct[OF assms])

theorem mul_correct_witness:
  "\<exists>e' hi. exec_mul goldilocks_field (sample_executor [1 \<mapsto> Elem_Binary 0x10000, 2 \<mapsto> Elem_Binary 0x10003])
      [Elem_Binary 1, Elem_Binary 2, Elem_Binary 3, Elem_Binary 4] = Some e' \<and>
    reg_val e' 3 = Elem_Binary 0x30000 \<and> reg_val e' 4 = Elem_Binary hi \<and> 0x100030000 = hi * 2 ^ 32 + 0x30000"
  using mul_correct[of goldilocks_field "sample_executor [1 \<mapsto> Elem_Binary 0x10000, 2 \<mapsto> Elem_Binary 0x10003]"
      1 2 3 4 "0x10000" "0x10003"]
  by (auto simp: sample_executor_ok sample_executor_reg in_u32_def put_reg_def)

text \<open>C16: \<open>divremu\<close> computes the unsigned quotient and remainder of RISC-V, division by zero
  included (all ones, and the dividend), and in witness mode satisfies every constraint of the
  instruction: the zero test of the divisor, the division equation, the range of the quotient and
  the remainder, and that the remainder is smaller than the divisor.\<close>

theorem divremu_correct:
  fixes x y :: u32
  assumes "field_element F" "2 ^ 32 \<le> modulus F" "64 \<le> NUM_BITS F" "ready e I_divremu 4"
    and "in_u32 r1" "in_u32 r2" "in_u32 rq" "in_u32 rr"
    and "reg_val e r1 = Elem_Binary (uint y)" "reg_val e r2 = Elem_Binary (uint x)"
  shows "\<exists>e'. exec_divremu F e [Elem_Binary r1, Elem_Binary r2, Elem_Binary rq, Elem_Binary rr] = Some e' \<and>
    reg_val e' = put_reg (put_reg (reg_val e) rq (Elem_Binary (uint (riscv_divu y x)))) rr
      (Elem_Binary (uint (riscv_remu y x))) \<and>
    mem_val e' = mem_val e \<and> (ex_mode e = Witness \<longrightarrow> divremu_constraints F e')"
  by (rule exec_divremu_correct[OF assms])

theorem divremu_correct_witness:
  "\<exists>e'. exec_divremu goldilocks_field (sample_executor [1 \<mapsto> Elem_Binary 17, 2 \<mapsto> Elem_Binary 5])
      [Elem_Binary 1, Elem_Binary 2, Elem_Binary 3, Elem_Binary 4] = Some e' \<and>
    reg_val e' 3 = Elem_Binary 3 \<and> reg_val e' 4 = Elem_Binary 2 \<and> divremu_constraints goldilocks_field e'"
  using divremu_correct[of goldilocks_field "sample_executor [1 \<mapsto> Elem_Binary 17, 2 \<mapsto> Elem_Binary 5]"
      1 2 3 4 17 5]
  by (auto simp: sample_executor_ok sample_executor_reg in_u32_def put_reg_def gl.field_element_axioms
      riscv_divu_def riscv_remu_def)

text \<open>\<open>sign_extend_byte\<close>, \<open>sign_extend_16_bits\<close> and \<open>to_signed\<close> are the sign extension of the
  low byte and half word and the two's complement value of a 32-bit word; their rows satisfy the
  constraints that tie the sign bit, the seven-bit column and the bytes together.\<close>

theorem sign_extension_correct:
  fixes x :: u32
  assumes "2 ^ 32 \<le> modulus F" "in_u32 r1" "in_u32 rd" "reg_val e r1 = Elem_Binary (uint x)"
  shows "(ready e I_sign_extend_byte 2 \<longrightarrow>
    (\<exists>e'. exec_sign_extend_byte F e [Elem_Binary r1, Elem_Binary rd] = Some e' \<and>
      reg_val e' = put_reg (reg_val e) rd (Elem_Binary (uint (scast (ucast x :: 8 word) :: u32))) \<and>
      mem_val e' = mem_val e \<and> (ex_mode e = Witness \<longrightarrow> sign_extend_byte_constraints F e'))) \<and>
    (ready e I_sign_extend_16_bits 2 \<longrightarrow>
    (\<exists>e'. exec_sign_extend_16_bits F e [Elem_Binary r1, Elem_Binary rd] = Some e' \<and>
      reg_val e' = put_reg (reg_val e) rd (Elem_Binary (uint (scast (ucast x :: 16 word) :: u32))) \<and>
      mem_val e' = mem_val e \<and> (ex_mode e = Witness \<longrightarrow> sign_extend_16_constraints F e'))) \<and>
    (ready e I_to_signed 2 \<longrightarrow>
    (\<exists>e'. exec_to_signed F e [Elem_Binary r1, Elem_Binary rd] = Some e' \<and>
      reg_val e' = put_reg (reg_val e) rd (Elem_Binary (sint x)) \<and>
      mem_val e' = mem_val e \<and> (ex_mode e = Witness \<longrightarrow> to_signed_constraints F e')))"
  using exec_sign_extend_byte_correct[OF assms(1) _ assms(2-4)]
    exec_sign_extend_16_correct[OF assms(1) _ assms(2-4)] exec_to_signed_correct[OF assms(1) _ assms(2-4)]
  by (intro conjI impI) blast+

theorem sign_extension_correct_witness:
  "\<exists>e'. exec_to_signed goldilocks_field (sample_executor [1 \<mapsto> Elem_Binary 0xffffffff])
      [Elem_Binary 1, Elem_Binary 3] = Some e' \<and>
    reg_val e' 3 = Elem_Binary (- 1) \<and> to_signed_constraints goldilocks_field e'"
  using sign_extension_correct[of goldilocks_field 1 3 "sample_executor [1 \<mapsto> Elem_Binary 0xffffffff]" "0xffffffff",
      THEN conjunct2, THEN conjunct2]
  by (auto simp: sample_executor_ok sample_executor_reg in_u32_def put_reg_def)

text \<open>C17: \<open>and\<close>, \<open>or\<close>, \<open>xor\<close>, \<open>shl\<close> and \<open>shr\<close> store the result of the operation on 32-bit
  words (for shifts by less than 32), and log a call of the binary or the shift machine with the
  operation id, both operands and the result.\<close>

theorem bitwise_shift_correct:
  fixes x y z :: u32
  assumes "2 ^ 32 \<le> modulus F" "ready e i 3" "in_u32 r1" "in_u32 r2" "in_u32 rd"
    and "reg_val e r1 = Elem_Binary (uint x)" "reg_val e r2 = Elem_Binary v2" "v2 + off = uint y"
  shows "(has_link e i M_binary \<longrightarrow> bitwise_result i x y = Some (z, op) \<longrightarrow>
    (\<exists>e'. exec_bitwise F e i [Elem_Binary r1, Elem_Binary r2, Elem_Binary off, Elem_Binary rd] = Some e' \<and>
      reg_val e' = put_reg (reg_val e) rd (Elem_Binary (uint z)) \<and> mem_val e' = mem_val e \<and>
      (ex_mode e = Witness \<longrightarrow>
         lookup_args (last (submachine_ops (tb_trace (proc e')) M_binary)) = (op, uint x, uint y, uint z) \<and>
         cell e' Col_tmp1_col = uint x \<and> cell e' Col_tmp2_col = fe_from F v2 \<and> cell e' Col_tmp3_col = uint z))) \<and>
    (has_link e i M_shift \<longrightarrow> y < 32 \<longrightarrow> shift_result i x y = Some (z, op) \<longrightarrow>
    (\<exists>e'. exec_shift F e i [Elem_Binary r1, Elem_Binary r2, Elem_Binary off, Elem_Binary rd] = Some e' \<and>
      reg_val e' = put_reg (reg_val e) rd (Elem_Binary (uint z)) \<and> mem_val e' = mem_val e \<and>
      (ex_mode e = Witness \<longrightarrow>
         lookup_args (last (submachine_ops (tb_trace (proc e')) M_shift)) = (op, uint x, uint y, uint z) \<and>
         cell e' Col_tmp1_col = uint x \<and> cell e' Col_tmp2_col = fe_from F v2 \<and> cell e' Col_tmp3_col = uint z)))"
  using exec_bitwise_correct[OF assms(1,2) _ assms(3-8)] exec_shift_correct[OF assms(1,2) _ assms(3-8)]
  by (intro conjI impI) blast+

theorem bitwise_shift_correct_witness:
  "\<exists>e'. exec_bitwise goldilocks_field (sample_executor [1 \<mapsto> Elem_Binary 12]) I_and
      [Elem_Binary 1, Elem_Binary 2, Elem_Binary 10, Elem_Binary 3] = Some e' \<and>
    reg_val e' 3 = Elem_Binary 8 \<and>
    lookup_args (last (submachine_ops (tb_trace (proc e')) M_binary)) = (0, 12, 10, 8)"
  using bitwise_shift_correct[of goldilocks_field "sample_executor [1 \<mapsto> Elem_Binary 12]" I_and 1 2 3
      12 0 10 10 8 0, THEN conjunct1]
  by (auto simp: sample_executor_ok sample_executor_reg in_u32_def put_reg_def)



text \<open>C19: \<open>mstore\<close> writes exactly the memory word at its wrapped address and \<open>mload\<close> returns the word
  that contains its wrapped address together with the offset in the word, so that a load after a
  store to the same address returns the stored value; both rows satisfy the address constraints.\<close>

theorem load_store_correct:
  fixes x :: u32
  assumes "2 ^ 32 \<le> modulus F" "in_u32 r1" "in_u32 r2" "in_u32 r3" "in_u32 rd"
    and "reg_val e r1 = Elem_Binary a"
  shows "(ready e i 3 \<longrightarrow> has_link e i M_memory \<longrightarrow> reg_val e r2 = Elem_Binary b \<longrightarrow>
    reg_val e r3 = Elem_Binary (uint x) \<longrightarrow> in_i64 (a - b) \<longrightarrow> 0 \<le> a - b + off \<longrightarrow> a - b + off < 2 ^ 33 \<longrightarrow>
    4 dvd a - b + off \<longrightarrow>
    (\<exists>e'. exec_mstore F e i [Elem_Binary r1, Elem_Binary r2, Elem_Binary off, Elem_Binary r3] = Some e' \<and>
      mem_val e' = (mem_val e)(as_u32 (a - b + off) := uint x) \<and> reg_val e' = reg_val e \<and>
      get_next_pc (proc e') = get_next_pc (proc e) \<and>
      (ex_mode e = Witness \<longrightarrow> mstore_constraints F e' off))) \<and>
    (ready e I_mload 3 \<longrightarrow> has_link e I_mload M_memory \<longrightarrow> 0 \<le> a + off \<longrightarrow> a + off < 2 ^ 33 \<longrightarrow>
    (\<exists>e'. exec_mload F e [Elem_Binary r1, Elem_Binary off, Elem_Binary rd, Elem_Binary r2] = Some e' \<and>
      reg_val e' = put_reg (put_reg (reg_val e) rd (Elem_Binary (mem_val e (word_address (a + off)))))
        r2 (Elem_Binary ((a + off) mod 4)) \<and>
      mem_val e' = mem_val e \<and> (ex_mode e = Witness \<longrightarrow> mload_constraints F e' off)))"
  using exec_mstore_correct[OF assms(1) _ _ assms(2-4,6)] exec_mload_correct[OF assms(1) _ _ assms(2,5,3,6)]
  by (intro conjI impI) blast+

theorem load_store_correct_witness:
  "\<exists>e'. exec_mload goldilocks_field (sample_executor [1 \<mapsto> Elem_Binary 7])
      [Elem_Binary 1, Elem_Binary 3, Elem_Binary 4, Elem_Binary 5] = Some e' \<and>
    reg_val e' 4 = Elem_Binary 77 \<and> reg_val e' 5 = Elem_Binary 2 \<and> mload_constraints goldilocks_field e' 3"
  using load_store_correct[of goldilocks_field 1 5 6 4 "sample_executor [1 \<mapsto> Elem_Binary 7]" 7 _ _ _ 3,
      THEN conjunct2]
  by (auto simp: sample_executor_ok sample_executor_reg in_u32_def put_reg_def word_address_def as_u32_def
      mem_val_def) (simp add: sample_executor_def)



end
