(* ===== verification/Riscv_Executor.thy ===== *)
theory Riscv_Executor
  imports Riscv_Instructions
begin

text \<open>
  The main loop of the RISC-V executor, after \<open>riscv-executor/src/lib.rs\<close>: evaluation of the
  argument expressions, preprocessing of the program into statements, execution of a statement,
  and \<open>execute_inner\<close>. The parsed program follows \<open>ast/src/asm_analysis/mod.rs\<close> and
  \<open>ast/src/parsed/mod.rs\<close>; the kinds of expressions on which the executor panics are one
  constructor. The profiler is not modelled: it only observes the execution.
\<close>

section \<open>Programs\<close>

datatype binary_operator = Op_Add | Op_Sub | Op_Mul | Op_Div | Op_Mod | Op_Pow | Op_Other

datatype unary_operator = Un_Minus | Un_LogicalNot | Un_Next

text \<open>A symbol path is the list of its parts.\<close>

datatype expression =
    Ex_Reference "string list"
  | Ex_Number int
  | Ex_BinaryOperation expression binary_operator expression
  | Ex_UnaryOperation unary_operator expression
  | Ex_FunctionCall expression "expression list"
  | Ex_FreeInput expression
  | Ex_Unsupported

datatype assignment_register = Asg_Register string | Asg_Wildcard

datatype debug_directive =
    Dir_File nat string string
  | Dir_Loc nat nat nat
  | Dir_OriginalInstruction string

datatype function_statement =
    St_Assignment "(string \<times> assignment_register) list" expression
  | St_Instruction string "expression list"
  | St_Return "expression list"
  | St_DebugDirective debug_directive
  | St_Label string

fun try_to_identifier :: "string list \<Rightarrow> string option" where
  "try_to_identifier [name] = Some name"
| "try_to_identifier _ = None"

fun path_to_string :: "string list \<Rightarrow> string" where
  "path_to_string [] = []"
| "path_to_string [p] = p"
| "path_to_string (p # ps) = p @ ''::'' @ path_to_string ps"

section \<open>Expressions\<close>

text \<open>Decimal representation, used to print the arguments of a query.\<close>

fun digits :: "nat \<Rightarrow> string" where
  "digits n = (if n < 10 then [char_of (48 + n)] else digits (n div 10) @ [char_of (48 + n mod 10)])"

declare digits.simps [simp del]

fun elem_to_string :: "elem \<Rightarrow> string" where
  "elem_to_string (Elem_Binary b) = (if b < 0 then ''-'' @ digits (nat (- b)) else digits (nat b))"
| "elem_to_string (Elem_Field f) = digits (nat f)"

fun join_comma :: "string list \<Rightarrow> string" where
  "join_comma [] = []"
| "join_comma [s] = s"
| "join_comma (s # ss) = s @ '','' @ join_comma ss"

definition strip_prefix :: "string \<Rightarrow> string \<Rightarrow> string option" where
  "strip_prefix s p = (if take (length p) s = p then Some (drop (length p) s) else None)"

definition eval_binary_operation ::
  "field_desc \<Rightarrow> elem \<Rightarrow> binary_operator \<Rightarrow> elem \<Rightarrow> elem option" where
  "eval_binary_operation F l op r = (case (l, r) of
      (Elem_Binary l, Elem_Binary r) \<Rightarrow> (case op of
          Op_Add \<Rightarrow> map_option Elem_Binary (check_i64 (l + r))
        | Op_Sub \<Rightarrow> map_option Elem_Binary (check_i64 (l - r))
        | Op_Mul \<Rightarrow> (case check_i64 (l * r) of
              Some v \<Rightarrow> Some (Elem_Binary v)
            | None \<Rightarrow> Some (Elem_Field (fe_mul F (fe_from F l) (fe_from F r))))
        | Op_Div \<Rightarrow> map_option Elem_Binary (i64_div l r)
        | Op_Mod \<Rightarrow> map_option Elem_Binary (i64_rem l r)
        | Op_Pow \<Rightarrow> do { n \<leftarrow> check_u32 r; map_option Elem_Binary (check_i64 (l ^ nat n)) }
        | Op_Other \<Rightarrow> None)
    | (Elem_Field l, Elem_Field r) \<Rightarrow> (case op of
          Op_Sub \<Rightarrow> Some (Elem_Field (fe_sub F l r))
        | _ \<Rightarrow> None)
    | (Elem_Binary l, Elem_Field r) \<Rightarrow> (case op of
          Op_Add \<Rightarrow> Some (Elem_Field (fe_add F (fe_from F l) r))
        | _ \<Rightarrow> None)
    | (Elem_Field _, Elem_Binary _) \<Rightarrow> None)"

text \<open>The part of \<open>exec_instruction\<close> around the \<open>match\<close>: the backup of the registers and the
  constant columns, then the instruction with its evaluated arguments.\<close>

definition set_const_col ::
  "field_desc \<Rightarrow> executor \<Rightarrow> string \<Rightarrow> known_witness_col \<Rightarrow> known_fixed_col \<Rightarrow> executor option" where
  "set_const_col F e name col fixed =
     (if col_is_defined (proc e) name then do {
        v \<leftarrow> fixed_value e fixed;
        set_cols F e [(col, v)]
      } else Some e)"

definition exec_instruction_args ::
  "field_desc \<Rightarrow> externals \<Rightarrow> executor \<Rightarrow> string \<Rightarrow> elem list \<Rightarrow> (elem option \<times> executor) option" where
  "exec_instruction_args F X e name args = do {
     let e = e\<lparr>proc := backup_reg_mem (proc e)\<rparr>;
     e \<leftarrow> set_const_col F e ''main::X_const'' Col_X Fix_X_const;
     e \<leftarrow> set_const_col F e ''main::Y_const'' Col_Y Fix_Y_const;
     e \<leftarrow> set_const_col F e ''main::Z_const'' Col_Z Fix_Z_const;
     e \<leftarrow> set_const_col F e ''main::W_const'' Col_W Fix_W_const;
     instr \<leftarrow> from_name name;
     exec_instr F X e instr args
   }"

definition ask_query :: "field_desc \<Rightarrow> executor \<Rightarrow> string \<Rightarrow> (elem \<times> executor) option" where
  "ask_query F e query = do {
     answer \<leftarrow> inputs e (queries e) query;
     val \<leftarrow> answer;
     v \<leftarrow> try_from_fe_as_bin F val;
     Some (v, e\<lparr>queries := queries e @ [query]\<rparr>)
   }"

fun eval_expression ::
    "field_desc \<Rightarrow> externals \<Rightarrow> executor \<Rightarrow> expression \<Rightarrow> (elem option \<times> executor) option"
  and eval_args ::
    "field_desc \<Rightarrow> externals \<Rightarrow> executor \<Rightarrow> expression list \<Rightarrow> (elem list \<times> executor) option" where
  "eval_expression F X e (Ex_Reference r) = do {
     name \<leftarrow> try_to_identifier r;
     val \<leftarrow> (case label_map e name of Some v \<Rightarrow> Some v | None \<Rightarrow> get_reg (proc e) name);
     Some (Some val, e)
   }"
| "eval_expression F X e (Ex_Number n) = do {
     u \<leftarrow> check_u32 n;
     Some (Some (Elem_Binary u), e)
   }"
| "eval_expression F X e (Ex_BinaryOperation l op r) = do {
     (vl, e) \<leftarrow> eval_expression F X e l;
     vl \<leftarrow> vl;
     (vr, e) \<leftarrow> eval_expression F X e r;
     vr \<leftarrow> vr;
     res \<leftarrow> eval_binary_operation F vl op vr;
     Some (Some res, e)
   }"
| "eval_expression F X e (Ex_UnaryOperation op a) = do {
     (v, e) \<leftarrow> eval_expression F X e a;
     v \<leftarrow> v;
     x \<leftarrow> bin v;
     res \<leftarrow> (case op of Un_Minus \<Rightarrow> check_i64 (- x) | _ \<Rightarrow> None);
     Some (Some (Elem_Binary res), e)
   }"
| "eval_expression F X e (Ex_FunctionCall f args) = (case f of
     Ex_Reference path \<Rightarrow>
       if path_to_string path = ''std::prover::eval'' \<or> path_to_string path = ''std::convert::int''
       then (case args of a # _ \<Rightarrow> eval_expression F X e a | [] \<Rightarrow> None)
       else do {
         name \<leftarrow> try_to_identifier path;
         (vs, e) \<leftarrow> eval_args F X e args;
         exec_instruction_args F X e name vs
       }
   | _ \<Rightarrow> None)"
| "eval_expression F X e (Ex_FreeInput x) = (case x of
     Ex_FunctionCall (Ex_Reference path) args \<Rightarrow> do {
       variant \<leftarrow> strip_prefix (path_to_string path) ''std::prelude::Query::'';
       (vs, e) \<leftarrow> eval_args F X e args;
       (v, e) \<leftarrow> ask_query F e (variant @ ''('' @ join_comma (map elem_to_string vs) @ '')'');
       Some (Some v, e)
     }
   | _ \<Rightarrow> None)"
| "eval_expression F X e Ex_Unsupported = None"
| "eval_args F X e [] = Some ([], e)"
| "eval_args F X e (a # as) = do {
     (v, e) \<leftarrow> eval_expression F X e a;
     v \<leftarrow> v;
     (vs, e) \<leftarrow> eval_args F X e as;
     Some (v # vs, e)
   }"

definition exec_instruction ::
  "field_desc \<Rightarrow> externals \<Rightarrow> executor \<Rightarrow> string \<Rightarrow> expression list \<Rightarrow> (elem option \<times> executor) option" where
  "exec_instruction F X e name args = do {
     (vs, e) \<leftarrow> eval_args F X e args;
     exec_instruction_args F X e name vs
   }"

section \<open>Preprocessing\<close>

record preprocessed_main =
  pm_statements :: "function_statement list"
  pm_labels :: "string \<rightharpoonup> elem"
  pm_batch_to_line :: "int list"
  pm_debug_files :: "(string \<times> string) list"
  pm_function_starts :: "nat \<rightharpoonup> string"
  pm_location_starts :: "nat \<rightharpoonup> nat \<times> nat"

text \<open>\<open>FunctionStatements::iter_batches\<close>: batches of the given sizes, or of one statement each.\<close>

fun slice_batches :: "function_statement list \<Rightarrow> nat list \<Rightarrow> function_statement list list option" where
  "slice_batches stms [] = Some []"
| "slice_batches stms (n # ns) =
     (if length stms < n then None
      else map_option ((#) (take n stms)) (slice_batches (drop n stms) ns))"

definition iter_batches ::
  "function_statement list \<Rightarrow> nat list option \<Rightarrow> function_statement list list option" where
  "iter_batches stms batches =
     slice_batches stms (case batches of Some ns \<Rightarrow> ns | None \<Rightarrow> replicate (length stms) 1)"

definition preprocess_statement ::
  "nat \<Rightarrow> bool \<times> preprocessed_main \<Rightarrow> function_statement \<Rightarrow> (bool \<times> preprocessed_main) option" where
  "preprocess_statement batch_idx st s = (case st of (statement_seen, pm) \<Rightarrow>
     (case s of
        St_Assignment _ _ \<Rightarrow> Some (True, pm\<lparr>pm_statements := pm_statements pm @ [s]\<rparr>)
      | St_Instruction _ _ \<Rightarrow> Some (True, pm\<lparr>pm_statements := pm_statements pm @ [s]\<rparr>)
      | St_Return _ \<Rightarrow> Some (True, pm\<lparr>pm_statements := pm_statements pm @ [s]\<rparr>)
      | St_DebugDirective d \<Rightarrow> (case d of
            Dir_File idx dir file \<Rightarrow> do {
              rust_assert (idx = length (pm_debug_files pm) + 1);
              Some (statement_seen, pm\<lparr>pm_debug_files := pm_debug_files pm @ [(dir, file)]\<rparr>)
            }
          | Dir_Loc file line _ \<Rightarrow>
              Some (statement_seen, pm\<lparr>
                pm_location_starts := (pm_location_starts pm)(batch_idx + PC_INITIAL_VAL \<mapsto> (file, line)),
                pm_statements := pm_statements pm @ [s]\<rparr>)
          | Dir_OriginalInstruction _ \<Rightarrow>
              Some (statement_seen, pm\<lparr>pm_statements := pm_statements pm @ [s]\<rparr>))
      | St_Label name \<Rightarrow> do {
          rust_assert (\<not> statement_seen);
          let pm = pm\<lparr>pm_labels := (pm_labels pm)(name \<mapsto> Elem_Binary (int (batch_idx + PC_INITIAL_VAL)))\<rparr>;
          Some (statement_seen,
            if \<not> str_contains name ''___dot_L''
            then pm\<lparr>pm_function_starts := (pm_function_starts pm)(batch_idx + PC_INITIAL_VAL \<mapsto> name)\<rparr>
            else pm)
        }))"

fun preprocess_batch ::
  "nat \<Rightarrow> bool \<times> preprocessed_main \<Rightarrow> function_statement list \<Rightarrow> (bool \<times> preprocessed_main) option" where
  "preprocess_batch batch_idx st [] = Some st"
| "preprocess_batch batch_idx st (s # ss) = do {
     st \<leftarrow> preprocess_statement batch_idx st s;
     preprocess_batch batch_idx st ss
   }"

fun preprocess_batches ::
  "nat \<Rightarrow> preprocessed_main \<Rightarrow> function_statement list list \<Rightarrow> preprocessed_main option" where
  "preprocess_batches batch_idx pm [] = Some pm"
| "preprocess_batches batch_idx pm (b # bs) = do {
     let pm = pm\<lparr>pm_batch_to_line := pm_batch_to_line pm @ [as_u32 (int (length (pm_statements pm)))]\<rparr>;
     (seen, pm) \<leftarrow> preprocess_batch batch_idx (False, pm) b;
     preprocess_batches (batch_idx + 1) pm bs
   }"

definition preprocess_main_function ::
  "function_statement list \<Rightarrow> nat list option \<Rightarrow> preprocessed_main option" where
  "preprocess_main_function stms batches = do {
     bs \<leftarrow> iter_batches stms batches;
     pm \<leftarrow> preprocess_batches 0
       \<lparr> pm_statements = [], pm_labels = Map.empty, pm_batch_to_line = replicate PC_INITIAL_VAL 0,
         pm_debug_files = [], pm_function_starts = Map.empty, pm_location_starts = Map.empty \<rparr> bs;
     rust_assert (int (length (pm_statements pm)) \<le> 0xffffffff);
     Some (pm\<lparr>pm_batch_to_line := pm_batch_to_line pm @ [int (length (pm_statements pm))]\<rparr>)
   }"

section \<open>Statements\<close>

definition set_col_e :: "field_desc \<Rightarrow> executor \<Rightarrow> known_witness_col \<Rightarrow> elem \<Rightarrow> executor option" where
  "set_col_e F e col v = set_cols F e [(col, v)]"

text \<open>An assignment through the assignment register \<open>X\<close>.\<close>

definition exec_assignment ::
  "field_desc \<Rightarrow> externals \<Rightarrow> executor \<Rightarrow> (string \<times> assignment_register) list \<Rightarrow> expression \<Rightarrow> executor option" where
  "exec_assignment F X e lhs rhs = do {
     pc \<leftarrow> elem_u (get_pc (proc e));
     e \<leftarrow> set_col_e F e Col_operation_id (Elem_Binary 2);
     (results, e) \<leftarrow> eval_expression F X e rhs;
     rust_assert (length lhs = 1);
     case lhs ! 0 of
       (dest, Asg_Register x) \<Rightarrow> do {
         rust_assert (x = ''X'');
         xc \<leftarrow> get_known_fixed e Fix_X_const (nat pc);
         let x_const = Elem_Field xc;
         r \<leftarrow> results;
         e \<leftarrow> (case rhs of
             Ex_FreeInput _ \<Rightarrow> do {
               rust_assert (elem_is_zero x_const);
               set_cols F e [(Col_X, r), (Col_X_free_value, r)]
             }
           | _ \<Rightarrow> do {
               e \<leftarrow> set_col_e F e Col_X r;
               rf \<leftarrow> get_known_fixed e Fix_X_read_free (nat pc);
               let x_read_free = Elem_Field rf;
               x_free_value \<leftarrow> (if elem_is_zero x_read_free then Some (Elem_Field 0)
                 else do { d \<leftarrow> elem_sub F r x_const; elem_div F d x_read_free });
               set_col_e F e Col_X_free_value x_free_value
             });
         t \<leftarrow> set_reg F (proc e) dest r;
         Some (e\<lparr>proc := t\<rparr>)
       }
     | (_, Asg_Wildcard) \<Rightarrow> None
   }"

text \<open>For jumps the loop evaluates the target register once more, for the profiler.\<close>

definition exec_instruction_statement ::
  "field_desc \<Rightarrow> externals \<Rightarrow> executor \<Rightarrow> string \<Rightarrow> expression list \<Rightarrow> executor option" where
  "exec_instruction_statement F X e name args = do {
     e \<leftarrow> set_col_e F e Col_operation_id (Elem_Binary 2);
     if name = ''jump'' \<or> name = ''jump_dyn'' then do {
       pc_before \<leftarrow> elem_u (get_pc (proc e));
       (v, e) \<leftarrow> exec_instruction F X e name args;
       pc \<leftarrow> get_next_pc (proc e);
       pc_after \<leftarrow> elem_u pc;
       a1 \<leftarrow> vec_get args 1;
       (tr, e) \<leftarrow> eval_expression F X e a1;
       tr \<leftarrow> tr;
       target_reg \<leftarrow> elem_u tr;
       Some e
     } else do {
       (v, e) \<leftarrow> exec_instruction F X e name args;
       Some e
     }
   }"

text \<open>One statement; the flag says that the loop is left (\<open>break\<close>).\<close>

definition exec_statement ::
  "field_desc \<Rightarrow> externals \<Rightarrow> (string \<times> string) list \<Rightarrow> executor \<Rightarrow> function_statement
     \<Rightarrow> (bool \<times> executor) option" where
  "exec_statement F X debug_files e stm = do {
     s \<leftarrow> check_u32 (ex_step e + 4);
     let e = e\<lparr>ex_step := s\<rparr>;
     case stm of
       St_Assignment lhs rhs \<Rightarrow> map_option (Pair False) (exec_assignment F X e lhs rhs)
     | St_Instruction name args \<Rightarrow> map_option (Pair False) (exec_instruction_statement F X e name args)
     | St_Return _ \<Rightarrow> map_option (Pair True) (set_col_e F e Col_operation_id (Elem_Binary 2))
     | St_DebugDirective d \<Rightarrow> do {
         let e = e\<lparr>ex_step := ex_step e - 4\<rparr>;
         case d of
           Dir_Loc file line column \<Rightarrow> do {
             rust_assert (1 \<le> file);
             f \<leftarrow> vec_get debug_files (file - 1);
             Some (False, e)
           }
         | Dir_OriginalInstruction _ \<Rightarrow> Some (False, e)
         | Dir_File _ _ _ \<Rightarrow> None
       }
     | St_Label _ \<Rightarrow> None
   }"

section \<open>The main loop\<close>

datatype run_result = Running executor int | Panicked | Finished executor

text \<open>One iteration of the loop of \<open>execute_inner\<close> at statement \<open>pc\<close>.\<close>

definition exec_iteration ::
  "field_desc \<Rightarrow> externals \<Rightarrow> preprocessed_main \<Rightarrow> executor \<Rightarrow> int \<Rightarrow> run_result" where
  "exec_iteration F X pm e pc =
     (case do {
        stm \<leftarrow> vec_get_i64 (pm_statements pm) pc;
        (stop, e) \<leftarrow> exec_statement F X (pm_debug_files pm) e stm;
        if stop then Some (Finished e)
        else do {
          (next, t) \<leftarrow> advance F (proc e);
          Some (case next of
              Some pc \<Rightarrow> Running (e\<lparr>proc := t\<rparr>) pc
            | None \<Rightarrow> Finished (e\<lparr>proc := t\<rparr>))
        }
      } of None \<Rightarrow> Panicked | Some r \<Rightarrow> r)"

fun exec_loop ::
  "field_desc \<Rightarrow> externals \<Rightarrow> preprocessed_main \<Rightarrow> nat \<Rightarrow> executor \<Rightarrow> int \<Rightarrow> run_result" where
  "exec_loop F X pm 0 e pc = Running e pc"
| "exec_loop F X pm (Suc n) e pc = (case exec_iteration F X pm e pc of
     Running e pc \<Rightarrow> exec_loop F X pm n e pc
   | r \<Rightarrow> r)"

definition init_row :: "field_desc \<Rightarrow> executor \<Rightarrow> nat \<Rightarrow> executor option" where
  "init_row F e i = do {
     t \<leftarrow> push_row (proc e) (int i);
     t \<leftarrow> set_col_idx F t Col_operation_id i (Elem_Binary 2);
     t \<leftarrow> set_col_idx F t Col_pc_update i (Elem_Binary (int i + 1));
     Some (e\<lparr>proc := t\<rparr>)
   }"

fun cache_fixed_cols :: "executor \<Rightarrow> known_fixed_col list \<Rightarrow> executor option" where
  "cache_fixed_cols e [] = Some e"
| "cache_fixed_cols e (c # cs) = do {
     col \<leftarrow> get_fixed e (fixed_name c);
     v \<leftarrow> col;
     cache_fixed_cols (e\<lparr>cached_fixed_cols := cached_fixed_cols e @ [v]\<rparr>) cs
   }"

definition exec_init :: "field_desc \<Rightarrow> executor \<Rightarrow> executor option" where
  "exec_init F e = do {
     let e = e\<lparr>ex_step := 4\<rparr>;
     e \<leftarrow> (if ex_mode e = Witness then cache_fixed_cols e all_fixed_cols else Some e);
     e \<leftarrow> init_row F e 0;
     init_row F e 1
   }"

text \<open>The rows added after the program ends: the reset, the jump to the operation and the sink
  loop. Each \<open>advance\<close> must find no statement to execute.\<close>

definition closing_row ::
  "field_desc \<Rightarrow> executor \<Rightarrow> int \<Rightarrow> executor option" where
  "closing_row F e target = do {
     e \<leftarrow> set_col_e F e Col_pc_update (Elem_Binary target);
     jump_to F e (Elem_Binary target)
   }"

definition closing_advance :: "field_desc \<Rightarrow> executor \<Rightarrow> executor option" where
  "closing_advance F e = do {
     (r, t) \<leftarrow> advance F (proc e);
     rust_assert (r = None);
     Some (e\<lparr>proc := t\<rparr>)
   }"

definition exec_close :: "field_desc \<Rightarrow> executor \<Rightarrow> executor option" where
  "exec_close F e = do {
     sink \<leftarrow> sink_id e;
     e \<leftarrow> closing_row F e 0;
     e \<leftarrow> closing_advance F e;
     e \<leftarrow> set_col_e F e Col_operation_id (Elem_Binary sink);
     e \<leftarrow> closing_row F e 1;
     t \<leftarrow> set_reg F (proc e) ''query_arg_1'' (Elem_Binary 0);
     t \<leftarrow> set_reg F t ''query_arg_2'' (Elem_Binary 0);
     e \<leftarrow> closing_advance F (e\<lparr>proc := t\<rparr>);
     e \<leftarrow> set_col_e F e Col_operation_id (Elem_Binary sink);
     e \<leftarrow> closing_row F e sink;
     e \<leftarrow> closing_advance F e;
     e \<leftarrow> set_col_e F e Col_pc_update (Elem_Binary sink);
     set_col_e F e Col_operation_id (Elem_Binary sink)
   }"

fun rows_of :: "int list \<Rightarrow> int list \<Rightarrow> int list option" where
  "rows_of vals [] = Some []"
| "rows_of vals (pc # pcs) = do {
     v \<leftarrow> vec_get vals (nat pc);
     vs \<leftarrow> rows_of vals pcs;
     Some (v # vs)
   }"

fun program_columns :: "executor \<Rightarrow> (string \<times> string) list \<Rightarrow> (string \<times> int list) list option" where
  "program_columns e [] = Some []"
| "program_columns e ((fcol, pcol) # cols) = do {
     col \<leftarrow> get_fixed e fcol;
     fixed_values \<leftarrow> col;
     vs \<leftarrow> rows_of fixed_values (pc_trace (tb_trace (proc e)));
     rest \<leftarrow> program_columns e cols;
     Some ((pcol, vs) # rest)
   }"

definition generate_program_columns :: "executor \<Rightarrow> (string \<times> int list) list option" where
  "generate_program_columns e = program_columns e (program_cols e)"

end
