(* ===== verification/Riscv_Submachines.thy ===== *)
theory Riscv_Submachines
  imports Riscv_Trace Riscv_Poseidon "HOL-Library.AList"
begin

text \<open>
  The submachines of the RISC-V executor, after \<open>riscv-executor/src/submachines.rs\<close>: the trace of
  a submachine (a flat vector of rows, the selector columns and the pending values of the last row),
  and the interface that all kinds of submachines share. The columns of the hash maps are association lists here: the result is turned
  into a hash map again by the caller, so their order has no meaning.
\<close>

section \<open>The trace of a submachine\<close>

record submachine_trace =
  st_namespace :: string
  st_cols :: "string list"
  st_values :: "int list"
  st_selectors :: "(string \<times> int list) list"
  last_row_overrides :: "(nat \<times> int option) list"

text \<open>\<open>name.rfind("::")\<close> and the text after it.\<close>

fun after_last_separator :: "string \<Rightarrow> string option" where
  "after_last_separator [] = None"
| "after_last_separator (c # cs) = (case after_last_separator cs of
     Some s \<Rightarrow> Some s
   | None \<Rightarrow> if take 2 (c # cs) = ''::'' then Some (drop 1 cs) else None)"

definition only_column_name :: "string \<Rightarrow> string" where
  "only_column_name name = (case after_last_separator name of Some s \<Rightarrow> s | None \<Rightarrow> name)"

definition submachine_trace_new :: "string \<Rightarrow> string list \<Rightarrow> string list \<Rightarrow> submachine_trace" where
  "submachine_trace_new namespace cols selectors =
     \<lparr> st_namespace = namespace, st_cols = cols, st_values = [],
       st_selectors = fold (\<lambda>n s. AList.update n [] s) selectors [], last_row_overrides = [] \<rparr>"

text \<open>Both lengths are cast to \<open>u32\<close>; a machine has at least one column.\<close>

definition sub_len :: "submachine_trace \<Rightarrow> nat" where
  "sub_len t = length (st_values t) mod 2 ^ 32 div (length (st_cols t) mod 2 ^ 32)"

definition set_row_value :: "submachine_trace \<Rightarrow> nat \<Rightarrow> nat \<Rightarrow> int \<Rightarrow> submachine_trace option" where
  "set_row_value t row col v = do {
     vs \<leftarrow> vec_set (st_values t) (row * length (st_cols t) + col) v;
     Some (t\<lparr>st_values := vs\<rparr>)
   }"

fun set_block_rows :: "submachine_trace \<Rightarrow> nat \<Rightarrow> nat list \<Rightarrow> int \<Rightarrow> submachine_trace option" where
  "set_block_rows t col [] v = Some t"
| "set_block_rows t col (i # is) v = do {
     rust_assert (i + 1 \<le> sub_len t);
     t \<leftarrow> set_row_value t (sub_len t - i - 1) col v;
     set_block_rows t col is v
   }"

definition set_current_block :: "submachine_trace \<Rightarrow> nat \<Rightarrow> nat \<Rightarrow> int \<Rightarrow> submachine_trace option" where
  "set_current_block t sz col v = set_block_rows t col [0..<sz] v"

definition set_current_row :: "submachine_trace \<Rightarrow> nat \<Rightarrow> int \<Rightarrow> submachine_trace option" where
  "set_current_row t col v = do {
     rust_assert (1 \<le> sub_len t);
     set_row_value t (sub_len t - 1) col v
   }"

definition set_selector_value ::
  "submachine_trace \<Rightarrow> string \<Rightarrow> nat \<Rightarrow> int \<Rightarrow> submachine_trace option" where
  "set_selector_value t sel i v = do {
     col \<leftarrow> map_of (st_selectors t) sel;
     col \<leftarrow> vec_set col i v;
     Some (t\<lparr>st_selectors := AList.update sel col (st_selectors t)\<rparr>)
   }"

fun set_block_selectors ::
  "submachine_trace \<Rightarrow> string \<Rightarrow> nat list \<Rightarrow> int \<Rightarrow> submachine_trace option" where
  "set_block_selectors t sel [] v = Some t"
| "set_block_selectors t sel (i # is) v = do {
     rust_assert (i + 1 \<le> sub_len t);
     t \<leftarrow> set_selector_value t sel (sub_len t - i - 1) v;
     set_block_selectors t sel is v
   }"

definition set_current_block_selector ::
  "submachine_trace \<Rightarrow> nat \<Rightarrow> string \<Rightarrow> int \<Rightarrow> submachine_trace option" where
  "set_current_block_selector t sz sel v = set_block_selectors t sel [0..<sz] v"

definition set_current_row_selector ::
  "submachine_trace \<Rightarrow> string \<Rightarrow> int \<Rightarrow> submachine_trace option" where
  "set_current_row_selector t sel v = do {
     col \<leftarrow> map_of (st_selectors t) sel;
     rust_assert (col \<noteq> []);
     set_selector_value t sel (length col - 1) v
   }"

definition set_final_row :: "submachine_trace \<Rightarrow> nat \<Rightarrow> int \<Rightarrow> submachine_trace" where
  "set_final_row t col v =
     t\<lparr>last_row_overrides := AList.update col (Some v) (last_row_overrides t)\<rparr>"

fun apply_overrides :: "submachine_trace \<Rightarrow> (nat \<times> int option) list \<Rightarrow> submachine_trace option" where
  "apply_overrides t [] = Some t"
| "apply_overrides t ((col, value) # ovs) = do {
     rust_assert (1 \<le> sub_len t);
     t \<leftarrow> (case value of Some v \<Rightarrow> set_row_value t (sub_len t - 1) col v | None \<Rightarrow> Some t);
     apply_overrides t ovs
   }"

definition final_row_override :: "submachine_trace \<Rightarrow> submachine_trace option" where
  "final_row_override t = apply_overrides t (last_row_overrides t)"

definition sub_push_row :: "submachine_trace \<Rightarrow> submachine_trace" where
  "sub_push_row t =
     t\<lparr>st_selectors := map (\<lambda>(k, v). (k, v @ [0])) (st_selectors t),
       st_values := st_values t @ replicate (length (st_cols t)) 0\<rparr>"

text \<open>Copying row \<open>i\<close> to the last row; the loop over the rows of the block ends at the degree.\<close>

fun copy_rows :: "submachine_trace \<Rightarrow> nat \<Rightarrow> nat list \<Rightarrow> submachine_trace option" where
  "copy_rows t degree [] = Some t"
| "copy_rows t degree (i # is) =
     (if sub_len t = degree then Some t
      else do {
        let t = sub_push_row t;
        let n = length (st_cols t);
        rust_assert (1 \<le> sub_len t);
        let start_idx = (sub_len t - 1) * n;
        rust_assert (start_idx \<le> length (st_values t));
        let start = take start_idx (st_values t);
        let last_row = drop start_idx (st_values t);
        rust_assert (n * (i + 1) \<le> length start);
        let src = take n (drop (n * i) start);
        rust_assert (length last_row = length src);
        copy_rows (t\<lparr>st_values := start @ src\<rparr>) degree is
      })"

definition push_dummy_block :: "submachine_trace \<Rightarrow> nat \<Rightarrow> nat \<Rightarrow> submachine_trace option" where
  "push_dummy_block t machine_max_degree sz =
     copy_rows t machine_max_degree [0..<sz] \<bind> final_row_override"

fun column_values :: "int list \<Rightarrow> nat \<Rightarrow> nat \<Rightarrow> nat list \<Rightarrow> int list option" where
  "column_values values row_len idx [] = Some []"
| "column_values values row_len idx (row # rows) = do {
     v \<leftarrow> vec_get values (row * row_len + idx);
     vs \<leftarrow> column_values values row_len idx rows;
     Some (v # vs)
   }"

fun columns_from :: "submachine_trace \<Rightarrow> nat \<Rightarrow> string list \<Rightarrow> (string \<times> int list) list option" where
  "columns_from t idx [] = Some []"
| "columns_from t idx (name # names) = do {
     vs \<leftarrow> column_values (st_values t) (length (st_cols t)) idx [0..<sub_len t];
     cols \<leftarrow> columns_from t (idx + 1) names;
     Some ((name, vs) # cols)
   }"

definition take_cols :: "submachine_trace \<Rightarrow> (string \<times> int list) list option" where
  "take_cols t = do {
     cols \<leftarrow> columns_from t 0 (st_cols t);
     Some (cols @ st_selectors t)
   }"

section \<open>Kinds of submachines\<close>

text \<open>The trait \<open>SubmachineKind\<close>.\<close>

type_synonym lookup_arguments = "int \<times> int \<times> int \<times> int"

record submachine_kind =
  SELECTORS :: string
  BLOCK_SIZE :: nat
  kind_cols :: "string list"
  kind_add_operation ::
    "submachine_trace \<Rightarrow> string option \<Rightarrow> lookup_arguments \<Rightarrow> int list \<Rightarrow> submachine_trace option"
  dummy_block_fix :: "submachine_trace \<Rightarrow> nat \<Rightarrow> submachine_trace option"

definition starts_with :: "string \<Rightarrow> string \<Rightarrow> bool" where
  "starts_with s p \<longleftrightarrow> take (length p) s = p"

fun strip_prefixes :: "string \<Rightarrow> string list \<Rightarrow> string list option" where
  "strip_prefixes prefix [] = Some []"
| "strip_prefixes prefix (c # cs) = do {
     rust_assert (starts_with c prefix);
     cs \<leftarrow> strip_prefixes prefix cs;
     Some (drop (length prefix) c # cs)
   }"

definition submachine_new ::
  "submachine_kind \<Rightarrow> string \<Rightarrow> string list \<Rightarrow> submachine_trace option" where
  "submachine_new K namespace witness_cols = do {
     cols \<leftarrow> strip_prefixes (namespace @ ''::'') (filter (\<lambda>c. starts_with c namespace) witness_cols);
     let selectors = filter (\<lambda>c. starts_with c (SELECTORS K @ ''['')) cols;
     Some (submachine_trace_new namespace (kind_cols K) selectors)
   }"

text \<open>\<open>while self.len() < degree\<close> of \<open>finish\<close>. Each iteration adds a row, so \<open>degree\<close> iterations
  are enough; the value \<open>None\<close> for used up fuel is not reached.\<close>

fun fill_to_degree ::
  "nat \<Rightarrow> submachine_kind \<Rightarrow> submachine_trace \<Rightarrow> nat \<Rightarrow> submachine_trace option" where
  "fill_to_degree fuel K t degree =
     (if \<not> sub_len t < degree then Some t
      else case fuel of
        0 \<Rightarrow> None
      | Suc fuel \<Rightarrow> do {
          let prev_len = sub_len t;
          t \<leftarrow> push_dummy_block t degree (BLOCK_SIZE K);
          rust_assert (prev_len \<le> sub_len t);
          let dummy_size = sub_len t - prev_len;
          t \<leftarrow> dummy_block_fix K t dummy_size;
          fill_to_degree fuel K t degree
        })"

declare fill_to_degree.simps [simp del]

definition submachine_finish ::
  "submachine_kind \<Rightarrow> submachine_trace \<Rightarrow> nat \<Rightarrow> (string \<times> int list) list option" where
  "submachine_finish K t degree = do {
     rust_assert (sub_len t \<le> degree);
     t \<leftarrow> final_row_override t;
     t \<leftarrow> fill_to_degree degree K t degree;
     cols \<leftarrow> take_cols t;
     Some (map (\<lambda>(k, v). (st_namespace t @ ''::'' @ k, v)) cols)
   }"

text \<open>Several columns of the current row, of a new row, and of the row before a block: the last row
  of the previous block, or the last row of the whole trace for the first block.\<close>

fun set_row_cols :: "submachine_trace \<Rightarrow> (nat \<times> int) list \<Rightarrow> submachine_trace option" where
  "set_row_cols t [] = Some t"
| "set_row_cols t ((c, v) # cvs) = set_current_row t c v \<bind> (\<lambda>t. set_row_cols t cvs)"

definition add_row :: "submachine_trace \<Rightarrow> (nat \<times> int) list \<Rightarrow> submachine_trace option" where
  "add_row t cvs = set_row_cols (sub_push_row t) cvs"

definition set_previous_row :: "submachine_trace \<Rightarrow> (nat \<times> int) list \<Rightarrow> submachine_trace option" where
  "set_previous_row t cvs =
     (if sub_len t > 0 then set_row_cols t cvs
      else Some (fold (\<lambda>(c, v) t. set_final_row t c v) cvs t))"

end
