(* ===== verification/Riscv_Blocks.thy ===== *)
theory Riscv_Blocks
  imports Riscv_Submachines
begin

text \<open>
  Block machines in general. The flat vector of a submachine trace is viewed as a list of rows, and
  the interface of a kind of submachine becomes the locale \<open>block_kind\<close>: an operation appends a
  block of rows and fills the pending columns of the row before it. From this law alone follow the
  rows of a finished trace: one block per operation, dummy blocks that repeat the first one, and
  in the last row of every block the values that belong to the next block, cyclically.
\<close>

section \<open>The row view\<close>

definition rows_ok :: "nat \<Rightarrow> int list list \<Rightarrow> bool" where
  "rows_ok n R \<longleftrightarrow> (\<forall>r \<in> set R. length r = n)"

definition sels :: "string list \<Rightarrow> (string \<Rightarrow> int list) \<Rightarrow> (string \<times> int list) list" where
  "sels names G = map (\<lambda>k. (k, G k)) names"

definition view ::
  "submachine_trace \<Rightarrow> int list list \<Rightarrow> (string \<times> int list) list \<Rightarrow> (nat \<times> int option) list
     \<Rightarrow> submachine_trace" where
  "view t R S ov = t\<lparr>st_values := concat R, st_selectors := S, last_row_overrides := ov\<rparr>"

definition apply_row :: "(nat \<times> int) list \<Rightarrow> int list \<Rightarrow> int list" where
  "apply_row cvs r = fold (\<lambda>(c, v) r. r[c := v]) cvs r"

definition upd_last :: "(nat \<times> int) list \<Rightarrow> int list list \<Rightarrow> int list list" where
  "upd_last cvs R = (if R = [] then [] else butlast R @ [apply_row cvs (last R)])"

definition finals :: "(nat \<times> int) list \<Rightarrow> (nat \<times> int option) list" where
  "finals cvs = map (\<lambda>(c, v). (c, Some v)) cvs"

lemma rows_ok_simps [simp]:
  "rows_ok n []"
  "rows_ok n (r # R) \<longleftrightarrow> length r = n \<and> rows_ok n R"
  "rows_ok n (R @ R') \<longleftrightarrow> rows_ok n R \<and> rows_ok n R'"
  by (auto simp: rows_ok_def)

lemma rows_ok_concat: "\<forall>R \<in> set Rs. rows_ok n R \<Longrightarrow> rows_ok n (concat Rs)"
  by (induction Rs) auto

lemma rows_ok_take: "rows_ok n R \<Longrightarrow> rows_ok n (take k R)"
  by (auto simp: rows_ok_def dest: in_set_takeD)

lemma rows_ok_nth: "rows_ok n R \<Longrightarrow> i < length R \<Longrightarrow> length (R ! i) = n"
  by (simp add: rows_ok_def)

lemma length_concat_rows: "rows_ok n R \<Longrightarrow> length (concat R) = n * length R"
  by (induction R) auto

lemma concat_rows_update:
  "rows_ok n R \<Longrightarrow> i < length R \<Longrightarrow> c < n \<Longrightarrow>
     (concat R)[i * n + c := v] = concat (R[i := (R ! i)[c := v]])"
proof (induction R arbitrary: i)
  case (Cons r R)
  then show ?case
    by (cases i) (auto simp: list_update_append algebra_simps)
qed simp

lemma concat_rows_nth:
  "rows_ok n R \<Longrightarrow> i < length R \<Longrightarrow> c < n \<Longrightarrow> concat R ! (i * n + c) = R ! i ! c"
proof (induction R arbitrary: i)
  case (Cons r R)
  then show ?case
    by (cases i) (auto simp: nth_append algebra_simps)
qed simp

lemma concat_rows_slice:
  "rows_ok n R \<Longrightarrow> i < length R \<Longrightarrow> take n (drop (n * i) (concat R)) = R ! i"
proof (induction R arbitrary: i)
  case (Cons r R)
  then show ?case
    by (cases i) auto
qed simp

lemma length_apply_row [simp]: "length (apply_row cvs r) = length r"
  by (induction cvs arbitrary: r) (auto simp: apply_row_def split_beta)

lemma apply_row_simps [simp]:
  "apply_row [] r = r"
  "apply_row ((c, v) # cvs) r = apply_row cvs (r[c := v])"
  by (simp_all add: apply_row_def)

lemma length_upd_last [simp]: "length (upd_last cvs R) = length R"
  by (auto simp: upd_last_def)

lemma upd_last_simps [simp]:
  "upd_last cvs [] = []"
  "upd_last cvs (R @ [r]) = R @ [apply_row cvs r]"
  by (simp_all add: upd_last_def)

lemma upd_last_append: "R' \<noteq> [] \<Longrightarrow> upd_last cvs (R @ R') = R @ upd_last cvs R'"
  by (simp add: upd_last_def butlast_append)

lemma rows_ok_upd_last [simp]: "rows_ok n (upd_last cvs R) \<longleftrightarrow> rows_ok n R"
  by (cases R rule: rev_cases) auto

lemma hd_upd_last: "1 < length R \<Longrightarrow> hd (upd_last cvs R) = hd R"
  by (cases R rule: rev_cases) (auto simp: hd_append)

text \<open>Two updates of the same columns: the second wins.\<close>

lemma apply_row_nth:
  "distinct (map fst cvs) \<Longrightarrow> i < length r \<Longrightarrow>
     apply_row cvs r ! i = (case map_of cvs i of Some v \<Rightarrow> v | None \<Rightarrow> r ! i)"
proof (induction cvs arbitrary: r)
  case (Cons cv cvs)
  obtain c v where cv: "cv = (c, v)" by (cases cv)
  with Cons.prems have "map_of cvs c = None" by (simp add: map_of_eq_None_iff)
  with Cons show ?case
    by (cases "i = c") (simp_all add: cv split: option.split)
qed simp

lemma apply_row_twice:
  assumes "map fst cvs = map fst cvs'" "distinct (map fst cvs)"
  shows "apply_row cvs' (apply_row cvs r) = apply_row cvs' r"
proof (rule nth_equalityI)
  fix i assume "i < length (apply_row cvs' (apply_row cvs r))"
  moreover have "map_of cvs' i = None \<Longrightarrow> map_of cvs i = None"
    using assms(1) by (metis list.set_map map_of_eq_None_iff)
  ultimately show "apply_row cvs' (apply_row cvs r) ! i = apply_row cvs' r ! i"
    using assms by (auto simp: apply_row_nth split: option.split)
qed simp

lemma upd_last_twice:
  "map fst cvs = map fst cvs' \<Longrightarrow> distinct (map fst cvs) \<Longrightarrow>
     upd_last cvs' (upd_last cvs R) = upd_last cvs' R"
  by (cases R rule: rev_cases) (simp_all add: apply_row_twice)

section \<open>Operations on the view\<close>

lemma view_simps [simp]:
  "st_values (view t R S ov) = concat R" "st_selectors (view t R S ov) = S"
  "last_row_overrides (view t R S ov) = ov" "st_cols (view t R S ov) = st_cols t"
  "st_namespace (view t R S ov) = st_namespace t"
  "view (view t R S ov) R' S' ov' = view t R' S' ov'"
  by (simp_all add: view_def)

lemma sels_simps:
  assumes "k \<in> set names"
  shows "map_of (sels names G) k = Some (G k)"
    and "distinct names \<Longrightarrow> AList.update k c (sels names G) = sels names (G(k := c))"
proof -
  show "map_of (sels names G) k = Some (G k)"
    using assms by (simp add: sels_def map_of_map_restrict)
  show "distinct names \<Longrightarrow> AList.update k c (sels names G) = sels names (G(k := c))"
    using assms by (induction names) (auto simp: sels_def)
qed

text \<open>A view whose rows have the length of the columns and fit into \<open>u32\<close>.\<close>

definition fits :: "submachine_trace \<Rightarrow> nat \<Rightarrow> nat \<Rightarrow> bool" where
  "fits t n k \<longleftrightarrow> length (st_cols t) = n \<and> 0 < n \<and> n * k < 2 ^ 32"

lemma fits_less: "fits t n k \<Longrightarrow> l \<le> k \<Longrightarrow> fits t n l"
  unfolding fits_def by (meson mult_le_mono2 order.strict_trans1)

lemma sub_len_view:
  assumes "fits t n (length R)" "rows_ok n R"
  shows "sub_len (view t R S ov) = length R"
proof (cases "R = []")
  case False
  then have "n \<le> n * length R" by (cases R) auto
  then have "n < 2 ^ 32" using assms(1) unfolding fits_def by linarith
  then show ?thesis using assms by (simp add: sub_len_def fits_def length_concat_rows)
qed (simp add: sub_len_def)

lemma set_row_value_view:
  assumes "fits t n (length R)" "rows_ok n R" "i < length R" "c < n"
  shows "set_row_value (view t R S ov) i c v = Some (view t (R[i := (R ! i)[c := v]]) S ov)"
proof -
  have "i * n + c < n * length R"
    using assms(3,4) mult_le_mono1[of "Suc i" "length R" n] by (simp add: ac_simps)
  with assms show ?thesis
    by (simp add: set_row_value_def vec_set_def fits_def length_concat_rows concat_rows_update view_def)
qed

lemma set_current_row_view:
  assumes "fits t n (Suc (length R))" "rows_ok n (R @ [r])" "c < n"
  shows "set_current_row (view t (R @ [r]) S ov) c v = Some (view t (R @ [r[c := v]]) S ov)"
  using assms sub_len_view[of t n "R @ [r]" S ov] set_row_value_view[of t n "R @ [r]" "length R" c S ov v]
  by (simp add: set_current_row_def)

lemma set_row_cols_view:
  "fits t n (Suc (length R)) \<Longrightarrow> rows_ok n (R @ [r]) \<Longrightarrow> \<forall>c \<in> set (map fst cvs). c < n \<Longrightarrow>
     set_row_cols (view t (R @ [r]) S ov) cvs = Some (view t (R @ [apply_row cvs r]) S ov)"
  by (induction cvs arbitrary: r) (auto simp: set_current_row_view)

lemma sub_push_row_view:
  "length (st_cols t) = n \<Longrightarrow> sub_push_row (view t R (sels names G) ov)
     = view t (R @ [replicate n 0]) (sels names (\<lambda>k. G k @ [0])) ov"
  by (simp add: sub_push_row_def view_def sels_def)

lemma add_row_view:
  assumes "fits t n (Suc (length R))" "rows_ok n R" "\<forall>c \<in> set (map fst cvs). c < n"
  shows "add_row (view t R (sels names G) ov) cvs
    = Some (view t (R @ [apply_row cvs (replicate n 0)]) (sels names (\<lambda>k. G k @ [0])) ov)"
  using assms set_row_cols_view[of t n R "replicate n 0" cvs]
  by (simp add: add_row_def sub_push_row_view fits_def)

lemma set_current_row_selector_view:
  assumes "k \<in> set names" "distinct names" "G k \<noteq> []"
  shows "set_current_row_selector (view t R (sels names G) ov) k v
    = Some (view t R (sels names (G(k := butlast (G k) @ [v]))) ov)"
proof -
  have "(G k)[length (G k) - Suc 0 := v] = butlast (G k) @ [v]"
    using assms(3) by (cases "G k" rule: rev_cases) simp_all
  with assms show ?thesis
    by (simp add: set_current_row_selector_def set_selector_value_def sels_simps vec_set_def view_def)
qed

lemma update_finals:
  "distinct (map fst cvs) \<Longrightarrow> c \<notin> set (map fst cvs) \<Longrightarrow>
     AList.update c (Some v) (finals cvs) = finals (cvs @ [(c, v)])"
  by (induction cvs) (auto simp: finals_def)

lemma set_finals_view:
  "distinct (map fst cvs) \<Longrightarrow>
     fold (\<lambda>(c, v) t. set_final_row t c v) cvs (view t R S []) = view t R S (finals cvs)"
proof (induction cvs rule: rev_induct)
  case (snoc cv cvs)
  obtain c v where cv: "cv = (c, v)" by (cases cv)
  from snoc have "fold (\<lambda>(c, v) t. set_final_row t c v) cvs (view t R S []) = view t R S (finals cvs)"
    by simp
  with snoc.prems show ?case
    by (simp add: cv set_final_row_def update_finals view_def)
qed (simp add: finals_def)

lemma set_previous_row_view:
  assumes "fits t n (length R)" "rows_ok n R" "\<forall>c \<in> set (map fst cvs). c < n"
    and "distinct (map fst cvs)" "R = [] \<Longrightarrow> ov = []"
  shows "set_previous_row (view t R S ov) cvs
    = Some (view t (upd_last cvs R) S (if R = [] then finals cvs else ov))"
proof (cases R rule: rev_cases)
  case Nil
  then show ?thesis
    using assms set_finals_view[OF assms(4), of t "[]" S] sub_len_view[OF assms(1,2)]
    by (simp add: set_previous_row_def)
next
  case (snoc R' r)
  then show ?thesis
    using assms sub_len_view[OF assms(1,2)] set_row_cols_view[of t n R' r cvs S ov]
    by (simp add: set_previous_row_def)
qed

lemma apply_overrides_view:
  "fits t n (Suc (length R)) \<Longrightarrow> rows_ok n (R @ [r]) \<Longrightarrow> \<forall>c \<in> set (map fst cvs). c < n \<Longrightarrow>
     apply_overrides (view t (R @ [r]) S ov) (finals cvs) = Some (view t (R @ [apply_row cvs r]) S ov)"
proof (induction cvs arbitrary: r)
  case (Cons cv cvs)
  obtain c v where cv: "cv = (c, v)" by (cases cv)
  from Cons show ?case
    using sub_len_view[of t n "R @ [r]" S ov] set_row_value_view[of t n "R @ [r]" "length R" c S ov v]
    by (simp add: cv finals_def)
qed (simp add: finals_def)

lemma final_row_override_view:
  assumes "fits t n (length R)" "rows_ok n R" "\<forall>c \<in> set (map fst cvs). c < n" "R \<noteq> []"
  shows "final_row_override (view t R S (finals cvs)) = Some (view t (upd_last cvs R) S (finals cvs))"
  using assms apply_overrides_view[of t n "butlast R" "last R" cvs S "finals cvs"]
  by (cases R rule: rev_cases) (simp_all add: final_row_override_def)

lemma copy_rows_view:
  assumes "fits t n (length R + b)" "rows_ok n R" "b \<le> length R" "length R + b \<le> degree" "j \<le> b"
  shows "copy_rows (view t (R @ take j R) (sels names G) ov) degree [j..<b]
    = Some (view t (R @ take b R) (sels names (\<lambda>k. G k @ replicate (b - j) 0)) ov)"
  using assms(5)
proof (induction "b - j" arbitrary: j G)
  case (Suc d)
  then have j: "j < b" by simp
  define R' where "R' = R @ take j R"
  have len: "length R' = length R + j" using j assms(3) by (simp add: R'_def)
  have ok: "rows_ok n R'" "rows_ok n (R' @ [replicate n 0])"
    using assms(2) by (simp_all add: R'_def rows_ok_take)
  have n: "length (st_cols t) = n" "0 < n" using assms(1) by (simp_all add: fits_def)
  have fit: "fits t n (length R')" "fits t n (length (R' @ [replicate n 0]))"
    using assms(1) j by (auto simp: len intro: fits_less)
  have sl: "sub_len (view t R' S ov) = length R + j"
      "sub_len (view t (R' @ [replicate n 0]) S ov) = Suc (length R + j)" for S ov
    using sub_len_view[OF fit(1) ok(1)] sub_len_view[OF fit(2) ok(2)] by (simp_all add: len)
  have lc: "length (concat R') = n * (length R + j)" using length_concat_rows[OF ok(1)] len by simp
  have tk: "take n (drop (n * j) (concat R')) = R ! j"
  proof -
    have "j < length R" using j assms(3) by simp
    then have "j < length R'" "R' ! j = R ! j" by (auto simp: len) (auto simp: R'_def nth_append)
    with concat_rows_slice[OF ok(1)] show ?thesis by simp
  qed
  have [simp]: "length (R ! j) = n" using assms(2,3) j by (auto intro: rows_ok_nth)
  have "n * Suc j \<le> n * (length R + j)" using j assms(3) by (intro mult_le_mono2) linarith
  then have le: "n + n * j \<le> n * (length R + j)" by simp
  have upt: "[j..<b] = j # [Suc j..<b]" using j by (simp add: upt_conv_Cons)
  have "concat (R @ take (Suc j) R) = concat R' @ R ! j"
    using j assms(3) by (simp add: R'_def take_Suc_conv_app_nth)
  then have v: "view t (R @ take (Suc j) R) S ov
      = (view t (R' @ [replicate n 0]) S ov)\<lparr>st_values := concat R' @ R ! j\<rparr>" for S
    by (simp add: view_def)
  have step: "copy_rows (view t (R @ take j R) (sels names G) ov) degree [j..<b]
      = copy_rows (view t (R @ take (Suc j) R) (sels names (\<lambda>k. G k @ [0])) ov) degree [Suc j..<b]"
    unfolding upt v R'_def [symmetric]
    using j assms(4) n(2) lc le tk
    by (simp add: sub_push_row_view[OF n(1)] n(1) Let_def sl mult.commute[of "length R + j"])
  show ?case
    unfolding step using Suc.hyps(1)[of "Suc j" "\<lambda>k. G k @ [0]"] Suc.hyps(2) j
    by (simp add: Suc_diff_Suc flip: replicate_Suc)
qed simp

lemma push_dummy_block_view:
  assumes "fits t n (length R + b)" "rows_ok n R" "0 < b" "b \<le> length R" "length R + b \<le> degree"
    and "\<forall>c \<in> set (map fst cvs). c < n"
  shows "push_dummy_block (view t R (sels names G) (finals cvs)) degree b
    = Some (view t (R @ upd_last cvs (take b R)) (sels names (\<lambda>k. G k @ replicate b 0)) (finals cvs))"
proof -
  let ?R = "R @ take b R"
  have "copy_rows (view t R (sels names G) (finals cvs)) degree [0..<b]
      = Some (view t ?R (sels names (\<lambda>k. G k @ replicate b 0)) (finals cvs))"
    using copy_rows_view[OF assms(1,2,4,5), of 0 names G "finals cvs"] by simp
  moreover have "final_row_override (view t ?R S (finals cvs)) = Some (view t (upd_last cvs ?R) S (finals cvs))" for S
    using assms by (intro final_row_override_view[of t n]) (auto simp: rows_ok_take)
  moreover have "upd_last cvs ?R = R @ upd_last cvs (take b R)"
    using assms(3,4) by (intro upd_last_append) auto
  ultimately show ?thesis by (simp add: push_dummy_block_def)
qed

definition columns :: "string list \<Rightarrow> int list list \<Rightarrow> (string \<times> int list) list" where
  "columns names R = map (\<lambda>(i, name). (name, map (\<lambda>r. r ! i) R)) (enumerate 0 names)"

lemma column_values_rows:
  assumes "rows_ok n R" "c < n" "\<forall>i \<in> set is. i < length R"
  shows "column_values (concat R) n c is = Some (map (\<lambda>i. R ! i ! c) is)"
  using assms(3)
proof (induction "is")
  case (Cons i "is")
  then have i: "i < length R" by simp
  have "i * n + c < n * length R"
    using i assms(2) mult_le_mono1[of "Suc i" "length R" n] by (simp add: ac_simps)
  with Cons i assms(1,2) show ?case
    by (simp add: vec_get_def length_concat_rows concat_rows_nth)
qed simp

lemma columns_from_rows:
  assumes "fits t n (length R)" "rows_ok n R" "idx + length names \<le> n"
  shows "columns_from (view t R S ov) idx names
    = Some (map (\<lambda>(i, name). (name, map (\<lambda>r. r ! i) R)) (enumerate idx names))"
  using assms(3)
proof (induction names arbitrary: idx)
  case (Cons name names)
  have "map (\<lambda>i. R ! i ! idx) [0..<length R] = map (\<lambda>r. r ! idx) R"
    by (rule nth_equalityI) simp_all
  with Cons assms column_values_rows[OF assms(2), of idx "[0..<length R]"] sub_len_view[OF assms(1,2)] show ?case
    by (simp add: fits_def)
qed simp

lemma take_cols_view:
  assumes "fits t n (length R)" "rows_ok n R"
  shows "take_cols (view t R S ov) = Some (columns (st_cols t) R @ S)"
  using columns_from_rows[OF assms, of 0 "st_cols t"] assms(1)
  by (simp add: take_cols_def columns_def fits_def)

section \<open>Cyclic constraints\<close>

text \<open>A constraint relates a row with the next one; the rows are cyclic. The number of the row is an
  argument, for the fixed columns.\<close>

definition cyclic :: "(nat \<Rightarrow> 'a \<Rightarrow> 'a \<Rightarrow> bool) \<Rightarrow> 'a list \<Rightarrow> bool" where
  "cyclic C R \<longleftrightarrow> (\<forall>i < length R. C i (R ! i) (R ! ((i + 1) mod length R)))"

fun steps :: "(nat \<Rightarrow> 'a \<Rightarrow> 'a \<Rightarrow> bool) \<Rightarrow> nat \<Rightarrow> 'a list \<Rightarrow> 'a \<Rightarrow> bool" where
  "steps C i [] x \<longleftrightarrow> True"
| "steps C i [r] x \<longleftrightarrow> C i r x"
| "steps C i (r # s # R) x \<longleftrightarrow> C i r s \<and> steps C (Suc i) (s # R) x"

lemma steps_iff: "steps C i R x \<longleftrightarrow> (\<forall>j < length R. C (i + j) (R ! j) ((R @ [x]) ! Suc j))"
proof (induction C i R x rule: steps.induct)
  case (3 C i r s R x)
  then show ?case by (simp add: All_less_Suc2)
qed simp_all

lemma steps_append: "R' \<noteq> [] \<Longrightarrow>
    steps C i (R @ R') x \<longleftrightarrow> steps C i R (hd R') \<and> steps C (i + length R) R' x"
proof (induction C i R "hd R'" rule: steps.induct)
  case (2 C i r)
  then show ?case by (cases R') simp_all
qed simp_all

lemma cyclic_steps: "R \<noteq> [] \<Longrightarrow> cyclic C R \<longleftrightarrow> steps C 0 R (hd R)"
proof -
  assume ne: "R \<noteq> []"
  have "(R @ [hd R]) ! Suc j = R ! (Suc j mod length R)" if "j < length R" for j
    using that ne by (cases "Suc j = length R") (simp_all add: nth_append hd_conv_nth)
  then show ?thesis by (simp add: cyclic_def steps_iff)
qed

section \<open>Adding a block\<close>

fun add_rows :: "submachine_trace \<Rightarrow> (nat \<times> int) list list \<Rightarrow> submachine_trace option" where
  "add_rows t [] = Some t"
| "add_rows t (r # rs) = add_row t r \<bind> (\<lambda>t. add_rows t rs)"

abbreviation filled :: "nat \<Rightarrow> (nat \<times> int) list \<Rightarrow> int list" where
  "filled n cvs \<equiv> apply_row cvs (replicate n 0)"

lemma add_rows_view:
  "fits t n (length R + length rs) \<Longrightarrow> rows_ok n R \<Longrightarrow> \<forall>r \<in> set rs. \<forall>c \<in> set (map fst r). c < n \<Longrightarrow>
     add_rows (view t R (sels names G) ov) rs
       = Some (view t (R @ map (filled n) rs) (sels names (\<lambda>k. G k @ replicate (length rs) 0)) ov)"
proof (induction rs arbitrary: R G)
  case (Cons r rs)
  have "fits t n (Suc (length R))" using Cons.prems(1) by (rule fits_less) simp
  with Cons show ?case by (simp add: add_row_view[where n = n])
qed simp

definition sel_block :: "nat \<Rightarrow> bool \<Rightarrow> int list" where
  "sel_block b s = replicate (b - 1) 0 @ [if s then 1 else 0]"

lemma length_sel_block [simp]: "0 < b \<Longrightarrow> length (sel_block b s) = b"
  by (simp add: sel_block_def)

lemma sel_block_append:
  assumes "0 < b"
  shows "(\<lambda>k'. G k' @ replicate b 0)(k := butlast (G k @ replicate b 0) @ [1])
    = (\<lambda>k'. G k' @ sel_block b (k' = k))"
  using assms by (cases b) (auto simp: fun_eq_iff sel_block_def butlast_append replicate_append_same [symmetric])

lemma block_add:
  assumes "fits t n (length R + length rs)" "rows_ok n R" "rs \<noteq> []"
    and "\<forall>r \<in> set rs. \<forall>c \<in> set (map fst r). c < n"
    and "\<forall>c \<in> set (map fst ovs). c < n" "distinct (map fst ovs)" "R = [] \<Longrightarrow> ov = []"
    and "k \<in> set names" "distinct names"
  shows "set_previous_row (view t R (sels names G) ov) ovs \<bind> (\<lambda>t. add_rows t rs
      \<bind> (\<lambda>t. set_current_row_selector t k 1))
    = Some (view t (upd_last ovs R @ map (filled n) rs)
        (sels names (\<lambda>k'. G k' @ sel_block (length rs) (k' = k))) (if R = [] then finals ovs else ov))"
proof -
  have "fits t n (length R)" using assms(1) by (rule fits_less) simp
  then show ?thesis
    using assms set_current_row_selector_view[of k names "\<lambda>k'. G k' @ replicate (length rs) 0"]
    by (simp add: set_previous_row_view[where n = n] add_rows_view[where n = n] sel_block_append)
qed

section \<open>Block machines\<close>

text \<open>The operations of a machine, applied in order as \<open>finish\<close> of the executor does.\<close>

fun add_operations ::
  "submachine_kind \<Rightarrow> submachine_trace \<Rightarrow> (string \<times> lookup_arguments) list \<Rightarrow> submachine_trace option" where
  "add_operations K t [] = Some t"
| "add_operations K t ((sel, args) # ops) =
     kind_add_operation K t (Some sel) args [] \<bind> (\<lambda>t. add_operations K t ops)"

locale block_kind =
  fixes K :: submachine_kind
    and valid :: "lookup_arguments \<Rightarrow> bool"
    and blk :: "lookup_arguments \<Rightarrow> int list list"
    and ovr :: "lookup_arguments \<Rightarrow> (nat \<times> int) list"
    and ovr_cols :: "nat list"
  assumes block_size: "1 < BLOCK_SIZE K"
    and some_col: "kind_cols K \<noteq> []"
    and blk_length: "length (blk a) = BLOCK_SIZE K"
    and blk_rows: "rows_ok (length (kind_cols K)) (blk a)"
    and ovr_fst: "map fst (ovr a) = ovr_cols"
    and ovr_cols: "distinct ovr_cols" "\<forall>c \<in> set ovr_cols. c < length (kind_cols K)"
    and no_fix: "dummy_block_fix K t k = Some t"
    and add_op: "valid a \<Longrightarrow> st_cols t = kind_cols K \<Longrightarrow> rows_ok (length (kind_cols K)) R \<Longrightarrow>
      fits t (length (kind_cols K)) (length R + BLOCK_SIZE K) \<Longrightarrow>
      only_column_name sel \<in> set names \<Longrightarrow> distinct names \<Longrightarrow> (R = [] \<Longrightarrow> ov = []) \<Longrightarrow>
      kind_add_operation K (view t R (sels names G) ov) (Some sel) a []
        = Some (view t (upd_last (ovr a) R @ blk a)
            (sels names (\<lambda>k. G k @ sel_block (BLOCK_SIZE K) (k = only_column_name sel)))
            (if R = [] then finals (ovr a) else ov))"
begin

text \<open>The blocks of the operations \<open>as\<close>, when the operation \<open>e\<close> follows the last one.\<close>

fun linked :: "lookup_arguments list \<Rightarrow> lookup_arguments \<Rightarrow> int list list" where
  "linked [] e = []"
| "linked [a] e = upd_last (ovr e) (blk a)"
| "linked (a # b # as) e = upd_last (ovr b) (blk a) @ linked (b # as) e"

lemma blk_ne: "blk a \<noteq> []"
  using blk_length[of a] block_size by auto

lemma length_linked: "length (linked as e) = length as * BLOCK_SIZE K"
  by (induction as e rule: linked.induct) (simp_all add: blk_length)

lemma rows_ok_linked: "rows_ok (length (kind_cols K)) (linked as e)"
  by (induction as e rule: linked.induct) (simp_all add: blk_rows)

lemma linked_snoc: "linked (as @ [a]) e = linked as a @ upd_last (ovr e) (blk a)"
  by (induction as a rule: linked.induct) simp_all

lemma ovr_distinct: "distinct (map fst (ovr a))" "\<forall>c \<in> set (map fst (ovr a)). c < length (kind_cols K)"
  using ovr_cols by (simp_all add: ovr_fst)

lemma linked_replicate:
  "linked (as @ replicate d e) e = linked as e @ concat (replicate d (upd_last (ovr e) (blk e)))"
proof (induction d)
  case (Suc d)
  have "linked (as @ replicate (Suc d) e) e = linked ((as @ replicate d e) @ [e]) e"
    by (simp add: replicate_append_same)
  also have "\<dots> = linked as e @ concat (replicate d (upd_last (ovr e) (blk e)) @ [upd_last (ovr e) (blk e)])"
    by (simp only: linked_snoc Suc.IH) simp
  finally show ?case by (simp add: replicate_append_same)
qed simp

lemma take_linked_block:
  "upd_last (ovr e) (take (BLOCK_SIZE K) (linked (a # as) e')) = upd_last (ovr e) (blk a)"
  by (cases as) (simp_all add: blk_length upd_last_twice ovr_fst ovr_cols)

text \<open>The selector columns: one in the last row of the blocks of the operations that use it.\<close>

definition sel_column :: "(string \<times> lookup_arguments) list \<Rightarrow> string \<Rightarrow> int list" where
  "sel_column ops k = concat (map (\<lambda>(s, a). sel_block (BLOCK_SIZE K) (k = only_column_name s)) ops)"

lemma sel_column_simps:
  "sel_column [] = (\<lambda>_. [])"
  "sel_column (ops @ [(s, a)])
     = (\<lambda>k. sel_column ops k @ sel_block (BLOCK_SIZE K) (k = only_column_name s))"
  by (simp_all add: sel_column_def fun_eq_iff)

definition after_ops ::
  "submachine_trace \<Rightarrow> string list \<Rightarrow> (string \<times> lookup_arguments) list \<Rightarrow> submachine_trace" where
  "after_ops t names ops = (case ops of
     [] \<Rightarrow> view t [] (sels names (\<lambda>_. [])) []
   | _ \<Rightarrow> view t (linked (butlast (map snd ops)) (snd (last ops)) @ blk (snd (last ops)))
         (sels names (sel_column ops)) (finals (ovr (snd (hd ops)))))"

lemma after_ops_ne:
  "ops \<noteq> [] \<Longrightarrow> after_ops t names ops
     = view t (linked (butlast (map snd ops)) (snd (last ops)) @ blk (snd (last ops)))
         (sels names (sel_column ops)) (finals (ovr (snd (hd ops))))"
  by (simp add: after_ops_def split: list.split)

lemma add_operations_snoc:
  "add_operations K t (ops @ [(s, a)])
     = add_operations K t ops \<bind> (\<lambda>t. kind_add_operation K t (Some s) a [])"
proof (induction ops arbitrary: t)
  case Nil
  show ?case by (cases "kind_add_operation K t (Some s) a []") simp_all
next
  case (Cons op ops)
  then show ?case by (cases op; cases "kind_add_operation K t (Some (fst op)) (snd op) []") simp_all
qed

lemma add_operations_eq:
  assumes "st_cols t = kind_cols K" "distinct names"
    and "fits t (length (kind_cols K)) (length ops * BLOCK_SIZE K)"
    and "\<forall>(s, a) \<in> set ops. valid a \<and> only_column_name s \<in> set names"
  shows "add_operations K (view t [] (sels names (\<lambda>_. [])) []) ops = Some (after_ops t names ops)"
  using assms(3,4)
proof (induction ops rule: rev_induct)
  case (snoc op ops)
  obtain s a where op: "op = (s, a)" by (cases op)
  from snoc.prems have fit: "fits t (length (kind_cols K)) (length ops * BLOCK_SIZE K)"
    by (elim fits_less) simp
  with snoc have IH: "add_operations K (view t [] (sels names (\<lambda>_. [])) []) ops = Some (after_ops t names ops)"
    by simp
  have v: "valid a" "only_column_name s \<in> set names" using snoc.prems op by auto
  show ?case
  proof (cases ops rule: rev_cases)
    case Nil
    then show ?thesis
      using add_op[OF v(1) assms(1), of "[]" s names "[]" "\<lambda>_. []"] v assms(2) snoc.prems(1)
      by (simp add: op after_ops_def sel_column_simps(2)[of "[]", simplified] sel_column_simps(1))
  next
    case (snoc ops' op')
    then have ne: "ops \<noteq> []" by simp
    let ?R = "linked (butlast (map snd ops)) (snd (last ops)) @ blk (snd (last ops))"
    have "length ?R + BLOCK_SIZE K = length (ops @ [op]) * BLOCK_SIZE K"
      using snoc by (simp add: length_linked blk_length)
    then have "fits t (length (kind_cols K)) (length ?R + BLOCK_SIZE K)"
      using snoc.prems(1) by (simp add: add.commute)
    moreover have "rows_ok (length (kind_cols K)) ?R" by (simp add: rows_ok_linked blk_rows)
    moreover have "upd_last (ovr a) ?R = linked (map snd ops) a"
      using snoc linked_snoc[of "map snd ops'" "snd op'" a] by (simp add: upd_last_append blk_ne)
    ultimately show ?thesis
      using add_op[OF v(1) assms(1), of ?R s names "finals (ovr (snd (hd ops)))" "sel_column ops"]
        v assms(2) ne
      unfolding op add_operations_snoc IH
      by (simp add: after_ops_ne blk_ne sel_column_simps)
  qed
qed (simp add: after_ops_def)

lemma fill_to_degree_eq:
  assumes "st_cols t = kind_cols K" "fits t (length (kind_cols K)) degree"
    and "degree = (length (a # as) + d) * BLOCK_SIZE K" "d \<le> fuel"
  shows "fill_to_degree fuel K (view t (linked (a # as) a) (sels names G) (finals (ovr a))) degree
    = Some (view t (linked ((a # as) @ replicate d a) a)
        (sels names (\<lambda>k. G k @ replicate (d * BLOCK_SIZE K) 0)) (finals (ovr a)))"
  using assms(3,4)
proof (induction d arbitrary: as G fuel)
  case 0
  let ?R = "linked (a # as) a"
  have "length ?R = degree" using 0 by (simp add: length_linked del: linked.simps)
  then have "sub_len (view t ?R (sels names G) (finals (ovr a))) = degree"
    using sub_len_view[of t "length (kind_cols K)" ?R] assms(2) rows_ok_linked by (simp del: linked.simps)
  then show ?case by (subst fill_to_degree.simps) (simp del: linked.simps)
next
  case (Suc d)
  let ?R = "linked (a # as) a"
  have len: "length ?R = length (a # as) * BLOCK_SIZE K" by (rule length_linked)
  have deg: "degree = length ?R + Suc d * BLOCK_SIZE K"
    unfolding Suc.prems(1) len by (simp add: algebra_simps)
  have less: "length ?R < degree" "length ?R + BLOCK_SIZE K \<le> degree"
    unfolding deg using block_size by simp_all
  obtain f where f: "fuel = Suc f" "d \<le> f" using Suc.prems(2) by (cases fuel) auto
  have fits: "fits t (length (kind_cols K)) (length ?R)" "fits t (length (kind_cols K)) (length ?R + BLOCK_SIZE K)"
    using less assms(2) by (auto intro: fits_less simp del: linked.simps)
  let ?R' = "linked ((a # as) @ [a]) a"
  have R': "?R @ upd_last (ovr a) (take (BLOCK_SIZE K) ?R) = ?R'"
    unfolding take_linked_block linked_snoc ..
  have len': "length ?R' = length ?R + BLOCK_SIZE K" unfolding length_linked by simp
  have dummy: "push_dummy_block (view t ?R (sels names G) (finals (ovr a))) degree (BLOCK_SIZE K)
      = Some (view t ?R' (sels names (\<lambda>k. G k @ replicate (BLOCK_SIZE K) 0)) (finals (ovr a)))"
    using push_dummy_block_view[OF fits(2) rows_ok_linked _ _ less(2) ovr_distinct(2)[of a], of names G] block_size
    unfolding R' by (simp add: len del: linked.simps)
  have sl: "sub_len (view t ?R S ov) = length ?R" "sub_len (view t ?R' S ov) = length ?R'" for S ov
    using sub_len_view[OF fits(1) rows_ok_linked] sub_len_view[OF fits(2)[folded len'] rows_ok_linked] by blast+
  have IH: "fill_to_degree f K (view t ?R' (sels names (\<lambda>k. G k @ replicate (BLOCK_SIZE K) 0)) (finals (ovr a))) degree
      = Some (view t (linked ((a # as @ [a]) @ replicate d a) a)
          (sels names (\<lambda>k. (G k @ replicate (BLOCK_SIZE K) 0) @ replicate (d * BLOCK_SIZE K) 0)) (finals (ovr a)))"
    using Suc.IH[of "as @ [a]" f] f(2) Suc.prems(1) by simp
  show ?case
    unfolding fill_to_degree.simps[of fuel]
    using IH less(1) len' sl(2)[simplified]
    by (simp add: f(1) sl dummy no_fix replicate_add del: linked.simps)
qed

text \<open>The rows and the columns of the finished machine.\<close>

definition machine_rows :: "(string \<times> lookup_arguments) list \<Rightarrow> nat \<Rightarrow> int list list" where
  "machine_rows ops m =
     linked (map snd ops @ replicate (m - length ops) (snd (hd ops))) (snd (hd ops))"

lemma length_machine_rows: "length ops \<le> m \<Longrightarrow> length (machine_rows ops m) = m * BLOCK_SIZE K"
  by (simp add: machine_rows_def length_linked)

lemma finish_eq:
  assumes "st_cols t = kind_cols K" "distinct names" "ops \<noteq> []" "length ops \<le> m"
    and "fits t (length (kind_cols K)) (m * BLOCK_SIZE K)"
    and "\<forall>(s, a) \<in> set ops. valid a \<and> only_column_name s \<in> set names"
  shows "add_operations K (view t [] (sels names (\<lambda>_. [])) []) ops
      \<bind> (\<lambda>t. submachine_finish K t (m * BLOCK_SIZE K))
    = Some (map (\<lambda>(k, v). (st_namespace t @ ''::'' @ k, v))
        (columns (kind_cols K) (machine_rows ops m) @
         sels names (\<lambda>k. sel_column ops k @ replicate ((m - length ops) * BLOCK_SIZE K) 0)))"
proof -
  let ?as = "map snd ops" and ?e = "snd (hd ops)" and ?D = "m * BLOCK_SIZE K"
  have fits: "fits t (length (kind_cols K)) (length ops * BLOCK_SIZE K)"
    using assms(4,5) by (auto elim: fits_less)
  obtain as where as: "?as = ?e # as" using assms(3) by (cases ops) auto
  let ?R = "linked (butlast ?as) (snd (last ops)) @ blk (snd (last ops))"
  have len: "length ?R = length ops * BLOCK_SIZE K"
    using assms(3) by (cases ops rule: rev_cases) (simp_all add: length_linked blk_length)
  have upd: "upd_last (ovr ?e) ?R = linked ?as ?e"
    using assms(3) linked_snoc[of "butlast ?as" "snd (last ops)" ?e]
    by (cases ops rule: rev_cases) (simp_all add: upd_last_append blk_ne)
  have ok: "rows_ok (length (kind_cols K)) ?R" by (simp add: rows_ok_linked blk_rows)
  have 1: "add_operations K (view t [] (sels names (\<lambda>_. [])) []) ops = Some (after_ops t names ops)"
    using add_operations_eq[OF assms(1,2) fits assms(6)] .
  have 2: "sub_len (after_ops t names ops) \<le> ?D"
    unfolding after_ops_ne[OF assms(3)] using sub_len_view[OF _ ok, of t] fits len assms(4) by simp
  have 3: "final_row_override (after_ops t names ops)
      = Some (view t (linked ?as ?e) (sels names (sel_column ops)) (finals (ovr ?e)))"
    unfolding after_ops_ne[OF assms(3)] upd [symmetric]
    using final_row_override_view[OF _ ok ovr_distinct(2), of t] fits
    by (simp add: len blk_ne del: length_append)
  have 4: "fill_to_degree ?D K (view t (linked ?as ?e) (sels names (sel_column ops)) (finals (ovr ?e))) ?D
      = Some (view t (machine_rows ops m)
          (sels names (\<lambda>k. sel_column ops k @ replicate ((m - length ops) * BLOCK_SIZE K) 0)) (finals (ovr ?e)))"
  proof -
    have "m \<le> ?D" using block_size by (cases "BLOCK_SIZE K") simp_all
    then have "m - length ops \<le> ?D" by linarith
    moreover have "length ops = Suc (length as)" using as by (metis length_Cons length_map)
    ultimately show ?thesis
      using fill_to_degree_eq[OF assms(1,5), of ?e as "m - length ops" ?D names "sel_column ops"] assms(4)
      unfolding as machine_rows_def by simp
  qed
  have 5: "take_cols (view t (machine_rows ops m) S ov) = Some (columns (kind_cols K) (machine_rows ops m) @ S)" for S ov
    using take_cols_view[of t "length (kind_cols K)" "machine_rows ops m"] assms(1,5)
      length_machine_rows[OF assms(4)] rows_ok_linked by (simp add: machine_rows_def)
  show ?thesis using 2 by (simp add: 1 submachine_finish_def 3 4 5)
qed

lemma hd_linked: "hd (linked (a # as) e) = hd (blk a)"
proof -
  have "upd_last cvs (blk a) \<noteq> []" for cvs
    using blk_ne[of a] by (metis length_0_conv length_upd_last)
  then show ?thesis
    using block_size by (cases as) (simp_all add: hd_upd_last blk_length hd_append)
qed

lemma linked_ne: "linked (a # as) e \<noteq> []"
proof -
  have "0 < length (linked (a # as) e)" using block_size unfolding length_linked by simp
  then show ?thesis by blast
qed

lemma steps_block:
  "steps C 0 (upd_last (ovr b) (blk a)) x \<Longrightarrow>
     steps (\<lambda>i. C (i mod BLOCK_SIZE K)) (i * BLOCK_SIZE K) (upd_last (ovr b) (blk a)) x"
  by (simp add: steps_iff blk_length)

lemma steps_linked:
  assumes "\<And>a b. a \<in> S \<Longrightarrow> b \<in> S \<Longrightarrow> steps C 0 (upd_last (ovr b) (blk a)) (hd (blk b))"
  shows "as \<noteq> [] \<Longrightarrow> set (e # as) \<subseteq> S \<Longrightarrow>
    steps (\<lambda>i. C (i mod BLOCK_SIZE K)) (i * BLOCK_SIZE K) (linked as e) (hd (blk e))"
proof (induction as e arbitrary: i rule: linked.induct)
  case (2 a e)
  then show ?case using steps_block[OF assms] by simp
next
  case (3 a b as e)
  let ?C = "\<lambda>i. C (i mod BLOCK_SIZE K)"
  have "steps ?C (Suc i * BLOCK_SIZE K) (linked (b # as) e) (hd (blk e))"
    by (rule "3.IH") (use "3.prems" in auto)
  moreover have "steps ?C (i * BLOCK_SIZE K) (upd_last (ovr b) (blk a)) (hd (linked (b # as) e))"
    using steps_block[OF assms, of a b i] "3.prems" by (simp add: hd_linked)
  ultimately show ?case
    unfolding linked.simps(3)
    by (subst steps_append) (simp_all add: linked_ne blk_length add.commute)
qed simp

lemma finished_constraints:
  assumes "ops \<noteq> []" "length ops \<le> m"
    and step: "\<And>a b. a \<in> snd ` set ops \<Longrightarrow> b \<in> snd ` set ops \<Longrightarrow>
      steps C 0 (upd_last (ovr b) (blk a)) (hd (blk b))"
  shows "cyclic (\<lambda>i. C (i mod BLOCK_SIZE K)) (machine_rows ops m)"
proof -
  let ?as = "map snd ops @ replicate (m - length ops) (snd (hd ops))"
  obtain op ops' where ops: "ops = op # ops'" using assms(1) by (cases ops) auto
  have "steps (\<lambda>i. C (i mod BLOCK_SIZE K)) (0 * BLOCK_SIZE K) (linked ?as (snd (hd ops))) (hd (blk (snd (hd ops))))"
  proof (rule steps_linked[where S = "snd ` set ops", OF step])
    show "set (snd (hd ops) # ?as) \<subseteq> snd ` set ops" by (auto simp: ops)
  qed (simp_all add: ops)
  then have st: "steps (\<lambda>i. C (i mod BLOCK_SIZE K)) 0 (machine_rows ops m) (hd (blk (snd op)))"
    unfolding machine_rows_def by (simp add: ops)
  have r: "machine_rows ops m = linked (snd op # map snd ops' @ replicate (m - length ops) (snd op)) (snd op)"
    by (simp add: machine_rows_def ops)
  show ?thesis
    using st unfolding r by (subst cyclic_steps) (simp_all only: linked_ne hd_linked not_False_eq_True)
qed

text \<open>The last row of each block holds the operation, apart from the columns of the next one; a
  selector is one exactly there.\<close>

lemma linked_latch:
  "j < length as \<Longrightarrow>
     \<exists>b. linked as e ! (j * BLOCK_SIZE K + (BLOCK_SIZE K - 1)) = apply_row (ovr b) (last (blk (as ! j)))"
proof (induction as e arbitrary: j rule: linked.induct)
  case (2 a e)
  then show ?case
    using blk_length[of a] blk_ne[of a] by (intro exI[of _ e]) (simp add: upd_last_def nth_append)
next
  case (3 a b as e)
  show ?case
  proof (cases j)
    case 0
    then show ?thesis
      using blk_length[of a] blk_ne[of a] block_size
      by (intro exI[of _ b]) (simp add: upd_last_def nth_append)
  next
    case (Suc i)
    then have "linked (a # b # as) e ! (j * BLOCK_SIZE K + (BLOCK_SIZE K - 1))
        = linked (b # as) e ! (i * BLOCK_SIZE K + (BLOCK_SIZE K - 1))"
      using blk_length[of a] by (simp add: nth_append)
    with 3 Suc show ?thesis by simp
  qed
qed simp

lemma machine_rows_latch:
  assumes "j < length ops"
  shows "\<exists>b. machine_rows ops m ! (j * BLOCK_SIZE K + (BLOCK_SIZE K - 1)) = apply_row (ovr b) (last (blk (snd (ops ! j))))"
  using linked_latch[of j "map snd ops @ replicate (m - length ops) (snd (hd ops))"] assms
  by (simp add: machine_rows_def nth_append)

lemma ovr_keeps: "c \<notin> set ovr_cols \<Longrightarrow> c < length r \<Longrightarrow> apply_row (ovr b) r ! c = r ! c"
  using ovr_fst[of b] ovr_distinct(1)[of b]
  by (auto simp: apply_row_nth map_of_eq_None_iff split: option.split dest: map_of_SomeD)
     (metis fst_conv image_eqI list.set_map map_of_SomeD)

lemma sel_column_nth:
  "i < length ops * BLOCK_SIZE K \<Longrightarrow> sel_column ops k ! i
     = (if i mod BLOCK_SIZE K = BLOCK_SIZE K - 1 \<and> k = only_column_name (fst (ops ! (i div BLOCK_SIZE K)))
        then 1 else 0)"
proof (induction ops arbitrary: i)
  case (Cons op ops)
  have c: "sel_column (op # ops) k = sel_block (BLOCK_SIZE K) (k = only_column_name (fst op)) @ sel_column ops k"
    by (cases op) (simp add: sel_column_def)
  show ?case
  proof (cases "i < BLOCK_SIZE K")
    case True
    then show ?thesis
      using block_size by (auto simp: c nth_append sel_block_def)
  next
    case False
    then have "sel_column (op # ops) k ! i = sel_column ops k ! (i - BLOCK_SIZE K)"
      using block_size by (simp add: c nth_append)
    moreover have "i div BLOCK_SIZE K = Suc ((i - BLOCK_SIZE K) div BLOCK_SIZE K)"
      "i mod BLOCK_SIZE K = (i - BLOCK_SIZE K) mod BLOCK_SIZE K"
      using False block_size by (simp_all add: le_div_geq le_mod_geq)
    ultimately show ?thesis using Cons.IH[of "i - BLOCK_SIZE K"] Cons.prems False by simp
  qed
qed simp

lemma length_sel_column: "length (sel_column ops k) = length ops * BLOCK_SIZE K"
  using block_size by (induction ops) (auto simp: sel_column_def)

end

section \<open>A new machine\<close>

lemma strip_prefixes_Some: "strip_prefixes p cs = Some ds \<Longrightarrow> cs = map ((@) p) ds"
proof (induction cs arbitrary: ds)
  case (Cons c cs)
  then obtain es where "starts_with c p" "strip_prefixes p cs = Some es" "ds = drop (length p) c # es"
    by (auto split: bind_splits)
  with Cons.IH show ?case
    by (simp add: starts_with_def) (metis append_take_drop_id)
qed simp

lemma fold_new_selectors:
  "distinct (names @ names') \<Longrightarrow>
     fold (\<lambda>n s. AList.update n [] s) names' (sels names (\<lambda>_. [])) = sels (names @ names') (\<lambda>_. [])"
proof (induction names' arbitrary: names)
  case (Cons n names')
  then have "n \<notin> set names" by simp
  then have "AList.update n [] (sels names (\<lambda>_. [])) = sels (names @ [n]) (\<lambda>_. [])"
    by (induction names) (auto simp: sels_def)
  with Cons.IH[of "names @ [n]"] Cons.prems show ?case by simp
qed simp

lemma submachine_new_view:
  assumes "submachine_new K namespace wcols = Some t" "distinct wcols"
  shows "t = view t [] (sels (map fst (st_selectors t)) (\<lambda>_. [])) []"
    and "distinct (map fst (st_selectors t))" "st_cols t = kind_cols K" "st_namespace t = namespace"
proof -
  let ?p = "namespace @ ''::''"
  obtain cols where c: "strip_prefixes ?p (filter (\<lambda>c. starts_with c namespace) wcols) = Some cols"
    and t: "t = submachine_trace_new namespace (kind_cols K) (filter (\<lambda>c. starts_with c (SELECTORS K @ ''['')) cols)"
    using assms(1) by (auto simp: submachine_new_def Let_def split: bind_splits)
  from strip_prefixes_Some[OF c] assms(2) have "distinct cols"
    by (metis distinct_filter distinct_map)
  then have f: "st_selectors t = sels (filter (\<lambda>c. starts_with c (SELECTORS K @ ''['')) cols) (\<lambda>_. [])"
    using fold_new_selectors[of "[]"] by (simp add: t submachine_trace_new_def sels_def)
  then have m: "map fst (st_selectors t) = filter (\<lambda>c. starts_with c (SELECTORS K @ ''['')) cols"
    by (simp add: sels_def o_def)
  show "distinct (map fst (st_selectors t))" using \<open>distinct cols\<close> by (simp add: m)
  show "t = view t [] (sels (map fst (st_selectors t)) (\<lambda>_. [])) []"
    unfolding m f[symmetric] by (simp add: view_def t submachine_trace_new_def)
  show "st_cols t = kind_cols K" "st_namespace t = namespace" by (simp_all add: t submachine_trace_new_def)
qed

text \<open>The whole life of a submachine: \<open>new\<close>, the operations, \<open>finish\<close>.\<close>

definition run_submachine ::
  "submachine_kind \<Rightarrow> submachine_trace \<Rightarrow> (string \<times> lookup_arguments) list \<Rightarrow> nat
     \<Rightarrow> (string \<times> int list) list option" where
  "run_submachine K t ops degree = add_operations K t ops \<bind> (\<lambda>t. submachine_finish K t degree)"

definition with_namespace :: "string \<Rightarrow> (string \<times> int list) list \<Rightarrow> (string \<times> int list) list" where
  "with_namespace namespace cols = map (\<lambda>(k, v). (namespace @ ''::'' @ k, v)) cols"

text \<open>A selector column: one in the last row of the blocks of its operations, zero elsewhere.\<close>

definition selects ::
  "nat \<Rightarrow> (string \<times> lookup_arguments) list \<Rightarrow> nat \<Rightarrow> (string \<Rightarrow> int list) \<Rightarrow> bool" where
  "selects b ops m S \<longleftrightarrow> (\<forall>k. length (S k) = m * b \<and> (\<forall>i < m * b. S k ! i =
     (if i mod b = b - 1 \<and> i div b < length ops \<and> k = only_column_name (fst (ops ! (i div b))) then 1 else 0)))"

context block_kind
begin

lemma selects_columns:
  assumes "length ops \<le> m"
  shows "selects (BLOCK_SIZE K) ops m
    (\<lambda>k. sel_column ops k @ replicate ((m - length ops) * BLOCK_SIZE K) 0)"
  unfolding selects_def
proof (intro allI conjI impI)
  fix k
  show "length (sel_column ops k @ replicate ((m - length ops) * BLOCK_SIZE K) 0) = m * BLOCK_SIZE K"
    using assms by (simp add: length_sel_column flip: add_mult_distrib)
  fix i assume "i < m * BLOCK_SIZE K"
  have lt: "i < length ops * BLOCK_SIZE K \<longleftrightarrow> i div BLOCK_SIZE K < length ops"
    using block_size by (simp add: div_less_iff_less_mult)
  have "i - length ops * BLOCK_SIZE K < (m - length ops) * BLOCK_SIZE K"
    if "\<not> i < length ops * BLOCK_SIZE K"
    using \<open>i < m * BLOCK_SIZE K\<close> that by (simp add: diff_mult_distrib)
  then show "(sel_column ops k @ replicate ((m - length ops) * BLOCK_SIZE K) 0) ! i =
      (if i mod BLOCK_SIZE K = BLOCK_SIZE K - 1 \<and> i div BLOCK_SIZE K < length ops \<and>
          k = only_column_name (fst (ops ! (i div BLOCK_SIZE K))) then 1 else 0)"
    by (cases "i < length ops * BLOCK_SIZE K") (simp_all add: nth_append length_sel_column sel_column_nth lt)
qed

lemma machine_correct:
  assumes new: "submachine_new K ns wcols = Some t" "distinct wcols"
    and "ops \<noteq> []" "length ops \<le> m" "length (kind_cols K) * (m * BLOCK_SIZE K) < 2 ^ 32"
    and "\<forall>(s, a) \<in> set ops. valid a \<and> only_column_name s \<in> set (map fst (st_selectors t))"
    and "\<And>a b. valid a \<Longrightarrow> valid b \<Longrightarrow> steps C 0 (upd_last (ovr b) (blk a)) (hd (blk b))"
  shows "\<exists>R S. run_submachine K t ops (m * BLOCK_SIZE K)
        = Some (with_namespace ns (columns (kind_cols K) R @ sels (map fst (st_selectors t)) S)) \<and>
      length R = m * BLOCK_SIZE K \<and> cyclic (\<lambda>i. C (i mod BLOCK_SIZE K)) R \<and>
      (\<forall>j < length ops. \<forall>c < length (kind_cols K). c \<notin> set ovr_cols \<longrightarrow>
         R ! (j * BLOCK_SIZE K + (BLOCK_SIZE K - 1)) ! c = last (blk (snd (ops ! j))) ! c) \<and>
      selects (BLOCK_SIZE K) ops m S"
proof (intro exI conjI)
  note v = submachine_new_view[OF new]
  have "fits t (length (kind_cols K)) (m * BLOCK_SIZE K)"
    using assms(5) some_col by (simp add: fits_def v(3))
  from finish_eq[OF v(3,2) assms(3,4) this assms(6)]
  show "run_submachine K t ops (m * BLOCK_SIZE K)
      = Some (with_namespace ns (columns (kind_cols K) (machine_rows ops m) @ sels (map fst (st_selectors t))
          (\<lambda>k. sel_column ops k @ replicate ((m - length ops) * BLOCK_SIZE K) 0)))"
    by (simp add: run_submachine_def with_namespace_def v(4) flip: v(1))
  show "length (machine_rows ops m) = m * BLOCK_SIZE K" by (rule length_machine_rows[OF assms(4)])
  show "cyclic (\<lambda>i. C (i mod BLOCK_SIZE K)) (machine_rows ops m)"
    using assms(6) by (intro finished_constraints[OF assms(3,4)] assms(7)) auto
  show "\<forall>j < length ops. \<forall>c < length (kind_cols K). c \<notin> set ovr_cols \<longrightarrow>
      machine_rows ops m ! (j * BLOCK_SIZE K + (BLOCK_SIZE K - 1)) ! c = last (blk (snd (ops ! j))) ! c"
  proof (intro allI impI)
    fix j c assume j: "j < length ops" and c: "c < length (kind_cols K)" "c \<notin> set ovr_cols"
    have "length (last (blk (snd (ops ! j)))) = length (kind_cols K)"
      using blk_rows[of "snd (ops ! j)"] blk_ne[of "snd (ops ! j)"] by (simp add: rows_ok_def)
    then show "machine_rows ops m ! (j * BLOCK_SIZE K + (BLOCK_SIZE K - 1)) ! c = last (blk (snd (ops ! j))) ! c"
      using machine_rows_latch[OF j, of m] ovr_keeps[OF c(2)] c(1) by auto
  qed
qed (rule selects_columns[OF assms(4)])

end

end
