(* ===== verification/Riscv_Kinds.thy ===== *)
theory Riscv_Kinds
  imports Riscv_Submachines
begin

text \<open>
  The kinds of submachines of \<open>riscv-executor/src/submachines.rs\<close>: binary, shift, split
  and publics. Each adds the rows of one operation to the trace. The column enumerations are
  datatypes with the position of each column (\<open>as usize\<close>).
\<close>

section \<open>Binary machine\<close>

datatype binary_cols = Bin_A_byte | Bin_B_byte | Bin_C_byte | Bin_A | Bin_B | Bin_C
  | Bin_operation_id | Bin_operation_id_next

primrec bin_idx :: "binary_cols \<Rightarrow> nat" where
  "bin_idx Bin_A_byte = 0"
| "bin_idx Bin_B_byte = 1"
| "bin_idx Bin_C_byte = 2"
| "bin_idx Bin_A = 3"
| "bin_idx Bin_B = 4"
| "bin_idx Bin_C = 5"
| "bin_idx Bin_operation_id = 6"
| "bin_idx Bin_operation_id_next = 7"

definition binary_row ::
  "field_desc \<Rightarrow> int \<Rightarrow> int \<times> int \<times> int \<Rightarrow> int \<times> int \<times> int \<Rightarrow> int \<Rightarrow> (nat \<times> int) list" where
  "binary_row F op_id bytes abc m = (case (bytes, abc) of ((a', b', c'), (a, b, c)) \<Rightarrow>
     [(bin_idx Bin_operation_id, op_id), (bin_idx Bin_operation_id_next, op_id),
      (bin_idx Bin_A_byte, fe_from F a'), (bin_idx Bin_B_byte, fe_from F b'),
      (bin_idx Bin_C_byte, fe_from F c'),
      (bin_idx Bin_A, fe_from F (a AND m)), (bin_idx Bin_B, fe_from F (b AND m)),
      (bin_idx Bin_C, fe_from F (c AND m))])"

definition binary_add_operation ::
  "field_desc \<Rightarrow> submachine_trace \<Rightarrow> string option \<Rightarrow> lookup_arguments \<Rightarrow> int list
     \<Rightarrow> submachine_trace option" where
  "binary_add_operation F t selector args extra = do {
     rust_assert (extra = []);
     sel \<leftarrow> selector;
     let sel = only_column_name sel;
     let (op_id, a, b, c) = args;
     au \<leftarrow> check_u32 a;
     bu \<leftarrow> check_u32 b;
     cu \<leftarrow> check_u32 c;
     let (a1, a2, a3, a4, _) = decompose_lower32 au;
     let (b1, b2, b3, b4, _) = decompose_lower32 bu;
     let (c1, c2, c3, c4, _) = decompose_lower32 cu;
     t \<leftarrow> set_previous_row t
       [(bin_idx Bin_A_byte, fe_from F a1), (bin_idx Bin_B_byte, fe_from F b1),
        (bin_idx Bin_C_byte, fe_from F c1), (bin_idx Bin_operation_id_next, op_id)];
     t \<leftarrow> add_row t (binary_row F op_id (a2, b2, c2) (au, bu, cu) 0xff);
     t \<leftarrow> add_row t (binary_row F op_id (a3, b3, c3) (au, bu, cu) 0xffff);
     t \<leftarrow> add_row t (binary_row F op_id (a4, b4, c4) (au, bu, cu) 0xffffff);
     t \<leftarrow> add_row t
       [(bin_idx Bin_operation_id, op_id), (bin_idx Bin_A, a), (bin_idx Bin_B, b), (bin_idx Bin_C, c)];
     set_current_row_selector t sel 1
   }"

definition BinaryMachine :: "field_desc \<Rightarrow> submachine_kind" where
  "BinaryMachine F = \<lparr> SELECTORS = ''sel'', BLOCK_SIZE = 4,
     kind_cols = [''A_byte'', ''B_byte'', ''C_byte'', ''A'', ''B'', ''C'', ''operation_id'', ''operation_id_next''],
     kind_add_operation = binary_add_operation F, dummy_block_fix = (\<lambda>t _. Some t) \<rparr>"

section \<open>Shift machine\<close>

datatype shift_cols = Sh_A_byte | Sh_B_next | Sh_C_part | Sh_A | Sh_B | Sh_C
  | Sh_operation_id | Sh_operation_id_next

primrec sh_idx :: "shift_cols \<Rightarrow> nat" where
  "sh_idx Sh_A_byte = 0"
| "sh_idx Sh_B_next = 1"
| "sh_idx Sh_C_part = 2"
| "sh_idx Sh_A = 3"
| "sh_idx Sh_B = 4"
| "sh_idx Sh_C = 5"
| "sh_idx Sh_operation_id = 6"
| "sh_idx Sh_operation_id_next = 7"

text \<open>\<open>(x << shl) >> shr\<close> on \<open>u32\<close>: a shift by 32 or more panics, bits above the word are lost.\<close>

definition shift_u32 :: "int \<Rightarrow> int \<Rightarrow> int \<Rightarrow> int option" where
  "shift_u32 x shl shr = do {
     rust_assert (shl < 32);
     rust_assert (shr < 32);
     Some (drop_bit (nat shr) (as_u32 (push_bit (nat shl) x)))
   }"

definition shift_row ::
  "field_desc \<Rightarrow> int \<Rightarrow> int \<Rightarrow> int \<Rightarrow> int \<Rightarrow> int \<Rightarrow> int \<Rightarrow> int \<Rightarrow> int \<Rightarrow> (nat \<times> int) list option" where
  "shift_row F op_id au b byte factor_bits m shl shr = do {
     c_part \<leftarrow> shift_u32 (push_bit (nat factor_bits) byte) shl shr;
     let a_row = au AND m;
     c \<leftarrow> shift_u32 a_row shl shr;
     Some [(sh_idx Sh_operation_id, op_id), (sh_idx Sh_operation_id_next, op_id),
       (sh_idx Sh_A_byte, fe_from F byte), (sh_idx Sh_C_part, fe_from F c_part),
       (sh_idx Sh_A, fe_from F a_row), (sh_idx Sh_B, b), (sh_idx Sh_B_next, b),
       (sh_idx Sh_C, fe_from F c)]
   }"

definition shift_add_operation ::
  "field_desc \<Rightarrow> submachine_trace \<Rightarrow> string option \<Rightarrow> lookup_arguments \<Rightarrow> int list
     \<Rightarrow> submachine_trace option" where
  "shift_add_operation F t selector args extra = do {
     rust_assert (extra = []);
     sel \<leftarrow> selector;
     let sel = only_column_name sel;
     let (op_id, a, b, c) = args;
     (shl, shr) \<leftarrow> (if op_id = 0 then map_option (\<lambda>s. (s, 0)) (check_u32 b)
                    else if op_id = 1 then map_option (\<lambda>s. (0, s)) (check_u32 b)
                    else None);
     au \<leftarrow> check_u32 a;
     let (b1, b2, b3, b4, _) = decompose_lower32 au;
     c_part \<leftarrow> shift_u32 b1 shl shr;
     t \<leftarrow> set_previous_row t
       [(sh_idx Sh_A_byte, fe_from F b1), (sh_idx Sh_C_part, fe_from F c_part),
        (sh_idx Sh_operation_id_next, op_id), (sh_idx Sh_B_next, b)];
     r \<leftarrow> shift_row F op_id au b b2 8 0xff shl shr;
     t \<leftarrow> add_row t r;
     r \<leftarrow> shift_row F op_id au b b3 16 0xffff shl shr;
     t \<leftarrow> add_row t r;
     r \<leftarrow> shift_row F op_id au b b4 24 0xffffff shl shr;
     t \<leftarrow> add_row t r;
     t \<leftarrow> add_row t
       [(sh_idx Sh_operation_id, op_id), (sh_idx Sh_A, a), (sh_idx Sh_B, b), (sh_idx Sh_C, c)];
     set_current_row_selector t sel 1
   }"

definition ShiftMachine :: "field_desc \<Rightarrow> submachine_kind" where
  "ShiftMachine F = \<lparr> SELECTORS = ''sel'', BLOCK_SIZE = 4,
     kind_cols = [''A_byte'', ''B_next'', ''C_part'', ''A'', ''B'', ''C'', ''operation_id'', ''operation_id_next''],
     kind_add_operation = shift_add_operation F, dummy_block_fix = (\<lambda>t _. Some t) \<rparr>"

section \<open>Split machine\<close>

datatype split_gl_cols = Sp_output_low | Sp_output_high | Sp_in_acc | Sp_bytes | Sp_lt | Sp_gt | Sp_was_lt

primrec sp_idx :: "split_gl_cols \<Rightarrow> nat" where
  "sp_idx Sp_output_low = 0"
| "sp_idx Sp_output_high = 1"
| "sp_idx Sp_in_acc = 2"
| "sp_idx Sp_bytes = 3"
| "sp_idx Sp_lt = 4"
| "sp_idx Sp_gt = 5"
| "sp_idx Sp_was_lt = 6"

definition hi_and_lo :: "field_desc \<Rightarrow> int \<Rightarrow> int \<Rightarrow> int" where
  "hi_and_lo F hi lo = fe_from F (push_bit 32 hi OR lo)"

definition BYTES_MAX :: "int list" where
  "BYTES_MAX = [0, 0, 0, 0, 0xff, 0xff, 0xff, 0xff]"

text \<open>\<open>was_lt\<close> runs from the most significant byte down.\<close>

fun was_lt_from :: "int list \<Rightarrow> int list" where
  "was_lt_from [] = []"
| "was_lt_from [l] = [l]"
| "was_lt_from (l # ls) = (let ws = was_lt_from ls; w = hd ws in (w + l - w * l) # ws)"

definition split_row ::
  "field_desc \<Rightarrow> int \<times> int \<times> int \<Rightarrow> int \<times> int \<times> int \<times> int \<Rightarrow> (nat \<times> int) list" where
  "split_row F out bs = (case (out, bs) of ((lo, hi, acc), (b, lt, gt, was_lt)) \<Rightarrow>
     [(sp_idx Sp_output_low, fe_from F lo), (sp_idx Sp_output_high, fe_from F hi), (sp_idx Sp_in_acc, acc),
      (sp_idx Sp_bytes, fe_from F b), (sp_idx Sp_lt, fe_from F lt), (sp_idx Sp_gt, fe_from F gt),
      (sp_idx Sp_was_lt, fe_from F was_lt)])"

definition split_gl_add_operation ::
  "field_desc \<Rightarrow> submachine_trace \<Rightarrow> string option \<Rightarrow> lookup_arguments \<Rightarrow> int list
     \<Rightarrow> submachine_trace option" where
  "split_gl_add_operation F t selector args extra = do {
     rust_assert (extra = []);
     sel \<leftarrow> selector;
     let sel = only_column_name sel;
     let (input, output_lo, output_hi, _) = args;
     lo \<leftarrow> check_u32 output_lo;
     hi \<leftarrow> check_u32 output_hi;
     let (b0, b1, b2, b3, _) = decompose_lower32 lo;
     let (b4, b5, b6, b7, _) = decompose_lower32 hi;
     let b = [b0, b1, b2, b3, b4, b5, b6, b7];
     let lt = map (\<lambda>(b, m). if b < m then 1 else 0) (zip b BYTES_MAX);
     let gt = map (\<lambda>(b, m). if b > m then 1 else 0) (zip b BYTES_MAX);
     let was_lt = was_lt_from lt;
     let at = (\<lambda>i. (b ! i, lt ! i, gt ! i, was_lt ! i));
     t \<leftarrow> set_previous_row t
       [(sp_idx Sp_bytes, fe_from F (b ! 0)), (sp_idx Sp_lt, fe_from F (lt ! 0)),
        (sp_idx Sp_gt, fe_from F (gt ! 0)), (sp_idx Sp_was_lt, fe_from F (was_lt ! 0))];
     t \<leftarrow> add_row t (split_row F (lo AND 0xff, 0, fe_from F (lo AND 0xff)) (at 1));
     t \<leftarrow> add_row t (split_row F (lo AND 0xffff, 0, fe_from F (lo AND 0xffff)) (at 2));
     t \<leftarrow> add_row t (split_row F (lo AND 0xffffff, 0, fe_from F (lo AND 0xffffff)) (at 3));
     t \<leftarrow> add_row t (split_row F (lo, 0, fe_from F lo) (at 4));
     t \<leftarrow> add_row t (split_row F (lo, hi AND 0xff, hi_and_lo F (hi AND 0xff) lo) (at 5));
     t \<leftarrow> add_row t (split_row F (lo, hi AND 0xffff, hi_and_lo F (hi AND 0xffff) lo) (at 6));
     t \<leftarrow> add_row t (split_row F (lo, hi AND 0xffffff, hi_and_lo F (hi AND 0xffffff) lo) (at 7));
     t \<leftarrow> Some (sub_push_row t);
     t \<leftarrow> set_current_row_selector t sel 1;
     set_row_cols t
       [(sp_idx Sp_output_low, fe_from F lo), (sp_idx Sp_output_high, fe_from F hi),
        (sp_idx Sp_in_acc, hi_and_lo F hi lo)]
   }"

definition SplitGlMachine :: "field_desc \<Rightarrow> submachine_kind" where
  "SplitGlMachine F = \<lparr> SELECTORS = ''sel'', BLOCK_SIZE = 8,
     kind_cols = [''output_low'', ''output_high'', ''in_acc'', ''bytes'', ''lt'', ''gt'', ''was_lt''],
     kind_add_operation = split_gl_add_operation F, dummy_block_fix = (\<lambda>t _. Some t) \<rparr>"

section \<open>Publics machine\<close>

text \<open>\<open>while addr >= trace.len()\<close>: one row is added per iteration; fewer than eight are needed.\<close>

fun push_rows_until :: "nat \<Rightarrow> submachine_trace \<Rightarrow> nat \<Rightarrow> submachine_trace option" where
  "push_rows_until fuel t addr =
     (if \<not> addr \<ge> sub_len t then Some t
      else case fuel of 0 \<Rightarrow> None | Suc fuel \<Rightarrow> push_rows_until fuel (sub_push_row t) addr)"

declare push_rows_until.simps [simp del]

definition publics_add_operation ::
  "submachine_trace \<Rightarrow> string option \<Rightarrow> lookup_arguments \<Rightarrow> int list \<Rightarrow> submachine_trace option" where
  "publics_add_operation t selector args extra = do {
     rust_assert (selector = None);
     rust_assert (extra = []);
     let (addr, value, _, _) = args;
     a \<leftarrow> check_u32 addr;
     rust_assert (a < 8);
     t \<leftarrow> push_rows_until 8 t (nat a);
     vs \<leftarrow> vec_set (st_values t) (nat a * length (st_cols t)) value;
     Some (t\<lparr>st_values := vs\<rparr>)
   }"

definition PublicsMachine :: submachine_kind where
  "PublicsMachine = \<lparr> SELECTORS = '''', BLOCK_SIZE = 1, kind_cols = [''value''],
     kind_add_operation = publics_add_operation, dummy_block_fix = (\<lambda>t _. Some t) \<rparr>"

end
