(* ===== verification/Riscv_Binary.thy ===== *)
theory Riscv_Binary
  imports Riscv_Blocks Riscv_Kinds Riscv_Semantics
begin

text \<open>
  The binary and the shift machine satisfy their constraints. The constraints are those of
  \<open>std/machines/large_field/binary.asm\<close> and \<open>shift.asm\<close> on a row and the next one, with the lookups
  into the byte tables (\<open>ByteBinary\<close>, \<open>ByteShift\<close>) as conditions on the looked-up values. Both kinds
  of machines are interpretations of \<open>block_kind\<close>.
\<close>

section \<open>Bytes of 32-bit words\<close>

lemma low_masks:
  "(x :: int) AND 0xff = x mod 2 ^ 8" "x AND 0xffff = x mod 2 ^ 16" "x AND 0xffffff = x mod 2 ^ 24"
  using take_bit_eq_mask[of 8 x] take_bit_eq_mask[of 16 x] take_bit_eq_mask[of 24 x]
  by (simp_all add: take_bit_eq_mod mask_eq_exp_minus_1)

lemma low_sum:
  "(x :: int) mod 256 + x div 256 mod 256 * 256 = x mod 65536"
  "(x :: int) mod 65536 + x div 65536 mod 256 * 65536 = x mod 16777216"
  "in_u32 x \<Longrightarrow> x mod 16777216 + x div 16777216 mod 256 * 16777216 = x"
proof -
  have step: "y mod a + y div a mod 256 * a = y mod (a * 256)" if "0 < a" for y a :: int
    using that by (simp add: zmod_zmult2_eq mult.commute)
  show "x mod 256 + x div 256 mod 256 * 256 = x mod 65536"
      "x mod 65536 + x div 65536 mod 256 * 65536 = x mod 16777216"
    using step[of 256 x] step[of 65536 x] by simp_all
  show "x mod 16777216 + x div 16777216 mod 256 * 16777216 = x" if "in_u32 x"
    using step[of 16777216 x] that by (simp add: in_u32_def)
qed

lemma byte_fe_from: "2 ^ 32 \<le> modulus F \<Longrightarrow> fe_from F (x mod 256) = x mod 256"
  by (rule fe_from_u32) (simp_all add: in_u32_def order.strict_trans[OF pos_mod_bound])

lemma low_fe_from:
  assumes "2 ^ 32 \<le> modulus F"
  shows "fe_from F (x mod 65536) = x mod 65536" "fe_from F (x mod 16777216) = x mod 16777216"
  using assms by (auto intro!: fe_from_u32 simp: in_u32_def order.strict_trans[OF pos_mod_bound])

lemma masked_bitops:
  "(x AND m) AND y AND m = (x AND y) AND (m :: int)"
  "x AND m OR y AND m = (x OR y) AND (m :: int)"
  "x AND m XOR y AND m = (x XOR y) AND (m :: int)"
  by (rule bit_eqI; auto simp: bit_simps)+

section \<open>The binary machine\<close>

text \<open>The table \<open>ByteBinary\<close> and the operation on words.\<close>

definition binary_result :: "int \<Rightarrow> int \<Rightarrow> int \<Rightarrow> int option" where
  "binary_result op a b =
     (if op = 0 then Some (a AND b) else if op = 1 then Some (a OR b)
      else if op = 2 then Some (a XOR b) else None)"

definition byte_binary_lookup :: "int \<Rightarrow> int \<Rightarrow> int \<Rightarrow> int \<Rightarrow> bool" where
  "byte_binary_lookup op a b c \<longleftrightarrow>
     0 \<le> a \<and> a < 256 \<and> 0 \<le> b \<and> b < 256 \<and> binary_result op a b = Some c"

definition latch4 :: "nat \<Rightarrow> int" where
  "latch4 i = (if i mod 4 = 3 then 1 else 0)"

definition FACTOR4 :: "nat \<Rightarrow> int" where
  "FACTOR4 i = 2 ^ (((i + 1) mod 4) * 8)"

definition binary_constraints :: "field_desc \<Rightarrow> nat \<Rightarrow> int list \<Rightarrow> int list \<Rightarrow> bool" where
  "binary_constraints F i r r' \<longleftrightarrow>
     (let v = (\<lambda>c. r ! bin_idx c); v' = (\<lambda>c. r' ! bin_idx c) in
      field_eq F ((v' Bin_operation_id - v Bin_operation_id) * (1 - latch4 i)) 0 \<and>
      field_eq F (v' Bin_A) (v Bin_A * (1 - latch4 i) + v Bin_A_byte * FACTOR4 i) \<and>
      field_eq F (v' Bin_B) (v Bin_B * (1 - latch4 i) + v Bin_B_byte * FACTOR4 i) \<and>
      field_eq F (v' Bin_C) (v Bin_C * (1 - latch4 i) + v Bin_C_byte * FACTOR4 i) \<and>
      field_eq F (v' Bin_operation_id) (v Bin_operation_id_next) \<and>
      byte_binary_lookup (v Bin_operation_id_next) (v Bin_A_byte) (v Bin_B_byte) (v Bin_C_byte))"

definition binary_args :: "lookup_arguments \<Rightarrow> bool" where
  "binary_args args \<longleftrightarrow> (case args of (op, a, b, c) \<Rightarrow>
     in_u32 a \<and> in_u32 b \<and> binary_result op a b = Some c)"

text \<open>The block of an operation and the pending columns of the row before.\<close>

definition binary_blk_cols :: "field_desc \<Rightarrow> lookup_arguments \<Rightarrow> (nat \<times> int) list list" where
  "binary_blk_cols F args = (case args of (op, a, b, c) \<Rightarrow>
     [binary_row F op (a div 2 ^ 8 mod 256, b div 2 ^ 8 mod 256, c div 2 ^ 8 mod 256) (a, b, c) 0xff,
      binary_row F op (a div 2 ^ 16 mod 256, b div 2 ^ 16 mod 256, c div 2 ^ 16 mod 256) (a, b, c) 0xffff,
      binary_row F op (a div 2 ^ 24 mod 256, b div 2 ^ 24 mod 256, c div 2 ^ 24 mod 256) (a, b, c) 0xffffff,
      [(bin_idx Bin_operation_id, op), (bin_idx Bin_A, a), (bin_idx Bin_B, b), (bin_idx Bin_C, c)]])"

definition binary_blk :: "field_desc \<Rightarrow> lookup_arguments \<Rightarrow> int list list" where
  "binary_blk F args = map (filled 8) (binary_blk_cols F args)"

definition binary_ovr :: "field_desc \<Rightarrow> lookup_arguments \<Rightarrow> (nat \<times> int) list" where
  "binary_ovr F args = (case args of (op, a, b, c) \<Rightarrow>
     [(bin_idx Bin_A_byte, fe_from F (a mod 256)), (bin_idx Bin_B_byte, fe_from F (b mod 256)),
      (bin_idx Bin_C_byte, fe_from F (c mod 256)), (bin_idx Bin_operation_id_next, op)])"

lemma binary_result_u32: "in_u32 a \<Longrightarrow> in_u32 b \<Longrightarrow> binary_result op a b = Some c \<Longrightarrow> in_u32 c"
  using OR_upper[of a 32 b] XOR_upper[of a 32 b]
  by (auto simp: binary_result_def in_u32_def split: if_splits intro: order.strict_trans1[OF AND_upper1])

lemma binary_result_byte:
  assumes "binary_result op a b = Some c"
  shows "binary_result op (a div 2 ^ n mod 256) (b div 2 ^ n mod 256) = Some (c div 2 ^ n mod 256)"
  using assms unfolding binary_result_def drop_bit_eq_div[symmetric] and_255[symmetric]
  by (auto split: if_splits simp: masked_bitops)

lemma byte_binary_lookup_byte:
  "binary_result op a b = Some c \<Longrightarrow>
     byte_binary_lookup op (a div 2 ^ n mod 256) (b div 2 ^ n mod 256) (c div 2 ^ n mod 256)"
  by (simp add: byte_binary_lookup_def binary_result_byte)

lemma binary_add_law:
  assumes "binary_args a" "st_cols t = kind_cols (BinaryMachine F)" "rows_ok 8 R" "fits t 8 (length R + 4)"
    and "only_column_name sel \<in> set names" "distinct names" "R = [] \<Longrightarrow> ov = []"
  shows "binary_add_operation F (view t R (sels names G) ov) (Some sel) a []
    = Some (view t (upd_last (binary_ovr F a) R @ binary_blk F a)
        (sels names (\<lambda>k. G k @ sel_block 4 (k = only_column_name sel)))
        (if R = [] then finals (binary_ovr F a) else ov))"
proof -
  obtain op x y z where a: "a = (op, x, y, z)" by (cases a)
  have u: "check_u32 x = Some x" "check_u32 y = Some y" "check_u32 z = Some z"
    using assms(1) binary_result_u32[of x y op z] by (auto simp: a binary_args_def)
  have len: "length (binary_blk_cols F a) = 4" by (simp add: a binary_blk_cols_def)
  have "binary_add_operation F (view t R (sels names G) ov) (Some sel) a []
    = set_previous_row (view t R (sels names G) ov) (binary_ovr F a) \<bind>
        (\<lambda>t. add_rows t (binary_blk_cols F a) \<bind> (\<lambda>t. set_current_row_selector t (only_column_name sel) 1))"
    by (simp add: a binary_add_operation_def u decompose_lower32_eq binary_ovr_def binary_blk_cols_def
        Let_def Option.bind_assoc)
  also have "\<dots> = Some (view t (upd_last (binary_ovr F a) R @ map (filled 8) (binary_blk_cols F a))
        (sels names (\<lambda>k. G k @ sel_block (length (binary_blk_cols F a)) (k = only_column_name sel)))
        (if R = [] then finals (binary_ovr F a) else ov))"
  proof (rule block_add)
    show "fits t 8 (length R + length (binary_blk_cols F a))" using assms(4) len by simp
  qed (use assms(3,5-7) in \<open>auto simp: a binary_blk_cols_def binary_ovr_def binary_row_def\<close>)
  finally show ?thesis by (simp add: binary_blk_def len)
qed

lemma binary_kind [simp]:
  "length (kind_cols (BinaryMachine F)) = 8" "BLOCK_SIZE (BinaryMachine F) = 4"
  "kind_add_operation (BinaryMachine F) = binary_add_operation F" "dummy_block_fix (BinaryMachine F) t k = Some t"
  "kind_cols (BinaryMachine F) \<noteq> []"
  by (simp_all add: BinaryMachine_def)

interpretation binm: block_kind "BinaryMachine F" binary_args "binary_blk F" "binary_ovr F" "[0, 1, 2, 7]" for F
proof unfold_locales
  fix a t R sel names G and ov :: "(nat \<times> int option) list"
  assume "binary_args a" "st_cols t = kind_cols (BinaryMachine F)"
    "rows_ok (length (kind_cols (BinaryMachine F))) R"
    "fits t (length (kind_cols (BinaryMachine F))) (length R + BLOCK_SIZE (BinaryMachine F))"
    "only_column_name sel \<in> set names" "distinct names" "R = [] \<Longrightarrow> ov = []"
  then show "kind_add_operation (BinaryMachine F) (view t R (sels names G) ov) (Some sel) a []
        = Some (view t (upd_last (binary_ovr F a) R @ binary_blk F a)
            (sels names (\<lambda>k. G k @ sel_block (BLOCK_SIZE (BinaryMachine F)) (k = only_column_name sel)))
            (if R = [] then finals (binary_ovr F a) else ov))"
    using binary_add_law[of a t F R sel names ov G] unfolding binary_kind by blast
qed (auto simp: binary_blk_def binary_blk_cols_def binary_ovr_def split: prod.split)

lemma binary_block_constraints:
  assumes F: "2 ^ 32 \<le> modulus F" and "binary_args a" "binary_args b"
  shows "steps (binary_constraints F) 0 (upd_last (binary_ovr F b) (binary_blk F a)) (hd (binary_blk F b))"
proof -
  obtain op x y z where a: "a = (op, x, y, z)" by (cases a)
  obtain op' x' y' z' where b: "b = (op', x', y', z')" by (cases b)
  have r: "binary_result op x y = Some z" "binary_result op' x' y' = Some z'"
    and u: "in_u32 x" "in_u32 y" "in_u32 z"
    using assms(2,3) binary_result_u32[of x y op z] by (auto simp: a b binary_args_def)
  have blk: "upd_last (binary_ovr F b) (binary_blk F a) =
     [[x div 256 mod 256, y div 256 mod 256, z div 256 mod 256, x mod 256, y mod 256, z mod 256, op, op],
      [x div 65536 mod 256, y div 65536 mod 256, z div 65536 mod 256, x mod 65536, y mod 65536, z mod 65536, op, op],
      [x div 16777216 mod 256, y div 16777216 mod 256, z div 16777216 mod 256, x mod 16777216, y mod 16777216, z mod 16777216, op, op],
      [x' mod 256, y' mod 256, z' mod 256, x, y, z, op, op']]"
    using F by (simp add: a b binary_blk_def binary_blk_cols_def binary_row_def binary_ovr_def upd_last_def
        low_masks byte_fe_from low_fe_from numeral_nat)
  have hd: "hd (binary_blk F b) = [x' div 256 mod 256, y' div 256 mod 256, z' div 256 mod 256,
      x' mod 256, y' mod 256, z' mod 256, op', op']"
    using F by (simp add: b binary_blk_def binary_blk_cols_def binary_row_def
        low_masks byte_fe_from low_fe_from numeral_nat)
  show ?thesis
    unfolding blk hd steps.simps binary_constraints_def Let_def
    using byte_binary_lookup_byte[OF r(1), of 8] byte_binary_lookup_byte[OF r(1), of 16]
      byte_binary_lookup_byte[OF r(1), of 24] byte_binary_lookup_byte[OF r(2), of 0] u
    by (simp add: latch4_def FACTOR4_def low_sum field_eq_def)
qed

lemma binary_constraints_mod: "binary_constraints F (i mod 4) = binary_constraints F i"
  by (simp add: binary_constraints_def latch4_def FACTOR4_def fun_eq_iff mod_Suc_eq)

lemma binary_latch_row:
  "last (binary_blk F (op, a, b, c)) = [0, 0, 0, a, b, c, op, 0]"
  by (simp add: binary_blk_def binary_blk_cols_def numeral_nat)

text \<open>C21: the binary machine. For every sequence of well-formed operations and every degree that holds
  them, a fresh machine accepts the operations and \<open>finish\<close> returns a table in which every row, the
  last one followed by the first, satisfies the constraints of the machine; the last row of the
  block of an operation holds its identifier, operands and result; and a selector is set exactly in
  the last row of the blocks of its operations, so that padding is never selected.\<close>

theorem binary_machine_correct:
  assumes "2 ^ 32 \<le> modulus F" "submachine_new (BinaryMachine F) ns wcols = Some t" "distinct wcols"
    and "ops \<noteq> []" "length ops \<le> m" "8 * (m * 4) < (2 :: nat) ^ 32"
    and "\<forall>(s, a) \<in> set ops. binary_args a \<and> only_column_name s \<in> set (map fst (st_selectors t))"
  shows "\<exists>R S. run_submachine (BinaryMachine F) t ops (m * 4)
        = Some (with_namespace ns (columns (kind_cols (BinaryMachine F)) R @ sels (map fst (st_selectors t)) S)) \<and>
      length R = m * 4 \<and> cyclic (binary_constraints F) R \<and>
      (\<forall>j < length ops. case snd (ops ! j) of (op, a, b, c) \<Rightarrow>
         R ! (j * 4 + 3) ! bin_idx Bin_operation_id = op \<and> R ! (j * 4 + 3) ! bin_idx Bin_A = a \<and>
         R ! (j * 4 + 3) ! bin_idx Bin_B = b \<and> R ! (j * 4 + 3) ! bin_idx Bin_C = c) \<and>
      selects 4 ops m S"
proof -
  have "\<exists>R S. run_submachine (BinaryMachine F) t ops (m * 4)
        = Some (with_namespace ns (columns (kind_cols (BinaryMachine F)) R @ sels (map fst (st_selectors t)) S)) \<and>
      length R = m * 4 \<and> cyclic (\<lambda>i. binary_constraints F (i mod 4)) R \<and>
      (\<forall>j < length ops. \<forall>c < 8. c \<notin> set [0, 1, 2, 7] \<longrightarrow>
         R ! (j * 4 + (4 - 1)) ! c = last (binary_blk F (snd (ops ! j))) ! c) \<and> selects 4 ops m S"
    using binm.machine_correct[OF assms(2-5) _ assms(7) binary_block_constraints[OF assms(1)]] assms(6)
    unfolding binary_kind by blast
  then obtain R S where r: "run_submachine (BinaryMachine F) t ops (m * 4)
        = Some (with_namespace ns (columns (kind_cols (BinaryMachine F)) R @ sels (map fst (st_selectors t)) S))"
      "length R = m * 4" "cyclic (\<lambda>i. binary_constraints F (i mod 4)) R" "selects 4 ops m S"
    and row: "\<forall>j < length ops. \<forall>c < 8. c \<notin> set [0, 1, 2, 7] \<longrightarrow>
         R ! (j * 4 + (4 - 1)) ! c = last (binary_blk F (snd (ops ! j))) ! c"
    by (elim exE conjE)
  have "case snd (ops ! j) of (op, a, b, c) \<Rightarrow>
         R ! (j * 4 + 3) ! bin_idx Bin_operation_id = op \<and> R ! (j * 4 + 3) ! bin_idx Bin_A = a \<and>
         R ! (j * 4 + 3) ! bin_idx Bin_B = b \<and> R ! (j * 4 + 3) ! bin_idx Bin_C = c" if "j < length ops" for j
    using row that by (auto simp: binary_latch_row split: prod.split)
  with r show ?thesis unfolding binary_constraints_mod by blast
qed

lemma sample_binary_new:
  "submachine_new (BinaryMachine F) ''main_binary'' [''main::x'', ''main_binary::A'', ''main_binary::sel[0]'']
     = Some (submachine_trace_new ''main_binary'' (kind_cols (BinaryMachine F)) [''sel[0]''])"
  by (simp add: submachine_new_def BinaryMachine_def starts_with_def)

theorem binary_machine_correct_witness:
  "\<exists>R S. run_submachine (BinaryMachine goldilocks_field)
        (submachine_trace_new ''main_binary'' (kind_cols (BinaryMachine goldilocks_field)) [''sel[0]''])
        [(''main_binary::sel[0]'', (0, 12, 10, 8)), (''main_binary::sel[0]'', (2, 12, 10, 6))] 16
      = Some (with_namespace ''main_binary''
          (columns (kind_cols (BinaryMachine goldilocks_field)) R @ sels [''sel[0]''] S)) \<and>
    length R = 16 \<and> cyclic (binary_constraints goldilocks_field) R"
proof -
  let ?t = "submachine_trace_new ''main_binary'' (kind_cols (BinaryMachine goldilocks_field)) [''sel[0]'']"
  let ?ops = "[(''main_binary::sel[0]'', 0, 12, 10, 8), (''main_binary::sel[0]'', 2, 12, 10, 6)]"
  have sel: "map fst (st_selectors ?t) = [''sel[0]'']" by (simp add: submachine_trace_new_def)
  have "\<forall>(s, a) \<in> set ?ops. binary_args a \<and> only_column_name s \<in> set (map fst (st_selectors ?t))"
    unfolding sel by (simp add: binary_args_def binary_result_def in_u32_def only_column_name_def)
  from binary_machine_correct[OF gl_modulus_u32 sample_binary_new _ _ _ _ this, of 4]
  show ?thesis unfolding sel by auto
qed

section \<open>The shift machine\<close>

text \<open>The shift of a word, to the left modulo \<open>2 ^ 32\<close> or to the right, and the table \<open>ByteShift\<close>.\<close>

definition shift_word :: "int \<Rightarrow> int \<Rightarrow> int \<Rightarrow> int" where
  "shift_word op b x = (if op = 0 then take_bit 32 (push_bit (nat b) x) else drop_bit (nat b) x)"

definition byte_shift_lookup :: "int \<Rightarrow> int \<Rightarrow> int \<Rightarrow> nat \<Rightarrow> int \<Rightarrow> bool" where
  "byte_shift_lookup op a b row c \<longleftrightarrow> (op = 0 \<or> op = 1) \<and> 0 \<le> a \<and> a < 256 \<and> 0 \<le> b \<and> b < 32 \<and> row < 4 \<and>
     c = (if op = 0 then push_bit (nat b + row * 8) a else drop_bit (nat b) (push_bit (row * 8) a)) AND 0xffffffff"

definition shift_constraints :: "field_desc \<Rightarrow> nat \<Rightarrow> int list \<Rightarrow> int list \<Rightarrow> bool" where
  "shift_constraints F i r r' \<longleftrightarrow>
     (let v = (\<lambda>c. r ! sh_idx c); v' = (\<lambda>c. r' ! sh_idx c) in
      field_eq F ((v' Sh_operation_id - v Sh_operation_id) * (1 - latch4 i)) 0 \<and>
      field_eq F (v' Sh_A) (v Sh_A * (1 - latch4 i) + v Sh_A_byte * FACTOR4 i) \<and>
      field_eq F ((v' Sh_B - v Sh_B) * (1 - latch4 i)) 0 \<and>
      field_eq F (v' Sh_C) (v Sh_C * (1 - latch4 i) + v Sh_C_part) \<and>
      field_eq F (v' Sh_operation_id) (v Sh_operation_id_next) \<and>
      field_eq F (v' Sh_B) (v Sh_B_next) \<and>
      byte_shift_lookup (v Sh_operation_id_next) (v Sh_A_byte) (v Sh_B_next) ((i + 1) mod 4) (v Sh_C_part))"

definition shift_args :: "lookup_arguments \<Rightarrow> bool" where
  "shift_args args \<longleftrightarrow> (case args of (op, a, b, c) \<Rightarrow>
     (op = 0 \<or> op = 1) \<and> in_u32 a \<and> 0 \<le> b \<and> b < 32 \<and> c = shift_word op b a)"

definition shift_cells ::
  "field_desc \<Rightarrow> int \<Rightarrow> int \<Rightarrow> int \<Rightarrow> int \<Rightarrow> int \<Rightarrow> int \<Rightarrow> (nat \<times> int) list" where
  "shift_cells F op b byte a_row c_part c =
     [(sh_idx Sh_operation_id, op), (sh_idx Sh_operation_id_next, op), (sh_idx Sh_A_byte, fe_from F byte),
      (sh_idx Sh_C_part, fe_from F c_part), (sh_idx Sh_A, fe_from F a_row), (sh_idx Sh_B, b),
      (sh_idx Sh_B_next, b), (sh_idx Sh_C, fe_from F c)]"

definition shift_blk_cols :: "field_desc \<Rightarrow> lookup_arguments \<Rightarrow> (nat \<times> int) list list" where
  "shift_blk_cols F args = (case args of (op, a, b, c) \<Rightarrow>
     [shift_cells F op b (a div 2 ^ 8 mod 256) (a mod 2 ^ 8)
        (shift_word op b (push_bit 8 (a div 2 ^ 8 mod 256))) (shift_word op b (a mod 2 ^ 8)),
      shift_cells F op b (a div 2 ^ 16 mod 256) (a mod 2 ^ 16)
        (shift_word op b (push_bit 16 (a div 2 ^ 16 mod 256))) (shift_word op b (a mod 2 ^ 16)),
      shift_cells F op b (a div 2 ^ 24 mod 256) (a mod 2 ^ 24)
        (shift_word op b (push_bit 24 (a div 2 ^ 24 mod 256))) (shift_word op b (a mod 2 ^ 24)),
      [(sh_idx Sh_operation_id, op), (sh_idx Sh_A, a), (sh_idx Sh_B, b), (sh_idx Sh_C, c)]])"

definition shift_blk :: "field_desc \<Rightarrow> lookup_arguments \<Rightarrow> int list list" where
  "shift_blk F args = map (filled 8) (shift_blk_cols F args)"

definition shift_ovr :: "field_desc \<Rightarrow> lookup_arguments \<Rightarrow> (nat \<times> int) list" where
  "shift_ovr F args = (case args of (op, a, b, c) \<Rightarrow>
     [(sh_idx Sh_A_byte, fe_from F (a mod 256)), (sh_idx Sh_C_part, fe_from F (shift_word op b (a mod 256))),
      (sh_idx Sh_operation_id_next, op), (sh_idx Sh_B_next, b)])"

lemma in_u32_take_bit: "in_u32 x \<longleftrightarrow> take_bit 32 x = x"
  by (auto simp: in_u32_def take_bit_int_eq_self_iff)

lemma shift_word_u32:
  assumes "in_u32 x"
  shows "in_u32 (shift_word op b x)"
proof -
  have "drop_bit (nat b) x \<le> x"
    using assms zdiv_mono2[of x 1 "2 ^ nat b"] by (simp add: in_u32_def drop_bit_eq_div)
  then show ?thesis
    using assms take_bit_int_less_exp[of 32 "push_bit (nat b) x"] by (auto simp: shift_word_def in_u32_def)
qed

text \<open>Shifting adds up over numbers without common bits.\<close>

lemma shift_word_add:
  assumes "x AND y = 0"
  shows "shift_word op b (x + y) = shift_word op b x + shift_word op b y"
proof -
  have "shift_word op b (x OR y) = shift_word op b x OR shift_word op b y"
    by (simp add: shift_word_def push_bit_or drop_bit_or take_bit_or)
  moreover have "shift_word op b x AND shift_word op b y = shift_word op b (x AND y)"
    by (simp add: shift_word_def push_bit_and drop_bit_and take_bit_and)
  ultimately show ?thesis
    using assms by (simp add: disjunctive_add_eq_or shift_word_def)
qed

lemma low_disjoint: "(x mod 2 ^ n) AND (push_bit n y :: int) = 0"
  by (rule bit_eqI) (auto simp: bit_simps simp flip: take_bit_eq_mod)

lemma shift_word_bytes:
  "shift_word op b (x mod 2 ^ 8) + shift_word op b (push_bit 8 (x div 2 ^ 8 mod 256)) = shift_word op b (x mod 2 ^ 16)"
  "shift_word op b (x mod 2 ^ 16) + shift_word op b (push_bit 16 (x div 2 ^ 16 mod 256)) = shift_word op b (x mod 2 ^ 24)"
  "in_u32 x \<Longrightarrow>
     shift_word op b (x mod 2 ^ 24) + shift_word op b (push_bit 24 (x div 2 ^ 24 mod 256)) = shift_word op b x"
proof -
  have "x mod 2 ^ 16 = x mod 2 ^ 8 + push_bit 8 (x div 2 ^ 8 mod 256)"
    "x mod 2 ^ 24 = x mod 2 ^ 16 + push_bit 16 (x div 2 ^ 16 mod 256)"
    using low_sum(1,2)[of x] by (simp_all add: push_bit_eq_mult)
  then show "shift_word op b (x mod 2 ^ 8) + shift_word op b (push_bit 8 (x div 2 ^ 8 mod 256))
      = shift_word op b (x mod 2 ^ 16)"
    "shift_word op b (x mod 2 ^ 16) + shift_word op b (push_bit 16 (x div 2 ^ 16 mod 256))
      = shift_word op b (x mod 2 ^ 24)"
    by (metis low_disjoint shift_word_add)+
  assume "in_u32 x"
  then have "x = x mod 2 ^ 24 + push_bit 24 (x div 2 ^ 24 mod 256)"
    using low_sum(3)[of x] by (simp add: push_bit_eq_mult)
  then show "shift_word op b (x mod 2 ^ 24) + shift_word op b (push_bit 24 (x div 2 ^ 24 mod 256)) = shift_word op b x"
    by (metis low_disjoint shift_word_add)
qed

lemma byte_u32: "in_u32 (push_bit 8 (x div 2 ^ 8 mod 256))" "in_u32 (push_bit 16 (x div 2 ^ 16 mod 256))"
    "in_u32 (push_bit 24 (x div 2 ^ 24 mod 256))" "in_u32 (x mod 2 ^ 8)" "in_u32 (x mod 2 ^ 16)" "in_u32 (x mod 2 ^ 24)"
proof -
  have b: "0 \<le> y mod (256 :: int)" "y mod (256 :: int) < 256" for y by simp_all
  show "in_u32 (push_bit 8 (x div 2 ^ 8 mod 256))" "in_u32 (push_bit 16 (x div 2 ^ 16 mod 256))"
    "in_u32 (push_bit 24 (x div 2 ^ 24 mod 256))"
    unfolding in_u32_def push_bit_eq_mult
    using b[of "x div 2 ^ 8"] b[of "x div 2 ^ 16"] b[of "x div 2 ^ 24"] by simp_all
  show "in_u32 (x mod 2 ^ 8)" "in_u32 (x mod 2 ^ 16)" "in_u32 (x mod 2 ^ 24)"
    by (simp_all add: in_u32_def order.strict_trans[OF pos_mod_bound])
qed

lemma shift_u32_word:
  assumes "0 \<le> b" "b < 32" "in_u32 x" "op = 0 \<or> op = 1"
  shows "shift_u32 x (if op = 0 then b else 0) (if op = 0 then 0 else b) = Some (shift_word op b x)"
  using assms by (auto simp: shift_u32_def shift_word_def as_u32_def in_u32_def take_bit_eq_mod)

lemma shift_row_cells:
  assumes "0 \<le> b" "b < 32" "op = 0 \<or> op = 1" "in_u32 (push_bit n byte)" "in_u32 (a AND m)"
  shows "shift_row F op a b byte (int n) m (if op = 0 then b else 0) (if op = 0 then 0 else b)
    = Some (shift_cells F op b byte (a AND m) (shift_word op b (push_bit n byte)) (shift_word op b (a AND m)))"
  using assms by (simp add: shift_row_def shift_cells_def shift_u32_word Let_def)

lemma shift_add_law:
  assumes "shift_args a" "rows_ok 8 R" "fits t 8 (length R + 4)"
    and "only_column_name sel \<in> set names" "distinct names" "R = [] \<Longrightarrow> ov = []"
  shows "shift_add_operation F (view t R (sels names G) ov) (Some sel) a []
    = Some (view t (upd_last (shift_ovr F a) R @ shift_blk F a)
        (sels names (\<lambda>k. G k @ sel_block 4 (k = only_column_name sel)))
        (if R = [] then finals (shift_ovr F a) else ov))"
proof -
  obtain op x b z where a: "a = (op, x, b, z)" by (cases a)
  have v: "op = 0 \<or> op = 1" "in_u32 x" "0 \<le> b" "b < 32" using assms(1) by (auto simp: a shift_args_def)
  let ?shl = "if op = 0 then b else 0" and ?shr = "if op = 0 then 0 else b"
  have sh: "(if op = 0 then map_option (\<lambda>s. (s, 0 :: int)) (check_u32 b)
      else if op = 1 then map_option (Pair 0) (check_u32 b) else None) = Some (?shl, ?shr)"
    using v by (auto simp: check_u32_def in_u32_def)
  have u: "check_u32 x = Some x" using v by simp
  have rows: "shift_row F op x b (x div 2 ^ 8 mod 256) 8 0xff ?shl ?shr = Some (shift_blk_cols F a ! 0)"
    "shift_row F op x b (x div 2 ^ 16 mod 256) 16 0xffff ?shl ?shr = Some (shift_blk_cols F a ! 1)"
    "shift_row F op x b (x div 2 ^ 24 mod 256) 24 0xffffff ?shl ?shr = Some (shift_blk_cols F a ! 2)"
    using shift_row_cells[OF v(3,4,1), of 8 "x div 2 ^ 8 mod 256" x "0xff"]
      shift_row_cells[OF v(3,4,1), of 16 "x div 2 ^ 16 mod 256" x "0xffff"]
      shift_row_cells[OF v(3,4,1), of 24 "x div 2 ^ 24 mod 256" x "0xffffff"] byte_u32[of x]
    unfolding low_masks by (simp_all add: a shift_blk_cols_def)
  have first: "shift_u32 (x mod 256) ?shl ?shr = Some (shift_word op b (x mod 256))"
    using byte_u32(4)[of x] by (intro shift_u32_word v) simp
  have len: "length (shift_blk_cols F a) = 4" by (simp add: a shift_blk_cols_def)
  obtain r1 r2 r3 where r: "shift_blk_cols F a ! 0 = r1" "shift_blk_cols F a ! 1 = r2" "shift_blk_cols F a ! 2 = r3"
    by blast
  then have cols: "shift_blk_cols F (op, x, b, z) = [r1, r2, r3,
      [(sh_idx Sh_operation_id, op), (sh_idx Sh_A, x), (sh_idx Sh_B, b), (sh_idx Sh_C, z)]]"
    by (simp add: a shift_blk_cols_def)
  have "shift_add_operation F (view t R (sels names G) ov) (Some sel) a []
    = set_previous_row (view t R (sels names G) ov) (shift_ovr F a) \<bind>
        (\<lambda>t. add_rows t (shift_blk_cols F a) \<bind> (\<lambda>t. set_current_row_selector t (only_column_name sel) 1))"
    by (simp only: a shift_add_operation_def Let_def prod.case simp_thms rust_assert_simps Option.bind.bind_lunit
        sh u decompose_lower32_eq first rows[unfolded r] cols add_rows.simps Option.bind_assoc shift_ovr_def)
  also have "\<dots> = Some (view t (upd_last (shift_ovr F a) R @ map (filled 8) (shift_blk_cols F a))
        (sels names (\<lambda>k. G k @ sel_block (length (shift_blk_cols F a)) (k = only_column_name sel)))
        (if R = [] then finals (shift_ovr F a) else ov))"
  proof (rule block_add)
    show "fits t 8 (length R + length (shift_blk_cols F a))" using assms(3) len by simp
  qed (use assms(2,4-6) in \<open>auto simp: a shift_blk_cols_def shift_cells_def shift_ovr_def\<close>)
  finally show ?thesis by (simp add: shift_blk_def len)
qed

lemma shift_kind [simp]:
  "length (kind_cols (ShiftMachine F)) = 8" "BLOCK_SIZE (ShiftMachine F) = 4"
  "kind_add_operation (ShiftMachine F) = shift_add_operation F" "dummy_block_fix (ShiftMachine F) t k = Some t"
  "kind_cols (ShiftMachine F) \<noteq> []"
  by (simp_all add: ShiftMachine_def)

interpretation shm: block_kind "ShiftMachine F" shift_args "shift_blk F" "shift_ovr F" "[0, 2, 7, 1]" for F
proof unfold_locales
  fix a t R sel names G and ov :: "(nat \<times> int option) list"
  assume "shift_args a" "rows_ok (length (kind_cols (ShiftMachine F))) R"
    "fits t (length (kind_cols (ShiftMachine F))) (length R + BLOCK_SIZE (ShiftMachine F))"
    "only_column_name sel \<in> set names" "distinct names" "R = [] \<Longrightarrow> ov = []"
  then show "kind_add_operation (ShiftMachine F) (view t R (sels names G) ov) (Some sel) a []
        = Some (view t (upd_last (shift_ovr F a) R @ shift_blk F a)
            (sels names (\<lambda>k. G k @ sel_block (BLOCK_SIZE (ShiftMachine F)) (k = only_column_name sel)))
            (if R = [] then finals (shift_ovr F a) else ov))"
    using shift_add_law[of a R t sel names ov F G] unfolding shift_kind by blast
qed (auto simp: shift_blk_def shift_blk_cols_def shift_ovr_def split: prod.split)

lemma byte_shift_lookup_byte:
  assumes "op = 0 \<or> op = 1" "0 \<le> b" "b < 32" "0 \<le> byte" "byte < 256" "row < 4"
    and "in_u32 (push_bit (row * 8) byte)"
  shows "byte_shift_lookup op byte b row (shift_word op b (push_bit (row * 8) byte))"
proof -
  have m: "(y :: int) AND 0xffffffff = take_bit 32 y" for y
    using take_bit_eq_mask[of 32 y] by (simp add: mask_eq_exp_minus_1)
  have "take_bit 32 (drop_bit (nat b) (push_bit (row * 8) byte)) = drop_bit (nat b) (push_bit (row * 8) byte)"
    using shift_word_u32[OF assms(7), of 1 b] by (simp add: in_u32_take_bit shift_word_def)
  with assms(1-6) show ?thesis
    by (auto simp: byte_shift_lookup_def shift_word_def m push_bit_push_bit add.commute)
qed

lemma shift_block_constraints:
  assumes F: "2 ^ 32 \<le> modulus F" and "shift_args a" "shift_args b"
  shows "steps (shift_constraints F) 0 (upd_last (shift_ovr F b) (shift_blk F a)) (hd (shift_blk F b))"
proof -
  obtain op x s z where a: "a = (op, x, s, z)" by (cases a)
  obtain op' x' s' z' where b: "b = (op', x', s', z')" by (cases b)
  have v: "op = 0 \<or> op = 1" "0 \<le> s" "s < 32" "op' = 0 \<or> op' = 1" "0 \<le> s'" "s' < 32" "in_u32 x"
    and z: "z = shift_word op s x"
    using assms(2,3) by (auto simp: a b shift_args_def)
  let ?p1 = "shift_word op s (push_bit 8 (x div 256 mod 256))"
  let ?p2 = "shift_word op s (push_bit 16 (x div 65536 mod 256))"
  let ?p3 = "shift_word op s (push_bit 24 (x div 16777216 mod 256))"
  let ?q0 = "shift_word op s (x mod 256)" and ?q1 = "shift_word op s (x mod 65536)"
  let ?q2 = "shift_word op s (x mod 16777216)"
  note u = byte_u32[of x, simplified] byte_u32(1,4)[of x', simplified]
  note fe = fe_from_u32[OF shift_word_u32 F]
  have blk: "upd_last (shift_ovr F b) (shift_blk F a) =
     [[x div 256 mod 256, s, ?p1, x mod 256, s, ?q0, op, op],
      [x div 65536 mod 256, s, ?p2, x mod 65536, s, ?q1, op, op],
      [x div 16777216 mod 256, s, ?p3, x mod 16777216, s, ?q2, op, op],
      [x' mod 256, s', shift_word op' s' (x' mod 256), x, s, z, op, op']]"
    using F u by (simp add: a b shift_blk_def shift_blk_cols_def shift_cells_def shift_ovr_def upd_last_def
        byte_fe_from low_fe_from fe numeral_nat)
  have hd: "hd (shift_blk F b) = [x' div 256 mod 256, s', shift_word op' s' (push_bit 8 (x' div 256 mod 256)),
      x' mod 256, s', shift_word op' s' (x' mod 256), op', op']"
    using F u by (simp add: b shift_blk_def shift_blk_cols_def shift_cells_def byte_fe_from fe numeral_nat)
  have lk: "byte_shift_lookup op (x div 256 mod 256) s 1 ?p1" "byte_shift_lookup op (x div 65536 mod 256) s 2 ?p2"
    "byte_shift_lookup op (x div 16777216 mod 256) s 3 ?p3" "byte_shift_lookup op' (x' mod 256) s' 0 (shift_word op' s' (x' mod 256))"
    using byte_shift_lookup_byte[OF v(1-3), of "x div 256 mod 256" 1] byte_shift_lookup_byte[OF v(1-3), of "x div 65536 mod 256" 2]
      byte_shift_lookup_byte[OF v(1-3), of "x div 16777216 mod 256" 3] byte_shift_lookup_byte[OF v(4-6), of "x' mod 256" 0] u
    by simp_all
  have sum: "?q0 + ?p1 = ?q1" "?q1 + ?p2 = ?q2" "?q2 + ?p3 = shift_word op s x"
    using shift_word_bytes(1,2)[of op s x] shift_word_bytes(3)[OF v(7), of op s] by simp_all
  show ?thesis
    unfolding blk hd steps.simps shift_constraints_def Let_def
    by (simp add: latch4_def FACTOR4_def low_sum field_eq_def z lk lk(1)[simplified] lk(2)[unfolded numeral_2_eq_2] sum v(7))
qed

lemma shift_constraints_mod: "shift_constraints F (i mod 4) = shift_constraints F i"
  by (simp add: shift_constraints_def latch4_def FACTOR4_def fun_eq_iff mod_Suc_eq)

lemma shift_latch_row: "last (shift_blk F (op, a, b, c)) = [0, 0, 0, a, b, c, op, 0]"
  by (simp add: shift_blk_def shift_blk_cols_def numeral_nat)

text \<open>The shift machine. For every sequence of shifts by less than 32 the finished table satisfies
  the constraints of the machine in every row, cyclically; the last row of each block holds the
  operation with its operands and its result; selectors are set there only.\<close>

theorem shift_machine_correct:
  assumes "2 ^ 32 \<le> modulus F" "submachine_new (ShiftMachine F) ns wcols = Some t" "distinct wcols"
    and "ops \<noteq> []" "length ops \<le> m" "8 * (m * 4) < (2 :: nat) ^ 32"
    and "\<forall>(s, a) \<in> set ops. shift_args a \<and> only_column_name s \<in> set (map fst (st_selectors t))"
  shows "\<exists>R S. run_submachine (ShiftMachine F) t ops (m * 4)
        = Some (with_namespace ns (columns (kind_cols (ShiftMachine F)) R @ sels (map fst (st_selectors t)) S)) \<and>
      length R = m * 4 \<and> cyclic (shift_constraints F) R \<and>
      (\<forall>j < length ops. case snd (ops ! j) of (op, a, b, c) \<Rightarrow>
         R ! (j * 4 + 3) ! sh_idx Sh_operation_id = op \<and> R ! (j * 4 + 3) ! sh_idx Sh_A = a \<and>
         R ! (j * 4 + 3) ! sh_idx Sh_B = b \<and> R ! (j * 4 + 3) ! sh_idx Sh_C = c) \<and>
      selects 4 ops m S"
proof -
  have "\<exists>R S. run_submachine (ShiftMachine F) t ops (m * 4)
        = Some (with_namespace ns (columns (kind_cols (ShiftMachine F)) R @ sels (map fst (st_selectors t)) S)) \<and>
      length R = m * 4 \<and> cyclic (\<lambda>i. shift_constraints F (i mod 4)) R \<and>
      (\<forall>j < length ops. \<forall>c < 8. c \<notin> set [0, 2, 7, 1] \<longrightarrow>
         R ! (j * 4 + (4 - 1)) ! c = last (shift_blk F (snd (ops ! j))) ! c) \<and> selects 4 ops m S"
    using shm.machine_correct[OF assms(2-5) _ assms(7) shift_block_constraints[OF assms(1)]] assms(6)
    unfolding shift_kind by blast
  then obtain R S where r: "run_submachine (ShiftMachine F) t ops (m * 4)
        = Some (with_namespace ns (columns (kind_cols (ShiftMachine F)) R @ sels (map fst (st_selectors t)) S))"
      "length R = m * 4" "cyclic (\<lambda>i. shift_constraints F (i mod 4)) R" "selects 4 ops m S"
    and row: "\<forall>j < length ops. \<forall>c < 8. c \<notin> set [0, 2, 7, 1] \<longrightarrow>
         R ! (j * 4 + (4 - 1)) ! c = last (shift_blk F (snd (ops ! j))) ! c"
    by (elim exE conjE)
  have "case snd (ops ! j) of (op, a, b, c) \<Rightarrow>
         R ! (j * 4 + 3) ! sh_idx Sh_operation_id = op \<and> R ! (j * 4 + 3) ! sh_idx Sh_A = a \<and>
         R ! (j * 4 + 3) ! sh_idx Sh_B = b \<and> R ! (j * 4 + 3) ! sh_idx Sh_C = c" if "j < length ops" for j
    using row that by (auto simp: shift_latch_row split: prod.split)
  with r show ?thesis unfolding shift_constraints_mod by blast
qed

lemma sample_shift_new:
  "submachine_new (ShiftMachine F) ''main_shift'' [''main_shift::A'', ''main_shift::sel[0]'']
     = Some (submachine_trace_new ''main_shift'' (kind_cols (ShiftMachine F)) [''sel[0]''])"
  by (simp add: submachine_new_def ShiftMachine_def starts_with_def)

theorem shift_machine_correct_witness:
  "\<exists>R S. run_submachine (ShiftMachine goldilocks_field)
        (submachine_trace_new ''main_shift'' (kind_cols (ShiftMachine goldilocks_field)) [''sel[0]''])
        [(''main_shift::sel[0]'', (0, 0x80000001, 1, 2)), (''main_shift::sel[0]'', (1, 12, 2, 3))] 16
      = Some (with_namespace ''main_shift''
          (columns (kind_cols (ShiftMachine goldilocks_field)) R @ sels [''sel[0]''] S)) \<and>
    length R = 16 \<and> cyclic (shift_constraints goldilocks_field) R"
proof -
  let ?t = "submachine_trace_new ''main_shift'' (kind_cols (ShiftMachine goldilocks_field)) [''sel[0]'']"
  let ?ops = "[(''main_shift::sel[0]'', 0, 0x80000001, 1, 2), (''main_shift::sel[0]'', 1, 12, 2, 3)]"
  have sel: "map fst (st_selectors ?t) = [''sel[0]'']" by (simp add: submachine_trace_new_def)
  have "\<forall>(s, a) \<in> set ?ops. shift_args a \<and> only_column_name s \<in> set (map fst (st_selectors ?t))"
    unfolding sel by (simp add: shift_args_def shift_word_def in_u32_def only_column_name_def push_bit_eq_mult
        drop_bit_eq_div take_bit_eq_mod)
  from shift_machine_correct[OF gl_modulus_u32 sample_shift_new _ _ _ _ this, of 4]
  show ?thesis unfolding sel by auto
qed

end
