(* ===== verification/Riscv_Split.thy ===== *)
theory Riscv_Split
  imports Riscv_Binary
begin

text \<open>
  The split machine satisfies the constraints of \<open>std/machines/split/split_gl.asm\<close>. The machine cuts a
  field element into two 32-bit words through its eight bytes, and compares the bytes with those of
  the largest field element, so that a decomposition that exceeds the modulus is rejected.
\<close>

section \<open>Constraints\<close>

definition RESET8 :: "nat \<Rightarrow> int" where
  "RESET8 i = (if i mod 8 = 7 then 1 else 0)"

definition FACTOR8 :: "nat \<Rightarrow> int" where
  "FACTOR8 i = 2 ^ (((i + 1) mod 8) * 8)"

definition FACTOR_OUTPUT_LOW :: "nat \<Rightarrow> int" where
  "FACTOR_OUTPUT_LOW i = [0x100, 0x10000, 0x1000000, 0, 0, 0, 0, 1] ! (i mod 8)"

definition FACTOR_OUTPUT_HIGH :: "nat \<Rightarrow> int" where
  "FACTOR_OUTPUT_HIGH i = [0, 0, 0, 1, 0x100, 0x10000, 0x1000000, 0] ! (i mod 8)"

definition BYTES_MAX_rotated :: "nat \<Rightarrow> int" where
  "BYTES_MAX_rotated i = [0, 0, 0, 0xff, 0xff, 0xff, 0xff, 0] ! (i mod 8)"

definition byte_compare_lookup :: "int \<Rightarrow> int \<Rightarrow> int \<Rightarrow> int \<Rightarrow> bool" where
  "byte_compare_lookup a b lt gt \<longleftrightarrow> 0 \<le> a \<and> a < 256 \<and> 0 \<le> b \<and> b < 256 \<and>
     lt = (if a < b then 1 else 0) \<and> gt = (if a > b then 1 else 0)"

definition split_constraints :: "field_desc \<Rightarrow> nat \<Rightarrow> int list \<Rightarrow> int list \<Rightarrow> bool" where
  "split_constraints F i r r' \<longleftrightarrow>
     (let v = (\<lambda>c. r ! sp_idx c); v' = (\<lambda>c. r' ! sp_idx c) in
      field_eq F (v' Sp_in_acc) ((1 - RESET8 i) * v Sp_in_acc + v Sp_bytes * FACTOR8 i) \<and>
      field_eq F (v' Sp_output_low) ((1 - RESET8 i) * v Sp_output_low + v Sp_bytes * FACTOR_OUTPUT_LOW i) \<and>
      field_eq F (v' Sp_output_high) ((1 - RESET8 i) * v Sp_output_high + v Sp_bytes * FACTOR_OUTPUT_HIGH i) \<and>
      byte_compare_lookup (v Sp_bytes) (BYTES_MAX_rotated i) (v Sp_lt) (v Sp_gt) \<and>
      field_eq F (v Sp_was_lt)
        (RESET8 (i + 1) * v Sp_lt
         + (1 - RESET8 (i + 1)) * (v' Sp_was_lt + v Sp_lt - v' Sp_was_lt * v Sp_lt)) \<and>
      field_eq F (v Sp_gt * (1 - v Sp_was_lt)) 0)"

text \<open>The arguments: two words whose combination is at most the largest element of the Goldilocks
  field.\<close>

definition split_args :: "lookup_arguments \<Rightarrow> bool" where
  "split_args args \<longleftrightarrow> (case args of (v, lo, hi, _) \<Rightarrow>
     in_u32 lo \<and> in_u32 hi \<and> hi * 2 ^ 32 + lo \<le> 0xffffffff00000000)"

section \<open>The block of an operation\<close>

definition split_bytes :: "int \<Rightarrow> int \<Rightarrow> int list" where
  "split_bytes lo hi =
     [lo mod 256, lo div 2 ^ 8 mod 256, lo div 2 ^ 16 mod 256, lo div 2 ^ 24 mod 256,
      hi mod 256, hi div 2 ^ 8 mod 256, hi div 2 ^ 16 mod 256, hi div 2 ^ 24 mod 256]"

definition split_lt :: "int \<Rightarrow> int \<Rightarrow> int list" where
  "split_lt lo hi = map (\<lambda>(b, m). if b < m then 1 else 0) (zip (split_bytes lo hi) BYTES_MAX)"

definition split_gt :: "int \<Rightarrow> int \<Rightarrow> int list" where
  "split_gt lo hi = map (\<lambda>(b, m). if b > m then 1 else 0) (zip (split_bytes lo hi) BYTES_MAX)"

definition split_at :: "int \<Rightarrow> int \<Rightarrow> nat \<Rightarrow> int \<times> int \<times> int \<times> int" where
  "split_at lo hi i =
     (split_bytes lo hi ! i, split_lt lo hi ! i, split_gt lo hi ! i, was_lt_from (split_lt lo hi) ! i)"

definition split_rows :: "field_desc \<Rightarrow> int \<Rightarrow> int \<Rightarrow> (nat \<times> int) list list" where
  "split_rows F lo hi =
     [split_row F (lo AND 0xff, 0, fe_from F (lo AND 0xff)) (split_at lo hi 1),
      split_row F (lo AND 0xffff, 0, fe_from F (lo AND 0xffff)) (split_at lo hi 2),
      split_row F (lo AND 0xffffff, 0, fe_from F (lo AND 0xffffff)) (split_at lo hi 3),
      split_row F (lo, 0, fe_from F lo) (split_at lo hi 4),
      split_row F (lo, hi AND 0xff, hi_and_lo F (hi AND 0xff) lo) (split_at lo hi 5),
      split_row F (lo, hi AND 0xffff, hi_and_lo F (hi AND 0xffff) lo) (split_at lo hi 6),
      split_row F (lo, hi AND 0xffffff, hi_and_lo F (hi AND 0xffffff) lo) (split_at lo hi 7)]"

definition split_last :: "field_desc \<Rightarrow> int \<Rightarrow> int \<Rightarrow> (nat \<times> int) list" where
  "split_last F lo hi =
     [(sp_idx Sp_output_low, fe_from F lo), (sp_idx Sp_output_high, fe_from F hi),
      (sp_idx Sp_in_acc, hi_and_lo F hi lo)]"

definition split_blk :: "field_desc \<Rightarrow> lookup_arguments \<Rightarrow> int list list" where
  "split_blk F args = (case args of (v, lo, hi, _) \<Rightarrow>
     map (filled 7) (split_rows F lo hi) @ [filled 7 (split_last F lo hi)])"

definition split_ovr :: "field_desc \<Rightarrow> lookup_arguments \<Rightarrow> (nat \<times> int) list" where
  "split_ovr F args = (case args of (v, lo, hi, _) \<Rightarrow> (case split_at lo hi 0 of (b, lt, gt, was_lt) \<Rightarrow>
     [(sp_idx Sp_bytes, fe_from F b), (sp_idx Sp_lt, fe_from F lt), (sp_idx Sp_gt, fe_from F gt),
      (sp_idx Sp_was_lt, fe_from F was_lt)]))"

lemma split_add_unfold:
  assumes "in_u32 lo" "in_u32 hi"
  shows "split_gl_add_operation F t (Some sel) (v, lo, hi, z) [] =
    set_previous_row t (split_ovr F (v, lo, hi, z)) \<bind> (\<lambda>t. add_rows t (split_rows F lo hi) \<bind>
      (\<lambda>t. set_current_row_selector (sub_push_row t) (only_column_name sel) 1 \<bind>
      (\<lambda>t. set_row_cols t (split_last F lo hi))))"
proof -
  have u: "check_u32 lo = Some lo" "check_u32 hi = Some hi" using assms by simp_all
  show ?thesis
    by (simp only: split_gl_add_operation_def u Let_def prod.case simp_thms rust_assert_simps
        Option.bind.bind_lunit decompose_lower32_eq split_bytes_def[symmetric] split_lt_def[symmetric]
        split_gt_def[symmetric] split_at_def[symmetric])
       (simp only: split_ovr_def split_at_def prod.case split_rows_def split_last_def add_rows.simps
        Option.bind_assoc Option.bind.bind_lunit)
qed

lemma split_cols:
  "\<forall>r \<in> set (split_rows F lo hi). \<forall>c \<in> set (map fst r). c < 7"
  "\<forall>c \<in> set (map fst (split_last F lo hi)). c < 7"
  "map fst (split_ovr F a) = [3, 4, 5, 6]"
  by (auto simp: split_rows_def split_row_def split_last_def split_ovr_def split_at_def split: prod.split)

lemma split_add_law:
  assumes "split_args a" "rows_ok 7 R" "fits t 7 (length R + 8)"
    and "only_column_name sel \<in> set names" "distinct names" "R = [] \<Longrightarrow> ov = []"
  shows "split_gl_add_operation F (view t R (sels names G) ov) (Some sel) a []
    = Some (view t (upd_last (split_ovr F a) R @ split_blk F a)
        (sels names (\<lambda>k. G k @ sel_block 8 (k = only_column_name sel)))
        (if R = [] then finals (split_ovr F a) else ov))"
proof -
  obtain v lo hi z where a: "a = (v, lo, hi, z)" by (cases a)
  have u: "in_u32 lo" "in_u32 hi" using assms(1) by (auto simp: a split_args_def)
  let ?k = "only_column_name sel" and ?o = "split_ovr F a" and ?rs = "split_rows F lo hi"
  let ?R = "upd_last ?o R @ map (filled 7) ?rs" and ?ov = "if R = [] then finals ?o else ov"
  have len: "length ?rs = 7" by (simp add: split_rows_def)
  have n: "length (st_cols t) = 7" using assms(3) by (simp add: fits_def)
  have fit: "fits t 7 (length R)" "fits t 7 (length (upd_last ?o R) + length ?rs)" "fits t 7 (Suc (length ?R))"
    using assms(3) len by (auto elim: fits_less)
  have "rows_ok 7 (map (filled 7) ?rs)" by (simp add: rows_ok_def)
  with assms(2) have ok: "rows_ok 7 ?R" by simp
  have o: "\<forall>c \<in> set (map fst ?o). c < 7" "distinct (map fst ?o)" by (simp_all only: split_cols) simp_all
  have 1: "set_previous_row (view t R (sels names G) ov) ?o = Some (view t (upd_last ?o R) (sels names G) ?ov)"
    by (rule set_previous_row_view[OF fit(1) assms(2) o assms(6)])
  have 2: "add_rows (view t (upd_last ?o R) (sels names G) ?ov) ?rs
      = Some (view t ?R (sels names (\<lambda>k. G k @ replicate 7 0)) ?ov)"
    using add_rows_view[OF fit(2) _ split_cols(1)] assms(2) len by simp
  have 3: "set_current_row_selector (sub_push_row (view t ?R (sels names (\<lambda>k. G k @ replicate 7 0)) ?ov)) ?k 1
      = Some (view t (?R @ [replicate 7 0]) (sels names (\<lambda>k'. G k' @ sel_block 8 (k' = ?k))) ?ov)"
  proof -
    have r: "(\<lambda>k. (G k @ replicate 7 0) @ [0]) = (\<lambda>k. G k @ replicate 8 0)"
      by (simp add: numeral_nat)
    show ?thesis
      unfolding sub_push_row_view[OF n] r
      using set_current_row_selector_view[OF assms(4,5), of "\<lambda>k. G k @ replicate 8 0"]
        sel_block_append[of 8 G ?k] by simp
  qed
  have 4: "set_row_cols (view t (?R @ [replicate 7 0]) S ?ov) (split_last F lo hi)
      = Some (view t (?R @ [filled 7 (split_last F lo hi)]) S ?ov)" for S
    using set_row_cols_view[OF fit(3) _ split_cols(2)] ok by simp
  show ?thesis
    unfolding a split_add_unfold[OF u] using 1 2 3 4 by (simp add: a split_blk_def)
qed

lemma split_kind [simp]:
  "length (kind_cols (SplitGlMachine F)) = 7" "BLOCK_SIZE (SplitGlMachine F) = 8"
  "kind_add_operation (SplitGlMachine F) = split_gl_add_operation F"
  "dummy_block_fix (SplitGlMachine F) t k = Some t" "kind_cols (SplitGlMachine F) \<noteq> []"
  by (simp_all add: SplitGlMachine_def)

interpretation splm: block_kind "SplitGlMachine F" split_args "split_blk F" "split_ovr F" "[3, 4, 5, 6]" for F
proof unfold_locales
  fix a t R sel names G and ov :: "(nat \<times> int option) list"
  assume "split_args a" "rows_ok (length (kind_cols (SplitGlMachine F))) R"
    "fits t (length (kind_cols (SplitGlMachine F))) (length R + BLOCK_SIZE (SplitGlMachine F))"
    "only_column_name sel \<in> set names" "distinct names" "R = [] \<Longrightarrow> ov = []"
  then show "kind_add_operation (SplitGlMachine F) (view t R (sels names G) ov) (Some sel) a []
        = Some (view t (upd_last (split_ovr F a) R @ split_blk F a)
            (sels names (\<lambda>k. G k @ sel_block (BLOCK_SIZE (SplitGlMachine F)) (k = only_column_name sel)))
            (if R = [] then finals (split_ovr F a) else ov))"
    using split_add_law[of a R t sel names ov F G] unfolding split_kind by blast
qed (auto simp: split_blk_def split_rows_def split_cols split: prod.split)

section \<open>The constraints hold\<close>

lemma bytes_nonneg: "0 \<le> (x :: int) mod 256" "x mod (256 :: int) < 256"
  by simp_all

lemma bytes_not_neg: "\<not> (x :: int) mod 256 < 0"
  by (simp add: not_less)

text \<open>The high word is all ones exactly when no byte is below \<open>0xff\<close>.\<close>

lemma all_ones_bytes:
  assumes "in_u32 x" "\<not> x mod 256 < 255" "\<not> x div 2 ^ 8 mod 256 < 255" "\<not> x div 2 ^ 16 mod 256 < 255"
    "\<not> x div 2 ^ 24 mod 256 < 255"
  shows "x = 0xffffffff"
proof -
  have "x mod 256 = 255" "x div 2 ^ 8 mod 256 = 255" "x div 2 ^ 16 mod 256 = 255" "x div 2 ^ 24 mod 256 = 255"
    using assms(2-5) bytes_nonneg(2)[of x] bytes_nonneg(2)[of "x div 2 ^ 8"] bytes_nonneg(2)[of "x div 2 ^ 16"]
      bytes_nonneg(2)[of "x div 2 ^ 24"] by linarith+
  with bytes_sum[of x] assms(1) show ?thesis by (simp add: in_u32_def)
qed

definition was_lt4 :: "int \<Rightarrow> int" where
  "was_lt4 hi = (if hi mod 256 < 255 \<or> hi div 2 ^ 8 mod 256 < 255 \<or> hi div 2 ^ 16 mod 256 < 255 \<or>
     hi div 2 ^ 24 mod 256 < 255 then 1 else 0)"

definition lt255 :: "int \<Rightarrow> int" where
  "lt255 b = (if b < 255 then 1 else 0)"

definition gt0 :: "int \<Rightarrow> int" where
  "gt0 b = (if 0 < b then 1 else 0)"

definition bit_or :: "int \<Rightarrow> int \<Rightarrow> int" where
  "bit_or w l = w + l - w * l"

lemma split_columns:
  "split_lt lo hi = [0, 0, 0, 0, lt255 (hi mod 256), lt255 (hi div 2 ^ 8 mod 256), lt255 (hi div 2 ^ 16 mod 256),
     lt255 (hi div 2 ^ 24 mod 256)]"
  "split_gt lo hi = [gt0 (lo mod 256), gt0 (lo div 2 ^ 8 mod 256), gt0 (lo div 2 ^ 16 mod 256),
     gt0 (lo div 2 ^ 24 mod 256), 0, 0, 0, 0]"
proof -
  show "split_lt lo hi = [0, 0, 0, 0, lt255 (hi mod 256), lt255 (hi div 2 ^ 8 mod 256),
      lt255 (hi div 2 ^ 16 mod 256), lt255 (hi div 2 ^ 24 mod 256)]"
    by (simp add: split_lt_def split_bytes_def BYTES_MAX_def lt255_def bytes_not_neg)
  have "\<not> 255 < y mod 256" for y :: int using bytes_nonneg(2)[of y] by linarith
  then show "split_gt lo hi = [gt0 (lo mod 256), gt0 (lo div 2 ^ 8 mod 256), gt0 (lo div 2 ^ 16 mod 256),
     gt0 (lo div 2 ^ 24 mod 256), 0, 0, 0, 0]"
    by (simp add: split_gt_def split_bytes_def BYTES_MAX_def gt0_def)
qed

text \<open>The column \<open>was_lt\<close>: \<open>w4\<close> for the low word.\<close>

lemma was_lt_columns:
  fixes hi :: int
  defines "l4 \<equiv> lt255 (hi mod 256)" and "l5 \<equiv> lt255 (hi div 2 ^ 8 mod 256)"
    and "l6 \<equiv> lt255 (hi div 2 ^ 16 mod 256)" and "l7 \<equiv> lt255 (hi div 2 ^ 24 mod 256)"
  defines "w6 \<equiv> bit_or l7 l6"
  defines "w5 \<equiv> bit_or w6 l5"
  shows "was_lt_from (split_lt lo hi) = [was_lt4 hi, was_lt4 hi, was_lt4 hi, was_lt4 hi, was_lt4 hi, w5, w6, l7]"
    and "was_lt4 hi = bit_or w5 l4"
proof -
  show w4: "was_lt4 hi = bit_or w5 l4"
    unfolding assms was_lt4_def lt255_def bit_or_def by simp
  show "was_lt_from (split_lt lo hi) = [was_lt4 hi, was_lt4 hi, was_lt4 hi, was_lt4 hi, was_lt4 hi, w5, w6, l7]"
    unfolding split_columns w4 assms(1-4)[symmetric] by (simp add: Let_def w5_def w6_def bit_or_def)
qed

lemma gt_was_lt:
  assumes "in_u32 hi" "in_u32 lo" "hi * 2 ^ 32 + lo \<le> 0xffffffff00000000"
  shows "gt0 (lo div 2 ^ n mod 256) * (1 - was_lt4 hi) = 0"
proof (cases "was_lt4 hi = 0")
  case True
  then have "hi = 0xffffffff"
    using all_ones_bytes[OF assms(1)] unfolding was_lt4_def by (metis zero_neq_one)
  then have "lo = 0" using assms(2,3) by (simp add: in_u32_def)
  then show ?thesis by (simp add: gt0_def)
next
  case False
  have "(if P then 1 else 0 :: int) = 0 \<or> (if P then 1 else 0 :: int) = 1" for P by simp
  with False have "was_lt4 hi = 1" unfolding was_lt4_def by metis
  then show ?thesis by simp
qed

lemma hi_and_lo_eq: "in_u32 lo \<Longrightarrow> hi_and_lo F hi lo = (hi * 2 ^ 32 + lo) mod modulus F"
proof -
  assume "in_u32 lo"
  then have lo: "lo mod 2 ^ 32 = lo" by (simp add: in_u32_def)
  have "push_bit 32 hi AND lo = 0"
    using low_disjoint[of lo 32 hi] unfolding lo by (subst and.commute)
  then have "push_bit 32 hi OR lo = push_bit 32 hi + lo"
    by (rule disjunctive_add_eq_or[symmetric])
  then show ?thesis by (simp add: hi_and_lo_def fe_from_def push_bit_eq_mult)
qed

lemma nth8:
  "[a, b, c, d, e, f, g, h] ! 0 = a" "[a, b, c, d, e, f, g, h] ! 1 = b" "[a, b, c, d, e, f, g, h] ! 2 = c"
  "[a, b, c, d, e, f, g, h] ! 3 = d" "[a, b, c, d, e, f, g, h] ! 4 = e" "[a, b, c, d, e, f, g, h] ! 5 = f"
  "[a, b, c, d, e, f, g, h] ! 6 = g" "[a, b, c, d, e, f, g, h] ! 7 = h"
  by simp_all

lemma small_fe_from:
  assumes "2 ^ 32 \<le> modulus F"
  shows "fe_from F 0 = 0" "fe_from F (lt255 b) = lt255 b" "fe_from F (gt0 b) = gt0 b"
    "fe_from F (was_lt4 hi) = was_lt4 hi" "fe_from F (bit_or (lt255 b) (lt255 c)) = bit_or (lt255 b) (lt255 c)"
    "fe_from F (bit_or (bit_or (lt255 b) (lt255 c)) (lt255 d)) = bit_or (bit_or (lt255 b) (lt255 c)) (lt255 d)"
  using assms
  by (auto intro!: fe_from_u32 simp: in_u32_def lt255_def gt0_def was_lt4_def bit_or_def)

lemma compare_lookups:
  "byte_compare_lookup (x mod 256) 0 0 (gt0 (x mod 256))"
  "byte_compare_lookup (x mod 256) 255 (lt255 (x mod 256)) 0"
  using bytes_nonneg[of x] by (auto simp: byte_compare_lookup_def gt0_def lt255_def)

lemma split_block_rows:
  assumes F: "2 ^ 32 \<le> modulus F" and a: "split_args (v, lo, hi, z)"
  defines "l4 \<equiv> lt255 (hi mod 256)" and "l5 \<equiv> lt255 (hi div 2 ^ 8 mod 256)"
    and "l6 \<equiv> lt255 (hi div 2 ^ 16 mod 256)" and "l7 \<equiv> lt255 (hi div 2 ^ 24 mod 256)"
  defines "w6 \<equiv> bit_or l7 l6"
  defines "w5 \<equiv> bit_or w6 l5" and "w4 \<equiv> was_lt4 hi"
  shows "split_blk F (v, lo, hi, z) =
    [[lo mod 256, 0, lo mod 256, lo div 2 ^ 8 mod 256, 0, gt0 (lo div 2 ^ 8 mod 256), w4],
     [lo mod 65536, 0, lo mod 65536, lo div 2 ^ 16 mod 256, 0, gt0 (lo div 2 ^ 16 mod 256), w4],
     [lo mod 16777216, 0, lo mod 16777216, lo div 2 ^ 24 mod 256, 0, gt0 (lo div 2 ^ 24 mod 256), w4],
     [lo, 0, lo, hi mod 256, l4, 0, w4],
     [lo, hi mod 256, (hi mod 256 * 2 ^ 32 + lo) mod modulus F, hi div 2 ^ 8 mod 256, l5, 0, w5],
     [lo, hi mod 65536, (hi mod 65536 * 2 ^ 32 + lo) mod modulus F, hi div 2 ^ 16 mod 256, l6, 0, w6],
     [lo, hi mod 16777216, (hi mod 16777216 * 2 ^ 32 + lo) mod modulus F, hi div 2 ^ 24 mod 256, l7, 0, l7],
     [lo, hi, (hi * 2 ^ 32 + lo) mod modulus F, 0, 0, 0, 0]]"
    and "split_ovr F (v, lo, hi, z) = [(3, lo mod 256), (4, 0), (5, gt0 (lo mod 256)), (6, w4)]"
proof -
  have u: "in_u32 lo" "in_u32 hi" using a by (auto simp: split_args_def)
  have masks: "(x :: int) AND 0xff = x mod 256" "x AND 0xffff = x mod 65536" "x AND 0xffffff = x mod 16777216" for x
    using low_masks[of x] by simp_all
  note fe = byte_fe_from[OF F] low_fe_from[OF F] fe_from_u32[OF u(1) F] fe_from_u32[OF u(2) F] small_fe_from[OF F]
  have rows: "filled 7 (split_row F (x, y, acc) (b, l, g, w))
      = [fe_from F x, fe_from F y, acc, fe_from F b, fe_from F l, fe_from F g, fe_from F w]" for x y acc b l g w
    by (simp add: split_row_def numeral_nat)
  have last: "filled 7 (split_last F lo hi) = [fe_from F lo, fe_from F hi, hi_and_lo F hi lo, 0, 0, 0, 0]"
    by (simp add: split_last_def numeral_nat)
  have at: "split_at lo hi 0 = (lo mod 256, 0, gt0 (lo mod 256), w4)"
    "split_at lo hi 1 = (lo div 2 ^ 8 mod 256, 0, gt0 (lo div 2 ^ 8 mod 256), w4)"
    "split_at lo hi 2 = (lo div 2 ^ 16 mod 256, 0, gt0 (lo div 2 ^ 16 mod 256), w4)"
    "split_at lo hi 3 = (lo div 2 ^ 24 mod 256, 0, gt0 (lo div 2 ^ 24 mod 256), w4)"
    "split_at lo hi 4 = (hi mod 256, l4, 0, w4)" "split_at lo hi 5 = (hi div 2 ^ 8 mod 256, l5, 0, w5)"
    "split_at lo hi 6 = (hi div 2 ^ 16 mod 256, l6, 0, w6)" "split_at lo hi 7 = (hi div 2 ^ 24 mod 256, l7, 0, l7)"
    unfolding split_at_def was_lt_columns(1)[of lo hi]
    unfolding split_columns split_bytes_def assms(3-) nth8
    by (rule refl)+
  show "split_blk F (v, lo, hi, z) =
    [[lo mod 256, 0, lo mod 256, lo div 2 ^ 8 mod 256, 0, gt0 (lo div 2 ^ 8 mod 256), w4],
     [lo mod 65536, 0, lo mod 65536, lo div 2 ^ 16 mod 256, 0, gt0 (lo div 2 ^ 16 mod 256), w4],
     [lo mod 16777216, 0, lo mod 16777216, lo div 2 ^ 24 mod 256, 0, gt0 (lo div 2 ^ 24 mod 256), w4],
     [lo, 0, lo, hi mod 256, l4, 0, w4],
     [lo, hi mod 256, (hi mod 256 * 2 ^ 32 + lo) mod modulus F, hi div 2 ^ 8 mod 256, l5, 0, w5],
     [lo, hi mod 65536, (hi mod 65536 * 2 ^ 32 + lo) mod modulus F, hi div 2 ^ 16 mod 256, l6, 0, w6],
     [lo, hi mod 16777216, (hi mod 16777216 * 2 ^ 32 + lo) mod modulus F, hi div 2 ^ 24 mod 256, l7, 0, l7],
     [lo, hi, (hi * 2 ^ 32 + lo) mod modulus F, 0, 0, 0, 0]]"
    by (simp only: split_blk_def prod.case split_rows_def masks at list.map rows last append.simps
        hi_and_lo_eq[OF u(1)] fe assms(3-))
  show "split_ovr F (v, lo, hi, z) = [(3, lo mod 256), (4, 0), (5, gt0 (lo mod 256)), (6, w4)]"
    by (simp add: split_ovr_def at fe w4_def)
qed

lemma split_constraints_row:
  "split_constraints F i [ol, oh, acc, b, l, g, w] [ol', oh', acc', b', l', g', w'] \<longleftrightarrow>
     field_eq F acc' ((1 - RESET8 i) * acc + b * FACTOR8 i) \<and>
     field_eq F ol' ((1 - RESET8 i) * ol + b * FACTOR_OUTPUT_LOW i) \<and>
     field_eq F oh' ((1 - RESET8 i) * oh + b * FACTOR_OUTPUT_HIGH i) \<and>
     byte_compare_lookup b (BYTES_MAX_rotated i) l g \<and>
     field_eq F w (RESET8 (Suc i) * l + (1 - RESET8 (Suc i)) * (w' + l - w' * l)) \<and>
     field_eq F (g * (1 - w)) 0"
  by (simp add: split_constraints_def)

lemma steps8:
  "steps C 0 [r0, r1, r2, r3, r4, r5, r6, r7] x \<longleftrightarrow>
     C 0 r0 r1 \<and> C 1 r1 r2 \<and> C 2 r2 r3 \<and> C 3 r3 r4 \<and> C 4 r4 r5 \<and> C 5 r5 r6 \<and> C 6 r6 r7 \<and> C 7 r7 x"
  by (simp add: numeral_nat)

lemma fixed_columns8:
  "RESET8 0 = 0" "RESET8 1 = 0" "RESET8 2 = 0" "RESET8 3 = 0" "RESET8 4 = 0" "RESET8 5 = 0" "RESET8 6 = 0"
  "RESET8 7 = 1" "RESET8 8 = 0"
  "FACTOR8 0 = 0x100" "FACTOR8 1 = 0x10000" "FACTOR8 2 = 0x1000000" "FACTOR8 3 = 2 ^ 32"
  "FACTOR8 4 = 0x100 * 2 ^ 32" "FACTOR8 5 = 0x10000 * 2 ^ 32" "FACTOR8 6 = 0x1000000 * 2 ^ 32" "FACTOR8 7 = 1"
  by (simp_all add: RESET8_def FACTOR8_def)

lemma fixed_lists8:
  "FACTOR_OUTPUT_LOW 0 = 0x100" "FACTOR_OUTPUT_LOW 1 = 0x10000" "FACTOR_OUTPUT_LOW 2 = 0x1000000"
  "FACTOR_OUTPUT_LOW 3 = 0" "FACTOR_OUTPUT_LOW 4 = 0" "FACTOR_OUTPUT_LOW 5 = 0" "FACTOR_OUTPUT_LOW 6 = 0"
  "FACTOR_OUTPUT_LOW 7 = 1"
  "FACTOR_OUTPUT_HIGH 0 = 0" "FACTOR_OUTPUT_HIGH 1 = 0" "FACTOR_OUTPUT_HIGH 2 = 0"
  "FACTOR_OUTPUT_HIGH 3 = 1" "FACTOR_OUTPUT_HIGH 4 = 0x100" "FACTOR_OUTPUT_HIGH 5 = 0x10000"
  "FACTOR_OUTPUT_HIGH 6 = 0x1000000" "FACTOR_OUTPUT_HIGH 7 = 0"
  "BYTES_MAX_rotated 0 = 0" "BYTES_MAX_rotated 1 = 0" "BYTES_MAX_rotated 2 = 0" "BYTES_MAX_rotated 3 = 255"
  "BYTES_MAX_rotated 4 = 255" "BYTES_MAX_rotated 5 = 255" "BYTES_MAX_rotated 6 = 255" "BYTES_MAX_rotated 7 = 0"
  by (simp_all add: FACTOR_OUTPUT_LOW_def FACTOR_OUTPUT_HIGH_def BYTES_MAX_rotated_def)

lemma numeral_sucs: "Suc 0 = 1" "Suc 1 = 2" "Suc 2 = 3" "Suc 3 = 4" "Suc 4 = 5" "Suc 5 = 6" "Suc 6 = 7" "Suc 7 = 8"
  by simp_all

text \<open>The accumulator: adding the next byte of the high word.\<close>

lemma acc_step:
  assumes "h' = h + b * k"
  shows "field_eq F ((h' * 2 ^ 32 + lo) mod modulus F) ((h * 2 ^ 32 + lo) mod modulus F + b * (k * 2 ^ 32))"
  unfolding field_eq_def assms by (simp add: algebra_simps mod_simps)

lemma low_bytes:
  "(x :: int) mod 65536 = x mod 256 + x div 2 ^ 8 mod 256 * 0x100"
  "(x :: int) mod 16777216 = x mod 65536 + x div 2 ^ 16 mod 256 * 0x10000"
  "in_u32 x \<Longrightarrow> x = x mod 16777216 + x div 2 ^ 24 mod 256 * 0x1000000"
  by (simp_all add: low_sum)

lemma split_block_constraints:
  assumes F: "2 ^ 32 \<le> modulus F" and "split_args a" "split_args b"
  shows "steps (split_constraints F) 0 (upd_last (split_ovr F b) (split_blk F a)) (hd (split_blk F b))"
proof -
  obtain v lo hi z where a: "a = (v, lo, hi, z)" by (cases a)
  obtain v' lo' hi' z' where b: "b = (v', lo', hi', z')" by (cases b)
  have va: "split_args (v, lo, hi, z)" and vb: "split_args (v', lo', hi', z')" using assms(2,3) a b by simp_all
  then have u: "in_u32 lo" "in_u32 hi" by (auto simp: split_args_def)
  have gt: "gt0 (lo div 2 ^ n mod 256) * (1 - was_lt4 hi) = 0" "gt0 (lo' mod 256) * (1 - was_lt4 hi') = 0" for n
    using gt_was_lt[of hi lo n] gt_was_lt[of hi' lo' 0] va vb by (simp_all add: split_args_def)
  have upd: "upd_last (split_ovr F b) [r0, r1, r2, r3, r4, r5, r6, [x, y, acc, 0, 0, 0, 0]]
      = [r0, r1, r2, r3, r4, r5, r6, [x, y, acc, lo' mod 256, 0, gt0 (lo' mod 256), was_lt4 hi']]"
    for r0 r1 r2 r3 r4 r5 r6 x y acc
    unfolding b split_block_rows(2)[OF F vb] by (simp add: upd_last_def numeral_nat)
  note low = field_eqI[OF low_bytes(1), of F lo] field_eqI[OF low_bytes(2), of F lo] field_eqI[OF low_bytes(3)[OF u(1)], of F]
    field_eqI[OF low_bytes(1), of F hi] field_eqI[OF low_bytes(2), of F hi] field_eqI[OF low_bytes(3)[OF u(2)], of F]
  have acc: "field_eq F ((hi mod 256 * 2 ^ 32 + lo) mod modulus F) (lo + hi mod 256 * 2 ^ 32)"
    "field_eq F ((hi mod 65536 * 2 ^ 32 + lo) mod modulus F)
       ((hi mod 256 * 2 ^ 32 + lo) mod modulus F + hi div 2 ^ 8 mod 256 * (0x100 * 2 ^ 32))"
    "field_eq F ((hi mod 16777216 * 2 ^ 32 + lo) mod modulus F)
       ((hi mod 65536 * 2 ^ 32 + lo) mod modulus F + hi div 2 ^ 16 mod 256 * (0x10000 * 2 ^ 32))"
    "field_eq F ((hi * 2 ^ 32 + lo) mod modulus F)
       ((hi mod 16777216 * 2 ^ 32 + lo) mod modulus F + hi div 2 ^ 24 mod 256 * (0x1000000 * 2 ^ 32))"
    by (simp add: field_eq_def add.commute)
       (rule acc_step, rule low_bytes(1), rule acc_step, rule low_bytes(2), rule acc_step, rule low_bytes(3)[OF u(2)])
  have w: "field_eq F (was_lt4 hi) (w5 + l - w5 * l)"
    if "w5 = bit_or (bit_or (lt255 (hi div 2 ^ 24 mod 256)) (lt255 (hi div 2 ^ 16 mod 256))) (lt255 (hi div 2 ^ 8 mod 256))"
      "l = lt255 (hi mod 256)" for w5 l
    unfolding was_lt_columns(2)[of hi] that by (rule field_eqI) (simp only: bit_or_def)
  have w': "field_eq F (bit_or w l) (w + l - w * l)" for w l by (rule field_eqI) (simp only: bit_or_def)
  show ?thesis
    unfolding a split_block_rows(1)[OF F va] upd
    unfolding b split_block_rows(1)[OF F vb] list.sel steps8 split_constraints_row numeral_sucs
      fixed_columns8 fixed_lists8
    using gt low acc w w' compare_lookups field_eqI[OF refl, of F]
    by (simp only: diff_zero diff_self mult_1_left mult_zero_left mult_zero_right mult_1_right add_0_left add_0_right
        simp_thms)
qed

lemma split_constraints_mod: "split_constraints F (i mod 8) = split_constraints F i"
  by (simp add: split_constraints_def RESET8_def FACTOR8_def FACTOR_OUTPUT_LOW_def FACTOR_OUTPUT_HIGH_def
      BYTES_MAX_rotated_def fun_eq_iff mod_Suc_eq)

lemma split_latch_row:
  "2 ^ 32 \<le> modulus F \<Longrightarrow> split_args (v, lo, hi, z) \<Longrightarrow>
     last (split_blk F (v, lo, hi, z)) = [lo, hi, (hi * 2 ^ 32 + lo) mod modulus F, 0, 0, 0, 0]"
  by (simp add: split_block_rows)

text \<open>C22: the split machine. For every sequence of operations whose two output words form a number
  below the Goldilocks modulus, the finished table satisfies the constraints of the machine in every
  row, cyclically, the comparison with the bytes of the largest field element included; the last row
  of each block holds the two words and, as input, the field element they form; selectors are set
  there only.\<close>

theorem split_machine_correct:
  assumes "2 ^ 32 \<le> modulus F" "submachine_new (SplitGlMachine F) ns wcols = Some t" "distinct wcols"
    and "ops \<noteq> []" "length ops \<le> m" "7 * (m * 8) < (2 :: nat) ^ 32"
    and "\<forall>(s, a) \<in> set ops. split_args a \<and> only_column_name s \<in> set (map fst (st_selectors t))"
  shows "\<exists>R S. run_submachine (SplitGlMachine F) t ops (m * 8)
        = Some (with_namespace ns (columns (kind_cols (SplitGlMachine F)) R @ sels (map fst (st_selectors t)) S)) \<and>
      length R = m * 8 \<and> cyclic (split_constraints F) R \<and>
      (\<forall>j < length ops. case snd (ops ! j) of (v, lo, hi, _) \<Rightarrow>
         R ! (j * 8 + 7) ! sp_idx Sp_output_low = lo \<and> R ! (j * 8 + 7) ! sp_idx Sp_output_high = hi \<and>
         R ! (j * 8 + 7) ! sp_idx Sp_in_acc = (hi * 2 ^ 32 + lo) mod modulus F) \<and>
      selects 8 ops m S"
proof -
  have "\<exists>R S. run_submachine (SplitGlMachine F) t ops (m * 8)
        = Some (with_namespace ns (columns (kind_cols (SplitGlMachine F)) R @ sels (map fst (st_selectors t)) S)) \<and>
      length R = m * 8 \<and> cyclic (\<lambda>i. split_constraints F (i mod 8)) R \<and>
      (\<forall>j < length ops. \<forall>c < 7. c \<notin> set [3, 4, 5, 6] \<longrightarrow>
         R ! (j * 8 + (8 - 1)) ! c = last (split_blk F (snd (ops ! j))) ! c) \<and> selects 8 ops m S"
    using splm.machine_correct[OF assms(2-5) _ assms(7) split_block_constraints[OF assms(1)]] assms(6)
    unfolding split_kind by blast
  then obtain R S where r: "run_submachine (SplitGlMachine F) t ops (m * 8)
        = Some (with_namespace ns (columns (kind_cols (SplitGlMachine F)) R @ sels (map fst (st_selectors t)) S))"
      "length R = m * 8" "cyclic (\<lambda>i. split_constraints F (i mod 8)) R" "selects 8 ops m S"
    and row: "\<forall>j < length ops. \<forall>c < 7. c \<notin> set [3, 4, 5, 6] \<longrightarrow>
         R ! (j * 8 + (8 - 1)) ! c = last (split_blk F (snd (ops ! j))) ! c"
    by (elim exE conjE)
  have "case snd (ops ! j) of (v, lo, hi, _) \<Rightarrow>
         R ! (j * 8 + 7) ! sp_idx Sp_output_low = lo \<and> R ! (j * 8 + 7) ! sp_idx Sp_output_high = hi \<and>
         R ! (j * 8 + 7) ! sp_idx Sp_in_acc = (hi * 2 ^ 32 + lo) mod modulus F" if j: "j < length ops" for j
  proof -
    obtain s v lo hi z where o: "ops ! j = (s, v, lo, hi, z)" by (cases "ops ! j")
    then have "split_args (v, lo, hi, z)" using assms(7) nth_mem[OF j] by auto
    note l = split_latch_row[OF assms(1) this]
    show ?thesis
      using row[rule_format, OF j, of 0] row[rule_format, OF j, of 1] row[rule_format, OF j, of 2]
      by (simp add: o l)
  qed
  with r show ?thesis unfolding split_constraints_mod by blast
qed

lemma sample_split_new:
  "submachine_new (SplitGlMachine F) ''main_split_gl'' [''main_split_gl::lt'', ''main_split_gl::sel[0]'']
     = Some (submachine_trace_new ''main_split_gl'' (kind_cols (SplitGlMachine F)) [''sel[0]''])"
  by (simp add: submachine_new_def SplitGlMachine_def starts_with_def)

theorem split_machine_correct_witness:
  "\<exists>R S. run_submachine (SplitGlMachine goldilocks_field)
        (submachine_trace_new ''main_split_gl'' (kind_cols (SplitGlMachine goldilocks_field)) [''sel[0]''])
        [(''main_split_gl::sel[0]'', (0, 0, 0xffffffff, 0)), (''main_split_gl::sel[0]'', (0, 5, 7, 0))] 16
      = Some (with_namespace ''main_split_gl''
          (columns (kind_cols (SplitGlMachine goldilocks_field)) R @ sels [''sel[0]''] S)) \<and>
    length R = 16 \<and> cyclic (split_constraints goldilocks_field) R"
proof -
  let ?t = "submachine_trace_new ''main_split_gl'' (kind_cols (SplitGlMachine goldilocks_field)) [''sel[0]'']"
  let ?ops = "[(''main_split_gl::sel[0]'', 0, 0, 0xffffffff, 0), (''main_split_gl::sel[0]'', 0, 5, 7, 0)]"
  have sel: "map fst (st_selectors ?t) = [''sel[0]'']" by (simp add: submachine_trace_new_def)
  have "\<forall>(s, a) \<in> set ?ops. split_args a \<and> only_column_name s \<in> set (map fst (st_selectors ?t))"
    unfolding sel by (simp add: split_args_def in_u32_def only_column_name_def)
  from split_machine_correct[OF gl_modulus_u32 sample_split_new _ _ _ _ this, of 2]
  show ?thesis unfolding sel by auto
qed

end
