(* ===== verification/Riscv_Erasure.thy ===== *)
theory Riscv_Erasure
  imports Riscv_Executor
begin

text \<open>
  The modes of the executor agree. A run that records a trace or a witness is simulated by the fast
  mode on the erased state: the state without the recorded trace, the caches and the columns. Every
  operation of the executor is shown to commute with the erasure, one primitive after the other; the
  instructions follow by the structure of their definitions.
\<close>

section \<open>Erasure\<close>

definition erase_trace :: "trace_builder \<Rightarrow> trace_builder" where
  "erase_trace t = t\<lparr>tb_mode := Fast, tb_trace := (tb_trace t)\<lparr>mem_ops := [], pc_trace := [], reg_trace := [],
     reg_writes := [], submachine_ops := (\<lambda>_. []), known_cols := [], all_cols := []\<rparr>\<rparr>"

definition erase :: "executor \<Rightarrow> executor" where
  "erase e = e\<lparr>proc := erase_trace (proc e), ex_fixed := [], program_cols := [], ex_mode := Fast, pil_links := [],
     pil_instruction_links := Map.empty, pil_other_links := Map.empty, cached_fixed_cols := []\<rparr>"

lemma erase_trace_sel [simp]:
  "tb_mode (erase_trace t) = Fast" "max_rows (erase_trace t) = max_rows t" "pc_idx (erase_trace t) = pc_idx t"
  "curr_pc (erase_trace t) = curr_pc t" "next_statement_line (erase_trace t) = next_statement_line t"
  "batch_to_line_map (erase_trace t) = batch_to_line_map t" "tb_regs (erase_trace t) = tb_regs t"
  "tb_mem (erase_trace t) = tb_mem t" "reg_mem (erase_trace t) = reg_mem t"
  "reg_map (tb_trace (erase_trace t)) = reg_map (tb_trace t)" "tr_len (tb_trace (erase_trace t)) = tr_len (tb_trace t)"
  by (simp_all add: erase_trace_def)

lemma erase_sel [simp]:
  "proc (erase e) = erase_trace (proc e)" "label_map (erase e) = label_map e" "inputs (erase e) = inputs e"
  "queries (erase e) = queries e" "bootloader_inputs (erase e) = bootloader_inputs e"
  "ex_step (erase e) = ex_step e" "ex_mode (erase e) = Fast" "cached_fixed_cols (erase e) = []"
  by (simp_all add: erase_def)

lemma get_erase [simp]:
  "get_pc (erase_trace t) = get_pc t" "get_next_pc (erase_trace t) = get_next_pc t"
  "get_reg (erase_trace t) n = get_reg t n" "get_reg_mem (erase_trace t) a = get_reg_mem t a"
  "has_enough_rows (erase_trace t) = has_enough_rows t" "col_is_defined (erase_trace t) n = False"
  by (simp_all add: get_pc_def get_next_pc_def get_reg_def get_reg_idx_def[abs_def] get_reg_mem_def
      has_enough_rows_def col_is_defined_def traces_def cong: if_cong)

lemma erase_upd:
  "erase_trace (t\<lparr>next_statement_line := l\<rparr>) = (erase_trace t)\<lparr>next_statement_line := l\<rparr>"
  "erase_trace (t\<lparr>reg_mem := r\<rparr>) = (erase_trace t)\<lparr>reg_mem := r\<rparr>"
  "erase_trace (t\<lparr>tb_regs := rs\<rparr>) = (erase_trace t)\<lparr>tb_regs := rs\<rparr>"
  "erase_trace (t\<lparr>tb_mem := m\<rparr>) = (erase_trace t)\<lparr>tb_mem := m\<rparr>"
  "erase_trace (t\<lparr>curr_pc := c\<rparr>) = (erase_trace t)\<lparr>curr_pc := c\<rparr>"
  "erase (e\<lparr>proc := t\<rparr>) = (erase e)\<lparr>proc := erase_trace t\<rparr>"
  "erase (e\<lparr>queries := q\<rparr>) = (erase e)\<lparr>queries := q\<rparr>"
  "erase (e\<lparr>ex_step := s\<rparr>) = (erase e)\<lparr>ex_step := s\<rparr>"
  by (cases t; cases e; simp add: erase_trace_def erase_def)+

lemma erase_same [simp]: "(erase e)\<lparr>proc := erase_trace (proc e)\<rparr> = erase e"
  by (cases e) (simp add: erase_def)

section \<open>Simulation\<close>

text \<open>Whenever the first computation returns, the second returns its erased result.\<close>

definition sim :: "('r \<Rightarrow> 's) \<Rightarrow> 'r option \<Rightarrow> 's option \<Rightarrow> bool" where
  "sim g m m' \<longleftrightarrow> (\<forall>r. m = Some r \<longrightarrow> m' = Some (g r))"

lemma simI: "(\<And>r. m = Some r \<Longrightarrow> m' = Some (g r)) \<Longrightarrow> sim g m m'"
  by (simp add: sim_def)

lemma simD: "sim g m m' \<Longrightarrow> m = Some r \<Longrightarrow> m' = Some (g r)"
  by (simp add: sim_def)

lemma sim_bind: "sim g m m' \<Longrightarrow> (\<And>x. sim h (f x) (f' (g x))) \<Longrightarrow> sim h (m \<bind> f) (m' \<bind> f')"
  by (auto simp: sim_def bind_eq_Some_conv)

lemma sim_pure: "(\<And>x. sim h (f x) (f' x)) \<Longrightarrow> sim h (m \<bind> f) (m \<bind> f')"
  by (auto simp: sim_def bind_eq_Some_conv)

lemma sim_state: "sim erase m m' \<Longrightarrow> (\<And>e. sim h (f e) (f' (erase e))) \<Longrightarrow> sim h (m \<bind> f) (m' \<bind> f')"
  by (rule sim_bind)

lemma sim_pair:
  "sim (apsnd erase) m m' \<Longrightarrow> (\<And>v e. sim h (f v e) (f' v (erase e))) \<Longrightarrow>
     sim h (m \<bind> (\<lambda>(v, e). f v e)) (m' \<bind> (\<lambda>(v, e). f' v e))"
  by (rule sim_bind) (auto simp: split_beta)

text \<open>The same rules, which keep what the first computation returned.\<close>

lemma sim_pure_eq: "(\<And>x. m = Some x \<Longrightarrow> sim h (f x) (f' x)) \<Longrightarrow> sim h (m \<bind> f) (m \<bind> f')"
  by (auto simp: sim_def bind_eq_Some_conv)

lemma sim_pair_eq:
  "sim (apsnd erase) m m' \<Longrightarrow> (\<And>v e. m = Some (v, e) \<Longrightarrow> sim h (f v e) (f' v (erase e))) \<Longrightarrow>
     sim h (m \<bind> (\<lambda>(v, e). f v e)) (m' \<bind> (\<lambda>(v, e). f' v e))"
  by (fastforce simp: sim_def bind_eq_Some_conv)

lemma sim_split: "(\<And>a b. p = (a, b) \<Longrightarrow> sim h (f a b) (f' a b)) \<Longrightarrow> sim h (case p of (a, b) \<Rightarrow> f a b) (case p of (a, b) \<Rightarrow> f' a b)"
  by (cases p) simp

lemma sim_Let: "sim h (f v) (f' v) \<Longrightarrow> sim h (Let v f) (Let v f')"
  by simp

lemma sim_if: "sim h x x' \<Longrightarrow> sim h y y' \<Longrightarrow> sim h (if b then x else y) (if b then x' else y')"
  by simp

lemma sim_Some: "g r = r' \<Longrightarrow> sim g (Some r) (Some r')"
  by (simp add: sim_def)

lemma sim_None: "sim g None m"
  by (simp add: sim_def)

section \<open>Primitives\<close>

lemma set_col_erase: "sim erase_trace (set_col F t c v) (set_col F (erase_trace t) c' v')"
  by (rule simI) (auto simp: set_col_def erase_trace_def split: bind_splits if_splits)

lemma set_cols_fast: "set_cols F (erase e) cvs = Some (erase e)"
proof (induction cvs)
  case (Cons cv cvs)
  have "set_col F (erase_trace (proc e)) c v = Some (erase_trace (proc e))" for c v
    by (simp add: set_col_def)
  then show ?case using Cons by (cases cv) simp
qed simp

lemma set_cols_erase: "sim erase (set_cols F e cvs) (set_cols F (erase e) cvs')"
proof -
  have "set_cols F e cvs = Some e' \<Longrightarrow> erase e' = erase e" for e'
  proof (induction cvs arbitrary: e)
    case (Cons cv cvs)
    obtain c v where cv: "cv = (c, v)" by (cases cv)
    from Cons.prems obtain t where t: "set_col F (proc e) c v = Some t" "set_cols F (e\<lparr>proc := t\<rparr>) cvs = Some e'"
      by (auto simp: cv bind_eq_Some_conv)
    then have "erase e' = erase (e\<lparr>proc := t\<rparr>)" by (intro Cons.IH)
    also have "erase_trace t = erase_trace (proc e)"
      using simD[OF set_col_erase t(1), of c v] by (simp add: set_col_def)
    then have "erase (e\<lparr>proc := t\<rparr>) = erase e" by (simp add: erase_upd)
    finally show ?case .
  qed simp
  then show ?thesis by (intro simI) (simp add: set_cols_fast)
qed

lemma set_zero_test_erase: "sim erase (set_zero_test F e v) (set_zero_test F (erase e) v)"
  unfolding set_zero_test_def by (intro sim_state sim_if sim_pure sim_Some set_cols_erase refl)

lemma submachine_op_erase: "erase_trace (submachine_op t m l a x) = erase_trace t"
  "submachine_op (erase_trace t) m l a x = erase_trace t"
  by (simp_all add: submachine_op_def erase_trace_def Let_def)

lemma call_submachine_erase: "call_submachine (erase e) m l' a' x' = erase (call_submachine e m l a x)"
  by (simp add: call_submachine_def submachine_op_erase) (simp add: erase_def submachine_op_erase)

lemma mem_erase:
  "mem_write F (erase e) a v s l' = erase (mem_write F e a v s l)"
  "mem_read F (erase e) a s l' = apsnd erase (mem_read F e a s l)"
proof -
  have w: "set_mem F (erase_trace (proc e)) a v s l' = erase_trace (set_mem F (proc e) a v s l)"
    by (simp add: set_mem_def Let_def submachine_op_erase traces_def)
      (simp add: erase_trace_def submachine_op_def Let_def)
  show "mem_write F (erase e) a v s l' = erase (mem_write F e a v s l)"
    by (simp add: mem_write_def w) (simp add: erase_def)
  have "get_mem F (erase_trace (proc e)) a s l' = apsnd erase_trace (get_mem F (proc e) a s l)"
    by (simp add: get_mem_def Let_def submachine_op_erase traces_def)
      (simp add: erase_trace_def submachine_op_def Let_def)
  then show "mem_read F (erase e) a s l' = apsnd erase (mem_read F e a s l)"
    by (simp add: mem_read_def split_beta) (simp add: erase_def)
qed

lemma link_erase:
  "sim (\<lambda>(l, e). (0, erase e)) (instr_link_id e i m k) (instr_link_id (erase e) i m k)"
  "sim (\<lambda>(l, e). (0, erase e)) (link_id e s t k) (link_id (erase e) s t k)"
  by (auto simp: sim_def instr_link_id_def link_id_def Let_def erase_def split: bind_splits if_splits)

lemma sim_link:
  "(\<And>l e. sim h (f l e) (f' 0 (erase e))) \<Longrightarrow>
     sim h (instr_link_id e i m k \<bind> (\<lambda>(l, e). f l e)) (instr_link_id (erase e) i m k \<bind> (\<lambda>(l, e). f' l e))"
  "(\<And>l e. sim h (f l e) (f' 0 (erase e))) \<Longrightarrow>
     sim h (link_id e s t k \<bind> (\<lambda>(l, e). f l e)) (link_id (erase e) s t k \<bind> (\<lambda>(l, e). f' l e))"
  by (rule sim_bind[OF link_erase(1)], simp add: split_beta) (rule sim_bind[OF link_erase(2)], simp add: split_beta)

lemma reg_read_erase: "sim (apsnd erase) (reg_read F e k r l) (reg_read F (erase e) k r l')"
  by (auto simp: sim_def reg_read_def Let_def call_submachine_erase split: bind_splits)

lemma set_reg_mem_erase: "set_reg_mem (erase_trace t) r v = erase_trace (set_reg_mem t r v)"
  by (simp add: set_reg_mem_def erase_upd)

lemma reg_write_erase: "sim erase (reg_write F e k r v l) (reg_write F (erase e) k r v l')"
proof (rule simI)
  fix e' assume "reg_write F e k r v l = Some e'"
  then obtain s where s: "check_u32 (ex_step e + k) = Some s"
    and e': "e' = (let e1 = call_submachine e M_regs l (fe_from F 1, fe_from F r, fe_from F s, into_fe F v) []
             in e1\<lparr>proc := set_reg_mem (proc e1) r v\<rparr>)"
    by (auto simp: reg_write_def bind_eq_Some_conv Let_def)
  let ?a = "(fe_from F 1, fe_from F r, fe_from F s, into_fe F v)"
  show "reg_write F (erase e) k r v l' = Some (erase e')"
    using s unfolding e'
    by (simp add: reg_write_def Let_def call_submachine_erase[where l = l and a = ?a and x = "[]"] erase_upd set_reg_mem_erase check_u32_def)
qed

lemma read_reg_erase: "sim (apsnd erase) (read_reg F e i j k r) (read_reg F (erase e) i j k r)"
  unfolding read_reg_def by (rule sim_link(1)) (rule reg_read_erase)

lemma write_reg_erase: "sim erase (write_reg F e i j k r v) (write_reg F (erase e) i j k r v)"
  unfolding write_reg_def by (rule sim_link(1)) (rule reg_write_erase)

lemma set_reg_idx_erase: "sim erase_trace (set_reg_idx F t i v) (set_reg_idx F (erase_trace t) i v)"
  by (rule simI) (auto simp: set_reg_idx_def traces_def vec_set_def erase_trace_def split: bind_splits if_splits)

lemma set_pc_erase: "sim erase_trace (set_pc F t v) (set_pc F (erase_trace t) v)"
proof -
  have "sim erase_trace (set_reg_idx F (t\<lparr>next_statement_line := l\<rparr>) i v)
      (set_reg_idx F ((erase_trace t)\<lparr>next_statement_line := l\<rparr>) i v)" for l i
    using set_reg_idx_erase[of F "t\<lparr>next_statement_line := l\<rparr>"] by (simp add: erase_upd)
  then show ?thesis
    unfolding set_pc_def by (auto intro!: sim_pure)
qed

lemma sim_proc:
  "sim erase_trace m m' \<Longrightarrow> sim erase (m \<bind> (\<lambda>t. Some (e\<lparr>proc := t\<rparr>))) (m' \<bind> (\<lambda>t. Some ((erase e)\<lparr>proc := t\<rparr>)))"
  by (rule sim_bind) (auto intro: sim_Some simp: erase_upd)

lemma jump_to_erase: "sim erase (jump_to F e v) (jump_to F (erase e) v)"
  unfolding jump_to_def using set_pc_erase by (simp add: sim_proc)

text \<open>Steps of an instruction that read the state, and its calls.\<close>

lemma sim_read_state:
  "(\<And>x. sim h (f x) (f' x)) \<Longrightarrow> sim h (elem_u (get_pc (proc e)) \<bind> f) (elem_u (get_pc (proc (erase e))) \<bind> f')"
  "(\<And>x. sim h (f x) (f' x)) \<Longrightarrow> sim h (elem_s (get_pc (proc e)) \<bind> f) (elem_s (get_pc (proc (erase e))) \<bind> f')"
  "(\<And>x. sim h (f x) (f' x)) \<Longrightarrow> sim h (check_u32 (ex_step e + k) \<bind> f) (check_u32 (ex_step (erase e) + k) \<bind> f')"
  "(\<And>x. sim h (g x) (g' x)) \<Longrightarrow> sim h (vec_get_i64 (bootloader_inputs e) i \<bind> g) (vec_get_i64 (bootloader_inputs (erase e)) i \<bind> g')"
  "(\<And>x. sim h (f x) (f' x)) \<Longrightarrow> sim h (pointer_arg e args j \<bind> f) (pointer_arg (erase e) args j \<bind> f')"
  by (simp_all add: sim_pure pointer_arg_def)

lemma sim_mem:
  "(\<And>e. sim h (f e) (f' (erase e))) \<Longrightarrow> sim h (Let (mem_write F e a v s l) f) (Let (mem_write F (erase e) a v s l') f')"
  "(\<And>v e. sim h (g v e) (g' v (erase e))) \<Longrightarrow>
     sim h (Let (mem_read F e a s l) (\<lambda>(v, e). g v e)) (Let (mem_read F (erase e) a s l') (\<lambda>(v, e). g' v e))"
  "(\<And>v e. sim h (g v e) (g' v (erase e))) \<Longrightarrow>
     sim h (Let (mem_read F e a (ex_step e) l) (\<lambda>(v, e). g v e)) (Let (mem_read F (erase e) a (ex_step (erase e)) l') (\<lambda>(v, e). g' v e))"
  "(\<And>e. sim h (f e) (f' (erase e))) \<Longrightarrow>
     sim h (Let (call_submachine e m l args ext) f) (Let (call_submachine (erase e) m l' args' ext') f')"
  by (simp_all add: mem_erase[where l = l] call_submachine_erase[where m = m and l = l and a = args and x = ext] split_beta)

lemma sim_call: "sim erase (Some (call_submachine e m l args ext)) (Some (call_submachine (erase e) m l' args' ext'))"
  by (rule sim_Some) (rule call_submachine_erase[symmetric])

lemmas sim_first = sim_link sim_read_state sim_mem sim_call reg_read_erase read_reg_erase reg_write_erase write_reg_erase
  set_cols_erase set_zero_test_erase jump_to_erase
lemmas sim_last = sim_split sim_Let sim_if sim_state sim_pair sim_pure

section \<open>Instructions\<close>

lemma exec_set_reg_erase: "sim erase (exec_set_reg F e args) (exec_set_reg F (erase e) args)"
proof -
  have fixed: "sim erase (fixed_value e c \<bind> (\<lambda>y. if \<not> elem_is_zero y then set_cols F e cvs else Some e))
      (fixed_value (erase e) c \<bind> (\<lambda>y. if \<not> elem_is_zero y then set_cols F (erase e) cvs else Some (erase e)))" for e c cvs
    using simD[OF set_cols_erase[of F e cvs cvs]]
    by (auto simp: sim_def fixed_value_def set_cols_fast split: bind_splits if_splits)
  show ?thesis unfolding exec_set_reg_def by (rule fixed sim_first | rule sim_last)+
qed

lemma exec_get_reg_erase: "sim (apsnd erase) (exec_get_reg F e args) (exec_get_reg F (erase e) args)"
  unfolding exec_get_reg_def by (rule sim_first | rule sim_last)+

lemma memory_erase:
  "sim erase (exec_affine F e args) (exec_affine F (erase e) args)"
  "sim erase (exec_mstore F e i args) (exec_mstore F (erase e) i args)"
  "sim erase (exec_mload F e args) (exec_mload F (erase e) args)"
  "sim erase (exec_load_bootloader_input F e args) (exec_load_bootloader_input F (erase e) args)"
  "sim erase (exec_assert_bootloader_input F e args) (exec_assert_bootloader_input F (erase e) args)"
  unfolding exec_affine_def exec_mstore_def exec_mload_def exec_load_bootloader_input_def exec_assert_bootloader_input_def
  by (rule sim_first | rule sim_last | rule sim_Some[OF refl])+

lemma control_erase:
  "sim erase (exec_load_label F e args) (exec_load_label F (erase e) args)"
  "sim erase (exec_jump F e args) (exec_jump F (erase e) args)"
  "sim erase (exec_jump_dyn F e args) (exec_jump_dyn F (erase e) args)"
  "sim erase (exec_jump_to_bootloader_input F e args) (exec_jump_to_bootloader_input F (erase e) args)"
  "sim erase (exec_branch_if_diff_nonzero F e args) (exec_branch_if_diff_nonzero F (erase e) args)"
  "sim erase (exec_branch_if_diff_equal F e args) (exec_branch_if_diff_equal F (erase e) args)"
  "sim erase (exec_skip_if_equal F e args) (exec_skip_if_equal F (erase e) args)"
  "sim erase (exec_branch_if_diff_greater_than F e args) (exec_branch_if_diff_greater_than F (erase e) args)"
  "sim erase (exec_is_diff_greater_than F e args) (exec_is_diff_greater_than F (erase e) args)"
  "sim erase (exec_is_equal_zero F e args) (exec_is_equal_zero F (erase e) args)"
  "sim erase (exec_is_not_equal F e args) (exec_is_not_equal F (erase e) args)"
  unfolding exec_load_label_def exec_jump_def exec_jump_dyn_def exec_jump_to_bootloader_input_def
    exec_branch_if_diff_nonzero_def exec_branch_if_diff_equal_def exec_skip_if_equal_def
    exec_branch_if_diff_greater_than_def exec_is_diff_greater_than_def exec_is_equal_zero_def exec_is_not_equal_def
  by (rule sim_first | rule sim_last | rule sim_Some[OF refl])+

lemma arith_erase:
  "sim erase (exec_add_wrap F e args) (exec_add_wrap F (erase e) args)"
  "sim erase (exec_wrap16 F e args) (exec_wrap16 F (erase e) args)"
  "sim erase (exec_sub_wrap_with_offset F e args) (exec_sub_wrap_with_offset F (erase e) args)"
  "sim erase (exec_sign_extend_byte F e args) (exec_sign_extend_byte F (erase e) args)"
  "sim erase (exec_sign_extend_16_bits F e args) (exec_sign_extend_16_bits F (erase e) args)"
  "sim erase (exec_to_signed F e args) (exec_to_signed F (erase e) args)"
  "sim erase (exec_divremu F e args) (exec_divremu F (erase e) args)"
  "sim erase (exec_mul F e args) (exec_mul F (erase e) args)"
  "sim erase (exec_bitwise F e i args) (exec_bitwise F (erase e) i args)"
  "sim erase (exec_shift F e i args) (exec_shift F (erase e) i args)"
  "sim erase (exec_invert_gl F e args) (exec_invert_gl F (erase e) args)"
  "sim erase (exec_split_gl F e args) (exec_split_gl F (erase e) args)"
  "sim erase (exec_commit_public F e args) (exec_commit_public F (erase e) args)"
  unfolding exec_add_wrap_def exec_wrap16_def exec_sub_wrap_with_offset_def exec_sign_extend_byte_def
    exec_sign_extend_16_bits_def exec_to_signed_def exec_divremu_def exec_mul_def exec_bitwise_def exec_shift_def
    exec_invert_gl_def exec_split_gl_def exec_commit_public_def
  by (rule sim_first | rule sim_last | rule sim_Some[OF refl])+

lemma sim_value: "sim (apsnd erase) (Some (v, e)) (Some (v, erase e))"
  by (rule sim_Some) simp

lemma loops_erase:
  "sim (apsnd erase) (poseidon_inputs F e p js) (poseidon_inputs F (erase e) p js)"
  "sim erase (poseidon_outputs F e p ivs) (poseidon_outputs F (erase e) p ivs)"
  "sim (apsnd erase) (read_words F e p js s l) (read_words F (erase e) p js s l')"
  "sim erase (write_words F e p vs s l) (write_words F (erase e) p vs s l')"
  "sim (apsnd erase) (keccak_read F e p js l) (keccak_read F (erase e) p js l')"
  "sim erase (keccak_write F e p ivs l) (keccak_write F (erase e) p ivs l')"
proof -
  show "sim (apsnd erase) (poseidon_inputs F e p js) (poseidon_inputs F (erase e) p js)"
  proof (induction js arbitrary: e)
    case (Cons j js)
    show ?case unfolding poseidon_inputs.simps by (rule sim_first Cons sim_value | rule sim_last)+
  qed (simp add: sim_value)
  show "sim erase (poseidon_outputs F e p ivs) (poseidon_outputs F (erase e) p ivs)"
  proof (induction ivs arbitrary: e)
    case (Cons iv ivs)
    show ?case by (cases iv, simp only: poseidon_outputs.simps) (rule sim_first Cons | rule sim_last)+
  qed (simp add: sim_Some)
  show "sim (apsnd erase) (read_words F e p js s l) (read_words F (erase e) p js s l')"
  proof (induction js arbitrary: e)
    case (Cons j js)
    show ?case unfolding read_words.simps by (rule sim_first Cons sim_value | rule sim_last)+
  qed (simp add: sim_value)
  show "sim erase (write_words F e p vs s l) (write_words F (erase e) p vs s l')"
  proof (induction vs arbitrary: e p)
    case (Cons v vs)
    show ?case unfolding write_words.simps mem_erase(1)[where l = l] by (rule sim_pure Cons)+
  qed (simp add: sim_Some)
  show "sim (apsnd erase) (keccak_read F e p js l) (keccak_read F (erase e) p js l')"
  proof (induction js arbitrary: e)
    case (Cons j js)
    show ?case unfolding keccak_read.simps by (rule sim_first Cons sim_value | rule sim_last)+
  qed (simp add: sim_value)
  show "sim erase (keccak_write F e p ivs l) (keccak_write F (erase e) p ivs l')"
  proof (induction ivs arbitrary: e)
    case (Cons iv ivs)
    show ?case by (cases iv, simp only: keccak_write.simps) (rule sim_first Cons | rule sim_last)+
  qed (simp add: sim_Some)
qed

lemma syscall_erase:
  "sim erase (exec_poseidon_gl F e args) (exec_poseidon_gl F (erase e) args)"
  "sim erase (exec_poseidon2_gl F X e args) (exec_poseidon2_gl F X (erase e) args)"
  "sim erase (exec_affine_256 F e args) (exec_affine_256 F (erase e) args)"
  "sim erase (exec_mod_256 F e args) (exec_mod_256 F (erase e) args)"
  "sim erase (exec_ec_add F X e args) (exec_ec_add F X (erase e) args)"
  "sim erase (exec_ec_double F X e args) (exec_ec_double F X (erase e) args)"
  "sim erase (exec_keccakf F X e args) (exec_keccakf F X (erase e) args)"
  unfolding exec_poseidon_gl_def exec_poseidon2_gl_def exec_affine_256_def exec_mod_256_def exec_ec_add_def
    exec_ec_double_def exec_keccakf_def
  by (rule sim_first loops_erase | rule sim_last)+

lemmas instructions_erase = exec_set_reg_erase exec_get_reg_erase memory_erase control_erase arith_erase syscall_erase

lemma no_value_erase: "sim erase m m' \<Longrightarrow> sim (apsnd erase) (no_value m) (no_value m')"
  by (auto simp: sim_def no_value_def)

lemma exec_instr_erase: "sim (apsnd erase) (exec_instr F X e i args) (exec_instr F X (erase e) i args)"
proof -
  have "sim (apsnd erase) (map_option (\<lambda>(v, e). (Some v, e)) m) (map_option (\<lambda>(v, e). (Some v, e)) m')"
    if "sim (apsnd erase) m m'" for m m' :: "(elem \<times> executor) option"
    using that by (auto simp: sim_def)
  then show ?thesis
    unfolding exec_instr_def
    by (cases i) (simp_all add: no_value_erase instructions_erase exec_fail_def sim_None no_value_def[of None])
qed

section \<open>Expressions and statements\<close>

lemma set_const_col_erase: "sim erase (set_const_col F e n c f) (set_const_col F (erase e) n c f)"
proof (rule simI)
  fix e' assume "set_const_col F e n c f = Some e'"
  then have "erase e' = erase e"
    using simD[OF set_cols_erase[of F e]] by (auto simp: set_const_col_def set_cols_fast bind_eq_Some_conv simp del: set_cols.simps split: if_splits)
  then show "set_const_col F (erase e) n c f = Some (erase e')" by (simp add: set_const_col_def)
qed

lemma exec_instruction_args_erase:
  "sim (apsnd erase) (exec_instruction_args F X e n args) (exec_instruction_args F X (erase e) n args)"
proof -
  have b: "(erase e)\<lparr>proc := backup_reg_mem (proc (erase e))\<rparr> = erase (e\<lparr>proc := backup_reg_mem (proc e)\<rparr>)" for e
    by (simp add: erase_upd backup_reg_mem_def)
  show ?thesis
    unfolding exec_instruction_args_def Let_def b
    by (rule set_const_col_erase exec_instr_erase | rule sim_last)+
qed

lemma ask_query_erase: "sim (apsnd erase) (ask_query F e q) (ask_query F (erase e) q)"
  unfolding ask_query_def by (auto simp: sim_def erase_upd split: bind_splits)

lemma eval_erase:
  "sim (apsnd erase) (eval_expression F X e x) (eval_expression F X (erase e) x)"
  "sim (apsnd erase) (eval_args F X e xs) (eval_args F X (erase e) xs)"
proof (induction F X e x and F X e xs rule: eval_expression_eval_args.induct)
  case (1 F X e r)
  show ?case by (auto simp: sim_def split: bind_splits option.splits)
next
  case (2 F X e n)
  show ?case by (auto simp: sim_def split: bind_splits)
next
  case (3 F X e l op r)
  show ?case
    unfolding eval_expression.simps by (rule 3(1) sim_pair_eq sim_pure_eq sim_value | (rule 3(2), assumption, rule refl, assumption))+
next
  case (4 F X e op a)
  show ?case unfolding eval_expression.simps by (rule 4 sim_pair sim_pure sim_value)+
next
  case (5 F X e f args)
  show ?case
  proof (cases f)
    case (Ex_Reference path)
    let ?b = "path_to_string path = ''std::prover::eval'' \<or> path_to_string path = ''std::convert::int''"
    have "sim (apsnd erase) (case args of a # _ \<Rightarrow> eval_expression F X e a | [] \<Rightarrow> None)
        (case args of a # _ \<Rightarrow> eval_expression F X (erase e) a | [] \<Rightarrow> None)" if ?b
      using 5(1)[OF Ex_Reference that] by (cases args) (simp_all add: sim_None)
    moreover have "sim (apsnd erase) (eval_args F X e args) (eval_args F X (erase e) args)"
      if "\<not> ?b" "try_to_identifier path = Some n" for n
      using 5(2)[OF Ex_Reference that] .
    ultimately show ?thesis
      unfolding Ex_Reference eval_expression.simps expression.case
      by (cases ?b) (simp, simp only: if_False, blast intro: sim_pure_eq sim_pair exec_instruction_args_erase)
  qed (simp_all add: sim_None)
next
  case (6 F X e x)
  show ?case
  proof (cases "\<exists>path args. x = Ex_FunctionCall (Ex_Reference path) args")
    case True
    then obtain path args where x: "x = Ex_FunctionCall (Ex_Reference path) args" by blast
    show ?thesis
      unfolding x eval_expression.simps expression.case
      by (rule sim_pure_eq, rule sim_pair[OF 6[OF x refl]], assumption) (rule sim_pair ask_query_erase sim_value)+
  next
    case False
    then show ?thesis by (auto simp: sim_None split: expression.splits)
  qed
next
  case (7 F X e)
  show ?case by (simp add: sim_None)
next
  case (8 F X e)
  show ?case by (simp add: sim_value)
next
  case (9 F X e a as)
  show ?case
    unfolding eval_args.simps by (rule 9(1) sim_pair_eq sim_pure_eq sim_value | (rule 9(2), assumption, rule refl, assumption))+
qed

lemma exec_instruction_erase: "sim (apsnd erase) (exec_instruction F X e n xs) (exec_instruction F X (erase e) n xs)"
  unfolding exec_instruction_def by (rule sim_pair[OF eval_erase(2)]) (rule exec_instruction_args_erase)

lemma set_reg_erase: "sim erase_trace (set_reg F t n v) (set_reg F (erase_trace t) n v)"
  unfolding set_reg_def erase_trace_sel by (rule sim_pure set_reg_idx_erase)+

text \<open>The columns of an assignment: in the fast mode nothing is computed from the fixed columns.\<close>

lemma get_known_fixed_fast: "get_known_fixed (erase e) c r = Some 0"
  by (simp add: get_known_fixed_def vec_get_def)

lemma exec_assignment_erase: "sim erase (exec_assignment F X e lhs rhs) (exec_assignment F X (erase e) lhs rhs)"
proof -
  have cols: "sim erase (case rhs of
          Ex_FreeInput _ \<Rightarrow> do { rust_assert (elem_is_zero (Elem_Field xc)); set_cols F e [(Col_X, r), (Col_X_free_value, r)] }
        | _ \<Rightarrow> do {
            e \<leftarrow> set_col_e F e Col_X r;
            rf \<leftarrow> get_known_fixed e Fix_X_read_free pc;
            let x_read_free = Elem_Field rf;
            x_free_value \<leftarrow> (if elem_is_zero x_read_free then Some (Elem_Field 0)
              else do { d \<leftarrow> elem_sub F r (Elem_Field xc); elem_div F d x_read_free });
            set_col_e F e Col_X_free_value x_free_value })
      (case rhs of
          Ex_FreeInput _ \<Rightarrow> do { rust_assert (elem_is_zero (Elem_Field 0)); set_cols F (erase e) [(Col_X, r), (Col_X_free_value, r)] }
        | _ \<Rightarrow> do {
            e \<leftarrow> set_col_e F (erase e) Col_X r;
            rf \<leftarrow> get_known_fixed e Fix_X_read_free pc;
            let x_read_free = Elem_Field rf;
            x_free_value \<leftarrow> (if elem_is_zero x_read_free then Some (Elem_Field 0)
              else do { d \<leftarrow> elem_sub F r (Elem_Field 0); elem_div F d x_read_free });
            set_col_e F e Col_X_free_value x_free_value })" for e xc r pc
  proof -
    have "erase e' = erase e" if "set_cols F e cvs = Some e'" for e e' cvs
      using simD[OF set_cols_erase that, of "[]"] by simp
    then show ?thesis
      by (auto simp: sim_def set_col_e_def set_cols_fast get_known_fixed_fast bind_eq_Some_conv Let_def
          simp del: set_cols.simps split: expression.splits)
  qed
  have asg: "sim erase (set_reg F (proc e) d r \<bind> (\<lambda>t. Some (e\<lparr>proc := t\<rparr>)))
      (set_reg F (proc (erase e)) d r \<bind> (\<lambda>t. Some ((erase e)\<lparr>proc := t\<rparr>)))" for e d r
    using set_reg_erase by (simp add: sim_proc)
  have col: "sim erase (set_col_e F e c v) (set_col_e F (erase e) c v)" for e c v
    unfolding set_col_e_def by (rule set_cols_erase)
  have fixed: "(\<And>x. sim h (f x) (f' 0)) \<Longrightarrow> sim h (get_known_fixed e c r \<bind> f) (get_known_fixed (erase e) c r \<bind> f')"
    for h :: "executor \<Rightarrow> executor" and f f' e c r
    by (auto simp: get_known_fixed_fast sim_def bind_eq_Some_conv)
  obtain dest asg where lhs: "lhs ! 0 = (dest, asg)" by (cases "lhs ! 0")
  show ?thesis
    unfolding exec_assignment_def Let_def lhs prod.case
    by (cases asg; simp only: assignment_register.case)
      (rule sim_read_state sim_state[OF col] sim_pair[OF eval_erase(1)] fixed sim_state[OF cols[unfolded Let_def]] asg sim_None
        | rule sim_pure)+
qed

lemma exec_instruction_statement_erase:
  "sim erase (exec_instruction_statement F X e n xs) (exec_instruction_statement F X (erase e) n xs)"
proof -
  have pc: "(\<And>x. sim h (f x) (f' x)) \<Longrightarrow> sim h (get_next_pc (proc e) \<bind> f) (get_next_pc (proc (erase e)) \<bind> f')"
    for h :: "executor \<Rightarrow> executor" and f f' e
    by (simp add: sim_pure)
  show ?thesis
    unfolding exec_instruction_statement_def set_col_e_def
    by (rule sim_read_state sim_state[OF set_cols_erase] sim_pair[OF exec_instruction_erase] sim_pair[OF eval_erase(1)] pc
        sim_if sim_Some[OF refl] | rule sim_pure)+
qed

lemma exec_statement_erase: "sim (apsnd erase) (exec_statement F X d e st) (exec_statement F X d (erase e) st)"
proof -
  have p: "sim (apsnd erase) (map_option (Pair b) m) (map_option (Pair b) m')" if "sim erase m m'" for b m m'
    using that by (auto simp: sim_def)
  have s: "(erase e)\<lparr>ex_step := s\<rparr> = erase (e\<lparr>ex_step := s\<rparr>)" for e s by (simp add: erase_upd)
  have d: "sim (apsnd erase) (case d' of Dir_Loc file line column \<Rightarrow> do { rust_assert (1 \<le> file); f \<leftarrow> vec_get d (file - 1); Some (False, e) }
         | Dir_OriginalInstruction _ \<Rightarrow> Some (False, e) | Dir_File _ _ _ \<Rightarrow> None)
      (case d' of Dir_Loc file line column \<Rightarrow> do { rust_assert (1 \<le> file); f \<leftarrow> vec_get d (file - 1); Some (False, erase e) }
         | Dir_OriginalInstruction _ \<Rightarrow> Some (False, erase e) | Dir_File _ _ _ \<Rightarrow> None)" for d' e
    by (cases d') (auto simp: sim_def bind_eq_Some_conv)
  show ?thesis
    unfolding exec_statement_def Let_def s erase_sel
    by (rule sim_pure, cases st)
      (simp_all only: function_statement.case, simp_all add: p exec_assignment_erase exec_instruction_statement_erase
        set_col_e_def set_cols_erase sim_None d[simplified] del: set_cols.simps)
qed

section \<open>The main loop\<close>

lemma push_row_fast: "push_row (erase_trace t) pc = Some (erase_trace t)"
  by (simp add: push_row_def traces_def)

lemma push_row_erase: "sim erase_trace (push_row t pc) (push_row (erase_trace t) pc)"
proof -
  have "erase_trace t' = erase_trace t" if "push_row t pc = Some t'" for t'
    using that by (auto simp: push_row_def Let_def erase_trace_def split: bind_splits if_splits)
  then show ?thesis by (auto simp: sim_def push_row_fast)
qed

lemma set_next_pc_erase: "sim (apsnd erase_trace) (set_next_pc t) (set_next_pc (erase_trace t))"
  by (auto simp: sim_def set_next_pc_def erase_upd check_u32_def split: bind_splits option.splits if_splits)

lemma erase_trace_len:
  "erase_trace (t\<lparr>tb_trace := (tb_trace t)\<lparr>tr_len := n\<rparr>\<rparr>) =
     (erase_trace t)\<lparr>tb_trace := (tb_trace (erase_trace t))\<lparr>tr_len := n\<rparr>\<rparr>"
  by (cases t; cases "tb_trace t") (simp add: erase_trace_def)

lemma advance_erase: "sim (apsnd erase_trace) (advance F t) (advance F (erase_trace t))"
proof -
  have row: "sim erase_trace (do { t \<leftarrow> set_col F (t\<lparr>tb_trace := (tb_trace t)\<lparr>tr_len := n\<rparr>\<rparr>) Col_pc_update v;
        pc \<leftarrow> elem_u v; t \<leftarrow> push_row t pc; Some (t\<lparr>curr_pc := v\<rparr>) })
      (do { t \<leftarrow> set_col F ((erase_trace t)\<lparr>tb_trace := (tb_trace (erase_trace t))\<lparr>tr_len := n\<rparr>\<rparr>) Col_pc_update v;
        pc \<leftarrow> elem_u v; t \<leftarrow> push_row t pc; Some (t\<lparr>curr_pc := v\<rparr>) })" for n v
    unfolding erase_trace_len[symmetric]
    by (rule sim_bind[OF set_col_erase] sim_bind[OF push_row_erase] sim_Some erase_upd | rule sim_pure)+
  have stop: "sim (apsnd erase_trace) (do { nl \<leftarrow> check_u32 (next_statement_line t + 1);
        (r, t') \<leftarrow> set_next_pc (t\<lparr>next_statement_line := nl\<rparr>);
        Some (case r of Some _ \<Rightarrow> Some (next_statement_line t) | None \<Rightarrow> None, t') })
      (do { nl \<leftarrow> check_u32 (next_statement_line (erase_trace t) + 1);
        (r, t') \<leftarrow> set_next_pc ((erase_trace t)\<lparr>next_statement_line := nl\<rparr>);
        Some (case r of Some _ \<Rightarrow> Some (next_statement_line (erase_trace t)) | None \<Rightarrow> None, t') })" for t
    unfolding erase_upd(1)[symmetric] erase_trace_sel(5)
    by (rule sim_pure, rule sim_bind[OF set_next_pc_erase]) (auto intro: sim_Some simp: split_beta)
  show ?thesis
    unfolding advance_def Let_def erase_trace_sel(3,4,7,11) get_erase
    by (rule sim_pure, rule sim_if, rule sim_Some, simp, rule sim_bind, rule sim_if, rule row, rule sim_Some, rule refl, rule stop)
qed

primrec erase_run :: "run_result \<Rightarrow> run_result" where
  "erase_run (Running e pc) = Running (erase e) pc"
| "erase_run Panicked = Panicked"
| "erase_run (Finished e) = Finished (erase e)"

lemma exec_iteration_erase:
  assumes "exec_iteration F X pm e pc \<noteq> Panicked"
  shows "exec_iteration F X pm (erase e) pc = erase_run (exec_iteration F X pm e pc)"
proof -
  let ?it = "\<lambda>e. do {
        stm \<leftarrow> vec_get_i64 (pm_statements pm) pc;
        (stop, e) \<leftarrow> exec_statement F X (pm_debug_files pm) e stm;
        if stop then Some (Finished e)
        else do {
          (next, t) \<leftarrow> advance F (proc e);
          Some (case next of
              Some pc \<Rightarrow> Running (e\<lparr>proc := t\<rparr>) pc
            | None \<Rightarrow> Finished (e\<lparr>proc := t\<rparr>))
        }
      }"
  have "sim erase_run (advance F (proc e) \<bind> (\<lambda>(next, t). Some (case next of
          Some pc \<Rightarrow> Running (e\<lparr>proc := t\<rparr>) pc | None \<Rightarrow> Finished (e\<lparr>proc := t\<rparr>))))
      (advance F (proc (erase e)) \<bind> (\<lambda>(next, t). Some (case next of
          Some pc \<Rightarrow> Running ((erase e)\<lparr>proc := t\<rparr>) pc | None \<Rightarrow> Finished ((erase e)\<lparr>proc := t\<rparr>))))" for e
    unfolding erase_sel
    by (rule sim_bind[OF advance_erase]) (auto intro!: sim_Some simp: erase_upd split: option.split)
  then have "sim erase_run (?it e) (?it (erase e))"
    by (intro sim_pure sim_pair[OF exec_statement_erase] sim_if sim_Some) simp_all
  with assms show ?thesis
    unfolding exec_iteration_def by (cases "?it e") (auto dest: simD)
qed

text \<open>C29: the fast mode agrees with the recording modes. Whatever a run of the main loop in any mode
  does without a panic, running, or ended after some number of statements, the run in the fast mode
  from the erased state does as well, and ends in the erased state: the same registers, memory,
  queries to the prover, program counter and number of rows.\<close>

theorem fast_mode_agrees:
  "exec_loop F X pm n e pc \<noteq> Panicked \<Longrightarrow> exec_loop F X pm n (erase e) pc = erase_run (exec_loop F X pm n e pc)"
proof (induction n arbitrary: e pc)
  case (Suc n)
  then have "exec_iteration F X pm e pc \<noteq> Panicked" by (cases "exec_iteration F X pm e pc") simp_all
  with Suc show ?case by (cases "exec_iteration F X pm e pc") (simp_all add: exec_iteration_erase)
qed simp

text \<open>A program of two statements, run in the mode that records the trace.\<close>

definition sample_program :: preprocessed_main where
  "sample_program = \<lparr> pm_statements = [St_Instruction ''set_reg'' [Ex_Number 5, Ex_Number 7], St_Return []],
     pm_labels = Map.empty, pm_batch_to_line = [0, 0, 0, 1, 2], pm_debug_files = [],
     pm_function_starts = Map.empty, pm_location_starts = Map.empty \<rparr>"

definition sample_state :: executor where
  "sample_state = \<lparr> proc = \<lparr> tb_trace = (execution_trace_new [] [(''pc'', 0)]), max_rows = 100, pc_idx = 0,
       curr_pc = Elem_Binary 2, next_statement_line = 1, batch_to_line_map = [0, 0, 0, 1, 2],
       tb_regs = [Elem_Binary 3], tb_mem = Map.empty,
       reg_mem = \<lparr> last_regs = Map.empty, second_last_regs = Map.empty \<rparr>, tb_mode = Trace \<rparr>,
     label_map = Map.empty, inputs = (\<lambda>_ _. None), queries = [], bootloader_inputs = [], ex_fixed = [],
     program_cols = [], ex_step = 4, ex_mode = Trace, pil_links = [], pil_instruction_links = Map.empty,
     pil_other_links = Map.empty, cached_fixed_cols = [] \<rparr>"

definition sample_externals :: externals where
  "sample_externals = \<lparr> poseidon2_gl = (\<lambda>x. x), keccakf = (\<lambda>x. x), k256_add = (\<lambda>_ _. None), k256_double = (\<lambda>_. None) \<rparr>"

lemma sample_run:
  "case exec_loop F sample_externals sample_program 2 sample_state 0 of
     Finished e \<Rightarrow> last_regs (reg_mem (proc e)) 5 = Some (Elem_Binary 7) \<and> tr_len (tb_trace (proc e)) = 4 | _ \<Rightarrow> False"
  by code_simp

theorem fast_mode_agrees_witness:
  "exec_loop goldilocks_field sample_externals sample_program 2 sample_state 0 \<noteq> Panicked \<and>
   exec_loop goldilocks_field sample_externals sample_program 2 (erase sample_state) 0
     = erase_run (exec_loop goldilocks_field sample_externals sample_program 2 sample_state 0)"
proof -
  have "exec_loop goldilocks_field sample_externals sample_program 2 sample_state 0 \<noteq> Panicked"
    using sample_run[of goldilocks_field] by auto
  then show ?thesis using fast_mode_agrees by blast
qed

end
