(* ===== verification/Riscv_Memory.thy ===== *)
theory Riscv_Memory
  imports Riscv_Submachines Riscv_Semantics Riscv_Blocks "HOL-Library.Product_Lexorder" "HOL-Library.Multiset"
begin

text \<open>
  The memory machine, after \<open>riscv-executor/src/memory.rs\<close>, used for the memory and for the
  registers. The recorded operations are sorted by address and step and become the rows of the
  machine; the trace is padded to the degree. The constraints of \<open>std/machines/large_field/memory.asm\<close>
  then hold for every consistent history of reads and writes that is shorter than the degree.
\<close>

section \<open>The machine\<close>

record mem_op =
  mop_addr :: int
  mop_step :: int
  mop_value :: int
  mop_write :: int
  mop_selector :: int

record memory_machine =
  mm_namespace :: string
  mm_ops :: "mem_op list"
  mm_witness_cols :: "string list"

definition memory_machine_new :: "string \<Rightarrow> string list \<Rightarrow> memory_machine" where
  "memory_machine_new namespace witness_cols =
     \<lparr> mm_namespace = namespace, mm_ops = [],
       mm_witness_cols = filter (\<lambda>c. starts_with c (namespace @ ''::'')) witness_cols \<rparr>"

definition mm_len :: "memory_machine \<Rightarrow> nat" where
  "mm_len m = length (mm_ops m) mod 2 ^ 32"

text \<open>\<open>s.find(c)\<close>, and \<open>parse::<u8>\<close>: an optional plus sign and decimal digits.\<close>

fun str_find :: "char \<Rightarrow> string \<Rightarrow> nat option" where
  "str_find c [] = None"
| "str_find c (x # xs) = (if x = c then Some 0 else map_option Suc (str_find c xs))"

definition digit_value :: "char \<Rightarrow> nat option" where
  "digit_value c = (let n = of_char c :: nat in if 48 \<le> n \<and> n \<le> 57 then Some (n - 48) else None)"

fun parse_u8_digits :: "nat \<Rightarrow> string \<Rightarrow> nat option" where
  "parse_u8_digits acc [] = Some acc"
| "parse_u8_digits acc (c # cs) = do { d \<leftarrow> digit_value c; parse_u8_digits (acc * 10 + d) cs }"

definition parse_u8 :: "string \<Rightarrow> int option" where
  "parse_u8 s = do {
     let s = (if s \<noteq> [] \<and> hd s = CHR ''+'' then tl s else s);
     rust_assert (s \<noteq> []);
     n \<leftarrow> parse_u8_digits 0 s;
     rust_assert (n < 256);
     Some (int n)
   }"

definition selector_index :: "string \<Rightarrow> int option" where
  "selector_index s = do {
     i \<leftarrow> str_find CHR ''['' s;
     j \<leftarrow> str_find CHR '']'' s;
     rust_assert (i + 1 \<le> j);
     parse_u8 (take (j - (i + 1)) (drop (i + 1) s))
   }"

definition memory_add_operation ::
  "memory_machine \<Rightarrow> string option \<Rightarrow> lookup_arguments \<Rightarrow> memory_machine option" where
  "memory_add_operation m sel_opt args = do {
     let (op_id, addr, step, value) = args;
     s \<leftarrow> sel_opt;
     idx \<leftarrow> selector_index s;
     a \<leftarrow> check_u32 addr;
     st \<leftarrow> check_u32 step;
     Some (m\<lparr>mm_ops := mm_ops m @
       [\<lparr> mop_addr = a, mop_step = st, mop_value = value, mop_write = op_id, mop_selector = idx \<rparr>]\<rparr>)
   }"

text \<open>The columns in the order of the witness.\<close>

datatype mem_cols = Mem_Addr | Mem_Step | Mem_Change | Mem_Value | Mem_IsWrite | Mem_DiffLower
  | Mem_DiffUpper | Mem_Selectors

primrec mem_idx :: "mem_cols \<Rightarrow> nat" where
  "mem_idx Mem_Addr = 0"
| "mem_idx Mem_Step = 1"
| "mem_idx Mem_Change = 2"
| "mem_idx Mem_Value = 3"
| "mem_idx Mem_IsWrite = 4"
| "mem_idx Mem_DiffLower = 5"
| "mem_idx Mem_DiffUpper = 6"
| "mem_idx Mem_Selectors = 7"

text \<open>\<open>x.wrapping_sub(1)\<close> of the difference of two \<open>u32\<close>; the difference itself must not be negative.\<close>

definition diff_minus_one :: "int \<Rightarrow> int \<Rightarrow> int option" where
  "diff_minus_one x y = do { d \<leftarrow> check_u32 (x - y); Some (as_u32 (d - 1)) }"

text \<open>The values pushed for one operation, in the order of the columns: change, difference, and the
  selectors, of which \<open>selector_count as u8\<close> are written.\<close>

definition mem_change_diff :: "mem_op \<Rightarrow> mem_op option \<Rightarrow> (int \<times> int) option" where
  "mem_change_diff op next = (case next of
     Some n \<Rightarrow> do {
       rust_assert (mop_addr n \<ge> mop_addr op);
       if mop_addr n > mop_addr op
       then map_option (Pair 1) (diff_minus_one (mop_addr n) (mop_addr op))
       else map_option (Pair 0) (diff_minus_one (mop_step n) (mop_step op))
     }
   | None \<Rightarrow> Some (0, 0))"

definition mem_row :: "field_desc \<Rightarrow> nat \<Rightarrow> mem_op \<Rightarrow> mem_op option \<Rightarrow> int list option" where
  "mem_row F selector_count op next = do {
     (change, diff) \<leftarrow> mem_change_diff op next;
     Some ([fe_from F (mop_addr op), fe_from F (mop_step op), fe_from F change, mop_value op, mop_write op,
            fe_from F (diff AND 0xffff), fe_from F (drop_bit 16 diff)]
           @ map (\<lambda>i. if int i = mop_selector op then 1 else 0) [0..<selector_count mod 256])
   }"

definition push_values :: "int list list \<Rightarrow> int list \<Rightarrow> int list list option" where
  "push_values cols vs = do {
     rust_assert (length vs \<le> length cols);
     Some (map2 (\<lambda>c v. c @ [v]) (take (length vs) cols) vs @ drop (length vs) cols)
   }"

fun push_ops :: "field_desc \<Rightarrow> nat \<Rightarrow> int list list \<Rightarrow> mem_op list \<Rightarrow> int list list option" where
  "push_ops F sc cols [] = Some cols"
| "push_ops F sc cols (op # ops) = do {
     r \<leftarrow> mem_row F sc op (case ops of [] \<Rightarrow> None | n # _ \<Rightarrow> Some n);
     cols \<leftarrow> push_values cols r;
     push_ops F sc cols ops
   }"

text \<open>\<open>Vec::resize\<close>.\<close>

definition resize :: "nat \<Rightarrow> 'a \<Rightarrow> 'a list \<Rightarrow> 'a list" where
  "resize n x xs = (if n \<le> length xs then take n xs else xs @ replicate (n - length xs) x)"

text \<open>The padding. The range of steps panics when it leaves \<open>u32\<close>.\<close>

definition extend_cols ::
  "field_desc \<Rightarrow> nat \<Rightarrow> mem_op list \<Rightarrow> nat \<Rightarrow> int list list \<Rightarrow> int list list option" where
  "extend_cols F len ops degree cols = do {
     let last_step = (if ops = [] then 0 else mop_step (last ops));
     let last_addr = (if ops = [] then 0 else mop_addr (last ops));
     let last_value = (if ops = [] then 0 else mop_value (last ops));
     rust_assert (last_step + int (degree - len) + 1 \<le> 0xffffffff);
     let cols = cols[mem_idx Mem_Addr := resize degree (fe_from F last_addr) (cols ! mem_idx Mem_Addr)];
     let cols = cols[mem_idx Mem_Value := resize degree last_value (cols ! mem_idx Mem_Value)];
     let cols = cols[mem_idx Mem_Step := cols ! mem_idx Mem_Step
       @ map (\<lambda>i. fe_from F (last_step + 1 + int i)) [0..<degree - len]];
     let cols = cols[mem_idx Mem_Change := resize degree 0 (cols ! mem_idx Mem_Change)];
     let cols = cols[mem_idx Mem_IsWrite := resize degree 0 (cols ! mem_idx Mem_IsWrite)];
     let cols = cols[mem_idx Mem_DiffLower := resize degree 0 (cols ! mem_idx Mem_DiffLower)];
     let cols = cols[mem_idx Mem_DiffUpper := resize degree 0 (cols ! mem_idx Mem_DiffUpper)];
     let cols = take (mem_idx Mem_Selectors) cols @ map (resize degree 0) (drop (mem_idx Mem_Selectors) cols);
     change \<leftarrow> (if cols ! mem_idx Mem_Change = [] then None
       else Some (butlast (cols ! mem_idx Mem_Change) @ [1]));
     Some (cols[mem_idx Mem_Change := change])
   }"

text \<open>\<open>finish\<close> leaves the operations sorted and takes the names of the columns.\<close>

definition memory_finish ::
  "field_desc \<Rightarrow> memory_machine \<Rightarrow> nat \<Rightarrow> (memory_machine \<times> (string \<times> int list) list) option" where
  "memory_finish F m degree = do {
     rust_assert (degree \<ge> mm_len m);
     let ops = sort_key (\<lambda>op. (mop_addr op, mop_step op)) (mm_ops m);
     let names = mm_witness_cols m;
     rust_assert (length names \<ge> mem_idx Mem_Selectors);
     let selector_count = length names - mem_idx Mem_Selectors;
     cols \<leftarrow> push_ops F selector_count (replicate (length names) []) ops;
     cols \<leftarrow> (if mm_len m < degree then extend_cols F (mm_len m) ops degree cols else Some cols);
     Some (m\<lparr>mm_ops := ops, mm_witness_cols := []\<rparr>, zip names cols)
   }"

section \<open>The constraints\<close>

definition byte2 :: "int \<Rightarrow> bool" where
  "byte2 x \<longleftrightarrow> 0 \<le> x \<and> x < 2 ^ 16"

definition mem_constraints :: "field_desc \<Rightarrow> nat \<Rightarrow> nat \<Rightarrow> int list \<Rightarrow> int list \<Rightarrow> bool" where
  "mem_constraints F degree i r s \<longleftrightarrow>
     (let LAST = (if i + 1 = degree then 1 else 0);
          addr = r ! mem_idx Mem_Addr; step = r ! mem_idx Mem_Step; change = r ! mem_idx Mem_Change;
          val = r ! mem_idx Mem_Value; is_write = r ! mem_idx Mem_IsWrite;
          lower = r ! mem_idx Mem_DiffLower; upper = r ! mem_idx Mem_DiffUpper;
          is_mem_op = sum_list (drop (mem_idx Mem_Selectors) r);
          addr' = s ! mem_idx Mem_Addr; step' = s ! mem_idx Mem_Step;
          val' = s ! mem_idx Mem_Value; is_write' = s ! mem_idx Mem_IsWrite;
          diff = change * (addr' - addr) + (1 - change) * (step' - step)
      in field_eq F (is_write * (1 - is_write)) 0 \<and>
         field_eq F (is_mem_op * (1 - is_mem_op)) 0 \<and>
         field_eq F ((1 - is_mem_op) * is_write) 0 \<and>
         field_eq F ((1 - is_write') * change * val') 0 \<and>
         field_eq F ((1 - change) * LAST) 0 \<and>
         field_eq F ((1 - is_write') * (1 - change) * (val' - val)) 0 \<and>
         byte2 lower \<and> byte2 upper \<and>
         field_eq F (change * (1 - change)) 0 \<and>
         field_eq F ((addr' - addr) * (1 - change)) 0 \<and>
         field_eq F ((1 - LAST) * (diff - 1 - upper * 2 ^ 16 - lower)) 0)"

section \<open>Histories\<close>

text \<open>A history is consistent when every read returns the value last read or written at the address,
  zero in the beginning.\<close>

fun mem_consistent :: "(int \<Rightarrow> int) \<Rightarrow> mem_op list \<Rightarrow> bool" where
  "mem_consistent M [] \<longleftrightarrow> True"
| "mem_consistent M (op # ops) \<longleftrightarrow> (mop_write op = 0 \<longrightarrow> mop_value op = M (mop_addr op)) \<and>
     mem_consistent (M(mop_addr op := mop_value op)) ops"

text \<open>The accesses of an address are in the order of their steps.\<close>

definition steps_increase :: "mem_op list \<Rightarrow> bool" where
  "steps_increase = sorted_wrt (\<lambda>p q. mop_addr p = mop_addr q \<longrightarrow> mop_step p < mop_step q)"

definition mem_key :: "mem_op \<Rightarrow> int \<times> int" where
  "mem_key op = (mop_addr op, mop_step op)"

definition mem_op_ok :: "nat \<Rightarrow> mem_op \<Rightarrow> bool" where
  "mem_op_ok sc op \<longleftrightarrow> in_u32 (mop_addr op) \<and> in_u32 (mop_step op) \<and> mop_write op \<in> {0, 1} \<and>
     0 \<le> mop_selector op \<and> mop_selector op < int sc"

text \<open>Consistency is a matter of each address alone, so that sorting keeps it.\<close>

fun chain :: "int \<Rightarrow> mem_op list \<Rightarrow> bool" where
  "chain v [] \<longleftrightarrow> True"
| "chain v (op # ops) \<longleftrightarrow> (mop_write op = 0 \<longrightarrow> mop_value op = v) \<and> chain (mop_value op) ops"

lemma mem_consistent_chain:
  "mem_consistent M ops \<longleftrightarrow> (\<forall>a. chain (M a) (filter (\<lambda>op. mop_addr op = a) ops))"
proof (induction ops arbitrary: M)
  case (Cons op ops)
  have "(\<forall>a. chain (M a) (filter (\<lambda>op. mop_addr op = a) (op # ops))) \<longleftrightarrow>
      (mop_write op = 0 \<longrightarrow> mop_value op = M (mop_addr op)) \<and>
      (\<forall>a. chain ((M(mop_addr op := mop_value op)) a) (filter (\<lambda>op. mop_addr op = a) ops))"
    by (auto split: if_splits)
  with Cons show ?case by simp
qed simp

lemma filter_sort_addr:
  assumes "steps_increase ops"
  shows "filter (\<lambda>op. mop_addr op = a) (sort_key mem_key ops) = filter (\<lambda>op. mop_addr op = a) ops"
proof -
  let ?xs = "filter (\<lambda>op. mop_addr op = a) ops"
  have "sorted_wrt (\<lambda>p q. mop_addr p = mop_addr q \<longrightarrow> mop_step p < mop_step q) ?xs"
    using assms unfolding steps_increase_def by (rule sorted_wrt_filter)
  then have "sorted_wrt (\<lambda>p q. mem_key p \<le> mem_key q) ?xs"
    by (rule sorted_wrt_mono_rel[rotated]) (auto simp: mem_key_def)
  then have "sorted (map mem_key ?xs)" by (simp add: sorted_map)
  then show ?thesis by (simp add: filter_sort sort_key_id_if_sorted)
qed

lemma mem_consistent_sort:
  "steps_increase ops \<Longrightarrow> mem_consistent M (sort_key mem_key ops) \<longleftrightarrow> mem_consistent M ops"
  by (simp add: mem_consistent_chain filter_sort_addr)

lemma steps_increase_distinct: "steps_increase ops \<Longrightarrow> distinct (map mem_key ops)"
  by (induction ops) (auto simp: steps_increase_def mem_key_def)

lemma sort_strict:
  assumes "steps_increase ops"
  shows "sorted_wrt (\<lambda>p q. mem_key p < mem_key q) (sort_key mem_key ops)"
proof -
  have "distinct (map mem_key (sort_key mem_key ops))"
    using steps_increase_distinct[OF assms] by (simp add: distinct_map)
  then have "sorted_wrt (<) (map mem_key (sort_key mem_key ops))"
    by (simp add: strict_sorted_iff)
  then show ?thesis by (simp add: sorted_wrt_map)
qed

text \<open>Two adjacent operations of the sorted history.\<close>

definition mem_next :: "mem_op \<Rightarrow> mem_op \<Rightarrow> bool" where
  "mem_next p q \<longleftrightarrow> mem_key p < mem_key q \<and>
     (mop_write q = 0 \<longrightarrow> mop_value q = (if mop_addr q = mop_addr p then mop_value p else 0))"

lemma mem_next_sorted:
  "sorted_wrt (\<lambda>p q. mem_key p < mem_key q) ops \<Longrightarrow> mem_consistent M ops \<Longrightarrow>
     ops \<noteq> [] \<Longrightarrow> \<forall>a > mop_addr (hd ops). M a = 0 \<Longrightarrow> successively mem_next ops"
proof (induction ops arbitrary: M rule: induct_list012)
  case (3 p q ops)
  have lt: "mem_key p < mem_key q" using 3 by simp
  then have le: "mop_addr p \<le> mop_addr q" by (auto simp: mem_key_def)
  let ?M = "M(mop_addr p := mop_value p)"
  have "\<forall>a > mop_addr (hd (q # ops)). ?M a = 0" using 3 le by simp
  moreover have "mem_consistent ?M (q # ops)" using 3 by simp
  ultimately have "successively mem_next (q # ops)"
    using "3.prems"(1) by (intro "3.IH"(2)[of ?M]) (simp_all del: fun_upd_apply)
  moreover have "mop_addr q \<noteq> mop_addr p \<Longrightarrow> M (mop_addr q) = 0" using 3 le by simp
  ultimately show ?case using lt "3.prems" by (auto simp: mem_next_def)
qed simp_all

section \<open>The table\<close>

text \<open>The rows of a list of operations: the last one has \<open>m_change\<close> one. The padding rows are the
  rows of reads without a selector.\<close>

definition mem_cells :: "field_desc \<Rightarrow> nat \<Rightarrow> mem_op \<Rightarrow> int \<times> int \<Rightarrow> int list" where
  "mem_cells F sc op cd = (case cd of (change, diff) \<Rightarrow>
     [fe_from F (mop_addr op), fe_from F (mop_step op), fe_from F change, mop_value op, mop_write op,
      fe_from F (diff AND 0xffff), fe_from F (drop_bit 16 diff)]
     @ map (\<lambda>i. if int i = mop_selector op then 1 else 0) [0..<sc])"

definition change_diff :: "mem_op \<Rightarrow> mem_op \<Rightarrow> int \<times> int" where
  "change_diff p q = (if mop_addr p < mop_addr q then (1, mop_addr q - mop_addr p - 1)
     else (0, mop_step q - mop_step p - 1))"

fun mem_table :: "field_desc \<Rightarrow> nat \<Rightarrow> int \<Rightarrow> mem_op list \<Rightarrow> int list list" where
  "mem_table F sc c [] = []"
| "mem_table F sc c [p] = [mem_cells F sc p (c, 0)]"
| "mem_table F sc c (p # q # ops) = mem_cells F sc p (change_diff p q) # mem_table F sc c (q # ops)"

definition mem_padding :: "mem_op list \<Rightarrow> nat \<Rightarrow> mem_op list" where
  "mem_padding ops n = (let p = (if ops = [] then \<lparr> mop_addr = 0, mop_step = 0, mop_value = 0, mop_write = 0,
      mop_selector = -1 \<rparr> else last ops) in
    map (\<lambda>i. p\<lparr>mop_step := mop_step p + 1 + int i, mop_write := 0, mop_selector := -1\<rparr>) [0..<n])"

lemma length_mem_cells [simp]: "length (mem_cells F sc p cd) = 7 + sc"
  by (simp add: mem_cells_def split_beta)

lemma mem_cells_nth [simp]:
  "mem_cells F sc p (c, d) ! 0 = fe_from F (mop_addr p)"
  "mem_cells F sc p (c, d) ! Suc 0 = fe_from F (mop_step p)"
  "mem_cells F sc p (c, d) ! 2 = fe_from F c"
  "mem_cells F sc p (c, d) ! 3 = mop_value p"
  "mem_cells F sc p (c, d) ! 4 = mop_write p"
  "mem_cells F sc p (c, d) ! 5 = fe_from F (d AND 0xffff)"
  "mem_cells F sc p (c, d) ! 6 = fe_from F (drop_bit 16 d)"
  "drop 7 (mem_cells F sc p (c, d)) = map (\<lambda>i. if int i = mop_selector p then 1 else 0) [0..<sc]"
  by (simp_all add: mem_cells_def)

lemma length_mem_table [simp]: "length (mem_table F sc c ops) = length ops"
  by (induction F sc c ops rule: mem_table.induct) simp_all

lemma hd_mem_table: "ops \<noteq> [] \<Longrightarrow> \<exists>cd. hd (mem_table F sc c ops) = mem_cells F sc (hd ops) cd"
  by (cases "(F, sc, c, ops)" rule: mem_table.cases) (simp_all del: split_paired_Ex, blast+)

lemma rows_ok_mem_table: "rows_ok (7 + sc) (mem_table F sc c ops)"
  by (induction F sc c ops rule: mem_table.induct) simp_all

lemma sum_selectors:
  "sum_list (map (\<lambda>i. if int i = k then 1 else 0 :: int) [0..<n]) = (if 0 \<le> k \<and> k < int n then 1 else 0)"
  by (induction n) auto

text \<open>Rows of the history and of the padding: an operation, or a read without a selector.\<close>

definition mem_line_ok :: "nat \<Rightarrow> mem_op \<Rightarrow> bool" where
  "mem_line_ok sc op \<longleftrightarrow> mem_op_ok sc op \<or>
     in_u32 (mop_addr op) \<and> in_u32 (mop_step op) \<and> mop_write op = 0 \<and> mop_selector op < 0"

lemma diff_halves:
  assumes "0 \<le> d" "d < 2 ^ 32" "2 ^ 32 \<le> modulus F"
  shows "byte2 (fe_from F (d AND 0xffff))" "byte2 (fe_from F (drop_bit 16 d))"
    "fe_from F (drop_bit 16 d) * 2 ^ 16 + fe_from F (d AND 0xffff) = d"
proof -
  have a: "d AND 0xffff = d mod 2 ^ 16" using take_bit_eq_mask[of 16 d] by (simp add: mask_eq_exp_minus_1 take_bit_eq_mod)
  have s: "drop_bit 16 d = d div 2 ^ 16" by (simp add: drop_bit_eq_div)
  have "0 \<le> d mod 2 ^ 16" "d mod 2 ^ 16 < 2 ^ 16" "0 \<le> d div 2 ^ 16" "d div 2 ^ 16 < 2 ^ 16"
    using assms(1,2) by auto
  moreover from this have "fe_from F (d AND 0xffff) = d mod 2 ^ 16" "fe_from F (drop_bit 16 d) = d div 2 ^ 16"
    unfolding a s using assms(3) by (auto intro!: fe_from_small)
  ultimately show "byte2 (fe_from F (d AND 0xffff))" "byte2 (fe_from F (drop_bit 16 d))"
    "fe_from F (drop_bit 16 d) * 2 ^ 16 + fe_from F (d AND 0xffff) = d"
    by (simp_all only: byte2_def div_mult_mod_eq simp_thms)
qed

lemma mem_step_constraints:
  assumes F: "2 ^ 32 \<le> modulus F" and ok: "mem_line_ok sc p" "mem_line_ok sc q"
    and "mem_next p q" "i + 1 \<noteq> degree"
  shows "mem_constraints F degree i (mem_cells F sc p (change_diff p q)) (mem_cells F sc q cd)"
proof -
  obtain c d where cd: "cd = (c, d)" by (cases cd)
  have u: "in_u32 (mop_addr p)" "in_u32 (mop_step p)" "in_u32 (mop_addr q)" "in_u32 (mop_step q)"
    and w: "mop_write p \<in> {0, 1}" "mop_write q \<in> {0, 1}"
    and s: "mop_write p = 1 \<Longrightarrow> 0 \<le> mop_selector p \<and> mop_selector p < int sc"
    using ok by (auto simp: mem_line_ok_def mem_op_ok_def)
  have fe: "fe_from F (mop_addr p) = mop_addr p" "fe_from F (mop_step p) = mop_step p"
    "fe_from F (mop_addr q) = mop_addr q" "fe_from F (mop_step q) = mop_step q" "fe_from F 1 = 1"
    using u F by (simp_all add: fe_from_u32)
  have k: "mop_addr p < mop_addr q \<or> mop_addr p = mop_addr q \<and> mop_step p < mop_step q"
    and v: "mop_write q = 0 \<Longrightarrow> mop_value q = (if mop_addr q = mop_addr p then mop_value p else 0)"
    using assms(4) by (auto simp: mem_next_def mem_key_def)
  obtain change diff where e: "change_diff p q = (change, diff)" by (cases "change_diff p q")
  then have ch: "change = (if mop_addr p < mop_addr q then 1 else 0)"
    and df: "diff + 1 = change * (mop_addr q - mop_addr p) + (1 - change) * (mop_step q - mop_step p)"
    by (auto simp: change_diff_def split: if_splits)
  have "0 \<le> diff" "diff < 2 ^ 32" using df ch k u by (auto simp: in_u32_def split: if_splits)
  note h = diff_halves[OF this F]
  show ?thesis
    unfolding mem_constraints_def Let_def cd e
    using assms(5) h df w s v k ch
    by (auto simp: fe sum_selectors intro!: field_eqI split: if_splits)
qed

lemma mem_wrap_constraints:
  assumes F: "2 ^ 32 \<le> modulus F" and ok: "mem_line_ok sc p" "mem_line_ok sc q"
    and "mop_write q = 0 \<longrightarrow> mop_value q = 0" "i + 1 = degree"
  shows "mem_constraints F degree i (mem_cells F sc p (1, 0)) (mem_cells F sc q cd)"
proof -
  obtain c d where cd: "cd = (c, d)" by (cases cd)
  have w: "mop_write p \<in> {0, 1}" "mop_write q \<in> {0, 1}"
    and s: "mop_write p = 1 \<Longrightarrow> 0 \<le> mop_selector p \<and> mop_selector p < int sc"
    using ok by (auto simp: mem_line_ok_def mem_op_ok_def)
  have "fe_from F 1 = 1" using F by (simp add: fe_from_u32)
  then show ?thesis
    unfolding mem_constraints_def Let_def cd
    using assms(4,5) w s
    by (auto simp: sum_selectors byte2_def intro!: field_eqI split: if_splits)
qed

lemma mem_table_steps:
  assumes "2 ^ 32 \<le> modulus F" "mem_line_ok sc x" "mop_write x = 0 \<longrightarrow> mop_value x = 0"
  shows "\<forall>p \<in> set ops. mem_line_ok sc p \<Longrightarrow> successively mem_next ops \<Longrightarrow> i + length ops = degree \<Longrightarrow>
    steps (mem_constraints F degree) i (mem_table F sc 1 ops) (mem_cells F sc x cd)"
proof (induction ops arbitrary: i rule: induct_list012)
  case (2 p)
  then show ?case using mem_wrap_constraints[OF assms(1) _ assms(2,3)] by simp
next
  case (3 p q ops)
  obtain e R where t: "mem_table F sc 1 (q # ops) = mem_cells F sc q e # R"
    by (cases ops) auto
  have "mem_constraints F degree i (mem_cells F sc p (change_diff p q)) (mem_cells F sc q e)"
    using 3 by (intro mem_step_constraints assms(1)) auto
  moreover have "steps (mem_constraints F degree) (Suc i) (mem_table F sc 1 (q # ops)) (mem_cells F sc x cd)"
    using "3.prems" by (intro "3.IH"(2)) auto
  ultimately show ?case by (simp add: t)
qed simp

text \<open>The table of a sorted history satisfies the constraints, cyclically.\<close>

lemma mem_table_cyclic:
  assumes "2 ^ 32 \<le> modulus F" "\<forall>p \<in> set ops. mem_line_ok sc p" "successively mem_next ops"
    and "ops \<noteq> []" "mop_write (hd ops) = 0 \<longrightarrow> mop_value (hd ops) = 0"
  shows "cyclic (mem_constraints F (length ops)) (mem_table F sc 1 ops)"
proof -
  have "mem_table F sc 1 ops \<noteq> []" using assms(4) length_mem_table[of F sc 1 ops] by (metis length_0_conv)
  moreover obtain cd where "hd (mem_table F sc 1 ops) = mem_cells F sc (hd ops) cd"
    using hd_mem_table[OF assms(4)] by blast
  moreover have "mem_line_ok sc (hd ops)" using assms(2,4) by simp
  ultimately show ?thesis
    using mem_table_steps[OF assms(1) _ assms(5) assms(2,3), of 0] by (simp add: cyclic_steps)
qed

section \<open>The columns of the table\<close>

definition cols_of :: "nat \<Rightarrow> int list list \<Rightarrow> int list list" where
  "cols_of n R = map (\<lambda>c. map (\<lambda>r. r ! c) R) [0..<n]"

lemma columns_zip: "columns names R = zip names (cols_of (length names) R)"
  by (rule nth_equalityI) (simp_all add: columns_def cols_of_def nth_enumerate_eq)

lemma cols_of_Nil: "cols_of n [] = replicate n []"
  by (simp add: cols_of_def map_replicate_const)

lemma push_values_cols_of:
  "length r = n \<Longrightarrow> push_values (cols_of n R) r = Some (cols_of n (R @ [r]))"
  by (auto simp: push_values_def cols_of_def intro!: nth_equalityI)

lemma cols_of_7:
  "cols_of (7 + sc) R = map (\<lambda>r. r ! 0) R # map (\<lambda>r. r ! 1) R # map (\<lambda>r. r ! 2) R # map (\<lambda>r. r ! 3) R
     # map (\<lambda>r. r ! 4) R # map (\<lambda>r. r ! 5) R # map (\<lambda>r. r ! 6) R # map (\<lambda>c. map (\<lambda>r. r ! (7 + c)) R) [0..<sc]"
proof -
  have "[7..<7 + sc] = map (\<lambda>c. 7 + c) [0..<sc]"
    using map_add_upt[of 7 sc] by (simp add: add.commute)
  moreover have "[0..<7] = [0, 1, 2, 3, 4, 5, 6 :: nat]" by (simp add: upt_rec)
  ultimately show ?thesis using upt_add_eq_append[of 0 7 sc] by (simp add: cols_of_def)
qed

lemma mem_row_last: "sc < 256 \<Longrightarrow> mem_row F sc p None = Some (mem_cells F sc p (0, 0))"
  by (simp add: mem_row_def mem_change_diff_def mem_cells_def)

lemma mem_row_next:
  assumes "sc < 256" "mem_line_ok sc p" "mem_line_ok sc q" "mem_key p < mem_key q"
  shows "mem_row F sc p (Some q) = Some (mem_cells F sc p (change_diff p q))"
proof -
  have u: "in_u32 (mop_addr p)" "in_u32 (mop_step p)" "in_u32 (mop_addr q)" "in_u32 (mop_step q)"
    using assms(2,3) by (auto simp: mem_line_ok_def mem_op_ok_def)
  have d: "diff_minus_one y x = Some (y - x - 1)" if "in_u32 x" "in_u32 y" "x < y" for x y
    using that by (auto simp: diff_minus_one_def check_u32_def in_u32_def as_u32_def)
  have "mop_addr p < mop_addr q \<or> mop_addr p = mop_addr q \<and> mop_step p < mop_step q"
    using assms(4) by (auto simp: mem_key_def)
  with u assms(1) show ?thesis
    by (auto simp: mem_row_def mem_change_diff_def change_diff_def mem_cells_def d)
qed

lemma push_ops_cols_of:
  "sc < 256 \<Longrightarrow> \<forall>p \<in> set ops. mem_line_ok sc p \<Longrightarrow> sorted_wrt (\<lambda>p q. mem_key p < mem_key q) ops \<Longrightarrow>
     push_ops F sc (cols_of (7 + sc) R) ops = Some (cols_of (7 + sc) (R @ mem_table F sc 0 ops))"
proof (induction ops arbitrary: R rule: induct_list012)
  case (3 p q ops)
  have r: "mem_row F sc p (Some q) = Some (mem_cells F sc p (change_diff p q))"
    using 3 by (intro mem_row_next) simp_all
  have "push_ops F sc (cols_of (7 + sc) (R @ [mem_cells F sc p (change_diff p q)])) (q # ops)
      = Some (cols_of (7 + sc) ((R @ [mem_cells F sc p (change_diff p q)]) @ mem_table F sc 0 (q # ops)))"
    using "3.prems" by (intro "3.IH"(2)) simp_all
  moreover have "push_values (cols_of (7 + sc) R) (mem_cells F sc p (change_diff p q))
      = Some (cols_of (7 + sc) (R @ [mem_cells F sc p (change_diff p q)]))"
    by (simp add: push_values_cols_of)
  ultimately show ?case using r by simp
qed (simp_all add: mem_row_last push_values_cols_of)

section \<open>The padding\<close>

definition pad_rows :: "field_desc \<Rightarrow> nat \<Rightarrow> mem_op list \<Rightarrow> int list list" where
  "pad_rows F sc ps = map (\<lambda>i. mem_cells F sc (ps ! i) (if Suc i = length ps then 1 else 0, 0)) [0..<length ps]"

lemma mem_table_nth:
  "i < length ops \<Longrightarrow> mem_table F sc c ops ! i = mem_cells F sc (ops ! i)
     (if Suc i = length ops then (c, 0) else change_diff (ops ! i) (ops ! Suc i))"
proof (induction F sc c ops arbitrary: i rule: mem_table.induct)
  case (3 F sc c p q ops)
  then show ?case by (cases i) simp_all
qed simp_all

lemma padding_nth:
  "i < d \<Longrightarrow> mem_padding ops d ! i =
     (let p = (if ops = [] then \<lparr> mop_addr = 0, mop_step = 0, mop_value = 0, mop_write = 0,
      mop_selector = -1 \<rparr> else last ops) in p\<lparr>mop_step := mop_step p + 1 + int i, mop_write := 0, mop_selector := -1\<rparr>)"
  by (simp add: mem_padding_def Let_def)

lemma length_padding [simp]: "length (mem_padding ops d) = d"
  by (simp add: mem_padding_def Let_def)

lemma mem_table_padding:
  assumes "0 < d"
  shows "mem_table F sc 1 (ops @ mem_padding ops d) = mem_table F sc 0 ops @ pad_rows F sc (mem_padding ops d)"
proof (rule nth_equalityI)
  fix i assume "i < length (mem_table F sc 1 (ops @ mem_padding ops d))"
  then have i: "i < length ops + d" by simp
  consider "Suc i < length ops" | "Suc i = length ops" | "length ops \<le> i" by linarith
  then show "mem_table F sc 1 (ops @ mem_padding ops d) ! i = (mem_table F sc 0 ops @ pad_rows F sc (mem_padding ops d)) ! i"
  proof cases
    case 2
    then have "ops \<noteq> []" "i < length ops" "i = length ops - 1" by auto
    then have "ops \<noteq> []" "ops ! i = last ops" "i < length ops" by (simp_all add: last_conv_nth)
    with 2 assms i show ?thesis
      by (simp add: mem_table_nth nth_append padding_nth change_diff_def Let_def)
  next
    case 3
    then obtain k where k: "i = length ops + k" "k < d" using i by (auto simp: le_iff_add)
    then show ?thesis
      by (cases "Suc k = d") (simp_all add: mem_table_nth nth_append padding_nth pad_rows_def change_diff_def Let_def)
  qed (simp add: mem_table_nth nth_append)
qed (simp add: pad_rows_def)

lemma pad_change:
  "0 < d \<Longrightarrow> map (\<lambda>i. if Suc i = d then 1 else 0 :: int) [0..<d] = replicate (d - 1) 0 @ [1]"
  by (intro nth_equalityI) (auto simp: nth_append)

lemma extend_cols_eq:
  assumes "last_step = (if ops = [] then 0 else mop_step (last ops))"
    and "last_step + int (degree - len) + 1 \<le> 0xffffffff" "resize degree 0 c2 \<noteq> []"
  shows "extend_cols F len ops degree (c0 # c1 # c2 # c3 # c4 # c5 # c6 # cs) = Some (
     resize degree (fe_from F (if ops = [] then 0 else mop_addr (last ops))) c0
     # (c1 @ map (\<lambda>i. fe_from F (last_step + 1 + int i)) [0..<degree - len])
     # (butlast (resize degree 0 c2) @ [1])
     # resize degree (if ops = [] then 0 else mop_value (last ops)) c3
     # resize degree 0 c4 # resize degree 0 c5 # resize degree 0 c6 # map (resize degree 0) cs)"
  using assms by (simp add: extend_cols_def Let_def numeral_nat)

lemma extend_cols_of:
  assumes "2 ^ 32 \<le> modulus F" "length ops < degree"
    and "(if ops = [] then 0 else mop_step (last ops)) + int (degree - length ops) + 1 \<le> 0xffffffff"
  shows "extend_cols F (length ops) ops degree (cols_of (7 + sc) (mem_table F sc 0 ops))
    = Some (cols_of (7 + sc) (mem_table F sc 1 (ops @ mem_padding ops (degree - length ops))))"
proof -
  define d where "d = degree - length ops"
  have d: "0 < d" "degree = length ops + d" using assms(2) by (simp_all add: d_def)
  define T where "T = mem_table F sc 0 ops"
  have r: "resize (length ops + d) x (map g T) = map g T @ replicate d x" for x :: int and g
    by (simp add: resize_def T_def)
  have one: "fe_from F 1 = 1" using assms(1) by (simp add: fe_from_u32)
  define P where "P = (\<lambda>c. map (\<lambda>i. mem_cells F sc (mem_padding ops d ! i) (if Suc i = d then 1 else 0, 0) ! c) [0..<d])"
  have PI: "P c = xs" if "length xs = d"
    "\<And>i. i < d \<Longrightarrow> mem_cells F sc (mem_padding ops d ! i) (if Suc i = d then 1 else 0, 0) ! c = xs ! i" for c xs
    using that unfolding P_def by (intro nth_equalityI) simp_all
  have cells: "P 0 = replicate d (fe_from F (if ops = [] then 0 else mop_addr (last ops)))"
      "P 1 = map (\<lambda>i. fe_from F ((if ops = [] then 0 else mop_step (last ops)) + 1 + int i)) [0..<d]"
      "P 2 = replicate (d - 1) 0 @ [1]"
      "P 3 = replicate d (if ops = [] then 0 else mop_value (last ops))"
      "P 4 = replicate d 0" "P 5 = replicate d 0" "P 6 = replicate d 0"
    by (rule PI, use d(1) in \<open>auto simp: padding_nth Let_def one nth_append\<close>)+
  have sel: "P (7 + k) = replicate d 0" if "k < sc" for k
    using that by (intro PI) (simp_all add: mem_cells_def split_beta nth_append padding_nth Let_def)
  have P: "map (\<lambda>r. r ! c) (pad_rows F sc (mem_padding ops d)) = P c" for c
    by (simp add: P_def pad_rows_def)
  have b: "butlast (xs @ replicate d x) @ [y] = xs @ replicate (d - 1) x @ [y]" for xs and x y :: int
  proof -
    have "replicate d x = replicate (d - 1) x @ [x]"
      using d(1) by (cases d) (simp_all add: replicate_append_same)
    then show ?thesis by (simp add: butlast_append)
  qed
  have "extend_cols F (length ops) ops degree (cols_of (7 + sc) T)
      = Some (cols_of (7 + sc) (T @ pad_rows F sc (mem_padding ops d)))"
    unfolding cols_of_7 d_def[symmetric]
    by (subst extend_cols_eq[OF refl])
      (use assms(3) d in \<open>simp_all add: r P cells cells(2)[unfolded One_nat_def, symmetric] sel b del: One_nat_def\<close>)
  then show ?thesis unfolding T_def d_def[symmetric] by (simp add: mem_table_padding[OF d(1)])
qed

section \<open>Correctness\<close>

text \<open>What the permutation with the calling machine sees of a row and of an operation.\<close>

definition mem_link :: "int list \<Rightarrow> int \<times> int \<times> int \<times> int \<times> int list" where
  "mem_link r = (r ! mem_idx Mem_IsWrite, r ! mem_idx Mem_Addr, r ! mem_idx Mem_Step, r ! mem_idx Mem_Value,
     drop (mem_idx Mem_Selectors) r)"

definition op_link :: "nat \<Rightarrow> mem_op \<Rightarrow> int \<times> int \<times> int \<times> int \<times> int list" where
  "op_link sc op = (mop_write op, mop_addr op, mop_step op, mop_value op,
     map (\<lambda>i. if int i = mop_selector op then 1 else 0) [0..<sc])"

definition selected :: "int \<times> int \<times> int \<times> int \<times> int list \<Rightarrow> bool" where
  "selected l = (case l of (_, _, _, _, sel) \<Rightarrow> \<exists>x \<in> set sel. x \<noteq> 0)"

lemma mem_link_cells:
  "2 ^ 32 \<le> modulus F \<Longrightarrow> mem_line_ok sc op \<Longrightarrow> mem_link (mem_cells F sc op cd) = op_link sc op"
  by (cases cd) (auto simp: mem_link_def op_link_def fe_from_u32 mem_line_ok_def mem_op_ok_def)

lemma mem_link_table:
  "2 ^ 32 \<le> modulus F \<Longrightarrow> \<forall>op \<in> set ops. mem_line_ok sc op \<Longrightarrow>
     map mem_link (mem_table F sc c ops) = map (op_link sc) ops"
  by (induction F sc c ops rule: mem_table.induct) (simp_all add: mem_link_cells)

lemma selected_op: "mem_op_ok sc op \<Longrightarrow> selected (op_link sc op)"
  by (auto simp: selected_def op_link_def mem_op_ok_def intro!: bexI[of _ 1] UnI1 image_eqI[of _ _ "nat (mop_selector op)"])

lemma selected_padding: "op \<in> set (mem_padding ops d) \<Longrightarrow> \<not> selected (op_link sc op)"
  by (auto simp: mem_padding_def Let_def selected_def op_link_def)

lemma padding_line_ok:
  assumes "\<forall>op \<in> set ops. mem_op_ok sc op"
    and "(if ops = [] then 0 else mop_step (last ops)) + int d + 1 \<le> 0xffffffff"
  shows "\<forall>op \<in> set (mem_padding ops d). mem_line_ok sc op"
proof -
  have "ops \<noteq> [] \<Longrightarrow> mem_op_ok sc (last ops)" using assms(1) by simp
  with assms(2) show ?thesis
    by (auto simp: mem_padding_def Let_def mem_line_ok_def mem_op_ok_def in_u32_def)
qed

lemma mem_next_padding:
  assumes "successively mem_next ops"
  shows "successively mem_next (ops @ mem_padding ops d)"
proof -
  have "successively mem_next (mem_padding ops d)"
    unfolding successively_conv_nth by (auto simp: padding_nth mem_next_def mem_key_def Let_def)
  moreover have "mem_next (last ops) (hd (mem_padding ops d))" if "ops \<noteq> []" "mem_padding ops d \<noteq> []"
  proof -
    have "0 < d" using that(2) length_padding[of ops d] by (metis length_greater_0_conv)
    then show ?thesis using that by (simp add: hd_conv_nth padding_nth mem_next_def mem_key_def Let_def)
  qed
  ultimately show ?thesis using assms by (auto simp: successively_append_iff)
qed

lemma hd_consistent: "mem_consistent (\<lambda>_. 0) ops \<Longrightarrow> ops \<noteq> [] \<Longrightarrow> mop_write (hd ops) = 0 \<longrightarrow> mop_value (hd ops) = 0"
  by (cases ops) simp_all

lemma memory_finish_sorted:
  assumes "sc < 256" "length (mm_witness_cols m) = 7 + sc" "\<forall>op \<in> set (mm_ops m). mem_op_ok sc op"
    and "steps_increase (mm_ops m)" "length (mm_ops m) \<le> degree" "degree < 2 ^ 32"
    and "ops = sort_key mem_key (mm_ops m)"
  shows "memory_finish F m degree = (if length ops < degree
      then extend_cols F (length ops) ops degree (cols_of (7 + sc) (mem_table F sc 0 ops))
      else Some (cols_of (7 + sc) (mem_table F sc 0 ops))) \<bind>
        (\<lambda>cols. Some (m\<lparr>mm_ops := ops, mm_witness_cols := []\<rparr>, zip (mm_witness_cols m) cols))"
proof -
  have ops: "sort_key (\<lambda>op. (mop_addr op, mop_step op)) (mm_ops m) = ops"
    unfolding assms(7) mem_key_def[abs_def] ..
  have len: "mm_len m = length ops" and len_le: "length ops \<le> degree"
    using assms(5,6,7) by (simp_all add: mm_len_def)
  have "\<forall>op \<in> set ops. mem_line_ok sc op" using assms(3,7) by (simp add: mem_line_ok_def)
  then have "push_ops F sc (cols_of (7 + sc) []) ops = Some (cols_of (7 + sc) ([] @ mem_table F sc 0 ops))"
    using assms(1) sort_strict[OF assms(4)] unfolding assms(7) by (intro push_ops_cols_of) simp_all
  then show ?thesis
    using assms(2,5) len_le by (simp add: memory_finish_def ops len cols_of_Nil Let_def)
qed

lemma memory_finish_table:
  assumes "2 ^ 32 \<le> modulus F" "sc < 256" "length (mm_witness_cols m) = 7 + sc"
    and "\<forall>op \<in> set (mm_ops m). mem_op_ok sc op"
    and "steps_increase (mm_ops m)" "mem_consistent (\<lambda>_. 0) (mm_ops m)"
    and "length (mm_ops m) < degree" "int degree < 0xffffffff"
    and "\<forall>op \<in> set (mm_ops m). mop_step op + int (degree - length (mm_ops m)) < 0xffffffff"
  shows "\<exists>m' R. memory_finish F m degree = Some (m', columns (mm_witness_cols m) R) \<and>
      length R = degree \<and> cyclic (mem_constraints F degree) R \<and>
      mset (filter selected (map mem_link R)) = mset (map (op_link sc) (mm_ops m))"
proof -
  define ops where "ops = sort_key mem_key (mm_ops m)"
  define d where "d = degree - length ops"
  have len: "length ops = length (mm_ops m)" and set: "set ops = set (mm_ops m)" by (simp_all add: ops_def)
  have d: "0 < d" "length ops + d = degree" using assms(7) by (simp_all add: d_def len)
  have st: "(if ops = [] then 0 else mop_step (last ops)) + int d + 1 \<le> 0xffffffff"
  proof (cases "ops = []")
    case False
    then have "last ops \<in> set (mm_ops m)" unfolding set[symmetric] by simp
    with assms(9) False show ?thesis by (fastforce simp: d_def len)
  qed (use assms(8) d in simp)
  let ?R = "mem_table F sc 1 (ops @ mem_padding ops d)"
  have ok: "\<forall>op \<in> set ops. mem_op_ok sc op" using assms(4) by (simp add: set)
  then have lines: "\<forall>op \<in> set (ops @ mem_padding ops d). mem_line_ok sc op"
    using padding_line_ok[OF ok st] by (auto simp: mem_line_ok_def)
  have cons: "mem_consistent (\<lambda>_. 0) ops"
    using assms(5,6) by (simp add: ops_def mem_consistent_sort)
  have "successively mem_next ops"
    using mem_next_sorted[OF _ cons] sort_strict[OF assms(5), folded ops_def] by (cases ops) simp_all
  note nxt = mem_next_padding[OF this, of d]
  have "mop_write (hd (ops @ mem_padding ops d)) = 0 \<longrightarrow> mop_value (hd (ops @ mem_padding ops d)) = 0"
  proof (cases "ops = []")
    case True
    have "hd (mem_padding [] d) = mem_padding [] d ! 0" using d(1) length_padding[of "[]" d]
      by (intro hd_conv_nth) (metis length_greater_0_conv)
    with True d(1) show ?thesis by (simp add: padding_nth)
  qed (use hd_consistent[OF cons] in simp)
  moreover have all: "length (ops @ mem_padding ops d) = degree" "ops @ mem_padding ops d \<noteq> []"
    using d length_padding[of ops d] by (auto simp del: length_padding)
  ultimately have "cyclic (mem_constraints F degree) ?R"
    using mem_table_cyclic[OF assms(1) lines nxt] by simp
  moreover have "mset (filter selected (map mem_link ?R)) = mset (map (op_link sc) (mm_ops m))"
  proof -
    have "filter selected (map (op_link sc) (mem_padding ops d)) = []"
      using selected_padding[of _ ops d sc] by (auto simp: filter_empty_conv)
    moreover have "filter selected (map (op_link sc) ops) = map (op_link sc) ops"
      using ok by (simp add: filter_id_conv selected_op)
    ultimately have "filter selected (map mem_link ?R) = map (op_link sc) ops"
      unfolding mem_link_table[OF assms(1) lines] by simp
    then show ?thesis by (simp add: ops_def)
  qed
  moreover have "memory_finish F m degree = Some (m\<lparr>mm_ops := ops, mm_witness_cols := []\<rparr>, columns (mm_witness_cols m) ?R)"
  proof -
    have "degree < 2 ^ 32" using assms(8) by simp
    then show ?thesis
      using memory_finish_sorted[OF assms(2-5) _ _ ops_def, of degree F] extend_cols_of[OF assms(1), of ops degree sc] st assms(3,7)
      by (simp add: columns_zip len d_def)
  qed
  ultimately show ?thesis using d(2) by auto
qed

text \<open>C24: the memory machine. The operations come from an execution that reads at every address the
  last value, and whose accesses of an address have increasing steps. When they are fewer than the
  degree, \<open>finish\<close> returns a table of that many rows which satisfies the constraints of the machine
  cyclically, and the rows with a selector are exactly the operations, as the permutation with the
  calling machine demands.\<close>

theorem memory_machine_correct:
  assumes "2 ^ 32 \<le> modulus F" "sc < 256" "length (mm_witness_cols m) = 7 + sc"
    and "\<forall>op \<in> set (mm_ops m). mem_op_ok sc op"
    and "steps_increase (mm_ops m)" "mem_consistent (\<lambda>_. 0) (mm_ops m)"
    and "length (mm_ops m) < degree" "int degree < 0xffffffff"
    and "\<forall>op \<in> set (mm_ops m). mop_step op + int (degree - length (mm_ops m)) < 0xffffffff"
  shows "\<exists>m' R. memory_finish F m degree = Some (m', columns (mm_witness_cols m) R) \<and>
      length R = degree \<and> cyclic (mem_constraints F degree) R \<and>
      mset (filter selected (map mem_link R)) = mset (map (op_link sc) (mm_ops m))"
  using assms by (rule memory_finish_table)

text \<open>C25: a full memory machine. When the operations fill the degree, which happens for a power of
  two of them, no row is padded and the last row has \<open>m_change\<close> zero: the table that \<open>finish\<close>
  returns violates the constraint that \<open>m_change\<close> is one in the last row.\<close>

theorem memory_machine_full:
  assumes "2 ^ 32 \<le> modulus F" "sc < 256" "length (mm_witness_cols m) = 7 + sc"
    and "\<forall>op \<in> set (mm_ops m). mem_op_ok sc op"
    and "steps_increase (mm_ops m)" "mm_ops m \<noteq> []" "length (mm_ops m) = degree" "degree < 2 ^ 32"
  shows "\<exists>m' R. memory_finish F m degree = Some (m', columns (mm_witness_cols m) R) \<and>
      length R = degree \<and> \<not> cyclic (mem_constraints F degree) R"
proof -
  define ops where "ops = sort_key mem_key (mm_ops m)"
  have len: "length ops = degree" "0 < degree" using assms(6,7) by (auto simp: ops_def)
  let ?R = "mem_table F sc 0 ops"
  have "?R ! (degree - 1) = mem_cells F sc (ops ! (degree - 1)) (0, 0)"
    using len by (simp add: mem_table_nth)
  then have "\<not> mem_constraints F degree (degree - 1) (?R ! (degree - 1)) s" for s
    using len assms(1) by (simp add: mem_constraints_def Let_def field_eq_def)
  then have "\<not> cyclic (mem_constraints F degree) ?R"
    using len unfolding cyclic_def by (metis diff_less length_mem_table less_numeral_extra(1))
  moreover have "memory_finish F m degree = Some (m\<lparr>mm_ops := ops, mm_witness_cols := []\<rparr>, columns (mm_witness_cols m) ?R)"
    using memory_finish_sorted[OF assms(2-5) _ assms(8) ops_def, of F] assms(3,7) len
    by (simp add: columns_zip)
  ultimately show ?thesis using len(1) by (intro exI[of _ "m\<lparr>mm_ops := ops, mm_witness_cols := []\<rparr>"] exI[of _ ?R]) simp
qed

definition sample_memory :: memory_machine where
  "sample_memory = \<lparr> mm_namespace = ''m'',
     mm_ops = [\<lparr> mop_addr = 8, mop_step = 0, mop_value = 5, mop_write = 1, mop_selector = 0 \<rparr>,
       \<lparr> mop_addr = 4, mop_step = 1, mop_value = 0, mop_write = 0, mop_selector = 0 \<rparr>,
       \<lparr> mop_addr = 8, mop_step = 2, mop_value = 5, mop_write = 0, mop_selector = 0 \<rparr>,
       \<lparr> mop_addr = 4, mop_step = 3, mop_value = 7, mop_write = 1, mop_selector = 0 \<rparr>],
     mm_witness_cols = [''a'', ''s'', ''c'', ''v'', ''w'', ''l'', ''u'', ''x''] \<rparr>"

lemma sample_memory_ok:
  "length (mm_witness_cols sample_memory) = 7 + 1" "length (mm_ops sample_memory) = 4"
  "\<forall>op \<in> set (mm_ops sample_memory). mem_op_ok 1 op" "steps_increase (mm_ops sample_memory)"
  "mem_consistent (\<lambda>_. 0) (mm_ops sample_memory)" "\<forall>op \<in> set (mm_ops sample_memory). mop_step op \<le> 3"
  "mm_ops sample_memory \<noteq> []"
  by (simp_all add: sample_memory_def mem_op_ok_def in_u32_def steps_increase_def)

theorem memory_machine_correct_witness:
  "\<exists>m' R. memory_finish goldilocks_field sample_memory 8 = Some (m', columns (mm_witness_cols sample_memory) R) \<and>
     length R = 8 \<and> cyclic (mem_constraints goldilocks_field 8) R \<and>
     mset (filter selected (map mem_link R)) = mset (map (op_link 1) (mm_ops sample_memory))"
  using memory_machine_correct[OF gl_modulus_u32 _ sample_memory_ok(1) sample_memory_ok(3-5), of 8]
    sample_memory_ok(2,6) by fastforce

theorem memory_machine_full_witness:
  "\<exists>m' R. memory_finish goldilocks_field sample_memory 4 = Some (m', columns (mm_witness_cols sample_memory) R) \<and>
     length R = 4 \<and> \<not> cyclic (mem_constraints goldilocks_field 4) R"
  using memory_machine_full[OF gl_modulus_u32 _ sample_memory_ok(1) sample_memory_ok(3,4,7,2)] by simp

end
