(* ===== verification/Riscv_Invariants.thy ===== *)
theory Riscv_Invariants
  imports Riscv_Executor Riscv_Memory
begin

text \<open>
  Invariants of the executor. The instructions change the state through few operations only: columns,
  links, calls into submachines, registers, memory and the program counter. The locale
  \<open>exec_invariant\<close> states what these operations must keep; everything above them, from the
  instructions to the main loop, then keeps it too. It is interpreted for the shape of the trace, for
  the types of the memory and for the log of the memory machine.
\<close>

section \<open>Postconditions\<close>

definition holds :: "('r \<Rightarrow> bool) \<Rightarrow> 'r option \<Rightarrow> bool" where
  "holds P m \<longleftrightarrow> (\<forall>r. m = Some r \<longrightarrow> P r)"

lemma holdsI: "(\<And>r. m = Some r \<Longrightarrow> P r) \<Longrightarrow> holds P m"
  by (simp add: holds_def)

lemma holdsD: "holds P m \<Longrightarrow> m = Some r \<Longrightarrow> P r"
  by (simp add: holds_def)

lemma holds_Some: "P r \<Longrightarrow> holds P (Some r)"
  by (simp add: holds_def)

lemma holds_None: "holds P None"
  by (simp add: holds_def)

lemma holds_bind: "holds Q m \<Longrightarrow> (\<And>x. Q x \<Longrightarrow> holds P (f x)) \<Longrightarrow> holds P (m \<bind> f)"
  by (auto simp: holds_def bind_eq_Some_conv)

lemma holds_pure: "(\<And>x. holds P (f x)) \<Longrightarrow> holds P (m \<bind> f)"
  by (auto simp: holds_def bind_eq_Some_conv)

lemma holds_split: "(\<And>a b. holds P (f a b)) \<Longrightarrow> holds P (case p of (a, b) \<Rightarrow> f a b)"
  by (cases p) simp

lemma holds_Let: "holds P (f v) \<Longrightarrow> holds P (Let v f)"
  by simp

lemma holds_if: "holds P x \<Longrightarrow> holds P y \<Longrightarrow> holds P (if b then x else y)"
  by simp

text \<open>Conversions to \<open>u32\<close> return such a value.\<close>

lemma holds_u32:
  "(\<And>x. in_u32 x \<Longrightarrow> holds P (f x)) \<Longrightarrow> holds P (check_u32 y \<bind> f)"
  "(\<And>x. in_u32 x \<Longrightarrow> holds P (f x)) \<Longrightarrow> holds P (elem_u v \<bind> f)"
proof -
  show "(\<And>x. in_u32 x \<Longrightarrow> holds P (f x)) \<Longrightarrow> holds P (check_u32 y \<bind> f)"
    by (rule holds_bind[where Q = in_u32]) (auto simp: holds_def)
  have "elem_u v = Some x \<Longrightarrow> in_u32 x" for x
    by (cases v) (auto simp: check_u32_def split: if_splits)
  then show "(\<And>x. in_u32 x \<Longrightarrow> holds P (f x)) \<Longrightarrow> holds P (elem_u v \<bind> f)"
    by (intro holds_bind[where Q = in_u32]) (auto simp: holds_def)
qed

lemma in_u32_cast:
  "in_u32 (as_u32 x)" "in_u32 (x AND 0xffffffff)" "in_u32 (as_u32 x AND 0xfffffffc)"
proof -
  have le: "0 \<le> y AND m \<and> y AND m \<le> m" if "0 \<le> m" for y m :: int
    using that by (simp add: AND_upper2)
  show "in_u32 (as_u32 x)" by (simp add: in_u32_def as_u32_def)
  show "in_u32 (x AND 0xffffffff)" "in_u32 (as_u32 x AND 0xfffffffc)"
    using le[of "0xffffffff" x] le[of "0xfffffffc" "as_u32 x"] by (simp_all add: in_u32_def)
qed

section \<open>What the operations keep, everything keeps\<close>

locale exec_invariant =
  fixes F :: field_desc and I :: "executor \<Rightarrow> bool"
  assumes keep_instr_links: "I e \<Longrightarrow> I (e\<lparr>pil_instruction_links := il\<rparr>)"
    and keep_other_links: "I e \<Longrightarrow> I (e\<lparr>pil_other_links := ol\<rparr>)"
    and keep_queries: "I e \<Longrightarrow> I (e\<lparr>queries := q\<rparr>)"
    and keep_step: "I e \<Longrightarrow> I (e\<lparr>ex_step := s\<rparr>)"
    and keep_backup: "I e \<Longrightarrow> I (e\<lparr>proc := backup_reg_mem (proc e)\<rparr>)"
    and keep_reg_mem: "I e \<Longrightarrow> I (e\<lparr>proc := set_reg_mem (proc e) r v\<rparr>)"
    and keep_col: "I e \<Longrightarrow> set_col F (proc e) c v = Some t \<Longrightarrow> I (e\<lparr>proc := t\<rparr>)"
    and keep_call: "I e \<Longrightarrow> m \<noteq> M_memory \<Longrightarrow> I (call_submachine e m l args ext)"
    and keep_pc: "I e \<Longrightarrow> set_pc F (proc e) v = Some t \<Longrightarrow> I (e\<lparr>proc := t\<rparr>)"
    and keep_reg: "I e \<Longrightarrow> set_reg F (proc e) n v = Some t \<Longrightarrow> I (e\<lparr>proc := t\<rparr>)"
    and keep_write: "I e \<Longrightarrow> in_u32 a \<Longrightarrow> in_u32 w \<Longrightarrow> I (mem_write F e a w s l)"
    and keep_read: "I e \<Longrightarrow> in_u32 a \<Longrightarrow> I (snd (mem_read F e a s l))"
    and keep_advance: "I e \<Longrightarrow> advance F (proc e) = Some (nxt, t) \<Longrightarrow> I (e\<lparr>proc := t\<rparr>)"
begin

abbreviation "keeps \<equiv> holds I"
abbreviation "keeps2 \<equiv> holds (\<lambda>(v, e). I e)"

lemma state_bind: "keeps m \<Longrightarrow> (\<And>e. I e \<Longrightarrow> holds P (f e)) \<Longrightarrow> holds P (m \<bind> f)"
  by (rule holds_bind)

lemma pair_bind: "keeps2 m \<Longrightarrow> (\<And>v e. I e \<Longrightarrow> holds P (f v e)) \<Longrightarrow> holds P (m \<bind> (\<lambda>(v, e). f v e))"
  by (erule holds_bind) auto

lemma keeps_cols: "I e \<Longrightarrow> keeps (set_cols F e cvs)"
proof (induction cvs arbitrary: e)
  case (Cons cv cvs)
  then show ?case by (cases cv) (auto simp: holds_def bind_eq_Some_conv dest: keep_col)
qed (simp add: holds_Some)

lemma keeps_zero_test: "I e \<Longrightarrow> keeps (set_zero_test F e v)"
  unfolding set_zero_test_def
  by (rule state_bind[OF keeps_cols] holds_if holds_Some holds_pure keeps_cols | assumption)+

lemma keeps_links: "I e \<Longrightarrow> keeps2 (instr_link_id e i m k)" "I e \<Longrightarrow> keeps2 (link_id e s t k)"
  by (auto simp: holds_def instr_link_id_def link_id_def Let_def keep_instr_links keep_other_links
      split: bind_splits if_splits)

lemma keeps_reg_read: "I e \<Longrightarrow> keeps2 (reg_read F e k r l)"
  unfolding reg_read_def Let_def by (rule holds_pure, rule holds_Some) (simp add: keep_call)

lemma keeps_reg_write: "I e \<Longrightarrow> keeps (reg_write F e k r v l)"
  unfolding reg_write_def Let_def
  by (rule holds_pure, rule holds_Some, rule keep_reg_mem, rule keep_call) simp_all

lemma keeps_read_reg: "I e \<Longrightarrow> keeps2 (read_reg F e i j k r)"
  unfolding read_reg_def by (rule pair_bind[OF keeps_links(1)]) (simp_all add: keeps_reg_read)

lemma keeps_write_reg: "I e \<Longrightarrow> keeps (write_reg F e i j k r v)"
  unfolding write_reg_def by (rule pair_bind[OF keeps_links(1)]) (simp_all add: keeps_reg_write)

lemma keeps_jump: "I e \<Longrightarrow> keeps (jump_to F e v)"
  unfolding jump_to_def by (auto simp: holds_def bind_eq_Some_conv intro: keep_pc)

lemma keeps_mem:
  "I e \<Longrightarrow> in_u32 a \<Longrightarrow> in_u32 w \<Longrightarrow> (\<And>e. I e \<Longrightarrow> holds P (f e)) \<Longrightarrow> holds P (Let (mem_write F e a w s l) f)"
  "I e \<Longrightarrow> in_u32 a \<Longrightarrow> (\<And>v e. I e \<Longrightarrow> holds P (g v e)) \<Longrightarrow> holds P (Let (mem_read F e a s l) (\<lambda>(v, e). g v e))"
  "I e \<Longrightarrow> m \<noteq> M_memory \<Longrightarrow> (\<And>e. I e \<Longrightarrow> holds P (f e)) \<Longrightarrow> holds P (Let (call_submachine e m l args ext) f)"
  using keep_write[of e a w s l] keep_read[of e a s l] keep_call[of e m l args ext] by (simp_all add: split_beta)

lemma keeps_Some: "I e \<Longrightarrow> keeps (Some e)" "I e \<Longrightarrow> keeps2 (Some (v, e))"
  "I e \<Longrightarrow> m \<noteq> M_memory \<Longrightarrow> keeps (Some (call_submachine e m l args ext))"
  by (simp_all add: holds_Some keep_call)

lemmas keep_first = keeps_mem keeps_Some keeps_reg_read keeps_read_reg keeps_reg_write keeps_write_reg keeps_cols
  keeps_zero_test keeps_jump keeps_links holds_u32
lemmas keep_last = holds_split holds_Let holds_if state_bind pair_bind holds_pure
lemmas keep_facts = in_u32_cast machine_instance.distinct

lemma keeps_memory:
  "I e \<Longrightarrow> keeps (exec_set_reg F e args)" "I e \<Longrightarrow> keeps2 (exec_get_reg F e args)"
  "I e \<Longrightarrow> keeps (exec_affine F e args)" "I e \<Longrightarrow> keeps (exec_mstore F e i args)"
  "I e \<Longrightarrow> keeps (exec_mload F e args)" "I e \<Longrightarrow> keeps (exec_load_bootloader_input F e args)"
  "I e \<Longrightarrow> keeps (exec_assert_bootloader_input F e args)"
  unfolding exec_set_reg_def exec_get_reg_def exec_affine_def exec_mstore_def exec_mload_def
    exec_load_bootloader_input_def exec_assert_bootloader_input_def
  by (assumption | rule keep_facts keep_first | rule keep_last)+

lemma keeps_control:
  "I e \<Longrightarrow> keeps (exec_load_label F e args)" "I e \<Longrightarrow> keeps (exec_jump F e args)"
  "I e \<Longrightarrow> keeps (exec_jump_dyn F e args)" "I e \<Longrightarrow> keeps (exec_jump_to_bootloader_input F e args)"
  "I e \<Longrightarrow> keeps (exec_branch_if_diff_nonzero F e args)" "I e \<Longrightarrow> keeps (exec_branch_if_diff_equal F e args)"
  "I e \<Longrightarrow> keeps (exec_skip_if_equal F e args)" "I e \<Longrightarrow> keeps (exec_branch_if_diff_greater_than F e args)"
  "I e \<Longrightarrow> keeps (exec_is_diff_greater_than F e args)" "I e \<Longrightarrow> keeps (exec_is_equal_zero F e args)"
  "I e \<Longrightarrow> keeps (exec_is_not_equal F e args)"
  unfolding exec_load_label_def exec_jump_def exec_jump_dyn_def exec_jump_to_bootloader_input_def
    exec_branch_if_diff_nonzero_def exec_branch_if_diff_equal_def exec_skip_if_equal_def
    exec_branch_if_diff_greater_than_def exec_is_diff_greater_than_def exec_is_equal_zero_def exec_is_not_equal_def
  by (assumption | rule keep_facts keep_first | rule keep_last)+

lemma keeps_arith:
  "I e \<Longrightarrow> keeps (exec_add_wrap F e args)" "I e \<Longrightarrow> keeps (exec_wrap16 F e args)"
  "I e \<Longrightarrow> keeps (exec_sub_wrap_with_offset F e args)" "I e \<Longrightarrow> keeps (exec_sign_extend_byte F e args)"
  "I e \<Longrightarrow> keeps (exec_sign_extend_16_bits F e args)" "I e \<Longrightarrow> keeps (exec_to_signed F e args)"
  "I e \<Longrightarrow> keeps (exec_divremu F e args)" "I e \<Longrightarrow> keeps (exec_mul F e args)"
  "I e \<Longrightarrow> keeps (exec_bitwise F e i args)" "I e \<Longrightarrow> keeps (exec_shift F e i args)"
  "I e \<Longrightarrow> keeps (exec_invert_gl F e args)" "I e \<Longrightarrow> keeps (exec_split_gl F e args)"
  "I e \<Longrightarrow> keeps (exec_commit_public F e args)"
  unfolding exec_add_wrap_def exec_wrap16_def exec_sub_wrap_with_offset_def exec_sign_extend_byte_def
    exec_sign_extend_16_bits_def exec_to_signed_def exec_divremu_def exec_mul_def exec_bitwise_def exec_shift_def
    exec_invert_gl_def exec_split_gl_def exec_commit_public_def
  by (assumption | rule keep_facts keep_first | rule keep_last)+

lemma keeps_poseidon_inputs: "I e \<Longrightarrow> keeps2 (poseidon_inputs F e p js)"
proof (induction js arbitrary: e)
  case (Cons j js)
  show ?case
    unfolding poseidon_inputs.simps by (assumption | rule Cons.prems keep_facts keep_first Cons.IH | rule keep_last)+
qed (simp add: holds_Some)

lemma keeps_poseidon_outputs: "I e \<Longrightarrow> keeps (poseidon_outputs F e p ivs)"
proof (induction ivs arbitrary: e)
  case (Cons iv ivs)
  obtain i v where iv: "iv = (i, v)" by (cases iv)
  show ?case
    unfolding iv poseidon_outputs.simps by (assumption | rule Cons.prems keep_facts keep_first Cons.IH | rule keep_last)+
qed (simp add: holds_Some)

lemma keeps_read_words: "I e \<Longrightarrow> keeps2 (read_words F e p js s l)"
proof (induction js arbitrary: e)
  case (Cons j js)
  show ?case
    unfolding read_words.simps by (assumption | rule Cons.prems keep_facts keep_first Cons.IH | rule keep_last)+
qed (simp add: holds_Some)

lemma keeps_write_words: "I e \<Longrightarrow> keeps (write_words F e p vs s l)"
proof (induction vs arbitrary: e p)
  case (Cons v vs)
  show ?case
    unfolding write_words.simps by (assumption | rule Cons.prems holds_u32 keep_write Cons.IH)+
qed (simp add: holds_Some)

lemma keeps_keccak_read: "I e \<Longrightarrow> keeps2 (keccak_read F e p js l)"
proof (induction js arbitrary: e)
  case (Cons j js)
  show ?case
    unfolding keccak_read.simps by (assumption | rule Cons.prems keep_facts keep_first Cons.IH | rule keep_last)+
qed (simp add: holds_Some)

lemma keeps_keccak_write: "I e \<Longrightarrow> keeps (keccak_write F e p ivs l)"
proof (induction ivs arbitrary: e)
  case (Cons iv ivs)
  obtain i v where iv: "iv = (i, v)" by (cases iv)
  show ?case
    unfolding iv keccak_write.simps by (assumption | rule Cons.prems keep_facts keep_first Cons.IH | rule keep_last)+
qed (simp add: holds_Some)

lemma keeps_syscalls:
  "I e \<Longrightarrow> keeps (exec_poseidon_gl F e args)" "I e \<Longrightarrow> keeps (exec_poseidon2_gl F X e args)"
  "I e \<Longrightarrow> keeps (exec_affine_256 F e args)" "I e \<Longrightarrow> keeps (exec_mod_256 F e args)"
  "I e \<Longrightarrow> keeps (exec_ec_add F X e args)" "I e \<Longrightarrow> keeps (exec_ec_double F X e args)"
  "I e \<Longrightarrow> keeps (exec_keccakf F X e args)"
  unfolding exec_poseidon_gl_def exec_poseidon2_gl_def exec_affine_256_def exec_mod_256_def exec_ec_add_def
    exec_ec_double_def exec_keccakf_def
  by (assumption | rule keep_facts keep_first keeps_poseidon_inputs keeps_poseidon_outputs keeps_read_words
      keeps_write_words keeps_keccak_read keeps_keccak_write | rule keep_last)+

lemma keeps_instr: "I e \<Longrightarrow> keeps2 (exec_instr F X e i args)"
proof -
  have n: "keeps2 (no_value m)" if "keeps m" for m
    using that by (auto simp: holds_def no_value_def)
  have v: "keeps2 (map_option (\<lambda>(v, e). (Some v, e)) m)" if "keeps2 m" for m :: "(elem \<times> executor) option"
    using that by (auto simp: holds_def)
  assume "I e"
  then show ?thesis
    unfolding exec_instr_def
    by (cases i) (simp_all add: n v keeps_memory keeps_control keeps_arith keeps_syscalls exec_fail_def holds_None)
qed

lemma keeps_const_col: "I e \<Longrightarrow> keeps (set_const_col F e n c f)"
  unfolding set_const_col_def by (assumption | rule holds_if keeps_cols keeps_Some holds_pure)+

lemma keeps_instruction_args: "I e \<Longrightarrow> keeps2 (exec_instruction_args F X e n args)"
  unfolding exec_instruction_args_def Let_def
  by (assumption | rule keep_backup keeps_const_col keeps_instr state_bind holds_pure)+

lemma keeps_query: "I e \<Longrightarrow> keeps2 (ask_query F e q)"
  unfolding ask_query_def by (rule holds_pure)+ (simp add: holds_Some keep_queries)

lemma pair_bind_eq:
  "keeps2 m \<Longrightarrow> (\<And>v e. m = Some (v, e) \<Longrightarrow> I e \<Longrightarrow> holds P (f v e)) \<Longrightarrow> holds P (m \<bind> (\<lambda>(v, e). f v e))"
  by (fastforce simp: holds_def bind_eq_Some_conv)

lemma pure_eq: "(\<And>x. m = Some x \<Longrightarrow> holds P (f x)) \<Longrightarrow> holds P (m \<bind> f)"
  by (auto simp: holds_def bind_eq_Some_conv)

lemma keeps_eval_args:
  "G = F \<Longrightarrow> I e \<Longrightarrow> keeps2 (eval_expression G X e x)" "G = F \<Longrightarrow> I e \<Longrightarrow> keeps2 (eval_args G X e xs)"
proof (induction G X e x and G X e xs rule: eval_expression_eval_args.induct)
  case (1 G X e r)
  then show ?case unfolding eval_expression.simps by (intro holds_pure holds_Some) simp
next
  case (2 G X e n)
  then show ?case unfolding eval_expression.simps by (intro holds_pure holds_Some) simp
next
  case (3 G X e l op r)
  show ?case
    unfolding eval_expression.simps
    by (rule 3(1,3,4) pair_bind_eq pure_eq keeps_Some | assumption | (rule 3(2), assumption, rule refl, assumption))+
next
  case (4 G X e op a)
  show ?case unfolding eval_expression.simps by (rule 4 pair_bind holds_pure keeps_Some | assumption)+
next
  case (5 G X e f args)
  show ?case
  proof (cases f)
    case (Ex_Reference path)
    let ?b = "path_to_string path = ''std::prover::eval'' \<or> path_to_string path = ''std::convert::int''"
    have "keeps2 (case args of a # _ \<Rightarrow> eval_expression G X e a | [] \<Rightarrow> None)" if ?b
      using 5(1)[OF Ex_Reference that _ 5(3,4)] by (cases args) (simp_all add: holds_None)
    moreover have "keeps2 (eval_args G X e args)" if "\<not> ?b" "try_to_identifier path = Some n" for n
      using 5(2)[OF Ex_Reference that 5(3,4)] .
    ultimately show ?thesis
      unfolding Ex_Reference eval_expression.simps expression.case 5(3)
      by (cases ?b) (simp, simp only: if_False, blast intro: pure_eq pair_bind keeps_instruction_args)
  qed (simp_all add: holds_None)
next
  case (6 G X e x)
  show ?case
  proof (cases "\<exists>path args. x = Ex_FunctionCall (Ex_Reference path) args")
    case True
    then obtain path args where x: "x = Ex_FunctionCall (Ex_Reference path) args" by blast
    show ?thesis
      unfolding x eval_expression.simps expression.case
      by (rule pure_eq, rule pair_bind[OF 6(1)[OF x refl]], assumption)
        (unfold 6(2), (rule refl 6(3) pair_bind keeps_query keeps_Some | assumption)+)
  next
    case False
    then show ?thesis by (auto simp: holds_None split: expression.splits)
  qed
next
  case (9 G X e a as)
  show ?case
    unfolding eval_args.simps
    by (rule 9(1,3,4) pair_bind_eq pure_eq keeps_Some | assumption | (rule 9(2), assumption, rule refl, assumption))+
qed (simp_all add: holds_None holds_Some)

lemmas keeps_eval = keeps_eval_args[OF refl]

lemma keeps_instruction: "I e \<Longrightarrow> keeps2 (exec_instruction F X e n xs)"
  unfolding exec_instruction_def by (rule pair_bind keeps_eval keeps_instruction_args | assumption)+

lemma keeps_col_e: "I e \<Longrightarrow> keeps (set_col_e F e c v)"
  unfolding set_col_e_def by (rule keeps_cols)

lemma keeps_set_reg: "I e \<Longrightarrow> keeps (set_reg F (proc e) n v \<bind> (\<lambda>t. Some (e\<lparr>proc := t\<rparr>)))"
  by (auto simp: holds_def bind_eq_Some_conv intro: keep_reg)

lemma keeps_assignment: "I e \<Longrightarrow> keeps (exec_assignment F X e lhs rhs)"
proof -
  assume e: "I e"
  obtain dest asg where lhs: "lhs ! 0 = (dest, asg)" by (cases "lhs ! 0")
  show ?thesis
    unfolding exec_assignment_def Let_def lhs prod.case
    by (cases asg; cases rhs; simp only: assignment_register.case expression.case)
      (rule e keeps_col_e keeps_cols keeps_eval keeps_set_reg holds_None | assumption | rule state_bind pair_bind holds_pure)+
qed

lemma keeps_instruction_statement: "I e \<Longrightarrow> keeps (exec_instruction_statement F X e n xs)"
  unfolding exec_instruction_statement_def
  by (rule keeps_col_e keeps_instruction keeps_eval keeps_Some holds_if | assumption | rule state_bind pair_bind holds_pure)+

lemma keeps_statement: "I e \<Longrightarrow> keeps2 (exec_statement F X d e st)"
proof -
  assume e: "I e"
  have p: "keeps2 (map_option (Pair b) m)" if "keeps m" for b m
    using that by (auto simp: holds_def)
  show ?thesis
    unfolding exec_statement_def Let_def
  proof (rule holds_pure)
    fix s
    have e': "I (e\<lparr>ex_step := s\<rparr>)" "I (e\<lparr>ex_step := s - 4\<rparr>)" using e keep_step by blast+
    then show "keeps2 (case st of
       St_Assignment lhs rhs \<Rightarrow> map_option (Pair False) (exec_assignment F X (e\<lparr>ex_step := s\<rparr>) lhs rhs)
     | St_Instruction name args \<Rightarrow> map_option (Pair False) (exec_instruction_statement F X (e\<lparr>ex_step := s\<rparr>) name args)
     | St_Return x \<Rightarrow> map_option (Pair True) (set_col_e F (e\<lparr>ex_step := s\<rparr>) Col_operation_id (Elem_Binary 2))
     | St_DebugDirective dd \<Rightarrow> (case dd of
           Dir_Loc file line column \<Rightarrow> do {
             rust_assert (1 \<le> file);
             f \<leftarrow> vec_get d (file - 1);
             Some (False, e\<lparr>ex_step := s, ex_step := ex_step (e\<lparr>ex_step := s\<rparr>) - 4\<rparr>)
           }
         | Dir_OriginalInstruction _ \<Rightarrow> Some (False, e\<lparr>ex_step := s, ex_step := ex_step (e\<lparr>ex_step := s\<rparr>) - 4\<rparr>)
         | Dir_File _ _ _ \<Rightarrow> None)
     | St_Label _ \<Rightarrow> None)"
      by (auto simp: p keeps_assignment keeps_instruction_statement keeps_col_e holds_Some holds_None
          intro!: holds_pure split: function_statement.split debug_directive.split)
  qed
qed

definition run_keeps :: "run_result \<Rightarrow> bool" where
  "run_keeps r = (case r of Running e _ \<Rightarrow> I e | Panicked \<Rightarrow> True | Finished e \<Rightarrow> I e)"

lemma iteration_keeps: "I e \<Longrightarrow> run_keeps (exec_iteration F X pm e pc)"
proof -
  assume e: "I e"
  have "holds run_keeps (do {
        stm \<leftarrow> vec_get_i64 (pm_statements pm) pc;
        (stop, e) \<leftarrow> exec_statement F X (pm_debug_files pm) e stm;
        if stop then Some (Finished e)
        else do {
          (next, t) \<leftarrow> advance F (proc e);
          Some (case next of
              Some pc \<Rightarrow> Running (e\<lparr>proc := t\<rparr>) pc
            | None \<Rightarrow> Finished (e\<lparr>proc := t\<rparr>))
        }
      })"
  proof (rule holds_pure, rule pair_bind[OF keeps_statement[OF e]], rule holds_if)
    fix stop e assume e: "I e"
    then show "holds run_keeps (Some (Finished e))" by (simp add: holds_def run_keeps_def)
    from e keep_advance show "holds run_keeps (advance F (proc e) \<bind> (\<lambda>(next, t). Some (case next of
        Some pc \<Rightarrow> Running (e\<lparr>proc := t\<rparr>) pc | None \<Rightarrow> Finished (e\<lparr>proc := t\<rparr>))))"
      by (auto simp: holds_def bind_eq_Some_conv run_keeps_def split: option.split)
  qed
  then show ?thesis unfolding exec_iteration_def by (auto simp: holds_def run_keeps_def split: option.split)
qed

lemma loop_keeps: "I e \<Longrightarrow> run_keeps (exec_loop F X pm n e pc)"
proof (induction n arbitrary: e pc)
  case (Suc n)
  have "run_keeps (exec_iteration F X pm e pc)" using Suc.prems by (rule iteration_keeps)
  with Suc.IH show ?case by (cases "exec_iteration F X pm e pc") (simp_all add: run_keeps_def)
qed (simp add: run_keeps_def)

lemma keeps_closing_row: "I e \<Longrightarrow> keeps (closing_row F e target)"
  unfolding closing_row_def by (rule keeps_col_e keeps_jump state_bind | assumption)+

lemma keeps_closing_advance: "I e \<Longrightarrow> keeps (closing_advance F e)"
  unfolding closing_advance_def by (auto simp: holds_def bind_eq_Some_conv split: if_splits intro: keep_advance)

lemma close_keeps: "I e \<Longrightarrow> keeps (exec_close F e)"
proof -
  have set_regs: "keeps (do { t \<leftarrow> set_reg F (proc e) n v; t \<leftarrow> set_reg F t n' v'; e \<leftarrow> closing_advance F (e\<lparr>proc := t\<rparr>); f e })"
    if "I e" "\<And>e. I e \<Longrightarrow> keeps (f e)" for e n v n' v' f
  proof -
    have "keeps (do { e \<leftarrow> set_reg F (proc e) n v \<bind> (\<lambda>t. Some (e\<lparr>proc := t\<rparr>));
        e \<leftarrow> set_reg F (proc e) n' v' \<bind> (\<lambda>t. Some (e\<lparr>proc := t\<rparr>)); e \<leftarrow> closing_advance F e; f e })"
      using that by (intro state_bind[OF keeps_set_reg] state_bind[OF keeps_closing_advance])
    then show ?thesis by (simp add: bind_assoc)
  qed
  show "I e \<Longrightarrow> ?thesis"
    unfolding exec_close_def
    by (rule keeps_col_e keeps_closing_row keeps_closing_advance | assumption | rule set_regs
        | rule state_bind holds_pure)+
qed

end

section \<open>The rows of the trace\<close>

text \<open>A recorded trace has as many rows as its length says, in every register and in the block of
  known columns, and the limit of rows is respected.\<close>

definition trace_cols :: "trace_builder \<Rightarrow> nat \<Rightarrow> bool" where
  "trace_cols t n \<longleftrightarrow> (let tr = tb_trace t in
     (traces (tb_mode t) \<longrightarrow> length (pc_trace tr) = n \<and> (\<forall>c \<in> set (reg_trace tr). length c = n) \<and>
        length (reg_writes tr) = length (reg_trace tr)) \<and>
     (tb_mode t = Witness \<longrightarrow> length (known_cols tr) = n * col_count))"

definition trace_rows :: "trace_builder \<Rightarrow> bool" where
  "trace_rows t \<longleftrightarrow> trace_cols t (tr_len (tb_trace t)) \<and> 0 < tr_len (tb_trace t) \<and> tr_len (tb_trace t) \<le> max_rows t"

definition rows_inv :: "nat \<Rightarrow> executor \<Rightarrow> bool" where
  "rows_inv limit e \<longleftrightarrow> trace_rows (proc e) \<and> max_rows (proc e) = limit"

text \<open>Two traces with the same number of rows and the same shape.\<close>

definition same_rows :: "trace_builder \<Rightarrow> trace_builder \<Rightarrow> bool" where
  "same_rows t t' \<longleftrightarrow> (\<forall>n. trace_cols t n \<longrightarrow> trace_cols t' n) \<and> tr_len (tb_trace t') = tr_len (tb_trace t) \<and>
     max_rows t' = max_rows t"

lemma same_rows_trans: "same_rows t t' \<Longrightarrow> same_rows t' t'' \<Longrightarrow> same_rows t t''"
  by (simp add: same_rows_def)

lemma same_rows_inv: "trace_rows t \<Longrightarrow> same_rows t t' \<Longrightarrow> trace_rows t' \<and> max_rows t' = max_rows t"
  by (simp add: same_rows_def trace_rows_def)

lemma set_col_rows: "set_col F t c v = Some t' \<Longrightarrow> same_rows t t'"
  by (auto simp: set_col_def same_rows_def trace_cols_def Let_def vec_set_def split: bind_splits if_splits)

lemma set_reg_idx_rows: "set_reg_idx F t i v = Some t' \<Longrightarrow> same_rows t t'"
  by (auto simp: set_reg_idx_def same_rows_def trace_cols_def Let_def vec_set_def split: bind_splits if_splits)

lemma set_next_pc_rows: "set_next_pc t = Some (r, t') \<Longrightarrow> same_rows t t'"
  by (auto simp: set_next_pc_def same_rows_def trace_cols_def Let_def split: bind_splits if_splits option.splits)

lemma update_rows:
  "same_rows t (t\<lparr>next_statement_line := l\<rparr>)" "same_rows t (t\<lparr>curr_pc := p\<rparr>)"
  by (simp_all add: same_rows_def trace_cols_def)

lemma push_row_rows:
  assumes "push_row t pc = Some t'" "trace_cols t n"
  shows "trace_cols t' (Suc n) \<and> tr_len (tb_trace t') = tr_len (tb_trace t) \<and> max_rows t' = max_rows t"
proof -
  have "length c = Suc n" if "c \<in> set (map2 push_reg ws cs)" "\<forall>c \<in> set cs. length c = n" for c ws cs
    using that by (fastforce simp: push_reg_def in_set_zip)
  then show ?thesis
    using assms by (auto simp: push_row_def trace_cols_def Let_def split: bind_splits if_splits)
qed

lemma advance_rows:
  assumes "trace_rows t" "advance F t = Some (r, t')"
  shows "trace_rows t' \<and> max_rows t' = max_rows t"
proof -
  have grow: "trace_rows (t3\<lparr>curr_pc := p\<rparr>) \<and> max_rows (t3\<lparr>curr_pc := p\<rparr>) = max_rows t"
    if "set_col F (t\<lparr>tb_trace := (tb_trace t)\<lparr>tr_len := Suc (tr_len (tb_trace t))\<rparr>\<rparr>) c v = Some t2"
      "push_row t2 pc = Some t3" "\<not> has_enough_rows t" for c v t2 pc t3 p
  proof -
    let ?t = "t\<lparr>tb_trace := (tb_trace t)\<lparr>tr_len := Suc (tr_len (tb_trace t))\<rparr>\<rparr>"
    have "trace_cols ?t (tr_len (tb_trace t))"
      using assms(1) by (simp add: trace_rows_def trace_cols_def Let_def)
    then have "trace_cols t2 (tr_len (tb_trace t))" "tr_len (tb_trace t2) = tr_len (tb_trace t) + 1" "max_rows t2 = max_rows t"
      using set_col_rows[OF that(1)] by (simp_all add: same_rows_def)
    with push_row_rows[OF that(2)] that(3) have "trace_rows t3 \<and> max_rows t3 = max_rows t"
      by (simp add: trace_rows_def has_enough_rows_def)
    then show ?thesis using same_rows_inv[OF _ update_rows(2)] by auto
  qed
  have stop: "trace_rows t3 \<and> max_rows t3 = max_rows t"
    if "set_next_pc (t2\<lparr>next_statement_line := l\<rparr>) = Some (r, t3)" "trace_rows t2 \<and> max_rows t2 = max_rows t" for t2 l r t3
    using same_rows_inv[OF _ same_rows_trans[OF update_rows(1) set_next_pc_rows[OF that(1)]]] that(2) by auto
  show ?thesis
    using assms by (auto simp: advance_def Let_def bind_eq_Some_conv split: if_splits dest: grow stop)
qed

interpretation rows: exec_invariant F "rows_inv limit"
proof
  fix e :: executor and t v n c nxt
  assume e: "rows_inv limit e"
  show "set_col F (proc e) c v = Some t \<Longrightarrow> rows_inv limit (e\<lparr>proc := t\<rparr>)"
    using e same_rows_inv set_col_rows by (auto simp: rows_inv_def)
  show "set_pc F (proc e) v = Some t \<Longrightarrow> rows_inv limit (e\<lparr>proc := t\<rparr>)"
    using e same_rows_inv same_rows_trans[OF update_rows(1) set_reg_idx_rows]
    by (auto simp: rows_inv_def set_pc_def bind_eq_Some_conv)
  show "set_reg F (proc e) n v = Some t \<Longrightarrow> rows_inv limit (e\<lparr>proc := t\<rparr>)"
    using e same_rows_inv set_reg_idx_rows by (auto simp: rows_inv_def set_reg_def bind_eq_Some_conv)
  show "advance F (proc e) = Some (nxt, t) \<Longrightarrow> rows_inv limit (e\<lparr>proc := t\<rparr>)"
    using e advance_rows by (auto simp: rows_inv_def)
qed (auto simp: rows_inv_def trace_rows_def trace_cols_def Let_def backup_reg_mem_def set_reg_mem_def call_submachine_def
    submachine_op_def mem_write_def mem_read_def set_mem_def get_mem_def)

section \<open>The memory\<close>

text \<open>Addresses and values of the memory are 32-bit words.\<close>

definition mem_typed :: "executor \<Rightarrow> bool" where
  "mem_typed e \<longleftrightarrow> (\<forall>a v. tb_mem (proc e) a = Some v \<longrightarrow> in_u32 a \<and> in_u32 v)"

text \<open>The calls into the memory machine as its operations, and the memory they describe.\<close>

definition call_op :: "submachine_call \<Rightarrow> mem_op" where
  "call_op c = (case lookup_args c of (w, a, s, v) \<Rightarrow>
     \<lparr> mop_addr = a, mop_step = s, mop_value = v, mop_write = w, mop_selector = 0 \<rparr>)"

definition mem_log :: "executor \<Rightarrow> mem_op list" where
  "mem_log e = map call_op (submachine_ops (tb_trace (proc e)) M_memory)"

definition replay :: "mem_op list \<Rightarrow> int \<Rightarrow> int" where
  "replay ops = fold (\<lambda>op M. M(mop_addr op := mop_value op)) ops (\<lambda>_. 0)"

definition word_at :: "executor \<Rightarrow> int \<Rightarrow> int" where
  "word_at e a = (case tb_mem (proc e) a of Some v \<Rightarrow> v | None \<Rightarrow> 0)"

text \<open>In the witness mode, the log is a consistent history of reads and writes, and it describes the
  memory.\<close>

definition mem_inv :: "field_desc \<Rightarrow> executor \<Rightarrow> bool" where
  "mem_inv F e \<longleftrightarrow> mem_typed e \<and> (2 ^ 32 \<le> modulus F \<longrightarrow> tb_mode (proc e) = Witness \<longrightarrow>
     mem_consistent (\<lambda>_. 0) (mem_log e) \<and> replay (mem_log e) = word_at e \<and>
     (\<forall>op \<in> set (mem_log e). in_u32 (mop_addr op) \<and> mop_write op \<in> {0, 1}))"

lemma mem_consistent_snoc:
  "mem_consistent M (ops @ [op]) \<longleftrightarrow> mem_consistent M ops \<and>
     (mop_write op = 0 \<longrightarrow> mop_value op = fold (\<lambda>op M. M(mop_addr op := mop_value op)) ops M (mop_addr op))"
  by (induction ops arbitrary: M) simp_all

text \<open>Everything but memory accesses leaves the memory and its log alone.\<close>

definition same_mem :: "trace_builder \<Rightarrow> trace_builder \<Rightarrow> bool" where
  "same_mem t t' \<longleftrightarrow> tb_mem t' = tb_mem t \<and> tb_mode t' = tb_mode t \<and>
     submachine_ops (tb_trace t') M_memory = submachine_ops (tb_trace t) M_memory"

lemma same_mem_trans: "same_mem t t' \<Longrightarrow> same_mem t' t'' \<Longrightarrow> same_mem t t''"
  by (simp add: same_mem_def)

lemma same_mem_inv: "mem_inv F e \<Longrightarrow> same_mem (proc e) (proc e') \<Longrightarrow> mem_inv F e'"
  by (simp add: mem_inv_def mem_typed_def mem_log_def word_at_def[abs_def] same_mem_def)

lemma set_col_mem: "set_col F t c v = Some t' \<Longrightarrow> same_mem t t'"
  by (auto simp: set_col_def same_mem_def split: bind_splits if_splits)

lemma set_reg_idx_mem: "set_reg_idx F t i v = Some t' \<Longrightarrow> same_mem t t'"
  by (auto simp: set_reg_idx_def same_mem_def split: bind_splits if_splits)

lemma set_next_pc_mem: "set_next_pc t = Some (r, t') \<Longrightarrow> same_mem t t'"
  by (auto simp: set_next_pc_def same_mem_def split: bind_splits if_splits option.splits)

lemma push_row_mem: "push_row t pc = Some t' \<Longrightarrow> same_mem t t'"
  by (auto simp: push_row_def same_mem_def Let_def split: bind_splits if_splits)

lemma update_mem:
  "same_mem t (t\<lparr>next_statement_line := l\<rparr>)" "same_mem t (t\<lparr>curr_pc := p\<rparr>)"
  "same_mem t (t\<lparr>tb_trace := (tb_trace t)\<lparr>tr_len := n\<rparr>\<rparr>)" "same_mem t (backup_reg_mem t)" "same_mem t (set_reg_mem t r v)"
  "m \<noteq> M_memory \<Longrightarrow> same_mem t (submachine_op t m i args ext)"
  by (simp_all add: same_mem_def backup_reg_mem_def set_reg_mem_def submachine_op_def Let_def)

lemma advance_mem:
  assumes "advance F t = Some (r, t')"
  shows "same_mem t t'"
proof -
  have grow: "same_mem t (t3\<lparr>curr_pc := p\<rparr>)"
    if "set_col F (t\<lparr>tb_trace := (tb_trace t)\<lparr>tr_len := n\<rparr>\<rparr>) c v = Some t2" "push_row t2 pc = Some t3" for n c v t2 pc t3 p
    using same_mem_trans[OF same_mem_trans[OF same_mem_trans[OF update_mem(3) set_col_mem[OF that(1)]]
        push_row_mem[OF that(2)]] update_mem(2)] .
  have stop: "same_mem t t3" if "set_next_pc (t2\<lparr>next_statement_line := l\<rparr>) = Some (r, t3)" "same_mem t t2" for t2 l r t3
    using same_mem_trans[OF that(2) same_mem_trans[OF update_mem(1) set_next_pc_mem[OF that(1)]]] .
  have "same_mem t t" by (simp add: same_mem_def)
  then show ?thesis
    using assms by (auto simp: advance_def Let_def bind_eq_Some_conv split: if_splits dest: grow stop)
qed

lemma mem_write_inv:
  assumes "mem_inv F e" "in_u32 a" "in_u32 w"
  shows "mem_inv F (mem_write F e a w s l)"
proof -
  let ?e = "mem_write F e a w s l"
  have m: "tb_mem (proc ?e) = (tb_mem (proc e))(a \<mapsto> w)" "tb_mode (proc ?e) = tb_mode (proc e)"
    by (simp_all add: mem_write_def set_mem_def submachine_op_def Let_def)
  have log: "mem_log ?e = mem_log e @ [\<lparr> mop_addr = fe_from F a, mop_step = fe_from F s, mop_value = fe_from F w,
      mop_write = fe_from F 1, mop_selector = 0 \<rparr>]" if "tb_mode (proc e) = Witness"
    using that by (simp add: mem_log_def mem_write_def set_mem_def submachine_op_def Let_def call_op_def)
  have "fe_from F a = a" "fe_from F w = w" "fe_from F 1 = 1" if "2 ^ 32 \<le> modulus F"
    using assms(2,3) that by (simp_all add: fe_from_u32)
  then show ?thesis
    using assms m log by (auto simp: mem_inv_def mem_typed_def word_at_def[abs_def] mem_consistent_snoc replay_def)
qed

lemma mem_read_inv:
  assumes "mem_inv F e" "in_u32 a"
  shows "mem_inv F (snd (mem_read F e a s l))"
proof -
  let ?e = "snd (mem_read F e a s l)"
  have m: "tb_mem (proc ?e) = tb_mem (proc e)" "tb_mode (proc ?e) = tb_mode (proc e)"
    by (simp_all add: mem_read_def get_mem_def submachine_op_def Let_def)
  have log: "mem_log ?e = mem_log e @ [\<lparr> mop_addr = fe_from F a, mop_step = fe_from F s, mop_value = fe_from F (word_at e a),
      mop_write = fe_from F 0, mop_selector = 0 \<rparr>]" if "tb_mode (proc e) = Witness"
    using that by (simp add: mem_log_def mem_read_def get_mem_def submachine_op_def Let_def call_op_def word_at_def)
  have "in_u32 (word_at e a)" using assms(1) by (auto simp: mem_inv_def mem_typed_def word_at_def split: option.split)
  then have "fe_from F a = a" "fe_from F (word_at e a) = word_at e a" if "2 ^ 32 \<le> modulus F"
    using assms(2) that by (simp_all add: fe_from_u32)
  moreover have "word_at ?e = word_at e" by (simp add: word_at_def[abs_def] m)
  ultimately show ?thesis
    using assms m log by (auto simp: mem_inv_def mem_typed_def mem_consistent_snoc replay_def fun_upd_idem_iff)
qed

text \<open>What depends on the memory, its log and the mode alone is kept by everything else, so that only
  the accesses of the memory remain to be checked.\<close>

locale memory_invariant =
  fixes F :: field_desc and I :: "executor \<Rightarrow> bool"
  assumes same_keeps: "I e \<Longrightarrow> same_mem (proc e) (proc e') \<Longrightarrow> I e'"
    and write_keeps: "I e \<Longrightarrow> in_u32 a \<Longrightarrow> in_u32 w \<Longrightarrow> I (mem_write F e a w s l)"
    and read_keeps: "I e \<Longrightarrow> in_u32 a \<Longrightarrow> I (snd (mem_read F e a s l))"

sublocale memory_invariant \<subseteq> exec_invariant F I
proof
  fix e :: executor and t v n c nxt m l args ext r
  assume e: "I e"
  have proc: "I (e\<lparr>proc := t\<rparr>)" if "same_mem (proc e) t" for t
    using same_keeps[OF e, of "e\<lparr>proc := t\<rparr>"] that by simp
  show "set_col F (proc e) c v = Some t \<Longrightarrow> I (e\<lparr>proc := t\<rparr>)"
    using proc[OF set_col_mem] .
  show "set_pc F (proc e) v = Some t \<Longrightarrow> I (e\<lparr>proc := t\<rparr>)"
    using proc[OF same_mem_trans[OF update_mem(1) set_reg_idx_mem]] by (auto simp: set_pc_def bind_eq_Some_conv)
  show "set_reg F (proc e) n v = Some t \<Longrightarrow> I (e\<lparr>proc := t\<rparr>)"
    using proc[OF set_reg_idx_mem] by (auto simp: set_reg_def bind_eq_Some_conv)
  show "advance F (proc e) = Some (nxt, t) \<Longrightarrow> I (e\<lparr>proc := t\<rparr>)"
    using proc[OF advance_mem] .
  show "I (e\<lparr>proc := backup_reg_mem (proc e)\<rparr>)" "I (e\<lparr>proc := set_reg_mem (proc e) r v\<rparr>)"
    using proc[OF update_mem(4)] proc[OF update_mem(5)] by blast+
  show "m \<noteq> M_memory \<Longrightarrow> I (call_submachine e m l args ext)"
    using proc[OF update_mem(6)] by (simp add: call_submachine_def)
qed (rule same_keeps write_keeps read_keeps; simp add: same_mem_def)+

interpretation mem: memory_invariant F "mem_inv F"
  by unfold_locales (simp_all add: mem_write_inv mem_read_inv same_mem_inv)

interpretation typed: memory_invariant F mem_typed
  by unfold_locales
    (auto simp: mem_typed_def same_mem_def mem_write_def mem_read_def set_mem_def get_mem_def submachine_op_def Let_def
      split: if_splits)

interpretation mode: memory_invariant F "\<lambda>e. tb_mode (proc e) = m"
  by unfold_locales
    (auto simp: same_mem_def mem_write_def mem_read_def set_mem_def get_mem_def submachine_op_def Let_def)

end
