(* ===== verification/Riscv_Poseidon_Machine.thy ===== *)
theory Riscv_Poseidon_Machine
  imports Riscv_Kinds Riscv_Blocks Riscv_Semantics
begin

text \<open>
  The Poseidon machine of \<open>riscv-executor/src/submachines.rs\<close>, a block machine with 31 rows per
  permutation and 58 columns. Unlike the other machines it has a fix for its dummy blocks, it takes
  the input and the output of the permutation as extra arguments, its selectors are set in the whole
  block, and the last dummy block is cut off at the degree. The theorem at the end of this theory
  states the constraints of \<open>std/machines/hash/poseidon_gl_memory.asm\<close> for the finished table.
\<close>

section \<open>The machine\<close>

text \<open>The columns; those of an array follow its first column.\<close>

datatype poseidon_cols = Pos_time_step | Pos_do_mload | Pos_word_low | Pos_word_high | Pos_input_addr
  | Pos_output_addr | Pos_input_0 | Pos_output_0 | Pos_state_0 | Pos_x3_0 | Pos_x7_0

primrec pos_idx :: "poseidon_cols \<Rightarrow> nat" where
  "pos_idx Pos_time_step = 0"
| "pos_idx Pos_do_mload = 1"
| "pos_idx Pos_word_low = 2"
| "pos_idx Pos_word_high = 3"
| "pos_idx Pos_input_addr = 4"
| "pos_idx Pos_output_addr = 5"
| "pos_idx Pos_input_0 = 6"
| "pos_idx Pos_output_0 = 18"
| "pos_idx Pos_state_0 = 22"
| "pos_idx Pos_x3_0 = 34"
| "pos_idx Pos_x7_0 = 46"

definition poseidon_col_names :: "string list" where
  "poseidon_col_names = [''time_step'', ''do_mload'', ''word_low'', ''word_high'', ''input_addr'', ''output_addr'',
     ''input[0]'', ''input[1]'', ''input[2]'', ''input[3]'', ''input[4]'', ''input[5]'',
     ''input[6]'', ''input[7]'', ''input[8]'', ''input[9]'', ''input[10]'', ''input[11]'',
     ''output[0]'', ''output[1]'', ''output[2]'', ''output[3]'',
     ''state[0]'', ''state[1]'', ''state[2]'', ''state[3]'', ''state[4]'', ''state[5]'',
     ''state[6]'', ''state[7]'', ''state[8]'', ''state[9]'', ''state[10]'', ''state[11]'',
     ''x3[0]'', ''x3[1]'', ''x3[2]'', ''x3[3]'', ''x3[4]'', ''x3[5]'',
     ''x3[6]'', ''x3[7]'', ''x3[8]'', ''x3[9]'', ''x3[10]'', ''x3[11]'',
     ''x7[0]'', ''x7[1]'', ''x7[2]'', ''x7[3]'', ''x7[4]'', ''x7[5]'',
     ''x7[6]'', ''x7[7]'', ''x7[8]'', ''x7[9]'', ''x7[10]'', ''x7[11]'']"

text \<open>Values for the columns of an array, and the S-box.\<close>

definition array_cells :: "nat \<Rightarrow> int list \<Rightarrow> (nat \<times> int) list" where
  "array_cells base xs = map (\<lambda>i. (base + i, xs ! i)) [0..<length xs]"

definition sbox3 :: "field_desc \<Rightarrow> int \<Rightarrow> int" where
  "sbox3 F a = fe_pow F a 3"

definition sbox7 :: "field_desc \<Rightarrow> int \<Rightarrow> int" where
  "sbox7 F a = fe_mul F (fe_pow F (sbox3 F a) 2) a"

definition poseidon_words :: "int \<Rightarrow> (int \<times> int) option" where
  "poseidon_words x = do {
     v \<leftarrow> check_u64 x;
     Some (v AND 0xffffffff, as_u32 (drop_bit 32 v))
   }"

text \<open>The memory columns of a row: \<open>do_mload\<close> and the two words.\<close>

definition poseidon_mem :: "field_desc \<Rightarrow> int list \<Rightarrow> int list \<Rightarrow> nat \<Rightarrow> (int \<times> int \<times> int) option" where
  "poseidon_mem F input output row =
     (if row < 12 then do {
        (lo, hi) \<leftarrow> poseidon_words (input ! row);
        Some (1, fe_from F lo, fe_from F hi)
      }
      else if row < 16 then do {
        (lo, hi) \<leftarrow> poseidon_words (output ! (row - 12));
        Some (0, fe_from F lo, fe_from F hi)
      }
      else Some (0, 0, 0))"

definition add_constants :: "field_desc \<Rightarrow> nat \<Rightarrow> int list \<Rightarrow> int list" where
  "add_constants F row state =
     map (\<lambda>i. fe_add F (state ! i) (fe_from F (ROUND_CONSTANTS ! i ! row))) [0..<12]"

definition after_sbox :: "field_desc \<Rightarrow> nat \<Rightarrow> int list \<Rightarrow> int list" where
  "after_sbox F row a = map (\<lambda>i. if i = 0 \<or> is_full_round row then sbox7 F (a ! i) else a ! i) [0..<12]"

fun poseidon_rounds ::
  "field_desc \<Rightarrow> submachine_trace \<Rightarrow> int list \<Rightarrow> int list \<Rightarrow> int list \<Rightarrow> nat list
     \<Rightarrow> (submachine_trace \<times> int list) option" where
  "poseidon_rounds F t input output state [] = Some (t, state)"
| "poseidon_rounds F t input output state (row # rows) = do {
     (mload, lo, hi) \<leftarrow> poseidon_mem F input output row;
     let a = add_constants F row state;
     t \<leftarrow> add_row t (array_cells (pos_idx Pos_state_0) state
       @ [(pos_idx Pos_do_mload, mload), (pos_idx Pos_word_low, lo), (pos_idx Pos_word_high, hi)]
       @ array_cells (pos_idx Pos_x3_0) (map (sbox3 F) a) @ array_cells (pos_idx Pos_x7_0) (map (sbox7 F) a));
     poseidon_rounds F t input output (mds_multiply F (after_sbox F row a)) rows
   }"

fun set_block_cols :: "submachine_trace \<Rightarrow> nat \<Rightarrow> (nat \<times> int) list \<Rightarrow> submachine_trace option" where
  "set_block_cols t sz [] = Some t"
| "set_block_cols t sz ((c, v) # cvs) = set_current_block t sz c v \<bind> (\<lambda>t. set_block_cols t sz cvs)"

definition poseidon_gl_add_operation ::
  "field_desc \<Rightarrow> submachine_trace \<Rightarrow> string option \<Rightarrow> lookup_arguments \<Rightarrow> int list
     \<Rightarrow> submachine_trace option" where
  "poseidon_gl_add_operation F t sel_opt args extra = do {
     sel \<leftarrow> sel_opt;
     let sel = only_column_name sel;
     let (input_addr, output_addr, time_step, _) = args;
     rust_assert (12 + 4 \<le> length extra);
     let input = take 12 extra;
     let output = take 4 (drop 12 extra);
     (t, state) \<leftarrow> poseidon_rounds F t input output input [0..<30];
     t \<leftarrow> add_row t (array_cells (pos_idx Pos_x3_0) (map (sbox3 F) state)
       @ array_cells (pos_idx Pos_x7_0) (map (sbox7 F) state) @ array_cells (pos_idx Pos_state_0) state);
     t \<leftarrow> set_block_cols t 31 [(pos_idx Pos_time_step, time_step), (pos_idx Pos_input_addr, input_addr),
       (pos_idx Pos_output_addr, output_addr)];
     t \<leftarrow> set_current_block_selector t 31 sel 1;
     t \<leftarrow> set_block_cols t 31 (array_cells (pos_idx Pos_input_0) input);
     set_block_cols t 31 (array_cells (pos_idx Pos_output_0) (take 4 state))
   }"

definition poseidon_gl_dummy_block_fix :: "submachine_trace \<Rightarrow> nat \<Rightarrow> submachine_trace option" where
  "poseidon_gl_dummy_block_fix t rows = set_current_block t rows (pos_idx Pos_do_mload) 0"

definition PoseidonGlMachine :: "field_desc \<Rightarrow> submachine_kind" where
  "PoseidonGlMachine F = \<lparr> SELECTORS = ''sel'', BLOCK_SIZE = 31, kind_cols = poseidon_col_names,
     kind_add_operation = poseidon_gl_add_operation F, dummy_block_fix = poseidon_gl_dummy_block_fix \<rparr>"

text \<open>Operations with extra arguments, and the whole life of a submachine that takes them.\<close>

type_synonym submachine_operation = "string option \<times> lookup_arguments \<times> int list"

fun add_operations_extra ::
  "submachine_kind \<Rightarrow> submachine_trace \<Rightarrow> submachine_operation list \<Rightarrow> submachine_trace option" where
  "add_operations_extra K t [] = Some t"
| "add_operations_extra K t ((sel, args, extra) # ops) =
     kind_add_operation K t sel args extra \<bind> (\<lambda>t. add_operations_extra K t ops)"

definition run_submachine_extra ::
  "submachine_kind \<Rightarrow> submachine_trace \<Rightarrow> submachine_operation list \<Rightarrow> nat \<Rightarrow> (string \<times> int list) list option" where
  "run_submachine_extra K t ops degree = add_operations_extra K t ops \<bind> (\<lambda>t. submachine_finish K t degree)"

section \<open>Rows\<close>

definition pos_row ::
  "int list \<Rightarrow> int list \<Rightarrow> int list \<Rightarrow> int list \<Rightarrow> int list \<Rightarrow> int list \<Rightarrow> int list" where
  "pos_row hdr input output state x3 x7 = hdr @ input @ output @ state @ x3 @ x7"

lemma apply_row_append: "apply_row (xs @ ys) r = apply_row ys (apply_row xs r)"
  by (simp add: apply_row_def)

lemma array_cells_snoc: "array_cells b (xs @ [x]) = array_cells b xs @ [(b + length xs, x)]"
  by (auto simp: array_cells_def nth_append)

lemma apply_array:
  "length pre = b \<Longrightarrow> length ys = length xs \<Longrightarrow>
     apply_row (array_cells b xs) (pre @ ys @ post) = pre @ xs @ post"
proof (induction xs arbitrary: ys post rule: rev_induct)
  case (snoc x xs)
  then obtain zs z where "ys = zs @ [z]" "length zs = length xs" by (cases ys rule: rev_cases) auto
  with snoc show ?case by (simp add: array_cells_snoc apply_row_append list_update_append)
qed (simp add: array_cells_def)

lemma array_cells_bound: "c \<in> fst ` set (array_cells b xs) \<Longrightarrow> c < b + length xs"
  by (auto simp: array_cells_def)

lemma array_cells_le: "b + length xs \<le> n \<Longrightarrow> \<forall>c \<in> fst ` set (array_cells b xs). c < n"
  by (auto simp: array_cells_def)

lemma replicate_58:
  "replicate 58 (0::int) = replicate 6 0 @ replicate 12 0 @ replicate 4 0 @ replicate 12 0 @ replicate 12 0 @ replicate 12 0"
  by (simp flip: replicate_add)

text \<open>The array columns of a row are written one after the other.\<close>

lemma apply_pos_arrays:
  assumes "length hdr = 6" "length i = 12" "length ou = 4" "length s = 12" "length x3 = 12" "length x7 = 12"
  shows "length xs = 12 \<Longrightarrow> apply_row (array_cells 6 xs) (pos_row hdr i ou s x3 x7) = pos_row hdr xs ou s x3 x7"
    and "length xs = 4 \<Longrightarrow> apply_row (array_cells 18 xs) (pos_row hdr i ou s x3 x7) = pos_row hdr i xs s x3 x7"
    and "length xs = 12 \<Longrightarrow> apply_row (array_cells 22 xs) (pos_row hdr i ou s x3 x7) = pos_row hdr i ou xs x3 x7"
    and "length xs = 12 \<Longrightarrow> apply_row (array_cells 34 xs) (pos_row hdr i ou s x3 x7) = pos_row hdr i ou s xs x7"
    and "length xs = 12 \<Longrightarrow> apply_row (array_cells 46 xs) (pos_row hdr i ou s x3 x7) = pos_row hdr i ou s x3 xs"
  using assms apply_array[of hdr 6 i xs "ou @ s @ x3 @ x7"] apply_array[of "hdr @ i" 18 ou xs "s @ x3 @ x7"]
    apply_array[of "hdr @ i @ ou" 22 s xs "x3 @ x7"] apply_array[of "hdr @ i @ ou @ s" 34 x3 xs x7]
    apply_array[of "hdr @ i @ ou @ s @ x3" 46 x7 xs "[]"]
  by (simp_all add: pos_row_def)

lemma pos_row_update:
  "c < length hdr \<Longrightarrow> (pos_row hdr i ou s x3 x7)[c := v] = pos_row (hdr[c := v]) i ou s x3 x7"
  by (simp add: pos_row_def list_update_append)

lemma length_pos_row:
  "length hdr = 6 \<Longrightarrow> length i = 12 \<Longrightarrow> length ou = 4 \<Longrightarrow> length s = 12 \<Longrightarrow> length x3 = 12 \<Longrightarrow> length x7 = 12 \<Longrightarrow>
     length (pos_row hdr i ou s x3 x7) = 58"
  by (simp add: pos_row_def)

lemma replicate_pos_row:
  "replicate 58 (0::int) = pos_row (replicate 6 0) (replicate 12 0) (replicate 4 0) (replicate 12 0)
     (replicate 12 0) (replicate 12 0)"
  unfolding replicate_58 pos_row_def ..

lemma pos_row_nth:
  assumes "length hdr = 6" "length i = 12" "length ou = 4" "length s = 12" "length x3 = 12" "length x7 = 12"
  shows "k < 6 \<Longrightarrow> pos_row hdr i ou s x3 x7 ! k = hdr ! k"
    and "k < 12 \<Longrightarrow> pos_row hdr i ou s x3 x7 ! (6 + k) = i ! k"
    and "k < 4 \<Longrightarrow> pos_row hdr i ou s x3 x7 ! (18 + k) = ou ! k"
    and "k < 12 \<Longrightarrow> pos_row hdr i ou s x3 x7 ! (22 + k) = s ! k"
    and "k < 12 \<Longrightarrow> pos_row hdr i ou s x3 x7 ! (34 + k) = x3 ! k"
    and "k < 12 \<Longrightarrow> pos_row hdr i ou s x3 x7 ! (46 + k) = x7 ! k"
  using assms by (simp_all add: pos_row_def nth_append)

section \<open>Updates of a block\<close>

lemma set_block_rows_view:
  assumes "fits t n (length R)" "rows_ok n R" "c < n" "\<forall>i \<in> set is. i < length R"
  shows "set_block_rows (view t R S ov) c is v
    = Some (view t (map (\<lambda>k. if length R - 1 - k \<in> set is then (R ! k)[c := v] else R ! k) [0..<length R]) S ov)"
  using assms
proof (induction "is" arbitrary: R)
  case Nil
  then show ?case by (simp add: map_nth)
next
  case (Cons i "is")
  define l where "l = length R - i - 1"
  let ?R = "R[l := (R ! l)[c := v]]"
  have l: "l < length R" "length R - 1 - l = i" using Cons.prems(4) by (auto simp: l_def)
  have ok: "rows_ok n ?R" using Cons.prems(2) l(1) by (auto simp: rows_ok_def dest!: set_update_subset_insert[THEN subsetD])
  have "set_block_rows (view t R S ov) c (i # is) v = set_block_rows (view t ?R S ov) c is v"
    using Cons.prems sub_len_view[OF Cons.prems(1,2)] set_row_value_view[OF Cons.prems(1,2) l(1) Cons.prems(3)]
    by (simp add: l_def)
  also have "\<dots> = Some (view t (map (\<lambda>k. if length ?R - 1 - k \<in> set is then (?R ! k)[c := v] else ?R ! k) [0..<length ?R]) S ov)"
    using Cons.prems ok by (intro Cons.IH) simp_all
  also have "map (\<lambda>k. if length ?R - 1 - k \<in> set is then (?R ! k)[c := v] else ?R ! k) [0..<length ?R]
      = map (\<lambda>k. if length R - 1 - k \<in> set (i # is) then (R ! k)[c := v] else R ! k) [0..<length R]"
  proof (rule map_cong)
    fix k assume "k \<in> set [0..<length R]"
    then have "length R - 1 - k = i \<longleftrightarrow> k = l" using l by auto
    then show "(if length ?R - 1 - k \<in> set is then (?R ! k)[c := v] else ?R ! k)
        = (if length R - 1 - k \<in> set (i # is) then (R ! k)[c := v] else R ! k)"
      using l(1) by (cases "k = l") auto
  qed simp
  finally show ?case .
qed

lemma set_current_block_view:
  assumes "fits t n (length (R @ B))" "rows_ok n (R @ B)" "c < n"
  shows "set_current_block (view t (R @ B) S ov) (length B) c v = Some (view t (R @ map (\<lambda>r. r[c := v]) B) S ov)"
proof -
  have "map (\<lambda>k. if length (R @ B) - 1 - k \<in> set [0..<length B] then ((R @ B) ! k)[c := v] else (R @ B) ! k) [0..<length (R @ B)]
      = R @ map (\<lambda>r. r[c := v]) B"
    by (rule nth_equalityI) (auto simp: nth_append)
  then show ?thesis
    using set_block_rows_view[OF assms, of "[0..<length B]"] by (simp add: set_current_block_def)
qed

lemma set_block_cols_view:
  "fits t n (length (R @ B)) \<Longrightarrow> rows_ok n (R @ B) \<Longrightarrow> \<forall>c \<in> fst ` set cvs. c < n \<Longrightarrow> b = length B \<Longrightarrow>
     set_block_cols (view t (R @ B) S ov) b cvs = Some (view t (R @ map (apply_row cvs) B) S ov)"
proof (induction cvs arbitrary: B)
  case (Cons cv cvs)
  obtain c v where cv: "cv = (c, v)" by (cases cv)
  have "set_block_cols (view t (R @ map (\<lambda>r. r[c := v]) B) S ov) b cvs
      = Some (view t (R @ map (apply_row cvs) (map (\<lambda>r. r[c := v]) B)) S ov)"
    using Cons.prems by (intro Cons.IH) (auto simp: rows_ok_def)
  then show ?case
    using Cons.prems set_current_block_view[OF Cons.prems(1,2), of c] by (simp add: cv o_def)
qed (simp add: map_idI)

lemma set_selector_value_view:
  "k \<in> set names \<Longrightarrow> distinct names \<Longrightarrow> i < length (G k) \<Longrightarrow>
     set_selector_value (view t R (sels names G) ov) k i v = Some (view t R (sels names (G(k := (G k)[i := v]))) ov)"
  by (simp add: set_selector_value_def sels_simps vec_set_def view_def)

lemma set_block_selectors_view:
  assumes "fits t n l" "rows_ok n R" "length R = l" "k \<in> set names" "distinct names"
  shows "length (G k) = l \<Longrightarrow> \<forall>i \<in> set is. i < l \<Longrightarrow>
    set_block_selectors (view t R (sels names G) ov) k is v
    = Some (view t R (sels names (G(k := map (\<lambda>j. if l - 1 - j \<in> set is then v else G k ! j) [0..<l]))) ov)"
proof (induction "is" arbitrary: G)
  case Nil
  then show ?case using map_nth[of "G k"] by simp
next
  case (Cons i "is")
  define g where "g = (G k)[l - i - 1 := v]"
  have length_g: "length g = l" using Cons.prems(1) by (simp add: g_def)
  have i: "i < l" using Cons.prems(2) by simp
  have "set_block_selectors (view t R (sels names G) ov) k (i # is) v
      = set_block_selectors (view t R (sels names (G(k := g))) ov) k is v"
    using Cons.prems sub_len_view[of t n R] assms i
    by (simp add: set_selector_value_view g_def Suc_le_eq)
  also have "\<dots> = Some (view t R (sels names ((G(k := g))(k := map (\<lambda>j. if l - 1 - j \<in> set is then v else g ! j) [0..<l]))) ov)"
    using Cons.prems Cons.IH[of "G(k := g)"]
    by (simp add: fun_upd_same[of G k g] length_g del: fun_upd_apply cong: if_cong)
  also have "map (\<lambda>j. if l - 1 - j \<in> set is then v else g ! j) [0..<l]
      = map (\<lambda>j. if l - 1 - j \<in> set (i # is) then v else G k ! j) [0..<l]"
  proof (rule map_cong)
    fix j assume "j \<in> set [0..<l]"
    then have "l - 1 - j = i \<longleftrightarrow> j = l - i - 1" using i by auto
    then show "(if l - 1 - j \<in> set is then v else g ! j) = (if l - 1 - j \<in> set (i # is) then v else G k ! j)"
      using Cons.prems(1) i by (cases "j = l - i - 1") (auto simp: g_def)
  qed simp
  finally show ?case by (simp only: fun_upd_upd)
qed

lemma set_current_block_selector_view:
  assumes "fits t n (length R)" "rows_ok n R" "k \<in> set names" "distinct names"
    and "G k = g @ h" "length (G k) = length R" "b = length h"
  shows "set_current_block_selector (view t R (sels names G) ov) b k v
    = Some (view t R (sels names (G(k := g @ replicate b v))) ov)"
proof -
  have "map (\<lambda>j. if length R - 1 - j \<in> set [0..<b] then v else G k ! j) [0..<length R] = g @ replicate b v"
    using assms(5-7) by (intro nth_equalityI) (auto simp: nth_append)
  then show ?thesis
    using set_block_selectors_view[of t n "length R" R k names G "[0..<b]" ov v] assms
    by (simp add: set_current_block_selector_def)
qed

section \<open>The block of an operation\<close>

text \<open>A value below \<open>2 ^ 64\<close> and its two words.\<close>

definition word_pair :: "int \<Rightarrow> int \<times> int" where
  "word_pair v = (v mod 2 ^ 32, v div 2 ^ 32)"

lemma poseidon_words_eq: "0 \<le> v \<Longrightarrow> v < 2 ^ 64 \<Longrightarrow> poseidon_words v = Some (word_pair v)"
  using take_bit_eq_mask[of 32 v]
  by (simp add: poseidon_words_def check_u64_def word_pair_def as_u32_def drop_bit_eq_div take_bit_eq_mod
      mask_eq_exp_minus_1)

definition pos_mem :: "int list \<Rightarrow> int list \<Rightarrow> nat \<Rightarrow> int list" where
  "pos_mem input output k =
     (if k < 12 then 1 # [fst (word_pair (input ! k)), snd (word_pair (input ! k))]
      else if k < 16 then 0 # [fst (word_pair (output ! (k - 12))), snd (word_pair (output ! (k - 12)))]
      else [0, 0, 0])"

definition pos_state :: "field_desc \<Rightarrow> int list \<Rightarrow> nat \<Rightarrow> int list" where
  "pos_state F input k = fold (poseidon_round F) [0..<k] input"

definition pos_a :: "field_desc \<Rightarrow> int list \<Rightarrow> nat \<Rightarrow> int list" where
  "pos_a F input k = (if k < 30 then add_constants F k (pos_state F input k) else pos_state F input k)"

text \<open>The rows of the block before the columns of the whole block are set, and after.\<close>

definition raw_row :: "field_desc \<Rightarrow> int list \<Rightarrow> int list \<Rightarrow> nat \<Rightarrow> int list" where
  "raw_row F input output k = pos_row ([0] @ pos_mem input output k @ [0, 0]) (replicate 12 0) (replicate 4 0)
     (pos_state F input k) (map (sbox3 F) (pos_a F input k)) (map (sbox7 F) (pos_a F input k))"

definition block_row :: "field_desc \<Rightarrow> lookup_arguments \<Rightarrow> int list \<Rightarrow> nat \<Rightarrow> int list" where
  "block_row F args extra k = (case args of (ia, oa, ts, _) \<Rightarrow>
     pos_row ([ts] @ pos_mem (take 12 extra) (take 4 (drop 12 extra)) k @ [ia, oa]) (take 12 extra)
       (take 4 (pos_state F (take 12 extra) 30)) (pos_state F (take 12 extra) k)
       (map (sbox3 F) (pos_a F (take 12 extra) k)) (map (sbox7 F) (pos_a F (take 12 extra) k)))"

definition pos_block :: "field_desc \<Rightarrow> lookup_arguments \<Rightarrow> int list \<Rightarrow> int list list" where
  "pos_block F args extra = map (block_row F args extra) [0..<31]"

lemma length_pos_mem [simp]: "length (pos_mem i ou k) = 3"
  by (simp add: pos_mem_def)

lemma length_pos_state [simp]: "length input = 12 \<Longrightarrow> length (pos_state F input k) = 12"
  by (cases k) (simp_all add: pos_state_def)

lemma length_pos_a [simp]: "length input = 12 \<Longrightarrow> length (pos_a F input k) = 12"
  by (simp add: pos_a_def add_constants_def)

lemma pos_state_Suc: "pos_state F input (Suc k) = poseidon_round F k (pos_state F input k)"
  by (simp add: pos_state_def)

lemma poseidon_round_eq:
  assumes "field_element F"
  shows "poseidon_round F k s = mds_multiply F (after_sbox F k (add_constants F k s))"
proof -
  have "map (\<lambda>(i, s). if is_full_round k \<or> i = 0 then fe_pow F s 7 else s) (enumerate 0 (add_constants F k s))
      = after_sbox F k (add_constants F k s)"
    by (rule nth_equalityI)
      (auto simp: after_sbox_def add_constants_def nth_enumerate_eq sbox7_def sbox3_def field_element.sbox_eq[OF assms])
  then show ?thesis by (simp add: poseidon_round_def add_constants_def Let_def)
qed

lemma filled_pos_row:
  assumes "length s = 12" "length x3 = 12" "length x7 = 12"
  shows "filled 58 (array_cells 22 s @ [(1, m), (2, lo), (3, hi)] @ array_cells 34 x3 @ array_cells 46 x7)
      = pos_row [0, m, lo, hi, 0, 0] (replicate 12 0) (replicate 4 0) s x3 x7"
    and "filled 58 (array_cells 34 x3 @ array_cells 46 x7 @ array_cells 22 s)
      = pos_row [0, 0, 0, 0, 0, 0] (replicate 12 0) (replicate 4 0) s x3 x7"
proof -
  have r: "replicate 6 (0::int) = [0, 0, 0, 0, 0, 0]" by (simp add: numeral_nat)
  show "filled 58 (array_cells 22 s @ [(1, m), (2, lo), (3, hi)] @ array_cells 34 x3 @ array_cells 46 x7)
      = pos_row [0, m, lo, hi, 0, 0] (replicate 12 0) (replicate 4 0) s x3 x7"
    unfolding replicate_pos_row r
    using assms by (simp add: apply_row_append apply_pos_arrays pos_row_update numeral_2_eq_2 numeral_3_eq_3)
  show "filled 58 (array_cells 34 x3 @ array_cells 46 x7 @ array_cells 22 s)
      = pos_row [0, 0, 0, 0, 0, 0] (replicate 12 0) (replicate 4 0) s x3 x7"
    unfolding replicate_pos_row r
    using assms by (simp add: apply_row_append apply_pos_arrays)
qed

text \<open>The inputs and outputs of an operation are elements below \<open>2 ^ 64\<close>.\<close>

definition pos_extra_ok :: "field_desc \<Rightarrow> int list \<Rightarrow> bool" where
  "pos_extra_ok F extra \<longleftrightarrow> length extra = 16 \<and> (\<forall>x \<in> set extra. canonical F x) \<and>
     poseidon_gl F (take 12 extra) = Some (drop 12 extra)"

definition big_field :: "field_desc \<Rightarrow> bool" where
  "big_field F \<longleftrightarrow> field_element F \<and> 2 ^ 32 \<le> modulus F \<and> modulus F \<le> 2 ^ 64"

lemma word_pair_bounds:
  "0 \<le> v \<Longrightarrow> v < 2 ^ 64 \<Longrightarrow> in_u32 (fst (word_pair v)) \<and> in_u32 (snd (word_pair v)) \<and>
     fst (word_pair v) + snd (word_pair v) * 2 ^ 32 = v"
  by (auto simp: word_pair_def in_u32_def)

lemma poseidon_mem_eq:
  assumes "big_field F" "pos_extra_ok F extra"
  shows "poseidon_mem F (take 12 extra) (take 4 (drop 12 extra)) k
    = (case pos_mem (take 12 extra) (take 4 (drop 12 extra)) k of [m, lo, hi] \<Rightarrow> Some (m, lo, hi))"
proof -
  have v: "0 \<le> extra ! i \<and> extra ! i < 2 ^ 64" if "i < 16" for i
  proof -
    have "canonical F (extra ! i)" using assms(2) that by (simp add: pos_extra_ok_def)
    with assms(1) show ?thesis by (auto simp: big_field_def canonical_def)
  qed
  have "fe_from F (fst (word_pair (extra ! i))) = fst (word_pair (extra ! i))"
      "fe_from F (snd (word_pair (extra ! i))) = snd (word_pair (extra ! i))" if "i < 16" for i
    using assms(1) word_pair_bounds[of "extra ! i"] v[OF that] by (simp_all add: big_field_def fe_from_u32)
  with v show ?thesis
    using assms(2) by (auto simp: poseidon_mem_def pos_mem_def poseidon_words_eq pos_extra_ok_def split_beta)
qed

lemma add_row_raw:
  assumes "fits t 58 (Suc (length R))" "rows_ok 58 R"
    and "length s = 12" "length x3 = 12" "length x7 = 12"
  shows "add_row (view t R (sels names G) ov)
      (array_cells 22 s @ [(1, m), (2, lo), (3, hi)] @ array_cells 34 x3 @ array_cells 46 x7)
    = Some (view t (R @ [pos_row [0, m, lo, hi, 0, 0] (replicate 12 0) (replicate 4 0) s x3 x7])
        (sels names (\<lambda>k. G k @ [0])) ov)"
    and "add_row (view t R (sels names G) ov) (array_cells 34 x3 @ array_cells 46 x7 @ array_cells 22 s)
    = Some (view t (R @ [pos_row [0, 0, 0, 0, 0, 0] (replicate 12 0) (replicate 4 0) s x3 x7])
        (sels names (\<lambda>k. G k @ [0])) ov)"
proof -
  have "\<forall>c \<in> set (map fst (array_cells 22 s @ [(1, m), (2, lo), (3, hi)] @ array_cells 34 x3 @ array_cells 46 x7)). c < 58"
    using assms(3-5) by (auto dest!: array_cells_bound[OF imageI])
  from add_row_view[OF assms(1,2) this]
  show "add_row (view t R (sels names G) ov)
      (array_cells 22 s @ [(1, m), (2, lo), (3, hi)] @ array_cells 34 x3 @ array_cells 46 x7)
    = Some (view t (R @ [pos_row [0, m, lo, hi, 0, 0] (replicate 12 0) (replicate 4 0) s x3 x7])
        (sels names (\<lambda>k. G k @ [0])) ov)"
    unfolding filled_pos_row[OF assms(3-5)] .
  have "\<forall>c \<in> set (map fst (array_cells 34 x3 @ array_cells 46 x7 @ array_cells 22 s)). c < 58"
    using assms(3-5) by (auto dest!: array_cells_bound[OF imageI])
  from add_row_view[OF assms(1,2) this]
  show "add_row (view t R (sels names G) ov) (array_cells 34 x3 @ array_cells 46 x7 @ array_cells 22 s)
    = Some (view t (R @ [pos_row [0, 0, 0, 0, 0, 0] (replicate 12 0) (replicate 4 0) s x3 x7])
        (sels names (\<lambda>k. G k @ [0])) ov)"
    unfolding filled_pos_row[OF assms(3-5)] .
qed

lemma pos_mem_cases: "\<exists>m lo hi. pos_mem i ou k = [m, lo, hi]"
  by (simp add: pos_mem_def)

lemma length_raw_row: "length input = 12 \<Longrightarrow> length (raw_row F input output k) = 58"
  by (simp add: raw_row_def length_pos_row)

lemma poseidon_rounds_view:
  assumes "big_field F" "pos_extra_ok F extra" and io: "input = take 12 extra" "output = take 4 (drop 12 extra)"
  shows "k \<le> 30 \<Longrightarrow> fits t 58 (length R + (30 - k)) \<Longrightarrow> rows_ok 58 R \<Longrightarrow>
    poseidon_rounds F (view t R (sels names G) ov) input output (pos_state F input k) [k..<30]
      = Some (view t (R @ map (raw_row F input output) [k..<30])
          (sels names (\<lambda>j. G j @ replicate (30 - k) 0)) ov, pos_state F input 30)"
proof (induction "30 - k" arbitrary: k R G)
  case (Suc d)
  have k: "k < 30" using Suc.hyps(2) by simp
  have len: "length input = 12" using assms(2) by (simp add: io pos_extra_ok_def)
  obtain m lo hi where mem: "pos_mem input output k = [m, lo, hi]" using pos_mem_cases by blast
  have fit: "fits t 58 (Suc (length R))" using Suc.prems(2) k by (elim fits_less) simp
  have row: "raw_row F input output k = pos_row [0, m, lo, hi, 0, 0] (replicate 12 0) (replicate 4 0)
      (pos_state F input k) (map (sbox3 F) (pos_a F input k)) (map (sbox7 F) (pos_a F input k))"
    by (simp add: raw_row_def mem)
  have IH: "poseidon_rounds F (view t (R @ [raw_row F input output k]) (sels names (\<lambda>j. G j @ [0])) ov) input output
      (pos_state F input (Suc k)) [Suc k..<30]
      = Some (view t ((R @ [raw_row F input output k]) @ map (raw_row F input output) [Suc k..<30])
          (sels names (\<lambda>j. (G j @ [0]) @ replicate (30 - Suc k) 0)) ov, pos_state F input 30)"
    using Suc.prems(2,3) Suc.hyps(2) k length_raw_row[OF len, of F "output" k]
    by (intro Suc.hyps(1)) (auto elim: fits_less)
  have upt: "[k..<30] = k # [Suc k..<30]" using k by (simp add: upt_conv_Cons)
  have rep: "replicate (30 - k) (0::int) = 0 # replicate (30 - Suc k) 0" using k by (simp add: Suc_diff_Suc flip: replicate_Suc)
  have a: "add_constants F k (pos_state F input k) = pos_a F input k" using k by (simp add: pos_a_def)
  have st: "mds_multiply F (after_sbox F k (pos_a F input k)) = pos_state F input (Suc k)"
    using assms(1) k by (simp add: pos_state_Suc poseidon_round_eq big_field_def pos_a_def)
  have "poseidon_mem F input output k = Some (m, lo, hi)"
    using poseidon_mem_eq[OF assms(1,2), of k] mem by (simp add: io)
  then show ?case
    unfolding upt rep using IH add_row_raw(1)[OF fit Suc.prems(3), of "pos_state F input k"] len
    by (simp add: a st row Let_def)
qed simp

lemma raw_row_block:
  assumes "length extra = 16"
  shows "apply_row (array_cells 18 (take 4 (pos_state F (take 12 extra) 30)))
      (apply_row (array_cells 6 (take 12 extra)) (apply_row [(0, ts), (4, ia), (5, oa)]
        (raw_row F (take 12 extra) (take 4 (drop 12 extra)) k)))
    = block_row F (ia, oa, ts, z) extra k"
proof -
  obtain m lo hi where mem: "pos_mem (take 12 extra) (take 4 (drop 12 extra)) k = [m, lo, hi]" using pos_mem_cases by blast
  have hdr: "([0] @ [m, lo, hi] @ [0, 0])[0 := ts, 4 := ia, 5 := oa] = [ts] @ [m, lo, hi] @ [ia, oa]"
    by (simp add: numeral_nat)
  show ?thesis
    unfolding raw_row_def block_row_def mem prod.case apply_row_simps
    using assms by (simp add: pos_row_update apply_pos_arrays hdr[simplified])
qed

lemma raw_row_30: "raw_row F input output 30 = pos_row [0, 0, 0, 0, 0, 0] (replicate 12 0) (replicate 4 0)
    (pos_state F input 30) (map (sbox3 F) (pos_state F input 30)) (map (sbox7 F) (pos_state F input 30))"
  by (simp add: raw_row_def pos_mem_def pos_a_def)

lemma poseidon_add_view:
  assumes F: "big_field F" and x: "pos_extra_ok F extra" and "fits t 58 (length R + 31)" "rows_ok 58 R"
    and "only_column_name sel \<in> set names" "distinct names" "\<forall>k \<in> set names. length (G k) = length R"
  shows "poseidon_gl_add_operation F (view t R (sels names G) ov) (Some sel) args extra
    = Some (view t (R @ pos_block F args extra)
        (sels names (\<lambda>k. G k @ replicate 31 (if k = only_column_name sel then 1 else 0))) ov)"
proof -
  obtain ia oa ts z where args: "args = (ia, oa, ts, z)" by (cases args)
  define input where "input = take 12 extra"
  define ou where "ou = take 4 (drop 12 extra)"
  have len: "length extra = 16" "length input = 12" using x by (simp_all add: pos_extra_ok_def input_def)
  let ?raw = "map (raw_row F input ou) [0..<30]" and ?S = "sels names (\<lambda>j. G j @ replicate 30 0)"
  let ?B = "map (raw_row F input ou) [0..<31]" and ?S1 = "sels names (\<lambda>j. G j @ replicate 31 0)"
  let ?S2 = "sels names (\<lambda>k. G k @ replicate 31 (if k = only_column_name sel then 1 else 0))"
  have rounds: "poseidon_rounds F (view t R (sels names G) ov) input ou input [0..<30]
      = Some (view t (R @ ?raw) ?S ov, pos_state F input 30)"
    using poseidon_rounds_view[OF F x input_def ou_def, of 0 t R] assms(3,4)
    by (simp add: pos_state_def fits_less[OF assms(3)])
  have ok: "rows_ok 58 (R @ ?raw)" "rows_ok 58 (R @ ?B)" and oks: "\<And>cvs. rows_ok 58 (map (apply_row cvs) ?B)"
    using assms(4) length_raw_row[OF len(2)] by (auto simp: rows_ok_def)
  have B: "?raw @ [raw_row F input ou 30] = ?B"
    using upt_Suc_append[of 0 30] by (simp del: upt_Suc upt.simps)
  have last: "add_row (view t (R @ ?raw) ?S ov) (array_cells 34 (map (sbox3 F) (pos_state F input 30))
      @ array_cells 46 (map (sbox7 F) (pos_state F input 30)) @ array_cells 22 (pos_state F input 30))
      = Some (view t (R @ ?B) ?S1 ov)"
    using add_row_raw(2)[OF _ ok(1), of t "pos_state F input 30" "map (sbox3 F) (pos_state F input 30)"
        "map (sbox7 F) (pos_state F input 30)"] len assms(3)
    by (simp add: raw_row_30[symmetric] B[symmetric] replicate_append_same add.commute flip: replicate_Suc)
  have fit: "fits t 58 (length (R @ ?B))" using assms(3) by simp
  note blk = set_block_cols_view[of t 58 R, OF _ _ _ refl]
  have c1: "set_block_cols (view t (R @ ?B) ?S1 ov) 31 [(0, ts), (4, ia), (5, oa)]
      = Some (view t (R @ map (apply_row [(0, ts), (4, ia), (5, oa)]) ?B) ?S1 ov)"
    using blk[of ?B "[(0, ts), (4, ia), (5, oa)]" ?S1 ov] fit ok(2) by simp
  define B1 where "B1 = map (apply_row [(0, ts), (4, ia), (5, oa)]) ?B"
  have b1: "length B1 = 31" "rows_ok 58 (R @ B1)" using oks assms(4) by (simp_all add: B1_def del: apply_row_simps)
  have sel: "set_current_block_selector (view t (R @ B1) ?S1 ov) 31 (only_column_name sel) 1 = Some (view t (R @ B1) ?S2 ov)"
  proof -
    have "(\<lambda>j. G j @ replicate 31 0)(only_column_name sel := G (only_column_name sel) @ replicate 31 1)
        = (\<lambda>k. G k @ replicate 31 (if k = only_column_name sel then 1 else 0))"
      by (simp add: fun_eq_iff)
    with set_current_block_selector_view[of t 58 "R @ B1" "only_column_name sel" names "\<lambda>j. G j @ replicate 31 0"
        "G (only_column_name sel)" "replicate 31 0" 31 ov 1] b1 fit assms(5-7)
    show ?thesis by simp
  qed
  define B2 where "B2 = map (apply_row (array_cells 6 input)) B1"
  have c2: "set_block_cols (view t (R @ B1) ?S2 ov) 31 (array_cells 6 input) = Some (view t (R @ B2) ?S2 ov)"
    unfolding B2_def using blk[OF _ b1(2) array_cells_le[of 6 input], of ?S2 ov] b1 fit len by simp
  have b2: "length B2 = 31" "rows_ok 58 (R @ B2)" using b1 by (auto simp: B2_def rows_ok_def)
  have c3: "set_block_cols (view t (R @ B2) ?S2 ov) 31 (array_cells 18 (take 4 (pos_state F input 30)))
      = Some (view t (R @ map (apply_row (array_cells 18 (take 4 (pos_state F input 30)))) B2) ?S2 ov)"
    using blk[OF _ b2(2) array_cells_le[of 18 "take 4 (pos_state F input 30)"], of ?S2 ov] b2 fit len by simp
  have "map (apply_row (array_cells 18 (take 4 (pos_state F input 30)))) B2 = pos_block F args extra"
    using raw_row_block[OF len(1)] by (simp add: B2_def B1_def pos_block_def args input_def ou_def del: apply_row_simps)
  with c3 have c3': "set_block_cols (view t (R @ B2) ?S2 ov) 31 (array_cells 18 (take 4 (pos_state F input 30)))
      = Some (view t (R @ pos_block F args extra) ?S2 ov)" by simp
  show ?thesis
    using c1[folded B1_def] sel c2 c3'
    by (simp add: poseidon_gl_add_operation_def args len rounds last input_def[symmetric] ou_def[symmetric]
        del: set_block_cols.simps)
qed

section \<open>Filling up to the degree\<close>

lemma copy_rows_append: "copy_rows t degree (xs @ ys) = copy_rows t degree xs \<bind> (\<lambda>t. copy_rows t degree ys)"
proof (induction t degree xs rule: copy_rows.induct)
  case (2 t degree i "is")
  show ?case
  proof (cases "sub_len t = degree")
    case True
    then show ?thesis by (cases ys) simp_all
  next
    case False
    with 2 show ?thesis by (auto simp: Let_def bind_eq_None_conv rust_assert_def)
  qed
qed simp

lemma copy_rows_trunc:
  assumes "fits t n degree" "rows_ok n R" "b \<le> length R" "length R \<le> degree"
  shows "copy_rows (view t R (sels names G) ov) degree [0..<b]
    = Some (view t (R @ take (degree - length R) (take b R))
        (sels names (\<lambda>k. G k @ replicate (min b (degree - length R)) 0)) ov)"
proof -
  define d where "d = min b (degree - length R)"
  have d: "d \<le> b" "length R + d \<le> degree" using assms(4) by (auto simp: d_def)
  have cut: "take (degree - length R) (take b R) = take d R" by (simp add: d_def min.commute)
  have fit: "fits t n (length R + d)" using fits_less[OF assms(1) d(2)] .
  have c: "copy_rows (view t R (sels names G) ov) degree [0..<d]
      = Some (view t (R @ take d R) (sels names (\<lambda>k. G k @ replicate d 0)) ov)"
    using copy_rows_view[OF fit assms(2) _ d(2), of 0 names G ov] d(1) assms(3) by simp
  show ?thesis
  proof (cases "d = b")
    case True
    with c show ?thesis unfolding cut by (simp add: d_def)
  next
    case False
    then have e: "length R + d = degree" "d < b" using assms(4) by (auto simp: d_def min_def split: if_splits)
    have "sub_len (view t (R @ take d R) S ov) = degree" for S
      using sub_len_view[of t n "R @ take d R" S ov] fit assms(2,3) e by (simp add: rows_ok_take)
    moreover have "[0..<b] = [0..<d] @ d # [Suc d..<b]"
      using e(2) upt_add_eq_append[of 0 d "b - d"] by (simp add: upt_conv_Cons)
    ultimately show ?thesis using c unfolding cut by (simp add: copy_rows_append d_def[symmetric])
  qed
qed

definition dummy_rows :: "int list list \<Rightarrow> nat \<Rightarrow> int list list" where
  "dummy_rows B n = map (\<lambda>i. (B ! (i mod 31))[1 := 0]) [0..<n]"

lemma dummy_rows_short: "length B = 31 \<Longrightarrow> n \<le> 31 \<Longrightarrow> dummy_rows B n = map (\<lambda>r. r[1 := 0]) (take n B)"
  by (rule nth_equalityI) (simp_all add: dummy_rows_def)

lemma dummy_rows_add: "dummy_rows B (31 + n) = dummy_rows B 31 @ dummy_rows B n"
  by (rule nth_equalityI) (auto simp: dummy_rows_def nth_append mod_if)

lemma length_dummy_rows [simp]: "length (dummy_rows B n) = n"
  by (simp add: dummy_rows_def)

lemma push_dummy_poseidon:
  assumes "fits t 58 degree" "rows_ok 58 R" "31 \<le> length R" "length R < degree"
  shows "\<exists>t1. push_dummy_block (view t R (sels names G) []) degree 31 = Some t1 \<and>
      sub_len t1 = length R + min 31 (degree - length R) \<and>
      poseidon_gl_dummy_block_fix t1 (min 31 (degree - length R)) =
        Some (view t (R @ dummy_rows (take 31 R) (min 31 (degree - length R)))
          (sels names (\<lambda>k. G k @ replicate (min 31 (degree - length R)) 0)) [])"
proof -
  define m where "m = min 31 (degree - length R)"
  let ?B = "take (degree - length R) (take 31 R)"
  let ?t = "view t (R @ ?B) (sels names (\<lambda>k. G k @ replicate m 0)) []"
  have B: "length ?B = m" "rows_ok 58 ?B" using assms(2,3) by (simp_all add: m_def rows_ok_take)
  have fit: "fits t 58 (length (R @ ?B))" using assms(4) B(1) by (intro fits_less[OF assms(1)]) (auto simp: m_def)
  have "map (\<lambda>r. r[1 := 0]) ?B = dummy_rows (take 31 R) m"
    using assms(3) by (simp add: dummy_rows_short m_def min.commute)
  then have "poseidon_gl_dummy_block_fix ?t m = Some (view t (R @ dummy_rows (take 31 R) m) (sels names (\<lambda>k. G k @ replicate m 0)) [])"
    using set_current_block_view[OF fit, of 1] B assms(2) by (simp add: poseidon_gl_dummy_block_fix_def)
  moreover have "sub_len ?t = length R + m" using sub_len_view[OF fit] assms(2) B by simp
  moreover have "push_dummy_block (view t R (sels names G) []) degree 31 = Some ?t"
    using copy_rows_trunc[OF assms(1-3)] assms(4)
    by (simp add: push_dummy_block_def final_row_override_def m_def)
  ultimately show ?thesis unfolding m_def by blast
qed

lemma fill_poseidon:
  assumes "fits t 58 degree"
  shows "rows_ok 58 R \<Longrightarrow> 31 \<le> length R \<Longrightarrow> length R \<le> degree \<Longrightarrow> degree - length R \<le> fuel \<Longrightarrow>
    fill_to_degree fuel (PoseidonGlMachine F) (view t R (sels names G) []) degree
      = Some (view t (R @ dummy_rows (take 31 R) (degree - length R))
          (sels names (\<lambda>k. G k @ replicate (degree - length R) 0)) [])"
proof (induction fuel arbitrary: R G)
  case 0
  have "sub_len (view t R (sels names G) []) = length R"
    using sub_len_view[of t 58 R] fits_less[OF assms 0(3)] 0(1) by simp
  with 0 show ?case by (subst fill_to_degree.simps) (simp add: dummy_rows_def)
next
  case (Suc fuel)
  have sl: "sub_len (view t R (sels names G) []) = length R"
    using sub_len_view[of t 58 R] fits_less[OF assms Suc.prems(3)] Suc.prems(1) by simp
  show ?case
  proof (cases "length R < degree")
    case True
    define m where "m = min 31 (degree - length R)"
    let ?R = "R @ dummy_rows (take 31 R) m"
    from push_dummy_poseidon[OF assms Suc.prems(1,2) True, of names G, folded m_def] obtain t1
      where t1: "push_dummy_block (view t R (sels names G) []) degree 31 = Some t1" "sub_len t1 = length R + m"
        "poseidon_gl_dummy_block_fix t1 m = Some (view t ?R (sels names (\<lambda>k. G k @ replicate m 0)) [])"
      by blast
    have dr: "length r = 58" if "r \<in> set (dummy_rows (take 31 R) m)" for r
    proof -
      from that Suc.prems(2) obtain i where "r = (R ! (i mod 31))[1 := 0]"
        by (auto simp: dummy_rows_def)
      moreover have "R ! (i mod 31) \<in> set R" using Suc.prems(2) by (intro nth_mem) (simp add: less_le_trans[OF mod_less_divisor])
      ultimately show ?thesis using Suc.prems(1) by (simp add: rows_ok_def)
    qed
    have m: "0 < m" "m \<le> degree - length R" using True by (auto simp: m_def)
    have IH: "fill_to_degree fuel (PoseidonGlMachine F) (view t ?R (sels names (\<lambda>k. G k @ replicate m 0)) []) degree
        = Some (view t (?R @ dummy_rows (take 31 ?R) (degree - length ?R))
          (sels names (\<lambda>k. (G k @ replicate m 0) @ replicate (degree - length ?R) 0)) [])"
      using Suc.prems m dr by (intro Suc.IH) (auto simp: rows_ok_def)
    have "degree - length R = m + (degree - length ?R)" using m by simp
    moreover have "dummy_rows (take 31 R) m @ dummy_rows (take 31 R) (degree - length ?R)
        = dummy_rows (take 31 R) (m + (degree - length ?R))"
    proof (cases "31 \<le> degree - length R")
      case True
      then have "m = 31" by (simp add: m_def)
      then show ?thesis by (simp only: dummy_rows_add)
    next
      case False
      then show ?thesis by (simp add: m_def dummy_rows_def)
    qed
    ultimately have "?R @ dummy_rows (take 31 ?R) (degree - length ?R) = R @ dummy_rows (take 31 R) (degree - length R)"
        "replicate m (0::int) @ replicate (degree - length ?R) 0 = replicate (degree - length R) 0"
      using Suc.prems(2) by (simp_all flip: replicate_add)
    with IH show ?thesis
      unfolding fill_to_degree.simps[of "Suc fuel"]
      using True sl t1 by (simp add: PoseidonGlMachine_def Let_def)
  next
    case False
    with Suc.prems sl show ?thesis by (subst fill_to_degree.simps) (simp add: dummy_rows_def)
  qed
qed

section \<open>The finished table\<close>

definition pos_ops_ok :: "field_desc \<Rightarrow> string list \<Rightarrow> submachine_operation list \<Rightarrow> bool" where
  "pos_ops_ok F names ops \<longleftrightarrow> (\<forall>(s, a, x) \<in> set ops. pos_extra_ok F x \<and>
     (case s of Some s \<Rightarrow> only_column_name s \<in> set names | None \<Rightarrow> False))"

definition op_sel :: "submachine_operation \<Rightarrow> string \<Rightarrow> bool" where
  "op_sel op k \<longleftrightarrow> (case fst op of Some s \<Rightarrow> k = only_column_name s | None \<Rightarrow> False)"

definition op_block :: "field_desc \<Rightarrow> submachine_operation \<Rightarrow> int list list" where
  "op_block F op = pos_block F (fst (snd op)) (snd (snd op))"

definition pos_rows :: "field_desc \<Rightarrow> submachine_operation list \<Rightarrow> nat \<Rightarrow> int list list" where
  "pos_rows F ops degree =
     concat (map (op_block F) ops) @ dummy_rows (op_block F (hd ops)) (degree - 31 * length ops)"

definition pos_sel :: "submachine_operation list \<Rightarrow> nat \<Rightarrow> string \<Rightarrow> int list" where
  "pos_sel ops degree k =
     concat (map (\<lambda>op. replicate 31 (if op_sel op k then 1 else 0)) ops) @ replicate (degree - 31 * length ops) 0"

lemma length_op_block [simp]: "length (op_block F op) = 31"
  by (simp add: op_block_def pos_block_def)

lemma rows_ok_op_block: "pos_extra_ok F (snd (snd op)) \<Longrightarrow> rows_ok 58 (op_block F op)"
  by (auto simp: op_block_def pos_block_def rows_ok_def block_row_def pos_extra_ok_def length_pos_row split: prod.split)

lemma length_concat_31: "\<forall>x \<in> set xs. length (f x) = 31 \<Longrightarrow> length (concat (map f xs)) = 31 * length xs"
  by (induction xs) simp_all

lemma add_operations_poseidon:
  assumes "big_field F" "distinct names"
  shows "fits t 58 (length R + 31 * length ops) \<Longrightarrow> rows_ok 58 R \<Longrightarrow> pos_ops_ok F names ops \<Longrightarrow>
    \<forall>k \<in> set names. length (G k) = length R \<Longrightarrow>
    add_operations_extra (PoseidonGlMachine F) (view t R (sels names G) []) ops
      = Some (view t (R @ concat (map (op_block F) ops))
          (sels names (\<lambda>k. G k @ concat (map (\<lambda>op. replicate 31 (if op_sel op k then 1 else 0)) ops))) [])"
proof (induction ops arbitrary: R G)
  case (Cons op ops)
  obtain s a x where op: "op = (Some s, a, x)" and ok: "pos_extra_ok F x" "only_column_name s \<in> set names"
    using Cons.prems(3) by (cases op) (auto simp: pos_ops_ok_def split: option.splits)
  have blk: "pos_block F a x = op_block F op" by (simp add: op_block_def op)
  have sel: "(if k = only_column_name s then 1 else 0 :: int) = (if op_sel op k then 1 else 0)" for k
    by (simp add: op_sel_def op)
  have "poseidon_gl_add_operation F (view t R (sels names G) []) (Some s) a x
      = Some (view t (R @ op_block F op) (sels names (\<lambda>k. G k @ replicate 31 (if op_sel op k then 1 else 0))) [])"
    using poseidon_add_view[OF assms(1) ok(1) _ Cons.prems(2) ok(2) assms(2) Cons.prems(4), of t "[]" a]
      fits_less[OF Cons.prems(1), of "length R + 31"] unfolding blk sel by simp
  moreover have "add_operations_extra (PoseidonGlMachine F)
      (view t (R @ op_block F op) (sels names (\<lambda>k. G k @ replicate 31 (if op_sel op k then 1 else 0))) []) ops
      = Some (view t ((R @ op_block F op) @ concat (map (op_block F) ops))
          (sels names (\<lambda>k. (G k @ replicate 31 (if op_sel op k then 1 else 0)) @
             concat (map (\<lambda>op. replicate 31 (if op_sel op k then 1 else 0)) ops))) [])"
    using Cons.prems rows_ok_op_block[of F op] ok
    by (intro Cons.IH) (auto simp: op pos_ops_ok_def algebra_simps)
  ultimately show ?case by (simp add: op PoseidonGlMachine_def)
qed simp

lemma run_poseidon:
  assumes "big_field F" "distinct names" "pos_ops_ok F names ops" "ops \<noteq> []" "31 * length ops \<le> degree"
    and "st_cols t = poseidon_col_names" "fits t 58 degree"
  shows "run_submachine_extra (PoseidonGlMachine F) (view t [] (sels names (\<lambda>_. [])) []) ops degree
    = Some (with_namespace (st_namespace t) (columns poseidon_col_names (pos_rows F ops degree) @ sels names (pos_sel ops degree)))"
proof -
  let ?R = "concat (map (op_block F) ops)"
    and ?G = "\<lambda>k. concat (map (\<lambda>op. replicate 31 (if op_sel op k then 1 else 0 :: int)) ops)"
  have len: "length ?R = 31 * length ops" by (intro length_concat_31) simp
  have "\<forall>op \<in> set ops. rows_ok 58 (op_block F op)"
    using assms(3) rows_ok_op_block by (fastforce simp: pos_ops_ok_def)
  then have ok: "rows_ok 58 ?R" by (intro rows_ok_concat) simp
  have fit: "fits t 58 (31 * length ops)" using assms(5,7) fits_less by blast
  have blk: "take 31 ?R = op_block F (hd ops)" using assms(4) by (cases ops) simp_all
  have 31: "31 \<le> length ?R" using assms(4) by (cases ops) (simp_all add: len)
  have add: "add_operations_extra (PoseidonGlMachine F) (view t [] (sels names (\<lambda>_. [])) []) ops
      = Some (view t ?R (sels names ?G) [])"
    using add_operations_poseidon[OF assms(1,2), of t "[]" ops "\<lambda>_. []"] fit assms(3) by simp
  have sl: "sub_len (view t ?R (sels names ?G) []) = 31 * length ops"
    using sub_len_view[of t 58 ?R] fit len ok by simp
  have fill: "fill_to_degree degree (PoseidonGlMachine F) (view t ?R (sels names ?G) []) degree
      = Some (view t (pos_rows F ops degree) (sels names (pos_sel ops degree)) [])"
    using fill_poseidon[OF assms(7) ok 31, of degree F names ?G] len assms(5)
    by (simp add: pos_rows_def pos_sel_def[abs_def] blk)
  have rok: "rows_ok 58 (pos_rows F ops degree)"
  proof -
    have "length (op_block F (hd ops) ! (i mod 31)) = 58" for i
      using ok blk rows_ok_take[OF ok, of 31] by (intro rows_ok_nth) simp_all
    then show ?thesis using ok by (auto simp: pos_rows_def rows_ok_def dummy_rows_def)
  qed
  have rl: "length (pos_rows F ops degree) = degree" using len assms(5) by (simp add: pos_rows_def)
  show ?thesis
    using take_cols_view[OF _ rok, of t] rl assms(5-7) sl fill add
    by (simp add: run_submachine_extra_def submachine_finish_def final_row_override_def with_namespace_def)
qed

lemma concat_nth_31:
  "\<forall>x \<in> set xs. length (f x) = 31 \<Longrightarrow> i < 31 * length xs \<Longrightarrow> concat (map f xs) ! i = f (xs ! (i div 31)) ! (i mod 31)"
proof (induction xs arbitrary: i)
  case (Cons x xs)
  show ?case
  proof (cases "i < 31")
    case False
    then have "i div 31 = Suc ((i - 31) div 31)" "i mod 31 = (i - 31) mod 31"
      by (simp_all add: div_if mod_if)
    with Cons False show ?thesis by (simp add: nth_append)
  qed (use Cons in \<open>simp add: nth_append\<close>)
qed simp

section \<open>The constraints\<close>

text \<open>A row consists of the values of the selectors and of the other columns. The fixed columns
  depend on the number of the row; the link to the split machine is stated by its meaning.\<close>

definition pos_constraints ::
  "field_desc \<Rightarrow> nat \<Rightarrow> nat \<Rightarrow> int list \<times> int list \<Rightarrow> int list \<times> int list \<Rightarrow> bool" where
  "pos_constraints F degree i p q =
     (let k = i mod 31; (ss, r) = p; (ss', s) = q;
          CLK = (\<lambda>j. if k = j then 1 else 0);
          LASTBLOCK = (if k = 30 then 1 else 0);
          LAST = (if k = 30 \<or> i + 1 = degree then 1 else 0);
          PARTIAL = (if 4 \<le> k \<and> k < 26 then 1 else 0);
          C = (\<lambda>j. if k = 30 then 0 else ROUND_CONSTANTS ! j ! k);
          used = sum_list ss;
          input = (\<lambda>j. r ! (pos_idx Pos_input_0 + j)); outp = (\<lambda>j. r ! (pos_idx Pos_output_0 + j));
          state = (\<lambda>j. r ! (pos_idx Pos_state_0 + j)); state' = (\<lambda>j. s ! (pos_idx Pos_state_0 + j));
          x3 = (\<lambda>j. r ! (pos_idx Pos_x3_0 + j)); x7 = (\<lambda>j. r ! (pos_idx Pos_x7_0 + j));
          a = (\<lambda>j. state j + C j);
          b = (\<lambda>j. if j = 0 then x7 j else PARTIAL * (a j - x7 j) + x7 j);
          do_mload = r ! pos_idx Pos_do_mload;
          do_mstore = used * (\<Sum>j<4. CLK (j + 12));
          word_low = r ! pos_idx Pos_word_low; word_high = r ! pos_idx Pos_word_high;
          unchanged = (\<lambda>c. field_eq F ((s ! c - r ! c) * (1 - LAST)) 0)
      in (\<forall>j < length ss. field_eq F ((ss' ! j - ss ! j) * (1 - LAST)) 0) \<and> field_eq F (used * (1 - used)) 0 \<and>
         (\<forall>j<12. unchanged (pos_idx Pos_input_0 + j)) \<and> (\<forall>j<12. field_eq F (CLK 0 * (input j - state j)) 0) \<and>
         unchanged (pos_idx Pos_time_step) \<and> unchanged (pos_idx Pos_input_addr) \<and> unchanged (pos_idx Pos_output_addr) \<and>
         field_eq F do_mload (used * (\<Sum>j<12. CLK j)) \<and>
         field_eq F (do_mload * (word_low + word_high * 2 ^ 32 - (\<Sum>j<12. CLK j * input j))) 0 \<and>
         (do_mstore = 1 \<longrightarrow> in_u32 word_low \<and> in_u32 word_high \<and>
            word_low + word_high * 2 ^ 32 = (\<Sum>j<4. CLK (j + 12) * outp j)) \<and>
         (\<forall>j<12. field_eq F (x3 j) (a j * a j * a j)) \<and> (\<forall>j<12. field_eq F (x7 j) (x3 j * x3 j * a j)) \<and>
         (\<forall>j<12. field_eq F ((state' j - (\<Sum>l<12. MDS_MATRIX ! j ! l * b l)) * (1 - LAST)) 0) \<and>
         (\<forall>j<4. field_eq F (LASTBLOCK * (outp j - state j)) 0) \<and>
         (\<forall>j<4. unchanged (pos_idx Pos_output_0 + j)))"

text \<open>The row of an operation (\<open>u = 1\<close>) and of a dummy block (\<open>u = 0\<close>).\<close>

definition used_row :: "field_desc \<Rightarrow> submachine_operation \<Rightarrow> int \<Rightarrow> nat \<Rightarrow> int list" where
  "used_row F op u k = (block_row F (fst (snd op)) (snd (snd op)) k)[1 := u * (if k < 12 then 1 else 0)]"

lemma block_row_1: "(block_row F a x k)[1 := if k < 12 then 1 else 0] = block_row F a x k"
  by (cases a) (auto simp: block_row_def pos_row_def pos_mem_def)

lemma op_block_nth: "k < 31 \<Longrightarrow> op_block F op ! k = used_row F op 1 k"
  using block_row_1[of F _ _ k] by (simp add: op_block_def pos_block_def used_row_def)

lemma dummy_row_nth: "i < n \<Longrightarrow> dummy_rows (op_block F op) n ! i = used_row F op 0 (i mod 31)"
  by (simp add: dummy_rows_def op_block_nth) (simp add: used_row_def)

text \<open>The cells of such a row.\<close>

lemma used_row_cells:
  assumes "length x = 16" "op = (sel, (ia, oa, ts, z), x)"
  shows "used_row F op u k ! 0 = ts" "used_row F op u k ! Suc 0 = u * (if k < 12 then 1 else 0)"
    "used_row F op u k ! 2 = pos_mem (take 12 x) (take 4 (drop 12 x)) k ! 1"
    "used_row F op u k ! 3 = pos_mem (take 12 x) (take 4 (drop 12 x)) k ! 2"
    "used_row F op u k ! 4 = ia" "used_row F op u k ! 5 = oa"
    "j < 12 \<Longrightarrow> used_row F op u k ! (6 + j) = x ! j"
    "j < 4 \<Longrightarrow> used_row F op u k ! (18 + j) = pos_state F (take 12 x) 30 ! j"
    "j < 12 \<Longrightarrow> used_row F op u k ! (22 + j) = pos_state F (take 12 x) k ! j"
    "j < 12 \<Longrightarrow> used_row F op u k ! (34 + j) = sbox3 F (pos_a F (take 12 x) k ! j)"
    "j < 12 \<Longrightarrow> used_row F op u k ! (46 + j) = sbox7 F (pos_a F (take 12 x) k ! j)"
proof -
  obtain m lo hi where mem: "pos_mem (take 12 x) (take 4 (drop 12 x)) k = [m, lo, hi]" using pos_mem_cases by blast
  define hdr where "hdr = [ts, u * (if k < 12 then 1 else 0), lo, hi, ia, oa]"
  have l: "length (take 12 x) = 12" "length hdr = 6" using assms(1) by (simp_all add: hdr_def)
  have row: "used_row F op u k = pos_row hdr (take 12 x) (take 4 (pos_state F (take 12 x) 30))
      (pos_state F (take 12 x) k) (map (sbox3 F) (pos_a F (take 12 x) k)) (map (sbox7 F) (pos_a F (take 12 x) k))"
    unfolding used_row_def block_row_def assms(2) prod.sel prod.case mem
    by (subst pos_row_update) (simp_all add: hdr_def)
  note n = pos_row_nth[of hdr "take 12 x" "take 4 (pos_state F (take 12 x) 30)" "pos_state F (take 12 x) k"
    "map (sbox3 F) (pos_a F (take 12 x) k)" "map (sbox7 F) (pos_a F (take 12 x) k)"]
  show "used_row F op u k ! 0 = ts" "used_row F op u k ! Suc 0 = u * (if k < 12 then 1 else 0)"
    "used_row F op u k ! 2 = pos_mem (take 12 x) (take 4 (drop 12 x)) k ! 1"
    "used_row F op u k ! 3 = pos_mem (take 12 x) (take 4 (drop 12 x)) k ! 2"
    "used_row F op u k ! 4 = ia" "used_row F op u k ! 5 = oa"
    unfolding row mem using l by (simp_all add: n) (simp_all add: hdr_def)
  show "j < 12 \<Longrightarrow> used_row F op u k ! (6 + j) = x ! j"
    "j < 4 \<Longrightarrow> used_row F op u k ! (18 + j) = pos_state F (take 12 x) 30 ! j"
    "j < 12 \<Longrightarrow> used_row F op u k ! (22 + j) = pos_state F (take 12 x) k ! j"
    "j < 12 \<Longrightarrow> used_row F op u k ! (34 + j) = sbox3 F (pos_a F (take 12 x) k ! j)"
    "j < 12 \<Longrightarrow> used_row F op u k ! (46 + j) = sbox7 F (pos_a F (take 12 x) k ! j)"
    unfolding row using l by (simp_all add: n)
qed

lemma sum_clk: "(\<Sum>j<(n::nat). (if k = j + d then 1 else 0) * f j) = (if d \<le> k \<and> k < n + d then f (k - d) else (0::int))"
  by (induction n) auto

lemma sum_clk1: "(\<Sum>j<(n::nat). if k = j + d then 1 else 0) = (if d \<le> k \<and> k < n + d then 1 else (0::int))"
  using sum_clk[of k d "\<lambda>_. 1" n] by simp

lemma mds_nth:
  assumes "length xs = 12" "j < 12"
  shows "field_eq F (mds_multiply F xs ! j) (\<Sum>l<12. MDS_MATRIX ! j ! l * xs ! l)"
proof -
  have "field_eq F (foldl (\<lambda>tmp (l, input). fe_add F tmp (fe_mul F input (fe_from F (m l)))) 0 (enumerate 0 xs))
      (\<Sum>l<length xs. m l * xs ! l)" for m and xs :: "int list"
  proof (induction xs rule: rev_induct)
    case (snoc x xs)
    define b where "b = foldl (\<lambda>tmp (l, input). fe_add F tmp (fe_mul F input (fe_from F (m l)))) 0 (enumerate 0 xs)"
    have "fe_add F b (fe_mul F x (fe_from F c)) mod modulus F = (b + x * c) mod modulus F" for c
      by (simp add: fe_add_def fe_mul_def fe_from_def mod_simps)
    also have "\<dots> c = ((\<Sum>l<length xs. m l * xs ! l) + c * x) mod modulus F" for c
      using snoc unfolding field_eq_def b_def[symmetric] by (intro mod_add_cong) (simp_all add: mult.commute)
    finally show ?case
      by (simp add: field_eq_def enumerate_append_eq b_def nth_append)
  qed (simp add: field_eq_def)
  from this[of "(!) (MDS_MATRIX ! j)" xs] show ?thesis
    using assms by (simp add: mds_multiply_def)
qed

lemma field_eq_intros:
  "field_eq F a a" "field_eq F a b \<Longrightarrow> field_eq F c d \<Longrightarrow> field_eq F (a + c) (b + d)"
  "field_eq F a b \<Longrightarrow> field_eq F c d \<Longrightarrow> field_eq F (a * c) (b * d)"
  "field_eq F a b \<Longrightarrow> field_eq F (a - b) 0"
  by (simp_all add: field_eq_def mod_add_cong mod_mult_cong mod_eq_dvd_iff mod_eq_0_iff_dvd)

lemma field_eq_sum:
  "(\<And>l. l < n \<Longrightarrow> field_eq F (f l) (g l)) \<Longrightarrow> field_eq F (\<Sum>l<(n::nat). f l) (\<Sum>l<n. g l)"
  by (induction n) (simp_all add: field_eq_intros)

lemma field_eq_trans: "field_eq F a b \<Longrightarrow> field_eq F b c \<Longrightarrow> field_eq F a c"
  by (simp add: field_eq_def)

text \<open>The columns of a round: \<open>a\<close>, the S-boxes and the next state.\<close>

definition round_const :: "nat \<Rightarrow> nat \<Rightarrow> int" where
  "round_const k j = (if k = 30 then 0 else ROUND_CONSTANTS ! j ! k)"

lemma pos_a_eq:
  assumes "k < 31" "j < 12" "length inp = 12"
  shows "field_eq F (pos_a F inp k ! j) (pos_state F inp k ! j + round_const k j)"
  using assms
  by (cases "k = 30") (simp_all add: pos_a_def round_const_def add_constants_def field_eq_def fe_add_def fe_from_def mod_simps)

lemma sbox_columns:
  assumes "field_eq F a b"
  shows "field_eq F (sbox3 F a) (b * b * b)" "field_eq F (sbox7 F a) (sbox3 F a * sbox3 F a * b)"
proof -
  have "field_eq F (sbox3 F a) (a * a * a)"
    by (simp add: sbox3_def fe_pow_def field_eq_def eval_nat_numeral ac_simps)
  then show "field_eq F (sbox3 F a) (b * b * b)"
    by (rule field_eq_trans) (intro field_eq_intros assms)
  have "field_eq F (sbox7 F a) (sbox3 F a * sbox3 F a * a)"
    by (simp add: sbox7_def fe_pow_def fe_mul_def field_eq_def power2_eq_square mod_mult_left_eq)
  then show "field_eq F (sbox7 F a) (sbox3 F a * sbox3 F a * b)"
    by (rule field_eq_trans) (intro field_eq_intros assms)
qed

lemma next_state:
  assumes "field_element F" "k < 30" "j < 12" "length inp = 12"
    and "a = (\<lambda>j. pos_state F inp k ! j + round_const k j)" "x7 = (\<lambda>j. sbox7 F (pos_a F inp k ! j))"
  shows "field_eq F (pos_state F inp (Suc k) ! j) (\<Sum>l<12. MDS_MATRIX ! j ! l *
    (if l = 0 then x7 l else (if 4 \<le> k \<and> k < 26 then 1 else 0) * (a l - x7 l) + x7 l))"
proof -
  have "field_eq F (pos_state F inp (Suc k) ! j) (\<Sum>l<12. MDS_MATRIX ! j ! l * after_sbox F k (pos_a F inp k) ! l)"
    using mds_nth[of "after_sbox F k (pos_a F inp k)" j F] assms
    by (simp add: pos_state_Suc poseidon_round_eq after_sbox_def pos_a_def)
  moreover have "field_eq F (after_sbox F k (pos_a F inp k) ! l)
      (if l = 0 then x7 l else (if 4 \<le> k \<and> k < 26 then 1 else 0) * (a l - x7 l) + x7 l)" if "l < 12" for l
    using pos_a_eq[of k l inp F] that assms by (simp add: after_sbox_def is_full_round_def field_eq_intros(1))
  ultimately show ?thesis
    by (elim field_eq_trans) (intro field_eq_sum field_eq_intros; simp)
qed

lemma pos_words:
  assumes "big_field F" "pos_extra_ok F x" "k < 16"
  shows "pos_mem (take 12 x) (take 4 (drop 12 x)) k ! 1 + pos_mem (take 12 x) (take 4 (drop 12 x)) k ! 2 * 2 ^ 32 = x ! k"
    "in_u32 (pos_mem (take 12 x) (take 4 (drop 12 x)) k ! 1)" "in_u32 (pos_mem (take 12 x) (take 4 (drop 12 x)) k ! 2)"
proof -
  have "canonical F (x ! k)" using assms(2,3) by (simp add: pos_extra_ok_def)
  then have "0 \<le> x ! k" "x ! k < 2 ^ 64" using assms(1) by (auto simp: canonical_def big_field_def)
  note w = word_pair_bounds[OF this]
  have m: "pos_mem (take 12 x) (take 4 (drop 12 x)) k ! 1 = fst (word_pair (x ! k))"
     "pos_mem (take 12 x) (take 4 (drop 12 x)) k ! 2 = snd (word_pair (x ! k))"
    using assms(2,3) by (simp_all add: pos_mem_def pos_extra_ok_def)
  show "pos_mem (take 12 x) (take 4 (drop 12 x)) k ! 1 + pos_mem (take 12 x) (take 4 (drop 12 x)) k ! 2 * 2 ^ 32 = x ! k"
    "in_u32 (pos_mem (take 12 x) (take 4 (drop 12 x)) k ! 1)" "in_u32 (pos_mem (take 12 x) (take 4 (drop 12 x)) k ! 2)"
    unfolding m using w by simp_all
qed

lemma pos_output:
  assumes "pos_extra_ok F x" "j < 4"
  shows "x ! (12 + j) = pos_state F (take 12 x) 30 ! j"
proof -
  have "drop 12 x = take 4 (pos_state F (take 12 x) 30)"
    using assms(1) by (simp add: pos_extra_ok_def poseidon_gl_def pos_state_def)
  then have "drop 12 x ! j = take 4 (pos_state F (take 12 x) 30) ! j" by simp
  with assms show ?thesis by (simp add: pos_extra_ok_def)
qed

lemma pos_row_constraints:
  assumes F: "big_field F" and op: "op = (sel, (ia, oa, ts, z), x)" and x: "pos_extra_ok F x"
    and u: "u \<in> {0, 1}" "sum_list ss = u" and k: "k = i mod 31"
    and nxt: "k \<noteq> 30 \<Longrightarrow> i + 1 \<noteq> degree \<Longrightarrow> ss' = ss \<and> s = used_row F op u (Suc k)"
  shows "pos_constraints F degree i (ss, used_row F op u k) (ss', s)"
proof -
  define inp where "inp = take 12 x"
  define LAST where "LAST = (if k = 30 \<or> i + 1 = degree then 1 else 0 :: int)"
  have k31: "k < 31" and len: "length x = 16" "length inp = 12"
    using k x by (simp_all add: pos_extra_ok_def inp_def)
  have fe: "field_element F" using F by (simp add: big_field_def)
  note c = used_row_cells[OF len(1) op, where F = F and u = u, folded inp_def]
  have last: "LAST = 1 \<or> LAST = 0 \<and> ss' = ss \<and> s = used_row F op u (Suc k) \<and> k < 30"
    using nxt k31 by (auto simp: LAST_def)
  have same: "field_eq F ((s ! d - used_row F op u k ! d) * (1 - LAST)) 0"
    if "used_row F op u (Suc k) ! d = used_row F op u k ! d" for d
    using last that by (auto simp: field_eq_intros)
  have sels_same: "\<forall>j < length ss. field_eq F ((ss' ! j - ss ! j) * (1 - LAST)) 0"
    using last by (auto simp: field_eq_intros)
  define b where "b l = (if l = 0 then used_row F op u k ! (46 + l) else (if 4 \<le> k \<and> k < 26 then 1 else 0) *
        (used_row F op u k ! (22 + l) + round_const k l - used_row F op u k ! (46 + l)) + used_row F op u k ! (46 + l))" for l
  have state: "field_eq F ((s ! (22 + j) - (\<Sum>l<12. MDS_MATRIX ! j ! l * b l)) * (1 - LAST)) 0" if j: "j < 12" for j
  proof (cases "LAST = 1")
    case False
    with last have l: "s = used_row F op u (Suc k)" "k < 30" "LAST = 0" by auto
    have "(\<Sum>l<12. MDS_MATRIX ! j ! l * b l) = (\<Sum>l<12. MDS_MATRIX ! j ! l *
        (if l = 0 then sbox7 F (pos_a F inp k ! l) else (if 4 \<le> k \<and> k < 26 then 1 else 0) *
          (pos_state F inp k ! l + round_const k l - sbox7 F (pos_a F inp k ! l)) + sbox7 F (pos_a F inp k ! l)))"
      by (rule sum.cong) (auto simp: b_def c c(11)[of 0, simplified])
    with next_state[OF fe l(2) j len(2) refl refl] show ?thesis
      unfolding l(1,3) by (simp add: c(9)[OF j] field_eq_intros(4))
  qed (simp add: field_eq_intros)
  have sbox: "field_eq F (used_row F op u k ! (34 + j)) ((used_row F op u k ! (22 + j) + round_const k j) *
        (used_row F op u k ! (22 + j) + round_const k j) * (used_row F op u k ! (22 + j) + round_const k j))"
      "field_eq F (used_row F op u k ! (46 + j)) (used_row F op u k ! (34 + j) * used_row F op u k ! (34 + j) *
        (used_row F op u k ! (22 + j) + round_const k j))" if "j < 12" for j
    unfolding c(9-11)[OF that] using sbox_columns[OF pos_a_eq[OF k31 that len(2), of F]] by blast+
  have start: "(if k = 0 then 1 else 0) * (used_row F op u k ! (6 + j) - used_row F op u k ! (22 + j)) = 0"
    if "j < 12" for j using that by (simp add: c pos_state_def) (simp add: inp_def)
  have fin: "(if k = 30 then 1 else 0) * (used_row F op u k ! (18 + j) - used_row F op u k ! (22 + j)) = 0"
    if "j < 4" for j using that by (simp add: c)
  have mem: "used_row F op u k ! Suc 0 * (used_row F op u k ! 2 + used_row F op u k ! 3 * 2 ^ 32
      - (\<Sum>j<12. (if k = j then 1 else 0) * used_row F op u k ! (6 + j))) = 0"
    using sum_clk[of k 0 "\<lambda>j. used_row F op u k ! (6 + j)" 12] pos_words(1)[OF F x, of k, folded inp_def]
    by (cases "k < 12") (simp_all add: c(2-4,7))
  have store: "in_u32 (used_row F op u k ! 2) \<and> in_u32 (used_row F op u k ! 3) \<and>
      used_row F op u k ! 2 + used_row F op u k ! 3 * 2 ^ 32 = (\<Sum>j<4. (if k = j + 12 then 1 else 0) * used_row F op u k ! (18 + j))"
    if "u * (\<Sum>j<4. if k = j + 12 then 1 else 0) = 1"
  proof -
    have k: "12 \<le> k" "k < 16" using that sum_clk1[of k 12 4] by (auto split: if_splits)
    then obtain j where j: "k = 12 + j" "j < 4" by (auto simp: le_iff_add)
    have "(\<Sum>j<4. (if k = j + 12 then 1 else 0) * used_row F op u k ! (18 + j)) = x ! k"
      using sum_clk[of k 12 "\<lambda>j. used_row F op u k ! (18 + j)" 4] j pos_output[OF x j(2), folded inp_def] by (simp add: c(8))
    then show ?thesis using pos_words[OF F x k(2), folded inp_def] by (simp add: c(3,4))
  qed
  show ?thesis
    unfolding pos_constraints_def Let_def prod.case pos_idx.simps k[symmetric] LAST_def[symmetric]
      round_const_def[symmetric] b_def[symmetric] u(2)
  proof (intro conjI allI impI)
    fix j :: nat
    show "j < length ss \<Longrightarrow> field_eq F ((ss' ! j - ss ! j) * (1 - LAST)) 0" using sels_same by blast
    show "j < 12 \<Longrightarrow> field_eq F ((s ! (6 + j) - used_row F op u k ! (6 + j)) * (1 - LAST)) 0" by (rule same) (simp add: c)
    show "j < 4 \<Longrightarrow> field_eq F ((s ! (18 + j) - used_row F op u k ! (18 + j)) * (1 - LAST)) 0" by (rule same) (simp add: c)
    show "j < 12 \<Longrightarrow> field_eq F ((s ! (22 + j) - (\<Sum>l<12. MDS_MATRIX ! j ! l * b l)) * (1 - LAST)) 0" by (rule state)
  qed (use same[of 0] same[of 4] same[of 5] start fin mem store sbox u sum_clk1[of k 0 12] in \<open>auto simp: c field_eqI\<close>)
qed

section \<open>Correctness\<close>

definition row_op :: "submachine_operation list \<Rightarrow> nat \<Rightarrow> submachine_operation" where
  "row_op ops i = (if i div 31 < length ops then ops ! (i div 31) else hd ops)"

definition row_used :: "submachine_operation list \<Rightarrow> nat \<Rightarrow> int" where
  "row_used ops i = (if i div 31 < length ops then 1 else 0)"

lemma pos_rows_nth:
  assumes "31 * length ops \<le> degree" "i < degree"
  shows "pos_rows F ops degree ! i = used_row F (row_op ops i) (row_used ops i) (i mod 31)"
proof -
  have len: "length (concat (map (op_block F) ops)) = 31 * length ops" by (intro length_concat_31) simp
  show ?thesis
  proof (cases "i < 31 * length ops")
    case True
    then have "i div 31 < length ops" by (simp add: div_less_iff_less_mult mult.commute)
    with True show ?thesis
      by (simp add: pos_rows_def nth_append len concat_nth_31 op_block_nth row_op_def row_used_def)
  next
    case False
    then have "\<not> i div 31 < length ops" by (simp add: div_less_iff_less_mult mult.commute)
    moreover have "(i - 31 * length ops) mod 31 = i mod 31"
      using False mod_mult_self2[of "i - 31 * length ops" 31 "length ops"] by simp
    ultimately show ?thesis using False assms
      by (simp add: pos_rows_def nth_append len dummy_row_nth row_op_def row_used_def)
  qed
qed

lemma pos_sel_nth:
  assumes "31 * length ops \<le> degree" "i < degree"
  shows "pos_sel ops degree n ! i = (if i div 31 < length ops \<and> op_sel (row_op ops i) n then 1 else 0)"
proof -
  let ?f = "\<lambda>op. replicate 31 (if op_sel op n then 1 else 0 :: int)"
  have len: "length (concat (map ?f ops)) = 31 * length ops" by (intro length_concat_31) simp
  show ?thesis
  proof (cases "i < 31 * length ops")
    case True
    then have "i div 31 < length ops" by (simp add: div_less_iff_less_mult mult.commute)
    with True show ?thesis
      by (simp add: pos_sel_def nth_append len concat_nth_31[of ops ?f] row_op_def)
  next
    case False
    then have "\<not> i div 31 < length ops" by (simp add: div_less_iff_less_mult mult.commute)
    with False assms show ?thesis by (simp add: pos_sel_def nth_append len)
  qed
qed

lemma sum_selected_name: "distinct names \<Longrightarrow> c \<in> set names \<Longrightarrow> sum_list (map (\<lambda>n. if n = c then 1 else 0 :: int) names) = 1"
proof (induction names)
  case (Cons n names)
  have "c \<notin> set names \<Longrightarrow> sum_list (map (\<lambda>n. if n = c then 1 else 0 :: int) names) = 0"
    by (induction names) auto
  with Cons show ?case by auto
qed simp

definition sel_row :: "submachine_operation list \<Rightarrow> nat \<Rightarrow> string list \<Rightarrow> nat \<Rightarrow> int list" where
  "sel_row ops degree names i = map (\<lambda>n. pos_sel ops degree n ! i) names"

lemma row_op_in: "ops \<noteq> [] \<Longrightarrow> row_op ops i \<in> set ops"
  by (simp add: row_op_def)

lemma sum_sel_row:
  assumes "31 * length ops \<le> degree" "i < degree" "ops \<noteq> []" "pos_ops_ok F names ops" "distinct names"
  shows "sum_list (sel_row ops degree names i) = row_used ops i"
proof (cases "i div 31 < length ops")
  case True
  obtain s a x where op: "row_op ops i = (Some s, a, x)" and "only_column_name s \<in> set names"
    using bspec[OF assms(4)[unfolded pos_ops_ok_def] row_op_in[OF assms(3), of i]]
    by (cases "row_op ops i") (auto split: option.splits)
  with True assms show ?thesis
    by (simp add: sel_row_def pos_sel_nth row_used_def op_sel_def op sum_selected_name)
next
  case False
  with assms(1,2) show ?thesis by (simp add: sel_row_def pos_sel_nth row_used_def sum_list_triv)
qed

lemma pos_rows_cyclic:
  assumes "big_field F" "31 * length ops \<le> degree" "ops \<noteq> []" "pos_ops_ok F names ops" "distinct names"
  shows "cyclic (pos_constraints F degree) (zip (map (sel_row ops degree names) [0..<degree]) (pos_rows F ops degree))"
proof -
  have len: "length (pos_rows F ops degree) = degree"
    using assms(2) length_concat_31[of ops "op_block F"] by (simp add: pos_rows_def)
  show ?thesis
    unfolding cyclic_def
  proof (intro allI impI)
    fix i assume "i < length (zip (map (sel_row ops degree names) [0..<degree]) (pos_rows F ops degree))"
    then have i: "i < degree" by (simp add: len)
    define i' where "i' = (i + 1) mod degree"
    have i': "i' < degree" using i by (simp add: i'_def)
    obtain sel ia oa ts z x where op: "row_op ops i = (sel, (ia, oa, ts, z), x)" by (cases "row_op ops i") auto
    have x: "pos_extra_ok F x"
      using row_op_in[OF assms(3), of i] assms(4) by (auto simp: pos_ops_ok_def op)
    have nxt: "sel_row ops degree names i' = sel_row ops degree names i \<and>
        pos_rows F ops degree ! i' = used_row F (row_op ops i) (row_used ops i) (Suc (i mod 31))"
      if "i mod 31 \<noteq> 30" "i + 1 \<noteq> degree"
    proof -
      have "i' = Suc i" using i that(2) by (simp add: i'_def)
      moreover have "Suc i div 31 = i div 31" "Suc i mod 31 = Suc (i mod 31)"
        using that(1) by (simp_all add: div_Suc mod_Suc)
      ultimately show ?thesis
        using i i' assms(2) by (simp add: sel_row_def pos_sel_nth pos_rows_nth row_op_def row_used_def)
    qed
    have "pos_constraints F degree i (sel_row ops degree names i, used_row F (row_op ops i) (row_used ops i) (i mod 31))
        (sel_row ops degree names i', pos_rows F ops degree ! i')"
      using sum_sel_row[OF assms(2) i assms(3-5)] nxt
      by (intro pos_row_constraints[OF assms(1) op x]) (auto simp: row_used_def)
    then show "pos_constraints F degree i (zip (map (sel_row ops degree names) [0..<degree]) (pos_rows F ops degree) ! i)
        (zip (map (sel_row ops degree names) [0..<degree]) (pos_rows F ops degree)
          ! ((i + 1) mod length (zip (map (sel_row ops degree names) [0..<degree]) (pos_rows F ops degree))))"
      using i i' assms(2) by (simp add: len i'_def[simplified] pos_rows_nth)
  qed
qed

text \<open>What a row of the block of an operation shows to the caller.\<close>

definition pos_row_shows :: "field_desc \<Rightarrow> submachine_operation \<Rightarrow> int list \<Rightarrow> bool" where
  "pos_row_shows F op r = (case op of (_, (ia, oa, ts, _), x) \<Rightarrow>
     r ! pos_idx Pos_input_addr = ia \<and> r ! pos_idx Pos_output_addr = oa \<and> r ! pos_idx Pos_time_step = ts \<and>
     map (\<lambda>l. r ! (pos_idx Pos_input_0 + l)) [0..<12] = take 12 x \<and>
     poseidon_gl F (map (\<lambda>l. r ! (pos_idx Pos_input_0 + l)) [0..<12])
       = Some (map (\<lambda>l. r ! (pos_idx Pos_output_0 + l)) [0..<4]))"

lemma used_row_shows:
  assumes "pos_extra_ok F (snd (snd op))"
  shows "pos_row_shows F op (used_row F op u k)"
proof -
  obtain sel ia oa ts z x where op: "op = (sel, (ia, oa, ts, z), x)" by (cases op) auto
  then have len: "length x = 16" using assms by (simp add: pos_extra_ok_def)
  note c = used_row_cells[OF len op]
  have inp: "map (\<lambda>l. used_row F op u k ! (6 + l)) [0..<12] = take 12 x"
    using len by (intro nth_equalityI) (simp_all add: c)
  have "map (\<lambda>l. used_row F op u k ! (18 + l)) [0..<4] = take 4 (pos_state F (take 12 x) 30)"
    using len by (intro nth_equalityI) (simp_all add: c)
  then show ?thesis
    using len by (simp add: op pos_row_shows_def c[unfolded op] inp[unfolded op] poseidon_gl_def pos_state_def)
qed

text \<open>C23: the Poseidon machine. For every sequence of permutations, and for every degree, a multiple
  of the block size or not, the finished table satisfies the constraints of the machine in every row,
  cyclically, in the dummy blocks and the cut off last block too. Every row of the block of an
  operation holds the addresses, the time step, the input and, as output, the Poseidon permutation of
  the input; its selector is set there, and nowhere else.\<close>

theorem poseidon_machine_correct:
  assumes "big_field F" "submachine_new (PoseidonGlMachine F) ns wcols = Some t" "distinct wcols"
    and "names = map fst (st_selectors t)" "pos_ops_ok F names ops" "ops \<noteq> []"
    and "31 * length ops \<le> degree" "58 * degree < (2 :: nat) ^ 32"
  shows "\<exists>R S. run_submachine_extra (PoseidonGlMachine F) t ops degree
        = Some (with_namespace ns (columns poseidon_col_names R @ sels names S)) \<and>
      length R = degree \<and>
      cyclic (pos_constraints F degree) (zip (map (\<lambda>i. map (\<lambda>n. S n ! i) names) [0..<degree]) R) \<and>
      (\<forall>i < degree. i div 31 < length ops \<longrightarrow> pos_row_shows F (ops ! (i div 31)) (R ! i)) \<and>
      (\<forall>n. \<forall>i < degree. S n ! i = (if i div 31 < length ops \<and> op_sel (ops ! (i div 31)) n then 1 else 0))"
proof -
  note new = submachine_new_view[OF assms(2,3), folded assms(4)]
  have cols: "st_cols t = poseidon_col_names" using new(3) by (simp add: PoseidonGlMachine_def)
  have "length poseidon_col_names = 58" by (simp add: poseidon_col_names_def)
  then have fit: "fits t 58 degree" using assms(8) by (simp add: fits_def cols)
  let ?R = "pos_rows F ops degree" and ?S = "pos_sel ops degree"
  have "run_submachine_extra (PoseidonGlMachine F) t ops degree
      = Some (with_namespace ns (columns poseidon_col_names ?R @ sels names ?S))"
    using run_poseidon[OF assms(1) new(2) assms(5-7) cols fit] new(1,4) by simp
  moreover have "cyclic (pos_constraints F degree) (zip (map (\<lambda>i. map (\<lambda>n. ?S n ! i) names) [0..<degree]) ?R)"
    using pos_rows_cyclic[OF assms(1,7,6,5) new(2)] by (simp add: sel_row_def[abs_def])
  moreover have "length ?R = degree"
    using assms(7) length_concat_31[of ops "op_block F"] by (simp add: pos_rows_def)
  moreover have "\<forall>i < degree. i div 31 < length ops \<longrightarrow> pos_row_shows F (ops ! (i div 31)) (?R ! i)"
  proof (intro allI impI)
    fix i assume i: "i < degree" "i div 31 < length ops"
    then have "pos_extra_ok F (snd (snd (ops ! (i div 31))))"
      using bspec[OF assms(5)[unfolded pos_ops_ok_def] nth_mem[OF i(2)]] by (simp add: split_beta)
    with i show "pos_row_shows F (ops ! (i div 31)) (?R ! i)"
      by (simp add: pos_rows_nth[OF assms(7)] row_op_def used_row_shows)
  qed
  moreover have "\<forall>n. \<forall>i < degree. ?S n ! i = (if i div 31 < length ops \<and> op_sel (ops ! (i div 31)) n then 1 else 0)"
    by (simp add: pos_sel_nth[OF assms(7)] row_op_def)
  ultimately show ?thesis by blast
qed

definition sample_permutation :: submachine_operation where
  "sample_permutation = (Some ''main_poseidon_gl::sel[0]'', (0x100, 0x200, 7, 0),
     replicate 12 0 @ the (poseidon_gl goldilocks_field (replicate 12 0)))"

lemma big_goldilocks: "big_field goldilocks_field"
  using gl.field_element_axioms gl_modulus_u32 by (simp add: big_field_def)

lemma sample_permutation_ok: "pos_ops_ok goldilocks_field [''sel[0]''] [sample_permutation]"
proof -
  obtain out where out: "poseidon_gl goldilocks_field (replicate 12 0) = Some out" "length out = 4"
      "\<forall>y \<in> set out. canonical goldilocks_field y"
    using field_element.poseidon_gl_total[OF gl.field_element_axioms, of "replicate 12 0"] by auto
  have "only_column_name ''main_poseidon_gl::sel[0]'' = ''sel[0]''" by (simp add: only_column_name_def)
  with out show ?thesis
    by (auto simp: pos_ops_ok_def sample_permutation_def pos_extra_ok_def canonical_def)
qed

theorem poseidon_machine_correct_witness:
  "\<exists>R S. run_submachine_extra (PoseidonGlMachine goldilocks_field)
        (submachine_trace_new ''main_poseidon_gl'' poseidon_col_names [''sel[0]'']) [sample_permutation] 64
      = Some (with_namespace ''main_poseidon_gl'' (columns poseidon_col_names R @ sels [''sel[0]''] S)) \<and>
    length R = 64 \<and> cyclic (pos_constraints goldilocks_field 64) (zip (map (\<lambda>i. map (\<lambda>n. S n ! i) [''sel[0]'']) [0..<64]) R)"
proof -
  let ?t = "submachine_trace_new ''main_poseidon_gl'' poseidon_col_names [''sel[0]'']"
  have new: "submachine_new (PoseidonGlMachine goldilocks_field) ''main_poseidon_gl''
      [''main_poseidon_gl::time_step'', ''main_poseidon_gl::sel[0]''] = Some ?t"
    by (simp add: submachine_new_def PoseidonGlMachine_def starts_with_def)
  have sel: "[''sel[0]''] = map fst (st_selectors ?t)" by (simp add: submachine_trace_new_def)
  from poseidon_machine_correct[OF big_goldilocks new _ sel sample_permutation_ok, of 64]
  show ?thesis by (simp del: list.map) blast
qed

end
