(* ===== verification/Riscv_Traced.thy ===== *)
theory Riscv_Traced
  imports Riscv_Run "HOL-Library.Code_Target_Nat"
begin

text \<open>
  A whole execution in the trace mode, evaluated: the program of \<open>Riscv_Run\<close> from its statements to the
  filled columns of its registers. The natural numbers are computed in binary here, since the degrees
  are taken modulo \<open>2 ^ 32\<close>.
\<close>

lemma demo_traced:
  "case execute_with_trace goldilocks_field demo_externals 10 demo_asm demo_pil demo_inputs (Some 20) of
     Done ex \<Rightarrow> ex_trace_len ex = 8 | _ \<Rightarrow> False"
  by code_simp

theorem traced_execution_shape_witness:
  "\<exists>ex. execute_with_trace goldilocks_field demo_externals 10 demo_asm demo_pil demo_inputs (Some 20) = Done ex \<and>
     ex_trace_len ex \<le> 20 \<and> (\<exists>rmin rmax. namespace_degree_range demo_pil ''main'' = Some (rmin, rmax) \<and>
       (\<forall>(name, col) \<in> set (ex_trace ex).
          padded (ex_trace_len ex) (max (next_power_of_two (ex_trace_len ex)) (rmin mod 2 ^ 32)) col))"
proof -
  obtain ex where ex: "execute_with_trace goldilocks_field demo_externals 10 demo_asm demo_pil demo_inputs (Some 20) = Done ex"
    using demo_traced by (auto split: outcome.splits)
  have "(20::nat) \<le> 2 ^ 31" by simp
  with traced_execution_shape[OF ex] ex show ?thesis by blast
qed

end
