(* ===== verification/Merkle_Tree.thy ===== *)
theory Merkle_Tree
  imports Btree_Map Riscv_Trace Riscv_Poseidon Goldilocks
begin

text \<open>
  The Merkle tree of memory pages of \<open>riscv/src/continuations/memory_merkle_tree.rs\<close>, with which a
  long execution is cut into chunks: the root hash stands for the whole memory between two chunks,
  and a page is handed to the next chunk with a proof. Only nodes that differ from the hash of an
  all-zero subtree are stored. The invariant \<open>mt_ok\<close> says that every node holds the hash of the
  memory below it; updates keep it and write the memory, and the proof that \<open>get\<close> returns leads from
  the page to the root. The number of levels and the size of a page, constants of the type in the
  code, are arguments; the hash is the Poseidon permutation.
\<close>

unbundle bit_operations_syntax

section \<open>Hashes\<close>

definition hash_cap0 :: "field_desc \<Rightarrow> int list \<Rightarrow> int list \<Rightarrow> int list option" where
  "hash_cap0 F data1 data2 = poseidon_gl F (data1 @ data2 @ [0, 0, 0, 0])"

text \<open>\<open>page.chunks_exact(4)\<close>: a rest of fewer than four words is left out.\<close>

function hash_chunks :: "field_desc \<Rightarrow> int list \<Rightarrow> int list \<Rightarrow> int list option" where
  "hash_chunks F hash page = (if length page < 4 then Some hash
     else do { hash \<leftarrow> hash_cap0 F hash (take 4 page); hash_chunks F hash (drop 4 page) })"
  by pat_completeness auto
termination
  by (relation "measure (\<lambda>(F, hash, page). length page)") auto

declare hash_chunks.simps [simp del]

definition hash_page :: "field_desc \<Rightarrow> int list \<Rightarrow> int list option" where
  "hash_page F page = hash_chunks F [0, 0, 0, 0] page"

section \<open>The tree\<close>

record merkle_tree =
  mt_hashes :: "nat \<times> nat \<rightharpoonup> int list"
  mt_data :: "nat \<rightharpoonup> int list"
  default_hashes :: "int list list"
  zero_page :: "int list"

text \<open>The hashes of zeroed subtrees, the highest level first.\<close>

primrec hash_chain :: "field_desc \<Rightarrow> nat \<Rightarrow> int list \<Rightarrow> int list list option" where
  "hash_chain F 0 hash = Some []"
| "hash_chain F (Suc k) hash = do {
     next_hash \<leftarrow> hash_cap0 F hash hash;
     rest \<leftarrow> hash_chain F k next_hash;
     Some (hash # rest)
   }"

definition default_hashes_per_level :: "field_desc \<Rightarrow> nat \<Rightarrow> nat \<Rightarrow> int list list option" where
  "default_hashes_per_level F n_levels words_per_page = do {
     rust_assert (64 \<ge> n_levels);
     hash \<leftarrow> hash_page F (replicate words_per_page 0);
     result \<leftarrow> hash_chain F n_levels hash;
     Some (rev result)
   }"

definition merkle_new :: "field_desc \<Rightarrow> nat \<Rightarrow> nat \<Rightarrow> merkle_tree option" where
  "merkle_new F n_levels words_per_page = do {
     rust_assert (modulus F = modulus goldilocks_field);
     defaults \<leftarrow> default_hashes_per_level F n_levels words_per_page;
     Some \<lparr> mt_hashes = Map.empty, mt_data = Map.empty, default_hashes = defaults,
       zero_page = replicate words_per_page 0 \<rparr>
   }"

definition get_hash :: "nat \<Rightarrow> merkle_tree \<Rightarrow> nat \<Rightarrow> nat \<Rightarrow> int list option" where
  "get_hash n_levels t level index = do {
     rust_assert (level < n_levels);
     rust_assert (index < 2 ^ level);
     case mt_hashes t (level, index) of
       Some h \<Rightarrow> Some h
     | None \<Rightarrow> vec_get (default_hashes t) level
   }"

definition root_hash :: "nat \<Rightarrow> merkle_tree \<Rightarrow> int list option" where
  "root_hash n_levels t = get_hash n_levels t 0 0"

text \<open>The path from a page to the root.\<close>

definition iter_path :: "nat \<Rightarrow> nat \<Rightarrow> (nat \<times> nat) list" where
  "iter_path n_levels page_index = map (\<lambda>level. (level, drop_bit (n_levels - level - 1) page_index)) (rev [0..<n_levels])"

section \<open>Updates\<close>

fun set_words :: "field_desc \<Rightarrow> int list \<Rightarrow> (nat \<times> int) list \<Rightarrow> int list option" where
  "set_words F page [] = Some page"
| "set_words F page ((index, value) # updates) = do {
     page \<leftarrow> vec_set page index (fe_from F value);
     set_words F page updates
   }"

definition page_of :: "nat \<Rightarrow> merkle_tree \<Rightarrow> nat \<Rightarrow> int list" where
  "page_of words_per_page t page_index = (case mt_data t page_index of Some p \<Rightarrow> p | None \<Rightarrow> replicate words_per_page 0)"

definition update_page_impl ::
  "field_desc \<Rightarrow> nat \<Rightarrow> merkle_tree \<Rightarrow> nat \<Rightarrow> (nat \<times> int) list \<Rightarrow> merkle_tree option" where
  "update_page_impl F words_per_page t page_index updates = do {
     page \<leftarrow> set_words F (page_of words_per_page t page_index) updates;
     Some (t\<lparr>mt_data := (mt_data t)(page_index \<mapsto> page)\<rparr>)
   }"

definition update_leaf_hash :: "field_desc \<Rightarrow> nat \<Rightarrow> merkle_tree \<Rightarrow> nat \<Rightarrow> merkle_tree option" where
  "update_leaf_hash F n_levels t page_index = do {
     page \<leftarrow> mt_data t page_index;
     hash \<leftarrow> hash_page F page;
     Some (t\<lparr>mt_hashes := (mt_hashes t)((n_levels - 1, page_index) \<mapsto> hash)\<rparr>)
   }"

definition update_inner_hash :: "field_desc \<Rightarrow> nat \<Rightarrow> merkle_tree \<Rightarrow> nat \<Rightarrow> nat \<Rightarrow> merkle_tree option" where
  "update_inner_hash F n_levels t level index = do {
     left \<leftarrow> get_hash n_levels t (level + 1) (index * 2);
     right \<leftarrow> get_hash n_levels t (level + 1) (index * 2 + 1);
     new_hash \<leftarrow> hash_cap0 F left right;
     Some (t\<lparr>mt_hashes := (mt_hashes t)((level, index) \<mapsto> new_hash)\<rparr>)
   }"

fun update_inner_hashes :: "field_desc \<Rightarrow> nat \<Rightarrow> merkle_tree \<Rightarrow> (nat \<times> nat) list \<Rightarrow> merkle_tree option" where
  "update_inner_hashes F n_levels t [] = Some t"
| "update_inner_hashes F n_levels t ((level, index) # nodes) = do {
     t \<leftarrow> update_inner_hash F n_levels t level index;
     update_inner_hashes F n_levels t nodes
   }"

definition update_hashes :: "field_desc \<Rightarrow> nat \<Rightarrow> merkle_tree \<Rightarrow> nat \<Rightarrow> merkle_tree option" where
  "update_hashes F n_levels t page_index = do {
     t \<leftarrow> update_leaf_hash F n_levels t page_index;
     update_inner_hashes F n_levels t (drop 1 (iter_path n_levels page_index))
   }"

definition update_page ::
  "field_desc \<Rightarrow> nat \<Rightarrow> nat \<Rightarrow> merkle_tree \<Rightarrow> nat \<Rightarrow> (nat \<times> int) list \<Rightarrow> merkle_tree option" where
  "update_page F n_levels words_per_page t page_index updates = do {
     t \<leftarrow> update_page_impl F words_per_page t page_index updates;
     update_hashes F n_levels t page_index
   }"

definition BYTES_PER_WORD :: nat where
  "BYTES_PER_WORD = 4"

fun organize_updates_by_page ::
  "nat \<Rightarrow> (nat \<times> int) list \<Rightarrow> (nat, (nat \<times> int) list) btree_map \<Rightarrow> (nat, (nat \<times> int) list) btree_map option" where
  "organize_updates_by_page words_per_page [] m = Some m"
| "organize_updates_by_page words_per_page ((addr, value) # updates) m = do {
     rust_assert (addr mod BYTES_PER_WORD = 0);
     rust_assert (words_per_page \<noteq> 0);
     let word_index = addr div BYTES_PER_WORD;
     let page_index = word_index div words_per_page;
     let index_within_page = word_index - page_index * words_per_page;
     let old = (case bt_get m page_index of Some us \<Rightarrow> us | None \<Rightarrow> []);
     organize_updates_by_page words_per_page updates (bt_insert page_index (old @ [(index_within_page, value)]) m)
   }"

text \<open>\<open>level_up\<close>: the parents of sorted nodes, each once.\<close>

definition level_up :: "nat list \<Rightarrow> nat list" where
  "level_up indices = remdups_adj (map (drop_bit 1) indices)"

fun update_leaves ::
  "field_desc \<Rightarrow> nat \<Rightarrow> nat \<Rightarrow> merkle_tree \<Rightarrow> (nat \<times> (nat \<times> int) list) list \<Rightarrow> merkle_tree option" where
  "update_leaves F n_levels words_per_page t [] = Some t"
| "update_leaves F n_levels words_per_page t ((page_index, updates) # rest) = do {
     t \<leftarrow> update_page_impl F words_per_page t page_index updates;
     t \<leftarrow> update_leaf_hash F n_levels t page_index;
     update_leaves F n_levels words_per_page t rest
   }"

fun update_levels :: "field_desc \<Rightarrow> nat \<Rightarrow> merkle_tree \<Rightarrow> nat list \<Rightarrow> nat list \<Rightarrow> merkle_tree option" where
  "update_levels F n_levels t indices [] = Some t"
| "update_levels F n_levels t indices (level # levels) = do {
     let indices = level_up indices;
     t \<leftarrow> update_inner_hashes F n_levels t (map (Pair level) indices);
     update_levels F n_levels t indices levels
   }"

definition merkle_update :: "field_desc \<Rightarrow> nat \<Rightarrow> nat \<Rightarrow> merkle_tree \<Rightarrow> (nat \<times> int) list \<Rightarrow> merkle_tree option" where
  "merkle_update F n_levels words_per_page t updates = do {
     by_page \<leftarrow> organize_updates_by_page words_per_page updates [];
     t \<leftarrow> update_leaves F n_levels words_per_page t by_page;
     update_levels F n_levels t (map fst by_page) (rev [0..<n_levels - 1])
   }"

section \<open>Proofs of pages\<close>

fun sibling_hashes :: "nat \<Rightarrow> merkle_tree \<Rightarrow> (nat \<times> nat) list \<Rightarrow> int list list option" where
  "sibling_hashes n_levels t [] = Some []"
| "sibling_hashes n_levels t ((level, index) # nodes) = do {
     h \<leftarrow> get_hash n_levels t level (index XOR 1);
     hs \<leftarrow> sibling_hashes n_levels t nodes;
     Some (h # hs)
   }"

definition merkle_get :: "nat \<Rightarrow> merkle_tree \<Rightarrow> nat \<Rightarrow> (int list \<times> int list \<times> int list list) option" where
  "merkle_get n_levels t page_index = do {
     proof_hashes \<leftarrow> sibling_hashes n_levels t (take (n_levels - 1) (iter_path n_levels page_index));
     rust_assert (length proof_hashes = n_levels - 1);
     page_hash \<leftarrow> get_hash n_levels t (n_levels - 1) page_index;
     let page_data = (case mt_data t page_index of Some p \<Rightarrow> p | None \<Rightarrow> zero_page t);
     Some (page_data, page_hash, proof_hashes)
   }"

section \<open>Hashes are total\<close>

lemma poseidon_gl_four: "length xs = 12 \<Longrightarrow> \<exists>h. poseidon_gl F xs = Some h \<and> length h = 4"
proof -
  have "length (fold (poseidon_round F) rs xs) = 12" if "length xs = 12" for rs xs
    using that by (induction rs arbitrary: xs) simp_all
  then show "length xs = 12 \<Longrightarrow> ?thesis" by (simp add: poseidon_gl_def)
qed

lemma hash_cap0_total:
  "length a = 4 \<Longrightarrow> length b = 4 \<Longrightarrow> \<exists>h. hash_cap0 F a b = Some h \<and> length h = 4"
  unfolding hash_cap0_def by (rule poseidon_gl_four) simp

lemma hash_chunks_total: "length h = 4 \<Longrightarrow> \<exists>h'. hash_chunks F h page = Some h' \<and> length h' = 4"
proof (induction F h page rule: hash_chunks.induct)
  case (1 F h page)
  show ?case
  proof (cases "length page < 4")
    case True
    with 1(2) show ?thesis by (subst hash_chunks.simps) simp
  next
    case False
    then obtain h' where "hash_cap0 F h (take 4 page) = Some h'" "length h' = 4"
      using hash_cap0_total[OF 1(2), of "take 4 page"] by auto
    with 1(1)[OF False] False show ?thesis by (subst hash_chunks.simps) simp
  qed
qed

lemma hash_page_total: "\<exists>h. hash_page F page = Some h \<and> length h = 4"
  unfolding hash_page_def by (rule hash_chunks_total) simp

section \<open>The hash of a memory\<close>

text \<open>The hash of the subtree of height \<open>h\<close> over the pages \<open>i * 2 ^ h\<close> up to \<open>i * 2 ^ h + 2 ^ h - 1\<close>.\<close>

primrec node_hash :: "field_desc \<Rightarrow> (nat \<Rightarrow> int list) \<Rightarrow> nat \<Rightarrow> nat \<Rightarrow> int list" where
  "node_hash F pages 0 i = the (hash_page F (pages i))"
| "node_hash F pages (Suc h) i = the (hash_cap0 F (node_hash F pages h (2 * i)) (node_hash F pages h (2 * i + 1)))"

lemma node_hash_length [simp]: "length (node_hash F pages h i) = 4"
proof (induction h arbitrary: i)
  case 0
  show ?case using hash_page_total[of F "pages i"] by auto
next
  case (Suc h)
  show ?case using hash_cap0_total[OF Suc Suc, of F "2 * i" "2 * i + 1"] by auto
qed

lemma hash_page_node: "hash_page F (pages i) = Some (node_hash F pages 0 i)"
  using hash_page_total[of F "pages i"] by auto

lemma hash_cap0_node:
  "hash_cap0 F (node_hash F pages h (2 * i)) (node_hash F pages h (2 * i + 1)) = Some (node_hash F pages (Suc h) i)"
  using hash_cap0_total[of "node_hash F pages h (2 * i)" "node_hash F pages h (2 * i + 1)" F] by auto

lemma node_hash_cong:
  "(\<And>p. p div 2 ^ h = i \<Longrightarrow> pages p = pages' p) \<Longrightarrow> node_hash F pages h i = node_hash F pages' h i"
proof (induction h arbitrary: i)
  case (Suc h)
  have "pages p = pages' p" if "p div 2 ^ h = 2 * i \<or> p div 2 ^ h = 2 * i + 1" for p
  proof (rule Suc.prems)
    have "p div 2 ^ Suc h = p div 2 ^ h div 2" by (simp only: power_Suc2 div_mult2_eq)
    with that show "p div 2 ^ Suc h = i" by auto
  qed
  then have "node_hash F pages h (2 * i) = node_hash F pages' h (2 * i)"
    "node_hash F pages h (2 * i + 1) = node_hash F pages' h (2 * i + 1)"
    by (auto intro!: Suc.IH)
  then show ?case by simp
qed simp

text \<open>The invariant of the tree.\<close>

definition node_ok :: "field_desc \<Rightarrow> nat \<Rightarrow> merkle_tree \<Rightarrow> (nat \<Rightarrow> int list) \<Rightarrow> nat \<times> nat \<Rightarrow> bool" where
  "node_ok F n t pages nd \<longleftrightarrow> (case nd of (level, i) \<Rightarrow>
     level < n \<and> i < 2 ^ level \<longrightarrow> get_hash n t level i = Some (node_hash F pages (n - 1 - level) i))"

definition mt_ok :: "field_desc \<Rightarrow> nat \<Rightarrow> nat \<Rightarrow> merkle_tree \<Rightarrow> bool" where
  "mt_ok F n wpp t \<longleftrightarrow> 0 < n \<and> 0 < wpp \<and> zero_page t = replicate wpp 0 \<and> (\<forall>p d. mt_data t p = Some d \<longrightarrow> length d = wpp) \<and>
     (\<forall>nd. node_ok F n t (page_of wpp t) nd)"

section \<open>The empty tree\<close>

lemma node_hash_same: "(\<And>p. pages p = page) \<Longrightarrow> node_hash F pages g i = node_hash F pages g j"
  by (induction g arbitrary: i j) (simp_all, metis)

lemma hash_chain_nodes:
  assumes "\<And>p. pages p = page"
  shows "hash_chain F k (node_hash F pages h 0) = Some (map (\<lambda>j. node_hash F pages (h + j) 0) [0..<k])"
proof (induction k arbitrary: h)
  case (Suc k)
  have "node_hash F pages h 1 = node_hash F pages h 0" by (rule node_hash_same) (rule assms)
  then have "hash_cap0 F (node_hash F pages h 0) (node_hash F pages h 0) = Some (node_hash F pages (Suc h) 0)"
    using hash_cap0_node[of F pages h 0] by (simp del: node_hash.simps)
  with Suc show ?case
    by (simp add: map_upt_Suc del: upt_Suc node_hash.simps)
qed simp

lemma merkle_new_ok:
  assumes "0 < n" "n \<le> 64" "0 < wpp" "modulus F = modulus goldilocks_field"
  shows "\<exists>t. merkle_new F n wpp = Some t \<and> mt_ok F n wpp t \<and> mt_data t = Map.empty"
proof -
  let ?pages = "\<lambda>_. replicate wpp 0"
  have d: "default_hashes_per_level F n wpp = Some (rev (map (\<lambda>j. node_hash F ?pages j 0) [0..<n]))"
    using assms(2) hash_chain_nodes[of ?pages "replicate wpp 0" F n 0] hash_page_node[of F ?pages 0]
    by (simp add: default_hashes_per_level_def del: node_hash.simps)
  have same: "node_hash F ?pages g i = node_hash F ?pages g 0" for g i
    by (rule node_hash_same) simp
  let ?t = "\<lparr> mt_hashes = Map.empty, mt_data = Map.empty,
    default_hashes = rev (map (\<lambda>j. node_hash F ?pages j 0) [0..<n]), zero_page = replicate wpp 0 \<rparr>"
  have p: "page_of wpp ?t = ?pages" by (rule ext) (simp add: page_of_def)
  have "get_hash n ?t level i = Some (node_hash F ?pages (n - 1 - level) i)" if "level < n" "i < 2 ^ level" for level i
    unfolding same[of _ i] using that by (simp add: get_hash_def vec_get_def rev_nth del: node_hash.simps)
  then have "node_ok F n ?t (page_of wpp ?t) (level, i)" for level i
    unfolding p by (simp add: node_ok_def del: node_hash.simps)
  with assms have "mt_ok F n wpp ?t" by (simp add: mt_ok_def)
  with d assms(4) show ?thesis by (simp add: merkle_new_def)
qed

section \<open>Updating the hashes\<close>

text \<open>The nodes above a page.\<close>

definition cover :: "nat \<Rightarrow> nat set \<Rightarrow> nat \<Rightarrow> nat set" where
  "cover n P level = (\<lambda>p. p div 2 ^ (n - 1 - level)) ` P"

lemma cover_step: "level + 1 < n \<Longrightarrow> (\<lambda>i. i div 2) ` cover n P (level + 1) = cover n P level"
proof -
  assume "level + 1 < n"
  then have "n - 1 - level = Suc (n - 1 - (level + 1))" by simp
  then have "p div 2 ^ (n - 1 - level) = p div 2 ^ (n - 1 - (level + 1)) div 2" for p :: nat
    by (simp only: power_Suc2 div_mult2_eq)
  then show ?thesis by (simp add: cover_def image_image)
qed

lemma cover_bound:
  assumes "\<forall>p \<in> P. p < 2 ^ (n - 1)" "level < n" "i \<in> cover n P level"
  shows "i < 2 ^ level"
proof -
  obtain p where p: "p \<in> P" "i = p div 2 ^ (n - 1 - level)" using assms(3) by (auto simp: cover_def)
  have "p < 2 ^ level * 2 ^ (n - 1 - level)" using assms(1,2) p(1) by (simp flip: power_add)
  then show ?thesis by (simp add: p(2) less_mult_imp_div_less)
qed

lemma get_hash_insert:
  "get_hash n (t\<lparr>mt_hashes := (mt_hashes t)((l, j) \<mapsto> h)\<rparr>) level i =
     (if (level, i) = (l, j) \<and> level < n \<and> i < 2 ^ level then Some h else get_hash n t level i)"
  by (auto simp: get_hash_def rust_assert_def split: option.split)

text \<open>Hashing the nodes of one level from the level below.\<close>

lemma update_inner_hashes_level:
  assumes "level + 1 < n" "\<forall>i. node_ok F n t pages (level + 1, i)" "\<forall>i \<in> set is. i < 2 ^ level"
  shows "\<exists>t'. update_inner_hashes F n t (map (Pair level) is) = Some t' \<and> mt_data t' = mt_data t \<and> zero_page t' = zero_page t \<and>
    (\<forall>l i. get_hash n t' l i = (if l = level \<and> i \<in> set is then Some (node_hash F pages (n - 1 - level) i) else get_hash n t l i))"
  using assms(2,3)
proof (induction "is" arbitrary: t)
  case (Cons i "is")
  have i: "i * 2 < 2 ^ (level + 1)" "i * 2 + 1 < 2 ^ (level + 1)" "i < 2 ^ level" using Cons.prems(2) by auto
  have h: "n - 1 - level = Suc (n - 1 - (level + 1))" using assms(1) by simp
  have ok: "get_hash n t (level + 1) j = Some (node_hash F pages (n - 1 - (level + 1)) j)" if "j < 2 ^ (level + 1)" for j
    using Cons.prems(1) that assms(1) by (simp add: node_ok_def)
  define t1 where "t1 = t\<lparr>mt_hashes := (mt_hashes t)((level, i) \<mapsto> node_hash F pages (n - 1 - level) i)\<rparr>"
  have u: "update_inner_hash F n t level i = Some t1"
    unfolding update_inner_hash_def ok[OF i(1)] ok[OF i(2)] h t1_def
    using hash_cap0_node[of F pages "n - 1 - (level + 1)" i] by (simp add: mult.commute del: node_hash.simps)
  have g: "get_hash n t1 l j = (if l = level \<and> j = i then Some (node_hash F pages (n - 1 - level) i) else get_hash n t l j)" for l j
    using assms(1) i(3) by (simp add: t1_def get_hash_insert)
  then have "\<forall>j. node_ok F n t1 pages (level + 1, j)" using Cons.prems(1) by (simp add: node_ok_def)
  then obtain t' where t': "update_inner_hashes F n t1 (map (Pair level) is) = Some t'" "mt_data t' = mt_data t1" "zero_page t' = zero_page t1"
    "\<forall>l j. get_hash n t' l j = (if l = level \<and> j \<in> set is then Some (node_hash F pages (n - 1 - level) j) else get_hash n t1 l j)"
    using Cons.IH[of t1] Cons.prems(2) by auto
  then show ?case using u g by (auto simp: t1_def)
qed simp

lemma update_levels_ok:
  assumes "k < n" "\<forall>p \<in> P. p < 2 ^ (n - 1)" "set is = cover n P k"
    and "\<forall>l i. k \<le> l \<longrightarrow> node_ok F n t pages (l, i)"
    and "\<forall>l i. l < k \<and> i \<notin> cover n P l \<longrightarrow> node_ok F n t pages (l, i)"
  shows "\<exists>t'. update_levels F n t is (rev [0..<k]) = Some t' \<and> mt_data t' = mt_data t \<and> zero_page t' = zero_page t \<and>
    (\<forall>nd. node_ok F n t' pages nd)"
  using assms
proof (induction k arbitrary: "is" t)
  case 0
  then show ?case by auto
next
  case (Suc k)
  have up: "set (level_up is) = cover n P k"
    using Suc.prems(1,3) cover_step[of k n P] by (simp add: level_up_def drop_bit_eq_div)
  then obtain t1 where t1: "update_inner_hashes F n t (map (Pair k) (level_up is)) = Some t1" "mt_data t1 = mt_data t" "zero_page t1 = zero_page t"
    "\<forall>l i. get_hash n t1 l i = (if l = k \<and> i \<in> cover n P k then Some (node_hash F pages (n - 1 - k) i) else get_hash n t l i)"
    using update_inner_hashes_level[of k n F t pages "level_up is"] Suc.prems(1,2,4) cover_bound[of P n k] by auto
  have "node_ok F n t1 pages (l, i)" if "k \<le> l" for l i
    using t1(4) Suc.prems(4,5) that by (cases "l = k") (auto simp: node_ok_def)
  then have "\<forall>l i. k \<le> l \<longrightarrow> node_ok F n t1 pages (l, i)" by blast
  moreover have "\<forall>l i. l < k \<and> i \<notin> cover n P l \<longrightarrow> node_ok F n t1 pages (l, i)"
    using t1(4) Suc.prems(5) by (auto simp: node_ok_def)
  ultimately obtain t' where "update_levels F n t1 (level_up is) (rev [0..<k]) = Some t'" "mt_data t' = mt_data t1" "zero_page t' = zero_page t1"
    "\<forall>nd. node_ok F n t' pages nd"
    using Suc.IH[OF _ Suc.prems(2) up, of t1] Suc.prems(1) by auto
  with t1 show ?case by (auto simp: Let_def)
qed

section \<open>Updating the pages\<close>

definition words_written :: "field_desc \<Rightarrow> (nat \<times> int) list \<Rightarrow> int list \<Rightarrow> int list" where
  "words_written F us page = fold (\<lambda>(i, v) p. p[i := fe_from F v]) us page"

lemma words_written_length [simp]: "length (words_written F us page) = length page"
  by (induction us arbitrary: page) (auto simp: words_written_def)

lemma set_words_total: "\<forall>(i, v) \<in> set us. i < length page \<Longrightarrow> set_words F page us = Some (words_written F us page)"
  by (induction F page us rule: set_words.induct) (auto simp: vec_set_def words_written_def)

lemma update_leaf_total:
  assumes "length (page_of wpp t p) = wpp" "\<forall>(i, v) \<in> set us. i < wpp" "page = words_written F us (page_of wpp t p)"
  shows "(do { t \<leftarrow> update_page_impl F wpp t p us; update_leaf_hash F n t p }) =
    Some (t\<lparr>mt_data := (mt_data t)(p \<mapsto> page), mt_hashes := (mt_hashes t)((n - 1, p) \<mapsto> the (hash_page F page))\<rparr>)"
  using assms set_words_total[of us "page_of wpp t p" F] hash_page_total[of F page]
  by (auto simp: update_page_impl_def update_leaf_hash_def)

text \<open>The state after the leaves of \<open>us\<close> are written: the pages hold the new words, and exactly the
  hashes of these leaves have changed.\<close>

definition leaves_written :: "field_desc \<Rightarrow> nat \<Rightarrow> nat \<Rightarrow> merkle_tree \<Rightarrow> (nat \<times> (nat \<times> int) list) list \<Rightarrow> merkle_tree \<Rightarrow> bool" where
  "leaves_written F n wpp t bp t' \<longleftrightarrow> zero_page t' = zero_page t \<and>
     (\<forall>p. page_of wpp t' p = (case map_of bp p of Some us \<Rightarrow> words_written F us (page_of wpp t p) | None \<Rightarrow> page_of wpp t p)) \<and>
     (\<forall>p d. mt_data t' p = Some d \<longrightarrow> length d = wpp) \<and>
     (\<forall>l i. get_hash n t' l i = (if l = n - 1 \<and> i \<in> fst ` set bp \<and> i < 2 ^ l then hash_page F (page_of wpp t' i) else get_hash n t l i))"

lemma update_leaves_total:
  assumes "0 < n" "\<forall>p d. mt_data t p = Some d \<longrightarrow> length d = wpp" "distinct (map fst bp)"
    and "\<forall>(p, us) \<in> set bp. \<forall>(i, v) \<in> set us. i < wpp"
  shows "\<exists>t'. update_leaves F n wpp t bp = Some t' \<and> leaves_written F n wpp t bp t'"
  using assms(2-4)
proof (induction bp arbitrary: t)
  case Nil
  then show ?case by (simp add: leaves_written_def)
next
  case (Cons pu bp)
  obtain p us where pu: "pu = (p, us)" by (cases pu)
  let ?page = "words_written F us (page_of wpp t p)"
  define t1 where "t1 = t\<lparr>mt_data := (mt_data t)(p \<mapsto> ?page), mt_hashes := (mt_hashes t)((n - 1, p) \<mapsto> the (hash_page F ?page))\<rparr>"
  have len: "length (page_of wpp t q) = wpp" for q using Cons.prems(1) by (auto simp: page_of_def split: option.split)
  have step: "(do { t \<leftarrow> update_page_impl F wpp t p us; update_leaf_hash F n t p }) = Some t1"
    unfolding t1_def using len Cons.prems(3) by (intro update_leaf_total) (simp_all add: pu)
  have d1: "page_of wpp t1 q = (if q = p then ?page else page_of wpp t q)" for q by (simp add: page_of_def t1_def)
  have h1: "get_hash n t1 l i = (if l = n - 1 \<and> i = p \<and> i < 2 ^ l then hash_page F ?page else get_hash n t l i)" for l i
  proof -
    have "get_hash n t1 l i = get_hash n (t\<lparr>mt_hashes := (mt_hashes t)((n - 1, p) \<mapsto> the (hash_page F ?page))\<rparr>) l i"
      by (simp add: t1_def get_hash_def cong: option.case_cong)
    then show ?thesis using assms(1) hash_page_total[of F ?page] by (auto simp: get_hash_insert)
  qed
  have p: "map_of bp p = None" "p \<notin> fst ` set bp" using Cons.prems(2) by (simp_all add: pu map_of_eq_None_iff)
  have "\<forall>q d. mt_data t1 q = Some d \<longrightarrow> length d = wpp" using Cons.prems(1) len by (simp add: t1_def)
  then obtain t' where t': "update_leaves F n wpp t1 bp = Some t'" "leaves_written F n wpp t1 bp t'"
    using Cons.IH[of t1] Cons.prems(2,3) by (auto simp: pu)
  have "leaves_written F n wpp t (pu # bp) t'"
    using t'(2) p d1 h1 unfolding leaves_written_def by (auto simp: pu t1_def split: option.split)
  moreover have "update_leaves F n wpp t (pu # bp) = Some t'"
    using step t'(1) by (simp add: pu flip: bind_assoc)
  ultimately show ?case by blast
qed

section \<open>Grouping the updates\<close>

definition page_updates :: "nat \<Rightarrow> (nat \<times> int) list \<Rightarrow> nat \<Rightarrow> (nat \<times> int) list" where
  "page_updates wpp ups p =
     map (\<lambda>(a, v). (a div BYTES_PER_WORD mod wpp, v)) (filter (\<lambda>(a, v). a div BYTES_PER_WORD div wpp = p) ups)"

definition bt_list :: "(nat, 'v list) btree_map \<Rightarrow> nat \<Rightarrow> 'v list" where
  "bt_list m p = (case bt_get m p of Some l \<Rightarrow> l | None \<Rightarrow> [])"

lemma organize_updates:
  assumes "0 < wpp" "\<forall>(a, v) \<in> set ups. a mod BYTES_PER_WORD = 0" "bt_sorted m"
  shows "\<exists>m'. organize_updates_by_page wpp ups m = Some m' \<and> bt_sorted m' \<and>
    fst ` set m' = fst ` set m \<union> (\<lambda>(a, v). a div BYTES_PER_WORD div wpp) ` set ups \<and>
    (\<forall>p. bt_list m' p = bt_list m p @ page_updates wpp ups p)"
  using assms(2,3)
proof (induction ups arbitrary: m)
  case Nil
  then show ?case by (simp add: page_updates_def)
next
  case (Cons u ups)
  obtain a v where u: "u = (a, v)" by (cases u)
  let ?p = "a div BYTES_PER_WORD div wpp" and ?i = "a div BYTES_PER_WORD mod wpp"
  let ?m = "bt_insert ?p (bt_list m ?p @ [(?i, v)]) m"
  have i: "a div BYTES_PER_WORD - ?p * wpp = ?i" by (simp add: modulo_nat_def mult.commute)
  have s: "bt_sorted ?m" using Cons.prems(2) by (rule bt_insert_sorted)
  obtain m' where m': "organize_updates_by_page wpp ups ?m = Some m'" "bt_sorted m'"
    "fst ` set m' = fst ` set ?m \<union> (\<lambda>(a, v). a div BYTES_PER_WORD div wpp) ` set ups"
    "\<forall>p. bt_list m' p = bt_list ?m p @ page_updates wpp ups p"
    using Cons.IH[OF _ s] Cons.prems(1) by auto
  have "organize_updates_by_page wpp (u # ups) m = Some m'"
    using Cons.prems(1) assms(1) m'(1) by (simp add: u i bt_list_def)
  moreover have "bt_list m' p = bt_list m p @ page_updates wpp (u # ups) p" for p
    using m'(4) bt_get_insert[OF Cons.prems(2)] by (simp add: u bt_list_def page_updates_def)
  moreover have "fst ` set m' = fst ` set m \<union> (\<lambda>(a, v). a div BYTES_PER_WORD div wpp) ` set (u # ups)"
    using m'(3) by (auto simp: u bt_insert_keys)
  ultimately show ?case using m'(2) by blast
qed

section \<open>The memory\<close>

text \<open>The word at a word index, and the effect of the updates on it.\<close>

definition mem_word :: "nat \<Rightarrow> merkle_tree \<Rightarrow> nat \<Rightarrow> int" where
  "mem_word wpp t w = page_of wpp t (w div wpp) ! (w mod wpp)"

definition write_all :: "field_desc \<Rightarrow> (nat \<times> int) list \<Rightarrow> (nat \<Rightarrow> int) \<Rightarrow> nat \<Rightarrow> int" where
  "write_all F ups M = fold (\<lambda>(a, v) M. M(a div BYTES_PER_WORD := fe_from F v)) ups M"

lemma update_Cons:
  "write_all F ((a, v) # ups) M = write_all F ups (M(a div BYTES_PER_WORD := fe_from F v))"
  "words_written F ((i, v) # us) page = words_written F us (page[i := fe_from F v])"
  "page_updates wpp ((a, v) # ups) p = (if a div BYTES_PER_WORD div wpp = p
     then (a div BYTES_PER_WORD mod wpp, v) # page_updates wpp ups p else page_updates wpp ups p)"
  by (simp_all add: write_all_def words_written_def page_updates_def)

lemma leaves_written_other: "leaves_written F n wpp t bp t1 \<Longrightarrow> p \<notin> fst ` set bp \<Longrightarrow> page_of wpp t1 p = page_of wpp t p"
proof -
  assume t1: "leaves_written F n wpp t bp t1" and "p \<notin> fst ` set bp"
  then have "map_of bp p = None" by (simp add: map_of_eq_None_iff)
  with t1 show ?thesis by (simp add: leaves_written_def)
qed

lemma page_updates_words:
  assumes "0 < wpp" "length page = wpp" "page ! (w mod wpp) = M w"
  shows "words_written F (page_updates wpp ups (w div wpp)) page ! (w mod wpp) = write_all F ups M w"
  using assms(2,3)
proof (induction ups arbitrary: page M)
  case (Cons u ups)
  obtain a v where u: "u = (a, v)" by (cases u)
  let ?x = "a div BYTES_PER_WORD"
  have same: "?x = w \<longleftrightarrow> ?x div wpp = w div wpp \<and> ?x mod wpp = w mod wpp" by (metis div_mod_decomp)
  have w: "w mod wpp < length page" using assms(1) Cons.prems(1) by simp
  show ?case
  proof (cases "?x div wpp = w div wpp")
    case True
    have "page[?x mod wpp := fe_from F v] ! (w mod wpp) = (M(?x := fe_from F v)) w"
      using same True w Cons.prems(2) by (cases "?x = w") (auto simp: nth_list_update)
    moreover have "page_updates wpp (u # ups) (w div wpp) = (?x mod wpp, v) # page_updates wpp ups (w div wpp)"
      by (simp add: u update_Cons True)
    ultimately show ?thesis
      using Cons.IH[of "page[?x mod wpp := fe_from F v]" "M(?x := fe_from F v)"] Cons.prems(1)
      by (simp only: update_Cons(1,2) u length_list_update)
  next
    case False
    with same have "page ! (w mod wpp) = (M(?x := fe_from F v)) w" using Cons.prems(2) by auto
    moreover have "page_updates wpp (u # ups) (w div wpp) = page_updates wpp ups (w div wpp)"
      by (simp add: u update_Cons False)
    ultimately show ?thesis using Cons.IH[of page "M(?x := fe_from F v)"] Cons.prems(1) by (simp only: update_Cons(1) u)
  qed
qed (simp add: page_updates_def words_written_def write_all_def)

lemma mt_ok_page: "mt_ok F n wpp t \<Longrightarrow> length (page_of wpp t p) = wpp"
  by (auto simp: mt_ok_def page_of_def split: option.split)

text \<open>Updated leaves, updated levels: the invariant holds again.\<close>

lemma leaves_levels_ok:
  assumes "mt_ok F n wpp t" "leaves_written F n wpp t bp t1" "\<forall>p \<in> fst ` set bp. p < 2 ^ (n - 1)"
  shows "\<exists>t'. update_levels F n t1 (map fst bp) (rev [0..<n - 1]) = Some t' \<and> mt_ok F n wpp t' \<and> mt_data t' = mt_data t1"
proof -
  let ?P = "fst ` set bp"
  have n: "n - 1 < n" "0 < wpp" using assms(1) by (simp_all add: mt_ok_def)
  have "set (map fst bp) = cover n ?P (n - 1)" by (simp add: cover_def)
  moreover have leaf: "node_ok F n t1 (page_of wpp t1) (l, i)" if "n - 1 \<le> l" for l i
  proof (cases "l = n - 1 \<and> i \<in> ?P \<and> i < 2 ^ l")
    case True
    with assms(2) show ?thesis using hash_page_node[of F "page_of wpp t1" i]
      by (simp add: leaves_written_def node_ok_def del: node_hash.simps)
  next
    case False
    have "get_hash n t1 l i = Some (node_hash F (page_of wpp t1) (n - 1 - l) i)" if l: "l < n" "i < 2 ^ l"
    proof -
      have l': "l = n - 1" using l(1) \<open>n - 1 \<le> l\<close> by simp
      with False l(2) have i: "i \<notin> ?P" by simp
      have "get_hash n t1 l i = get_hash n t l i" using assms(2) i by (simp add: leaves_written_def)
      also have "\<dots> = Some (node_hash F (page_of wpp t) (n - 1 - l) i)" using assms(1) l by (simp add: mt_ok_def node_ok_def)
      also have "\<dots> = Some (node_hash F (page_of wpp t1) (n - 1 - l) i)" by (simp add: l' leaves_written_other[OF assms(2) i])
      finally show ?thesis .
    qed
    then show ?thesis by (simp add: node_ok_def)
  qed
  moreover have "node_ok F n t1 (page_of wpp t1) (l, i)" if "l < n - 1" "i \<notin> cover n ?P l" for l i
  proof -
    have "node_hash F (page_of wpp t1) (n - 1 - l) i = node_hash F (page_of wpp t) (n - 1 - l) i"
    proof (rule node_hash_cong)
      fix p assume "p div 2 ^ (n - 1 - l) = i"
      then have "p \<notin> ?P" using that(2) by (auto simp: cover_def)
      then show "page_of wpp t1 p = page_of wpp t p" by (rule leaves_written_other[OF assms(2)])
    qed
    with assms(1,2) that(1) show ?thesis by (auto simp: leaves_written_def node_ok_def mt_ok_def)
  qed
  ultimately obtain t' where t': "update_levels F n t1 (map fst bp) (rev [0..<n - 1]) = Some t'" "mt_data t' = mt_data t1"
    "zero_page t' = zero_page t1" "\<forall>nd. node_ok F n t' (page_of wpp t1) nd"
    using update_levels_ok[OF n(1) assms(3), of "map fst bp" F t1 "page_of wpp t1"] by blast
  have "page_of wpp t' = page_of wpp t1" by (rule ext) (simp add: page_of_def t'(2))
  with t' n assms(1,2) have "mt_ok F n wpp t'" by (simp add: mt_ok_def leaves_written_def)
  with t' show ?thesis by blast
qed

lemma update_total:
  assumes "mt_ok F n wpp t" "\<forall>(a, v) \<in> set ups. a mod BYTES_PER_WORD = 0 \<and> a div BYTES_PER_WORD div wpp < 2 ^ (n - 1)"
  shows "\<exists>t'. merkle_update F n wpp t ups = Some t' \<and> mt_ok F n wpp t' \<and> mem_word wpp t' = write_all F ups (mem_word wpp t)"
proof -
  have n: "0 < n" "0 < wpp" "\<forall>p d. mt_data t p = Some d \<longrightarrow> length d = wpp" using assms(1) by (auto simp: mt_ok_def)
  obtain bp where bp: "organize_updates_by_page wpp ups [] = Some bp" "bt_sorted bp"
    "fst ` set bp = (\<lambda>(a, v). a div BYTES_PER_WORD div wpp) ` set ups" "\<forall>p. bt_list bp p = page_updates wpp ups p"
    using organize_updates[OF n(2), of ups "[]"] assms(2) by (fastforce simp: bt_sorted_def bt_list_def bt_get_def)
  have look: "map_of bp p = Some us \<Longrightarrow> us = page_updates wpp ups p" "map_of bp p = None \<Longrightarrow> page_updates wpp ups p = []" for p us
    using bp(4)[rule_format, of p] by (simp_all add: bt_list_def bt_get_def)
  have dist: "distinct (map fst bp)" using bp(2) by (rule bt_sorted_distinct)
  have "i < wpp" if "(p, us) \<in> set bp" "(i, v) \<in> set us" for p us i v
  proof -
    have "us = page_updates wpp ups p" using look(1) that(1) dist by simp
    with that(2) n(2) show ?thesis by (auto simp: page_updates_def)
  qed
  then have "\<forall>(p, us) \<in> set bp. \<forall>(i, v) \<in> set us. i < wpp" by blast
  then obtain t1 where t1: "update_leaves F n wpp t bp = Some t1" "leaves_written F n wpp t bp t1"
    using update_leaves_total[OF n(1,3) dist] by blast
  have small: "\<forall>p \<in> fst ` set bp. p < 2 ^ (n - 1)" unfolding bp(3) using assms(2) by auto
  obtain t' where t': "update_levels F n t1 (map fst bp) (rev [0..<n - 1]) = Some t'" "mt_ok F n wpp t'" "mt_data t' = mt_data t1"
    using leaves_levels_ok[OF assms(1) t1(2)] small by blast
  have pages: "page_of wpp t' p = words_written F (page_updates wpp ups p) (page_of wpp t p)" for p
  proof -
    have "page_of wpp t' p = page_of wpp t1 p" by (simp add: page_of_def t'(3))
    also have "\<dots> = words_written F (page_updates wpp ups p) (page_of wpp t p)"
    proof (cases "map_of bp p")
      case None
      then show ?thesis using t1(2) look(2)[OF None] by (simp add: leaves_written_def words_written_def)
    next
      case (Some us)
      then show ?thesis using t1(2) look(1)[OF Some] by (simp add: leaves_written_def)
    qed
    finally show ?thesis .
  qed
  have "length (page_of wpp t p) = wpp" for p using n(3) by (auto simp: page_of_def split: option.split)
  then have "mem_word wpp t' w = write_all F ups (mem_word wpp t) w" for w
    unfolding mem_word_def[of wpp t'] pages using n(2) by (intro page_updates_words) (simp_all add: mem_word_def)
  with t' t1(1) bp(1) show ?thesis by (auto simp: merkle_update_def)
qed

lemma update_path:
  "k < n \<Longrightarrow> update_inner_hashes F n t (map (\<lambda>l. (l, page div 2 ^ (n - 1 - l))) (rev [0..<k]))
     = update_levels F n t [page div 2 ^ (n - 1 - k)] (rev [0..<k])"
proof (induction k arbitrary: t)
  case (Suc k)
  then have "n - 1 - k = Suc (n - 1 - Suc k)" by simp
  then have "page div 2 ^ (n - 1 - k) = page div 2 ^ (n - 1 - Suc k) div 2" by (simp only: power_Suc2 div_mult2_eq)
  then have up: "level_up [page div 2 ^ (n - 1 - Suc k)] = [page div 2 ^ (n - 1 - k)]"
    by (simp add: level_up_def drop_bit_eq_div)
  have "update_levels F n t [page div 2 ^ (n - 1 - Suc k)] (k # rev [0..<k])
      = update_inner_hash F n t k (page div 2 ^ (n - 1 - k)) \<bind> (\<lambda>t. update_levels F n t [page div 2 ^ (n - 1 - k)] (rev [0..<k]))"
    by (simp only: update_levels.simps Let_def up list.map update_inner_hashes.simps bind_runit)
  with Suc show ?case by simp
qed simp

lemma iter_path_tail: "drop 1 (iter_path n page) = map (\<lambda>l. (l, page div 2 ^ (n - 1 - l))) (rev [0..<n - 1])"
  by (cases n) (simp_all add: iter_path_def drop_bit_eq_div)

lemma update_page_total:
  assumes "mt_ok F n wpp t" "p < 2 ^ (n - 1)" "\<forall>(i, v) \<in> set us. i < wpp"
  shows "\<exists>t'. update_page F n wpp t p us = Some t' \<and> mt_ok F n wpp t' \<and>
    page_of wpp t' = (page_of wpp t)(p := words_written F us (page_of wpp t p))"
proof -
  have n: "0 < n" "\<forall>p d. mt_data t p = Some d \<longrightarrow> length d = wpp" using assms(1) by (auto simp: mt_ok_def)
  obtain t1 where t1: "update_leaves F n wpp t [(p, us)] = Some t1" "leaves_written F n wpp t [(p, us)] t1"
    using update_leaves_total[OF n, of "[(p, us)]"] assms(3) by auto
  obtain t' where t': "update_levels F n t1 [p] (rev [0..<n - 1]) = Some t'" "mt_ok F n wpp t'" "mt_data t' = mt_data t1"
    using leaves_levels_ok[OF assms(1) t1(2)] assms(2) by auto
  have "update_inner_hashes F n u (drop 1 (iter_path n p)) = update_levels F n u [p] (rev [0..<n - 1])" for u
    using update_path[of "n - 1" n F u p] n(1) unfolding iter_path_tail by simp
  then have "update_page F n wpp t p us = update_leaves F n wpp t [(p, us)] \<bind> (\<lambda>t. update_levels F n t [p] (rev [0..<n - 1]))"
    unfolding update_page_def update_hashes_def update_leaves.simps by (simp only: bind_assoc bind.bind_lunit)
  then have "update_page F n wpp t p us = Some t'" by (simp only: t1(1) t'(1) bind.bind_lunit)
  moreover have "page_of wpp t' = (page_of wpp t)(p := words_written F us (page_of wpp t p))"
    using t1(2) by (auto simp: fun_eq_iff page_of_def[of wpp t'] t'(3) leaves_written_def page_of_def[of wpp t1])
  ultimately show ?thesis using t'(2) by blast
qed

section \<open>Checking a proof\<close>

text \<open>From the hash of a page to the root: the bits of the index say on which side the sibling is.\<close>

fun check_proof :: "field_desc \<Rightarrow> nat \<Rightarrow> int list \<Rightarrow> int list list \<Rightarrow> int list option" where
  "check_proof F i h [] = Some h"
| "check_proof F i h (s # ss) = do {
     h \<leftarrow> (if even i then hash_cap0 F h s else hash_cap0 F s h);
     check_proof F (i div 2) h ss
   }"

lemma sibling_step:
  assumes "mt_ok F n wpp t" "0 < l" "l < n" "i < 2 ^ l"
  shows "\<exists>s. get_hash n t l (i XOR 1) = Some s \<and>
    (if even i then hash_cap0 F (node_hash F (page_of wpp t) (n - 1 - l) i) s else hash_cap0 F s (node_hash F (page_of wpp t) (n - 1 - l) i))
      = Some (node_hash F (page_of wpp t) (n - 1 - (l - 1)) (i div 2))"
proof -
  have h: "n - 1 - (l - 1) = Suc (n - 1 - l)" using assms(2,3) by simp
  obtain m where l: "l = Suc m" using assms(2) by (cases l) auto
  have lt: "i XOR 1 < 2 ^ l" using assms(4) unfolding xor_one_eq l by (cases "even i") (auto elim!: evenE)
  have get: "get_hash n t l (i XOR 1) = Some (node_hash F (page_of wpp t) (n - 1 - l) (i XOR 1))"
    using assms(1,3) lt by (simp add: mt_ok_def node_ok_def)
  show ?thesis
  proof (cases "even i")
    case True
    then have "2 * (i div 2) = i" by simp
    moreover have "i XOR 1 = i + 1" unfolding xor_one_eq by (simp add: True)
    ultimately show ?thesis using True get hash_cap0_node[of F "page_of wpp t" "n - 1 - l" "i div 2"]
      unfolding h by (simp del: node_hash.simps)
  next
    case False
    then have "2 * (i div 2) + 1 = i" "2 * (i div 2) = i - 1" by (simp_all add: odd_two_times_div_two_succ)
    moreover have "i XOR 1 = i - 1" unfolding xor_one_eq by (simp add: False)
    ultimately show ?thesis using False get hash_cap0_node[of F "page_of wpp t" "n - 1 - l" "i div 2"]
      unfolding h by (simp del: node_hash.simps)
  qed
qed

lemma siblings_prove:
  assumes "mt_ok F n wpp t" "p < 2 ^ (n - 1)"
  shows "k < n \<Longrightarrow> \<exists>ss. sibling_hashes n t (map (\<lambda>l. (l, p div 2 ^ (n - 1 - l))) (rev [1..<Suc k])) = Some ss \<and> length ss = k \<and>
    check_proof F (p div 2 ^ (n - 1 - k)) (node_hash F (page_of wpp t) (n - 1 - k) (p div 2 ^ (n - 1 - k))) ss
      = Some (node_hash F (page_of wpp t) (n - 1) 0)"
proof (induction k)
  case 0
  have "p div 2 ^ (n - 1) = 0" using assms(2) by simp
  then show ?case by (simp del: node_hash.simps)
next
  case (Suc k)
  let ?i = "p div 2 ^ (n - 1 - Suc k)"
  have "n - 1 - k = Suc (n - 1 - Suc k)" using Suc.prems by simp
  then have half: "p div 2 ^ (n - 1 - k) = ?i div 2" by (simp only: power_Suc2 div_mult2_eq)
  have "?i < 2 ^ Suc k"
  proof (rule less_mult_imp_div_less)
    have "Suc k + (n - 1 - Suc k) = n - 1" using Suc.prems by simp
    then show "p < 2 ^ Suc k * 2 ^ (n - 1 - Suc k)" using assms(2) by (simp only: power_add[symmetric])
  qed
  then obtain s where s: "get_hash n t (Suc k) (?i XOR 1) = Some s"
    "(if even ?i then hash_cap0 F (node_hash F (page_of wpp t) (n - 1 - Suc k) ?i) s
      else hash_cap0 F s (node_hash F (page_of wpp t) (n - 1 - Suc k) ?i)) = Some (node_hash F (page_of wpp t) (n - 1 - k) (?i div 2))"
    using sibling_step[OF assms(1), of "Suc k" ?i] Suc.prems by auto
  obtain ss where ss: "sibling_hashes n t (map (\<lambda>l. (l, p div 2 ^ (n - 1 - l))) (rev [1..<Suc k])) = Some ss" "length ss = k"
    "check_proof F (?i div 2) (node_hash F (page_of wpp t) (n - 1 - k) (?i div 2)) ss = Some (node_hash F (page_of wpp t) (n - 1) 0)"
    using Suc.IH Suc.prems unfolding half by auto
  have "check_proof F ?i (node_hash F (page_of wpp t) (n - 1 - Suc k) ?i) (s # ss) = Some (node_hash F (page_of wpp t) (n - 1) 0)"
    by (simp only: check_proof.simps s(2) bind.bind_lunit ss(3))
  moreover have "sibling_hashes n t (map (\<lambda>l. (l, p div 2 ^ (n - 1 - l))) (rev [1..<Suc (Suc k)])) = Some (s # ss)"
    using s(1) ss(1) by simp
  ultimately show ?case using ss(2) by (metis length_Cons)
qed

lemma iter_path_front: "0 < n \<Longrightarrow> take (n - 1) (iter_path n p) = map (\<lambda>l. (l, p div 2 ^ (n - 1 - l))) (rev [1..<n])"
proof -
  assume "0 < n"
  then have "rev [0..<n] = rev [1..<n] @ [0]" by (simp add: upt_conv_Cons)
  then show ?thesis by (simp add: iter_path_def drop_bit_eq_div)
qed

section \<open>Theorems\<close>

text \<open>C31: updates of the Merkle tree. A batch of updates at aligned addresses of the tree never panics;
  afterwards every node again holds the hash of the memory below it, whichever inner nodes were
  recomputed, the root holds the hash of the whole memory, and the memory is the old one with the
  updates written in order.\<close>

theorem merkle_update_correct:
  assumes "mt_ok F n wpp t" "\<forall>(a, v) \<in> set ups. a mod 4 = 0 \<and> a div 4 div wpp < 2 ^ (n - 1)"
  shows "\<exists>t'. merkle_update F n wpp t ups = Some t' \<and> mt_ok F n wpp t' \<and>
    root_hash n t' = Some (node_hash F (page_of wpp t') (n - 1) 0) \<and> mem_word wpp t' = write_all F ups (mem_word wpp t)"
proof -
  obtain t' where t': "merkle_update F n wpp t ups = Some t'" "mt_ok F n wpp t'" "mem_word wpp t' = write_all F ups (mem_word wpp t)"
    using update_total[OF assms(1)] assms(2) unfolding BYTES_PER_WORD_def by blast
  then have "root_hash n t' = Some (node_hash F (page_of wpp t') (n - 1) 0)"
    by (simp add: root_hash_def mt_ok_def node_ok_def del: node_hash.simps)
  with t' show ?thesis by blast
qed

theorem merkle_update_correct_witness:
  "\<exists>t t'. merkle_new goldilocks_field 3 8 = Some t \<and> merkle_update goldilocks_field 3 8 t [(16, 1), (44, 2), (16, 7)] = Some t' \<and>
    root_hash 3 t' = Some (node_hash goldilocks_field (page_of 8 t') 2 0) \<and> mem_word 8 t' 4 = 7 \<and> mem_word 8 t' 11 = 2 \<and> mem_word 8 t' 5 = 0"
proof -
  let ?F = goldilocks_field and ?ups = "[(16, 1), (44, 2), (16, 7)] :: (nat \<times> int) list"
  obtain t where t: "merkle_new ?F 3 8 = Some t" "mt_ok ?F 3 8 t" "mt_data t = Map.empty"
    using merkle_new_ok[of 3 8 ?F] by auto
  obtain t' where t': "merkle_update ?F 3 8 t ?ups = Some t'"
    "root_hash 3 t' = Some (node_hash ?F (page_of 8 t') (3 - 1) 0)" "mem_word 8 t' = write_all ?F ?ups (mem_word 8 t)"
    using merkle_update_correct[OF t(2), of ?ups] by auto
  have "mem_word 8 t' 4 = 7" "mem_word 8 t' 11 = 2" "mem_word 8 t' 5 = 0"
    by (simp_all add: t'(3) write_all_def BYTES_PER_WORD_def fe_from_def mem_word_def page_of_def t(3))
  with t(1) t'(1,2) show ?thesis by (auto simp: numeral_2_eq_2)
qed

text \<open>C32: Merkle proofs. For every page of the tree \<open>get\<close> returns its words, the hash of these words and
  a sibling for each level below the root, and hashing upwards along the bits of the page index with
  these siblings gives the root hash.\<close>

theorem merkle_proof_checks:
  assumes "mt_ok F n wpp t" "p < 2 ^ (n - 1)"
  shows "\<exists>h ss. merkle_get n t p = Some (page_of wpp t p, h, ss) \<and> hash_page F (page_of wpp t p) = Some h \<and>
    length ss = n - 1 \<and> check_proof F p h ss = root_hash n t"
proof -
  have n: "0 < n" "zero_page t = replicate wpp 0" using assms(1) by (simp_all add: mt_ok_def)
  obtain ss where ss: "sibling_hashes n t (take (n - 1) (iter_path n p)) = Some ss" "length ss = n - 1"
    "check_proof F p (node_hash F (page_of wpp t) 0 p) ss = Some (node_hash F (page_of wpp t) (n - 1) 0)"
    using siblings_prove[OF assms, of "n - 1"] n(1) unfolding iter_path_front[OF n(1)] by auto
  have root: "root_hash n t = Some (node_hash F (page_of wpp t) (n - 1) 0)"
    using assms n by (simp add: mt_ok_def node_ok_def root_hash_def del: node_hash.simps)
  have "get_hash n t (n - 1) p = Some (node_hash F (page_of wpp t) 0 p)"
    using assms n by (simp add: mt_ok_def node_ok_def del: node_hash.simps)
  moreover have "(case mt_data t p of Some d \<Rightarrow> d | None \<Rightarrow> zero_page t) = page_of wpp t p" by (simp add: page_of_def n(2) split: option.split)
  ultimately have "merkle_get n t p = Some (page_of wpp t p, node_hash F (page_of wpp t) 0 p, ss)"
    using ss(1,2) by (simp add: merkle_get_def del: node_hash.simps)
  with ss(2,3) hash_page_node[of F "page_of wpp t" p] root show ?thesis by metis
qed

theorem merkle_proof_checks_witness:
  "\<exists>t h ss. merkle_new goldilocks_field 3 8 = Some t \<and> merkle_get 3 t 1 = Some (replicate 8 0, h, ss) \<and> length ss = 2 \<and>
    check_proof goldilocks_field 1 h ss = root_hash 3 t"
proof -
  let ?F = goldilocks_field
  obtain t where t: "merkle_new ?F 3 8 = Some t" "mt_ok ?F 3 8 t" "mt_data t = Map.empty"
    using merkle_new_ok[of 3 8 ?F] by auto
  have "page_of 8 t 1 = replicate 8 0" by (simp add: page_of_def t(3))
  with t(1) merkle_proof_checks[OF t(2), of 1] show ?thesis by auto
qed

text \<open>Updating a single page along its path gives the same tree as far as anyone can see: the
  invariant holds again and exactly this page has changed, so that the root hash is the one of the
  batch update.\<close>

theorem merkle_update_page_correct:
  assumes "mt_ok F n wpp t" "p < 2 ^ (n - 1)" "\<forall>(i, v) \<in> set us. i < wpp"
  shows "\<exists>t1 t2. update_page F n wpp t p us = Some t1 \<and>
    merkle_update F n wpp t (map (\<lambda>(i, v). ((p * wpp + i) * 4, v)) us) = Some t2 \<and>
    mt_ok F n wpp t1 \<and> page_of wpp t1 = page_of wpp t2 \<and> root_hash n t1 = root_hash n t2"
proof -
  let ?ups = "map (\<lambda>(i, v). ((p * wpp + i) * 4, v)) us"
  have wpp: "0 < wpp" using assms(1) by (simp add: mt_ok_def)
  obtain t1 where t1: "update_page F n wpp t p us = Some t1" "mt_ok F n wpp t1"
    "page_of wpp t1 = (page_of wpp t)(p := words_written F us (page_of wpp t p))"
    using update_page_total[OF assms] by blast
  have "\<forall>(a, v) \<in> set ?ups. a mod BYTES_PER_WORD = 0 \<and> a div BYTES_PER_WORD div wpp < 2 ^ (n - 1)"
    using assms(2,3) by (auto simp: BYTES_PER_WORD_def)
  then obtain t2 where t2: "merkle_update F n wpp t ?ups = Some t2" "mt_ok F n wpp t2"
    "mem_word wpp t2 = write_all F ?ups (mem_word wpp t)"
    using update_total[OF assms(1)] by blast
  have "page_updates wpp ?ups q = (if q = p then us else [])" for q
    using assms(3) by (induction us) (auto simp: page_updates_def BYTES_PER_WORD_def)
  then have "page_of wpp t1 q = words_written F (page_updates wpp ?ups q) (page_of wpp t q)" for q
    by (simp add: t1(3) words_written_def)
  then have words: "mem_word wpp t1 w = mem_word wpp t2 w" for w
    unfolding t2(3) unfolding mem_word_def[of wpp t1]
    using wpp mt_ok_page[OF assms(1)] page_updates_words[of wpp "page_of wpp t (w div wpp)" w "mem_word wpp t" F ?ups]
    by (simp add: mem_word_def)
  have "page_of wpp t1 q = page_of wpp t2 q" for q
  proof (rule nth_equalityI)
    fix j assume "j < length (page_of wpp t1 q)"
    then have "j < wpp" by (simp add: mt_ok_page[OF t1(2)])
    with words[of "q * wpp + j"] show "page_of wpp t1 q ! j = page_of wpp t2 q ! j" by (simp add: mem_word_def)
  qed (simp add: mt_ok_page[OF t1(2)] mt_ok_page[OF t2(2)])
  then have pages: "page_of wpp t1 = page_of wpp t2" by (rule ext)
  with t1(2) t2(2) have "root_hash n t1 = root_hash n t2"
    by (simp add: root_hash_def mt_ok_def node_ok_def del: node_hash.simps)
  with t1 t2 pages show ?thesis by blast
qed

theorem merkle_update_page_correct_witness:
  "\<exists>t t1 t2. merkle_new goldilocks_field 3 8 = Some t \<and> update_page goldilocks_field 3 8 t 1 [(3, 2)] = Some t1 \<and>
    merkle_update goldilocks_field 3 8 t [(44, 2)] = Some t2 \<and> root_hash 3 t1 = root_hash 3 t2"
proof -
  obtain t where t: "merkle_new goldilocks_field 3 8 = Some t" "mt_ok goldilocks_field 3 8 t"
    using merkle_new_ok[of 3 8 goldilocks_field] by auto
  with merkle_update_page_correct[OF t(2), of 1 "[(3, 2)]"] show ?thesis by auto
qed

end
