(* ===== verification/Pil_Analyzed.thy ===== *)
theory Pil_Analyzed
  imports Field_Trait Riscv_Pil "HOL-Library.Multiset" "HOL-Library.Product_Lexorder" "HOL-Library.List_Lexorder" "HOL-Library.Char_ord"
begin

text \<open>
  The analyzed constraint system of \<open>ast/src/analyzed/mod.rs\<close> as the optimizer works on it:
  algebraic expressions with polynomial ids, the identities, the definitions with their symbols, the
  public declarations, and the order of the statements. The operations are the visitors and those that
  append and remove identities. The second half says what an assignment of the columns must fulfil to
  satisfy the system. References into the source text, trait implementations and the set of
  automatically added symbols have no part in it and are left out.
\<close>

section \<open>Polynomials and expressions\<close>

datatype polynomial_type = Committed | Constant | Intermediate

fun ptype_rank :: "polynomial_type \<Rightarrow> nat" where
  "ptype_rank Committed = 0"
| "ptype_rank Constant = 1"
| "ptype_rank Intermediate = 2"

lemma ptype_rank_inj [simp]: "ptype_rank a = ptype_rank b \<longleftrightarrow> a = b"
  by (cases a; cases b) simp_all

datatype poly_id = PolyID (pid: nat) (ptype: polynomial_type)

text \<open>The derived order compares the ids first.\<close>

instantiation poly_id :: linorder
begin

definition less_eq_poly_id :: "poly_id \<Rightarrow> poly_id \<Rightarrow> bool" where
  "less_eq_poly_id a b \<longleftrightarrow> pid a < pid b \<or> pid a = pid b \<and> ptype_rank (ptype a) \<le> ptype_rank (ptype b)"

definition less_poly_id :: "poly_id \<Rightarrow> poly_id \<Rightarrow> bool" where
  "less_poly_id a b \<longleftrightarrow> pid a < pid b \<or> pid a = pid b \<and> ptype_rank (ptype a) < ptype_rank (ptype b)"

instance
  by standard (auto simp: less_eq_poly_id_def less_poly_id_def intro: poly_id.expand)

end

record algebraic_reference =
  ref_name :: string
  ref_poly_id :: poly_id
  ref_next :: bool

definition is_witness :: "algebraic_reference \<Rightarrow> bool" where
  "is_witness r \<longleftrightarrow> ptype (ref_poly_id r) = Committed"

datatype pil_expr =
    PE_Reference algebraic_reference
  | PE_PublicReference string
  | PE_Challenge nat nat
  | PE_Number int
  | PE_Binary pil_expr algebraic_binary_operator pil_expr
  | PE_Unary algebraic_unary_operator pil_expr

text \<open>The derived equality is the one of references, which ignores names: expressions are equal when
  they are the same without names.\<close>

primrec unnamed :: "pil_expr \<Rightarrow> pil_expr" where
  "unnamed (PE_Reference r) = PE_Reference (r\<lparr>ref_name := []\<rparr>)"
| "unnamed (PE_PublicReference n) = PE_PublicReference n"
| "unnamed (PE_Challenge i s) = PE_Challenge i s"
| "unnamed (PE_Number n) = PE_Number n"
| "unnamed (PE_Binary l op r) = PE_Binary (unnamed l) op (unnamed r)"
| "unnamed (PE_Unary op e) = PE_Unary op (unnamed e)"

section \<open>Identities\<close>

datatype 'e selected_columns = Selected (sel_selector: 'e) (sel_expressions: "'e list")

datatype 'e pil_identity =
    Id_Polynomial nat 'e
  | Id_Lookup nat "'e selected_columns" "'e selected_columns"
  | Id_PhantomLookup nat "'e selected_columns" "'e selected_columns" 'e
  | Id_Permutation nat "'e selected_columns" "'e selected_columns"
  | Id_PhantomPermutation nat "'e selected_columns" "'e selected_columns"
  | Id_Connect nat "'e list" "'e list"
  | Id_PhantomBusInteraction nat 'e 'e "'e list" 'e "algebraic_reference list"

fun pil_identity_id :: "'e pil_identity \<Rightarrow> nat" where
  "pil_identity_id (Id_Polynomial i _) = i"
| "pil_identity_id (Id_Lookup i _ _) = i"
| "pil_identity_id (Id_PhantomLookup i _ _ _) = i"
| "pil_identity_id (Id_Permutation i _ _) = i"
| "pil_identity_id (Id_PhantomPermutation i _ _) = i"
| "pil_identity_id (Id_Connect i _ _) = i"
| "pil_identity_id (Id_PhantomBusInteraction i _ _ _ _ _) = i"

text \<open>A change of an expression may panic. The visitor changes the children first.\<close>

primrec post_visit :: "(pil_expr \<Rightarrow> pil_expr option) \<Rightarrow> pil_expr \<Rightarrow> pil_expr option" where
  "post_visit f (PE_Reference r) = f (PE_Reference r)"
| "post_visit f (PE_PublicReference n) = f (PE_PublicReference n)"
| "post_visit f (PE_Challenge i s) = f (PE_Challenge i s)"
| "post_visit f (PE_Number n) = f (PE_Number n)"
| "post_visit f (PE_Binary l op r) = do { l \<leftarrow> post_visit f l; r \<leftarrow> post_visit f r; f (PE_Binary l op r) }"
| "post_visit f (PE_Unary op e) = do { e \<leftarrow> post_visit f e; f (PE_Unary op e) }"

primrec visit_all :: "('a \<Rightarrow> 'b option) \<Rightarrow> 'a list \<Rightarrow> 'b list option" where
  "visit_all f [] = Some []"
| "visit_all f (x # xs) = do { y \<leftarrow> f x; ys \<leftarrow> visit_all f xs; Some (y # ys) }"

fun visit_selected :: "('e \<Rightarrow> 'e option) \<Rightarrow> 'e selected_columns \<Rightarrow> 'e selected_columns option" where
  "visit_selected f (Selected s es) = do { s \<leftarrow> f s; es \<leftarrow> visit_all f es; Some (Selected s es) }"

text \<open>The children of an identity; the bus id and the accumulator columns of a bus interaction are not
  among them.\<close>

fun visit_identity :: "('e \<Rightarrow> 'e option) \<Rightarrow> 'e pil_identity \<Rightarrow> 'e pil_identity option" where
  "visit_identity f (Id_Polynomial i e) = do { e \<leftarrow> f e; Some (Id_Polynomial i e) }"
| "visit_identity f (Id_Lookup i l r) = do { l \<leftarrow> visit_selected f l; r \<leftarrow> visit_selected f r; Some (Id_Lookup i l r) }"
| "visit_identity f (Id_PhantomLookup i l r m) = do {
     l \<leftarrow> visit_selected f l; r \<leftarrow> visit_selected f r; m \<leftarrow> f m; Some (Id_PhantomLookup i l r m) }"
| "visit_identity f (Id_Permutation i l r) = do { l \<leftarrow> visit_selected f l; r \<leftarrow> visit_selected f r; Some (Id_Permutation i l r) }"
| "visit_identity f (Id_PhantomPermutation i l r) = do {
     l \<leftarrow> visit_selected f l; r \<leftarrow> visit_selected f r; Some (Id_PhantomPermutation i l r) }"
| "visit_identity f (Id_Connect i l r) = do { l \<leftarrow> visit_all f l; r \<leftarrow> visit_all f r; Some (Id_Connect i l r) }"
| "visit_identity f (Id_PhantomBusInteraction i m b p l a) = do {
     m \<leftarrow> f m; p \<leftarrow> visit_all f p; l \<leftarrow> f l; Some (Id_PhantomBusInteraction i m b p l a) }"

section \<open>Definitions\<close>

text \<open>Expressions of the constraint language in definitions: the optimizer tells apart references to
  symbols and numbers; any other node has its children and a label that stands for the rest.\<close>

datatype pil_function =
    PF_Poly string
  | PF_Number int
  | PF_Node string "pil_function list"

datatype array_expression =
    AE_Value "pil_function list"
  | AE_RepeatedValue "pil_function list"
  | AE_Concat array_expression array_expression

primrec array_children :: "array_expression \<Rightarrow> pil_function list" where
  "array_children (AE_Value v) = v"
| "array_children (AE_RepeatedValue v) = v"
| "array_children (AE_Concat l r) = array_children l @ array_children r"

datatype function_value_definition =
    FV_Array array_expression
  | FV_Expression pil_function
  | FV_Other string "pil_function list"

datatype symbol_kind = SK_Poly polynomial_type | SK_Other

record pil_symbol =
  symbol_id :: nat
  symbol_name :: string
  symbol_kind :: symbol_kind
  symbol_length :: "nat option"

definition is_array :: "pil_symbol \<Rightarrow> bool" where
  "is_array s \<longleftrightarrow> symbol_length s \<noteq> None"

definition symbol_poly_id :: "pil_symbol \<Rightarrow> poly_id option" where
  "symbol_poly_id s = (case symbol_kind s of SK_Poly pt \<Rightarrow> Some (PolyID (symbol_id s) pt) | SK_Other \<Rightarrow> None)"

text \<open>The polynomials of a symbol, with their position when it is an array.\<close>

definition symbol_elements :: "pil_symbol \<Rightarrow> poly_id list option" where
  "symbol_elements s = (case symbol_kind s of
     SK_Poly pt \<Rightarrow> Some (map (\<lambda>i. PolyID (symbol_id s + i) pt) [0..<(case symbol_length s of Some n \<Rightarrow> n | None \<Rightarrow> 1)])
   | SK_Other \<Rightarrow> None)"

record public_declaration =
  public_polynomial :: string
  public_array_index :: "nat option"
  public_row :: nat

datatype statement_identifier =
    SI_Definition string
  | SI_PublicDeclaration string
  | SI_ProofItem nat
  | SI_ProverFunction nat

text \<open>A hash map is the list of its entries in the order of iteration.\<close>

record pil_file =
  definitions :: "(string \<times> pil_symbol \<times> function_value_definition option) list"
  public_declarations :: "(string \<times> public_declaration) list"
  intermediate_columns :: "(string \<times> pil_symbol \<times> pil_expr list) list"
  identities :: "pil_expr pil_identity list"
  prover_functions :: "pil_function list"
  source_order :: "statement_identifier list"

section \<open>Operations on the file\<close>

text \<open>\<open>append_polynomial_identity\<close>: the new id is one above the greatest one.\<close>

definition append_polynomial_identity :: "pil_expr \<Rightarrow> pil_file \<Rightarrow> pil_file" where
  "append_polynomial_identity e pf = (let
     i = fold max (map pil_identity_id (identities pf)) 0 + 1;
     ids = identities pf @ [Id_Polynomial i e]
   in pf\<lparr>identities := ids, source_order := source_order pf @ [SI_ProofItem (length ids - 1)]\<rparr>)"

text \<open>\<open>remove_identities\<close>: indices behind a removed one are shifted down. The subtraction would panic
  below zero.\<close>

fun retain_items :: "nat set \<Rightarrow> nat \<Rightarrow> statement_identifier list \<Rightarrow> statement_identifier list option" where
  "retain_items R shift [] = Some []"
| "retain_items R shift (SI_ProofItem index # so) =
     (if index \<in> R then retain_items R (shift + 1) so
      else do {
        rust_assert (shift \<le> index);
        so \<leftarrow> retain_items R shift so;
        Some (SI_ProofItem (index - shift) # so)
      })"
| "retain_items R shift (s # so) = do { so \<leftarrow> retain_items R shift so; Some (s # so) }"

definition retain_unremoved :: "nat set \<Rightarrow> 'a list \<Rightarrow> 'a list" where
  "retain_unremoved R xs = map snd (filter (\<lambda>(i, x). i \<notin> R) (enumerate 0 xs))"

definition remove_identities :: "nat set \<Rightarrow> pil_file \<Rightarrow> pil_file option" where
  "remove_identities R pf = do {
     so \<leftarrow> retain_items R 0 (source_order pf);
     Some (pf\<lparr>source_order := so, identities := retain_unremoved R (identities pf)\<rparr>)
   }"

definition visit_intermediate ::
  "(pil_expr \<Rightarrow> pil_expr option) \<Rightarrow> string \<times> pil_symbol \<times> pil_expr list \<Rightarrow> (string \<times> pil_symbol \<times> pil_expr list) option" where
  "visit_intermediate f c = (case c of (n, s, es) \<Rightarrow> do { es \<leftarrow> visit_all (post_visit f) es; Some (n, s, es) })"

definition post_visit_expressions_in_identities :: "(pil_expr \<Rightarrow> pil_expr option) \<Rightarrow> pil_file \<Rightarrow> pil_file option" where
  "post_visit_expressions_in_identities f pf = do {
     ids \<leftarrow> visit_all (visit_identity (post_visit f)) (identities pf);
     ics \<leftarrow> visit_all (visit_intermediate f) (intermediate_columns pf);
     Some (pf\<lparr>identities := ids, intermediate_columns := ics\<rparr>)
   }"

text \<open>The same visitor on the definitions and prover functions.\<close>

primrec visit_function :: "(pil_function \<Rightarrow> pil_function) \<Rightarrow> pil_function \<Rightarrow> pil_function" where
  "visit_function f (PF_Poly n) = f (PF_Poly n)"
| "visit_function f (PF_Number n) = f (PF_Number n)"
| "visit_function f (PF_Node l es) = f (PF_Node l (map (visit_function f) es))"

primrec visit_array :: "(pil_function \<Rightarrow> pil_function) \<Rightarrow> array_expression \<Rightarrow> array_expression" where
  "visit_array f (AE_Value v) = AE_Value (map (visit_function f) v)"
| "visit_array f (AE_RepeatedValue v) = AE_RepeatedValue (map (visit_function f) v)"
| "visit_array f (AE_Concat l r) = AE_Concat (visit_array f l) (visit_array f r)"

primrec visit_definition :: "(pil_function \<Rightarrow> pil_function) \<Rightarrow> function_value_definition \<Rightarrow> function_value_definition" where
  "visit_definition f (FV_Array a) = FV_Array (visit_array f a)"
| "visit_definition f (FV_Expression e) = FV_Expression (visit_function f e)"
| "visit_definition f (FV_Other l es) = FV_Other l (map (visit_function f) es)"

definition post_visit_expressions :: "(pil_function \<Rightarrow> pil_function) \<Rightarrow> pil_file \<Rightarrow> pil_file" where
  "post_visit_expressions f pf = pf\<lparr>
     definitions := map (\<lambda>(n, s, d). (n, s, map_option (visit_definition f) d)) (definitions pf),
     prover_functions := map (visit_function f) (prover_functions pf)\<rparr>"

text \<open>\<open>definitions_in_source_order\<close> and \<open>intermediate_polys_in_source_order\<close>.\<close>

definition definitions_in_source_order ::
  "polynomial_type \<Rightarrow> pil_file \<Rightarrow> (pil_symbol \<times> function_value_definition option) list" where
  "definitions_in_source_order pt pf = List.map_filter (\<lambda>st. case st of
     SI_Definition name \<Rightarrow> (case map_of (definitions pf) name of
       Some (s, d) \<Rightarrow> if symbol_kind s = SK_Poly pt then Some (s, d) else None
     | None \<Rightarrow> None)
   | _ \<Rightarrow> None) (source_order pf)"

definition intermediate_polys_in_source_order :: "pil_file \<Rightarrow> (pil_symbol \<times> pil_expr list) list" where
  "intermediate_polys_in_source_order pf = List.map_filter (\<lambda>st. case st of
     SI_Definition name \<Rightarrow> map_of (intermediate_columns pf) name
   | _ \<Rightarrow> None) (source_order pf)"

section \<open>Satisfying assignments\<close>

text \<open>An assignment gives the columns, the publics and the challenges a value.\<close>

record assignment =
  col_value :: "poly_id \<Rightarrow> nat \<Rightarrow> int"
  public_value :: "string \<Rightarrow> int"
  challenge_value :: "nat \<Rightarrow> nat \<Rightarrow> int"

definition assignment_ok :: "field_desc \<Rightarrow> assignment \<Rightarrow> bool" where
  "assignment_ok F A \<longleftrightarrow> (\<forall>p i. canonical F (col_value A p i)) \<and> (\<forall>n. canonical F (public_value A n)) \<and>
     (\<forall>i s. canonical F (challenge_value A i s))"

text \<open>The value of an expression in a row of \<open>N\<close>; the row after the last is the first.\<close>

primrec eval_expr :: "field_desc \<Rightarrow> nat \<Rightarrow> assignment \<Rightarrow> pil_expr \<Rightarrow> nat \<Rightarrow> int" where
  "eval_expr F N A (PE_Reference r) row =
     col_value A (ref_poly_id r) (if ref_next r then (row + 1) mod N else row)"
| "eval_expr F N A (PE_PublicReference n) row = public_value A n"
| "eval_expr F N A (PE_Challenge i s) row = challenge_value A i s"
| "eval_expr F N A (PE_Number n) row = fe_from F n"
| "eval_expr F N A (PE_Binary l op r) row = (let x = eval_expr F N A l row; y = eval_expr F N A r row in
     case op of
       Alg_Add \<Rightarrow> fe_add F x y
     | Alg_Sub \<Rightarrow> fe_sub F x y
     | Alg_Mul \<Rightarrow> fe_mul F x y
     | Alg_Pow \<Rightarrow> fe_from F (x ^ nat y))"
| "eval_expr F N A (PE_Unary op e) row = (case op of Alg_Minus \<Rightarrow> fe_neg F (eval_expr F N A e row))"

definition eval_column :: "field_desc \<Rightarrow> nat \<Rightarrow> assignment \<Rightarrow> pil_expr \<Rightarrow> int list" where
  "eval_column F N A e = map (eval_expr F N A e) [0..<N]"

text \<open>The rows that a selector picks.\<close>

definition selected_tuples :: "nat \<Rightarrow> int list selected_columns \<Rightarrow> int list list" where
  "selected_tuples N s = map (\<lambda>i. map (\<lambda>c. c ! i) (sel_expressions s)) (filter (\<lambda>i. sel_selector s ! i = 1) [0..<N])"

text \<open>What an identity demands of its columns. What a connection demands is an argument; the phantom
  variants stand for their counterpart. Bus interactions only make sense together.\<close>

fun identity_holds :: "nat \<Rightarrow> (int list list \<Rightarrow> int list list \<Rightarrow> bool) \<Rightarrow> int list pil_identity \<Rightarrow> bool" where
  "identity_holds N conn (Id_Polynomial i c) \<longleftrightarrow> list_all (\<lambda>x. x = 0) c"
| "identity_holds N conn (Id_Lookup i l r) \<longleftrightarrow> set (selected_tuples N l) \<subseteq> set (selected_tuples N r)"
| "identity_holds N conn (Id_PhantomLookup i l r m) \<longleftrightarrow> set (selected_tuples N l) \<subseteq> set (selected_tuples N r)"
| "identity_holds N conn (Id_Permutation i l r) \<longleftrightarrow> mset (selected_tuples N l) = mset (selected_tuples N r)"
| "identity_holds N conn (Id_PhantomPermutation i l r) \<longleftrightarrow> mset (selected_tuples N l) = mset (selected_tuples N r)"
| "identity_holds N conn (Id_Connect i l r) \<longleftrightarrow> conn l r"
| "identity_holds N conn (Id_PhantomBusInteraction i m b p l a) \<longleftrightarrow> True"

fun is_bus :: "'e pil_identity \<Rightarrow> bool" where
  "is_bus (Id_PhantomBusInteraction i m b p l a) \<longleftrightarrow> True"
| "is_bus _ \<longleftrightarrow> False"

text \<open>The arguments of the semantics: the field, the number of rows, connections and buses.\<close>

record semantics =
  sem_field :: field_desc
  sem_rows :: nat
  sem_connect :: "int list list \<Rightarrow> int list list \<Rightarrow> bool"
  sem_bus :: "int list pil_identity list \<Rightarrow> bool"

abbreviation sem_column :: "semantics \<Rightarrow> assignment \<Rightarrow> pil_expr \<Rightarrow> int list" where
  "sem_column S \<equiv> eval_column (sem_field S) (sem_rows S)"

definition identities_hold :: "semantics \<Rightarrow> assignment \<Rightarrow> pil_expr pil_identity list \<Rightarrow> bool" where
  "identities_hold S A ids \<longleftrightarrow>
     (\<forall>id \<in> set ids. identity_holds (sem_rows S) (sem_connect S) (map_pil_identity (sem_column S A) id)) \<and>
     sem_bus S (map (map_pil_identity (sem_column S A)) (filter is_bus ids))"

definition intermediates_hold :: "semantics \<Rightarrow> assignment \<Rightarrow> (string \<times> pil_symbol \<times> pil_expr list) list \<Rightarrow> bool" where
  "intermediates_hold S A ics \<longleftrightarrow> (\<forall>(n, s, es) \<in> set ics. \<exists>ps. symbol_elements s = Some ps \<and> length ps = length es \<and>
     (\<forall>(p, e) \<in> set (zip ps es). map (col_value A p) [0..<sem_rows S] = sem_column S A e))"

text \<open>A public is a cell of its column.\<close>

definition public_poly_id :: "pil_file \<Rightarrow> public_declaration \<Rightarrow> poly_id option" where
  "public_poly_id pf pd = do {
     (s, d) \<leftarrow> map_of (definitions pf) (public_polynomial pd);
     ps \<leftarrow> symbol_elements s;
     let i = (case public_array_index pd of Some i \<Rightarrow> i | None \<Rightarrow> 0);
     if i < length ps then Some (ps ! i) else None
   }"

definition publics_hold :: "pil_file \<Rightarrow> assignment \<Rightarrow> bool" where
  "publics_hold pf A \<longleftrightarrow> (\<forall>(name, pd) \<in> set (public_declarations pf).
     \<exists>p. public_poly_id pf pd = Some p \<and> public_value A name = col_value A p (public_row pd))"

definition satisfies :: "semantics \<Rightarrow> assignment \<Rightarrow> pil_file \<Rightarrow> bool" where
  "satisfies S A pf \<longleftrightarrow> assignment_ok (sem_field S) A \<and> identities_hold S A (identities pf) \<and>
     intermediates_hold S A (intermediate_columns pf) \<and> publics_hold pf A"

section \<open>The order of the statements\<close>

lemma in_map_filter: "y \<in> set (List.map_filter f xs) \<longleftrightarrow> (\<exists>x \<in> set xs. f x = Some y)"
  by (force simp: map_filter_def)

definition proof_items :: "statement_identifier list \<Rightarrow> nat list" where
  "proof_items so = List.map_filter (\<lambda>st. case st of SI_ProofItem i \<Rightarrow> Some i | _ \<Rightarrow> None) so"

text \<open>The proof items of the source order are the identities, in order.\<close>

definition source_order_ok :: "pil_file \<Rightarrow> bool" where
  "source_order_ok pf \<longleftrightarrow> proof_items (source_order pf) = [0..<length (identities pf)]"

lemma proof_items_simps [simp]:
  "proof_items [] = []" "proof_items (SI_ProofItem i # so) = i # proof_items so"
  "proof_items (SI_Definition n # so) = proof_items so" "proof_items (SI_PublicDeclaration n # so) = proof_items so"
  "proof_items (SI_ProverFunction k # so) = proof_items so" "proof_items (so @ so') = proof_items so @ proof_items so'"
  by (simp_all add: proof_items_def map_filter_def)

lemma retain_unremoved_nths: "retain_unremoved R xs = nths xs (- R)"
  unfolding retain_unremoved_def nths_def enumerate_eq_zip
  by (subst zip_commute) (simp add: filter_map comp_def case_prod_beta)

lemma length_retain_unremoved: "length (retain_unremoved R xs) = card {i. i < length xs \<and> i \<notin> R}"
  by (simp add: retain_unremoved_nths length_nths)

lemma card_below_Suc: "card {m. m < Suc k \<and> Q m} = card {m. m < k \<and> Q m} + of_bool (Q k)"
proof (cases "Q k")
  case True
  then have "{m. m < Suc k \<and> Q m} = insert k {m. m < k \<and> Q m}" by (auto elim: less_SucE)
  with True show ?thesis by simp
next
  case False
  then have "m < Suc k \<and> Q m \<longleftrightarrow> m < k \<and> Q m" for m by (cases "m = k") auto
  with False show ?thesis by simp
qed

lemma card_removed: "card {i. i < k \<and> i \<in> R} + card {i. i < k \<and> i \<notin> R} = k"
  by (induction k) (simp_all add: card_below_Suc)

text \<open>With proof items in order, the index of a retained item is the number of retained items before it.\<close>

lemma retain_items_order:
  assumes "proof_items so = [k..<n]" "k \<le> n"
  shows "\<exists>so'. retain_items R (card {i. i < k \<and> i \<in> R}) so = Some so' \<and>
    proof_items so' = [card {i. i < k \<and> i \<notin> R}..<card {i. i < n \<and> i \<notin> R}] \<and>
    filter (\<lambda>s. proof_items [s] = []) so' = filter (\<lambda>s. proof_items [s] = []) so"
  using assms
proof (induction so arbitrary: k)
  case (Cons s so)
  show ?case
  proof (cases s)
    case (SI_ProofItem i)
    with Cons.prems have "i # proof_items so = [k..<n]" by simp
    then have i: "i = k" "k < n" "proof_items so = [Suc k..<n]"
      using Cons.prems(2) by (cases "k < n"; simp add: upt_rec)+
    have le: "card {i. i < k \<and> i \<in> R} \<le> k" "k - card {i. i < k \<and> i \<in> R} = card {i. i < k \<and> i \<notin> R}"
      using card_removed[of k R] by linarith+
    have lt: "k \<notin> R \<Longrightarrow> card {i. i < k \<and> i \<notin> R} < card {i. i < n \<and> i \<notin> R}"
      using i(2) by (intro psubset_card_mono) auto
    show ?thesis
      using Cons.IH[OF i(3)] i(2) lt le by (auto simp: SI_ProofItem i(1) card_below_Suc upt_conv_Cons)
  qed (use Cons.IH[of k] Cons.prems in auto)
next
  case Nil
  then have "[k..<n] = []" by simp
  with Nil.prems(2) have "k = n" by (simp only: upt_eq_Nil_conv) auto
  then show ?case by simp
qed

lemma append_order: "source_order_ok pf \<Longrightarrow> source_order_ok (append_polynomial_identity e pf)"
  by (simp add: source_order_ok_def append_polynomial_identity_def Let_def)

lemma append_identities: "identities (append_polynomial_identity e pf) =
    identities pf @ [Id_Polynomial (fold max (map pil_identity_id (identities pf)) 0 + 1) e]"
  by (simp add: append_polynomial_identity_def Let_def)

lemma remove_identities_order:
  assumes "source_order_ok pf"
  shows "\<exists>pf'. remove_identities R pf = Some pf' \<and> source_order_ok pf' \<and> identities pf' = nths (identities pf) (- R) \<and>
    filter (\<lambda>s. proof_items [s] = []) (source_order pf') = filter (\<lambda>s. proof_items [s] = []) (source_order pf) \<and>
    pf' = pf\<lparr>source_order := source_order pf', identities := identities pf'\<rparr>"
proof -
  obtain so' where "retain_items R 0 (source_order pf) = Some so'"
    "proof_items so' = [0..<card {i. i < length (identities pf) \<and> i \<notin> R}]"
    "filter (\<lambda>s. proof_items [s] = []) so' = filter (\<lambda>s. proof_items [s] = []) (source_order pf)"
    using retain_items_order[of "source_order pf" 0 "length (identities pf)" R] assms by (auto simp: source_order_ok_def)
  then show ?thesis
    by (simp add: remove_identities_def source_order_ok_def length_retain_unremoved retain_unremoved_nths[symmetric])
qed

section \<open>Visitors and evaluation\<close>

lemma visit_all_Some: "visit_all f xs = Some ys \<longleftrightarrow> list_all2 (\<lambda>x y. f x = Some y) xs ys"
proof (induction xs arbitrary: ys)
  case (Cons x xs)
  show ?case by (cases ys) (auto simp: bind_eq_Some_conv Cons)
qed auto

lemma visit_all_total: "(\<And>x. x \<in> set xs \<Longrightarrow> \<exists>y. f x = Some y) \<Longrightarrow> \<exists>ys. visit_all f xs = Some ys"
  by (induction xs) force+

lemma visit_selected_total: "\<forall>x. \<exists>y. f x = Some y \<Longrightarrow> \<exists>t. visit_selected f s = Some t"
proof -
  assume f: "\<forall>x. \<exists>y. f x = Some y"
  obtain u es where s: "s = Selected u es" by (cases s)
  obtain u' es' where "f u = Some u'" "visit_all f es = Some es'" using f visit_all_total[of es f] by blast
  then show ?thesis by (simp add: s)
qed

lemma visit_identity_total:
  assumes f: "\<forall>x. \<exists>y. f x = Some y"
  shows "\<exists>t. visit_identity f x = Some t"
proof (cases x)
  case (Id_Polynomial i e)
  then show ?thesis using f[rule_format, of e] by auto
next
  case (Id_Lookup i l r)
  then show ?thesis using visit_selected_total[OF f, of l] visit_selected_total[OF f, of r] by auto
next
  case (Id_PhantomLookup i l r m)
  then show ?thesis using visit_selected_total[OF f, of l] visit_selected_total[OF f, of r] f[rule_format, of m] by auto
next
  case (Id_Permutation i l r)
  then show ?thesis using visit_selected_total[OF f, of l] visit_selected_total[OF f, of r] by auto
next
  case (Id_PhantomPermutation i l r)
  then show ?thesis using visit_selected_total[OF f, of l] visit_selected_total[OF f, of r] by auto
next
  case (Id_Connect i l r)
  then show ?thesis using visit_all_total[of l f] visit_all_total[of r f] f by auto
next
  case (Id_PhantomBusInteraction i m b p l a)
  moreover obtain m' p' l' where "f m = Some m'" "visit_all f p = Some p'" "f l = Some l'"
    using visit_all_total[of p f] f by blast
  ultimately show ?thesis by simp
qed

lemma post_visit_total: "\<forall>x. \<exists>y. f x = Some y \<Longrightarrow> \<exists>y. post_visit f e = Some y"
proof (induction e)
  case (PE_Binary l op r)
  then obtain l' r' where "post_visit f l = Some l'" "post_visit f r = Some r'" by blast
  with PE_Binary.prems show ?case by simp
next
  case (PE_Unary op e)
  then obtain e' where "post_visit f e = Some e'" by blast
  with PE_Unary.prems show ?case by simp
qed auto

lemma visit_file_total:
  assumes "\<forall>x. \<exists>y. f x = Some y"
  shows "\<exists>pf'. post_visit_expressions_in_identities f pf = Some pf'"
proof -
  have e: "\<forall>e. \<exists>y. post_visit f e = Some y" using post_visit_total[OF assms] by blast
  obtain ids where "visit_all (visit_identity (post_visit f)) (identities pf) = Some ids"
    using visit_all_total[of "identities pf" "visit_identity (post_visit f)"] visit_identity_total[OF e] by blast
  moreover have "\<exists>y. visit_intermediate f c = Some y" for c
  proof -
    obtain n s es where c: "c = (n, s, es)" by (cases c)
    obtain es' where "visit_all (post_visit f) es = Some es'" using visit_all_total[of es "post_visit f"] e by blast
    then show ?thesis by (simp add: c visit_intermediate_def)
  qed
  then obtain ics where "visit_all (visit_intermediate f) (intermediate_columns pf) = Some ics"
    using visit_all_total[of "intermediate_columns pf" "visit_intermediate f"] by blast
  ultimately show ?thesis by (simp add: post_visit_expressions_in_identities_def)
qed

fun bus_id_of :: "'e pil_identity \<Rightarrow> 'e option" where
  "bus_id_of (Id_PhantomBusInteraction i m b p l a) = Some b"
| "bus_id_of _ = None"

lemma is_bus_map [simp]: "is_bus (map_pil_identity h x) = is_bus x"
  by (cases x) simp_all

lemma identities_hold_columns:
  "identities_hold S A ids \<longleftrightarrow> (let cs = map (map_pil_identity (sem_column S A)) ids in
     list_all (identity_holds (sem_rows S) (sem_connect S)) cs \<and> sem_bus S (filter is_bus cs))"
  by (simp add: identities_hold_def list_all_iff filter_map comp_def)

text \<open>When a change of an expression keeps its column, the visitor keeps the columns of the identities.\<close>

lemma visit_all_map:
  "visit_all g xs = Some ys \<Longrightarrow> (\<And>x y. x \<in> set xs \<Longrightarrow> g x = Some y \<Longrightarrow> h' y = h x) \<Longrightarrow> map h' ys = map h xs"
  by (induction xs arbitrary: ys) (auto simp: bind_eq_Some_conv)

lemma visit_selected_map:
  "visit_selected g s = Some t \<Longrightarrow> (\<And>x y. g x = Some y \<Longrightarrow> h' y = h x) \<Longrightarrow> map_selected_columns h' t = map_selected_columns h s"
  by (cases s) (auto simp: bind_eq_Some_conv intro!: visit_all_map[of g])

lemma visit_identity_map:
  assumes "visit_identity g x = Some y" "\<And>e e'. g e = Some e' \<Longrightarrow> h' e' = h e" "\<And>b. bus_id_of x = Some b \<Longrightarrow> h' b = h b"
  shows "map_pil_identity h' y = map_pil_identity h x"
proof -
  note sel = visit_selected_map[of g _ _ h' h, OF _ assms(2)] and list = visit_all_map[of g _ _ h' h, OF _ assms(2)]
  show ?thesis using assms(1,3) by (cases x) (auto simp: bind_eq_Some_conv assms(2) sel list)
qed

lemma visited_identities_hold:
  assumes "visit_all (visit_identity g) ids = Some ids'" "\<And>e e'. g e = Some e' \<Longrightarrow> sem_column S A' e' = sem_column S A e"
    "\<And>x b. x \<in> set ids \<Longrightarrow> bus_id_of x = Some b \<Longrightarrow> sem_column S A' b = sem_column S A b"
  shows "identities_hold S A' ids' = identities_hold S A ids"
proof -
  have "map (map_pil_identity (sem_column S A')) ids' = map (map_pil_identity (sem_column S A)) ids"
  proof (rule visit_all_map[OF assms(1)])
    fix x y assume "x \<in> set ids" "visit_identity g x = Some y"
    then show "map_pil_identity (sem_column S A') y = map_pil_identity (sem_column S A) x"
      using assms(2,3) by (intro visit_identity_map)
  qed
  then show ?thesis by (simp only: identities_hold_columns)
qed

lemma visited_intermediates_hold:
  assumes "visit_all (visit_intermediate f) ics = Some ics'"
    "\<And>e e'. post_visit f e = Some e' \<Longrightarrow> sem_column S A' e' = sem_column S A e"
    "\<And>n s es ps p i. (n, s, es) \<in> set ics \<Longrightarrow> symbol_elements s = Some ps \<Longrightarrow> p \<in> set ps \<Longrightarrow> i < sem_rows S \<Longrightarrow>
      col_value A' p i = col_value A p i"
  shows "intermediates_hold S A' ics' = intermediates_hold S A ics"
  using assms(1,3)
proof (induction ics arbitrary: ics')
  case (Cons c ics)
  obtain n s es where c: "c = (n, s, es)" by (cases c)
  with Cons.prems(1) obtain es' ics'' where v: "visit_all (post_visit f) es = Some es'"
    "visit_all (visit_intermediate f) ics = Some ics''" "ics' = (n, s, es') # ics''"
    by (auto simp: bind_eq_Some_conv visit_intermediate_def[of f "(n, s, es)"])
  have cols: "map (sem_column S A') es' = map (sem_column S A) es" by (rule visit_all_map[OF v(1)]) (rule assms(2))
  then have len: "length es' = length es" by (rule map_eq_imp_length_eq)
  have vals: "map (col_value A' p) [0..<sem_rows S] = map (col_value A p) [0..<sem_rows S]"
    if "p \<in> set ps" "symbol_elements s = Some ps" for p ps
    using Cons.prems(2)[of n s es ps p] that by (simp add: c)
  have elems: "(\<forall>(p, e) \<in> set (zip ps es'). map (col_value A' p) [0..<sem_rows S] = sem_column S A' e) \<longleftrightarrow>
      (\<forall>(p, e) \<in> set (zip ps es). map (col_value A p) [0..<sem_rows S] = sem_column S A e)"
    if ps: "symbol_elements s = Some ps" "length ps = length es" for ps
  proof -
    have "sem_column S A' (es' ! i) = sem_column S A (es ! i)" if "i < length es" for i
      using arg_cong[OF cols, of "\<lambda>xs. xs ! i"] that len by simp
    moreover have "map (col_value A' (ps ! i)) [0..<sem_rows S] = map (col_value A (ps ! i)) [0..<sem_rows S]" if "i < length es" for i
      using vals[OF _ ps(1), of "ps ! i"] that ps(2) by simp
    ultimately have "(map (col_value A' (ps ! i)) [0..<sem_rows S] = sem_column S A' (es' ! i)) \<longleftrightarrow>
        (map (col_value A (ps ! i)) [0..<sem_rows S] = sem_column S A (es ! i))" if "i < length es" for i
      using that by (simp only:)
    moreover have "(\<forall>(p, e) \<in> set (zip ps xs). P p e) \<longleftrightarrow> (\<forall>i < length es. P (ps ! i) (xs ! i))" if "length xs = length es"
      for xs and P :: "poly_id \<Rightarrow> pil_expr \<Rightarrow> bool" using that ps(2) by (auto simp: set_zip)
    ultimately show ?thesis using len by (simp only:) blast
  qed
  have IH: "intermediates_hold S A' ics'' = intermediates_hold S A ics" 
    using Cons.IH[OF v(2)] Cons.prems(2) by (meson list.set_intros(2))
  show ?case using IH elems len by (auto simp: intermediates_hold_def c v(3))
qed (simp add: intermediates_hold_def)

end
