(* ===== verification/Pilopt.thy ===== *)
theory Pilopt
  imports Pil_Analyzed Btree_Map Goldilocks
begin

text \<open>
  The optimizer of constraint systems of \<open>pilopt/src/lib.rs\<close>: simplification, extraction of constant
  columns from lookups, removal of columns that are constrained to a constant or to another column,
  and removal of trivial and duplicate identities. Every pass is compared with the assignments that
  satisfy the system before and after it.
\<close>

section \<open>Simplification\<close>

definition simplify_expression_single :: "field_desc \<Rightarrow> pil_expr \<Rightarrow> pil_expr" where
  "simplify_expression_single F e = (case e of
     PE_Binary l op r \<Rightarrow>
       (case (op, l, r) of
          (Alg_Add, PE_Number x, PE_Number y) \<Rightarrow> PE_Number (fe_add F x y)
        | (Alg_Sub, PE_Number x, PE_Number y) \<Rightarrow> PE_Number (fe_sub F x y)
        | (Alg_Mul, PE_Number x, PE_Number y) \<Rightarrow> PE_Number (fe_mul F x y)
        | (Alg_Mul, _, _) \<Rightarrow>
            if l = PE_Number 0 then PE_Number 0
            else if r = PE_Number 0 then PE_Number 0
            else if l = PE_Number 1 then r
            else if r = PE_Number 1 then l
            else e
        | (Alg_Add, _, _) \<Rightarrow> if l = PE_Number 0 then r else if r = PE_Number 0 then l else e
        | (Alg_Sub, _, _) \<Rightarrow> if r = PE_Number 0 then l else e
        | _ \<Rightarrow> e)
   | PE_Unary Alg_Minus (PE_Number x) \<Rightarrow> PE_Number (fe_neg F x)
   | _ \<Rightarrow> e)"

definition simplify_expression :: "field_desc \<Rightarrow> pil_expr \<Rightarrow> pil_expr option" where
  "simplify_expression F e = post_visit (\<lambda>e. Some (simplify_expression_single F e)) e"

definition simplify_identities :: "field_desc \<Rightarrow> pil_file \<Rightarrow> pil_file option" where
  "simplify_identities F pf = post_visit_expressions_in_identities (\<lambda>e. Some (simplify_expression_single F e)) pf"

section \<open>Lookups of constants\<close>

text \<open>The positions whose right-hand side is a number.\<close>

definition constant_columns :: "pil_expr selected_columns \<Rightarrow> pil_expr selected_columns \<Rightarrow> (nat \<times> pil_expr \<times> int) list" where
  "constant_columns left right = List.map_filter
     (\<lambda>(i, l, r). case r of PE_Number n \<Rightarrow> Some (i, l, n) | _ \<Rightarrow> None)
     (enumerate 0 (zip (sel_expressions left) (sel_expressions right)))"

definition retain_columns :: "nat set \<Rightarrow> pil_expr selected_columns \<Rightarrow> pil_expr selected_columns" where
  "retain_columns extracted s = Selected (sel_selector s) (retain_unremoved extracted (sel_expressions s))"

definition extract_constants ::
  "field_desc \<Rightarrow> pil_expr selected_columns \<Rightarrow> pil_expr selected_columns \<Rightarrow> (pil_expr selected_columns \<times> pil_expr selected_columns \<times> pil_expr list) option" where
  "extract_constants F left right =
     (if sel_selector right \<noteq> PE_Number 1 then Some (left, right, [])
      else do {
        let found = constant_columns left right;
        let extracted = fst ` set found;
        new_identities \<leftarrow> visit_all (\<lambda>(i, l, n).
          simplify_expression F (PE_Binary (PE_Binary (sel_selector left) Alg_Mul l) Alg_Sub (PE_Number n))) found;
        Some (retain_columns extracted left, retain_columns extracted right, new_identities)
      })"

fun extract_from_identity :: "field_desc \<Rightarrow> pil_expr pil_identity \<Rightarrow> (pil_expr pil_identity \<times> pil_expr list) option" where
  "extract_from_identity F (Id_Lookup i left right) = do {
     (left, right, new) \<leftarrow> extract_constants F left right;
     Some (Id_Lookup i left right, new)
   }"
| "extract_from_identity F (Id_PhantomLookup i left right m) = do {
     (left, right, new) \<leftarrow> extract_constants F left right;
     Some (Id_PhantomLookup i left right m, new)
   }"
| "extract_from_identity F x = Some (x, [])"

definition extract_constant_lookups :: "field_desc \<Rightarrow> pil_file \<Rightarrow> pil_file option" where
  "extract_constant_lookups F pf = do {
     found \<leftarrow> visit_all (extract_from_identity F) (identities pf);
     let pf = pf\<lparr>identities := map fst found\<rparr>;
     Some (fold append_polynomial_identity (concat (map snd found)) pf)
   }"

section \<open>Constant columns\<close>

fun constrained_to_constant :: "pil_expr \<Rightarrow> ((string \<times> poly_id) \<times> int) option" where
  "constrained_to_constant (PE_Binary (PE_Number n) Alg_Sub (PE_Reference poly)) =
     (if is_witness poly then Some ((ref_name poly, ref_poly_id poly), n) else None)"
| "constrained_to_constant (PE_Binary (PE_Reference poly) Alg_Sub (PE_Number n)) =
     (if is_witness poly then Some ((ref_name poly, ref_poly_id poly), n) else None)"
| "constrained_to_constant (PE_Reference poly) =
     (if is_witness poly then Some ((ref_name poly, ref_poly_id poly), 0) else None)"
| "constrained_to_constant _ = None"

text \<open>Collecting pairs into a hash map keeps the last value of a key.\<close>

definition hash_map_of :: "('k \<times> 'v) list \<Rightarrow> 'k \<Rightarrow> 'v option" where
  "hash_map_of kvs = map_of (rev kvs)"

fun substitute_function :: "(string \<Rightarrow> int option) \<Rightarrow> pil_function \<Rightarrow> pil_function" where
  "substitute_function by_name (PF_Poly name) = (case by_name name of Some v \<Rightarrow> PF_Number v | None \<Rightarrow> PF_Poly name)"
| "substitute_function by_name e = e"

fun substitute_number :: "field_desc \<Rightarrow> (poly_id \<Rightarrow> int option) \<Rightarrow> pil_expr \<Rightarrow> pil_expr option" where
  "substitute_number F by_id (PE_Reference r) = (case by_id (ref_poly_id r) of
     Some v \<Rightarrow> do { n \<leftarrow> checked_from F v; Some (PE_Number n) }
   | None \<Rightarrow> Some (PE_Reference r))"
| "substitute_number F by_id e = Some e"

definition substitute_polynomial_references ::
  "field_desc \<Rightarrow> pil_file \<Rightarrow> ((string \<times> poly_id) \<times> int) list \<Rightarrow> pil_file option" where
  "substitute_polynomial_references F pf substitutions = do {
     let by_id = hash_map_of (map (\<lambda>((name, i), v). (i, v)) substitutions);
     let by_name = hash_map_of (map (\<lambda>((name, i), v). (name, v)) substitutions);
     let pf = post_visit_expressions (substitute_function by_name) pf;
     post_visit_expressions_in_identities (substitute_number F by_id) pf
   }"

fun polynomial_expression :: "'e pil_identity \<Rightarrow> 'e option" where
  "polynomial_expression (Id_Polynomial i e) = Some e"
| "polynomial_expression _ = None"

definition polynomial_expressions :: "pil_file \<Rightarrow> pil_expr list" where
  "polynomial_expressions pf = List.map_filter polynomial_expression (identities pf)"

definition removable_columns :: "pil_file \<Rightarrow> poly_id set" where
  "removable_columns pf = (let in_publics = (\<lambda>(n, pd). public_polynomial pd) ` set (public_declarations pf) in
     set (List.map_filter (\<lambda>(s, d). if \<not> is_array s \<and> symbol_name s \<notin> in_publics then symbol_poly_id s else None)
       (definitions_in_source_order Committed pf)))"

definition constant_witness_columns :: "pil_file \<Rightarrow> ((string \<times> poly_id) \<times> int) list" where
  "constant_witness_columns pf =
     filter (\<lambda>((name, i), v). i \<in> removable_columns pf)
       (List.map_filter constrained_to_constant (polynomial_expressions pf))"

definition remove_constant_witness_columns :: "field_desc \<Rightarrow> pil_file \<Rightarrow> pil_file option" where
  "remove_constant_witness_columns F pf = substitute_polynomial_references F pf (constant_witness_columns pf)"

text \<open>Fixed columns defined by an array of one number.\<close>

fun number_of :: "pil_function \<Rightarrow> int option" where
  "number_of (PF_Number n) = Some n"
| "number_of _ = None"

definition fixed_constant_value :: "function_value_definition \<Rightarrow> int option" where
  "fixed_constant_value function = (case function of
     FV_Array expression \<Rightarrow>
       (case map number_of (array_children expression) of
          Some first # values \<Rightarrow> if list_all (\<lambda>x. x = Some first) values then Some first else None
        | _ \<Rightarrow> None)
   | _ \<Rightarrow> None)"

definition constant_fixed_columns :: "pil_file \<Rightarrow> ((string \<times> poly_id) \<times> int) list" where
  "constant_fixed_columns pf = List.map_filter (\<lambda>(poly, d). if is_array poly then None else do {
     d \<leftarrow> d;
     v \<leftarrow> fixed_constant_value d;
     p \<leftarrow> symbol_poly_id poly;
     Some ((symbol_name poly, p), v)
   }) (definitions_in_source_order Constant pf)"

definition remove_constant_fixed_columns :: "field_desc \<Rightarrow> pil_file \<Rightarrow> pil_file option" where
  "remove_constant_fixed_columns F pf = substitute_polynomial_references F pf (constant_fixed_columns pf)"

text \<open>Intermediate columns defined as a number; arrays are left alone.\<close>

definition constant_intermediate :: "pil_symbol \<times> pil_expr list \<Rightarrow> ((string \<times> poly_id) \<times> int) option option" where
  "constant_intermediate c = (case c of (s, es) \<Rightarrow> do {
     ps \<leftarrow> symbol_elements s;
     rust_assert (is_array s \<or> es \<noteq> []);
     Some (if is_array s then None
       else (case (ps, es) of
         (p # _, PE_Number v # _) \<Rightarrow> Some ((symbol_name s, p), v)
       | _ \<Rightarrow> None))
   })"

definition remove_constant_intermediate_columns :: "field_desc \<Rightarrow> pil_file \<Rightarrow> pil_file option" where
  "remove_constant_intermediate_columns F pf = do {
     found \<leftarrow> visit_all constant_intermediate (intermediate_polys_in_source_order pf);
     substitute_polynomial_references F pf (List.map_filter (\<lambda>c. c) found)
   }"

section \<open>Trivial and duplicate identities\<close>

definition same_reference :: "algebraic_reference \<Rightarrow> algebraic_reference \<Rightarrow> bool" where
  "same_reference l r \<longleftrightarrow> ref_poly_id l = ref_poly_id r \<and> ref_next l = ref_next r"

fun trivial_polynomial :: "pil_expr \<Rightarrow> bool" where
  "trivial_polynomial (PE_Number n) \<longleftrightarrow> n = 0"
| "trivial_polynomial (PE_Binary (PE_Reference l) Alg_Sub (PE_Reference r)) \<longleftrightarrow> same_reference l r"
| "trivial_polynomial _ \<longleftrightarrow> False"

definition trivial_selected :: "'e selected_columns \<Rightarrow> 'e selected_columns \<Rightarrow> bool option" where
  "trivial_selected left right = do {
     rust_assert (length (sel_expressions left) = length (sel_expressions right));
     Some (sel_expressions left = [])
   }"

fun trivial_identity :: "pil_expr pil_identity \<Rightarrow> bool option" where
  "trivial_identity (Id_Polynomial i e) = Some (trivial_polynomial e)"
| "trivial_identity (Id_Lookup i l r) = trivial_selected l r"
| "trivial_identity (Id_PhantomLookup i l r m) = trivial_selected l r"
| "trivial_identity (Id_Permutation i l r) = trivial_selected l r"
| "trivial_identity (Id_PhantomPermutation i l r) = trivial_selected l r"
| "trivial_identity (Id_Connect i l r) = Some False"
| "trivial_identity (Id_PhantomBusInteraction i m b p l a) = Some False"

definition remove_trivial_identities :: "pil_file \<Rightarrow> pil_file option" where
  "remove_trivial_identities pf = do {
     trivial \<leftarrow> visit_all trivial_identity (identities pf);
     remove_identities (set (filter (\<lambda>i. trivial ! i) [0..<length trivial])) pf
   }"

text \<open>The canonical comparison ignores the id and, through the equality of references, all names.\<close>

fun canonical_identity :: "pil_expr pil_identity \<Rightarrow> pil_expr pil_identity" where
  "canonical_identity (Id_Polynomial i e) = Id_Polynomial 0 (unnamed e)"
| "canonical_identity (Id_Lookup i l r) = Id_Lookup 0 (map_selected_columns unnamed l) (map_selected_columns unnamed r)"
| "canonical_identity (Id_PhantomLookup i l r m) = Id_PhantomLookup 0 (map_selected_columns unnamed l) (map_selected_columns unnamed r) (unnamed m)"
| "canonical_identity (Id_Permutation i l r) = Id_Permutation 0 (map_selected_columns unnamed l) (map_selected_columns unnamed r)"
| "canonical_identity (Id_PhantomPermutation i l r) = Id_PhantomPermutation 0 (map_selected_columns unnamed l) (map_selected_columns unnamed r)"
| "canonical_identity (Id_Connect i l r) = Id_Connect 0 (map unnamed l) (map unnamed r)"
| "canonical_identity x = x"

fun duplicate_indices :: "pil_expr pil_identity list \<Rightarrow> nat \<Rightarrow> pil_expr pil_identity list \<Rightarrow> nat list" where
  "duplicate_indices seen index [] = []"
| "duplicate_indices seen index (x # xs) =
     (if is_bus x then duplicate_indices seen (index + 1) xs
      else if canonical_identity x \<in> set seen then index # duplicate_indices seen (index + 1) xs
      else duplicate_indices (canonical_identity x # seen) (index + 1) xs)"

definition remove_duplicate_identities :: "pil_file \<Rightarrow> pil_file option" where
  "remove_duplicate_identities pf = remove_identities (set (duplicate_indices [] 0 (identities pf))) pf"

section \<open>Equal columns\<close>

text \<open>\<open>build_poly_id_to_definition_name_lookup\<close>.\<close>

definition definition_entries :: "string \<Rightarrow> pil_symbol \<Rightarrow> (poly_id \<times> string \<times> nat option) list" where
  "definition_entries name s = (case symbol_elements s of
     None \<Rightarrow> []
   | Some ps \<Rightarrow> map (\<lambda>(idx, p). (p, name, if is_array s then Some idx else None)) (enumerate 0 ps))"

definition build_poly_id_to_definition_name_lookup :: "pil_file \<Rightarrow> poly_id \<Rightarrow> (string \<times> nat option) option" where
  "build_poly_id_to_definition_name_lookup pf = hash_map_of (concat
     (map (\<lambda>(name, s, d). definition_entries name s) (definitions pf) @
      map (\<lambda>(name, s, d). definition_entries name s) (intermediate_columns pf)))"

definition valid_left :: "(poly_id \<Rightarrow> (string \<times> nat option) option) \<Rightarrow> algebraic_reference \<Rightarrow> bool option" where
  "valid_left names x = (if is_witness x then do { (name, idx) \<leftarrow> names (ref_poly_id x); Some (idx = None) } else Some False)"

fun equal_constrained ::
  "(poly_id \<Rightarrow> (string \<times> nat option) option) \<Rightarrow> pil_expr \<Rightarrow> ((string \<times> poly_id) \<times> (string \<times> poly_id)) option option" where
  "equal_constrained names (PE_Binary (PE_Reference l) Alg_Sub (PE_Reference r)) = do {
     left_ok \<leftarrow> valid_left names l;
     Some (if left_ok \<and> is_witness r \<and> ref_next r = ref_next l
       then Some (if ref_poly_id l > ref_poly_id r
         then ((ref_name l, ref_poly_id l), (ref_name r, ref_poly_id r))
         else ((ref_name r, ref_poly_id r), (ref_name l, ref_poly_id l)))
       else None)
   }"
| "equal_constrained names _ = Some None"

type_synonym column_key = "string \<times> poly_id"

fun resolve_pass :: "column_key list \<Rightarrow> (column_key, column_key) btree_map \<Rightarrow> bool \<Rightarrow> (column_key, column_key) btree_map \<times> bool" where
  "resolve_pass [] subs changed = (subs, changed)"
| "resolve_pass (key # keys) subs changed = (case bt_get subs key of
     None \<Rightarrow> resolve_pass keys subs changed
   | Some target_key \<Rightarrow> (case bt_get subs target_key of
       None \<Rightarrow> resolve_pass keys subs changed
     | Some new_target \<Rightarrow>
         if target_key \<noteq> new_target then resolve_pass keys (bt_insert key new_target subs) True
         else resolve_pass keys subs changed))"

partial_function (option) resolve_transitive_substitutions ::
  "(column_key, column_key) btree_map \<Rightarrow> (column_key, column_key) btree_map option" where
  "resolve_transitive_substitutions subs = (case resolve_pass (map fst subs) subs False of
     (subs, changed) \<Rightarrow> if changed then resolve_transitive_substitutions subs else Some subs)"

declare resolve_transitive_substitutions.simps [code]

fun replace_reference :: "(poly_id \<Rightarrow> column_key option) \<Rightarrow> pil_expr \<Rightarrow> pil_expr" where
  "replace_reference by_id (PE_Reference r) = (case by_id (ref_poly_id r) of
     Some (name, i) \<Rightarrow> PE_Reference (r\<lparr>ref_poly_id := i, ref_name := name\<rparr>)
   | None \<Rightarrow> PE_Reference r)"
| "replace_reference by_id e = e"

fun replace_name :: "(string \<Rightarrow> column_key option) \<Rightarrow> pil_function \<Rightarrow> pil_function" where
  "replace_name by_name (PF_Poly name) = (case by_name name of Some (n, i) \<Rightarrow> PF_Poly n | None \<Rightarrow> PF_Poly name)"
| "replace_name by_name e = e"

definition equal_substitutions :: "pil_file \<Rightarrow> (column_key, column_key) btree_map option" where
  "equal_substitutions pf = do {
     found \<leftarrow> visit_all (equal_constrained (build_poly_id_to_definition_name_lookup pf)) (polynomial_expressions pf);
     resolve_transitive_substitutions (fold (\<lambda>(k, v) m. bt_insert k v m) (List.map_filter (\<lambda>c. c) found) [])
   }"

definition remove_equal_constrained_witness_columns :: "pil_file \<Rightarrow> pil_file option" where
  "remove_equal_constrained_witness_columns pf = do {
     substitutions \<leftarrow> equal_substitutions pf;
     let by_id = hash_map_of (map (\<lambda>((name, i), v). (i, v)) substitutions);
     let by_name = hash_map_of (map (\<lambda>((name, i), v). (name, v)) substitutions);
     pf \<leftarrow> post_visit_expressions_in_identities (\<lambda>e. Some (replace_reference by_id e)) pf;
     Some (post_visit_expressions (replace_name by_name) pf)
   }"

end
