(* ===== verification/Pilopt_Correct.thy ===== *)
theory Pilopt_Correct
  imports Pilopt
begin

text \<open>
  What the passes of the optimizer do to the set of satisfying assignments.
\<close>

section \<open>Values of expressions\<close>

lemma eval_canonical:
  assumes "field_element F" "assignment_ok F A"
  shows "canonical F (eval_expr F N A e row)"
proof -
  note ops = field_element.ops_canonical[OF assms(1)]
  show ?thesis using assms(2) ops
    by (cases e) (auto simp: assignment_ok_def Let_def split: algebraic_binary_operator.split algebraic_unary_operator.split)
qed

lemma fe_neutral:
  assumes "canonical F x"
  shows "fe_add F 0 x = x" "fe_add F x 0 = x" "fe_sub F x 0 = x" "fe_mul F 1 x = x" "fe_mul F x 1 = x"
    "fe_mul F 0 x = 0" "fe_mul F x 0 = 0" "fe_from F x = x"
  using assms by (simp_all add: canonical_def fe_add_def fe_sub_def fe_mul_def fe_from_def)

lemma fe_from_zero_one: "field_element F \<Longrightarrow> fe_from F 0 = 0" "field_element F \<Longrightarrow> fe_from F 1 = 1"
  using field_element.modulus_gt_2[of F] by (simp_all add: fe_from_def)

lemma fe_from_ops:
  "fe_from F (fe_add F x y) = fe_add F (fe_from F x) (fe_from F y)"
  "fe_from F (fe_sub F x y) = fe_sub F (fe_from F x) (fe_from F y)"
  "fe_from F (fe_mul F x y) = fe_mul F (fe_from F x) (fe_from F y)"
  "fe_from F (fe_neg F x) = fe_neg F (fe_from F x)"
  by (simp_all add: fe_from_def fe_add_def fe_sub_def fe_mul_def fe_neg_def mod_simps)

lemma fe_sub_zero: "canonical F x \<Longrightarrow> canonical F y \<Longrightarrow> fe_sub F x y = 0 \<longleftrightarrow> x = y"
proof
  assume c: "canonical F x" "canonical F y" and "fe_sub F x y = 0"
  then have "modulus F dvd x - y" by (simp add: fe_sub_def mod_eq_0_iff_dvd)
  then show "x = y" using c unfolding canonical_def
    by (smt (verit, best) mod_pos_pos_trivial mod_eq_dvd_iff)
qed (simp add: fe_sub_def)

lemma simplify_single_eval:
  assumes "field_element F" "assignment_ok F A"
  shows "eval_expr F N A (simplify_expression_single F e) row = eval_expr F N A e row"
proof (cases e)
  case (PE_Binary l op r)
  note can = eval_canonical[OF assms, of N l row] eval_canonical[OF assms, of N r row]
  note facts = fe_neutral[OF can(1)] fe_neutral[OF can(2)] fe_from_zero_one[OF assms(1)] fe_from_ops
  show ?thesis
  proof (cases op)
    case Alg_Add
    show ?thesis by (cases l; cases r) (use facts in \<open>auto simp: PE_Binary Alg_Add simplify_expression_single_def Let_def\<close>)
  next
    case Alg_Sub
    show ?thesis by (cases l; cases r) (use facts in \<open>auto simp: PE_Binary Alg_Sub simplify_expression_single_def Let_def\<close>)
  next
    case Alg_Mul
    show ?thesis by (cases l; cases r) (use facts in \<open>auto simp: PE_Binary Alg_Mul simplify_expression_single_def Let_def\<close>)
  next
    case Alg_Pow
    show ?thesis by (cases l; cases r) (simp_all add: PE_Binary Alg_Pow simplify_expression_single_def)
  qed
next
  case (PE_Unary op x)
  show ?thesis
    by (cases op; cases x) (simp_all add: PE_Unary simplify_expression_single_def fe_from_ops)
qed (simp_all add: simplify_expression_single_def)

lemma post_visit_eval:
  assumes "\<And>e. eval_expr F N A (f e) row = eval_expr F N A e row"
  shows "post_visit (\<lambda>e. Some (f e)) e = Some e' \<Longrightarrow> eval_expr F N A e' row = eval_expr F N A e row"
proof (induction e arbitrary: e')
  case (PE_Binary l op r)
  then obtain l' r' where "post_visit (\<lambda>e. Some (f e)) l = Some l'" "post_visit (\<lambda>e. Some (f e)) r = Some r'"
    "e' = f (PE_Binary l' op r')" by (auto simp: bind_eq_Some_conv)
  with PE_Binary.IH show ?case by (simp add: assms)
next
  case (PE_Unary op e)
  then obtain x where "post_visit (\<lambda>e. Some (f e)) e = Some x" "e' = f (PE_Unary op x)" by (auto simp: bind_eq_Some_conv)
  with PE_Unary.IH show ?case by (cases op) (simp add: assms)
qed (auto simp: assms)

lemma simplify_expression_eval:
  assumes "field_element F" "assignment_ok F A" "simplify_expression F e = Some e'"
  shows "eval_expr F N A e' row = eval_expr F N A e row"
  using post_visit_eval[of F N A "simplify_expression_single F" row e e'] simplify_single_eval[OF assms(1,2)] assms(3)
  by (simp add: simplify_expression_def)

lemma simplify_expression_total: "\<exists>e'. simplify_expression F e = Some e'"
  unfolding simplify_expression_def by (rule post_visit_total) simp

lemma visit_file_fields:
  assumes "post_visit_expressions_in_identities f pf = Some pf'"
  shows "visit_all (visit_identity (post_visit f)) (identities pf) = Some (identities pf')"
    "visit_all (visit_intermediate f) (intermediate_columns pf) = Some (intermediate_columns pf')"
    "definitions pf' = definitions pf" "public_declarations pf' = public_declarations pf"
    "source_order pf' = source_order pf" "length (identities pf') = length (identities pf)"
  using assms by (auto simp: post_visit_expressions_in_identities_def bind_eq_Some_conv visit_all_Some dest: list_all2_lengthD)

lemma publics_hold_cong:
  assumes "definitions pf' = definitions pf" "public_declarations pf' = public_declarations pf"
  shows "publics_hold pf' A = publics_hold pf A"
  by (simp add: publics_hold_def public_poly_id_def assms)

section \<open>Simplification\<close>

text \<open>C33: simplification. Folding constants and dropping neutral operations in all identities and
  intermediate columns never panics, changes neither the order of the statements nor the number of
  identities, and exactly the same assignments satisfy the system as before.\<close>

theorem simplify_identities_equivalent:
  assumes "field_element (sem_field S)"
  shows "\<exists>pf'. simplify_identities (sem_field S) pf = Some pf' \<and> (\<forall>A. satisfies S A pf' \<longleftrightarrow> satisfies S A pf) \<and>
    source_order pf' = source_order pf \<and> length (identities pf') = length (identities pf)"
proof -
  let ?f = "\<lambda>e. Some (simplify_expression_single (sem_field S) e)"
  obtain pf' where pf': "post_visit_expressions_in_identities ?f pf = Some pf'" using visit_file_total[of ?f pf] by auto
  note v = visit_file_fields[OF pf']
  have "satisfies S A pf' \<longleftrightarrow> satisfies S A pf" for A
  proof (cases "assignment_ok (sem_field S) A")
    case True
    have col: "sem_column S A e' = sem_column S A e" if "post_visit ?f e = Some e'" for e e'
      using simplify_expression_eval[OF assms True] that by (simp add: eval_column_def simplify_expression_def)
    show ?thesis
      using visited_identities_hold[OF v(1), of S A A] visited_intermediates_hold[OF v(2), of S A A] col publics_hold_cong[OF v(3,4)]
      by (simp add: satisfies_def)
  qed (simp add: satisfies_def)
  with pf' v(5,6) show ?thesis by (simp add: simplify_identities_def)
qed

section \<open>Substitution of columns\<close>

text \<open>Well-formed files: intermediate columns have intermediate symbols, the definitions are stored under
  the names of their symbols and share no polynomial, and a bus id mentions no column.\<close>

primrec no_references :: "pil_expr \<Rightarrow> bool" where
  "no_references (PE_Reference r) = False"
| "no_references (PE_PublicReference n) = True"
| "no_references (PE_Challenge i s) = True"
| "no_references (PE_Number n) = True"
| "no_references (PE_Binary l op r) = (no_references l \<and> no_references r)"
| "no_references (PE_Unary op e) = no_references e"

definition symbols_disjoint :: "pil_file \<Rightarrow> bool" where
  "symbols_disjoint pf \<longleftrightarrow> (\<forall>(n, s, d) \<in> set (definitions pf). \<forall>(n', s', d') \<in> set (definitions pf).
     \<forall>ps ps' p. symbol_elements s = Some ps \<longrightarrow> symbol_elements s' = Some ps' \<longrightarrow> p \<in> set ps \<longrightarrow> p \<in> set ps' \<longrightarrow> n = n')"

lemma symbols_disjointD:
  assumes "symbols_disjoint pf" "(n, s, d) \<in> set (definitions pf)" "(n', s', d') \<in> set (definitions pf)"
    "symbol_elements s = Some ps" "symbol_elements s' = Some ps'" "p \<in> set ps" "p \<in> set ps'"
  shows "n = n'"
  using bspec[OF bspec[OF assms(1)[unfolded symbols_disjoint_def] assms(2), unfolded split_conv] assms(3), unfolded split_conv] assms(4-7)
  by blast

definition file_ok :: "pil_file \<Rightarrow> bool" where
  "file_ok pf \<longleftrightarrow> (\<forall>(n, s, es) \<in> set (intermediate_columns pf). symbol_kind s = SK_Poly Intermediate) \<and>
     (\<forall>(n, s, d) \<in> set (definitions pf). symbol_name s = n) \<and> symbols_disjoint pf \<and>
     (\<forall>x \<in> set (identities pf). \<forall>b. bus_id_of x = Some b \<longrightarrow> no_references b)"

text \<open>An assignment with some columns replaced.\<close>

definition replace_columns :: "(poly_id \<Rightarrow> (nat \<Rightarrow> int) option) \<Rightarrow> assignment \<Rightarrow> assignment" where
  "replace_columns g A = A\<lparr>col_value := \<lambda>p. case g p of Some c \<Rightarrow> c | None \<Rightarrow> col_value A p\<rparr>"

lemma replace_columns_sel [simp]:
  "col_value (replace_columns g A) p = (case g p of Some c \<Rightarrow> c | None \<Rightarrow> col_value A p)"
  "public_value (replace_columns g A) = public_value A" "challenge_value (replace_columns g A) = challenge_value A"
  by (simp_all add: replace_columns_def)

lemma no_references_eval: "no_references e \<Longrightarrow> eval_expr F N (replace_columns g A) e row = eval_expr F N A e row"
  by (induction e) (auto split: algebraic_unary_operator.split)

lemma eval_same_columns:
  assumes "\<And>p i. i < N \<Longrightarrow> col_value A' p i = col_value A p i" "public_value A' = public_value A" "challenge_value A' = challenge_value A"
  shows "row < N \<Longrightarrow> eval_expr F N A' e row = eval_expr F N A e row"
proof (induction e)
  case (PE_Reference r)
  then have "(row + 1) mod N < N" by simp
  with PE_Reference assms(1) show ?case by simp
next
  case (PE_Unary op e)
  then show ?case by (cases op) simp
qed (simp_all add: assms)

lemma column_same_columns:
  assumes "\<And>p i. i < sem_rows S \<Longrightarrow> col_value A' p i = col_value A p i" "public_value A' = public_value A"
    "challenge_value A' = challenge_value A"
  shows "sem_column S A' e = sem_column S A e"
  using eval_same_columns[of "sem_rows S" A' A, OF assms] by (simp add: eval_column_def)

lemma identities_same_columns:
  assumes "\<And>p i. i < sem_rows S \<Longrightarrow> col_value A' p i = col_value A p i" "public_value A' = public_value A"
    "challenge_value A' = challenge_value A"
  shows "identities_hold S A' ids = identities_hold S A ids"
proof -
  have "sem_column S A' = sem_column S A" using column_same_columns[OF assms] by (rule ext)
  then show ?thesis by (simp add: identities_hold_def)
qed

lemma intermediates_same_columns:
  assumes "\<And>p i. i < sem_rows S \<Longrightarrow> col_value A' p i = col_value A p i" "public_value A' = public_value A"
    "challenge_value A' = challenge_value A"
  shows "intermediates_hold S A' ics = intermediates_hold S A ics"
proof -
  have "sem_column S A' = sem_column S A" using column_same_columns[OF assms] by (rule ext)
  moreover have "map (col_value A' p) [0..<sem_rows S] = map (col_value A p) [0..<sem_rows S]" for p using assms(1) by simp
  ultimately show ?thesis by (simp only: intermediates_hold_def)
qed

text \<open>A change of the references that an assignment with replaced columns undoes.\<close>

lemma substitution_transfer:
  assumes "post_visit_expressions_in_identities f pf = Some pf'" "file_ok pf"
    "\<And>e e' row. post_visit f e = Some e' \<Longrightarrow> row < sem_rows S \<Longrightarrow>
      eval_expr (sem_field S) (sem_rows S) A e' row = eval_expr (sem_field S) (sem_rows S) (replace_columns g A) e row"
    "\<And>p. g p \<noteq> None \<Longrightarrow> ptype p = Committed"
  shows "identities_hold S A (identities pf') = identities_hold S (replace_columns g A) (identities pf)"
    "intermediates_hold S A (intermediate_columns pf') = intermediates_hold S (replace_columns g A) (intermediate_columns pf)"
proof -
  note v = visit_file_fields[OF assms(1)]
  have col: "sem_column S A e' = sem_column S (replace_columns g A) e" if "post_visit f e = Some e'" for e e'
    using assms(3)[OF that] by (simp add: eval_column_def)
  have bus: "sem_column S A b = sem_column S (replace_columns g A) b" if "x \<in> set (identities pf)" "bus_id_of x = Some b" for x b
    using assms(2) that no_references_eval[of b] by (auto simp: file_ok_def eval_column_def)
  show "identities_hold S A (identities pf') = identities_hold S (replace_columns g A) (identities pf)"
    by (rule visited_identities_hold[OF v(1)]) (use col bus in blast)+
  have kind: "symbol_kind s = SK_Poly Intermediate" if "(n, s, es) \<in> set (intermediate_columns pf)" for n s es
    using assms(2) that by (auto simp: file_ok_def)
  have "g p = None" if "(n, s, es) \<in> set (intermediate_columns pf)" "symbol_elements s = Some ps" "p \<in> set ps" for n s es ps p
  proof -
    have "ptype p = Intermediate" using kind[OF that(1)] that(2,3) by (auto simp: symbol_elements_def)
    then show ?thesis using assms(4)[of p] by (cases "g p") auto
  qed
  then show "intermediates_hold S A (intermediate_columns pf') = intermediates_hold S (replace_columns g A) (intermediate_columns pf)"
    by (intro visited_intermediates_hold[OF v(2)] col) simp_all
qed

lemma map_of_visited: "map_of (map (\<lambda>(n, s, d). (n, s, h d)) xs) k = map_option (\<lambda>(s, d). (s, h d)) (map_of xs k)"
  by (induction xs) auto

lemma public_poly_id_visit: "public_poly_id (post_visit_expressions f pf) pd = public_poly_id pf pd"
  by (cases "map_of (definitions pf) (public_polynomial pd)")
    (auto simp: public_poly_id_def post_visit_expressions_def map_of_visited)

lemma publics_hold_visit: "publics_hold (post_visit_expressions f pf) A = publics_hold pf A"
  by (simp add: publics_hold_def public_poly_id_visit) (simp add: post_visit_expressions_def)

lemma file_ok_visit: "file_ok (post_visit_expressions f pf) = file_ok pf"
  by (simp add: file_ok_def symbols_disjoint_def post_visit_expressions_def case_prod_beta image_iff)

text \<open>The two directions: an assignment whose replaced columns hold their replacement anyway keeps
  satisfying, and one that satisfies the result satisfies the original after the replacement, when no
  public is the cell of a replaced column.\<close>

lemma replaced_forward:
  assumes "satisfies S A pf"
    "identities_hold S A (identities pf') = identities_hold S (replace_columns g A) (identities pf)"
    "intermediates_hold S A (intermediate_columns pf') = intermediates_hold S (replace_columns g A) (intermediate_columns pf)"
    "publics_hold pf' A = publics_hold pf A"
    "\<And>p c i. g p = Some c \<Longrightarrow> i < sem_rows S \<Longrightarrow> c i = col_value A p i"
  shows "satisfies S A pf'"
proof -
  have cols: "col_value (replace_columns g A) p i = col_value A p i" if "i < sem_rows S" for p i
    using assms(5)[OF _ that] by (simp split: option.split)
  have "identities_hold S (replace_columns g A) (identities pf) = identities_hold S A (identities pf)"
    by (rule identities_same_columns) (use cols in auto)
  moreover have "intermediates_hold S (replace_columns g A) (intermediate_columns pf) = intermediates_hold S A (intermediate_columns pf)"
    by (rule intermediates_same_columns) (use cols in auto)
  ultimately show ?thesis using assms(1-4) by (simp add: satisfies_def)
qed

lemma replaced_backward:
  assumes "satisfies S A pf'"
    "identities_hold S A (identities pf') = identities_hold S (replace_columns g A) (identities pf)"
    "intermediates_hold S A (intermediate_columns pf') = intermediates_hold S (replace_columns g A) (intermediate_columns pf)"
    "publics_hold pf' A = publics_hold pf A"
    "\<And>p c i. g p = Some c \<Longrightarrow> canonical (sem_field S) (c i)"
    "\<And>name pd p. (name, pd) \<in> set (public_declarations pf) \<Longrightarrow> public_poly_id pf pd = Some p \<Longrightarrow> g p = None"
  shows "satisfies S (replace_columns g A) pf"
proof -
  have "assignment_ok (sem_field S) (replace_columns g A)"
    using assms(1,5) by (auto simp: satisfies_def assignment_ok_def split: option.split)
  moreover have "publics_hold pf (replace_columns g A)"
    using assms(1,4,6) by (fastforce simp: satisfies_def publics_hold_def)
  ultimately show ?thesis using assms(1-3) by (simp add: satisfies_def)
qed

section \<open>Columns constrained to a constant\<close>

primrec numbers_canonical :: "field_desc \<Rightarrow> pil_expr \<Rightarrow> bool" where
  "numbers_canonical F (PE_Reference r) = True"
| "numbers_canonical F (PE_PublicReference n) = True"
| "numbers_canonical F (PE_Challenge i s) = True"
| "numbers_canonical F (PE_Number n) = canonical F n"
| "numbers_canonical F (PE_Binary l op r) = (numbers_canonical F l \<and> numbers_canonical F r)"
| "numbers_canonical F (PE_Unary op e) = numbers_canonical F e"

definition constant_replacement :: "field_desc \<Rightarrow> ((string \<times> poly_id) \<times> int) list \<Rightarrow> poly_id \<Rightarrow> (nat \<Rightarrow> int) option" where
  "constant_replacement F subs p = map_option (\<lambda>v row. fe_from F v) (hash_map_of (map (\<lambda>((name, i), v). (i, v)) subs) p)"

lemma hash_map_of_entry: "hash_map_of kvs k = Some v \<Longrightarrow> (k, v) \<in> set kvs"
  by (auto simp: hash_map_of_def dest: map_of_SomeD)

lemma substitute_number_eval:
  "post_visit (substitute_number F (hash_map_of (map (\<lambda>((name, i), v). (i, v)) subs))) e = Some e' \<Longrightarrow>
   eval_expr F N A e' row = eval_expr F N (replace_columns (constant_replacement F subs) A) e row"
proof (induction e arbitrary: e')
  case (PE_Reference r)
  then show ?case
    by (auto simp: constant_replacement_def checked_from_def fe_from_def bind_eq_Some_conv split: option.splits if_splits)
next
  case (PE_Binary l op r)
  then show ?case by (auto simp: bind_eq_Some_conv)
next
  case (PE_Unary op e)
  then show ?case by (cases op) (auto simp: bind_eq_Some_conv)
qed auto

lemma substitute_number_total:
  assumes "\<And>p v. by_id p = Some v \<Longrightarrow> v < modulus F"
  shows "\<forall>e. \<exists>e'. substitute_number F by_id e = Some e'"
proof
  fix e show "\<exists>e'. substitute_number F by_id e = Some e'"
    using assms by (cases e) (auto simp: checked_from_def split: option.split)
qed

lemma polynomial_identity_zero:
  assumes "identities_hold S A (identities pf)" "e \<in> set (polynomial_expressions pf)" "row < sem_rows S"
  shows "eval_expr (sem_field S) (sem_rows S) A e row = 0"
proof -
  obtain x where x: "x \<in> set (identities pf)" "polynomial_expression x = Some e"
    using assms(2) by (auto simp: polynomial_expressions_def in_map_filter)
  obtain i where "x = Id_Polynomial i e" using x(2) by (cases x) auto
  with x(1) have "Id_Polynomial i e \<in> set (identities pf)" by simp
  with assms(1,3) show ?thesis by (fastforce simp: identities_hold_def list_all_iff eval_column_def)
qed

text \<open>A constraint in every row fixes a column in every row, also through the next row.\<close>

lemma every_row:
  fixes N :: nat
  shows "(\<And>row. row < N \<Longrightarrow> P (if next then (row + 1) mod N else row)) \<Longrightarrow> i < N \<Longrightarrow> P i"
proof -
  assume P: "\<And>row. row < N \<Longrightarrow> P (if next then (row + 1) mod N else row)" and i: "i < N"
  have "((i + N - 1) mod N + 1) mod N = (i + N) mod N" using i by (simp add: mod_simps)
  then have "((i + N - 1) mod N + 1) mod N = i" using i by simp
  then show "P i" using P[of i] P[of "(i + N - 1) mod N"] i by (cases "next") auto
qed

lemma constrained_forms:
  "constrained_to_constant e = Some ((name, p), v) \<Longrightarrow> \<exists>r. ref_poly_id r = p \<and> is_witness r \<and>
     (e = PE_Binary (PE_Number v) Alg_Sub (PE_Reference r) \<or> e = PE_Binary (PE_Reference r) Alg_Sub (PE_Number v) \<or>
      e = PE_Reference r \<and> v = 0)"
  by (cases e rule: constrained_to_constant.cases) (auto split: if_splits)

lemma constrained_constant_value:
  assumes "field_element F" "assignment_ok F A" "constrained_to_constant e = Some ((name, p), v)"
    "\<And>row. row < N \<Longrightarrow> eval_expr F N A e row = 0" "i < N"
  shows "col_value A p i = fe_from F v"
proof -
  obtain r where r: "ref_poly_id r = p" and e: "e = PE_Binary (PE_Number v) Alg_Sub (PE_Reference r) \<or>
      e = PE_Binary (PE_Reference r) Alg_Sub (PE_Number v) \<or> e = PE_Reference r \<and> v = 0"
    using constrained_forms[OF assms(3)] by blast
  have can: "canonical F (col_value A p j)" "canonical F (fe_from F v)" for j
    using assms(1,2) field_element.ops_canonical[OF assms(1)] by (auto simp: assignment_ok_def)
  have "col_value A p (if ref_next r then (row + 1) mod N else row) = fe_from F v" if "row < N" for row
    using e assms(4)[OF that] r fe_sub_zero[OF can] fe_sub_zero[OF can(2,1)] fe_from_zero_one(1)[OF assms(1)] by auto
  then show ?thesis by (rule every_row[of N "\<lambda>i. col_value A p i = fe_from F v"]) (use assms(5) in simp_all)
qed

lemma constant_witness_entry:
  assumes "(k, v) \<in> set (constant_witness_columns pf)"
  shows "snd k \<in> removable_columns pf"
    "\<exists>e \<in> set (polynomial_expressions pf). constrained_to_constant e = Some (k, v)"
  using assms by (auto simp: constant_witness_columns_def in_map_filter)

lemma removable_column:
  assumes "p \<in> removable_columns pf"
  shows "\<exists>n s d. (n, s, d) \<in> set (definitions pf) \<and> symbol_elements s = Some [p] \<and> ptype p = Committed \<and>
    symbol_name s \<notin> (\<lambda>(n, pd). public_polynomial pd) ` set (public_declarations pf)"
proof -
  obtain s d where sd: "(s, d) \<in> set (definitions_in_source_order Committed pf)" "\<not> is_array s"
    "symbol_name s \<notin> (\<lambda>(n, pd). public_polynomial pd) ` set (public_declarations pf)" "symbol_poly_id s = Some p"
    using assms by (auto simp: removable_columns_def Let_def in_map_filter split: if_splits)
  obtain n where "map_of (definitions pf) n = Some (s, d)" "symbol_kind s = SK_Poly Committed"
  proof -
    obtain st where "(case st of SI_Definition name \<Rightarrow> (case map_of (definitions pf) name of
        Some (s, d) \<Rightarrow> if symbol_kind s = SK_Poly Committed then Some (s, d) else None | None \<Rightarrow> None) | _ \<Rightarrow> None) = Some (s, d)"
      using sd(1) unfolding definitions_in_source_order_def in_map_filter by blast
    then show ?thesis by (cases st) (auto split: option.splits if_splits intro: that)
  qed
  with sd show ?thesis
    by (intro exI[of _ n] exI[of _ s] exI[of _ d]) (auto simp: symbol_elements_def symbol_poly_id_def is_array_def dest: map_of_SomeD)
qed

lemma removable_not_public:
  assumes "file_ok pf" "p \<in> removable_columns pf" "(name, pd) \<in> set (public_declarations pf)"
  shows "public_poly_id pf pd \<noteq> Some p"
proof
  assume "public_poly_id pf pd = Some p"
  then obtain s' d' ps where s': "(public_polynomial pd, s', d') \<in> set (definitions pf)" "symbol_elements s' = Some ps" "p \<in> set ps"
    by (auto simp: public_poly_id_def bind_eq_Some_conv Let_def split: if_splits dest!: map_of_SomeD)
  obtain n s d where s: "(n, s, d) \<in> set (definitions pf)" "symbol_elements s = Some [p]"
    "symbol_name s \<notin> (\<lambda>(n, pd). public_polynomial pd) ` set (public_declarations pf)"
    using removable_column[OF assms(2)] by blast
  have "symbols_disjoint pf" "symbol_name s = n" using assms(1) s(1) by (auto simp: file_ok_def)
  moreover from this(1) have "n = public_polynomial pd"
    using symbols_disjointD[OF _ s(1) s'(1) s(2) s'(2), of p] s'(3) by simp
  ultimately show False using s(3) assms(3) by force
qed

text \<open>C34: removal of constant witness columns. The pass never panics on a well-formed file with canonical
  numbers. Every assignment that satisfies the system satisfies the result, and every assignment that
  satisfies the result satisfies the original system once the removed columns hold their constants;
  the columns of publics are not among them, so the publics are the same.\<close>

theorem constant_witness_removal:
  fixes S pf
  defines "F \<equiv> sem_field S"
  assumes "field_element F" "file_ok pf" "\<forall>e \<in> set (polynomial_expressions pf). numbers_canonical F e"
  shows "\<exists>pf'. remove_constant_witness_columns F pf = Some pf' \<and>
    (\<forall>A. satisfies S A pf \<longrightarrow> satisfies S A pf') \<and>
    (\<forall>A. satisfies S A pf' \<longrightarrow> satisfies S (replace_columns (constant_replacement F (constant_witness_columns pf)) A) pf)"
proof -
  let ?subs = "constant_witness_columns pf"
  let ?g = "constant_replacement F ?subs"
  let ?by_id = "hash_map_of (map (\<lambda>((name, i), v). (i, v)) ?subs)"
  let ?f = "substitute_number F ?by_id"
  let ?pf1 = "post_visit_expressions (substitute_function (hash_map_of (map (\<lambda>((name, i), v). (name, v)) ?subs))) pf"
  have entry: "p \<in> removable_columns pf \<and> (\<exists>e \<in> set (polynomial_expressions pf). \<exists>n. constrained_to_constant e = Some ((n, p), v))"
    if "?by_id p = Some v" for p v
    using hash_map_of_entry[OF that] constant_witness_entry by fastforce
  have "v < modulus F" if v: "?by_id p = Some v" for p v
  proof -
    obtain e n where e: "e \<in> set (polynomial_expressions pf)" "constrained_to_constant e = Some ((n, p), v)" using entry[OF v] by blast
    show ?thesis using constrained_forms[OF e(2)] assms(4) e(1) field_element.modulus_pos[OF assms(2)] by (auto simp: canonical_def)
  qed
  then obtain pf' where pf': "post_visit_expressions_in_identities ?f ?pf1 = Some pf'"
    using visit_file_total[OF substitute_number_total[of ?by_id F]] by blast
  have ok: "file_ok ?pf1" using assms(3) by (simp add: file_ok_visit)
  have same: "identities ?pf1 = identities pf" "intermediate_columns ?pf1 = intermediate_columns pf"
    by (simp_all add: post_visit_expressions_def)
  have g: "ptype p = Committed" "p \<in> removable_columns pf" if "?g p \<noteq> None" for p
    using that entry[of p] removable_column[of p pf] by (auto simp: constant_replacement_def)
  have pub: "publics_hold pf' A = publics_hold pf A" for A
    using publics_hold_cong[OF visit_file_fields(3,4)[OF pf'], of A] by (simp add: publics_hold_visit)
  note transfer = substitution_transfer[OF pf' ok, of S _ ?g, folded F_def, OF _ g(1), unfolded same]
  have tr: "identities_hold S A (identities pf') = identities_hold S (replace_columns ?g A) (identities pf)"
    "intermediates_hold S A (intermediate_columns pf') = intermediates_hold S (replace_columns ?g A) (intermediate_columns pf)" for A
    using transfer[of A] substitute_number_eval[of F ?subs] by blast+
  have "satisfies S A pf'" if A: "satisfies S A pf" for A
  proof (rule replaced_forward[OF A tr pub])
    fix p c i assume c: "?g p = Some c" "i < sem_rows S"
    then obtain v where bv: "?by_id p = Some v" and cv: "c = (\<lambda>row. fe_from F v)"
      unfolding constant_replacement_def map_option_eq_Some by blast
    obtain e n where v: "e \<in> set (polynomial_expressions pf)" "constrained_to_constant e = Some ((n, p), v)"
      using entry[OF bv] by blast
    have "col_value A p i = fe_from F v"
      using constrained_constant_value[OF assms(2) _ v(2) _ c(2)] polynomial_identity_zero[OF _ v(1)] A
      by (simp add: satisfies_def F_def)
    with cv show "c i = col_value A p i" by simp
  qed
  moreover have "satisfies S (replace_columns ?g A) pf" if A: "satisfies S A pf'" for A
  proof (rule replaced_backward[OF A tr pub])
    show "canonical (sem_field S) (c i)" if "?g p = Some c" for p c i
      using that field_element.ops_canonical(5)[OF assms(2)] by (auto simp: constant_replacement_def F_def)
    show "?g p = None" if "(name, pd) \<in> set (public_declarations pf)" "public_poly_id pf pd = Some p" for name pd p
      using removable_not_public[OF assms(3) g(2) that(1)] that(2) by blast
  qed
  ultimately show ?thesis using pf' by (auto simp: remove_constant_witness_columns_def substitute_polynomial_references_def Let_def)
qed

section \<open>An example file\<close>

text \<open>Two witness columns \<open>x\<close> and \<open>y\<close>, with given publics and polynomial identities.\<close>

definition column_ref :: "string \<Rightarrow> nat \<Rightarrow> pil_expr" where
  "column_ref name i = PE_Reference \<lparr>ref_name = name, ref_poly_id = PolyID i Committed, ref_next = False\<rparr>"

definition column_symbol :: "string \<Rightarrow> nat \<Rightarrow> string \<times> pil_symbol \<times> function_value_definition option" where
  "column_symbol name i = (name, \<lparr>symbol_id = i, symbol_name = name, symbol_kind = SK_Poly Committed, symbol_length = None\<rparr>, None)"

definition column_public :: "string \<Rightarrow> string \<Rightarrow> string \<times> public_declaration" where
  "column_public name col = (name, \<lparr>public_polynomial = col, public_array_index = None, public_row = 0\<rparr>)"

definition two_columns :: "(string \<times> public_declaration) list \<Rightarrow> pil_expr pil_identity list \<Rightarrow> pil_file" where
  "two_columns pubs ids = \<lparr>definitions = [column_symbol ''x'' 0, column_symbol ''y'' 1], public_declarations = pubs,
     intermediate_columns = [], identities = ids, prover_functions = [],
     source_order = [SI_Definition ''x'', SI_Definition ''y''] @ map SI_ProofItem [0..<length ids]\<rparr>"

definition one_row :: semantics where
  "one_row = \<lparr>sem_field = goldilocks_field, sem_rows = 1, sem_connect = (\<lambda>l r. True), sem_bus = (\<lambda>cs. True)\<rparr>"

definition two_values :: "int \<Rightarrow> int \<Rightarrow> assignment" where
  "two_values x y = \<lparr>col_value = (\<lambda>p row. if p = PolyID 0 Committed then x else if p = PolyID 1 Committed then y else 0),
     public_value = (\<lambda>n. if n = ''inp'' then x else if n = ''out'' then y else 0), challenge_value = (\<lambda>i s. 0)\<rparr>"

lemma two_columns_ok: "\<forall>x \<in> set ids. bus_id_of x = None \<Longrightarrow> file_ok (two_columns pubs ids)"
  by (auto simp: file_ok_def symbols_disjoint_def two_columns_def column_symbol_def symbol_elements_def)

lemma goldilocks_field_element: "field_element goldilocks_field"
  by (rule gl.field_element_axioms)

theorem simplify_identities_equivalent_witness:
  "simplify_identities goldilocks_field (two_columns [] [Id_Polynomial 0 (PE_Binary (PE_Binary (PE_Number 1) Alg_Mul (column_ref ''x'' 0)) Alg_Sub (PE_Number 5))])
     = Some (two_columns [] [Id_Polynomial 0 (PE_Binary (column_ref ''x'' 0) Alg_Sub (PE_Number 5))]) \<and>
   (\<forall>A. satisfies one_row A (two_columns [] [Id_Polynomial 0 (PE_Binary (column_ref ''x'' 0) Alg_Sub (PE_Number 5))]) \<longleftrightarrow>
     satisfies one_row A (two_columns [] [Id_Polynomial 0 (PE_Binary (PE_Binary (PE_Number 1) Alg_Mul (column_ref ''x'' 0)) Alg_Sub (PE_Number 5))]))"
proof -
  let ?pf = "two_columns [] [Id_Polynomial 0 (PE_Binary (PE_Binary (PE_Number 1) Alg_Mul (column_ref ''x'' 0)) Alg_Sub (PE_Number 5))]"
  have "simplify_identities goldilocks_field ?pf = Some (two_columns [] [Id_Polynomial 0 (PE_Binary (column_ref ''x'' 0) Alg_Sub (PE_Number 5))])"
    by (simp add: simplify_identities_def post_visit_expressions_in_identities_def two_columns_def column_ref_def simplify_expression_single_def)
  moreover have "field_element (sem_field one_row)" by (simp add: one_row_def goldilocks_field_element)
  ultimately show ?thesis using simplify_identities_equivalent[of one_row ?pf] by (simp add: one_row_def)
qed

theorem constant_witness_removal_witness:
  "\<exists>pf'. remove_constant_witness_columns goldilocks_field (two_columns [column_public ''inp'' ''x'']
       [Id_Polynomial 0 (PE_Binary (column_ref ''y'' 1) Alg_Sub (PE_Number 5))]) = Some pf' \<and>
     satisfies one_row (two_values 3 5) pf'"
proof -
  let ?pf = "two_columns [column_public ''inp'' ''x''] [Id_Polynomial 0 (PE_Binary (column_ref ''y'' 1) Alg_Sub (PE_Number 5))]"
  have f: "field_element (sem_field one_row)" "sem_field one_row = goldilocks_field" by (simp_all add: one_row_def goldilocks_field_element)
  have "satisfies one_row (two_values 3 5) ?pf"
    by (simp add: satisfies_def assignment_ok_def canonical_def two_values_def one_row_def identities_hold_def two_columns_def column_ref_def
      eval_column_def fe_sub_def fe_from_def intermediates_hold_def publics_hold_def column_public_def public_poly_id_def
      column_symbol_def symbol_elements_def)
  moreover have "\<forall>e \<in> set (polynomial_expressions ?pf). numbers_canonical goldilocks_field e"
    by (simp add: polynomial_expressions_def two_columns_def column_ref_def canonical_def map_filter_def)
  moreover have "file_ok ?pf" by (simp add: two_columns_ok)
  ultimately show ?thesis using constant_witness_removal[of one_row ?pf] f by auto
qed

end
