(* ===== verification/Pilopt_Equal.thy ===== *)
theory Pilopt_Equal
  imports Pilopt_Correct
begin

text \<open>
  Columns that are constrained to be equal: the resolution of chains of substitutions ends and leads
  to columns that are not substituted themselves, and the pass keeps the satisfying assignments up to
  the replaced columns. A public of a replaced column loses its constraint.
\<close>

section \<open>Resolving chains of substitutions\<close>

type_synonym substitutions = "(column_key, column_key) btree_map"

definition key_rank :: "column_key \<Rightarrow> nat" where
  "key_rank k = 3 * pid (snd k) + ptype_rank (ptype (snd k))"

definition total_rank :: "substitutions \<Rightarrow> nat" where
  "total_rank subs = (\<Sum>(k, v) \<leftarrow> subs. key_rank v)"

text \<open>Substitutions lead to smaller polynomial ids, or from a column to itself.\<close>

definition descending :: "substitutions \<Rightarrow> bool" where
  "descending subs \<longleftrightarrow> bt_sorted subs \<and> (\<forall>(k, v) \<in> set subs. v = k \<or> snd v < snd k)"

definition resolved :: "substitutions \<Rightarrow> column_key \<Rightarrow> bool" where
  "resolved subs k \<longleftrightarrow> (\<forall>t. bt_get subs k = Some t \<longrightarrow> bt_get subs t = None \<or> bt_get subs t = Some t)"

lemma key_rank_less: "snd v < snd k \<Longrightarrow> key_rank v < key_rank k"
proof -
  have "ptype_rank t \<le> 2" for t by (cases t) simp_all
  from this[of "ptype (snd v)"] show "snd v < snd k \<Longrightarrow> key_rank v < key_rank k"
    by (auto simp: key_rank_def less_poly_id_def)
qed

lemma bt_get_entry: "bt_sorted m \<Longrightarrow> bt_get m k = Some v \<Longrightarrow> (k, v) \<in> set m"
  by (simp add: bt_get_Some)

lemma bt_get_not_below: "bt_sorted ((l, u) # m) \<Longrightarrow> bt_get ((l, u) # m) k = Some v \<Longrightarrow> \<not> k < l"
  by (fastforce simp: bt_get_def bt_sorted_def split: if_splits dest!: map_of_SomeD)

lemma bt_update_keys: "bt_sorted m \<Longrightarrow> bt_get m k = Some v \<Longrightarrow> map fst (bt_insert k w m) = map fst m"
proof (induction k w m rule: bt_insert.induct)
  case (2 k w l u m)
  then show ?case using bt_get_not_below[OF 2(2,3)] by (auto simp: bt_get_def bt_sorted_def split: if_splits)
qed (simp add: bt_get_def)

lemma total_rank_update:
  "bt_sorted m \<Longrightarrow> bt_get m k = Some v \<Longrightarrow> total_rank (bt_insert k w m) + key_rank v = total_rank m + key_rank w"
proof (induction k w m rule: bt_insert.induct)
  case (2 k w l u m)
  then show ?case using bt_get_not_below[OF 2(2,3)]
    by (auto simp: bt_get_def bt_sorted_def total_rank_def split: if_splits)
qed (simp add: bt_get_def)

lemma bt_update_entries:
  assumes "bt_sorted m" "(a, b) \<in> set (bt_insert k w m)"
  shows "a = k \<and> b = w \<or> (a, b) \<in> set m"
proof -
  have "bt_get (bt_insert k w m) a = Some b" using assms bt_insert_sorted[OF assms(1)] by (simp add: bt_get_Some)
  then show ?thesis using assms(1) by (auto simp: bt_get_insert bt_get_Some split: if_splits)
qed

text \<open>One step: the new target of a key is strictly smaller.\<close>

lemma resolve_step:
  assumes "descending subs" "bt_get subs k = Some t" "bt_get subs t = Some n" "t \<noteq> n"
  shows "descending (bt_insert k n subs)" "map fst (bt_insert k n subs) = map fst subs"
    "total_rank (bt_insert k n subs) < total_rank subs"
proof -
  have s: "bt_sorted subs" using assms(1) by (simp add: descending_def)
  note e = bt_get_entry[OF s assms(2)] bt_get_entry[OF s assms(3)]
  have "snd n < snd t" using assms(1,4) e(2) by (auto simp: descending_def)
  moreover have "snd t < snd k" using assms(1-4) e(1) by (auto simp: descending_def)
  ultimately have less: "snd n < snd t" "snd n < snd k" by auto
  show "descending (bt_insert k n subs)"
    unfolding descending_def
  proof (intro conjI ballI bt_insert_sorted[OF s])
    fix x assume "x \<in> set (bt_insert k n subs)"
    then show "case x of (k, v) \<Rightarrow> v = k \<or> snd v < snd k"
      using bt_update_entries[OF s, of "fst x" "snd x" k n] assms(1) less(2) by (auto simp: descending_def)
  qed
  show "map fst (bt_insert k n subs) = map fst subs" by (rule bt_update_keys[OF s assms(2)])
  show "total_rank (bt_insert k n subs) < total_rank subs"
    using total_rank_update[OF s assms(2), of n] key_rank_less[OF less(1)] by simp
qed

lemma resolve_pass_progress:
  assumes "descending subs" "resolve_pass keys subs c = (subs', c')"
  shows "descending subs' \<and> map fst subs' = map fst subs \<and>
    (if c' then c \<or> total_rank subs' < total_rank subs else subs' = subs \<and> (\<forall>k \<in> set keys. resolved subs k)) \<and>
    total_rank subs' \<le> total_rank subs \<and> (c \<longrightarrow> c')"
  using assms
proof (induction keys subs c rule: resolve_pass.induct)
  case (1 subs c)
  then show ?case by auto
next
  case (2 key keys subs c)
  show ?case
  proof (cases "bt_get subs key")
    case None
    then have "resolved subs key" by (simp add: resolved_def)
    with 2 None show ?thesis by (auto split: if_splits)
  next
    case t: (Some t)
    show ?thesis
    proof (cases "bt_get subs t")
      case None
      then have "resolved subs key" by (simp add: resolved_def t)
      with 2 None t show ?thesis by (auto split: if_splits)
    next
      case n: (Some n)
      show ?thesis
      proof (cases "t = n")
        case True
        then have "resolved subs key" using n by (simp add: resolved_def t)
        with 2 True t n show ?thesis by (auto split: if_splits)
      next
        case False
        note step = resolve_step[OF 2(5) t n False]
        from 2(6) t n False have "resolve_pass keys (bt_insert key n subs) True = (subs', c')" by simp
        from 2(3)[OF t n False step(1) this] step(2,3) show ?thesis by (auto split: if_splits)
      qed
    qed
  qed
qed

text \<open>A transitive relation between keys and targets is kept.\<close>

lemma resolve_pass_relation:
  assumes "\<And>a b c. E a b \<Longrightarrow> E b c \<Longrightarrow> E a c"
  shows "resolve_pass keys subs c = (subs', c') \<Longrightarrow> bt_sorted subs \<Longrightarrow> \<forall>(k, v) \<in> set subs. E k v \<Longrightarrow>
    bt_sorted subs' \<and> (\<forall>(k, v) \<in> set subs'. E k v)"
proof (induction keys subs c rule: resolve_pass.induct)
  case (2 key keys subs c)
  show ?case
  proof (cases "\<exists>t n. bt_get subs key = Some t \<and> bt_get subs t = Some n \<and> t \<noteq> n")
    case True
    then obtain t n where t: "bt_get subs key = Some t" "bt_get subs t = Some n" "t \<noteq> n" by blast
    have "E key t" using "2.prems"(3) bt_get_entry[OF "2.prems"(2) t(1)] by blast
    moreover have "E t n" using "2.prems"(3) bt_get_entry[OF "2.prems"(2) t(2)] by blast
    ultimately have "E key n" by (rule assms)
    then have "\<forall>(k, v) \<in> set (bt_insert key n subs). E k v" using bt_update_entries[OF "2.prems"(2)] "2.prems"(3) by blast
    with "2.IH"(3)[OF t] "2.prems"(1) t bt_insert_sorted[OF "2.prems"(2)] show ?thesis by simp
  next
    case False
    show ?thesis
    proof (cases "bt_get subs key")
      case None
      with "2.prems"(1) have "resolve_pass keys subs c = (subs', c')" by simp
      with "2.IH"(1)[OF None] "2.prems" show ?thesis by blast
    next
      case t: (Some t)
      show ?thesis
      proof (cases "bt_get subs t")
        case None
        with "2.prems"(1) t have "resolve_pass keys subs c = (subs', c')" by simp
        with "2.IH"(2)[OF t None] "2.prems" show ?thesis by blast
      next
        case (Some n)
        with False t have tn: "\<not> t \<noteq> n" by blast
        with "2.prems"(1) t Some have "resolve_pass keys subs c = (subs', c')" by simp
        with "2.IH"(4)[OF t Some tn] "2.prems" show ?thesis by blast
      qed
    qed
  qed
qed auto

lemma resolve_transitive_total:
  assumes "descending subs" "transp E" "\<forall>(k, v) \<in> set subs. E k v"
  shows "\<exists>r. resolve_transitive_substitutions subs = Some r \<and> descending r \<and> map fst r = map fst subs \<and>
    (\<forall>k. resolved r k) \<and> (\<forall>(k, v) \<in> set r. E k v)"
  using assms(1,3)
proof (induction "total_rank subs" arbitrary: subs rule: less_induct)
  case less
  obtain subs' c where p: "resolve_pass (map fst subs) subs False = (subs', c)" by fastforce
  note prog = resolve_pass_progress[OF less.prems(1) p]
  have rel: "\<forall>(k, v) \<in> set subs'. E k v"
    using resolve_pass_relation[of E, OF transpD[OF assms(2)] p] less.prems by (auto simp: descending_def)
  show ?case
  proof (cases c)
    case True
    with prog have "total_rank subs' < total_rank subs" "descending subs'" "map fst subs' = map fst subs" by auto
    with less.hyps[of subs'] rel p True show ?thesis
      by (subst resolve_transitive_substitutions.simps) auto
  next
    case False
    with prog have r: "subs' = subs" "\<forall>k \<in> set (map fst subs). resolved subs k" by auto
    have "resolved subs k" for k
      using r(2) bt_get_entry[of subs k] less.prems(1) by (cases "bt_get subs k") (force simp: descending_def resolved_def)+
    with r(1) p False less.prems show ?thesis by (subst resolve_transitive_substitutions.simps) auto
  qed
qed

section \<open>Equal columns\<close>

definition ref_key :: "algebraic_reference \<Rightarrow> column_key" where
  "ref_key r = (ref_name r, ref_poly_id r)"

lemma equal_constrained_forms:
  assumes "equal_constrained names e = Some (Some (k, v))"
  shows "\<exists>l r. e = PE_Binary (PE_Reference l) Alg_Sub (PE_Reference r) \<and> is_witness l \<and> is_witness r \<and> ref_next r = ref_next l \<and>
    (k = ref_key l \<and> v = ref_key r \<and> ref_poly_id r < ref_poly_id l \<or> k = ref_key r \<and> v = ref_key l \<and> ref_poly_id l \<le> ref_poly_id r)"
proof -
  obtain l r where e: "e = PE_Binary (PE_Reference l) Alg_Sub (PE_Reference r)"
    using assms by (cases "(names, e)" rule: equal_constrained.cases) auto
  have "is_witness l" using assms by (auto simp: e valid_left_def bind_eq_Some_conv split: if_splits)
  with assms show ?thesis by (auto simp: e ref_key_def bind_eq_Some_conv not_less split: if_splits)
qed

text \<open>References with one id have one name, and the columns of equalities are declared.\<close>

definition equalities_ok :: "pil_file \<Rightarrow> bool" where
  "equalities_ok pf \<longleftrightarrow> (\<forall>l r. PE_Binary (PE_Reference l) Alg_Sub (PE_Reference r) \<in> set (polynomial_expressions pf) \<longrightarrow>
     (ref_poly_id l = ref_poly_id r \<longrightarrow> ref_name l = ref_name r) \<and>
     (is_witness l \<longrightarrow> build_poly_id_to_definition_name_lookup pf (ref_poly_id l) \<noteq> None))"

lemma equal_constrained_total:
  assumes "equalities_ok pf" "e \<in> set (polynomial_expressions pf)"
  shows "\<exists>c. equal_constrained (build_poly_id_to_definition_name_lookup pf) e = Some c"
proof (cases "\<exists>l r. e = PE_Binary (PE_Reference l) Alg_Sub (PE_Reference r)")
  case True
  then obtain l r where e: "e = PE_Binary (PE_Reference l) Alg_Sub (PE_Reference r)" by blast
  have "\<exists>b. valid_left (build_poly_id_to_definition_name_lookup pf) l = Some b"
  proof (cases "is_witness l")
    case True
    then obtain name idx where "build_poly_id_to_definition_name_lookup pf (ref_poly_id l) = Some (name, idx)"
      using assms unfolding equalities_ok_def e by (metis not_None_eq surj_pair)
    with True show ?thesis by (simp add: valid_left_def)
  qed (auto simp: valid_left_def)
  then show ?thesis by (auto simp: e)
next
  case False
  then show ?thesis by (cases "(build_poly_id_to_definition_name_lookup pf, e)" rule: equal_constrained.cases) auto
qed

lemma fold_insert_entries:
  "bt_sorted m \<Longrightarrow> bt_sorted (fold (\<lambda>(k, v) m. bt_insert k v m) kvs m) \<and>
     set (fold (\<lambda>(k, v) m. bt_insert k v m) kvs m) \<subseteq> set kvs \<union> set m"
proof (induction kvs arbitrary: m)
  case (Cons kv kvs)
  obtain k v where kv: "kv = (k, v)" by (cases kv)
  have "set (bt_insert k v m) \<subseteq> insert (k, v) (set m)" using bt_update_entries[OF Cons.prems] by auto
  with Cons.IH[OF bt_insert_sorted[OF Cons.prems, of k v]] show ?case by (auto simp: kv)
qed simp

lemma equal_substitutions_total:
  assumes "equalities_ok pf" "transp E"
    "\<And>e l r. e = PE_Binary (PE_Reference l) Alg_Sub (PE_Reference r) \<Longrightarrow> e \<in> set (polynomial_expressions pf) \<Longrightarrow>
      is_witness l \<Longrightarrow> is_witness r \<Longrightarrow> ref_next r = ref_next l \<Longrightarrow> E (ref_key l) (ref_key r) \<and> E (ref_key r) (ref_key l)"
  shows "\<exists>subs. equal_substitutions pf = Some subs \<and> descending subs \<and> (\<forall>k. resolved subs k) \<and> (\<forall>(k, v) \<in> set subs. E k v)"
proof -
  let ?names = "build_poly_id_to_definition_name_lookup pf"
  obtain found where found: "visit_all (equal_constrained ?names) (polynomial_expressions pf) = Some found"
    using visit_all_total[of "polynomial_expressions pf" "equal_constrained ?names"] equal_constrained_total[OF assms(1)] by blast
  let ?kvs = "List.map_filter (\<lambda>c. c) found"
  let ?m = "fold (\<lambda>(k, v) m. bt_insert k v m) ?kvs []"
  have kv: "(v = k \<or> snd v < snd k) \<and> E k v" if "(k, v) \<in> set ?kvs" for k v
  proof -
    have "Some (k, v) \<in> set found" using that by (simp add: in_map_filter)
    then obtain e where e: "e \<in> set (polynomial_expressions pf)" "equal_constrained ?names e = Some (Some (k, v))"
      using found by (auto simp: visit_all_Some list_all2_conv_all_nth in_set_conv_nth) metis
    obtain l r where lr: "e = PE_Binary (PE_Reference l) Alg_Sub (PE_Reference r)" "is_witness l" "is_witness r" "ref_next r = ref_next l"
      "k = ref_key l \<and> v = ref_key r \<and> ref_poly_id r < ref_poly_id l \<or> k = ref_key r \<and> v = ref_key l \<and> ref_poly_id l \<le> ref_poly_id r"
      using equal_constrained_forms[OF e(2)] by blast
    have "ref_poly_id l = ref_poly_id r \<Longrightarrow> ref_key l = ref_key r"
      using assms(1) e(1) lr(1) by (auto simp: equalities_ok_def ref_key_def)
    then show ?thesis using lr(5) assms(3)[OF lr(1) e(1) lr(2-4)] by (auto simp: ref_key_def order_le_less)
  qed
  have m: "bt_sorted ?m" "set ?m \<subseteq> set ?kvs" using fold_insert_entries[of "[]" ?kvs] by (simp_all add: bt_sorted_def)
  then have "descending ?m" "\<forall>(k, v) \<in> set ?m. E k v" using kv unfolding descending_def by blast+
  from resolve_transitive_total[of ?m E, OF this(1) assms(2) this(2)] show ?thesis
    unfolding equal_substitutions_def found bind.bind_lunit by blast
qed

definition replacements_by_id :: "substitutions \<Rightarrow> poly_id \<Rightarrow> column_key option" where
  "replacements_by_id subs = hash_map_of (map (\<lambda>((name, i), v). (i, v)) subs)"

definition column_replacement :: "substitutions \<Rightarrow> assignment \<Rightarrow> poly_id \<Rightarrow> (nat \<Rightarrow> int) option" where
  "column_replacement subs A p = map_option (\<lambda>(name, q). col_value A q) (replacements_by_id subs p)"

lemma replacement_entry: "replacements_by_id subs p = Some v \<Longrightarrow> \<exists>name. ((name, p), v) \<in> set subs"
  unfolding replacements_by_id_def by (drule hash_map_of_entry) auto

lemma replace_reference_eval:
  "post_visit (\<lambda>e. Some (replace_reference (replacements_by_id subs) e)) e = Some e' \<Longrightarrow>
   eval_expr F N A e' row = eval_expr F N (replace_columns (column_replacement subs A) A) e row"
proof (induction e arbitrary: e')
  case (PE_Reference r)
  then show ?case by (auto simp: column_replacement_def split: option.splits)
next
  case (PE_Binary l op r)
  then show ?case by (auto simp: bind_eq_Some_conv)
next
  case (PE_Unary op e)
  then show ?case by (cases op) (auto simp: bind_eq_Some_conv)
qed auto

definition equal_on_rows :: "semantics \<Rightarrow> assignment \<Rightarrow> column_key \<Rightarrow> column_key \<Rightarrow> bool" where
  "equal_on_rows S A k v \<longleftrightarrow> (\<forall>i < sem_rows S. col_value A (snd k) i = col_value A (snd v) i)"

lemma equal_on_rows_trans: "transp (equal_on_rows S A)"
  by (rule transpI) (simp add: equal_on_rows_def)

lemma equality_on_rows:
  assumes "satisfies S A pf" "PE_Binary (PE_Reference l) Alg_Sub (PE_Reference r) \<in> set (polynomial_expressions pf)" "ref_next r = ref_next l"
  shows "equal_on_rows S A (ref_key l) (ref_key r)"
  unfolding equal_on_rows_def ref_key_def snd_conv
proof (intro allI impI)
  let ?N = "sem_rows S"
  have can: "canonical (sem_field S) (col_value A p i)" for p i using assms(1) by (simp add: satisfies_def assignment_ok_def)
  have "col_value A (ref_poly_id l) (if ref_next l then (row + 1) mod ?N else row) =
      col_value A (ref_poly_id r) (if ref_next l then (row + 1) mod ?N else row)" if "row < ?N" for row
    using polynomial_identity_zero[OF _ assms(2) that, of A] assms(1,3) fe_sub_zero[OF can can] by (simp add: satisfies_def)
  then show "col_value A (ref_poly_id l) i = col_value A (ref_poly_id r) i" if "i < ?N" for i
    using that by (rule every_row[of ?N "\<lambda>i. col_value A (ref_poly_id l) i = col_value A (ref_poly_id r) i"])
qed

text \<open>The substitutions are found without a panic and resolved; they hold in every satisfying assignment.\<close>

lemma equal_substitutions_hold:
  assumes "equalities_ok pf"
  shows "\<exists>subs. equal_substitutions pf = Some subs \<and> (\<forall>k. resolved subs k) \<and>
    (\<forall>(k, v) \<in> set subs. ptype (snd k) = Committed) \<and>
    (\<forall>S A. satisfies S A pf \<longrightarrow> (\<forall>(k, v) \<in> set subs. equal_on_rows S A k v))"
proof -
  let ?T = "\<lambda>k v. ptype (snd k) = Committed \<and> ptype (snd v) = Committed"
  obtain subs where subs: "equal_substitutions pf = Some subs" "\<forall>k. resolved subs k" "\<forall>(k, v) \<in> set subs. ?T k v"
    using equal_substitutions_total[OF assms, of ?T] by (auto simp: transp_def is_witness_def ref_key_def)
  have "\<forall>(k, v) \<in> set subs. equal_on_rows S A k v" if A: "satisfies S A pf" for S A
  proof -
    have "equal_on_rows S A (ref_key l) (ref_key r) \<and> equal_on_rows S A (ref_key r) (ref_key l)"
      if "e = PE_Binary (PE_Reference l) Alg_Sub (PE_Reference r)" "e \<in> set (polynomial_expressions pf)" "ref_next r = ref_next l" for e l r
      using equality_on_rows[OF A] that by (auto simp: equal_on_rows_def)
    then show ?thesis using equal_substitutions_total[OF assms equal_on_rows_trans, of S A] subs(1) by force
  qed
  with subs show ?thesis by (auto simp: case_prod_beta)
qed

text \<open>C35: resolution of substitution chains. When every substitution leads to a smaller polynomial id or
  to itself, as those of the optimizer do, the loop that resolves chains ends; it keeps the substituted
  columns and no result of a substitution is itself substituted by another column.\<close>

theorem resolve_transitive_terminates:
  assumes "bt_sorted subs" "\<forall>(k, v) \<in> set subs. v = k \<or> snd v < snd k"
  shows "\<exists>r. resolve_transitive_substitutions subs = Some r \<and> map fst r = map fst subs \<and>
    (\<forall>k t. bt_get r k = Some t \<longrightarrow> bt_get r t = None \<or> bt_get r t = Some t)"
  using resolve_transitive_total[of subs "\<lambda>_ _. True"] assms by (auto simp: descending_def resolved_def transp_def)

theorem resolve_transitive_terminates_witness:
  "\<exists>r. resolve_transitive_substitutions [((''b'', PolyID 1 Committed), (''a'', PolyID 0 Committed)),
      ((''c'', PolyID 2 Committed), (''b'', PolyID 1 Committed))] = Some r \<and>
    map fst r = [(''b'', PolyID 1 Committed), (''c'', PolyID 2 Committed)]"
proof -
  let ?s = "[((''b'', PolyID 1 Committed), (''a'', PolyID 0 Committed)), ((''c'', PolyID 2 Committed), (''b'', PolyID 1 Committed))]"
  have "bt_sorted ?s" by code_simp
  moreover have "\<forall>(k, v) \<in> set ?s. v = k \<or> snd v < snd k" by (simp add: less_poly_id_def)
  ultimately show ?thesis using resolve_transitive_terminates[of ?s] by auto
qed

text \<open>C36: removal of equal columns. The pass never panics on a well-formed file. Every assignment that
  satisfies the system satisfies the result, and when no public is a cell of a replaced column, every
  assignment that satisfies the result satisfies the original system once each replaced column is a
  copy of its replacement.\<close>

theorem equal_columns_removal:
  assumes "file_ok pf" "equalities_ok pf"
  shows "\<exists>subs pf'. equal_substitutions pf = Some subs \<and> remove_equal_constrained_witness_columns pf = Some pf' \<and>
    (\<forall>S A. satisfies S A pf \<longrightarrow> satisfies S A pf') \<and>
    ((\<forall>(name, pd) \<in> set (public_declarations pf). \<forall>p. public_poly_id pf pd = Some p \<longrightarrow> replacements_by_id subs p = None) \<longrightarrow>
     (\<forall>S A. satisfies S A pf' \<longrightarrow> satisfies S (replace_columns (column_replacement subs A) A) pf))"
proof -
  obtain subs where subs: "equal_substitutions pf = Some subs" "\<forall>(k, v) \<in> set subs. ptype (snd k) = Committed"
    "\<And>S A. satisfies S A pf \<Longrightarrow> \<forall>(k, v) \<in> set subs. equal_on_rows S A k v"
    using equal_substitutions_hold[OF assms(2)] by blast
  let ?f = "\<lambda>e. Some (replace_reference (replacements_by_id subs) e)"
  let ?h = "replace_name (hash_map_of (map (\<lambda>((name, i), v). (name, v)) subs))"
  obtain pf1 where pf1: "post_visit_expressions_in_identities ?f pf = Some pf1" using visit_file_total[of ?f pf] by auto
  let ?pf' = "post_visit_expressions ?h pf1"
  have same: "identities ?pf' = identities pf1" "intermediate_columns ?pf' = intermediate_columns pf1"
    by (simp_all add: post_visit_expressions_def)
  have g: "ptype p = Committed" if "column_replacement subs A p \<noteq> None" for p A
    using that replacement_entry[of subs p] subs(2) by (fastforce simp: column_replacement_def)
  have pub: "publics_hold ?pf' A = publics_hold pf A" for A
    using publics_hold_cong[OF visit_file_fields(3,4)[OF pf1], of A] by (simp add: publics_hold_visit)
  have tr: "identities_hold S A (identities ?pf') = identities_hold S (replace_columns (column_replacement subs A) A) (identities pf)"
    "intermediates_hold S A (intermediate_columns ?pf') = intermediates_hold S (replace_columns (column_replacement subs A) A) (intermediate_columns pf)" for S A
    unfolding same by (rule substitution_transfer[OF pf1 assms(1) replace_reference_eval g]; assumption)+
  have "satisfies S A ?pf'" if A: "satisfies S A pf" for S A
  proof (rule replaced_forward[OF A tr pub])
    fix p c i assume c: "column_replacement subs A p = Some c" "i < sem_rows S"
    then obtain name q n where "((n, p), (name, q)) \<in> set subs" "c = col_value A q"
      using replacement_entry[of subs p] by (auto simp: column_replacement_def)
    with subs(3)[OF A] c(2) show "c i = col_value A p i" by (fastforce simp: equal_on_rows_def)
  qed
  moreover have "satisfies S (replace_columns (column_replacement subs A) A) pf"
    if pubs: "\<forall>(name, pd) \<in> set (public_declarations pf). \<forall>p. public_poly_id pf pd = Some p \<longrightarrow> replacements_by_id subs p = None"
      and A: "satisfies S A ?pf'" for S A
  proof (rule replaced_backward[OF A tr pub])
    show "canonical (sem_field S) (c i)" if "column_replacement subs A p = Some c" for p c i
      using that A by (auto simp: column_replacement_def satisfies_def assignment_ok_def)
    show "column_replacement subs A p = None" if "(name, pd) \<in> set (public_declarations pf)" "public_poly_id pf pd = Some p" for name pd p
      using pubs that by (auto simp: column_replacement_def)
  qed
  moreover have "remove_equal_constrained_witness_columns pf = Some ?pf'"
    using pf1 by (simp add: remove_equal_constrained_witness_columns_def subs(1) replacements_by_id_def)
  ultimately show ?thesis using subs(1) by blast
qed

definition equal_xy :: "pil_expr pil_identity" where
  "equal_xy = Id_Polynomial 0 (PE_Binary (column_ref ''x'' 0) Alg_Sub (column_ref ''y'' 1))"

lemmas example_defs = satisfies_def assignment_ok_def canonical_def two_values_def one_row_def identities_hold_def two_columns_def
  column_ref_def eval_column_def fe_sub_def fe_from_def intermediates_hold_def publics_hold_def column_public_def public_poly_id_def
  column_symbol_def symbol_elements_def

lemma equal_xy_ok: "file_ok (two_columns pubs [equal_xy])" "equalities_ok (two_columns pubs [equal_xy])"
proof -
  show "file_ok (two_columns pubs [equal_xy])" by (rule two_columns_ok) (simp add: equal_xy_def)
  have "build_poly_id_to_definition_name_lookup (two_columns pubs [equal_xy]) (PolyID 0 Committed) = Some (''x'', None)"
    by (simp add: build_poly_id_to_definition_name_lookup_def hash_map_of_def two_columns_def definition_entries_def column_symbol_def
      symbol_elements_def is_array_def)
  then show "equalities_ok (two_columns pubs [equal_xy])"
    by (auto simp: equalities_ok_def polynomial_expressions_def map_filter_def two_columns_def equal_xy_def column_ref_def)
qed

theorem equal_columns_removal_witness:
  "\<exists>subs pf'. equal_substitutions (two_columns [column_public ''inp'' ''x''] [equal_xy]) = Some subs \<and>
    remove_equal_constrained_witness_columns (two_columns [column_public ''inp'' ''x''] [equal_xy]) = Some pf' \<and>
    satisfies one_row (two_values 3 3) pf'"
proof -
  have "satisfies one_row (two_values 3 3) (two_columns [column_public ''inp'' ''x''] [equal_xy])"
    by (simp add: example_defs equal_xy_def)
  then show ?thesis using equal_columns_removal[OF equal_xy_ok, of "[column_public ''inp'' ''x'']"] by auto
qed

text \<open>C37: publics of replaced columns. With the constraint \<open>x = y\<close>, a public cell of \<open>x\<close> and one of \<open>y\<close>
  are equal in every satisfying assignment. The removal of equal columns, followed by the removal of
  trivial identities, deletes the constraint although the columns are public: the remaining system has
  no identity, and an assignment with different publics satisfies it.\<close>

theorem equal_columns_lose_publics:
  "\<not> (\<exists>S A. 0 < sem_rows S \<and> satisfies S A (two_columns [column_public ''inp'' ''x'', column_public ''out'' ''y''] [equal_xy]) \<and>
       public_value A ''inp'' \<noteq> public_value A ''out'') \<and>
   (\<exists>pf' pf''. remove_equal_constrained_witness_columns (two_columns [column_public ''inp'' ''x'', column_public ''out'' ''y''] [equal_xy]) = Some pf' \<and>
     remove_trivial_identities pf' = Some pf'' \<and> identities pf'' = [] \<and>
     satisfies one_row (two_values 3 7) pf'' \<and> public_value (two_values 3 7) ''inp'' \<noteq> public_value (two_values 3 7) ''out'')"
proof -
  let ?pubs = "[column_public ''inp'' ''x'', column_public ''out'' ''y'']"
  have "public_value A ''inp'' = public_value A ''out''" if S: "0 < sem_rows S" and A: "satisfies S A (two_columns ?pubs [equal_xy])" for S A
  proof -
    have "col_value A (PolyID 0 Committed) 0 = col_value A (PolyID 1 Committed) 0"
      using equality_on_rows[OF A, of "\<lparr>ref_name = ''x'', ref_poly_id = PolyID 0 Committed, ref_next = False\<rparr>"
        "\<lparr>ref_name = ''y'', ref_poly_id = PolyID 1 Committed, ref_next = False\<rparr>"] S
      by (simp add: polynomial_expressions_def map_filter_def two_columns_def equal_xy_def column_ref_def equal_on_rows_def ref_key_def)
    moreover have "publics_hold (two_columns ?pubs [equal_xy]) A" using A by (simp add: satisfies_def)
    ultimately show ?thesis
      by (simp add: publics_hold_def two_columns_def column_public_def public_poly_id_def column_symbol_def symbol_elements_def)
  qed
  moreover have "(remove_equal_constrained_witness_columns (two_columns ?pubs [equal_xy]) \<bind> remove_trivial_identities) = Some (two_columns ?pubs [])"
    by code_simp
  moreover have "satisfies one_row (two_values 3 7) (two_columns ?pubs [])" by (simp add: example_defs)
  moreover have "identities (two_columns ?pubs []) = []" by (simp add: two_columns_def)
  moreover have "public_value (two_values 3 7) ''inp'' \<noteq> public_value (two_values 3 7) ''out''" by (simp add: two_values_def)
  ultimately show ?thesis unfolding bind_eq_Some_conv by blast
qed

end
