(* ===== verification/Pilopt_Lookups.thy ===== *)
theory Pilopt_Lookups
  imports Pilopt_Equal
begin

text \<open>
  Lookups of constants, intermediate columns that are constants, and the removal of trivial and
  duplicate identities. The extraction of constants from a lookup keeps every violation but loses
  satisfying assignments when the lookup is not selected in every row.
\<close>

section \<open>Columns of lookups\<close>

fun lookup_sides :: "'e pil_identity \<Rightarrow> ('e selected_columns \<times> 'e selected_columns) option" where
  "lookup_sides (Id_Lookup i l r) = Some (l, r)"
| "lookup_sides (Id_PhantomLookup i l r m) = Some (l, r)"
| "lookup_sides _ = None"

definition same_width :: "'e selected_columns \<Rightarrow> 'e selected_columns \<Rightarrow> bool" where
  "same_width l r \<longleftrightarrow> length (sel_expressions l) = length (sel_expressions r)"

lemma nths_eq_iff:
  "length xs = length ys \<Longrightarrow> nths xs I = nths ys I \<longleftrightarrow> (\<forall>k < length xs. k \<in> I \<longrightarrow> xs ! k = ys ! k)"
proof (induction xs ys arbitrary: I rule: list_induct2)
  case (Cons x xs y ys)
  show ?case unfolding length_Cons All_less_Suc2 by (simp add: nths_Cons Cons)
qed simp

lemma nths_map: "nths (map f xs) I = map f (nths xs I)"
  by (simp add: nths_def zip_map1 filter_map comp_def case_prod_beta)

lemma selected_tuples_mem:
  "t \<in> set (selected_tuples N (map_selected_columns (eval_column F N A) s)) \<longleftrightarrow>
     (\<exists>i < N. eval_expr F N A (sel_selector s) i = 1 \<and> t = map (\<lambda>e. eval_expr F N A e i) (sel_expressions s))"
  by (auto simp: selected_tuples_def selected_columns.map_sel eval_column_def comp_def)

lemma constant_columns_mem:
  "(k, l, n) \<in> set (constant_columns left right) \<longleftrightarrow> k < length (sel_expressions left) \<and> k < length (sel_expressions right) \<and>
     sel_expressions left ! k = l \<and> sel_expressions right ! k = PE_Number n"
proof -
  have "(k, l, n) \<in> set (constant_columns left right) \<longleftrightarrow>
      (\<exists>x \<in> set (enumerate 0 (zip (sel_expressions left) (sel_expressions right))). x = (k, l, PE_Number n))"
    unfolding constant_columns_def in_map_filter by (rule bex_cong) (auto split: pil_expr.splits)
  then show ?thesis by (auto simp: in_set_enumerate_eq)
qed

text \<open>The two lookups compared row by row: at a selected row of the left-hand side, the full tuples match
  when the retained ones do and the extracted columns hold their constants.\<close>

lemma extract_constants_forms:
  assumes "extract_constants F l r = Some (l', r', new)"
  shows "sel_selector l' = sel_selector l" "sel_selector r' = sel_selector r"
    "sel_selector r \<noteq> PE_Number 1 \<Longrightarrow> l' = l \<and> r' = r \<and> new = []"
    "sel_selector r = PE_Number 1 \<Longrightarrow> sel_expressions l' = nths (sel_expressions l) (- fst ` set (constant_columns l r)) \<and>
      sel_expressions r' = nths (sel_expressions r) (- fst ` set (constant_columns l r)) \<and>
      list_all2 (\<lambda>x e'. simplify_expression F (PE_Binary (PE_Binary (sel_selector l) Alg_Mul (fst (snd x))) Alg_Sub (PE_Number (snd (snd x)))) = Some e')
        (constant_columns l r) new"
  using assms
  by (auto simp: extract_constants_def retain_columns_def bind_eq_Some_conv visit_all_Some retain_unremoved_nths Let_def
      case_prod_beta split: if_splits)

lemma extract_constants_total: "\<exists>l' r' new. extract_constants F l r = Some (l', r', new)"
proof (cases "sel_selector r = PE_Number 1")
  case True
  obtain new where "visit_all (\<lambda>(i, e, n). simplify_expression F (PE_Binary (PE_Binary (sel_selector l) Alg_Mul e) Alg_Sub (PE_Number n)))
      (constant_columns l r) = Some new"
    using visit_all_total[of "constant_columns l r"] simplify_expression_total by (metis (no_types, lifting) case_prod_beta)
  then show ?thesis by (simp add: extract_constants_def True Let_def)
qed (simp add: extract_constants_def)

lemma extracted_zero:
  assumes "field_element F" "assignment_ok F A" "extract_constants F l r = Some (l', r', new)" "sel_selector r = PE_Number 1"
  shows "(\<forall>e \<in> set new. \<forall>row < N. eval_expr F N A e row = 0) \<longleftrightarrow>
    (\<forall>(k, e, n) \<in> set (constant_columns l r). \<forall>row < N.
       fe_mul F (eval_expr F N A (sel_selector l) row) (eval_expr F N A e row) = fe_from F n)"
proof -
  have all2: "list_all2 (\<lambda>x e'. simplify_expression F (PE_Binary (PE_Binary (sel_selector l) Alg_Mul (fst (snd x))) Alg_Sub (PE_Number (snd (snd x)))) = Some e')
      (constant_columns l r) new" using extract_constants_forms(4)[OF assms(3,4)] by blast
  have "eval_expr F N A e' row = 0 \<longleftrightarrow> fe_mul F (eval_expr F N A (sel_selector l) row) (eval_expr F N A e row) = fe_from F n"
    if "simplify_expression F (PE_Binary (PE_Binary (sel_selector l) Alg_Mul e) Alg_Sub (PE_Number n)) = Some e'" for e n e' row
    using simplify_expression_eval[OF assms(1,2) that] fe_sub_zero field_element.ops_canonical[OF assms(1)] by simp
  with all2 show ?thesis
    by (induction rule: list_all2_induct) (auto simp: case_prod_beta)
qed

text \<open>The tuples of the two sides.\<close>

abbreviation tuples_of :: "field_desc \<Rightarrow> nat \<Rightarrow> assignment \<Rightarrow> pil_expr selected_columns \<Rightarrow> int list set" where
  "tuples_of F N A s \<equiv> set (selected_tuples N (map_selected_columns (eval_column F N A) s))"

lemma tuples_match:
  assumes "same_width l r"
  shows "map (\<lambda>e. eval_expr F N A e i) (sel_expressions l) = map (\<lambda>e. eval_expr F N A e j) (sel_expressions r) \<longleftrightarrow>
    map (\<lambda>e. eval_expr F N A e i) (nths (sel_expressions l) (- K)) = map (\<lambda>e. eval_expr F N A e j) (nths (sel_expressions r) (- K)) \<and>
    (\<forall>k < length (sel_expressions l). k \<in> K \<longrightarrow> eval_expr F N A (sel_expressions l ! k) i = eval_expr F N A (sel_expressions r ! k) j)"
proof -
  let ?x = "map (\<lambda>e. eval_expr F N A e i) (sel_expressions l)" and ?y = "map (\<lambda>e. eval_expr F N A e j) (sel_expressions r)"
  have len: "length ?x = length ?y" using assms by (simp add: same_width_def)
  have "?x = ?y \<longleftrightarrow> (\<forall>k < length ?x. ?x ! k = ?y ! k)" using len by (metis nth_equalityI)
  also have "\<dots> \<longleftrightarrow> nths ?x (- K) = nths ?y (- K) \<and> (\<forall>k < length ?x. k \<in> K \<longrightarrow> ?x ! k = ?y ! k)"
    unfolding nths_eq_iff[OF len] by auto
  finally show ?thesis using len by (simp add: nths_map same_width_def)
qed

lemma constants_right:
  assumes "k < length (sel_expressions l)" "k \<in> fst ` set (constant_columns l r)"
  shows "\<exists>n. (k, sel_expressions l ! k, n) \<in> set (constant_columns l r) \<and> sel_expressions r ! k = PE_Number n"
  using assms(2) by (auto simp: constant_columns_mem image_iff)

lemma extraction_sound:
  assumes "field_element F" "assignment_ok F A" "extract_constants F l r = Some (l', r', new)" "same_width l r"
    "\<forall>e \<in> set new. \<forall>row < N. eval_expr F N A e row = 0" "tuples_of F N A l' \<subseteq> tuples_of F N A r'"
  shows "tuples_of F N A l \<subseteq> tuples_of F N A r"
proof (cases "sel_selector r = PE_Number 1")
  case False
  then show ?thesis using extract_constants_forms(3)[OF assms(3)] assms(6) by simp
next
  case True
  let ?K = "fst ` set (constant_columns l r)"
  note f = extract_constants_forms(1,2)[OF assms(3)] extract_constants_forms(4)[OF assms(3) True]
  note zero = iffD1[OF extracted_zero[OF assms(1-3) True] assms(5)]
  show ?thesis
  proof
    fix t assume "t \<in> tuples_of F N A l"
    then obtain i where i: "i < N" "eval_expr F N A (sel_selector l) i = 1" "t = map (\<lambda>e. eval_expr F N A e i) (sel_expressions l)"
      unfolding selected_tuples_mem by blast
    then have "map (\<lambda>e. eval_expr F N A e i) (sel_expressions l') \<in> tuples_of F N A l'" unfolding selected_tuples_mem f(1) by blast
    then have "map (\<lambda>e. eval_expr F N A e i) (sel_expressions l') \<in> tuples_of F N A r'" using assms(6) by blast
    then obtain j where j: "j < N" "eval_expr F N A (sel_selector r) j = 1"
      "map (\<lambda>e. eval_expr F N A e i) (sel_expressions l') = map (\<lambda>e. eval_expr F N A e j) (sel_expressions r')"
      unfolding selected_tuples_mem f(2) by blast
    have "eval_expr F N A (sel_expressions l ! k) i = eval_expr F N A (sel_expressions r ! k) j" if k: "k < length (sel_expressions l)" "k \<in> ?K" for k
    proof -
      obtain n where n: "(k, sel_expressions l ! k, n) \<in> set (constant_columns l r)" "sel_expressions r ! k = PE_Number n"
        using constants_right[OF k] by blast
      have "fe_mul F 1 (eval_expr F N A (sel_expressions l ! k) i) = fe_from F n" using bspec[OF zero n(1)] i(1,2) unfolding split_conv by metis
      then show ?thesis using fe_neutral(4)[OF eval_canonical[OF assms(1,2)]] by (simp add: n(2))
    qed
    then have "t = map (\<lambda>e. eval_expr F N A e j) (sel_expressions r)"
      unfolding i(3) tuples_match[OF assms(4), where K = ?K] using j(3) f(3) by simp
    with j(1,2) show "t \<in> tuples_of F N A r" unfolding selected_tuples_mem by blast
  qed
qed

lemma extraction_complete:
  assumes "field_element F" "assignment_ok F A" "extract_constants F l r = Some (l', r', new)" "same_width l r"
    "\<forall>row < N. eval_expr F N A (sel_selector l) row = 1" "tuples_of F N A l \<subseteq> tuples_of F N A r"
  shows "(\<forall>e \<in> set new. \<forall>row < N. eval_expr F N A e row = 0) \<and> tuples_of F N A l' \<subseteq> tuples_of F N A r'"
proof (cases "sel_selector r = PE_Number 1")
  case False
  then show ?thesis using extract_constants_forms(3)[OF assms(3)] assms(6) by simp
next
  case True
  let ?K = "fst ` set (constant_columns l r)"
  note f = extract_constants_forms(1,2)[OF assms(3)] extract_constants_forms(4)[OF assms(3) True]
  have row: "\<exists>j < N. eval_expr F N A (sel_selector r) j = 1 \<and>
      map (\<lambda>e. eval_expr F N A e i) (sel_expressions l') = map (\<lambda>e. eval_expr F N A e j) (sel_expressions r') \<and>
      (\<forall>(k, e, n) \<in> set (constant_columns l r). eval_expr F N A e i = fe_from F n)" if "i < N" for i
  proof -
    have "map (\<lambda>e. eval_expr F N A e i) (sel_expressions l) \<in> tuples_of F N A r"
      using assms(5,6) that selected_tuples_mem[of _ N F A l] by blast
    then obtain j where j: "j < N" "eval_expr F N A (sel_selector r) j = 1"
      "map (\<lambda>e. eval_expr F N A e i) (sel_expressions l) = map (\<lambda>e. eval_expr F N A e j) (sel_expressions r)"
      unfolding selected_tuples_mem by blast
    note m = j(3)[unfolded tuples_match[OF assms(4), where K = ?K]]
    have "eval_expr F N A e i = fe_from F n" if c: "(k, e, n) \<in> set (constant_columns l r)" for k e n
    proof -
      have "k < length (sel_expressions l)" "sel_expressions l ! k = e" "sel_expressions r ! k = PE_Number n"
        using c[unfolded constant_columns_mem] by blast+
      moreover have "k \<in> ?K" using c by (rule image_eqI[rotated]) simp
      ultimately show ?thesis using m by fastforce
    qed
    with j(1,2) m f(3) show ?thesis by auto
  qed
  have "fe_mul F (eval_expr F N A (sel_selector l) i) (eval_expr F N A e i) = fe_from F n"
    if "(k, e, n) \<in> set (constant_columns l r)" "i < N" for k e n i
    using row[OF that(2)] that assms(5) fe_neutral(4)[OF eval_canonical[OF assms(1,2)]] by fastforce
  then have "\<forall>e \<in> set new. \<forall>row < N. eval_expr F N A e row = 0" unfolding extracted_zero[OF assms(1-3) True] by blast
  moreover have "tuples_of F N A l' \<subseteq> tuples_of F N A r'"
  proof
    fix t assume "t \<in> tuples_of F N A l'"
    then obtain i where "i < N" "t = map (\<lambda>e. eval_expr F N A e i) (sel_expressions l')" unfolding selected_tuples_mem by blast
    with row[of i] show "t \<in> tuples_of F N A r'" unfolding selected_tuples_mem f(2) by metis
  qed
  ultimately show ?thesis by blast
qed

section \<open>Extraction of constants\<close>

definition lookups_ok :: "pil_file \<Rightarrow> bool" where
  "lookups_ok pf \<longleftrightarrow> (\<forall>x \<in> set (identities pf). \<forall>l r. lookup_sides x = Some (l, r) \<longrightarrow> same_width l r)"

lemma extract_from_identity_total: "\<exists>x' new. extract_from_identity F x = Some (x', new)"
proof (cases "lookup_sides x")
  case None
  then show ?thesis by (cases x) auto
next
  case (Some lr)
  obtain l' r' new where "extract_constants F (fst lr) (snd lr) = Some (l', r', new)" using extract_constants_total by blast
  with Some show ?thesis by (cases x) auto
qed

lemma extract_from_identity_cases:
  assumes "extract_from_identity F x = Some (x', new)"
  shows "is_bus x' = is_bus x" "is_bus x \<Longrightarrow> x' = x"
    "lookup_sides x = None \<Longrightarrow> x' = x \<and> new = []"
    "lookup_sides x = Some (l, r) \<Longrightarrow> \<exists>l' r'. extract_constants F l r = Some (l', r', new) \<and> lookup_sides x' = Some (l', r')"
  using assms by (cases x; auto simp: bind_eq_Some_conv)+

lemma lookup_holds:
  "lookup_sides x = Some (l, r) \<Longrightarrow> identity_holds N conn (map_pil_identity (eval_column F N A) x) \<longleftrightarrow> tuples_of F N A l \<subseteq> tuples_of F N A r"
  by (cases x) auto

text \<open>The effect on one identity, in both directions.\<close>

lemma extract_identity_sound:
  assumes "field_element F" "assignment_ok F A" "extract_from_identity F x = Some (x', new)"
    "\<And>l r. lookup_sides x = Some (l, r) \<Longrightarrow> same_width l r"
    "\<forall>e \<in> set new. \<forall>row < N. eval_expr F N A e row = 0" "identity_holds N conn (map_pil_identity (eval_column F N A) x')"
  shows "identity_holds N conn (map_pil_identity (eval_column F N A) x)"
proof (cases "lookup_sides x")
  case None
  then show ?thesis using extract_from_identity_cases(3)[OF assms(3)] assms(6) by simp
next
  case (Some lr)
  obtain l r where lr: "lr = (l, r)" by (cases lr)
  obtain l' r' where e: "extract_constants F l r = Some (l', r', new)" "lookup_sides x' = Some (l', r')"
    using extract_from_identity_cases(4)[OF assms(3)] Some lr by blast
  show ?thesis
    using extraction_sound[OF assms(1,2) e(1) assms(4) assms(5)] assms(6) Some lr by (simp add: lookup_holds[OF e(2)] lookup_holds[of x l r])
qed

lemma extract_identity_complete:
  assumes "field_element F" "assignment_ok F A" "extract_from_identity F x = Some (x', new)"
    "\<And>l r. lookup_sides x = Some (l, r) \<Longrightarrow> same_width l r \<and> (\<forall>row < N. eval_expr F N A (sel_selector l) row = 1)"
    "identity_holds N conn (map_pil_identity (eval_column F N A) x)"
  shows "(\<forall>e \<in> set new. \<forall>row < N. eval_expr F N A e row = 0) \<and> identity_holds N conn (map_pil_identity (eval_column F N A) x')"
proof (cases "lookup_sides x")
  case None
  then show ?thesis using extract_from_identity_cases(3)[OF assms(3)] assms(5) by simp
next
  case (Some lr)
  obtain l r where lr: "lr = (l, r)" by (cases lr)
  obtain l' r' where e: "extract_constants F l r = Some (l', r', new)" "lookup_sides x' = Some (l', r')"
    using extract_from_identity_cases(4)[OF assms(3)] Some lr by blast
  show ?thesis
    using extraction_complete[OF assms(1,2) e(1)] assms(4,5) Some lr by (simp add: lookup_holds[OF e(2)] lookup_holds[of x l r])
qed

lemma append_all:
  "\<exists>ids. identities (fold append_polynomial_identity es pf) = identities pf @ ids \<and> length ids = length es \<and>
     (\<forall>k < length es. \<exists>i. ids ! k = Id_Polynomial i (es ! k)) \<and>
     fold append_polynomial_identity es pf = pf\<lparr>identities := identities pf @ ids, source_order := source_order (fold append_polynomial_identity es pf)\<rparr>"
proof (induction es arbitrary: pf)
  case (Cons e es)
  obtain i where i: "identities (append_polynomial_identity e pf) = identities pf @ [Id_Polynomial i e]" by (simp add: append_identities)
  have upd: "append_polynomial_identity e pf = pf\<lparr>identities := identities pf @ [Id_Polynomial i e],
      source_order := source_order (append_polynomial_identity e pf)\<rparr>" using i by (simp add: append_polynomial_identity_def Let_def)
  obtain ids where ids: "identities (fold append_polynomial_identity es (append_polynomial_identity e pf)) = identities (append_polynomial_identity e pf) @ ids"
    "length ids = length es" "\<forall>k < length es. \<exists>i. ids ! k = Id_Polynomial i (es ! k)"
    "fold append_polynomial_identity es (append_polynomial_identity e pf) = append_polynomial_identity e pf
      \<lparr>identities := identities (append_polynomial_identity e pf) @ ids,
       source_order := source_order (fold append_polynomial_identity es (append_polynomial_identity e pf))\<rparr>"
    using Cons.IH[of "append_polynomial_identity e pf"] by blast
  have "\<forall>k < length (e # es). \<exists>j. (Id_Polynomial i e # ids) ! k = Id_Polynomial j ((e # es) ! k)"
    unfolding length_Cons All_less_Suc2 using ids(3) by simp
  moreover have "fold append_polynomial_identity (e # es) pf = pf\<lparr>identities := identities pf @ Id_Polynomial i e # ids,
      source_order := source_order (fold append_polynomial_identity (e # es) pf)\<rparr>"
    using ids(4) by (subst (asm) (2) upd) (simp add: i)
  ultimately show ?case using ids(1,2) i by (intro exI[of _ "Id_Polynomial i e # ids"]) simp
qed simp

lemma identities_hold_polynomials:
  assumes "list_all2 (\<lambda>x e. \<exists>i. x = Id_Polynomial i e) ps es"
  shows "identities_hold S A (ids @ ps) \<longleftrightarrow> identities_hold S A ids \<and>
    (\<forall>e \<in> set es. \<forall>row < sem_rows S. eval_expr (sem_field S) (sem_rows S) A e row = 0)"
proof -
  have "filter is_bus ps = []" using assms by (induction rule: list_all2_induct) auto
  moreover have "(\<forall>x \<in> set ps. identity_holds (sem_rows S) (sem_connect S) (map_pil_identity (sem_column S A) x)) \<longleftrightarrow>
      (\<forall>e \<in> set es. \<forall>row < sem_rows S. eval_expr (sem_field S) (sem_rows S) A e row = 0)"
    using assms by (induction rule: list_all2_induct) (auto simp: eval_column_def list_all_iff)
  ultimately show ?thesis by (auto simp: identities_hold_def)
qed

lemma extracted_bus:
  "list_all2 (\<lambda>x y. extract_from_identity F x = Some y) ids found \<Longrightarrow> filter is_bus (map fst found) = filter is_bus ids"
proof (induction rule: list_all2_induct)
  case (Cons x xs y ys)
  obtain x' new where "y = (x', new)" by (cases y)
  with Cons extract_from_identity_cases(1,2)[of F x x' new] show ?case by auto
qed simp

lemma list_all2_memL: "list_all2 R olds news \<Longrightarrow> old \<in> set olds \<Longrightarrow> \<exists>new \<in> set news. R old new"
  by (induction rule: list_all2_induct) auto

lemma list_all2_memR: "list_all2 R olds news \<Longrightarrow> new \<in> set news \<Longrightarrow> \<exists>old \<in> set olds. R old new"
  by (induction rule: list_all2_induct) auto

text \<open>C38: lookups of constants. The extraction never panics, and whatever satisfies the result satisfies the
  original system, so no violation is lost. In the other direction, an assignment that satisfies the
  system satisfies the result when the left-hand side of every lookup is selected in every row.\<close>

theorem constant_lookups_sound:
  assumes "field_element (sem_field S)" "lookups_ok pf"
  shows "\<exists>pf'. extract_constant_lookups (sem_field S) pf = Some pf' \<and> (\<forall>A. satisfies S A pf' \<longrightarrow> satisfies S A pf) \<and>
    (\<forall>A. satisfies S A pf \<and> (\<forall>x \<in> set (identities pf). \<forall>l r. lookup_sides x = Some (l, r) \<longrightarrow>
        (\<forall>row < sem_rows S. eval_expr (sem_field S) (sem_rows S) A (sel_selector l) row = 1)) \<longrightarrow> satisfies S A pf')"
proof -
  let ?F = "sem_field S"
  obtain found where "visit_all (extract_from_identity ?F) (identities pf) = Some found"
    using visit_all_total[of "identities pf" "extract_from_identity ?F"] extract_from_identity_total by (metis surj_pair)
  then have found: "visit_all (extract_from_identity ?F) (identities pf) = Some found"
    "list_all2 (\<lambda>x y. extract_from_identity ?F x = Some y) (identities pf) found" by (simp_all add: visit_all_Some)
  let ?new = "concat (map snd found)" and ?pf1 = "pf\<lparr>identities := map fst found\<rparr>"
  obtain ps where ps: "identities (fold append_polynomial_identity ?new ?pf1) = map fst found @ ps"
    "list_all2 (\<lambda>x e. \<exists>i. x = Id_Polynomial i e) ps ?new"
    "fold append_polynomial_identity ?new ?pf1 = ?pf1\<lparr>identities := map fst found @ ps,
       source_order := source_order (fold append_polynomial_identity ?new ?pf1)\<rparr>"
    using append_all[of ?new ?pf1] by (auto simp: list_all2_conv_all_nth)
  let ?pf' = "fold append_polynomial_identity ?new ?pf1"
  have same: "intermediate_columns ?pf' = intermediate_columns pf" "definitions ?pf' = definitions pf" "public_declarations ?pf' = public_declarations pf"
    by (subst ps(3), simp)+
  have width: "same_width l r" if "x \<in> set (identities pf)" "lookup_sides x = Some (l, r)" for x l r
    using assms(2) that by (auto simp: lookups_ok_def)
  have sat: "satisfies S A ?pf' \<longleftrightarrow> assignment_ok ?F A \<and> identities_hold S A (map fst found) \<and>
      (\<forall>e \<in> set ?new. \<forall>row < sem_rows S. eval_expr ?F (sem_rows S) A e row = 0) \<and>
      intermediates_hold S A (intermediate_columns pf) \<and> publics_hold pf A" for A
    using publics_hold_cong[OF same(2,3), of A]
    by (auto simp: satisfies_def same(1) ps(1) identities_hold_polynomials[OF ps(2)])
  have "satisfies S A pf" if A: "satisfies S A ?pf'" for A
  proof -
    have "identity_holds (sem_rows S) (sem_connect S) (map_pil_identity (sem_column S A) x)" if x: "x \<in> set (identities pf)" for x
    proof -
      obtain x' new where y: "(x', new) \<in> set found" "extract_from_identity ?F x = Some (x', new)"
        using list_all2_memL[OF found(2) x] by auto
      show ?thesis
        by (rule extract_identity_sound[OF assms(1) _ y(2) width[OF x]]) (use A y(1) in \<open>force simp: sat identities_hold_def\<close>)+
    qed
    with A[unfolded sat] show ?thesis by (simp add: satisfies_def identities_hold_def extracted_bus[OF found(2)])
  qed
  moreover have "satisfies S A ?pf'" if A: "satisfies S A pf" and sel: "\<forall>x \<in> set (identities pf). \<forall>l r. lookup_sides x = Some (l, r) \<longrightarrow>
        (\<forall>row < sem_rows S. eval_expr ?F (sem_rows S) A (sel_selector l) row = 1)" for A
  proof -
    have "(\<forall>e \<in> set (snd y). \<forall>row < sem_rows S. eval_expr ?F (sem_rows S) A e row = 0) \<and>
        identity_holds (sem_rows S) (sem_connect S) (map_pil_identity (sem_column S A) (fst y))" if y: "y \<in> set found" for y
    proof -
      obtain x where x: "x \<in> set (identities pf)" "extract_from_identity ?F x = Some (fst y, snd y)"
        using list_all2_memR[OF found(2) y] by auto
      show ?thesis
        by (rule extract_identity_complete[OF assms(1) _ x(2)])
          (use A sel width[OF x(1)] x(1) in \<open>auto simp: satisfies_def identities_hold_def\<close>)
    qed
    with A[unfolded satisfies_def] show ?thesis unfolding sat by (auto simp: identities_hold_def extracted_bus[OF found(2)])
  qed
  moreover have "extract_constant_lookups ?F pf = Some ?pf'" by (simp add: extract_constant_lookups_def found(1) Let_def)
  ultimately show ?thesis by blast
qed

text \<open>The lookup \<open>x $ [y] in [5]\<close>: in rows where \<open>x\<close> is one, \<open>y\<close> is five.\<close>

definition selected_lookup :: "pil_expr pil_identity" where
  "selected_lookup = Id_Lookup 0 (Selected (column_ref ''x'' 0) [column_ref ''y'' 1]) (Selected (PE_Number 1) [PE_Number 5])"

theorem constant_lookups_sound_witness:
  "\<exists>pf'. extract_constant_lookups goldilocks_field (two_columns [] [selected_lookup]) = Some pf' \<and> satisfies one_row (two_values 1 5) pf'"
proof -
  have f: "field_element (sem_field one_row)" "sem_field one_row = goldilocks_field" by (simp_all add: one_row_def goldilocks_field_element)
  have "lookups_ok (two_columns [] [selected_lookup])" by (simp add: lookups_ok_def two_columns_def selected_lookup_def same_width_def)
  moreover have "satisfies one_row (two_values 1 5) (two_columns [] [selected_lookup])"
    by (simp add: example_defs selected_lookup_def selected_tuples_def)
  moreover have "\<forall>x \<in> set (identities (two_columns [] [selected_lookup])). \<forall>l r. lookup_sides x = Some (l, r) \<longrightarrow>
      (\<forall>row < sem_rows one_row. eval_expr (sem_field one_row) (sem_rows one_row) (two_values 1 5) (sel_selector l) row = 1)"
    by (simp add: two_columns_def selected_lookup_def column_ref_def two_values_def)
  ultimately show ?thesis using constant_lookups_sound[OF f(1), of "two_columns [] [selected_lookup]"] f(2) by auto
qed

text \<open>C39: lookups of constants that are not selected. With \<open>x = 0\<close> the lookup \<open>x $ [y] in [5]\<close> demands nothing and is
  satisfied. The extraction replaces it by \<open>x * y - 5\<close>, which no assignment with \<open>x = 0\<close> satisfies: the
  difference is not multiplied by the selector.\<close>

theorem lookup_extraction_loses_assignments:
  "satisfies one_row (two_values 0 0) (two_columns [] [selected_lookup]) \<and>
   (\<exists>pf'. extract_constant_lookups goldilocks_field (two_columns [] [selected_lookup]) = Some pf' \<and>
      \<not> (\<exists>A. col_value A (PolyID 0 Committed) 0 = 0 \<and> satisfies one_row A pf'))"
proof -
  let ?e = "PE_Binary (PE_Binary (column_ref ''x'' 0) Alg_Mul (column_ref ''y'' 1)) Alg_Sub (PE_Number 5)"
  let ?ids = "[Id_Lookup 0 (Selected (column_ref ''x'' 0) []) (Selected (PE_Number 1) []), Id_Polynomial 1 ?e]"
  have "extract_constant_lookups goldilocks_field (two_columns [] [selected_lookup]) = Some (two_columns [] ?ids)"
    by (simp add: extract_constant_lookups_def two_columns_def selected_lookup_def extract_constants_def constant_columns_def map_filter_def
      enumerate_eq_zip simplify_expression_def simplify_expression_single_def column_ref_def retain_columns_def retain_unremoved_def
      append_polynomial_identity_def)
  moreover have "\<not> (\<exists>A. col_value A (PolyID 0 Committed) 0 = 0 \<and> satisfies one_row A (two_columns [] ?ids))"
    by (auto simp: example_defs fe_mul_def)
  moreover have "satisfies one_row (two_values 0 0) (two_columns [] [selected_lookup])"
    by (simp add: example_defs selected_lookup_def selected_tuples_def)
  ultimately show ?thesis by blast
qed

end
