(* ===== verification/Pilopt_Passes.thy ===== *)
theory Pilopt_Passes
  imports Pilopt_Lookups
begin

text \<open>
  The remaining passes of the optimizer: trivial and duplicate identities and intermediate columns that
  are constants, and the order of the statements, which every pass keeps consistent with the list of
  identities.
\<close>

section \<open>Removal of identities\<close>

lemma filter_nths: "(\<And>i. i < length xs \<Longrightarrow> P (xs ! i) \<Longrightarrow> i \<in> I) \<Longrightarrow> filter P (nths xs I) = filter P xs"
proof (induction xs arbitrary: I)
  case (Cons x xs)
  have "filter P (nths xs {j. Suc j \<in> I}) = filter P xs" by (rule Cons.IH) (use Cons.prems[of "Suc _"] in auto)
  moreover have "P x \<Longrightarrow> 0 \<in> I" using Cons.prems[of 0] by simp
  ultimately show ?case by (simp add: nths_Cons)
qed simp

text \<open>Identities may be removed when the remaining ones imply them and they take no part in a bus.\<close>

lemma nths_identities_hold:
  assumes "\<And>i. i < length ids \<Longrightarrow> i \<notin> I \<Longrightarrow> \<not> is_bus (ids ! i)"
    "\<And>i. i < length ids \<Longrightarrow> i \<notin> I \<Longrightarrow> identities_hold S A (nths ids I) \<Longrightarrow>
      identity_holds (sem_rows S) (sem_connect S) (map_pil_identity (sem_column S A) (ids ! i))"
  shows "identities_hold S A (nths ids I) \<longleftrightarrow> identities_hold S A ids"
proof -
  have bus: "filter is_bus (nths ids I) = filter is_bus ids" by (rule filter_nths) (use assms(1) in blast)
  show ?thesis
  proof
    assume h: "identities_hold S A (nths ids I)"
    have "identity_holds (sem_rows S) (sem_connect S) (map_pil_identity (sem_column S A) (ids ! i))" if "i < length ids" for i
      using assms(2)[OF that _ h] h that by (cases "i \<in> I") (auto simp: identities_hold_def set_nths)
    with h bus show "identities_hold S A ids" by (auto simp: identities_hold_def in_set_conv_nth)
  next
    assume "identities_hold S A ids"
    with bus show "identities_hold S A (nths ids I)" by (auto simp: identities_hold_def set_nths)
  qed
qed

lemma removed_satisfies:
  assumes "source_order_ok pf" "remove_identities R pf = Some pf'"
    "identities_hold S A (nths (identities pf) (- R)) \<longleftrightarrow> identities_hold S A (identities pf)"
  shows "satisfies S A pf' \<longleftrightarrow> satisfies S A pf"
proof -
  have pf': "identities pf' = nths (identities pf) (- R)" "pf' = pf\<lparr>source_order := source_order pf', identities := identities pf'\<rparr>"
    using remove_identities_order[OF assms(1), of R] assms(2) by auto
  have same: "intermediate_columns pf' = intermediate_columns pf" "definitions pf' = definitions pf" "public_declarations pf' = public_declarations pf"
    by (subst pf'(2), simp)+
  show ?thesis using assms(3) publics_hold_cong[OF same(2,3)] by (simp add: satisfies_def pf'(1) same(1))
qed

section \<open>Trivial identities\<close>

fun permutation_sides :: "'e pil_identity \<Rightarrow> ('e selected_columns \<times> 'e selected_columns) option" where
  "permutation_sides (Id_Permutation i l r) = Some (l, r)"
| "permutation_sides (Id_PhantomPermutation i l r) = Some (l, r)"
| "permutation_sides _ = None"

text \<open>Both sides have as many columns, a lookup without columns has an unconditional right-hand side, as
  the extraction of constants leaves it, and no permutation is without columns.\<close>

definition empties_ok :: "pil_file \<Rightarrow> bool" where
  "empties_ok pf \<longleftrightarrow> (\<forall>x \<in> set (identities pf).
     (\<forall>l r. lookup_sides x = Some (l, r) \<longrightarrow> same_width l r \<and> (sel_expressions l = [] \<longrightarrow> sel_selector r = PE_Number 1)) \<and>
     (\<forall>l r. permutation_sides x = Some (l, r) \<longrightarrow> same_width l r \<and> sel_expressions l \<noteq> []))"

lemma trivial_polynomial_zero: "trivial_polynomial e \<Longrightarrow> eval_expr F N A e row = 0"
  by (cases e rule: trivial_polynomial.cases) (auto simp: fe_from_def fe_sub_def same_reference_def)

lemma trivial_identity_holds:
  assumes "field_element F" "trivial_identity x = Some True"
    "\<And>l r. lookup_sides x = Some (l, r) \<Longrightarrow> same_width l r \<and> (sel_expressions l = [] \<longrightarrow> sel_selector r = PE_Number 1)"
    "\<And>l r. permutation_sides x = Some (l, r) \<Longrightarrow> sel_expressions l \<noteq> []"
  shows "identity_holds N conn (map_pil_identity (eval_column F N A) x)"
proof (cases "lookup_sides x")
  case None
  with assms(2,4) show ?thesis
    by (cases x) (auto simp: trivial_selected_def list_all_iff eval_column_def trivial_polynomial_zero)
next
  case (Some lr)
  obtain l r where lr: "lr = (l, r)" by (cases lr)
  have "sel_expressions l = []" using assms(2) Some lr by (cases x) (auto simp: trivial_selected_def)
  moreover from this assms(3) Some lr have "sel_expressions r = []" "sel_selector r = PE_Number 1" by (auto simp: same_width_def)
  ultimately have "tuples_of F N A l \<subseteq> tuples_of F N A r"
    unfolding subset_iff selected_tuples_mem using fe_from_zero_one(2)[OF assms(1)] by auto
  then show ?thesis using lookup_holds[of x l r] Some lr by simp
qed

lemma trivial_identity_total:
  assumes "\<And>l r. lookup_sides x = Some (l, r) \<Longrightarrow> same_width l r" "\<And>l r. permutation_sides x = Some (l, r) \<Longrightarrow> same_width l r"
  shows "\<exists>b. trivial_identity x = Some b"
  using assms by (cases x) (auto simp: trivial_selected_def same_width_def)

text \<open>Trivial identities. The pass never panics; the identities it removes hold in every assignment, so
  that exactly the same assignments satisfy the system.\<close>

theorem trivial_removal_equivalent:
  assumes "field_element (sem_field S)" "source_order_ok pf" "empties_ok pf"
  shows "\<exists>pf'. remove_trivial_identities pf = Some pf' \<and> (\<forall>A. satisfies S A pf' \<longleftrightarrow> satisfies S A pf)"
proof -
  have sides: "lookup_sides x = Some (l, r) \<Longrightarrow> same_width l r \<and> (sel_expressions l = [] \<longrightarrow> sel_selector r = PE_Number 1)"
    "permutation_sides x = Some (l, r) \<Longrightarrow> same_width l r \<and> sel_expressions l \<noteq> []" if "x \<in> set (identities pf)" for x l r
    using assms(3) that by (auto simp: empties_ok_def)
  obtain trivial where t: "visit_all trivial_identity (identities pf) = Some trivial"
    using visit_all_total[of "identities pf" trivial_identity] trivial_identity_total sides by meson
  then have nth: "length trivial = length (identities pf)" "\<And>i. i < length trivial \<Longrightarrow> trivial_identity (identities pf ! i) = Some (trivial ! i)"
    by (auto simp: visit_all_Some list_all2_conv_all_nth)
  let ?R = "set (filter (\<lambda>i. trivial ! i) [0..<length trivial])"
  have removed: "trivial_identity (identities pf ! i) = Some True" if "i < length (identities pf)" "i \<notin> - ?R" for i
    using that nth by auto
  have "identities_hold S A (nths (identities pf) (- ?R)) \<longleftrightarrow> identities_hold S A (identities pf)" for A
  proof (rule nths_identities_hold)
    fix i assume i: "i < length (identities pf)" "i \<notin> - ?R"
    then have x: "identities pf ! i \<in> set (identities pf)" by simp
    show "\<not> is_bus (identities pf ! i)" using removed[OF i] by (cases "identities pf ! i") auto
    show "identity_holds (sem_rows S) (sem_connect S) (map_pil_identity (sem_column S A) (identities pf ! i))"
      by (rule trivial_identity_holds[OF assms(1) removed[OF i]]) (use sides[OF x] in blast)+
  qed
  moreover obtain pf' where "remove_identities ?R pf = Some pf'" using remove_identities_order[OF assms(2)] by blast
  ultimately show ?thesis using removed_satisfies[OF assms(2)] t by (auto simp: remove_trivial_identities_def)
qed

section \<open>Duplicate identities\<close>

fun kept_identities :: "pil_expr pil_identity list \<Rightarrow> pil_expr pil_identity list \<Rightarrow> pil_expr pil_identity list" where
  "kept_identities seen [] = []"
| "kept_identities seen (x # xs) =
     (if is_bus x then x # kept_identities seen xs
      else if canonical_identity x \<in> set seen then kept_identities seen xs
      else x # kept_identities (canonical_identity x # seen) xs)"

lemma duplicate_indices_lower: "i \<in> set (duplicate_indices seen k xs) \<Longrightarrow> k \<le> i"
  by (induction seen k xs rule: duplicate_indices.induct) (auto split: if_splits)

lemma kept_nths: "nths xs {i. k + i \<notin> set (duplicate_indices seen k xs)} = kept_identities seen xs"
proof (induction seen k xs rule: duplicate_indices.induct)
  case (2 seen k x xs)
  have "k \<notin> set (duplicate_indices seen' (k + 1) xs)" for seen' using duplicate_indices_lower by fastforce
  with 2 show ?case by (auto simp: nths_Cons)
qed simp

lemma eval_unnamed: "eval_column F N A (unnamed e) = eval_column F N A e"
proof -
  have "eval_expr F N A (unnamed e) row = eval_expr F N A e row" for row
    by (induction e) (auto split: algebraic_unary_operator.split)
  then show ?thesis by (simp add: eval_column_def)
qed

lemma canonical_identity_holds:
  "identity_holds N conn (map_pil_identity (eval_column F N A) (canonical_identity x)) =
   identity_holds N conn (map_pil_identity (eval_column F N A) x)"
  by (cases x) (simp_all add: selected_columns.map_comp comp_def eval_unnamed)

lemma kept_identities_hold:
  assumes "\<forall>x \<in> set (kept_identities seen xs). Q x" "\<forall>c \<in> set seen. Q c" "\<And>x. Q (canonical_identity x) = Q x"
  shows "\<forall>x \<in> set xs. Q x"
  using assms(1,2)
proof (induction seen xs rule: kept_identities.induct)
  case (2 seen x xs)
  then show ?case using assms(3) by (auto split: if_splits)
qed simp

lemma kept_identities_bus: "filter is_bus (kept_identities seen xs) = filter is_bus xs"
  by (induction seen xs rule: kept_identities.induct) auto

lemma kept_identities_subset: "set (kept_identities seen xs) \<subseteq> set xs"
  by (induction seen xs rule: kept_identities.induct) auto

text \<open>Duplicate identities. Of identities that agree up to the names of references and their ids one
  is kept, bus interactions all, and exactly the same assignments satisfy the system.\<close>

theorem duplicate_removal_equivalent:
  assumes "source_order_ok pf"
  shows "\<exists>pf'. remove_duplicate_identities pf = Some pf' \<and> (\<forall>S A. satisfies S A pf' \<longleftrightarrow> satisfies S A pf) \<and>
    filter is_bus (identities pf') = filter is_bus (identities pf)"
proof -
  let ?R = "set (duplicate_indices [] 0 (identities pf))"
  obtain pf' where pf': "remove_identities ?R pf = Some pf'" "identities pf' = nths (identities pf) (- ?R)"
    using remove_identities_order[OF assms] by blast
  have kept: "nths (identities pf) (- ?R) = kept_identities [] (identities pf)"
    using kept_nths[of "identities pf" 0 "[]"] by (simp add: Compl_eq)
  have "identities_hold S A (nths (identities pf) (- ?R)) \<longleftrightarrow> identities_hold S A (identities pf)" for S A
    using kept_identities_hold[of "[]" "identities pf" "\<lambda>x. identity_holds (sem_rows S) (sem_connect S) (map_pil_identity (sem_column S A) x)"]
      kept_identities_subset[of "[]" "identities pf"] canonical_identity_holds
    unfolding kept by (auto simp: identities_hold_def kept_identities_bus)
  then show ?thesis using pf' removed_satisfies[OF assms pf'(1)] kept
    by (auto simp: remove_duplicate_identities_def kept_identities_bus)
qed

section \<open>Constant intermediate columns\<close>

lemma substitution_same:
  assumes "post_visit_expressions_in_identities f pf = Some pf'"
    "\<And>e e' row. post_visit f e = Some e' \<Longrightarrow> row < sem_rows S \<Longrightarrow>
      eval_expr (sem_field S) (sem_rows S) A e' row = eval_expr (sem_field S) (sem_rows S) (replace_columns g A) e row"
    "\<And>p c i. g p = Some c \<Longrightarrow> i < sem_rows S \<Longrightarrow> c i = col_value A p i"
  shows "identities_hold S A (identities pf') = identities_hold S A (identities pf)"
    "intermediates_hold S A (intermediate_columns pf') = intermediates_hold S A (intermediate_columns pf)"
proof -
  note v = visit_file_fields[OF assms(1)]
  have "sem_column S (replace_columns g A) e = sem_column S A e" for e
    by (rule column_same_columns) (auto simp: assms(3) split: option.split)
  moreover have "sem_column S A e' = sem_column S (replace_columns g A) e" if "post_visit f e = Some e'" for e e'
    using assms(2)[OF that] by (simp add: eval_column_def)
  ultimately have col: "sem_column S A e' = sem_column S A e" if "post_visit f e = Some e'" for e e' using that by simp
  show "identities_hold S A (identities pf') = identities_hold S A (identities pf)"
    by (rule visited_identities_hold[OF v(1)]) (use col in auto)
  show "intermediates_hold S A (intermediate_columns pf') = intermediates_hold S A (intermediate_columns pf)"
    by (rule visited_intermediates_hold[OF v(2)]) (use col in auto)
qed

definition intermediates_ok :: "field_desc \<Rightarrow> pil_file \<Rightarrow> bool" where
  "intermediates_ok F pf \<longleftrightarrow> (\<forall>(n, s, es) \<in> set (intermediate_columns pf).
     (\<exists>ps. symbol_elements s = Some ps \<and> length ps = length es) \<and> (\<forall>e \<in> set es. numbers_canonical F e))"

lemma intermediate_in_source_order: "(s, es) \<in> set (intermediate_polys_in_source_order pf) \<Longrightarrow> \<exists>n. (n, s, es) \<in> set (intermediate_columns pf)"
proof -
  assume "(s, es) \<in> set (intermediate_polys_in_source_order pf)"
  then obtain st where "(case st of SI_Definition name \<Rightarrow> map_of (intermediate_columns pf) name | _ \<Rightarrow> None) = Some (s, es)"
    unfolding intermediate_polys_in_source_order_def in_map_filter by blast
  then show ?thesis by (cases st) (auto dest!: map_of_SomeD)
qed

lemma constant_intermediate_entry:
  assumes "intermediates_ok F pf" "(n, s, es) \<in> set (intermediate_columns pf)" "constant_intermediate (s, es) = Some (Some ((name, p), v))"
  shows "symbol_elements s = Some [p]" "es = [PE_Number v]" "canonical F v"
proof -
  obtain ps where ps: "symbol_elements s = Some ps" "length ps = length es" "\<forall>e \<in> set es. numbers_canonical F e"
    using assms(1,2) by (auto simp: intermediates_ok_def)
  have "\<not> is_array s" using assms(3) ps(1) by (auto simp: constant_intermediate_def bind_eq_Some_conv split: if_splits)
  then have "length ps = 1" using ps(1) by (auto simp: symbol_elements_def is_array_def split: symbol_kind.splits)
  then obtain q e where q: "ps = [q]" "es = [e]" using ps(2) by (auto simp: length_Suc_conv)
  with assms(3) ps(1) \<open>\<not> is_array s\<close> show "symbol_elements s = Some [p]" "es = [PE_Number v]"
    by (auto simp: constant_intermediate_def split: pil_expr.splits)
  with ps(3) show "canonical F v" by simp
qed

lemma constant_intermediate_total:
  assumes "intermediates_ok F pf" "(n, s, es) \<in> set (intermediate_columns pf)"
  shows "\<exists>c. constant_intermediate (s, es) = Some c"
proof -
  obtain ps where ps: "symbol_elements s = Some ps" "length ps = length es" using assms by (auto simp: intermediates_ok_def)
  have "is_array s \<or> es \<noteq> []" using ps by (auto simp: symbol_elements_def is_array_def split: symbol_kind.splits)
  with ps(1) show ?thesis by (auto simp: constant_intermediate_def)
qed

text \<open>An intermediate column that is defined as a number holds the number.\<close>

lemma intermediate_value:
  assumes "intermediates_hold S A ics" "(n, s, [PE_Number v]) \<in> set ics" "symbol_elements s = Some [p]" "i < sem_rows S"
  shows "col_value A p i = fe_from (sem_field S) v"
proof -
  have "map (col_value A p) [0..<sem_rows S] = sem_column S A (PE_Number v)"
    using assms(1-3) by (fastforce simp: intermediates_hold_def)
  then have "map (col_value A p) [0..<sem_rows S] ! i = sem_column S A (PE_Number v) ! i" by simp
  with assms(4) show ?thesis by (simp add: eval_column_def)
qed

text \<open>Constant intermediate columns. Replacing the references to intermediate columns that are defined
  as a number by the number never panics on canonical numbers, and exactly the same assignments satisfy
  the system.\<close>

theorem constant_intermediates_equivalent:
  assumes "field_element (sem_field S)" "intermediates_ok (sem_field S) pf"
  shows "\<exists>pf'. remove_constant_intermediate_columns (sem_field S) pf = Some pf' \<and> (\<forall>A. satisfies S A pf' \<longleftrightarrow> satisfies S A pf)"
proof -
  let ?F = "sem_field S"
  obtain found where found: "visit_all constant_intermediate (intermediate_polys_in_source_order pf) = Some found"
    using visit_all_total[of "intermediate_polys_in_source_order pf" constant_intermediate] constant_intermediate_total[OF assms(2)]
      intermediate_in_source_order by (metis surj_pair)
  let ?subs = "List.map_filter (\<lambda>c. c) found"
  let ?by_id = "hash_map_of (map (\<lambda>((name, i), v). (i, v)) ?subs)" and ?g = "constant_replacement ?F ?subs"
  let ?pf1 = "post_visit_expressions (substitute_function (hash_map_of (map (\<lambda>((name, i), v). (name, v)) ?subs))) pf"
  have entry: "\<exists>n s. (n, s, [PE_Number v]) \<in> set (intermediate_columns pf) \<and> symbol_elements s = Some [p] \<and> canonical ?F v"
    if by_id: "?by_id p = Some v" for p v
  proof -
    obtain name where "((name, p), v) \<in> set ?subs" using hash_map_of_entry[OF by_id] by auto
    then have "Some ((name, p), v) \<in> set found" by (simp add: in_map_filter)
    then obtain s es where c: "(s, es) \<in> set (intermediate_polys_in_source_order pf)" "constant_intermediate (s, es) = Some (Some ((name, p), v))"
      using list_all2_memR[OF found[unfolded visit_all_Some]] by fastforce
    then obtain n where n: "(n, s, es) \<in> set (intermediate_columns pf)" using intermediate_in_source_order by blast
    with constant_intermediate_entry[OF assms(2) n c(2)] show ?thesis by blast
  qed
  then have "v < modulus ?F" if "?by_id p = Some v" for p v using that by (fastforce simp: canonical_def)
  then obtain pf' where pf': "post_visit_expressions_in_identities (substitute_number ?F ?by_id) ?pf1 = Some pf'"
    using visit_file_total[OF substitute_number_total[of ?by_id ?F]] by blast
  have same: "identities ?pf1 = identities pf" "intermediate_columns ?pf1 = intermediate_columns pf" by (simp_all add: post_visit_expressions_def)
  have agree: "c i = col_value A p i" if c: "?g p = Some c" "i < sem_rows S" and A: "satisfies S A pf \<or> satisfies S A pf'" for A p c i
  proof -
    obtain v where v: "?by_id p = Some v" "c = (\<lambda>row. fe_from ?F v)" using c(1) unfolding constant_replacement_def map_option_eq_Some by blast
    obtain n s where ns: "(n, s, [PE_Number v]) \<in> set (intermediate_columns pf)" "symbol_elements s = Some [p]" using entry[OF v(1)] by blast
    have "list_all2 (\<lambda>x y. visit_intermediate (substitute_number ?F ?by_id) x = Some y) (intermediate_columns pf) (intermediate_columns pf')"
      using visit_file_fields(2)[OF pf'] unfolding same visit_all_Some .
    from list_all2_memL[OF this ns(1)] have "(n, s, [PE_Number v]) \<in> set (intermediate_columns pf')" by (simp add: visit_intermediate_def)
    with A ns c(2) show ?thesis unfolding v(2) satisfies_def by (auto dest!: intermediate_value)
  qed
  have pub: "publics_hold pf' A = publics_hold pf A" for A
    using publics_hold_cong[OF visit_file_fields(3,4)[OF pf'], of A] by (simp add: publics_hold_visit)
  have "satisfies S A pf' \<longleftrightarrow> satisfies S A pf" for A
  proof (cases "satisfies S A pf \<or> satisfies S A pf'")
    case True
    have "identities_hold S A (identities pf') = identities_hold S A (identities ?pf1)"
      "intermediates_hold S A (intermediate_columns pf') = intermediates_hold S A (intermediate_columns ?pf1)"
      by (rule substitution_same[OF pf', of S A ?g]; (erule substitute_number_eval | erule (1) agree[OF _ _ True]))+
    then show ?thesis by (simp add: satisfies_def pub same)
  qed blast
  then show ?thesis using pf' by (auto simp: remove_constant_intermediate_columns_def found substitute_polynomial_references_def Let_def)
qed

section \<open>Constant fixed columns\<close>

text \<open>The values of fixed columns are those of their definitions, here of the ones that are constant.\<close>

definition fixed_columns_hold :: "semantics \<Rightarrow> assignment \<Rightarrow> pil_file \<Rightarrow> bool" where
  "fixed_columns_hold S A pf \<longleftrightarrow> (\<forall>(n, s, d) \<in> set (definitions pf). \<forall>d' v p. d = Some d' \<longrightarrow> fixed_constant_value d' = Some v \<longrightarrow>
     symbol_poly_id s = Some p \<longrightarrow> ptype p = Constant \<longrightarrow> (\<forall>row < sem_rows S. col_value A p row = fe_from (sem_field S) v))"

lemma definition_in_source_order:
  assumes "(s, d) \<in> set (definitions_in_source_order pt pf)"
  shows "(\<exists>n. (n, s, d) \<in> set (definitions pf)) \<and> symbol_kind s = SK_Poly pt"
proof -
  obtain st where "(case st of SI_Definition name \<Rightarrow> (case map_of (definitions pf) name of
      Some (s, d) \<Rightarrow> if symbol_kind s = SK_Poly pt then Some (s, d) else None | None \<Rightarrow> None) | _ \<Rightarrow> None) = Some (s, d)"
    using assms unfolding definitions_in_source_order_def in_map_filter by blast
  then show ?thesis by (cases st) (auto split: option.splits if_splits dest!: map_of_SomeD)
qed

lemma constant_fixed_entry:
  assumes "((name, p), v) \<in> set (constant_fixed_columns pf)"
  shows "\<exists>n s d. (n, s, Some d) \<in> set (definitions pf) \<and> fixed_constant_value d = Some v \<and> symbol_poly_id s = Some p \<and> ptype p = Constant"
proof -
  obtain s d where s: "(s, Some d) \<in> set (definitions_in_source_order Constant pf)" "fixed_constant_value d = Some v" "symbol_poly_id s = Some p"
    using assms by (auto simp: constant_fixed_columns_def in_map_filter bind_eq_Some_conv split: if_splits)
  moreover have "ptype p = Constant" using definition_in_source_order[OF s(1)] s(3) by (auto simp: symbol_poly_id_def)
  ultimately show ?thesis using definition_in_source_order[OF s(1)] by blast
qed

text \<open>Replacing the references to constant fixed columns by their value never panics when the values are below
  the modulus, and keeps the satisfying assignments whose fixed columns hold their definitions.\<close>

theorem constant_fixed_equivalent:
  assumes "\<forall>(k, v) \<in> set (constant_fixed_columns pf). v < modulus (sem_field S)"
  shows "\<exists>pf'. remove_constant_fixed_columns (sem_field S) pf = Some pf' \<and>
    (\<forall>A. fixed_columns_hold S A pf \<longrightarrow> (satisfies S A pf' \<longleftrightarrow> satisfies S A pf))"
proof -
  let ?F = "sem_field S" and ?subs = "constant_fixed_columns pf"
  let ?by_id = "hash_map_of (map (\<lambda>((name, i), v). (i, v)) ?subs)" and ?g = "constant_replacement (sem_field S) (constant_fixed_columns pf)"
  let ?pf1 = "post_visit_expressions (substitute_function (hash_map_of (map (\<lambda>((name, i), v). (name, v)) ?subs))) pf"
  have entry: "\<exists>name. ((name, p), v) \<in> set ?subs" if "?by_id p = Some v" for p v using hash_map_of_entry[OF that] by auto
  then have "v < modulus ?F" if "?by_id p = Some v" for p v using that assms by blast
  then obtain pf' where pf': "post_visit_expressions_in_identities (substitute_number ?F ?by_id) ?pf1 = Some pf'"
    using visit_file_total[OF substitute_number_total[of ?by_id ?F]] by blast
  have same: "identities ?pf1 = identities pf" "intermediate_columns ?pf1 = intermediate_columns pf" by (simp_all add: post_visit_expressions_def)
  have pub: "publics_hold pf' A = publics_hold pf A" for A
    using publics_hold_cong[OF visit_file_fields(3,4)[OF pf'], of A] by (simp add: publics_hold_visit)
  have "satisfies S A pf' \<longleftrightarrow> satisfies S A pf" if A: "fixed_columns_hold S A pf" for A
  proof -
    have agree: "c i = col_value A p i" if c: "?g p = Some c" "i < sem_rows S" for p c i
    proof -
      obtain v where v: "?by_id p = Some v" "c = (\<lambda>row. fe_from ?F v)" using c(1) unfolding constant_replacement_def map_option_eq_Some by blast
      then obtain n s d where "(n, s, Some d) \<in> set (definitions pf)" "fixed_constant_value d = Some v" "symbol_poly_id s = Some p" "ptype p = Constant"
        using entry constant_fixed_entry by blast
      with A c(2) show ?thesis unfolding v(2) fixed_columns_hold_def by fastforce
    qed
    have "identities_hold S A (identities pf') = identities_hold S A (identities ?pf1)"
      "intermediates_hold S A (intermediate_columns pf') = intermediates_hold S A (intermediate_columns ?pf1)"
      by (rule substitution_same[OF pf', of S A ?g]; (erule substitute_number_eval | erule (1) agree))+
    then show ?thesis by (simp add: satisfies_def pub same)
  qed
  then show ?thesis using pf' by (auto simp: remove_constant_fixed_columns_def substitute_polynomial_references_def Let_def)
qed

section \<open>The order of the statements\<close>

lemma visit_order: "post_visit_expressions_in_identities f pf = Some pf' \<Longrightarrow> source_order_ok pf' = source_order_ok pf"
  using visit_file_fields(5,6) by (simp add: source_order_ok_def)

lemma visit_functions_order: "source_order_ok (post_visit_expressions f pf) = source_order_ok pf"
  by (simp add: source_order_ok_def post_visit_expressions_def)

lemma append_all_order: "source_order_ok pf \<Longrightarrow> source_order_ok (fold append_polynomial_identity es pf)"
  by (induction es arbitrary: pf) (simp_all add: append_order)

lemma substitute_order: "substitute_polynomial_references F pf subs = Some pf' \<Longrightarrow> source_order_ok pf' = source_order_ok pf"
  by (auto simp: substitute_polynomial_references_def Let_def visit_functions_order dest!: visit_order)


section \<open>Examples\<close>

lemma two_columns_order: "source_order_ok (two_columns pubs ids)"
proof -
  have "proof_items (map SI_ProofItem is) = is" for "is" by (induction "is") simp_all
  then show ?thesis by (simp add: source_order_ok_def two_columns_def)
qed


theorem trivial_removal_equivalent_witness:
  "\<exists>pf'. remove_trivial_identities (two_columns [] [Id_Polynomial 0 (PE_Number 0), equal_xy]) = Some pf' \<and> satisfies one_row (two_values 3 3) pf'"
proof -
  let ?pf = "two_columns [] [Id_Polynomial 0 (PE_Number 0), equal_xy]"
  have "field_element (sem_field one_row)" by (simp add: one_row_def goldilocks_field_element)
  moreover have "empties_ok ?pf" by (simp add: empties_ok_def two_columns_def equal_xy_def)
  moreover have "satisfies one_row (two_values 3 3) ?pf" by (simp add: example_defs equal_xy_def)
  ultimately show ?thesis using trivial_removal_equivalent[of one_row ?pf] two_columns_order by blast
qed

theorem duplicate_removal_equivalent_witness:
  "\<exists>pf'. remove_duplicate_identities (two_columns [] [equal_xy, equal_xy]) = Some pf' \<and> satisfies one_row (two_values 3 3) pf'"
proof -
  have "satisfies one_row (two_values 3 3) (two_columns [] [equal_xy, equal_xy])" by (simp add: example_defs equal_xy_def)
  with duplicate_removal_equivalent[OF two_columns_order, of "[]" "[equal_xy, equal_xy]"] show ?thesis by blast
qed

theorem constant_intermediates_equivalent_witness:
  "\<exists>pf'. remove_constant_intermediate_columns goldilocks_field (two_columns [] [equal_xy]\<lparr>intermediate_columns :=
      [(''z'', \<lparr>symbol_id = 0, symbol_name = ''z'', symbol_kind = SK_Poly Intermediate, symbol_length = None\<rparr>, [PE_Number 0])]\<rparr>) = Some pf' \<and>
    satisfies one_row (two_values 3 3) pf'"
proof -
  let ?pf = "two_columns [] [equal_xy]\<lparr>intermediate_columns :=
      [(''z'', \<lparr>symbol_id = 0, symbol_name = ''z'', symbol_kind = SK_Poly Intermediate, symbol_length = None\<rparr>, [PE_Number 0])]\<rparr>"
  have f: "field_element (sem_field one_row)" "sem_field one_row = goldilocks_field" by (simp_all add: one_row_def goldilocks_field_element)
  have "intermediates_ok (sem_field one_row) ?pf" by (simp add: intermediates_ok_def symbol_elements_def canonical_def one_row_def)
  moreover have "satisfies one_row (two_values 3 3) ?pf" by (simp add: example_defs equal_xy_def)
  ultimately show ?thesis using constant_intermediates_equivalent[OF f(1), of ?pf] f(2) by auto
qed

end
