(* ===== verification/Spec2Isabelle.thy ===== *)
theory Spec2Isabelle
  imports Affine_Symbolic Padded_Bitvec Riscv_Control Riscv_Executor Riscv_Split Riscv_Erasure Riscv_Run Riscv_Traced Merkle_Tree Pilopt_Passes
begin

text \<open>
  A verification library for powdr, a toolkit for zero-knowledge virtual machines.

  \<^bold>\<open>The program.\<close> powdr compiles a program for a virtual machine (written in its assembly
  language, or RISC-V code translated to it) into a system of polynomial constraints over a finite
  field, and computes a witness: a table of field elements that satisfies the constraints. A proof
  backend then proves that such a witness exists. The pieces that carry the meaning of a proof are
  the field arithmetic (\<open>number/\<close>), the witness generator that solves constraints
  (\<open>executor/\<close>) and the RISC-V executor that produces the witness of the zkVM directly
  (\<open>riscv-executor/\<close>). These are modelled here. A panic of the Rust code (a failed assertion, an
  \<open>unwrap\<close> of \<open>None\<close>, an overflow in a debug build, an index out of range) is the value
  \<^const>\<open>None\<close> of the model; errors the code returns are values of its own error types.

  \<^bold>\<open>Fields.\<close> \<open>Prelude\<close> holds the shared automation, \<open>Primality\<close> a primality certificate check for
  the moduli. \<open>Field_Trait\<close> is the interface \<open>FieldElement\<close> of \<open>number/src/traits.rs\<close>: a
  description record, and the locale \<open>field_element\<close> with the laws its clients use (prime modulus,
  exact operations on canonical values). \<open>Goldilocks\<close> is \<open>number/src/goldilocks.rs\<close> at the level
  of 64-bit and 128-bit words: reduction, the inverse by an addition chain, powers, conversions.
  Its theorems say that the word operations never panic and are the field operations, and it
  interprets the locale on them.

  \<^bold>\<open>Witness generation.\<close> \<open>Range_Constraints\<close> is \<open>executor/src/witgen/range_constraints.rs\<close>:
  interval and bit mask of a variable; each operation is shown sound with respect to the set of
  allowed values. \<open>Eval_Result\<close>, \<open>Affine_Expression\<close> are \<open>eval_result.rs\<close> and
  \<open>affine_expression.rs\<close>: the solver of affine equations with range constraints. \<open>Btree_Map\<close> models
  the sorted maps of the code, \<open>Symbolic_Expression\<close>, \<open>Effects\<close> and \<open>Affine_Symbolic\<close> the
  compile-time solver of \<open>jit/symbolic_expression.rs\<close>, \<open>jit/effect.rs\<close> and
  \<open>jit/affine_symbolic_expression.rs\<close>: every effect it emits holds in every solution of the
  equation. \<open>Padded_Bitvec\<close> is \<open>data_structures/padded_bitvec.rs\<close>, shown to implement a list of
  rows of bits.

  \<^bold>\<open>RISC-V executor.\<close> \<open>Riscv_Elem\<close> holds the values (\<open>Elem\<close>), \<open>Riscv_Arith\<close> the 256-bit
  arithmetic of \<open>arith.rs\<close>, \<open>Riscv_Poseidon\<close> the permutation of \<open>poseidon_gl.rs\<close>, \<open>Riscv_Pil\<close> the
  search for links of \<open>pil.rs\<close>. \<open>Riscv_Trace\<close> is the module \<open>builder\<close> of \<open>lib.rs\<close>: the registers,
  the memory and the recorded trace in the three modes (fast, trace, witness).
  \<open>Riscv_Instructions\<close> has one definition per instruction of \<open>exec_instruction\<close>, each with the
  register and memory accesses, the submachine calls and the witness columns it sets;
  \<open>Riscv_Executor\<close> the expressions, the preprocessing, the statements and the main loop.
  \<open>Riscv_Lemmas\<close>, \<open>Riscv_Semantics\<close> and \<open>Riscv_Control\<close> prove what the instructions do: the
  registers get the result the RISC-V instruction set demands, on 32-bit words, and the columns of
  the row satisfy the constraints that the zkVM definition states for the instruction.

  \<^bold>\<open>Submachines.\<close> The executor only records calls into the other machines of the zkVM; at the end
  each machine turns its calls into a table. \<open>Riscv_Submachines\<close> is the trace of a block machine of
  \<open>submachines.rs\<close> (rows, selectors, the row before the first block, dummy blocks), \<open>Riscv_Kinds\<close>
  its instances for bitwise operations, shifts, splitting of field elements and publics,
  \<open>Riscv_Poseidon_Machine\<close> the one for the permutation. \<open>Riscv_Blocks\<close> states in the locale
  \<open>block_kind\<close> what such an instance promises for one operation and proves what the finished table
  then is; \<open>Riscv_Binary\<close> and \<open>Riscv_Split\<close> interpret it and show that every row satisfies, cyclically,
  the constraints of the machine, and that the selected rows are the calls. \<open>Riscv_Memory\<close> does the
  same for the memory machine of \<open>memory.rs\<close>: sorting, differences, padding.

  \<^bold>\<open>Whole executions.\<close> \<open>Riscv_Erasure\<close> relates the modes: forgetting what is recorded turns every
  run into a run of the fast mode. \<open>Riscv_Invariants\<close> states in the locale \<open>exec_invariant\<close> what the
  few operations that change the state must keep, and proves once that everything from an instruction
  to the main loop and the closing rows keeps it; it is interpreted for the shape of the trace and,
  through \<open>memory_invariant\<close>, for the types of the memory, the log of the memory machine and the mode.
  \<open>Riscv_Run\<close> is \<open>TraceBuilder::finish\<close> and \<open>execute_inner\<close> with its entry points; its theorems compose
  the invariants with the machines. \<open>Riscv_Traced\<close> evaluates one execution.

  \<^bold>\<open>Continuations.\<close> A long execution is cut into chunks, and a Merkle tree over the pages of the memory
  connects them. \<open>Merkle_Tree\<close> is \<open>riscv/src/continuations/memory_merkle_tree.rs\<close>: updates, in a batch or
  page by page, keep the invariant that every node holds the hash of the memory below it and write the
  memory, and the proof returned for a page leads to the root hash.

  \<^bold>\<open>Optimizer.\<close> Before proving, \<open>pilopt/src/lib.rs\<close> simplifies the constraint system. \<open>Pil_Analyzed\<close> is the
  system of \<open>ast/src/analyzed/mod.rs\<close>: expressions, identities, symbols, publics, the order of the
  statements, and what it means that an assignment of the columns, all with the same number of rows,
  satisfies it. \<open>Pilopt\<close> has one definition per pass. \<open>Pilopt_Correct\<close> treats simplification and columns
  constrained to a constant, \<open>Pilopt_Equal\<close> columns constrained to be equal and the resolution of chains,
  \<open>Pilopt_Lookups\<close> the extraction of constants from lookups, \<open>Pilopt_Passes\<close> the other passes and the order
  of the statements. Each theorem compares the assignments that satisfy the system before and after the
  pass; two show where assignments are gained (a public of a replaced column) or lost (a lookup that is
  not selected).

  \<^bold>\<open>Fuel.\<close> The main loop of the executor need not end, so \<open>exec_loop\<close> takes a number of iterations
  and returns the running state when they are used up. \<open>fill_to_degree\<close> and \<open>push_rows_until\<close> take as
  many iterations as rows can be missing, each adds at least one, and the theorems on the machines
  show that they are enough. The resolution of chains in the optimizer is a partial function, shown to end
  on the substitutions the optimizer makes. All other loops are total functions.

  \<^bold>\<open>Parameters.\<close> Poseidon2, Keccak and the secp256k1 point operations of third-party crates, the
  callback that answers queries, and the fixed columns are arguments of the definitions.

  \<^bold>\<open>Not modelled.\<close> The proof backends call external provers; the compiler front end (parser,
  analyzer, linker, translation of assembly to constraints, translation of RISC-V binaries) consists of
  large tree transformations around a language of its own; of the optimizer, the removal of unreferenced
  definitions, the merging of fixed columns and the loop around the passes are left out; command
  line, pipeline and profiler are input and output; the generated Rust code of the just-in-time
  compiler is text for \<open>rustc\<close>. In the executor crate, the row-based processors and the machines
  are not modelled.
\<close>

end
